(* ===== verification/Harness_Prelude.thy ===== *)
theory Harness_Prelude
  imports Main "HOL-Library.AList" "HOL-Library.Multiset" "HOL-Library.Char_ord"
    "HOL-Library.List_Lexorder" Complex_Main
begin

text \<open>
  Shared vocabulary of the development: the errors the components throw, the \<open>error + value\<close>
  results that stand for ``returns or throws'', the JavaScript collections the sources use (an
  insertion-ordered \<^verbatim>\<open>Map\<close>, \<^verbatim>\<open>new Set(...)\<close>, \<^verbatim>\<open>Array.prototype.sort\<close>), and the host functions of the
  platform that the sources call and do not define.

  Conventions.
  \<^item> A thrown error is \<open>Inl kind\<close>; the message text of an error is not modelled.
  \<^item> A JavaScript \<^verbatim>\<open>number\<close> whose integrality the code checks at run time is a \<open>rat\<close>; one a schema
    already pins to the integers is an \<open>int\<close> or a \<open>nat\<close>.
  \<^item> Text is a \<open>string\<close>, a list of code units; the order on strings is the lexicographic order of
    the code units, which is what \<^verbatim>\<open><\<close> and the default \<^verbatim>\<open>sort()\<close> use.
\<close>

section \<open>Host functions\<close>

text \<open>
  What the platform provides: Unicode NFC (\<^verbatim>\<open>String.prototype.normalize\<close>), collation
  (\<^verbatim>\<open>localeCompare\<close>), the SHA-256 digest in hex, the decimal form of a number, ISO timestamps
  (\<^verbatim>\<open>Date.parse\<close> with \<open>None\<close> for \<^verbatim>\<open>NaN\<close>, \<^verbatim>\<open>toISOString\<close>) and the \<^verbatim>\<open>date-time\<close> format check of the
  schema validator. Every definition that needs one takes the record as an argument; a theorem that
  relies on more than the type of a host function says so in a hypothesis.
\<close>

record host =
  h_nfc :: "string \<Rightarrow> string"
  h_localeCompare :: "string \<Rightarrow> string \<Rightarrow> int"
  h_sha256 :: "string \<Rightarrow> string"
  h_number :: "rat \<Rightarrow> string"
  h_dateParse :: "string \<Rightarrow> int option"
  h_toIso :: "int \<Rightarrow> string"
  h_isDateTime :: "string \<Rightarrow> bool"

section \<open>Errors\<close>

datatype planning_error_kind =
    invalid_specification | embedded_command | unknown_tool | capability_expansion
  | unknown_gate | missing_gate | dependency_cycle | no_independent_value
  | atomic_acceptance_required | uncovered_test | task_too_large | dag_limit_exceeded
  | wave_drift | plan_projection_drift

datatype resource_lock_error_kind = resource_busy | release_mismatch | unknown_task

datatype task_lease_error_kind =
    policy_not_allowed | approval_not_satisfied | decision_binding_mismatch | invalid_retry
  | invalid_transition | consumed_budget_regression | lease_stale_fencing_token
  | command_conflict | lease_chain_inconsistent

datatype budget_error_kind =
    invalid_amount | budget_exhausted | task_budget_exceeded | reservation_conflict
  | unknown_reservation | stale_fencing_token | consumed_exceeds_reserved
  | deadline_exceeded | account_inconsistent

datatype policy_error_kind =
    invalid_action | invalid_policy | policy_conflict | policy_capability_expansion | boundary_violation

datatype operation_dag_error_kind =
    unknown_capability | duplicate_node | unknown_dependency | dag_cycle | output_conflict | unsatisfied_input

datatype dag_engine_error_kind =
    missing_node_runner | module_node_without_capability | runner_output_mismatch

datatype loop_error_kind =
    invalid_loop_policy | invalid_task_envelope | invalid_loop_phase | loop_already_terminated | invalid_step_result

datatype working_state_error_kind = working_state_writer_required | invalid_working_state | budget_ceiling

datatype workflow_error_kind =
    wf_operation_not_found | wf_operation_corrupt | wf_operation_not_blocked | wf_operation_terminal | wf_working_state_missing
  | wf_checkpoint_not_found | wf_run_not_found | wf_run_already_terminated | wf_baseline_mismatch | wf_approval_invalid
  | wf_context_bundle_invalid | wf_ledger_failure

text \<open>The kind of a capability compile error is a string in the source.\<close>

datatype harness_error =
    CanonicalJsonError
  | LocatorError
  | PlanningError planning_error_kind
  | ResourceLockError resource_lock_error_kind
  | SchedulingRecordError
  | TaskLeaseError task_lease_error_kind
  | BudgetAccountingError budget_error_kind
  | InvalidStateTransition
  | WorkflowError workflow_error_kind
  | NodeError
  | ImpactError
  | PolicyError policy_error_kind
  | CapabilityRegistryError
  | OperationDagError operation_dag_error_kind
  | DagEngineError dag_engine_error_kind
  | LoopError loop_error_kind
  | WorkingStateError working_state_error_kind
  | CapabilityCompileError string
  | JsTypeError
  | SystemError

type_synonym 'a result = "harness_error + 'a"

section \<open>Results\<close>

named_theorems result_simps \<open>inversion of successful results\<close>

definition rbind :: "'e + 'a \<Rightarrow> ('a \<Rightarrow> 'e + 'b) \<Rightarrow> 'e + 'b" where
  "rbind r f = (case r of Inl e \<Rightarrow> Inl e | Inr x \<Rightarrow> f x)"

definition rguard :: "bool \<Rightarrow> 'e \<Rightarrow> 'e + unit" where
  "rguard c e = (if c then Inr () else Inl e)"

text \<open>\<open>mapR\<close> is \<^verbatim>\<open>Array.map\<close> and \<open>foldR\<close> a \<^verbatim>\<open>for ... of\<close> loop with a body that may throw.\<close>

fun mapR :: "('a \<Rightarrow> 'e + 'b) \<Rightarrow> 'a list \<Rightarrow> 'e + 'b list" where
  "mapR f [] = Inr []"
| "mapR f (x # xs) = rbind (f x) (\<lambda>y. rbind (mapR f xs) (\<lambda>ys. Inr (y # ys)))"

fun foldR :: "('s \<Rightarrow> 'a \<Rightarrow> 'e + 's) \<Rightarrow> 's \<Rightarrow> 'a list \<Rightarrow> 'e + 's" where
  "foldR f s [] = Inr s"
| "foldR f s (x # xs) = rbind (f s x) (\<lambda>s'. foldR f s' xs)"

lemma rbind_simps [simp]:
  "rbind (Inl e) f = Inl e"
  "rbind (Inr x) f = f x"
  by (simp_all add: rbind_def)

lemma rbind_Inr_iff [result_simps]:
  "rbind r f = Inr y \<longleftrightarrow> (\<exists>x. r = Inr x \<and> f x = Inr y)"
  by (cases r) auto

lemma rbind_right [simp]: "rbind r Inr = r"
  by (cases r) auto

lemma rbind_Inl_iff:
  "rbind r f = Inl e \<longleftrightarrow> r = Inl e \<or> (\<exists>x. r = Inr x \<and> f x = Inl e)"
  by (cases r) auto

lemma rguard_Inr_iff [simp, result_simps]: "rguard c e = Inr u \<longleftrightarrow> c"
  by (simp add: rguard_def)

lemma rguard_Inl_iff [simp]: "rguard c e = Inl e' \<longleftrightarrow> \<not> c \<and> e' = e"
  by (auto simp: rguard_def)

lemma rguard_simps [simp]:
  "rguard True e = Inr ()"
  "rguard False e = Inl e"
  by (simp_all add: rguard_def)

lemma rbind_cong [fundef_cong]:
  "r = r' \<Longrightarrow> (\<And>x. r' = Inr x \<Longrightarrow> f x = g x) \<Longrightarrow> rbind r f = rbind r' g"
  by (cases r') auto

lemma mapR_Inr_iff: "mapR f xs = Inr ys \<longleftrightarrow> list_all2 (\<lambda>x y. f x = Inr y) xs ys"
proof (induction xs arbitrary: ys)
  case (Cons x xs)
  then show ?case by (cases ys) (auto simp: rbind_Inr_iff)
qed auto

lemma mapR_Inr_set: "mapR f xs = Inr ys \<Longrightarrow> x \<in> set xs \<Longrightarrow> \<exists>y \<in> set ys. f x = Inr y"
  by (auto simp: mapR_Inr_iff list_all2_conv_all_nth in_set_conv_nth)

lemma mapR_Inr_source: "mapR f xs = Inr ys \<Longrightarrow> y \<in> set ys \<Longrightarrow> \<exists>x \<in> set xs. f x = Inr y"
  by (induction xs arbitrary: ys) (auto simp: rbind_Inr_iff)

lemma mapR_Inr_map: "mapR f xs = Inr ys \<Longrightarrow> (\<And>x y. f x = Inr y \<Longrightarrow> y = g x) \<Longrightarrow> ys = map g xs"
  by (induction xs arbitrary: ys) (auto simp: rbind_Inr_iff)

lemma mapR_exists: "(\<exists>ys. mapR f xs = Inr ys) \<longleftrightarrow> (\<forall>x \<in> set xs. \<exists>y. f x = Inr y)"
  by (induction xs) (auto simp: rbind_Inr_iff)

lemma mapR_total: "(\<And>x. x \<in> set xs \<Longrightarrow> f x = Inr (g x)) \<Longrightarrow> mapR f xs = Inr (map g xs)"
  by (induction xs) auto

lemma mapR_error: "mapR f xs = Inl e \<Longrightarrow> \<exists>x \<in> set xs. f x = Inl e"
  by (induction xs) (auto simp: rbind_Inl_iff)

lemma foldR_append: "foldR f s (xs @ ys) = rbind (foldR f s xs) (\<lambda>s'. foldR f s' ys)"
proof (induction xs arbitrary: s)
  case (Cons x xs)
  then show ?case by (cases "f s x") simp_all
qed simp

text \<open>An invariant of the loop body is an invariant of the loop.\<close>

lemma foldR_invariant:
  assumes "foldR f s xs = Inr s'" and "P s"
    and "\<And>s x s'. P s \<Longrightarrow> x \<in> set xs \<Longrightarrow> f s x = Inr s' \<Longrightarrow> P s'"
  shows "P s'"
  using assms
proof (induction xs arbitrary: s)
  case (Cons x xs)
  from Cons.prems(1) obtain s1 where "f s x = Inr s1" and rest: "foldR f s1 xs = Inr s'"
    by (auto simp: rbind_Inr_iff)
  from Cons.prems(2) \<open>f s x = Inr s1\<close> have "P s1"
    by (metis Cons.prems(3) list.set_intros(1))
  with rest show ?case
    by (rule Cons.IH) (metis Cons.prems(3) list.set_intros(2))
qed simp

section \<open>Collections\<close>

text \<open>
  A JavaScript \<^verbatim>\<open>Map\<close> (and an object used as one) keeps its keys in insertion order: \<^verbatim>\<open>set\<close> on a
  present key keeps its place. That is \<open>AList.update\<close>; \<^verbatim>\<open>get\<close> is \<open>map_of\<close>, \<^verbatim>\<open>delete\<close> is
  \<open>AList.delete\<close>.
\<close>

type_synonym ('k, 'v) jmap = "('k \<times> 'v) list"

abbreviation jm_get :: "('k, 'v) jmap \<Rightarrow> 'k \<Rightarrow> 'v option" where
  "jm_get m k \<equiv> map_of m k"

abbreviation jm_set :: "'k \<Rightarrow> 'v \<Rightarrow> ('k, 'v) jmap \<Rightarrow> ('k, 'v) jmap" where
  "jm_set k v m \<equiv> AList.update k v m"

abbreviation jm_del :: "'k \<Rightarrow> ('k, 'v) jmap \<Rightarrow> ('k, 'v) jmap" where
  "jm_del k m \<equiv> AList.delete k m"

text \<open>What the clients of a map rely on, whatever represents it.\<close>

locale map_store =
  fixes get :: "'m \<Rightarrow> 'k \<Rightarrow> 'v option"
    and put :: "'k \<Rightarrow> 'v \<Rightarrow> 'm \<Rightarrow> 'm"
    and del :: "'k \<Rightarrow> 'm \<Rightarrow> 'm"
  assumes get_put: "get (put k v m) = (get m)(k \<mapsto> v)"
    and get_del: "get (del k m) = (get m)(k := None)"
begin

lemma get_put_same: "get (put k v m) k = Some v"
  by (simp add: get_put)

lemma get_put_other: "k' \<noteq> k \<Longrightarrow> get (put k v m) k' = get m k'"
  by (simp add: get_put)

lemma get_del_put: "get m k = None \<Longrightarrow> get (del k (put k v m)) = get m"
  by (auto simp: get_put get_del)

end

interpretation jmap: map_store map_of AList.update AList.delete
  by unfold_locales (auto simp: update_conv' delete_conv')

declare jmap.get_put [simp] jmap.get_del [simp]

lemma delete_absent [simp]: "jm_get m k = None \<Longrightarrow> jm_del k m = m"
  by (simp add: map_of_eq_None_iff delete_idem)

text \<open>\<^verbatim>\<open>xs ?? []\<close>.\<close>

definition orList :: "'a list option \<Rightarrow> 'a list" where
  "orList v = (case v of None \<Rightarrow> [] | Some xs \<Rightarrow> xs)"

text \<open>\<^verbatim>\<open>[...new Set(xs)]\<close>: the first occurrence of each element, in order.\<close>

definition dedupe :: "'a list \<Rightarrow> 'a list" where
  "dedupe xs = rev (remdups (rev xs))"

lemma set_dedupe [simp]: "set (dedupe xs) = set xs"
  by (simp add: dedupe_def)

lemma distinct_dedupe [simp]: "distinct (dedupe xs)"
  by (simp add: dedupe_def)

lemma dedupe_distinct [simp]: "distinct xs \<Longrightarrow> dedupe xs = xs"
  by (simp add: dedupe_def distinct_remdups_id)

lemma length_dedupe_eq [simp]: "length (dedupe xs) = length xs \<longleftrightarrow> distinct xs"
proof -
  have "length (dedupe xs) = card (set xs)"
    by (simp add: dedupe_def length_remdups_card_conv)
  then show ?thesis by (metis card_distinct distinct_card)
qed

lemma sorted_wrt_concat:
  "sorted_wrt (\<lambda>g h. \<forall>x \<in> set g. \<forall>y \<in> set h. P x y) gs \<Longrightarrow> (\<And>g. g \<in> set gs \<Longrightarrow> sorted_wrt P g) \<Longrightarrow>
     sorted_wrt P (concat gs)"
  by (induction gs) (auto simp: sorted_wrt_append)

lemma notin_imageD: "y \<notin> f ` S \<Longrightarrow> x \<in> S \<Longrightarrow> f x \<noteq> y"
  by blast

lemma find_append: "find P (xs @ ys) = (case find P xs of None \<Rightarrow> find P ys | Some x \<Rightarrow> Some x)"
  by (induction xs) auto

text \<open>
  \<^verbatim>\<open>const group = groups.get(key) ?? []; group.push(x); groups.set(key, group)\<close>: grouping in order of
  first appearance.
\<close>

definition pushGroup :: "('a \<Rightarrow> 'k) \<Rightarrow> ('k, 'a list) jmap \<Rightarrow> 'a \<Rightarrow> ('k, 'a list) jmap" where
  "pushGroup key groups x =
     jm_set (key x) ((case jm_get groups (key x) of None \<Rightarrow> [] | Some g \<Rightarrow> g) @ [x]) groups"

lemma group_get:
  "map_of (foldl (pushGroup key) [] xs) k =
     (let g = filter (\<lambda>x. key x = k) xs in if g = [] then None else Some g)"
proof (induction xs rule: rev_induct)
  case (snoc x xs)
  then show ?case by (auto simp: pushGroup_def Let_def split: option.splits if_splits)
qed simp

lemma distinct_groups: "distinct (map fst (foldl (pushGroup key) [] xs))"
  by (induction xs rule: rev_induct) (auto simp: pushGroup_def intro: distinct_update)

lemma group_mem:
  "(k, g) \<in> set (foldl (pushGroup key) [] xs) \<longleftrightarrow> g = filter (\<lambda>x. key x = k) xs \<and> g \<noteq> []"
proof -
  have "(k, g) \<in> set (foldl (pushGroup key) [] xs) \<longleftrightarrow> map_of (foldl (pushGroup key) [] xs) k = Some g"
    by (simp add: distinct_groups)
  then show ?thesis by (auto simp: group_get Let_def)
qed

section \<open>Sorting with a comparator\<close>

text \<open>
  \<^verbatim>\<open>Array.prototype.sort(compare)\<close> is a stable sort: the element that came first stays first among
  elements the comparator does not separate.
\<close>

fun insert_by :: "('a \<Rightarrow> 'a \<Rightarrow> int) \<Rightarrow> 'a \<Rightarrow> 'a list \<Rightarrow> 'a list" where
  "insert_by c x [] = [x]"
| "insert_by c x (y # ys) = (if c x y \<le> 0 then x # y # ys else y # insert_by c x ys)"

definition sort_by :: "('a \<Rightarrow> 'a \<Rightarrow> int) \<Rightarrow> 'a list \<Rightarrow> 'a list" where
  "sort_by c xs = foldr (insert_by c) xs []"

lemma mset_insert_by [simp]: "mset (insert_by c x ys) = add_mset x (mset ys)"
  by (induction ys) auto

lemma mset_sort_by [simp]: "mset (sort_by c xs) = mset xs"
  by (induction xs) (auto simp: sort_by_def)

lemma set_sort_by [simp]: "set (sort_by c xs) = set xs"
  by (metis mset_sort_by set_mset_mset)

lemma length_sort_by [simp]: "length (sort_by c xs) = length xs"
  by (metis mset_sort_by size_mset)

lemma distinct_sort_by [simp]: "distinct (sort_by c xs) = distinct xs"
  by (rule mset_eq_imp_distinct_iff) simp

lemma sort_by_simps [simp]:
  "sort_by c [] = []"
  "sort_by c (x # xs) = insert_by c x (sort_by c xs)"
  by (simp_all add: sort_by_def)

text \<open>Only the comparisons of different elements matter.\<close>

lemma sort_by_cong:
  assumes "distinct xs" "\<And>x y. x \<in> set xs \<Longrightarrow> y \<in> set xs \<Longrightarrow> x \<noteq> y \<Longrightarrow> (c x y \<le> 0) = (d x y \<le> 0)"
  shows "sort_by c xs = sort_by d xs"
proof -
  have ins: "insert_by c x ys = insert_by d x ys" if "\<And>y. y \<in> set ys \<Longrightarrow> (c x y \<le> 0) = (d x y \<le> 0)" for x ys
    using that by (induction ys) auto
  show ?thesis using assms
  proof (induction xs)
    case (Cons x xs)
    then have "sort_by c xs = sort_by d xs" by simp
    moreover have "insert_by c x (sort_by d xs) = insert_by d x (sort_by d xs)"
      by (rule ins) (use Cons.prems in auto)
    ultimately show ?case by simp
  qed simp
qed

text \<open>A comparator that is a total preorder sorts; one that separates all elements sorts uniquely.\<close>

locale comparator_laws =
  fixes cmp :: "'a \<Rightarrow> 'a \<Rightarrow> int"
  assumes cmp_total: "cmp x y \<le> 0 \<or> cmp y x \<le> 0"
    and cmp_trans: "cmp x y \<le> 0 \<Longrightarrow> cmp y z \<le> 0 \<Longrightarrow> cmp x z \<le> 0"
begin

abbreviation leq :: "'a \<Rightarrow> 'a \<Rightarrow> bool" where
  "leq x y \<equiv> cmp x y \<le> 0"

lemma sorted_insert_by: "sorted_wrt leq ys \<Longrightarrow> sorted_wrt leq (insert_by cmp x ys)"
proof (induction ys)
  case (Cons y ys)
  have set_ins: "set (insert_by cmp x ys) = insert x (set ys)"
    by (metis mset_insert_by set_mset_add_mset_insert set_mset_mset)
  show ?case
  proof (cases "cmp x y \<le> 0")
    case True
    then show ?thesis using Cons.prems by (auto intro: cmp_trans)
  next
    case False
    then have "cmp y x \<le> 0" using cmp_total by blast
    then show ?thesis using False Cons by (auto simp: set_ins)
  qed
qed simp

lemma sorted_sort_by: "sorted_wrt leq (sort_by cmp xs)"
  by (induction xs) (auto intro: sorted_insert_by)

lemma insert_by_head: "(\<And>y. y \<in> set ys \<Longrightarrow> leq x y) \<Longrightarrow> insert_by cmp x ys = x # ys"
  by (cases ys) auto

lemma sort_by_sorted: "sorted_wrt leq xs \<Longrightarrow> sort_by cmp xs = xs"
  by (induction xs) (auto simp: insert_by_head)

lemma sort_by_unique:
  assumes anti: "\<And>x y. x \<in> set xs \<Longrightarrow> y \<in> set xs \<Longrightarrow> leq x y \<Longrightarrow> leq y x \<Longrightarrow> x = y"
    and "mset xs = mset ys"
  shows "sort_by cmp xs = sort_by cmp ys"
proof -
  have same: "\<And>us vs. sorted_wrt leq us \<Longrightarrow> sorted_wrt leq vs \<Longrightarrow> mset us = mset vs \<Longrightarrow>
      set us \<subseteq> set xs \<Longrightarrow> us = vs"
  proof -
    fix us vs
    show "sorted_wrt leq us \<Longrightarrow> sorted_wrt leq vs \<Longrightarrow> mset us = mset vs \<Longrightarrow> set us \<subseteq> set xs \<Longrightarrow> us = vs"
    proof (induction us arbitrary: vs)
      case Nil
      then show ?case by simp
    next
      case (Cons u us)
      then obtain v vs' where vs: "vs = v # vs'" by (cases vs) auto
      have sets: "set (u # us) = set vs" using Cons.prems(3) by (metis set_mset_mset)
      have refl: "leq u u" using cmp_total by blast
      have "leq u v" using Cons.prems(1) sets vs refl by auto
      moreover have "leq v u" using Cons.prems(2) sets vs cmp_total by fastforce
      moreover have "v \<in> set xs" using Cons.prems(4) sets vs by auto
      ultimately have "u = v" using anti Cons.prems(4) by auto
      then show ?case using Cons vs by auto
    qed
  qed
  show ?thesis
    by (rule same) (use assms(2) in \<open>auto simp: sorted_sort_by\<close>)
qed

end

text \<open>Filtering commutes with a stable sort.\<close>

context comparator_laws
begin

lemma filter_insert_by:
  "sorted_wrt leq ys \<Longrightarrow>
     filter P (insert_by cmp x ys) = (if P x then insert_by cmp x (filter P ys) else filter P ys)"
proof (induction ys)
  case (Cons y ys)
  have "insert_by cmp x (filter P ys) = x # filter P ys" if "cmp x y \<le> 0"
    by (rule insert_by_head) (use Cons.prems that cmp_trans in auto)
  then show ?case using Cons by auto
qed simp

lemma filter_sort_by: "filter P (sort_by cmp xs) = sort_by cmp (filter P xs)"
  by (induction xs) (auto simp: filter_insert_by sorted_sort_by)

end

text \<open>
  The contract of a \<^verbatim>\<open>compare\<close> function in ECMAScript (a ``consistent comparison function''), which
  \<^verbatim>\<open>localeCompare\<close> satisfies: swapping the arguments flips the sign. Such comparators can be chained
  with \<^verbatim>\<open>||\<close>.
\<close>

locale consistent_comparator = comparator_laws +
  assumes cmp_sign: "sgn (cmp x y) = - sgn (cmp y x)"
begin

lemma cmp_eq_iff: "cmp x y = 0 \<longleftrightarrow> leq x y \<and> leq y x"
  using cmp_sign [of x y] by (auto simp: sgn_if split: if_splits)

lemma cmp_zero_sym: "cmp x y = 0 \<longleftrightarrow> cmp y x = 0"
  by (auto simp: cmp_eq_iff)

end

text \<open>The collation tells different texts apart (no two different texts compare as equal).\<close>

definition collationSeparates :: "host \<Rightarrow> bool" where
  "collationSeparates H \<longleftrightarrow> (\<forall>x y. h_localeCompare H x y = 0 \<longrightarrow> x = y)"

definition orElse :: "('a \<Rightarrow> 'a \<Rightarrow> int) \<Rightarrow> ('a \<Rightarrow> 'a \<Rightarrow> int) \<Rightarrow> 'a \<Rightarrow> 'a \<Rightarrow> int" where
  "orElse c d x y = (if c x y \<noteq> 0 then c x y else d x y)"

lemma consistent_orElse:
  assumes "consistent_comparator c" "consistent_comparator d"
  shows "consistent_comparator (orElse c d)"
proof -
  note c = consistent_comparator.cmp_sign [OF assms(1)] consistent_comparator.cmp_eq_iff [OF assms(1)]
    comparator_laws.cmp_trans [OF consistent_comparator.axioms(1) [OF assms(1)]]
    comparator_laws.cmp_total [OF consistent_comparator.axioms(1) [OF assms(1)]]
  note d = consistent_comparator.cmp_sign [OF assms(2)]
    comparator_laws.cmp_trans [OF consistent_comparator.axioms(1) [OF assms(2)]]
    comparator_laws.cmp_total [OF consistent_comparator.axioms(1) [OF assms(2)]]
  show ?thesis
  proof unfold_locales
    show "orElse c d x y \<le> 0 \<or> orElse c d y x \<le> 0" for x y
      using c(2) [of x y] c(2) [of y x] c(4) [of x y] d(3) [of x y] by (auto simp: orElse_def)
    show "sgn (orElse c d x y) = - sgn (orElse c d y x)" for x y
      using c(1) [of x y] d(1) [of x y] by (auto simp: orElse_def sgn_0_0)
    show "orElse c d x z \<le> 0" if "orElse c d x y \<le> 0" "orElse c d y z \<le> 0" for x y z
    proof -
      have le: "c x y \<le> 0" "c y z \<le> 0" using that by (auto simp: orElse_def split: if_splits)
      then have xz: "c x z \<le> 0" using c(3) by blast
      show ?thesis
      proof (cases "c x z = 0")
        case True
        then have "c z x \<le> 0" using c(2) by auto
        then have "c x y = 0" "c y z = 0" using le c(2,3) by blast+
        then show ?thesis using True that d(2) [of x y z] by (simp add: orElse_def)
      next
        case False
        then show ?thesis using xz by (simp add: orElse_def)
      qed
    qed
  qed
qed

lemma consistent_key:
  assumes "consistent_comparator c"
  shows "consistent_comparator (\<lambda>x y. c (f x) (f y))"
  using assms unfolding consistent_comparator_def comparator_laws_def consistent_comparator_axioms_def by blast

lemma consistent_difference: "consistent_comparator (\<lambda>x y :: int. x - y)"
  by unfold_locales (auto simp: sgn_if)

text \<open>\<^verbatim>\<open>left < right ? -1 : left > right ? 1 : 0\<close>, the comparator of code-unit order.\<close>

definition codeUnitCompare :: "'a::linorder \<Rightarrow> 'a \<Rightarrow> int" where
  "codeUnitCompare x y = (if x < y then -1 else if x > y then 1 else 0)"

interpretation code_unit: consistent_comparator "codeUnitCompare :: 'a::linorder \<Rightarrow> 'a \<Rightarrow> int"
  by unfold_locales (auto simp: codeUnitCompare_def split: if_splits)

lemma sort_by_codeUnit: "sort_by codeUnitCompare xs = sort xs"
proof -
  have "sorted_wrt (\<lambda>x y. codeUnitCompare x y \<le> 0) (sort xs)"
    using sorted_sort [of xs]
    by (rule sorted_wrt_mono_rel [rotated]) (auto simp: codeUnitCompare_def)
  then have "sort_by codeUnitCompare (sort xs) = sort xs"
    by (rule code_unit.sort_by_sorted)
  moreover have "sort_by codeUnitCompare xs = sort_by codeUnitCompare (sort xs)"
    by (rule code_unit.sort_by_unique) (auto simp: codeUnitCompare_def split: if_splits)
  ultimately show ?thesis by simp
qed

section \<open>Numbers and lists\<close>

text \<open>\<^verbatim>\<open>Number.isInteger\<close>.\<close>

definition isInteger :: "rat \<Rightarrow> bool" where
  "isInteger x \<longleftrightarrow> of_int \<lfloor>x\<rfloor> = x"

lemma isInteger_of_int [simp]: "isInteger (of_int i)"
  by (simp add: isInteger_def)

lemma isInteger_numerals [simp]:
  "isInteger 0" "isInteger 1" "isInteger (numeral n)"
  by (simp_all add: isInteger_def)

lemma foldl_min: "foldl min (x :: 'a :: linorder) xs = Min (set (x # xs))"
proof (induction xs arbitrary: x)
  case (Cons y ys)
  have "Min (insert (min x y) (set ys)) = Min (insert x (insert y (set ys)))"
    by (cases "ys = []") (simp_all add: min.assoc)
  then show ?case using Cons by simp
qed simp

text \<open>\<^verbatim>\<open>text.startsWith(start)\<close>.\<close>

definition startsWith :: "string \<Rightarrow> string \<Rightarrow> bool" where
  "startsWith s p \<longleftrightarrow> take (length p) s = p"

lemma startsWith_iff: "startsWith s p \<longleftrightarrow> (\<exists>r. s = p @ r)"
  by (metis append_eq_conv_conj append_take_drop_id startsWith_def)

section \<open>An example host\<close>

text \<open>
  A small host the concrete evaluations use: text is already normalised, collation is code-unit order,
  a digest is 64 hexadecimal digits, a number is its numerator and denominator in unary, and a
  timestamp is its epoch value in unary.
\<close>

definition exampleNumber :: "rat \<Rightarrow> string" where
  "exampleNumber r = (case quotient_of r of (p, q) \<Rightarrow>
     (if p < 0 then ''-'' else []) @ replicate (nat \<bar>p\<bar>) CHR ''1'' @ ''.'' @ replicate (nat q) CHR ''1'')"

definition exampleDigest :: "string \<Rightarrow> string" where
  "exampleDigest s = (''0123456789abcdef'' ! (length s mod 16)) # replicate 63 CHR ''0''"

definition exampleHost :: host where
  "exampleHost = \<lparr>h_nfc = (\<lambda>s. s), h_localeCompare = codeUnitCompare, h_sha256 = exampleDigest,
     h_number = exampleNumber,
     h_dateParse = (\<lambda>s. if list_all (\<lambda>c. c = CHR ''i'') s then Some (int (length s)) else None),
     h_toIso = (\<lambda>t. replicate (nat t) CHR ''i''),
     h_isDateTime = list_all (\<lambda>c. c = CHR ''i'')\<rparr>"

lemma exampleHost_simps [simp]:
  "h_nfc exampleHost s = s" "h_localeCompare exampleHost = codeUnitCompare"
  "h_sha256 exampleHost = exampleDigest" "h_number exampleHost = exampleNumber"
  "h_dateParse exampleHost s = (if list_all (\<lambda>c. c = CHR ''i'') s then Some (int (length s)) else None)"
  "h_toIso exampleHost t = replicate (nat t) CHR ''i''"
  "h_isDateTime exampleHost s = list_all (\<lambda>c. c = CHR ''i'') s"
  by (simp_all add: exampleHost_def)

lemma exampleHost_collation:
  "consistent_comparator (h_localeCompare exampleHost)" "collationSeparates exampleHost"
  by (auto simp: code_unit.consistent_comparator_axioms collationSeparates_def codeUnitCompare_def split: if_splits)

lemma unary_split:
  "replicate a CHR ''1'' @ CHR ''.'' # replicate b CHR ''1'' = replicate c CHR ''1'' @ CHR ''.'' # replicate d CHR ''1''
     \<longleftrightarrow> a = c \<and> b = d"
proof -
  have dot: "CHR ''1'' \<noteq> CHR ''.''" by simp
  have "replicate a CHR ''1'' @ CHR ''.'' # xs = replicate c CHR ''1'' @ CHR ''.'' # ys \<longleftrightarrow> a = c \<and> xs = ys" for xs ys
  proof (induction a arbitrary: c)
    case 0
    then show ?case using dot by (cases c) auto
  next
    case (Suc a)
    then show ?case using dot by (cases c) auto
  qed
  then show ?thesis by simp
qed

lemma inj_exampleNumber: "inj exampleNumber"
proof (rule injI)
  fix r s assume eq: "exampleNumber r = exampleNumber s"
  obtain p q p' q' where r: "quotient_of r = (p, q)" and s: "quotient_of s = (p', q')" by fastforce
  have pos: "0 < q" "0 < q'" using r s quotient_of_denom_pos by auto
  have head: "hd (replicate n CHR ''1'' @ ''.'' @ xs) \<noteq> CHR ''-''" for n xs by (cases n) auto
  have sign: "p < 0 \<longleftrightarrow> p' < 0"
  proof (rule ccontr)
    assume "(p < 0) \<noteq> (p' < 0)"
    then show False using arg_cong [OF eq, of hd] head r s by (auto simp: exampleNumber_def split: if_splits)
  qed
  then have "nat \<bar>p\<bar> = nat \<bar>p'\<bar> \<and> nat q = nat q'"
    using eq r s by (simp add: exampleNumber_def unary_split split: if_splits)
  then have "p = p'" "q = q'" using sign pos by auto
  then show "r = s" using r s by (metis quotient_of_inject)
qed

lemma exampleNumber_nonempty [simp]: "exampleNumber r \<noteq> []"
  by (auto simp: exampleNumber_def split: prod.splits)

end
