(* ===== verification/Js_Text.thy ===== *)
theory Js_Text
  imports Harness_Prelude
begin

text \<open>
  The string functions of the language that the sources use: \<^verbatim>\<open>split\<close>, \<^verbatim>\<open>join\<close>, \<^verbatim>\<open>indexOf\<close> with
  \<^verbatim>\<open>slice\<close>, \<^verbatim>\<open>replaceAll\<close> of one character, and the character classes their regular expressions
  are built from. The lemmas relate \<open>splitOn\<close> and \<open>joinWith\<close>, and show that cutting a text at a
  separator undoes appending it.
\<close>

section \<open>Splitting and joining\<close>

fun splitOn :: "char \<Rightarrow> string \<Rightarrow> string list" where
  "splitOn c [] = [[]]"
| "splitOn c (x # xs) =
     (if x = c then [] # splitOn c xs
      else (case splitOn c xs of [] \<Rightarrow> [[x]] | s # ss \<Rightarrow> (x # s) # ss))"

fun joinWith :: "string \<Rightarrow> string list \<Rightarrow> string" where
  "joinWith sep [] = []"
| "joinWith sep [s] = s"
| "joinWith sep (s # t # ts) = s @ sep @ joinWith sep (t # ts)"

lemma splitOn_ne [simp]: "splitOn c xs \<noteq> []"
  by (induction xs) (auto split: list.splits)

lemma splitOn_no_sep: "s \<in> set (splitOn c xs) \<Longrightarrow> c \<notin> set s"
  by (induction xs arbitrary: s) (auto split: list.splits if_splits)

lemma splitOn_subset: "s \<in> set (splitOn c xs) \<Longrightarrow> set s \<subseteq> set xs"
proof (induction xs arbitrary: s)
  case (Cons x xs)
  obtain t ts where "splitOn c xs = t # ts" by (cases "splitOn c xs") auto
  with Cons show ?case by (auto split: if_splits) blast+
qed simp

lemma joinWith_splitOn [simp]: "joinWith [c] (splitOn c xs) = xs"
proof (induction xs)
  case (Cons x xs)
  obtain s ss where "splitOn c xs = s # ss" by (cases "splitOn c xs") auto
  with Cons show ?case by (cases ss) auto
qed simp

lemma splitOn_free: "c \<notin> set s \<Longrightarrow> splitOn c s = [s]"
  by (induction s) auto

lemma splitOn_append_sep: "c \<notin> set s \<Longrightarrow> splitOn c (s @ c # r) = s # splitOn c r"
  by (induction s) auto

lemma splitOn_joinWith:
  "ss \<noteq> [] \<Longrightarrow> (\<And>s. s \<in> set ss \<Longrightarrow> c \<notin> set s) \<Longrightarrow> splitOn c (joinWith [c] ss) = ss"
  by (induction "[c]" ss rule: joinWith.induct) (auto simp: splitOn_free splitOn_append_sep)

lemma joinWith_inj:
  assumes "joinWith [c] ss = joinWith [c] ts" and "ss \<noteq> []" and "ts \<noteq> []"
    and "\<And>s. s \<in> set ss \<Longrightarrow> c \<notin> set s" and "\<And>s. s \<in> set ts \<Longrightarrow> c \<notin> set s"
  shows "ss = ts"
  using assms splitOn_joinWith by metis

lemma set_joinWith_subset: "set (joinWith sep ss) \<subseteq> set sep \<union> (\<Union>s \<in> set ss. set s)"
  by (induction sep ss rule: joinWith.induct) auto

lemma joinWith_Cons:
  "joinWith sep (s # ss) = (if ss = [] then s else s @ sep @ joinWith sep ss)"
  by (cases ss) auto

section \<open>Cutting at the first separator\<close>

text \<open>
  \<^verbatim>\<open>i = s.indexOf(c)\<close> followed by \<^verbatim>\<open>s.slice(0, i)\<close> and \<^verbatim>\<open>s.slice(i + 1)\<close>; \<open>None\<close> in the second
  place is \<^verbatim>\<open>i === -1\<close>.
\<close>

fun cutAt :: "char \<Rightarrow> string \<Rightarrow> string \<times> string option" where
  "cutAt c [] = ([], None)"
| "cutAt c (x # xs) =
     (if x = c then ([], Some xs) else (case cutAt c xs of (a, b) \<Rightarrow> (x # a, b)))"

lemma cutAt_free: "c \<notin> set s \<Longrightarrow> cutAt c s = (s, None)"
  by (induction s) auto

lemma cutAt_append: "c \<notin> set s \<Longrightarrow> cutAt c (s @ c # r) = (s, Some r)"
  by (induction s) auto

lemma cutAt_None: "cutAt c s = (a, None) \<Longrightarrow> a = s \<and> c \<notin> set s"
  by (induction s arbitrary: a) (auto split: if_splits prod.splits)

lemma cutAt_Some: "cutAt c s = (a, Some b) \<Longrightarrow> s = a @ c # b \<and> c \<notin> set a"
  by (induction s arbitrary: a) (auto split: if_splits prod.splits)

definition replaceAllChar :: "char \<Rightarrow> char \<Rightarrow> string \<Rightarrow> string" where
  "replaceAllChar a b s = map (\<lambda>c. if c = a then b else c) s"

lemma replaceAllChar_free [simp]: "a \<notin> set s \<Longrightarrow> replaceAllChar a b s = s"
  by (induction s) (auto simp: replaceAllChar_def)

lemma replaceAllChar_removes: "a \<noteq> b \<Longrightarrow> a \<notin> set (replaceAllChar a b s)"
  by (auto simp: replaceAllChar_def)

section \<open>Character classes and patterns\<close>

definition isLower :: "char \<Rightarrow> bool" where
  "isLower c \<longleftrightarrow> CHR ''a'' \<le> c \<and> c \<le> CHR ''z''"

definition isUpper :: "char \<Rightarrow> bool" where
  "isUpper c \<longleftrightarrow> CHR ''A'' \<le> c \<and> c \<le> CHR ''Z''"

definition isDigit :: "char \<Rightarrow> bool" where
  "isDigit c \<longleftrightarrow> CHR ''0'' \<le> c \<and> c \<le> CHR ''9''"

definition isAlpha :: "char \<Rightarrow> bool" where
  "isAlpha c \<longleftrightarrow> isLower c \<or> isUpper c"

lemmas char_class_defs = isLower_def isUpper_def isDigit_def isAlpha_def

text \<open>\<^verbatim>\<open>[a-z0-9-]\<close> and \<^verbatim>\<open>[A-Za-z0-9_-]\<close>.\<close>

definition isLowerWord :: "char \<Rightarrow> bool" where
  "isLowerWord c \<longleftrightarrow> isLower c \<or> isDigit c \<or> c = CHR ''-''"

definition isIdChar :: "char \<Rightarrow> bool" where
  "isIdChar c \<longleftrightarrow> isAlpha c \<or> isDigit c \<or> c = CHR ''_'' \<or> c = CHR ''-''"

text \<open>\<^verbatim>\<open>^[a-z][a-z0-9-]*_[A-Za-z0-9_-]+$\<close>: the head never contains the underscore it ends at.\<close>

definition identifierPattern :: "string \<Rightarrow> bool" where
  "identifierPattern s \<longleftrightarrow>
     (case cutAt CHR ''_'' s of
        (h # hs, Some t) \<Rightarrow> isLower h \<and> list_all isLowerWord hs \<and> t \<noteq> [] \<and> list_all isIdChar t
      | _ \<Rightarrow> False)"

text \<open>\<^verbatim>\<open>^[a-f0-9]{64}$\<close> and \<^verbatim>\<open>^[0-9a-f]{7,40}$\<close>.\<close>

definition isHex :: "char \<Rightarrow> bool" where
  "isHex c \<longleftrightarrow> isDigit c \<or> (CHR ''a'' \<le> c \<and> c \<le> CHR ''f'')"

definition digestPattern :: "string \<Rightarrow> bool" where
  "digestPattern s \<longleftrightarrow> length s = 64 \<and> list_all isHex s"

definition gitCommitPattern :: "string \<Rightarrow> bool" where
  "gitCommitPattern s \<longleftrightarrow> 7 \<le> length s \<and> length s \<le> 40 \<and> list_all isHex s"

text \<open>\<^verbatim>\<open>^[a-z0-9][a-z0-9-]*(?::[a-z0-9][a-z0-9-]*)*$\<close>.\<close>

definition resourceKeySegment :: "string \<Rightarrow> bool" where
  "resourceKeySegment s \<longleftrightarrow>
     (case s of [] \<Rightarrow> False | c # cs \<Rightarrow> (isLower c \<or> isDigit c) \<and> list_all isLowerWord cs)"

definition resourceKeyPattern :: "string \<Rightarrow> bool" where
  "resourceKeyPattern s \<longleftrightarrow> list_all resourceKeySegment (splitOn CHR '':'' s)"

lemma identifierPattern_chars: "identifierPattern s \<Longrightarrow> list_all isIdChar s"
  by (auto simp: identifierPattern_def isIdChar_def isLowerWord_def isAlpha_def list_all_iff
      split: prod.splits list.splits option.splits dest!: cutAt_Some)

lemma isIdChar_not_special:
  "isIdChar c \<Longrightarrow> c \<noteq> CHR ''/'' \<and> c \<noteq> CHR ''#'' \<and> c \<noteq> CHR '':'' \<and> c \<noteq> CHR ''=''"
  by (auto simp: isIdChar_def char_class_defs less_eq_char_def)

end
