(* ===== verification/Locator.thy ===== *)
theory Locator
  imports Js_Text
begin

text \<open>
  Repository-qualified locators (\<^verbatim>\<open>core/src/identity/locator.ts\<close>): the lexical normalisation of a
  repository-relative path, and the \<^verbatim>\<open>repo://<repository>/<path>#<kind>=<value>\<close> form with its
  parser and printer. The theorems: an accepted path is a non-empty join of legal segments, none of
  them empty, dot, dot-dot or with a reserved character, so it names something strictly inside the
  repository; and printing a locator and parsing it gives the parts back.
\<close>

section \<open>Paths\<close>

text \<open>\<^verbatim>\<open>/[?#%:]/\<close>, a control character or DEL.\<close>

definition hasIllegalPathCharacter :: "string \<Rightarrow> bool" where
  "hasIllegalPathCharacter segment \<longleftrightarrow>
     list_ex (\<lambda>c. c \<in> {CHR ''?'', CHR ''#'', CHR ''%'', CHR '':''}
       \<or> of_char c < (32::nat) \<or> of_char c = (127::nat)) segment"

fun canonicalSegments :: "string list \<Rightarrow> string list result" where
  "canonicalSegments [] = Inr []"
| "canonicalSegments (segment # rest) =
     (if segment = [] then Inl LocatorError
      else if segment = ''..'' then Inl LocatorError
      else if hasIllegalPathCharacter segment then Inl LocatorError
      else rbind (canonicalSegments rest)
        (\<lambda>canonical. Inr (if segment = ''.'' then canonical else segment # canonical)))"

definition isAbsolutePath :: "string \<Rightarrow> bool" where
  "isAbsolutePath s \<longleftrightarrow> (case s of [] \<Rightarrow> False | c # _ \<Rightarrow> c = CHR ''/'' \<or> c = CHR 0x5C)"

definition hasDrivePrefix :: "string \<Rightarrow> bool" where
  "hasDrivePrefix s \<longleftrightarrow> (case s of c # d # _ \<Rightarrow> isAlpha c \<and> d = CHR '':'' | _ \<Rightarrow> False)"

definition normalizeLocatorPath :: "host \<Rightarrow> string \<Rightarrow> string result" where
  "normalizeLocatorPath H input =
     (let normalized = h_nfc H input in
      if normalized = [] then Inl LocatorError
      else if isAbsolutePath normalized then Inl LocatorError
      else if hasDrivePrefix normalized then Inl LocatorError
      else rbind (canonicalSegments (splitOn CHR ''/'' (replaceAllChar CHR 0x5C CHR ''/'' normalized)))
        (\<lambda>canonical. if canonical = [] then Inl LocatorError
          else Inr (joinWith ''/'' canonical)))"

definition legalSegment :: "string \<Rightarrow> bool" where
  "legalSegment s \<longleftrightarrow> s \<noteq> [] \<and> s \<noteq> ''..'' \<and> s \<noteq> ''.'' \<and> \<not> hasIllegalPathCharacter s
     \<and> CHR ''/'' \<notin> set s \<and> CHR 0x5C \<notin> set s"

definition canonicalPath :: "string \<Rightarrow> bool" where
  "canonicalPath p \<longleftrightarrow> list_all legalSegment (splitOn CHR ''/'' p)"

lemma canonicalSegments_Inr:
  "canonicalSegments segs = Inr out \<Longrightarrow>
     out = filter (\<lambda>s. s \<noteq> ''.'') segs \<and>
     (\<forall>s \<in> set segs. s \<noteq> [] \<and> s \<noteq> ''..'' \<and> \<not> hasIllegalPathCharacter s)"
  by (induction segs arbitrary: out) (auto simp: rbind_Inr_iff split: if_splits)

lemma canonicalSegments_legal:
  "list_all legalSegment segs \<Longrightarrow> canonicalSegments segs = Inr segs"
  by (induction segs) (auto simp: legalSegment_def)

lemma canonicalPath_join:
  "ss \<noteq> [] \<Longrightarrow> list_all legalSegment ss \<Longrightarrow> canonicalPath (joinWith ''/'' ss)"
  by (simp add: canonicalPath_def splitOn_joinWith list_all_iff legalSegment_def)

lemma normalizeLocatorPath_canonical:
  assumes "normalizeLocatorPath H p = Inr q"
  shows "canonicalPath q"
proof -
  let ?raw = "replaceAllChar CHR 0x5C CHR ''/'' (h_nfc H p)"
  from assms obtain segs where segs: "canonicalSegments (splitOn CHR ''/'' ?raw) = Inr segs"
      and q: "segs \<noteq> []" "q = joinWith ''/'' segs"
    by (auto simp: normalizeLocatorPath_def Let_def rbind_Inr_iff split: if_splits)
  have "CHR 0x5C \<notin> set ?raw" by (simp add: replaceAllChar_removes)
  then have "list_all legalSegment segs"
    using canonicalSegments_Inr [OF segs]
    by (auto simp: list_all_iff legalSegment_def dest: splitOn_no_sep splitOn_subset)
  with q show ?thesis by (simp add: canonicalPath_join)
qed

lemma canonicalPath_segments:
  assumes "canonicalPath q"
  obtains ss where "ss \<noteq> []" and "list_all legalSegment ss" and "q = joinWith ''/'' ss"
  using assms joinWith_splitOn [of "CHR ''/''" q] splitOn_ne [of "CHR ''/''" q]
  by (metis canonicalPath_def)

lemma hasIllegal_free:
  "\<not> hasIllegalPathCharacter s \<Longrightarrow> CHR ''#'' \<notin> set s \<and> CHR '':'' \<notin> set s"
  by (auto simp: hasIllegalPathCharacter_def list_ex_iff)

lemma legalSegment_chars:
  "legalSegment s \<Longrightarrow> c \<in> set s \<Longrightarrow>
     c \<noteq> CHR ''/'' \<and> c \<noteq> CHR 0x5C \<and> c \<noteq> CHR ''#'' \<and> c \<noteq> CHR '':''"
  using hasIllegal_free [of s] by (auto simp: legalSegment_def)

lemma canonicalPath_chars:
  assumes "canonicalPath q" and "c \<in> set q"
  shows "c \<noteq> CHR 0x5C \<and> c \<noteq> CHR ''#'' \<and> c \<noteq> CHR '':''"
proof -
  from assms(1) obtain ss where ss: "list_all legalSegment ss" "q = joinWith ''/'' ss"
    by (rule canonicalPath_segments)
  then have "c = CHR ''/'' \<or> (\<exists>s \<in> set ss. c \<in> set s)"
    using assms(2) set_joinWith_subset [of "''/''" ss] by auto
  then show ?thesis using ss(1) legalSegment_chars by (auto simp: list_all_iff)
qed

text \<open>On its own output, normalisation changes nothing, provided NFC does not.\<close>

lemma canonicalPath_normalize:
  assumes "canonicalPath q" and "h_nfc H q = q"
  shows "normalizeLocatorPath H q = Inr q"
proof -
  from assms(1) obtain ss where ss: "ss \<noteq> []" "list_all legalSegment ss" "q = joinWith ''/'' ss"
    by (rule canonicalPath_segments)
  obtain s rest where cons: "ss = s # rest" using ss(1) by (cases ss) auto
  then obtain c cs where s: "s = c # cs" using ss(2) by (cases s) (auto simp: legalSegment_def)
  then obtain qs where qc: "q = c # qs" using ss(3) cons by (cases rest) auto
  have "c \<noteq> CHR ''/''" "c \<noteq> CHR 0x5C"
    using ss(2) cons s legalSegment_chars [of s c] by auto
  moreover have "CHR '':'' \<notin> set q" "CHR 0x5C \<notin> set q"
    using canonicalPath_chars [OF assms(1)] by blast+
  ultimately have "\<not> isAbsolutePath q" "\<not> hasDrivePrefix q"
    by (auto simp: isAbsolutePath_def hasDrivePrefix_def qc split: list.splits)
  moreover have "splitOn CHR ''/'' q = ss"
    unfolding ss(3) using ss legalSegment_chars
    by (intro splitOn_joinWith) (auto simp: list_all_iff)
  moreover have "q \<noteq> []" by (simp add: qc)
  ultimately show ?thesis
    using assms(2) ss(1,2) \<open>CHR 0x5C \<notin> set q\<close>
    by (simp add: normalizeLocatorPath_def Let_def canonicalSegments_legal flip: ss(3))
qed

section \<open>Qualified locators\<close>

datatype qualifier_kind = symbol | api | migration

record locator_qualifier =
  lq_kind :: qualifier_kind
  lq_value :: string

record parsed_locator =
  repository_id :: string
  loc_path :: "string option"
  loc_qualifier :: "locator_qualifier option"

definition isSymbolHead :: "char \<Rightarrow> bool" where
  "isSymbolHead c \<longleftrightarrow> isAlpha c \<or> c = CHR ''_'' \<or> c = CHR ''$''"

definition symbolWord :: "string \<Rightarrow> bool" where
  "symbolWord s \<longleftrightarrow>
     (case s of [] \<Rightarrow> False | c # cs \<Rightarrow> isSymbolHead c \<and> list_all (\<lambda>d. isSymbolHead d \<or> isDigit d) cs)"

definition isApiChar :: "char \<Rightarrow> bool" where
  "isApiChar c \<longleftrightarrow> isAlpha c \<or> isDigit c
     \<or> c \<in> {CHR ''_'', CHR ''.'', CHR ''/'', CHR ''{'', CHR ''}'', CHR ''-''}"

definition apiMethods :: "string list" where
  "apiMethods = [''get'', ''post'', ''put'', ''patch'', ''delete'', ''head'', ''options'']"

definition isMigrationChar :: "char \<Rightarrow> bool" where
  "isMigrationChar c \<longleftrightarrow> isAlpha c \<or> isDigit c \<or> c \<in> {CHR ''.'', CHR ''_'', CHR ''-''}"

fun qualifierValuePattern :: "qualifier_kind \<Rightarrow> string \<Rightarrow> bool" where
  "qualifierValuePattern symbol v = list_all symbolWord (splitOn CHR ''.'' v)"
| "qualifierValuePattern api v =
     (case cutAt CHR '':'' v of
        (m, Some (c # r)) \<Rightarrow> List.member apiMethods m \<and> c = CHR ''/'' \<and> r \<noteq> [] \<and> list_all isApiChar r
      | _ \<Rightarrow> False)"
| "qualifierValuePattern migration v =
     (case v of [] \<Rightarrow> False | c # cs \<Rightarrow> (isAlpha c \<or> isDigit c) \<and> list_all isMigrationChar cs)"

fun qualifierKindText :: "qualifier_kind \<Rightarrow> string" where
  "qualifierKindText symbol = ''symbol''"
| "qualifierKindText api = ''api''"
| "qualifierKindText migration = ''migration''"

text \<open>
  The pattern table is an object literal, so a lookup by a property of \<^verbatim>\<open>Object.prototype\<close> finds that
  property instead of \<^verbatim>\<open>undefined\<close>, and calling \<^verbatim>\<open>test\<close> on it throws a \<^verbatim>\<open>TypeError\<close>.
\<close>

definition objectPrototypeKeys :: "string list" where
  "objectPrototypeKeys =
     [''constructor'', ''__defineGetter__'', ''__defineSetter__'', ''hasOwnProperty'',
      ''__lookupGetter__'', ''__lookupSetter__'', ''isPrototypeOf'', ''propertyIsEnumerable'',
      ''toString'', ''valueOf'', ''__proto__'', ''toLocaleString'']"

definition qualifierPatternLookup :: "string \<Rightarrow> qualifier_kind result" where
  "qualifierPatternLookup kind =
     (if kind = ''symbol'' then Inr symbol
      else if kind = ''api'' then Inr api
      else if kind = ''migration'' then Inr migration
      else if List.member objectPrototypeKeys kind then Inl JsTypeError
      else Inl LocatorError)"

definition parseQualifier :: "string \<Rightarrow> locator_qualifier result" where
  "parseQualifier fragment =
     (case cutAt CHR ''='' fragment of
        (_, None) \<Rightarrow> Inl LocatorError
      | (kindText, Some v) \<Rightarrow>
          rbind (qualifierPatternLookup kindText)
            (\<lambda>kind. if qualifierValuePattern kind v then Inr \<lparr>lq_kind = kind, lq_value = v\<rparr>
              else Inl LocatorError))"

definition formatQualifier :: "locator_qualifier \<Rightarrow> string result" where
  "formatQualifier q =
     (if qualifierValuePattern (lq_kind q) (lq_value q)
      then Inr (qualifierKindText (lq_kind q) @ ''='' @ lq_value q)
      else Inl LocatorError)"

definition parseLocator :: "host \<Rightarrow> string \<Rightarrow> parsed_locator result" where
  "parseLocator H locator =
     (let normalized = h_nfc H locator in
      if \<not> startsWith normalized ''repo://'' then Inl LocatorError
      else
        (case cutAt CHR ''#'' (drop (length ''repo://'') normalized) of (authorityAndPath, fragment) \<Rightarrow>
         if (case fragment of None \<Rightarrow> False | Some f \<Rightarrow> CHR ''#'' \<in> set f) then Inl LocatorError
         else
           (case cutAt CHR ''/'' authorityAndPath of (repositoryId, rawPath) \<Rightarrow>
            if \<not> identifierPattern repositoryId then Inl LocatorError
            else
              rbind (case rawPath of None \<Rightarrow> Inr None
                  | Some raw \<Rightarrow> rbind (normalizeLocatorPath H raw) (\<lambda>p. Inr (Some p)))
                (\<lambda>path. rbind (case fragment of None \<Rightarrow> Inr None
                    | Some f \<Rightarrow> rbind (parseQualifier f) (\<lambda>q. Inr (Some q)))
                  (\<lambda>qualifier. Inr \<lparr>repository_id = repositoryId, loc_path = path,
                     loc_qualifier = qualifier\<rparr>)))))"

definition buildLocator :: "host \<Rightarrow> parsed_locator \<Rightarrow> string result" where
  "buildLocator H parts =
     (if \<not> identifierPattern (repository_id parts) then Inl LocatorError
      else
        rbind (case loc_path parts of None \<Rightarrow> Inr []
            | Some p \<Rightarrow> rbind (normalizeLocatorPath H p) (\<lambda>q. Inr (''/'' @ q)))
          (\<lambda>path. rbind (case loc_qualifier parts of None \<Rightarrow> Inr []
              | Some q \<Rightarrow> rbind (formatQualifier q) (\<lambda>t. Inr (''#'' @ t)))
            (\<lambda>qualifier. Inr (''repo://'' @ repository_id parts @ path @ qualifier))))"

definition canonicalizeLocator :: "host \<Rightarrow> string \<Rightarrow> string result" where
  "canonicalizeLocator H locator = rbind (parseLocator H locator) (buildLocator H)"

section \<open>Printing and parsing\<close>

lemma symbolWord_chars: "symbolWord w \<Longrightarrow> CHR ''#'' \<notin> set w"
  by (auto simp: symbolWord_def isSymbolHead_def char_class_defs less_eq_char_def list_all_iff
      split: list.splits)

lemma qualifier_chars_no_hash [simp]: "\<not> isApiChar CHR ''#''" "\<not> isMigrationChar CHR ''#''"
  by (simp_all add: isApiChar_def isMigrationChar_def char_class_defs less_eq_char_def)

lemma qualifierValue_no_hash: "qualifierValuePattern k v \<Longrightarrow> CHR ''#'' \<notin> set v"
proof (cases k)
  case symbol
  assume "qualifierValuePattern k v"
  then have words: "list_all symbolWord (splitOn CHR ''.'' v)" using symbol by simp
  have "v = joinWith ''.'' (splitOn CHR ''.'' v)" by simp
  then have "set v \<subseteq> {CHR ''.''} \<union> (\<Union>w \<in> set (splitOn CHR ''.'' v). set w)"
    using set_joinWith_subset [of "''.''" "splitOn CHR ''.'' v"] by simp
  then show ?thesis using words symbolWord_chars by (fastforce simp: list_all_iff)
next
  case api
  assume "qualifierValuePattern k v"
  then show ?thesis using api
    by (auto simp: list_all_iff apiMethods_def split: list.splits option.splits prod.splits
        dest!: cutAt_Some dest: bspec [where x = "CHR ''#''"])
next
  case migration
  assume "qualifierValuePattern k v"
  then show ?thesis using migration
    by (auto simp: list_all_iff char_class_defs less_eq_char_def split: list.splits
        dest: bspec [where x = "CHR ''#''"])
qed

lemma parse_formatQualifier:
  assumes "formatQualifier q = Inr t"
  shows "parseQualifier t = Inr q" and "CHR ''#'' \<notin> set t"
proof -
  let ?k = "qualifierKindText (lq_kind q)"
  from assms have pat: "qualifierValuePattern (lq_kind q) (lq_value q)"
    and t: "t = ?k @ CHR ''='' # lq_value q"
    by (auto simp: formatQualifier_def split: if_splits)
  have "CHR ''='' \<notin> set ?k" "CHR ''#'' \<notin> set ?k" "qualifierPatternLookup ?k = Inr (lq_kind q)"
    by (cases "lq_kind q"; simp add: qualifierPatternLookup_def)+
  with pat t show "parseQualifier t = Inr q" "CHR ''#'' \<notin> set t"
    by (simp_all add: parseQualifier_def cutAt_append qualifierValue_no_hash)
qed

lemma identifierPattern_free:
  "identifierPattern r \<Longrightarrow> CHR ''/'' \<notin> set r \<and> CHR ''#'' \<notin> set r"
  using identifierPattern_chars isIdChar_not_special by (fastforce simp: list_all_iff)

text \<open>The text after the scheme, cut at \<^verbatim>\<open>#\<close> and at \<^verbatim>\<open>/\<close>, gives back what \<^verbatim>\<open>buildLocator\<close> joined.\<close>

lemma cut_locator_body:
  assumes "identifierPattern r" and "\<And>p. path = Some p \<Longrightarrow> CHR ''#'' \<notin> set p"
    and "\<And>f. frag = Some f \<Longrightarrow> CHR ''#'' \<notin> set f"
    and "body = r @ (case path of None \<Rightarrow> [] | Some p \<Rightarrow> CHR ''/'' # p) @
           (case frag of None \<Rightarrow> [] | Some f \<Rightarrow> CHR ''#'' # f)"
  shows "\<exists>ap. cutAt CHR ''#'' body = (ap, frag) \<and> cutAt CHR ''/'' ap = (r, path)"
proof -
  let ?ap = "r @ (case path of None \<Rightarrow> [] | Some p \<Rightarrow> CHR ''/'' # p)"
  have "CHR ''#'' \<notin> set ?ap"
    using assms(1,2) identifierPattern_free [of r] by (cases path) auto
  then have "cutAt CHR ''#'' body = (?ap, frag)"
    using assms(4) cutAt_append [of "CHR ''#''" ?ap] cutAt_free [of "CHR ''#''" ?ap]
    by (cases frag) auto
  moreover have "cutAt CHR ''/'' ?ap = (r, path)"
    using identifierPattern_free [OF assms(1)] by (cases path) (auto simp: cutAt_append cutAt_free)
  ultimately show ?thesis by blast
qed

definition normalizedPath :: "host \<Rightarrow> string option \<Rightarrow> string option result" where
  "normalizedPath H path =
     (case path of None \<Rightarrow> Inr None | Some p \<Rightarrow> rbind (normalizeLocatorPath H p) (\<lambda>q. Inr (Some q)))"

text \<open>
  C20. Printing a locator and parsing the text gives the same repository, the canonical form of the
  same path and the same qualifier, and the printed text is a fixed point of
  \<^verbatim>\<open>canonicalizeLocator\<close>. About NFC only what Unicode documents is used: a substring of normalised
  text is normalised.
\<close>

theorem parse_buildLocator:
  assumes built: "buildLocator H parts = Inr l"
    and nfc: "h_nfc H l = l"
    and nfc_substring: "\<And>a b c. h_nfc H (a @ b @ c) = a @ b @ c \<Longrightarrow> h_nfc H b = b"
  shows "\<exists>path. normalizedPath H (loc_path parts) = Inr path \<and>
           parseLocator H l = Inr (parts\<lparr>loc_path := path\<rparr>) \<and> canonicalizeLocator H l = Inr l"
proof -
  let ?r = "repository_id parts"
  from built obtain path frag where id: "identifierPattern ?r"
    and path: "normalizedPath H (loc_path parts) = Inr path"
    and frag: "(case loc_qualifier parts of None \<Rightarrow> Inr None
         | Some q \<Rightarrow> rbind (formatQualifier q) (\<lambda>t. Inr (Some t))) = Inr frag"
    and l: "l = ''repo://'' @ ?r @ (case path of None \<Rightarrow> [] | Some p \<Rightarrow> CHR ''/'' # p) @
         (case frag of None \<Rightarrow> [] | Some f \<Rightarrow> CHR ''#'' # f)"
    by (auto simp: buildLocator_def normalizedPath_def rbind_Inr_iff split: if_splits option.splits)
  let ?body = "?r @ (case path of None \<Rightarrow> [] | Some p \<Rightarrow> CHR ''/'' # p) @
         (case frag of None \<Rightarrow> [] | Some f \<Rightarrow> CHR ''#'' # f)"
  have canon: "canonicalPath q" if "path = Some q" for q
    using path that normalizeLocatorPath_canonical
    by (auto simp: normalizedPath_def rbind_Inr_iff split: option.splits)
  have fparse: "parseQualifier f = Inr q \<and> CHR ''#'' \<notin> set f"
    if "frag = Some f" "loc_qualifier parts = Some q" for f q
    using frag that parse_formatQualifier by (auto simp: rbind_Inr_iff)
  have some: "frag = None \<longleftrightarrow> loc_qualifier parts = None"
    using frag by (auto simp: rbind_Inr_iff split: option.splits)
  obtain ap where cuts: "cutAt CHR ''#'' ?body = (ap, frag)" "cutAt CHR ''/'' ap = (?r, path)"
    using cut_locator_body [OF id _ _ refl, of path frag] canon canonicalPath_chars fparse some by blast
  have fix_q: "normalizeLocatorPath H q = Inr q" if "path = Some q" for q
  proof (rule canonicalPath_normalize [OF canon [OF that]])
    show "h_nfc H q = q"
      using nfc that l nfc_substring [of "''repo://'' @ ?r @ ''/''" q] by simp
  qed
  have parsed: "parseLocator H l = Inr (parts\<lparr>loc_path := path\<rparr>)"
    using nfc l cuts id fix_q fparse some
    by (cases path; cases frag; cases "loc_qualifier parts"; cases parts)
      (auto simp: parseLocator_def Let_def startsWith_def)
  moreover have "buildLocator H (parts\<lparr>loc_path := path\<rparr>) = Inr l"
    using l id fix_q frag by (auto simp: buildLocator_def rbind_Inr_iff split: option.splits)
  ultimately show ?thesis using path by (auto simp: canonicalizeLocator_def)
qed

theorem parse_buildLocator_witness:
  "buildLocator exampleHost \<lparr>repository_id = ''repo_main'', loc_path = Some ''src/./a.ts'', loc_qualifier = None\<rparr>
     = Inr ''repo://repo_main/src/a.ts''
   \<and> canonicalizeLocator exampleHost ''repo://repo_main/src/a.ts'' = Inr ''repo://repo_main/src/a.ts''"
proof -
  have built: "buildLocator exampleHost
      \<lparr>repository_id = ''repo_main'', loc_path = Some ''src/./a.ts'', loc_qualifier = None\<rparr>
      = Inr ''repo://repo_main/src/a.ts''" by code_simp
  show ?thesis using parse_buildLocator [OF built] built by auto
qed

end
