(* ===== verification/Planning_Task.thy ===== *)
theory Planning_Task
  imports Locator
begin

text \<open>
  Declarative task specifications (\<^verbatim>\<open>runtime/src/planning/task.ts\<close>) and the normalisation of the
  resource claims a protocol 1.3 task carries (\<^verbatim>\<open>runtime/src/planning/validator.ts\<close>, without the
  optional file-system check of a repository root). The lemmas: normalisation accepts canonical
  claims only and returns them unchanged, and an accepted write path is a canonical path that does
  not name an authoritative store.
\<close>

section \<open>Task specifications\<close>

datatype task_risk = low | medium | high | critical

record task_budget =
  tb_steps :: rat
  tb_tokens :: rat
  tb_duration_ms :: "rat option"

record iteration_budget =
  ib_steps :: rat
  ib_tokens :: rat
  ib_duration_ms :: rat

record acceptance_criterion =
  ac_description :: string
  ac_verification :: string

datatype assertion_kind = criterion_assertion | task_internal_assertion

record acceptance_assertion =
  as_assertion_id :: string
  as_assertion_kind :: "assertion_kind option"
  as_acceptance_criterion_id :: "string option"
  as_criterion_semantic_digest :: "string option"
  as_test_ids :: "string list"
  as_required_gate_ids :: "string list"
  as_evidence_requirements :: "string list"

record task_specification =
  ts_id :: string
  ts_objective :: string
  ts_impact_paths :: "string list list"
  ts_expected_outputs :: "string list"
  ts_capabilities :: "string list"
  ts_tools :: "string list"
  ts_dependencies :: "string list"
  ts_risk :: task_risk
  ts_budget :: task_budget
  ts_write_paths :: "string list option"
  ts_exclusive_resources :: "string list option"
  ts_acceptance :: "acceptance_criterion list"
  ts_assertions :: "acceptance_assertion list option"
  ts_required_gates :: "string list"

section \<open>Resource claims\<close>

definition normalizeExclusiveResourceKey :: "host \<Rightarrow> string \<Rightarrow> string result" where
  "normalizeExclusiveResourceKey H input =
     (let normalized = h_nfc H input in
      if normalized \<noteq> input \<or> \<not> resourceKeyPattern normalized
      then Inl (PlanningError invalid_specification) else Inr normalized)"

definition forbiddenWriteSegments :: "string list" where
  "forbiddenWriteSegments = [''.git'']"

definition forbiddenWriteRoots :: "string list" where
  "forbiddenWriteRoots = [''.harness'']"

definition normalizeTaskWritePath :: "host \<Rightarrow> string \<Rightarrow> string result" where
  "normalizeTaskWritePath H input =
     (case normalizeLocatorPath H input of
        Inl _ \<Rightarrow> Inl (PlanningError invalid_specification)
      | Inr normalized \<Rightarrow>
          if normalized \<noteq> input then Inl (PlanningError invalid_specification)
          else
            (let segments = splitOn CHR ''/'' normalized in
             if list_ex (List.member forbiddenWriteSegments) segments
             then Inl (PlanningError invalid_specification)
             else if List.member forbiddenWriteRoots (hd segments)
             then Inl (PlanningError invalid_specification)
             else Inr normalized))"

definition assertProtocol13TaskSpecification :: "task_specification \<Rightarrow> unit result" where
  "assertProtocol13TaskSpecification task =
     (if (case tb_duration_ms (ts_budget task) of None \<Rightarrow> True | Some d \<Rightarrow> \<not> isInteger d \<or> d < 1)
      then Inl (PlanningError invalid_specification)
      else if ts_write_paths task = None \<or> ts_exclusive_resources task = None
      then Inl (PlanningError invalid_specification)
      else Inr ())"

lemma normalizeExclusiveResourceKey_Inr:
  "normalizeExclusiveResourceKey H k = Inr k' \<longleftrightarrow> k' = k \<and> h_nfc H k = k \<and> resourceKeyPattern k"
  by (auto simp: normalizeExclusiveResourceKey_def Let_def)

lemma normalizeTaskWritePath_same: "normalizeTaskWritePath H p = Inr q \<Longrightarrow> q = p"
  by (auto simp: normalizeTaskWritePath_def Let_def split: sum.splits if_splits)

lemma normalizeTaskWritePath_canonical:
  assumes "normalizeTaskWritePath H p = Inr q"
  shows "canonicalPath p" and "''.git'' \<notin> set (splitOn CHR ''/'' p)"
    and "hd (splitOn CHR ''/'' p) \<noteq> ''.harness''"
  using assms normalizeLocatorPath_canonical
  by (fastforce simp: normalizeTaskWritePath_def forbiddenWriteSegments_def forbiddenWriteRoots_def
      Let_def list_ex_iff split: sum.splits if_splits)+

text \<open>
  C21. A write claim that plan validation accepts is kept exactly as written, and it is a path strictly
  inside the repository that names neither \<^verbatim>\<open>.git\<close> at any depth nor the \<^verbatim>\<open>.harness\<close> root: every
  segment is non-empty, is not \<^verbatim>\<open>.\<close> or \<^verbatim>\<open>..\<close>, and has no reserved character.
\<close>

theorem accepted_write_path_confined:
  assumes "normalizeTaskWritePath H p = Inr q"
  shows "q = p \<and> p \<noteq> [] \<and> list_all legalSegment (splitOn CHR ''/'' p)
    \<and> ''.git'' \<notin> set (splitOn CHR ''/'' p) \<and> hd (splitOn CHR ''/'' p) \<noteq> ''.harness''"
proof -
  note canon = normalizeTaskWritePath_canonical [OF assms]
  have "p \<noteq> []" using canon(1) by (auto simp: canonicalPath_def legalSegment_def)
  then show ?thesis
    using canon normalizeTaskWritePath_same [OF assms] by (simp add: canonicalPath_def)
qed

theorem accepted_write_path_confined_witness:
  "normalizeTaskWritePath exampleHost ''src/a.ts'' = Inr ''src/a.ts''
   \<and> list_all legalSegment (splitOn CHR ''/'' ''src/a.ts'')"
proof -
  have ok: "normalizeTaskWritePath exampleHost ''src/a.ts'' = Inr ''src/a.ts''" by code_simp
  then show ?thesis using accepted_write_path_confined [OF ok] by simp
qed

end
