(* ===== verification/Canonical_Json.thy ===== *)
theory Canonical_Json
  imports Js_Text
begin

text \<open>
  Canonical JSON, content digests and sealed record envelopes
  (\<^verbatim>\<open>core/src/identity/canonical-json.ts\<close>, \<^verbatim>\<open>digest.ts\<close>, \<^verbatim>\<open>canonical-set.ts\<close>,
  \<^verbatim>\<open>core/src/schema/envelope.ts\<close>). A value is a \<open>json\<close>; a non-finite number and a non-JSON value
  (\<^verbatim>\<open>undefined\<close>, a function) have no counterpart in that type. The theorems: the canonical text does
  not depend on the order of object keys, the digest of a set does not depend on the order or
  multiplicity of its members, and a sealed record verifies.
\<close>

datatype json =
    JNull
  | JBool bool
  | JNum rat
  | JStr string
  | JArr "json list"
  | JObj "(string \<times> json) list"

section \<open>JSON.stringify on strings\<close>

definition hexDigit :: "nat \<Rightarrow> char" where
  "hexDigit n = ''0123456789abcdef'' ! n"

definition shortEscape :: "nat \<Rightarrow> char option" where
  "shortEscape = map_of [(8, CHR ''b''), (9, CHR ''t''), (10, CHR ''n''), (12, CHR ''f''), (13, CHR ''r'')]"

definition escapeChar :: "char \<Rightarrow> string" where
  "escapeChar c =
     (if c = CHR 0x22 \<or> c = CHR 0x5C then [CHR 0x5C, c]
      else case shortEscape (of_char c) of
        Some d \<Rightarrow> [CHR 0x5C, d]
      | None \<Rightarrow>
          if of_char c < (32 :: nat)
          then [CHR 0x5C, CHR ''u'', CHR ''0'', CHR ''0'', hexDigit (of_char c div 16), hexDigit (of_char c mod 16)]
          else [c])"

definition stringify :: "string \<Rightarrow> string" where
  "stringify s = CHR 0x22 # concat (map escapeChar s) @ [CHR 0x22]"

section \<open>The canonical text\<close>

lemma mapR_cong [fundef_cong]:
  "xs = ys \<Longrightarrow> (\<And>x. x \<in> set ys \<Longrightarrow> f x = g x) \<Longrightarrow> mapR f xs = mapR g ys"
  by (induction ys arbitrary: xs) auto

definition sortEntriesByKey :: "(string \<times> 'a) list \<Rightarrow> (string \<times> 'a) list" where
  "sortEntriesByKey = sort_by (\<lambda>a b. codeUnitCompare (fst a) (fst b))"

lemma set_sortEntriesByKey [simp]: "set (sortEntriesByKey es) = set es"
  by (simp add: sortEntriesByKey_def)

fun adjacentDuplicate :: "string list \<Rightarrow> bool" where
  "adjacentDuplicate (a # b # rest) \<longleftrightarrow> a = b \<or> adjacentDuplicate (b # rest)"
| "adjacentDuplicate _ \<longleftrightarrow> False"

function writeValue :: "host \<Rightarrow> json \<Rightarrow> string result" where
  "writeValue H JNull = Inr ''null''"
| "writeValue H (JBool b) = Inr (if b then ''true'' else ''false'')"
| "writeValue H (JStr s) = Inr (stringify (h_nfc H s))"
| "writeValue H (JNum n) = Inr (h_number H n)"
| "writeValue H (JArr vs) =
     rbind (mapR (writeValue H) vs) (\<lambda>items. Inr (''['' @ joinWith '','' items @ '']''))"
| "writeValue H (JObj record) =
     (let entries = sortEntriesByKey (map (\<lambda>(key, v). (h_nfc H key, v)) record) in
      if adjacentDuplicate (map fst entries) then Inl CanonicalJsonError
      else rbind (mapR (\<lambda>e. rbind (writeValue H (snd e)) (\<lambda>t. Inr (stringify (fst e) @ '':'' @ t))) entries)
        (\<lambda>body. Inr (''{'' @ joinWith '','' body @ ''}'')))"
  by pat_completeness auto
termination
proof (relation "measure (\<lambda>(H, v). size v)")
  show "wf (measure (\<lambda>(H :: host, v :: json). size v))" by simp
next
  fix H :: host and vs :: "json list" and v
  assume "v \<in> set vs"
  then have "size v \<le> size_list size vs" by (rule size_list_estimation') simp
  then show "((H, v), H, JArr vs) \<in> measure (\<lambda>(H, v). size v)" by simp
next
  fix H :: host and raw :: "(string \<times> json) list" and entries e
  assume "entries = sortEntriesByKey (map (\<lambda>(key, v). (h_nfc H key, v)) raw)" "e \<in> set entries"
  then obtain k where "(k, snd e) \<in> set raw" by auto
  then have "size_prod (\<lambda>_. 0) size (k, snd e) \<le> size_list (size_prod (\<lambda>_. 0) size) raw"
    by (rule size_list_estimation') simp
  then show "((H, snd e), H, JObj raw) \<in> measure (\<lambda>(H, v). size v)" by simp
qed

definition canonicalizeJson :: "host \<Rightarrow> json \<Rightarrow> string result" where
  "canonicalizeJson H v = writeValue H v"

definition contentDigest :: "host \<Rightarrow> json \<Rightarrow> string result" where
  "contentDigest H v = rbind (canonicalizeJson H v) (\<lambda>t. Inr (h_sha256 H t))"

section \<open>Key order\<close>

interpretation entry_order: comparator_laws
  "\<lambda>a b :: string \<times> 'a. codeUnitCompare (fst a) (fst b)"
  by unfold_locales (auto simp: codeUnitCompare_def split: if_splits)

lemma sorted_keys: "sorted (map fst (sortEntriesByKey es))"
proof -
  have "sorted_wrt (\<lambda>a b. codeUnitCompare (fst a) (fst b) \<le> 0) (sortEntriesByKey es)"
    unfolding sortEntriesByKey_def by (rule entry_order.sorted_sort_by)
  then show ?thesis
    unfolding sorted_map
    by (rule sorted_wrt_mono_rel [rotated]) (auto simp: codeUnitCompare_def split: if_splits)
qed

lemma adjacentDuplicate_sorted: "sorted ks \<Longrightarrow> adjacentDuplicate ks \<longleftrightarrow> \<not> distinct ks"
  by (induction ks rule: adjacentDuplicate.induct) auto

lemma distinct_sorted_keys:
  "distinct (map fst (sortEntriesByKey es)) \<longleftrightarrow> distinct (map fst es)"
  by (rule mset_eq_imp_distinct_iff) (simp add: sortEntriesByKey_def)

lemma adjacentDuplicate_keys:
  "adjacentDuplicate (map fst (sortEntriesByKey es)) \<longleftrightarrow> \<not> distinct (map fst es)"
  by (simp add: adjacentDuplicate_sorted sorted_keys distinct_sorted_keys)

lemma sortEntriesByKey_perm:
  assumes "distinct (map fst es)" and "mset es = mset fs"
  shows "sortEntriesByKey es = sortEntriesByKey fs"
  unfolding sortEntriesByKey_def
proof (rule entry_order.sort_by_unique)
  fix a b assume "a \<in> set es" "b \<in> set es"
    "codeUnitCompare (fst a) (fst b) \<le> 0" "codeUnitCompare (fst b) (fst a) \<le> 0"
  then show "a = b"
    using assms(1) by (auto simp: codeUnitCompare_def distinct_map inj_on_def split: if_splits)
qed (rule assms(2))

lemma writeValue_key_order:
  assumes "mset es = mset fs"
  shows "writeValue H (JObj es) = writeValue H (JObj fs)"
proof -
  let ?n = "map (\<lambda>(key, v). (h_nfc H key, v))"
  have same: "mset (?n es) = mset (?n fs)" using assms by simp
  have "distinct (map fst (?n es)) \<longleftrightarrow> distinct (map fst (?n fs))"
    using assms by (intro mset_eq_imp_distinct_iff) simp
  then show ?thesis
    using sortEntriesByKey_perm [OF _ same] by (auto simp: Let_def adjacentDuplicate_keys)
qed

section \<open>The canonical text determines the value\<close>

text \<open>
  \<open>canonical\<close> is the value with its strings normalised and its object entries in key order;
  \<open>render\<close> prints without normalising or sorting. The canonical text of a value is the rendering of
  its canonical form, and a rendering can be read back in one way only.
\<close>

function canonical :: "host \<Rightarrow> json \<Rightarrow> json" where
  "canonical H JNull = JNull"
| "canonical H (JBool b) = JBool b"
| "canonical H (JNum n) = JNum n"
| "canonical H (JStr s) = JStr (h_nfc H s)"
| "canonical H (JArr vs) = JArr (map (canonical H) vs)"
| "canonical H (JObj es) =
     JObj (map (\<lambda>e. (fst e, canonical H (snd e)))
       (sortEntriesByKey (map (\<lambda>(key, v). (h_nfc H key, v)) es)))"
  by pat_completeness auto
termination
proof (relation "measure (\<lambda>(H, v). size v)")
  show "wf (measure (\<lambda>(H :: host, v :: json). size v))" by simp
next
  fix H :: host and vs :: "json list" and v
  assume "v \<in> set vs"
  then have "size v \<le> size_list size vs" by (rule size_list_estimation') simp
  then show "((H, v), H, JArr vs) \<in> measure (\<lambda>(H, v). size v)" by simp
next
  fix H :: host and es :: "(string \<times> json) list" and e
  assume "e \<in> set (sortEntriesByKey (map (\<lambda>(key, v). (h_nfc H key, v)) es))"
  then obtain k where "(k, snd e) \<in> set es" by auto
  then have "size_prod (\<lambda>_. 0) size (k, snd e) \<le> size_list (size_prod (\<lambda>_. 0) size) es"
    by (rule size_list_estimation') simp
  then show "((H, snd e), H, JObj es) \<in> measure (\<lambda>(H, v). size v)" by simp
qed

fun render :: "host \<Rightarrow> json \<Rightarrow> string" where
  "render H JNull = ''null''"
| "render H (JBool b) = (if b then ''true'' else ''false'')"
| "render H (JNum n) = h_number H n"
| "render H (JStr s) = stringify s"
| "render H (JArr vs) = ''['' @ joinWith '','' (map (render H) vs) @ '']''"
| "render H (JObj es) =
     ''{'' @ joinWith '','' (map (\<lambda>e. stringify (fst e) @ '':'' @ render H (snd e)) es) @ ''}''"

lemma writeValue_render: "writeValue H v = Inr s \<Longrightarrow> s = render H (canonical H v)"
proof (induction H v arbitrary: s rule: writeValue.induct)
  case (5 H vs)
  from "5.prems" obtain items where items: "mapR (writeValue H) vs = Inr items"
      and s: "s = ''['' @ joinWith '','' items @ '']''"
    by (auto simp: rbind_Inr_iff)
  have "items = map (\<lambda>v. render H (canonical H v)) vs"
    using items "5.IH" by (induction vs arbitrary: items) (auto simp: rbind_Inr_iff)
  then show ?case using s by (simp add: comp_def)
next
  case (6 H es)
  let ?es = "sortEntriesByKey (map (\<lambda>(key, v). (h_nfc H key, v)) es)"
  let ?w = "\<lambda>e. rbind (writeValue H (snd e)) (\<lambda>t. Inr (stringify (fst e) @ '':'' @ t))"
  from "6.prems" obtain body where nodup: "\<not> adjacentDuplicate (map fst ?es)"
      and body: "mapR ?w ?es = Inr body" and s: "s = ''{'' @ joinWith '','' body @ ''}''"
    by (auto simp: Let_def rbind_Inr_iff split: if_splits)
  have "mapR ?w us = Inr body \<Longrightarrow> set us \<subseteq> set ?es \<Longrightarrow>
      body = map (\<lambda>e. stringify (fst e) @ '':'' @ render H (canonical H (snd e))) us" for us body
  proof (induction us arbitrary: body)
    case (Cons u us)
    then show ?case using "6.IH" [OF refl nodup, of u] by (auto simp: rbind_Inr_iff)
  qed simp
  from this [OF body] show ?case using s by (simp add: comp_def)
qed auto

lemma hexDigit_inj: "a < 16 \<Longrightarrow> b < 16 \<Longrightarrow> hexDigit a = hexDigit b \<Longrightarrow> a = b"
  unfolding hexDigit_def by (subst (asm) nth_eq_iff_index_eq) auto


lemma shortEscape_inj: "shortEscape a = Some d \<Longrightarrow> shortEscape b = Some d \<Longrightarrow> a = b"
  by (auto simp: shortEscape_def split: if_splits)

lemma shortEscape_char: "shortEscape a = Some d \<Longrightarrow> d \<noteq> CHR ''u'' \<and> d \<noteq> CHR 0x22 \<and> d \<noteq> CHR 0x5C"
  by (auto simp: shortEscape_def split: if_splits)

lemma escapeChar_cases:
  obtains (self) "c = CHR 0x22 \<or> c = CHR 0x5C" "escapeChar c = [CHR 0x5C, c]"
  | (short) d where "shortEscape (of_char c) = Some d" "escapeChar c = [CHR 0x5C, d]"
  | (unicode) "escapeChar c = [CHR 0x5C, CHR ''u'', CHR ''0'', CHR ''0'',
      hexDigit (of_char c div 16), hexDigit (of_char c mod 16)]"
  | (plain) "escapeChar c = [c]" "c \<noteq> CHR 0x22" "c \<noteq> CHR 0x5C"
  by (cases "c = CHR 0x22 \<or> c = CHR 0x5C"; cases "shortEscape (of_char c)";
      cases "of_char c < (32 :: nat)") (simp_all add: escapeChar_def)

lemma escapeChar_decode: "escapeChar c @ x = escapeChar d @ y \<Longrightarrow> c = d \<and> x = y"
proof (cases c rule: escapeChar_cases; cases d rule: escapeChar_cases)
  assume eq: "escapeChar c @ x = escapeChar d @ y"
    and c: "escapeChar c = [CHR 0x5C, CHR ''u'', CHR ''0'', CHR ''0'',
      hexDigit (of_char c div 16), hexDigit (of_char c mod 16)]"
    and d: "escapeChar d = [CHR 0x5C, CHR ''u'', CHR ''0'', CHR ''0'',
      hexDigit (of_char d div 16), hexDigit (of_char d mod 16)]"
  have "(of_char c :: nat) div 16 < 16" "(of_char d :: nat) div 16 < 16"
    using nat_of_char_less_256 [of c] nat_of_char_less_256 [of d]
    by (simp_all add: less_mult_imp_div_less)
  then have "(of_char c :: nat) div 16 = of_char d div 16" "(of_char c :: nat) mod 16 = of_char d mod 16"
    using eq c d by (auto intro!: hexDigit_inj)
  then have "(of_char c :: nat) = of_char d" by (metis div_mult_mod_eq)
  then show ?thesis using eq c d by simp
next
  fix e f
  assume eq: "escapeChar c @ x = escapeChar d @ y"
    and c: "shortEscape (of_char c) = Some e" "escapeChar c = [CHR 0x5C, e]"
    and d: "shortEscape (of_char d) = Some f" "escapeChar d = [CHR 0x5C, f]"
  have "e = f" using eq c d by simp
  then have "(of_char c :: nat) = of_char d" using c d shortEscape_inj by metis
  then show ?thesis using eq c d by simp
qed (auto dest: shortEscape_char)

lemma escapeChar_head: "\<exists>h t. escapeChar c = h # t \<and> h \<noteq> CHR 0x22"
  by (cases c rule: escapeChar_cases) auto

lemma stringify_decode: "stringify s @ x = stringify t @ y \<Longrightarrow> s = t \<and> x = y"
proof -
  have "concat (map escapeChar s) @ CHR 0x22 # x = concat (map escapeChar t) @ CHR 0x22 # y \<Longrightarrow>
      s = t \<and> x = y"
  proof (induction s arbitrary: t)
    case Nil
    show ?case
    proof (cases t)
      case (Cons d t')
      then show ?thesis using Nil escapeChar_head [of d] by auto
    qed (use Nil in auto)
  next
    case (Cons c s)
    note prems = Cons.prems and IH = Cons.IH
    show ?case
    proof (cases t)
      case Nil
      then show ?thesis using prems escapeChar_head [of c] by auto
    next
      case (Cons d t')
      let ?rest = "\<lambda>u z. concat (map escapeChar u) @ CHR 0x22 # z"
      have "escapeChar c @ ?rest s x = escapeChar d @ ?rest t' y" using prems Cons by simp
      then have "c = d" "?rest s x = ?rest t' y" by (blast dest: escapeChar_decode)+
      then show ?thesis using IH Cons by blast
    qed
  qed
  then show "stringify s @ x = stringify t @ y \<Longrightarrow> s = t \<and> x = y" by (simp add: stringify_def)
qed

text \<open>What may follow a value inside a larger text: nothing, or a separator or closing bracket.\<close>

definition valueEnd :: "string \<Rightarrow> bool" where
  "valueEnd x \<longleftrightarrow> (case x of [] \<Rightarrow> True | c # _ \<Rightarrow> c \<in> {CHR '','', CHR '']'', CHR ''}''})"

lemma valueEnd_simps [simp]:
  "valueEnd []" "valueEnd (CHR '','' # x)" "valueEnd (CHR '']'' # x)" "valueEnd (CHR ''}'' # x)"
  by (simp_all add: valueEnd_def)

lemma join_decode:
  assumes decode: "\<And>a b x y. a \<in> set as \<Longrightarrow> valueEnd x \<Longrightarrow> valueEnd y \<Longrightarrow> p a @ x = p b @ y \<Longrightarrow> a = b \<and> x = y"
    and head: "\<And>b. p b \<noteq> [] \<and> hd (p b) \<noteq> close"
    and close: "close \<in> {CHR '']'', CHR ''}''}"
    and eq: "joinWith '','' (map p as) @ close # x = joinWith '','' (map p bs) @ close # y"
  shows "as = bs \<and> x = y"
  using decode eq
proof (induction as arbitrary: bs)
  case Nil
  show ?case
  proof (cases bs)
    case (Cons b bs')
    then show ?thesis using Nil head [of b] by (cases "p b") (auto simp: joinWith_Cons split: if_splits)
  qed (use Nil in auto)
next
  case (Cons a as)
  note prems = Cons.prems
  show ?case
  proof (cases bs)
    case Nil
    then show ?thesis
      using prems(2) head [of a] by (cases "p a") (auto simp: joinWith_Cons split: if_splits)
  next
    case (Cons b bs')
    let ?r = "\<lambda>zs z. if zs = [] then close # z else CHR '','' # joinWith '','' (map p zs) @ close # z"
    have ends: "valueEnd (?r zs z)" for zs z using close by auto
    have "p a @ ?r as x = p b @ ?r bs' y"
      using prems(2) Cons by (auto simp: joinWith_Cons split: if_splits)
    then have "a = b" and rest: "?r as x = ?r bs' y"
      using prems(1) [of a, OF _ ends ends] by auto
    moreover have "as = bs' \<and> x = y"
    proof (cases "as = [] \<or> bs' = []")
      case True
      then show ?thesis using rest close by (auto split: if_splits)
    next
      case False
      then have "joinWith '','' (map p as) @ close # x = joinWith '','' (map p bs') @ close # y"
        using rest by simp
      then show ?thesis using prems(1) by (intro Cons.IH) auto
    qed
    ultimately show ?thesis using Cons by simp
  qed
qed


text \<open>
  What \<^verbatim>\<open>JSON.stringify\<close> documents about numbers: the text is not empty, uses only the characters of a
  JSON number, and different numbers have different texts.
\<close>

definition isNumberChar :: "char \<Rightarrow> bool" where
  "isNumberChar c \<longleftrightarrow> isDigit c \<or> c \<in> {CHR ''-'', CHR ''+'', CHR ''.'', CHR ''e''}"

definition numberText :: "host \<Rightarrow> bool" where
  "numberText H \<longleftrightarrow> inj (h_number H) \<and> (\<forall>n. h_number H n \<noteq> [] \<and> list_all isNumberChar (h_number H n))"

lemma number_decode:
  assumes "numberText H" and "valueEnd x" and "valueEnd y" and "h_number H n @ x = h_number H m @ y"
  shows "n = m \<and> x = y"
proof -
  have stop: "takeWhile isNumberChar (h_number H k @ z) = h_number H k" if "valueEnd z" for k z
  proof -
    have "takeWhile isNumberChar z = []"
      using that by (cases z) (auto simp: valueEnd_def isNumberChar_def isDigit_def less_eq_char_def)
    then show ?thesis using assms(1) by (simp add: takeWhile_append2 list_all_iff numberText_def)
  qed
  have "h_number H n = h_number H m" using stop assms(2-4) by metis
  then show ?thesis using assms(1,4) by (auto simp: numberText_def inj_def)
qed

text \<open>The first character of a rendering tells the constructor.\<close>

fun jsonKind :: "json \<Rightarrow> nat" where
  "jsonKind JNull = 0" | "jsonKind (JBool _) = 1" | "jsonKind (JStr _) = 2"
| "jsonKind (JArr _) = 3" | "jsonKind (JObj _) = 4" | "jsonKind (JNum _) = 5"

definition headKind :: "char \<Rightarrow> nat" where
  "headKind c = (if c = CHR ''n'' then 0 else if c = CHR ''t'' \<or> c = CHR ''f'' then 1
     else if c = CHR 0x22 then 2 else if c = CHR ''['' then 3 else if c = CHR ''{'' then 4
     else if isNumberChar c then 5 else 6)"

lemma not_number_heads [simp]:
  "\<not> isNumberChar CHR ''n''" "\<not> isNumberChar CHR ''t''" "\<not> isNumberChar CHR ''f''"
  "\<not> isNumberChar CHR 0x22" "\<not> isNumberChar CHR ''[''" "\<not> isNumberChar CHR ''{''"
  "\<not> isNumberChar CHR '']''" "\<not> isNumberChar CHR ''}''"
  by (simp_all add: isNumberChar_def isDigit_def less_eq_char_def)

lemma render_head:
  assumes "numberText H"
  shows "render H v \<noteq> [] \<and> headKind (hd (render H v)) = jsonKind v"
proof (cases v)
  case (JNum n)
  then have "h_number H n \<noteq> []" "isNumberChar (hd (h_number H n))"
    using assms list.set_sel(1) by (auto simp: numberText_def list_all_iff)
  then show ?thesis using JNum by (auto simp: headKind_def)
qed (auto simp: stringify_def headKind_def)

lemma render_same_kind:
  assumes "numberText H" and "render H a @ x = render H b @ y"
  shows "jsonKind a = jsonKind b"
  using assms(2) render_head [OF assms(1), of a] render_head [OF assms(1), of b]
  by (metis hd_append2)

lemma render_nonclosing:
  assumes "numberText H"
  shows "render H v \<noteq> [] \<and> hd (render H v) \<noteq> CHR '']'' \<and> hd (render H v) \<noteq> CHR ''}''"
proof -
  have "headKind CHR '']'' = 6" "headKind CHR ''}'' = 6" by (simp_all add: headKind_def)
  moreover have "jsonKind v \<noteq> 6" by (cases v) auto
  ultimately show ?thesis using render_head [OF assms, of v] by metis
qed

lemma render_decode:
  assumes num: "numberText H"
  shows "valueEnd x \<Longrightarrow> valueEnd y \<Longrightarrow> render H a @ x = render H b @ y \<Longrightarrow> a = b \<and> x = y"
proof (induction a arbitrary: b x y)
  case (JArr vs)
  then obtain ws where b: "b = JArr ws"
    using render_same_kind [OF num JArr.prems(3)] by (cases b) simp_all
  have "joinWith '','' (map (render H) vs) @ CHR '']'' # x = joinWith '','' (map (render H) ws) @ CHR '']'' # y"
    using JArr.prems(3) b by simp
  then have "vs = ws \<and> x = y"
    using JArr.IH render_nonclosing [OF num] by (intro join_decode [of vs "render H"]) simp_all
  then show ?case using b by simp
next
  case (JObj es)
  then obtain fs where b: "b = JObj fs"
    using render_same_kind [OF num JObj.prems(3)] by (cases b) simp_all
  let ?p = "\<lambda>e. stringify (fst e) @ '':'' @ render H (snd e)"
  have eq: "joinWith '','' (map ?p es) @ CHR ''}'' # x = joinWith '','' (map ?p fs) @ CHR ''}'' # y"
    using JObj.prems(3) b by simp
  have "es = fs \<and> x = y"
  proof (rule join_decode [OF _ _ _ eq])
    fix e f x y assume e: "e \<in> set es" and ends: "valueEnd x" "valueEnd y" and "?p e @ x = ?p f @ y"
    then have "stringify (fst e) @ (CHR '':'' # render H (snd e) @ x)
        = stringify (fst f) @ (CHR '':'' # render H (snd f) @ y)" by simp
    then have "fst e = fst f" and rest: "render H (snd e) @ x = render H (snd f) @ y"
      using stringify_decode by blast+
    moreover have "snd e = snd f \<and> x = y"
      by (rule JObj.IH [OF e _ ends rest]) (simp add: snds.simps)
    ultimately show "e = f \<and> x = y" by (simp add: prod_eq_iff)
  qed (simp_all add: stringify_def)
  then show ?case using b by simp
next
  case (JNum n)
  then obtain m where "b = JNum m"
    using render_same_kind [OF num JNum.prems(3)] by (cases b) simp_all
  then show ?case using JNum.prems number_decode [OF num, of x y n m] by simp
next
  case (JStr s)
  then obtain t where "b = JStr t"
    using render_same_kind [OF num JStr.prems(3)] by (cases b) simp_all
  then show ?case using JStr.prems(3) stringify_decode [of s x t y] by simp
next
  case (JBool p)
  then obtain q where "b = JBool q"
    using render_same_kind [OF num JBool.prems(3)] by (cases b) simp_all
  then show ?case using JBool.prems(3) by (cases p; cases q) simp_all
next
  case JNull
  then have "b = JNull" using render_same_kind [OF num JNull.prems(3)] by (cases b) simp_all
  then show ?case using JNull.prems(3) by simp
qed

section \<open>When serialisation fails\<close>

text \<open>No object has two keys that coincide after Unicode normalisation.\<close>

primrec wellKeyed :: "host \<Rightarrow> json \<Rightarrow> bool" where
  "wellKeyed H JNull \<longleftrightarrow> True"
| "wellKeyed H (JBool b) \<longleftrightarrow> True"
| "wellKeyed H (JNum n) \<longleftrightarrow> True"
| "wellKeyed H (JStr s) \<longleftrightarrow> True"
| "wellKeyed H (JArr vs) \<longleftrightarrow> list_all id (map (wellKeyed H) vs)"
| "wellKeyed H (JObj es) \<longleftrightarrow> distinct (map (\<lambda>e. h_nfc H (fst e)) es)
     \<and> list_all snd (map (map_prod id (wellKeyed H)) es)"

lemma writeValue_total: "(\<exists>s. writeValue H v = Inr s) \<longleftrightarrow> wellKeyed H v"
proof (induction H v rule: writeValue.induct)
  case (5 H vs)
  then show ?case
    using mapR_exists [of "writeValue H" vs] by (auto simp: rbind_Inr_iff list_all_iff)
next
  case (6 H es)
  let ?es = "sortEntriesByKey (map (\<lambda>(key, v). (h_nfc H key, v)) es)"
  have keys: "\<not> adjacentDuplicate (map fst ?es) \<longleftrightarrow> distinct (map (\<lambda>e. h_nfc H (fst e)) es)"
    by (simp add: adjacentDuplicate_keys comp_def case_prod_beta)
  have vals: "snd ` set ?es = snd ` set es" by force
  have "(\<exists>s. writeValue H (JObj es) = Inr s) \<longleftrightarrow> \<not> adjacentDuplicate (map fst ?es)
      \<and> (\<forall>e \<in> set ?es. \<exists>t. writeValue H (snd e) = Inr t)"
    using mapR_exists [of "\<lambda>e. rbind (writeValue H (snd e)) (\<lambda>t. Inr (stringify (fst e) @ '':'' @ t))" ?es]
    by (auto simp: Let_def rbind_Inr_iff)
  also have "\<dots> \<longleftrightarrow> distinct (map (\<lambda>e. h_nfc H (fst e)) es) \<and> (\<forall>e \<in> set ?es. wellKeyed H (snd e))"
    unfolding keys [symmetric] using 6 [OF refl] by blast
  also have "\<dots> \<longleftrightarrow> distinct (map (\<lambda>e. h_nfc H (fst e)) es) \<and> (\<forall>v \<in> snd ` set es. wellKeyed H v)"
    unfolding vals [symmetric] by blast
  finally show ?case by (auto simp: list_all_iff)
qed auto

lemma contentDigest_total: "(\<exists>d. contentDigest H v = Inr d) \<longleftrightarrow> wellKeyed H v"
  unfolding writeValue_total [symmetric] contentDigest_def canonicalizeJson_def by (auto simp: rbind_Inr_iff)

text \<open>What Unicode documents: NFC leaves ASCII text alone.\<close>

definition nfcAscii :: "host \<Rightarrow> bool" where
  "nfcAscii H \<longleftrightarrow> (\<forall>s. list_all (\<lambda>c. of_char c < (128 :: nat)) s \<longrightarrow> h_nfc H s = s)"

text \<open>
  C19. Two values have the same canonical text only if they are the same value up to Unicode
  normalisation of their strings and the order of their object keys; so a digest that matches stands
  for the content, as far as SHA-256 does not collide.
\<close>

theorem canonicalizeJson_injective:
  assumes "numberText H"
    and "canonicalizeJson H a = Inr s" and "canonicalizeJson H b = Inr s"
  shows "canonical H a = canonical H b"
proof -
  have "render H (canonical H a) @ [] = render H (canonical H b) @ []"
    using assms(2,3) writeValue_render by (metis canonicalizeJson_def)
  then show ?thesis using render_decode [OF assms(1), of "[]" "[]"] by simp
qed

section \<open>Sets of strings\<close>

definition canonicalStringSet :: "host \<Rightarrow> string list \<Rightarrow> string list" where
  "canonicalStringSet H values = sort (dedupe (map (h_nfc H) values))"

definition canonicalSetDigest :: "host \<Rightarrow> string list \<Rightarrow> string result" where
  "canonicalSetDigest H values = contentDigest H (JArr (map JStr (canonicalStringSet H values)))"

lemma canonicalStringSet_iff:
  "canonicalStringSet H xs = canonicalStringSet H ys \<longleftrightarrow> h_nfc H ` set xs = h_nfc H ` set ys"
proof
  assume "canonicalStringSet H xs = canonicalStringSet H ys"
  then have "set (canonicalStringSet H xs) = set (canonicalStringSet H ys)" by simp
  then show "h_nfc H ` set xs = h_nfc H ` set ys" by (simp add: canonicalStringSet_def)
next
  assume "h_nfc H ` set xs = h_nfc H ` set ys"
  then show "canonicalStringSet H xs = canonicalStringSet H ys"
    by (intro sorted_distinct_set_unique) (simp_all add: canonicalStringSet_def)
qed

section \<open>Record envelopes\<close>

definition PROTOCOL_1_3_VERSION :: string where
  "PROTOCOL_1_3_VERSION = ''1.3.0''"

definition protocolRegistry :: "string list" where
  "protocolRegistry = [''1.0.0'', ''1.1.0'', ''1.2.0'', PROTOCOL_1_3_VERSION, ''1.4.0'']"

definition isKnownProtocol :: "string \<Rightarrow> bool" where
  "isKnownProtocol version \<longleftrightarrow> List.member protocolRegistry version"

text \<open>\<^verbatim>\<open>^[a-z][a-z0-9]*(?:_[a-z0-9]+)*$\<close>\<close>

definition recordKindPattern :: "string \<Rightarrow> bool" where
  "recordKindPattern s \<longleftrightarrow>
     (case splitOn CHR ''_'' s of
        (c # cs) # words \<Rightarrow> isLower c \<and> list_all (\<lambda>d. isLower d \<or> isDigit d) cs
          \<and> list_all (\<lambda>w. w \<noteq> [] \<and> list_all (\<lambda>d. isLower d \<or> isDigit d) w) words
      | _ \<Rightarrow> False)"

definition recordDigestOf :: "host \<Rightarrow> (string \<times> json) list \<Rightarrow> string result" where
  "recordDigestOf H record = contentDigest H (JObj (jm_del ''record_digest'' record))"

definition sealRecordEnvelope :: "host \<Rightarrow> (string \<times> json) list \<Rightarrow> (string \<times> json) list result" where
  "sealRecordEnvelope H record =
     rbind (recordDigestOf H record) (\<lambda>d. Inr (jm_set ''record_digest'' (JStr d) record))"

definition verifyRecordEnvelope :: "host \<Rightarrow> (string \<times> json) list \<Rightarrow> bool" where
  "verifyRecordEnvelope H record \<longleftrightarrow>
     (case jm_get record ''protocol_version'' of Some (JStr v) \<Rightarrow> isKnownProtocol v | _ \<Rightarrow> False) \<and>
     (case jm_get record ''record_kind'' of Some (JStr k) \<Rightarrow> recordKindPattern k | _ \<Rightarrow> False) \<and>
     (case jm_get record ''record_digest'' of
        Some (JStr d) \<Rightarrow> digestPattern d \<and> recordDigestOf H record = Inr d | _ \<Rightarrow> False)"

lemma delete_update_same: "jm_del k (jm_set k v m) = jm_del k m"
  by (induction m) auto

text \<open>Sealing then verifying succeeds, whatever digest the caller had supplied.\<close>

lemma verify_sealRecordEnvelope:
  assumes "sealRecordEnvelope H record = Inr s"
    and "jm_get record ''protocol_version'' = Some (JStr v)" and "isKnownProtocol v"
    and "jm_get record ''record_kind'' = Some (JStr k)" and "recordKindPattern k"
    and sha: "\<And>t. digestPattern (h_sha256 H t)"
  shows "verifyRecordEnvelope H s"
proof -
  from assms(1) obtain d where d: "recordDigestOf H record = Inr d"
    and s: "s = jm_set ''record_digest'' (JStr d) record"
    by (auto simp: sealRecordEnvelope_def rbind_Inr_iff)
  have "recordDigestOf H s = Inr d"
    using d by (simp add: recordDigestOf_def s delete_update_same)
  moreover have "digestPattern d"
    using d sha by (auto simp: recordDigestOf_def contentDigest_def rbind_Inr_iff)
  ultimately show ?thesis using assms(2-5) by (simp add: verifyRecordEnvelope_def s)
qed


section \<open>The example host\<close>

lemma numberText_exampleHost: "numberText exampleHost"
proof -
  have "isNumberChar CHR ''1''" "isNumberChar CHR ''.''" "isNumberChar CHR ''-''"
    by (simp_all add: isNumberChar_def isDigit_def less_eq_char_def)
  then have "list_all isNumberChar (exampleNumber r)" for r
    by (auto simp: exampleNumber_def list_all_iff split: prod.splits)
  then show ?thesis by (simp add: numberText_def inj_exampleNumber)
qed

text \<open>The example host digests every value whose object keys are distinct.\<close>

lemma digestPattern_example: "digestPattern (exampleDigest s)"
proof -
  have hex: "list_all isHex ''0123456789abcdef''" by code_simp
  have "isHex (''0123456789abcdef'' ! (length s mod 16))"
    by (rule hex [unfolded list_all_length, rule_format]) simp
  moreover have "isHex CHR ''0''" by code_simp
  ultimately show ?thesis by (simp add: digestPattern_def exampleDigest_def list_all_iff)
qed

lemma contentDigest_example: "wellKeyed exampleHost v \<Longrightarrow> \<exists>d. contentDigest exampleHost v = Inr d \<and> digestPattern d"
  using writeValue_total [of exampleHost v]
  by (auto simp: contentDigest_def canonicalizeJson_def digestPattern_example)

theorem canonicalizeJson_injective_witness:
  "canonicalizeJson exampleHost (JObj [(''b'', JNull), (''a'', JStr ''x'')])
     = Inr (''{'' @ stringify ''a'' @ '':'' @ stringify ''x'' @ '','' @ stringify ''b'' @ '':null}'')
   \<and> canonical exampleHost (JObj [(''b'', JNull), (''a'', JStr ''x'')])
     = canonical exampleHost (JObj [(''a'', JStr ''x''), (''b'', JNull)])"
proof -
  let ?s = "''{'' @ stringify ''a'' @ '':'' @ stringify ''x'' @ '','' @ stringify ''b'' @ '':null}''"
  have a: "canonicalizeJson exampleHost (JObj [(''b'', JNull), (''a'', JStr ''x'')]) = Inr ?s"
    and b: "canonicalizeJson exampleHost (JObj [(''a'', JStr ''x''), (''b'', JNull)]) = Inr ?s"
    by (simp_all add: canonicalizeJson_def sortEntriesByKey_def codeUnitCompare_def less_char_def joinWith_Cons)
  show ?thesis using canonicalizeJson_injective [OF numberText_exampleHost a b] a by blast
qed

end
