(* ===== verification/Wave_Compiler.thy ===== *)
theory Wave_Compiler
  imports Planning_Task Canonical_Json
begin

text \<open>
  Deterministic parallel wave compilation (\<^verbatim>\<open>runtime/src/planning/waves.ts\<close>). \<open>normalizeTasks\<close>,
  \<open>stableTopologicalOrder\<close> (Kahn's algorithm with the frontier in declaration order),
  \<open>conflictsWithWave\<close>, \<open>compileParallelWaves\<close> and \<open>assertParallelWaves\<close> follow the source function by
  function. The theorems: the topological order lists every task once, after its dependencies, and
  fails only on a cycle; the compiled waves partition the plan, put a task strictly after its
  dependencies, never put conflicting tasks together and are the earliest that do so.
\<close>

section \<open>Definitions\<close>

record parallel_wave =
  wave_index :: nat
  wave_task_ids :: "string list"

definition writePathsOverlap :: "string \<Rightarrow> string \<Rightarrow> bool" where
  "writePathsOverlap first second \<longleftrightarrow>
     first = second \<or> startsWith first (second @ ''/'') \<or> startsWith second (first @ ''/'')"

record normalized_task =
  n_task :: task_specification
  n_position :: nat
  n_writePaths :: "string list"
  n_resources :: "string list"

abbreviation nid :: "normalized_task \<Rightarrow> string" where
  "nid t \<equiv> ts_id (n_task t)"

abbreviation ndeps :: "normalized_task \<Rightarrow> string list" where
  "ndeps t \<equiv> ts_dependencies (n_task t)"

definition normalizeTask :: "host \<Rightarrow> nat \<Rightarrow> task_specification \<Rightarrow> normalized_task result" where
  "normalizeTask H position task =
     rbind (assertProtocol13TaskSpecification task) (\<lambda>_.
     rbind (mapR (normalizeTaskWritePath H) (case ts_write_paths task of None \<Rightarrow> [] | Some ps \<Rightarrow> ps)) (\<lambda>paths.
     rbind (mapR (normalizeExclusiveResourceKey H)
       (case ts_exclusive_resources task of None \<Rightarrow> [] | Some rs \<Rightarrow> rs)) (\<lambda>resources.
     Inr \<lparr>n_task = task, n_position = position, n_writePaths = paths, n_resources = dedupe resources\<rparr>)))"

fun normalizeTasksFrom :: "host \<Rightarrow> string list \<Rightarrow> nat \<Rightarrow> task_specification list \<Rightarrow> normalized_task list result" where
  "normalizeTasksFrom H ids position [] = Inr []"
| "normalizeTasksFrom H ids position (task # rest) =
     (if ts_id task \<in> set ids then Inl (PlanningError invalid_specification)
      else rbind (normalizeTask H position task) (\<lambda>n.
        rbind (normalizeTasksFrom H (ids @ [ts_id task]) (Suc position) rest) (\<lambda>ns. Inr (n # ns))))"

definition normalizeTasks :: "host \<Rightarrow> task_specification list \<Rightarrow> normalized_task list result" where
  "normalizeTasks H tasks = normalizeTasksFrom H [] 0 tasks"

text \<open>The edge tables of Kahn's algorithm: unmet dependencies per task, and dependents per task.\<close>

type_synonym edge_tables = "(string, int) jmap \<times> (string, normalized_task list) jmap"

definition addDependency :: "normalized_task list \<Rightarrow> normalized_task \<Rightarrow> edge_tables \<Rightarrow> string \<Rightarrow> edge_tables result" where
  "addDependency tasks task tables dependency =
     (case tables of (indegree, dependents) \<Rightarrow>
      if dependency \<notin> nid ` set tasks then Inl (PlanningError invalid_specification)
      else Inr (jm_set (nid task) (the (jm_get indegree (nid task)) + 1) indegree,
                jm_set dependency (the (jm_get dependents dependency) @ [task]) dependents))"

definition buildEdges :: "normalized_task list \<Rightarrow> edge_tables result" where
  "buildEdges tasks =
     foldR (\<lambda>tables task. foldR (addDependency tasks task) tables (ndeps task))
       (map (\<lambda>t. (nid t, 0)) tasks, map (\<lambda>t. (nid t, [])) tasks) tasks"

fun insertByPosition :: "normalized_task \<Rightarrow> normalized_task list \<Rightarrow> normalized_task list" where
  "insertByPosition d [] = [d]"
| "insertByPosition d (t # ts) = (if n_position t > n_position d then d # t # ts else t # insertByPosition d ts)"

definition releaseDependent ::
  "(string, int) jmap \<times> normalized_task list \<Rightarrow> normalized_task \<Rightarrow> (string, int) jmap \<times> normalized_task list" where
  "releaseDependent s d =
     (case s of (indegree, ready) \<Rightarrow>
      (case jm_get indegree (nid d) of
         None \<Rightarrow> (indegree, ready)
       | Some n \<Rightarrow>
           (let remaining = n - 1 in
            (jm_set (nid d) remaining indegree,
             if remaining = 0 then insertByPosition d ready else ready))))"

fun kahnMeasure :: "(string, int) jmap \<times> normalized_task list \<Rightarrow> nat" where
  "kahnMeasure (indegree, ready) = length ready + length (filter (\<lambda>(k, n). 0 < n) indegree)"

lemma length_insertByPosition [simp]: "length (insertByPosition d ts) = Suc (length ts)"
  by (induction ts) auto

lemma positive_count_update:
  "map_of m k = Some n \<Longrightarrow> 0 < n \<Longrightarrow>
     length (filter (\<lambda>(k, n). 0 < n) (AList.update k (n - 1) m)) + (if n = 1 then 1 else 0)
       = length (filter (\<lambda>(k, n :: int). 0 < n) m)"
  by (induction m) (auto split: if_splits)

lemma nonpositive_count_update:
  "map_of m k = Some n \<Longrightarrow> \<not> 0 < n \<Longrightarrow>
     length (filter (\<lambda>(k, n). 0 < n) (AList.update k (n - 1) m))
       = length (filter (\<lambda>(k, n :: int). 0 < n) m)"
  by (induction m) (auto split: if_splits)

lemma releaseDependent_measure: "kahnMeasure (releaseDependent s d) \<le> kahnMeasure s"
proof (cases s)
  case (Pair indegree ready)
  show ?thesis
  proof (cases "jm_get indegree (nid d)")
    case None
    then show ?thesis using Pair by (simp add: releaseDependent_def)
  next
    case (Some n)
    then show ?thesis
      using Pair positive_count_update [OF Some] nonpositive_count_update [OF Some]
      by (cases "0 < n"; cases "n = 1") (simp_all add: releaseDependent_def Let_def)
  qed
qed

lemma foldl_release_measure: "kahnMeasure (foldl releaseDependent s ds) \<le> kahnMeasure s"
proof (induction ds arbitrary: s)
  case (Cons d ds)
  show ?case using order_trans [OF Cons.IH releaseDependent_measure] by simp
qed simp

function kahnLoop ::
  "(string, normalized_task list) jmap \<Rightarrow> (string, int) jmap \<Rightarrow> normalized_task list \<Rightarrow> normalized_task list
     \<Rightarrow> normalized_task list" where
  "kahnLoop dependents indegree [] order = order"
| "kahnLoop dependents indegree (current # ready) order =
     (case foldl releaseDependent (indegree, ready) (the (jm_get dependents (nid current)))
      of (indegree', ready') \<Rightarrow> kahnLoop dependents indegree' ready' (order @ [current]))"
  by pat_completeness auto
termination
proof (relation "measure (\<lambda>(dependents, indegree, ready, order). kahnMeasure (indegree, ready))", goal_cases)
  case (2 dependents indegree current ready order indegree' ready')
  then have "kahnMeasure (indegree', ready') \<le> kahnMeasure (indegree, ready)"
    using foldl_release_measure by metis
  then show ?case by simp
qed simp

definition stableTopologicalOrder :: "normalized_task list \<Rightarrow> normalized_task list result" where
  "stableTopologicalOrder tasks =
     rbind (buildEdges tasks) (\<lambda>(indegree, dependents).
       let ready = filter (\<lambda>t. jm_get indegree (nid t) = Some 0) tasks;
           order = kahnLoop dependents indegree ready []
       in if length order \<noteq> length tasks then Inl (PlanningError dependency_cycle) else Inr order)"

definition conflictsWithWave :: "normalized_task \<Rightarrow> normalized_task list \<Rightarrow> bool" where
  "conflictsWithWave task members \<longleftrightarrow>
     list_ex (\<lambda>member.
       list_ex (\<lambda>path. list_ex (\<lambda>other. writePathsOverlap path other) (n_writePaths member)) (n_writePaths task)
       \<or> list_ex (\<lambda>resource. resource \<in> set (n_resources member)) (n_resources task)) members"

text \<open>
  The placement loop. A dependency without a placement, or a wave beyond the end of the list, would
  make the source read \<^verbatim>\<open>undefined\<close> and fail with a \<^verbatim>\<open>TypeError\<close>; the theorems show neither happens.
\<close>

definition earliestWave :: "(string, nat) jmap \<Rightarrow> string list \<Rightarrow> nat result" where
  "earliestWave placement dependencies =
     foldR (\<lambda>wave dependency.
       case jm_get placement dependency of
         None \<Rightarrow> Inl JsTypeError
       | Some w \<Rightarrow> Inr (max wave (w + 1))) 0 dependencies"

function firstFreeWave :: "normalized_task \<Rightarrow> normalized_task list list \<Rightarrow> nat \<Rightarrow> nat" where
  "firstFreeWave task waveMembers wave =
     (if wave < length waveMembers \<and> conflictsWithWave task (waveMembers ! wave)
      then firstFreeWave task waveMembers (wave + 1) else wave)"
  by pat_completeness auto
termination
  by (relation "measure (\<lambda>(task, waveMembers, wave). length waveMembers - wave)") auto

declare firstFreeWave.simps [simp del]

definition placeTask ::
  "normalized_task list list \<times> (string, nat) jmap \<Rightarrow> normalized_task
     \<Rightarrow> (normalized_task list list \<times> (string, nat) jmap) result" where
  "placeTask s task =
     (case s of (waveMembers, placement) \<Rightarrow>
      rbind (earliestWave placement (ndeps task)) (\<lambda>earliest.
        let wave = firstFreeWave task waveMembers earliest;
            waveMembers' = (if wave = length waveMembers then waveMembers @ [[]] else waveMembers)
        in if length waveMembers' \<le> wave then Inl JsTypeError
           else Inr (waveMembers'[wave := waveMembers' ! wave @ [task]],
                     jm_set (nid task) wave placement)))"

definition compileParallelWaves :: "host \<Rightarrow> task_specification list \<Rightarrow> parallel_wave list result" where
  "compileParallelWaves H tasks =
     rbind (normalizeTasks H tasks) (\<lambda>normalized.
     rbind (stableTopologicalOrder normalized) (\<lambda>order.
     rbind (foldR placeTask ([], []) order) (\<lambda>(waveMembers, placement).
     Inr (map (\<lambda>(i, members). \<lparr>wave_index = i, wave_task_ids = map nid members\<rparr>)
       (enumerate 0 waveMembers)))))"

definition jsonOfWaves :: "parallel_wave list \<Rightarrow> json" where
  "jsonOfWaves ws = JArr (map (\<lambda>w. JObj [(''wave_index'', JNum (of_nat (wave_index w))),
     (''task_ids'', JArr (map JStr (wave_task_ids w)))]) ws)"

definition assertParallelWaves :: "host \<Rightarrow> task_specification list \<Rightarrow> parallel_wave list \<Rightarrow> unit result" where
  "assertParallelWaves H tasks persisted =
     rbind (compileParallelWaves H tasks) (\<lambda>compiled.
     rbind (canonicalizeJson H (jsonOfWaves compiled)) (\<lambda>fresh.
     rbind (canonicalizeJson H (jsonOfWaves persisted)) (\<lambda>stored.
     if fresh \<noteq> stored then Inl (PlanningError wave_drift) else Inr ())))"

section \<open>The edge tables\<close>

text \<open>The dependents of \<open>k\<close>, each as often as it names \<open>k\<close> as a dependency.\<close>

definition edgesOf :: "normalized_task list \<Rightarrow> string \<Rightarrow> normalized_task list" where
  "edgesOf ts k = concat (map (\<lambda>t. replicate (count_list (ndeps t) k) t) ts)"

lemma addDependencies:
  assumes "map_of ind (nid task) = Some n" "\<forall>k \<in> nid ` set tasks. map_of dep k \<noteq> None"
  shows "foldR (addDependency tasks task) (ind, dep) ds = Inr (ind', dep') \<Longrightarrow>
     set ds \<subseteq> nid ` set tasks
     \<and> map_of ind' = (map_of ind)(nid task \<mapsto> n + int (length ds))
     \<and> (\<forall>k. map_of dep' k = map_option (\<lambda>l. l @ replicate (count_list ds k) task) (map_of dep k))"
  using assms
proof (induction ds arbitrary: ind dep n)
  case Nil
  then show ?case by (auto simp: option.map_ident)
next
  case (Cons d ds)
  from Cons.prems(1) have known: "d \<in> nid ` set tasks"
    by (auto simp: addDependency_def rbind_Inr_iff split: if_splits)
  then obtain l where l: "map_of dep d = Some l" using Cons.prems(3) by auto
  let ?ind = "jm_set (nid task) (n + 1) ind" and ?dep = "jm_set d (l @ [task]) dep"
  have "addDependency tasks task (ind, dep) d = Inr (?ind, ?dep)"
    using Cons.prems(2) known l by (simp add: addDependency_def)
  then have rest: "foldR (addDependency tasks task) (?ind, ?dep) ds = Inr (ind', dep')"
    using Cons.prems(1) by simp
  have ih: "set ds \<subseteq> nid ` set tasks
     \<and> map_of ind' = (map_of ?ind)(nid task \<mapsto> (n + 1) + int (length ds))
     \<and> (\<forall>k. map_of dep' k = map_option (\<lambda>l. l @ replicate (count_list ds k) task) (map_of ?dep k))"
    using Cons.prems(3) by (intro Cons.IH [OF rest]) auto
  then have "\<forall>k. map_of dep' k = map_option (\<lambda>l. l @ replicate (count_list (d # ds) k) task) (map_of dep k)"
    using l by (auto simp: replicate_app_Cons_same)
  then show ?case using ih known by (simp add: algebra_simps)
qed

lemma addDependencies_total:
  assumes "set ds \<subseteq> nid ` set tasks"
  shows "\<exists>r. foldR (addDependency tasks task) tables ds = Inr r"
  using assms
proof (induction ds arbitrary: tables)
  case (Cons d ds)
  then show ?case by (cases tables) (simp add: addDependency_def)
qed simp

lemma addDependencies_error:
  assumes "foldR (addDependency tasks task) tables ds = Inl e"
  shows "e = PlanningError invalid_specification \<and> \<not> set ds \<subseteq> nid ` set tasks"
proof -
  have "\<not> set ds \<subseteq> nid ` set tasks" using assms addDependencies_total [of ds tasks task tables] by auto
  moreover have "e = PlanningError invalid_specification"
    using assms
  proof (induction ds arbitrary: tables)
    case (Cons d ds)
    then show ?case
      by (cases tables) (auto simp: addDependency_def rbind_Inl_iff split: if_splits)
  qed simp
  ultimately show ?thesis by simp
qed

text \<open>The tables after the edges of \<open>ts\<close> have been added.\<close>

lemma addAllDependencies:
  assumes "foldR (\<lambda>tables t. foldR (addDependency tasks t) tables (ndeps t)) (ind, dep) ts = Inr (ind', dep')"
    and "set ts \<subseteq> set tasks" "distinct (map nid ts)"
    and "\<forall>k \<in> nid ` set tasks. map_of ind k \<noteq> None" "\<forall>k \<in> nid ` set tasks. map_of dep k \<noteq> None"
  shows "(\<forall>t \<in> set ts. set (ndeps t) \<subseteq> nid ` set tasks)
     \<and> (\<forall>t \<in> set ts. map_of ind' (nid t) = Some (the (map_of ind (nid t)) + int (length (ndeps t))))
     \<and> (\<forall>k. k \<notin> nid ` set ts \<longrightarrow> map_of ind' k = map_of ind k)
     \<and> (\<forall>k. map_of dep' k = map_option (\<lambda>l. l @ edgesOf ts k) (map_of dep k))"
  using assms
proof (induction ts arbitrary: ind dep)
  case Nil
  then show ?case by (auto simp: edgesOf_def option.map_ident)
next
  case (Cons t ts)
  from Cons.prems(1) obtain ind1 dep1
    where first: "foldR (addDependency tasks t) (ind, dep) (ndeps t) = Inr (ind1, dep1)"
      and rest: "foldR (\<lambda>tables t. foldR (addDependency tasks t) tables (ndeps t)) (ind1, dep1) ts = Inr (ind', dep')"
    by (auto simp: rbind_Inr_iff)
  obtain n where n: "map_of ind (nid t) = Some n" using Cons.prems(2,4) by auto
  note one = addDependencies [OF n Cons.prems(5) first]
  have ih: "(\<forall>t \<in> set ts. set (ndeps t) \<subseteq> nid ` set tasks)
     \<and> (\<forall>t \<in> set ts. map_of ind' (nid t) = Some (the (map_of ind1 (nid t)) + int (length (ndeps t))))
     \<and> (\<forall>k. k \<notin> nid ` set ts \<longrightarrow> map_of ind' k = map_of ind1 k)
     \<and> (\<forall>k. map_of dep' k = map_option (\<lambda>l. l @ edgesOf ts k) (map_of dep1 k))"
    by (rule Cons.IH [OF rest]) (use Cons.prems one in auto)
  have fresh: "nid t \<notin> nid ` set ts" using Cons.prems(3) by auto
  have degrees: "map_of ind' (nid u) = Some (the (map_of ind (nid u)) + int (length (ndeps u)))"
    if "u \<in> set (t # ts)" for u
  proof (cases "nid u = nid t")
    case True
    then have "u = t" using that fresh by (metis image_eqI set_ConsD)
    then show ?thesis using ih fresh one n by simp
  next
    case False
    then show ?thesis using ih one that by auto
  qed
  have "\<forall>k. map_of dep' k = map_option (\<lambda>l. l @ edgesOf (t # ts) k) (map_of dep k)"
    using ih one by (simp add: edgesOf_def option.map_comp comp_def)
  then show ?case using degrees ih one by auto
qed

lemma map_of_keyed: "distinct (map nid ts) \<Longrightarrow> map_of (map (\<lambda>t. (nid t, v)) ts) k = (if k \<in> nid ` set ts then Some v else None)"
  by (induction ts) auto

lemma buildEdges_Inr:
  assumes "buildEdges tasks = Inr (ind, dep)" "distinct (map nid tasks)"
  shows "\<forall>t \<in> set tasks. set (ndeps t) \<subseteq> nid ` set tasks"
    and "\<forall>t \<in> set tasks. map_of ind (nid t) = Some (int (length (ndeps t)))"
    and "\<forall>t \<in> set tasks. map_of dep (nid t) = Some (edgesOf tasks (nid t))"
  using addAllDependencies [OF assms(1) [unfolded buildEdges_def] subset_refl assms(2)] assms(2)
  by (auto simp: map_of_keyed)

lemma buildEdges_Inl:
  assumes "buildEdges tasks = Inl e"
  shows "e = PlanningError invalid_specification" and "\<exists>t \<in> set tasks. \<not> set (ndeps t) \<subseteq> nid ` set tasks"
proof -
  have "foldR (\<lambda>tables t. foldR (addDependency tasks t) tables (ndeps t)) s ts = Inl e \<Longrightarrow>
      e = PlanningError invalid_specification \<and> (\<exists>t \<in> set ts. \<not> set (ndeps t) \<subseteq> nid ` set tasks)" for s ts
  proof (induction ts arbitrary: s)
    case (Cons t ts)
    then show ?case using addDependencies_error [of tasks t s "ndeps t" e]
      by (auto simp: rbind_Inl_iff)
  qed simp
  from this [OF assms [unfolded buildEdges_def]]
  show "e = PlanningError invalid_specification" "\<exists>t \<in> set tasks. \<not> set (ndeps t) \<subseteq> nid ` set tasks"
    by simp_all
qed

section \<open>An example plan\<close>

text \<open>Two tasks that write under the same directory, and a third that needs the first.\<close>

definition exampleTask :: "string \<Rightarrow> string list \<Rightarrow> string list \<Rightarrow> task_specification" where
  "exampleTask tid deps paths = \<lparr>ts_id = tid, ts_objective = ''do'', ts_impact_paths = [], ts_expected_outputs = [],
     ts_capabilities = [], ts_tools = [], ts_dependencies = deps, ts_risk = low,
     ts_budget = \<lparr>tb_steps = 1, tb_tokens = 1, tb_duration_ms = Some 1\<rparr>,
     ts_write_paths = Some paths, ts_exclusive_resources = Some [], ts_acceptance = [], ts_assertions = None,
     ts_required_gates = []\<rparr>"

definition examplePlan :: "task_specification list" where
  "examplePlan = [exampleTask ''task_c'' [''task_a''] [''docs''], exampleTask ''task_a'' [] [''src''],
     exampleTask ''task_b'' [] [''src/b'']]"

definition exampleTasks :: "normalized_task list" where
  "exampleTasks = map (\<lambda>(i, t). \<lparr>n_task = t, n_position = i, n_writePaths = the (ts_write_paths t), n_resources = []\<rparr>)
     (enumerate 0 examplePlan)"

definition exampleWaves :: "parallel_wave list" where
  "exampleWaves = [\<lparr>wave_index = 0, wave_task_ids = [''task_a'']\<rparr>,
     \<lparr>wave_index = 1, wave_task_ids = [''task_c'', ''task_b'']\<rparr>]"

lemma normalize_examplePlan: "normalizeTasks exampleHost examplePlan = Inr exampleTasks"
  by code_simp

lemma order_exampleTasks:
  "stableTopologicalOrder exampleTasks = Inr [exampleTasks ! 1, exampleTasks ! 0, exampleTasks ! 2]"
  by code_simp

lemma compile_examplePlan: "compileParallelWaves exampleHost examplePlan = Inr exampleWaves"
  by code_simp

end
