(* ===== verification/Lease_Record.thy ===== *)
theory Lease_Record
  imports Canonical_Json
begin

text \<open>
  Task lease records (\<^verbatim>\<open>core/src/schema/scheduling.ts\<close>, \<^verbatim>\<open>core/src/scheduling/records.ts\<close>): the record,
  its JSON form, the schema and the semantic checks, and the builder that seals it. The wave
  integration record of the same files is not modelled here.
\<close>

section \<open>The record\<close>

datatype task_lease_state = granted | released | expired | revoked

datatype task_retry_kind = executor_retry | integration_retry

record lease_budget =
  bu_steps :: rat
  bu_tokens :: rat

record task_lease_record =
  lr_protocol_version :: string
  lr_record_kind :: string
  lr_operation_id :: string
  lr_iteration_id :: string
  lr_plan_digest :: string
  lr_task_id :: string
  lr_task_digest :: string
  lr_run_id :: string
  lr_slot_id :: string
  lr_baseline_commit :: string
  lr_agent_adapter_digest :: string
  lr_policy_digest :: string
  lr_approval_digests :: "string list"
  lr_task_lease_record_id :: string
  lr_lease_id :: string
  lr_previous_lease_record_digest :: "string option"
  lr_fencing_token :: int
  lr_state :: task_lease_state
  lr_attempt_number :: int
  lr_retry_kind :: "task_retry_kind option"
  lr_reserved_budget :: lease_budget
  lr_consumed_budget :: lease_budget
  lr_issued_at :: string
  lr_expires_at :: string
  lr_command_id :: string
  lr_record_digest :: string

fun leaseStateText :: "task_lease_state \<Rightarrow> string" where
  "leaseStateText granted = ''granted''"
| "leaseStateText released = ''released''"
| "leaseStateText expired = ''expired''"
| "leaseStateText revoked = ''revoked''"

fun retryKindText :: "task_retry_kind \<Rightarrow> string" where
  "retryKindText executor_retry = ''executor_retry''"
| "retryKindText integration_retry = ''integration_retry''"

text \<open>The record as the JSON object the envelope functions see; an absent optional field has no entry.\<close>

definition budgetJson :: "lease_budget \<Rightarrow> json" where
  "budgetJson b = JObj [(''steps'', JNum (bu_steps b)), (''tokens'', JNum (bu_tokens b))]"

definition leaseBody :: "task_lease_record \<Rightarrow> (string \<times> json) list" where
  "leaseBody r =
     [(''protocol_version'', JStr (lr_protocol_version r)), (''record_kind'', JStr (lr_record_kind r)),
      (''operation_id'', JStr (lr_operation_id r)), (''iteration_id'', JStr (lr_iteration_id r)),
      (''plan_digest'', JStr (lr_plan_digest r)), (''task_id'', JStr (lr_task_id r)),
      (''task_digest'', JStr (lr_task_digest r)), (''run_id'', JStr (lr_run_id r)),
      (''slot_id'', JStr (lr_slot_id r)), (''baseline_commit'', JStr (lr_baseline_commit r)),
      (''agent_adapter_digest'', JStr (lr_agent_adapter_digest r)), (''policy_digest'', JStr (lr_policy_digest r)),
      (''approval_digests'', JArr (map JStr (lr_approval_digests r))),
      (''task_lease_record_id'', JStr (lr_task_lease_record_id r)), (''lease_id'', JStr (lr_lease_id r)),
      (''fencing_token'', JNum (of_int (lr_fencing_token r))), (''state'', JStr (leaseStateText (lr_state r))),
      (''attempt_number'', JNum (of_int (lr_attempt_number r))),
      (''reserved_budget'', budgetJson (lr_reserved_budget r)), (''consumed_budget'', budgetJson (lr_consumed_budget r)),
      (''issued_at'', JStr (lr_issued_at r)), (''expires_at'', JStr (lr_expires_at r)),
      (''command_id'', JStr (lr_command_id r))]
     @ (case lr_previous_lease_record_digest r of None \<Rightarrow> [] | Some d \<Rightarrow> [(''previous_lease_record_digest'', JStr d)])
     @ (case lr_retry_kind r of None \<Rightarrow> [] | Some k \<Rightarrow> [(''retry_kind'', JStr (retryKindText k))])"

definition leaseEntries :: "task_lease_record \<Rightarrow> (string \<times> json) list" where
  "leaseEntries r = leaseBody r @ [(''record_digest'', JStr (lr_record_digest r))]"

section \<open>Schema and semantics\<close>

definition identifierSchema :: "string \<Rightarrow> bool" where
  "identifierSchema s \<longleftrightarrow> 3 \<le> length s \<and> length s \<le> 160 \<and> identifierPattern s"

definition leaseBudgetSchema :: "lease_budget \<Rightarrow> bool" where
  "leaseBudgetSchema b \<longleftrightarrow> isInteger (bu_steps b) \<and> 0 \<le> bu_steps b \<and> isInteger (bu_tokens b) \<and> 0 \<le> bu_tokens b"

definition TaskLeaseRecordSchema :: "host \<Rightarrow> task_lease_record \<Rightarrow> bool" where
  "TaskLeaseRecordSchema H r \<longleftrightarrow>
     lr_protocol_version r = PROTOCOL_1_3_VERSION \<and> lr_record_kind r = ''task_lease''
     \<and> identifierSchema (lr_operation_id r) \<and> identifierSchema (lr_iteration_id r)
     \<and> digestPattern (lr_plan_digest r) \<and> identifierSchema (lr_task_id r) \<and> digestPattern (lr_task_digest r)
     \<and> identifierSchema (lr_run_id r) \<and> identifierSchema (lr_slot_id r) \<and> gitCommitPattern (lr_baseline_commit r)
     \<and> digestPattern (lr_agent_adapter_digest r) \<and> digestPattern (lr_policy_digest r)
     \<and> list_all digestPattern (lr_approval_digests r) \<and> distinct (lr_approval_digests r)
     \<and> identifierSchema (lr_task_lease_record_id r) \<and> identifierSchema (lr_lease_id r)
     \<and> (case lr_previous_lease_record_digest r of None \<Rightarrow> True | Some d \<Rightarrow> digestPattern d)
     \<and> 1 \<le> lr_fencing_token r \<and> 1 \<le> lr_attempt_number r
     \<and> leaseBudgetSchema (lr_reserved_budget r) \<and> leaseBudgetSchema (lr_consumed_budget r)
     \<and> h_isDateTime H (lr_issued_at r) \<and> h_isDateTime H (lr_expires_at r)
     \<and> identifierSchema (lr_command_id r) \<and> digestPattern (lr_record_digest r)"

definition terminalLeaseStates :: "task_lease_state list" where
  "terminalLeaseStates = [released, expired, revoked]"

definition assertTaskLeaseSemantics :: "task_lease_record \<Rightarrow> unit result" where
  "assertTaskLeaseSemantics r =
     (if lr_fencing_token r < 1 then Inl SchedulingRecordError
      else if List.member terminalLeaseStates (lr_state r) \<and> lr_previous_lease_record_digest r = None
      then Inl SchedulingRecordError
      else if bu_steps (lr_reserved_budget r) < bu_steps (lr_consumed_budget r)
        \<or> bu_tokens (lr_reserved_budget r) < bu_tokens (lr_consumed_budget r)
      then Inl SchedulingRecordError
      else if length (dedupe (lr_approval_digests r)) \<noteq> length (lr_approval_digests r)
      then Inl SchedulingRecordError
      else Inr ())"

definition assertSchedulingRecordSemantics :: "host \<Rightarrow> task_lease_record \<Rightarrow> unit result" where
  "assertSchedulingRecordSemantics H r =
     (if \<not> TaskLeaseRecordSchema H r then Inl SchedulingRecordError else assertTaskLeaseSemantics r)"

definition sealLease :: "host \<Rightarrow> task_lease_record \<Rightarrow> task_lease_record result" where
  "sealLease H r = rbind (recordDigestOf H (leaseEntries r)) (\<lambda>d. Inr (r\<lparr>lr_record_digest := d\<rparr>))"

definition buildTaskLeaseRecord :: "host \<Rightarrow> task_lease_record \<Rightarrow> task_lease_record result" where
  "buildTaskLeaseRecord H draft =
     rbind (sealLease H (draft\<lparr>lr_protocol_version := PROTOCOL_1_3_VERSION, lr_record_kind := ''task_lease''\<rparr>)) (\<lambda>r.
     rbind (assertSchedulingRecordSemantics H r) (\<lambda>_. Inr r))"

section \<open>Lemmas\<close>

definition leaseSemantics :: "host \<Rightarrow> task_lease_record \<Rightarrow> bool" where
  "leaseSemantics H r \<longleftrightarrow> TaskLeaseRecordSchema H r
     \<and> (lr_state r \<noteq> granted \<longrightarrow> lr_previous_lease_record_digest r \<noteq> None)
     \<and> bu_steps (lr_consumed_budget r) \<le> bu_steps (lr_reserved_budget r)
     \<and> bu_tokens (lr_consumed_budget r) \<le> bu_tokens (lr_reserved_budget r)"

lemma terminal_iff: "s \<in> set terminalLeaseStates \<longleftrightarrow> s \<noteq> granted"
  by (cases s) (simp_all add: terminalLeaseStates_def)

lemma assertSchedulingRecordSemantics_iff:
  "assertSchedulingRecordSemantics H r = Inr () \<longleftrightarrow> leaseSemantics H r"
  by (auto simp: assertSchedulingRecordSemantics_def assertTaskLeaseSemantics_def leaseSemantics_def
      terminal_iff TaskLeaseRecordSchema_def)

lemma assertSchedulingRecordSemantics_Inl:
  "assertSchedulingRecordSemantics H r = Inl e \<Longrightarrow> e = SchedulingRecordError"
  by (auto simp: assertSchedulingRecordSemantics_def assertTaskLeaseSemantics_def split: if_splits)

lemma leaseBody_digest: "leaseBody (r\<lparr>lr_record_digest := d\<rparr>) = leaseBody r"
  by (simp add: leaseBody_def)

lemma leaseBody_no_digest: "''record_digest'' \<notin> fst ` set (leaseBody r)"
  by (auto simp: leaseBody_def split: option.splits)

lemma recordDigestOf_lease: "recordDigestOf H (leaseEntries r) = contentDigest H (JObj (leaseBody r))"
proof -
  have "jm_del k (m @ [(k, v)]) = m" if "k \<notin> fst ` set m" for k :: string and v :: json and m
    using that by (induction m) auto
  from this [OF leaseBody_no_digest] show ?thesis by (simp add: recordDigestOf_def leaseEntries_def)
qed

text \<open>The sealed lease is the sealed envelope of its JSON form.\<close>

lemma sealLease_envelope:
  "sealLease H r = Inr r' \<Longrightarrow> sealRecordEnvelope H (leaseEntries r) = Inr (leaseEntries r')"
proof -
  have upd: "jm_set k w (m @ [(k, v)]) = m @ [(k, w)]" if "k \<notin> fst ` set m" for k :: string and v w :: json and m
    using that by (induction m) auto
  assume "sealLease H r = Inr r'"
  then obtain d where "recordDigestOf H (leaseEntries r) = Inr d" and "r' = r\<lparr>lr_record_digest := d\<rparr>"
    by (auto simp: sealLease_def rbind_Inr_iff)
  then show ?thesis
    using upd [OF leaseBody_no_digest] by (simp add: sealRecordEnvelope_def leaseEntries_def leaseBody_digest)
qed

lemma buildTaskLeaseRecord_Inr:
  assumes "buildTaskLeaseRecord H draft = Inr r"
  shows "leaseSemantics H r" and "contentDigest H (JObj (leaseBody r)) = Inr (lr_record_digest r)"
    and "r = draft\<lparr>lr_protocol_version := PROTOCOL_1_3_VERSION, lr_record_kind := ''task_lease'',
      lr_record_digest := lr_record_digest r\<rparr>"
  using assms
  by (auto simp: buildTaskLeaseRecord_def sealLease_def rbind_Inr_iff recordDigestOf_lease leaseBody_digest
      simp flip: assertSchedulingRecordSemantics_iff)

lemma leaseEntries_get:
  "jm_get (leaseEntries r) ''protocol_version'' = Some (JStr (lr_protocol_version r))"
  "jm_get (leaseEntries r) ''record_kind'' = Some (JStr (lr_record_kind r))"
  "jm_get (leaseEntries r) ''record_digest'' = Some (JStr (lr_record_digest r))"
  by (simp_all add: leaseEntries_def leaseBody_def split: option.splits)

lemma verify_lease_iff:
  assumes "leaseSemantics H r"
  shows "verifyRecordEnvelope H (leaseEntries r) \<longleftrightarrow> contentDigest H (JObj (leaseBody r)) = Inr (lr_record_digest r)"
proof -
  have "isKnownProtocol PROTOCOL_1_3_VERSION" "recordKindPattern ''task_lease''" by code_simp+
  moreover have "lr_protocol_version r = PROTOCOL_1_3_VERSION" "lr_record_kind r = ''task_lease''" "digestPattern (lr_record_digest r)"
    using assms by (simp_all add: leaseSemantics_def TaskLeaseRecordSchema_def)
  ultimately show ?thesis by (simp add: verifyRecordEnvelope_def leaseEntries_get recordDigestOf_lease)
qed

end
