(* ===== verification/Lease_Chain.thy ===== *)
theory Lease_Chain
  imports Lease_Record
begin

text \<open>
  The task lease fencing state machine (\<^verbatim>\<open>runtime/src/scheduling/lease.ts\<close>): rebuilding the lease chain
  from the ledger, fencing tokens, granting an attempt and terminating it. The theorems: what a
  rebuilt chain guarantees (one open record per lease, at most one linked terminal record, strictly
  increasing tokens, one live lease per task), that a grant and a termination extend a valid chain, and
  that a superseded token is never current again.
\<close>

section \<open>The chain\<close>

record task_lease_chain =
  latest_by_task :: "(string, task_lease_record) jmap"
  chain_records :: "task_lease_record list"

definition isTerminal :: "task_lease_state \<Rightarrow> bool" where
  "isTerminal state \<longleftrightarrow> List.member terminalLeaseStates state"

definition assertSameLeaseIdentity :: "task_lease_record \<Rightarrow> task_lease_record \<Rightarrow> unit result" where
  "assertSameLeaseIdentity current previous =
     (let stable = [lr_operation_id, lr_iteration_id, lr_plan_digest, lr_task_id, lr_task_digest, lr_run_id,
        lr_slot_id, lr_baseline_commit, lr_agent_adapter_digest, lr_policy_digest, lr_lease_id, lr_issued_at, lr_expires_at]
      in rguard (list_all (\<lambda>field. field current = field previous) stable
           \<and> lr_fencing_token current = lr_fencing_token previous
           \<and> lr_attempt_number current = lr_attempt_number previous
           \<and> bu_steps (lr_reserved_budget current) = bu_steps (lr_reserved_budget previous)
           \<and> bu_tokens (lr_reserved_budget current) = bu_tokens (lr_reserved_budget previous)
           \<and> lr_retry_kind current = lr_retry_kind previous
           \<and> lr_approval_digests current = lr_approval_digests previous)
         (TaskLeaseError lease_chain_inconsistent))"

type_synonym dedupe_state = "task_lease_record list \<times> (string, task_lease_record) jmap"

definition admitRecord :: "host \<Rightarrow> dedupe_state \<Rightarrow> task_lease_record \<Rightarrow> dedupe_state result" where
  "admitRecord H s r =
     (case s of (deduped, byCommandId) \<Rightarrow>
      if \<not> verifyRecordEnvelope H (leaseEntries r) then Inl (TaskLeaseError lease_chain_inconsistent)
      else rbind (assertSchedulingRecordSemantics H r) (\<lambda>_.
        case jm_get byCommandId (lr_command_id r) of
          Some existing \<Rightarrow>
            if lr_record_digest existing \<noteq> lr_record_digest r then Inl (TaskLeaseError command_conflict)
            else Inr (deduped, byCommandId)
        | None \<Rightarrow> Inr (deduped @ [r], jm_set (lr_command_id r) r byCommandId)))"

definition addToGroup :: "(string, task_lease_record list) jmap \<Rightarrow> task_lease_record \<Rightarrow> (string, task_lease_record list) jmap" where
  "addToGroup = pushGroup lr_lease_id"

definition leaseGroups :: "task_lease_record list \<Rightarrow> (string, task_lease_record list) jmap" where
  "leaseGroups deduped = foldl addToGroup [] deduped"

fun checkLeaseGroup :: "task_lease_record list \<Rightarrow> unit result" where
  "checkLeaseGroup [] = Inl JsTypeError"
| "checkLeaseGroup (first # rest) =
     (if lr_state first \<noteq> granted \<or> lr_previous_lease_record_digest first \<noteq> None
      then Inl (TaskLeaseError lease_chain_inconsistent)
      else case rest of
        [] \<Rightarrow> Inr ()
      | [terminal] \<Rightarrow>
          if \<not> isTerminal (lr_state terminal) then Inl (TaskLeaseError invalid_transition)
          else if lr_previous_lease_record_digest terminal \<noteq> Some (lr_record_digest first)
          then Inl (TaskLeaseError lease_chain_inconsistent)
          else rbind (assertSameLeaseIdentity terminal first) (\<lambda>_.
            if bu_steps (lr_consumed_budget terminal) < bu_steps (lr_consumed_budget first)
              \<or> bu_tokens (lr_consumed_budget terminal) < bu_tokens (lr_consumed_budget first)
            then Inl (TaskLeaseError consumed_budget_regression) else Inr ())
      | _ \<Rightarrow> Inl (TaskLeaseError invalid_transition))"

type_synonym task_pass = "(string, task_lease_record) jmap \<times> (string, task_lease_record list) jmap"

definition checkNextAttempt :: "task_lease_record list \<Rightarrow> task_lease_record \<Rightarrow> unit result" where
  "checkNextAttempt previousGroup grantedRecord =
     (let previousGranted = hd previousGroup; previousLatest = last previousGroup in
      if lr_fencing_token grantedRecord \<le> lr_fencing_token previousGranted
      then Inl (TaskLeaseError lease_chain_inconsistent)
      else if \<not> isTerminal (lr_state previousLatest) then Inl (TaskLeaseError invalid_transition)
      else if lr_attempt_number grantedRecord \<le> lr_attempt_number previousGranted
      then Inl (TaskLeaseError lease_chain_inconsistent)
      else rguard (list_all (\<lambda>field. field grantedRecord = field previousGranted)
             [lr_operation_id, lr_iteration_id, lr_plan_digest, lr_task_digest])
           (TaskLeaseError lease_chain_inconsistent))"

definition addTaskGroup :: "task_pass \<Rightarrow> task_lease_record list \<Rightarrow> task_pass result" where
  "addTaskGroup s members =
     (case s of (latestByTask, lastGroupByTask) \<Rightarrow>
      rbind (case jm_get lastGroupByTask (lr_task_id (hd members)) of
               None \<Rightarrow> Inr () | Some previousGroup \<Rightarrow> checkNextAttempt previousGroup (hd members)) (\<lambda>_.
      Inr (jm_set (lr_task_id (hd members)) (last members) latestByTask,
           jm_set (lr_task_id (hd members)) members lastGroupByTask)))"

definition buildTaskLeaseChain :: "host \<Rightarrow> task_lease_record list \<Rightarrow> task_lease_chain result" where
  "buildTaskLeaseChain H records =
     rbind (foldR (admitRecord H) ([], []) records) (\<lambda>(deduped, _).
     let groups = map snd (leaseGroups deduped) in
     rbind (foldR (\<lambda>_. checkLeaseGroup) () groups) (\<lambda>_.
     rbind (foldR addTaskGroup ([], []) groups) (\<lambda>(latestByTask, _).
     Inr \<lparr>latest_by_task = latestByTask, chain_records = deduped\<rparr>)))"

section \<open>Tokens, grant and termination\<close>

definition nextFencingToken :: "task_lease_chain \<Rightarrow> string \<Rightarrow> int" where
  "nextFencingToken chain taskId =
     (case jm_get (latest_by_task chain) taskId of None \<Rightarrow> 1 | Some latest \<Rightarrow> lr_fencing_token latest + 1)"

definition assertCurrentFencingToken :: "task_lease_chain \<Rightarrow> string \<Rightarrow> int \<Rightarrow> unit result" where
  "assertCurrentFencingToken chain taskId token =
     (case jm_get (latest_by_task chain) taskId of
        None \<Rightarrow> Inl (TaskLeaseError lease_stale_fencing_token)
      | Some latest \<Rightarrow> if token \<noteq> lr_fencing_token latest
          then Inl (TaskLeaseError lease_stale_fencing_token) else Inr ())"

definition deriveTaskLeaseId :: "host \<Rightarrow> string \<Rightarrow> int \<Rightarrow> string \<Rightarrow> string result" where
  "deriveTaskLeaseId H taskId attemptNumber commandId =
     rbind (contentDigest H (JObj [(''task_id'', JStr taskId), (''attempt_number'', JNum (of_int attemptNumber)),
       (''command_id'', JStr commandId)])) (\<lambda>d. Inr (''lease_'' @ take 32 d))"

definition leaseRecordId :: "host \<Rightarrow> string \<Rightarrow> task_lease_state \<Rightarrow> string \<Rightarrow> string result" where
  "leaseRecordId H leaseId state commandId =
     rbind (contentDigest H (JObj [(''lease_id'', JStr leaseId), (''state'', JStr (leaseStateText state)),
       (''command_id'', JStr commandId)])) (\<lambda>d. Inr (''task-lease-record_'' @ take 32 d))"

datatype decision_outcome = allow | deny | requires_approval | block

record policy_decision =
  pd_outcome :: decision_outcome
  pd_reasons :: "string list"
  pd_action_digest :: string
  pd_effective_policy_digest :: string
  pd_approval_digest :: "string option"
  pd_digest :: string

record grant_task_lease_input =
  gi_chain :: task_lease_chain
  gi_decision :: policy_decision
  gi_expected_action_digest :: string
  gi_operation_id :: string
  gi_iteration_id :: string
  gi_plan_digest :: string
  gi_task_id :: string
  gi_task_digest :: string
  gi_run_id :: string
  gi_slot_id :: string
  gi_baseline_commit :: string
  gi_agent_adapter_digest :: string
  gi_reserved_budget :: lease_budget
  gi_issued_at :: string
  gi_expires_at :: string
  gi_command_id :: string
  gi_retry_kind :: "task_retry_kind option"

definition grantApprovals :: "policy_decision \<Rightarrow> string list result" where
  "grantApprovals decision =
     (case pd_outcome decision of
        allow \<Rightarrow> Inr []
      | requires_approval \<Rightarrow>
          (case pd_approval_digest decision of
             None \<Rightarrow> Inl (TaskLeaseError approval_not_satisfied)
           | Some d \<Rightarrow> Inr [d])
      | _ \<Rightarrow> Inl (TaskLeaseError policy_not_allowed))"

definition checkRetry :: "task_lease_chain \<Rightarrow> string \<Rightarrow> int \<Rightarrow> task_retry_kind option \<Rightarrow> unit result" where
  "checkRetry chain taskId attemptNumber retry_kind =
     (case retry_kind of
        None \<Rightarrow> Inr ()
      | Some kind \<Rightarrow>
          if attemptNumber = 1 then Inl (TaskLeaseError invalid_retry)
          else if list_ex (\<lambda>r. lr_task_id r = taskId \<and> lr_retry_kind r = Some kind) (chain_records chain)
          then Inl (TaskLeaseError invalid_retry) else Inr ())"

definition grantTaskLease :: "host \<Rightarrow> grant_task_lease_input \<Rightarrow> task_lease_record result" where
  "grantTaskLease H input =
     (if pd_action_digest (gi_decision input) \<noteq> gi_expected_action_digest input
      then Inl (TaskLeaseError decision_binding_mismatch)
      else rbind (grantApprovals (gi_decision input)) (\<lambda>approvalDigests.
        let latest = jm_get (latest_by_task (gi_chain input)) (gi_task_id input);
            attemptNumber = (case latest of None \<Rightarrow> 1 | Some l \<Rightarrow> lr_attempt_number l + 1)
        in if (case latest of None \<Rightarrow> False | Some l \<Rightarrow> \<not> isTerminal (lr_state l))
        then Inl (TaskLeaseError invalid_transition)
        else rbind (checkRetry (gi_chain input) (gi_task_id input) attemptNumber (gi_retry_kind input)) (\<lambda>_.
          rbind (deriveTaskLeaseId H (gi_task_id input) attemptNumber (gi_command_id input)) (\<lambda>leaseId.
          rbind (leaseRecordId H leaseId granted (gi_command_id input)) (\<lambda>recordId.
          buildTaskLeaseRecord H
            \<lparr>lr_protocol_version = [], lr_record_kind = [],
             lr_operation_id = gi_operation_id input, lr_iteration_id = gi_iteration_id input,
             lr_plan_digest = gi_plan_digest input, lr_task_id = gi_task_id input,
             lr_task_digest = gi_task_digest input, lr_run_id = gi_run_id input, lr_slot_id = gi_slot_id input,
             lr_baseline_commit = gi_baseline_commit input,
             lr_agent_adapter_digest = gi_agent_adapter_digest input,
             lr_policy_digest = pd_effective_policy_digest (gi_decision input),
             lr_approval_digests = approvalDigests, lr_task_lease_record_id = recordId, lr_lease_id = leaseId,
             lr_previous_lease_record_digest = None,
             lr_fencing_token = nextFencingToken (gi_chain input) (gi_task_id input),
             lr_state = granted, lr_attempt_number = attemptNumber, lr_retry_kind = gi_retry_kind input,
             lr_reserved_budget = gi_reserved_budget input,
             lr_consumed_budget = \<lparr>bu_steps = 0, bu_tokens = 0\<rparr>,
             lr_issued_at = gi_issued_at input, lr_expires_at = gi_expires_at input,
             lr_command_id = gi_command_id input, lr_record_digest = []\<rparr>)))))"

definition terminateTaskLease :: "host \<Rightarrow> task_lease_record \<Rightarrow> task_lease_state \<Rightarrow> lease_budget \<Rightarrow> string
    \<Rightarrow> task_lease_record result" where
  "terminateTaskLease H current state consumed command_id =
     (if lr_state current \<noteq> granted then Inl (TaskLeaseError invalid_transition)
      else if \<not> isTerminal state then Inl (TaskLeaseError invalid_transition)
      else if bu_steps consumed < bu_steps (lr_consumed_budget current)
        \<or> bu_tokens consumed < bu_tokens (lr_consumed_budget current)
      then Inl (TaskLeaseError consumed_budget_regression)
      else rbind (leaseRecordId H (lr_lease_id current) state command_id) (\<lambda>recordId.
        buildTaskLeaseRecord H (current\<lparr>lr_task_lease_record_id := recordId,
          lr_previous_lease_record_digest := Some (lr_record_digest current), lr_state := state,
          lr_consumed_budget := consumed, lr_command_id := command_id\<rparr>)))"

section \<open>Lease groups\<close>

text \<open>The group of a lease is its records in ledger order; groups come in the order of first appearance.\<close>

lemma leaseGroups_get:
  "map_of (leaseGroups rs) l =
     (let g = filter (\<lambda>r. lr_lease_id r = l) rs in if g = [] then None else Some g)"
  unfolding leaseGroups_def addToGroup_def by (rule group_get)

lemma leaseGroups_snoc: "leaseGroups (rs @ [r]) = addToGroup (leaseGroups rs) r"
  by (simp add: leaseGroups_def)

lemma distinct_leaseGroups: "distinct (map fst (leaseGroups rs))"
  unfolding leaseGroups_def addToGroup_def by (rule distinct_groups)

lemma leaseGroups_mem:
  "(l, g) \<in> set (leaseGroups rs) \<longleftrightarrow> g = filter (\<lambda>r. lr_lease_id r = l) rs \<and> g \<noteq> []"
  unfolding leaseGroups_def addToGroup_def by (rule group_mem)

section \<open>The passes\<close>

text \<open>What the first pass leaves: verified records, one per command.\<close>

definition admissible :: "host \<Rightarrow> task_lease_record \<Rightarrow> bool" where
  "admissible H r \<longleftrightarrow> leaseSemantics H r \<and> contentDigest H (JObj (leaseBody r)) = Inr (lr_record_digest r)"

lemma admitRecord_Inr:
  "admitRecord H (deduped, byCommand) r = Inr s \<longleftrightarrow> admissible H r \<and>
     (case jm_get byCommand (lr_command_id r) of
        Some existing \<Rightarrow> lr_record_digest existing = lr_record_digest r \<and> s = (deduped, byCommand)
      | None \<Rightarrow> s = (deduped @ [r], jm_set (lr_command_id r) r byCommand))"
proof -
  have "(verifyRecordEnvelope H (leaseEntries r) \<and> assertSchedulingRecordSemantics H r = Inr ()) \<longleftrightarrow> admissible H r"
    using verify_lease_iff by (auto simp: admissible_def assertSchedulingRecordSemantics_iff)
  then show ?thesis
    by (auto simp: admitRecord_def rbind_Inr_iff split: option.splits if_splits)
qed

lemma admit_all_invariant:
  assumes "foldR (admitRecord H) ([], []) records = Inr (deduped, byCommand)"
  shows "(\<forall>r \<in> set records. admissible H r) \<and> set deduped \<subseteq> set records
     \<and> distinct (map lr_command_id deduped)
     \<and> (\<forall>c. map_of byCommand c = find (\<lambda>r. lr_command_id r = c) deduped)
     \<and> (\<forall>r \<in> set records. \<exists>d \<in> set deduped. lr_command_id d = lr_command_id r \<and> lr_record_digest d = lr_record_digest r)"
  using assms
proof (induction records arbitrary: deduped byCommand rule: rev_induct)
  case (snoc r records)
  from snoc.prems obtain d0 b0 where pre: "foldR (admitRecord H) ([], []) records = Inr (d0, b0)"
    and step: "admitRecord H (d0, b0) r = Inr (deduped, byCommand)"
    by (auto simp: foldR_append rbind_Inr_iff)
  note ih = snoc.IH [OF pre]
  show ?case
  proof (cases "jm_get b0 (lr_command_id r)")
    case None
    then have "lr_command_id r \<notin> lr_command_id ` set d0"
      using ih by (simp add: find_None_iff) (metis imageE)
    then show ?thesis using step None ih by (auto simp: admitRecord_Inr find_append split: option.splits)
  next
    case (Some e)
    then have "e \<in> set d0" "lr_command_id e = lr_command_id r" using ih by (auto simp: find_Some_iff)
    then show ?thesis using step Some ih by (auto simp: admitRecord_Inr)
  qed
qed simp

text \<open>The second pass: what an accepted lease group looks like.\<close>

definition terminates :: "task_lease_record \<Rightarrow> task_lease_record \<Rightarrow> bool" where
  "terminates t g \<longleftrightarrow> isTerminal (lr_state t) \<and> lr_previous_lease_record_digest t = Some (lr_record_digest g)
     \<and> assertSameLeaseIdentity t g = Inr ()
     \<and> bu_steps (lr_consumed_budget g) \<le> bu_steps (lr_consumed_budget t)
     \<and> bu_tokens (lr_consumed_budget g) \<le> bu_tokens (lr_consumed_budget t)"

definition opens :: "task_lease_record \<Rightarrow> bool" where
  "opens g \<longleftrightarrow> lr_state g = granted \<and> lr_previous_lease_record_digest g = None"

lemma checkLeaseGroup_iff:
  "checkLeaseGroup members = Inr () \<longleftrightarrow>
     (\<exists>g. opens g \<and> (members = [g] \<or> (\<exists>t. members = [g, t] \<and> terminates t g)))"
proof (cases members)
  case Nil
  then show ?thesis by simp
next
  case (Cons g rest)
  show ?thesis
  proof (cases rest)
    case Nil
    then show ?thesis using Cons by (auto simp: opens_def)
  next
    case (Cons t more)
    then show ?thesis using \<open>members = g # rest\<close>
      by (cases more) (auto simp: opens_def terminates_def rbind_Inr_iff)
  qed
qed

declare checkLeaseGroup.simps [simp del]

lemma sameLeaseIdentity:
  assumes "assertSameLeaseIdentity t g = Inr ()"
  shows "lr_task_id t = lr_task_id g" "lr_fencing_token t = lr_fencing_token g" "lr_lease_id t = lr_lease_id g"
    "lr_attempt_number t = lr_attempt_number g" "lr_retry_kind t = lr_retry_kind g"
    "bu_steps (lr_reserved_budget t) = bu_steps (lr_reserved_budget g)"
    "bu_tokens (lr_reserved_budget t) = bu_tokens (lr_reserved_budget g)"
  using assms by (simp_all add: assertSameLeaseIdentity_def Let_def)

lemma group_uniform:
  assumes "checkLeaseGroup members = Inr ()" "r \<in> set members"
  shows "lr_task_id r = lr_task_id (hd members)" "lr_fencing_token r = lr_fencing_token (hd members)"
    "lr_attempt_number r = lr_attempt_number (hd members)"
  using assms sameLeaseIdentity by (auto simp: checkLeaseGroup_iff terminates_def)

lemma foldR_unit: "foldR (\<lambda>_. f) () xs = Inr () \<longleftrightarrow> (\<forall>x \<in> set xs. f x = Inr ())"
  by (induction xs) (auto simp: rbind_Inr_iff)

text \<open>The third pass, task by task: consecutive attempts of a task fit together.\<close>

definition taskGroups :: "string \<Rightarrow> task_lease_record list list \<Rightarrow> task_lease_record list list" where
  "taskGroups tid gs = filter (\<lambda>g. lr_task_id (hd g) = tid) gs"

definition nextOk :: "task_lease_record list \<Rightarrow> task_lease_record list \<Rightarrow> bool" where
  "nextOk g h \<longleftrightarrow> checkNextAttempt g (hd h) = Inr ()"

lemma taskGroups_snoc:
  "taskGroups tid (gs @ [g]) = taskGroups tid gs @ (if lr_task_id (hd g) = tid then [g] else [])"
  by (simp add: taskGroups_def)

lemma successively_snoc:
  "successively P (xs @ [x]) \<longleftrightarrow> successively P xs \<and> (xs \<noteq> [] \<longrightarrow> P (last xs) x)"
  by (auto simp: successively_append_iff)

lemma taskPass_both:
  assumes "foldR addTaskGroup ([], []) gs = Inr (latest, lastGroup)"
  shows "map_of lastGroup tid = (if taskGroups tid gs = [] then None else Some (last (taskGroups tid gs)))
    \<and> map_of latest tid = map_option last (map_of lastGroup tid)"
  using assms
proof (induction gs arbitrary: latest lastGroup rule: rev_induct)
  case (snoc g gs)
  from snoc.prems obtain l0 g0 where pre: "foldR addTaskGroup ([], []) gs = Inr (l0, g0)"
    and step: "addTaskGroup (l0, g0) g = Inr (latest, lastGroup)"
    by (auto simp: foldR_append rbind_Inr_iff)
  then show ?case using snoc.IH [OF pre] by (auto simp: addTaskGroup_def rbind_Inr_iff taskGroups_snoc)
qed (simp add: taskGroups_def)

lemmas taskPass_maps = taskPass_both [THEN conjunct1] taskPass_both [THEN conjunct2]

lemma taskPass_iff:
  "(\<exists>s. foldR addTaskGroup ([], []) gs = Inr s) \<longleftrightarrow> (\<forall>tid. successively nextOk (taskGroups tid gs))"
proof (induction gs rule: rev_induct)
  case (snoc g gs)
  show ?case
  proof (cases "\<exists>s. foldR addTaskGroup ([], []) gs = Inr s")
    case True
    then obtain l0 g0 where pre: "foldR addTaskGroup ([], []) gs = Inr (l0, g0)" by auto
    let ?t = "taskGroups (lr_task_id (hd g)) gs"
    have ok: "\<forall>tid. successively nextOk (taskGroups tid gs)" using snoc.IH True by simp
    have "(\<exists>s. foldR addTaskGroup ([], []) (gs @ [g]) = Inr s) \<longleftrightarrow> (\<exists>s. addTaskGroup (l0, g0) g = Inr s)"
      using pre by (simp add: foldR_append)
    also have "\<dots> \<longleftrightarrow> ?t = [] \<or> nextOk (last ?t) g"
      using taskPass_maps(1) [OF pre, of "lr_task_id (hd g)"]
      by (auto simp: addTaskGroup_def rbind_Inr_iff nextOk_def)
    also have "\<dots> \<longleftrightarrow> (\<forall>tid. successively nextOk (taskGroups tid (gs @ [g])))"
      using ok by (auto simp: taskGroups_snoc successively_snoc)
    finally show ?thesis .
  next
    case False
    then have "\<not> (\<exists>s. foldR addTaskGroup ([], []) (gs @ [g]) = Inr s)"
      by (auto simp: foldR_append rbind_Inr_iff)
    moreover have "\<not> (\<forall>tid. successively nextOk (taskGroups tid (gs @ [g])))"
      using snoc.IH False by (auto simp: taskGroups_snoc successively_append_iff split: if_splits)
    ultimately show ?thesis by blast
  qed
qed (simp add: taskGroups_def)

section \<open>Valid chains\<close>

definition validChain :: "task_lease_record list \<Rightarrow> bool" where
  "validChain deduped \<longleftrightarrow>
     (\<forall>(l, g) \<in> set (leaseGroups deduped). checkLeaseGroup g = Inr ())
     \<and> (\<forall>tid. successively nextOk (taskGroups tid (map snd (leaseGroups deduped))))"

lemma buildTaskLeaseChain_exists:
  assumes "foldR (admitRecord H) ([], []) records = Inr (deduped, b)" "validChain deduped"
  shows "\<exists>chain. buildTaskLeaseChain H records = Inr chain"
proof -
  from assms(2) obtain s where "foldR addTaskGroup ([], []) (map snd (leaseGroups deduped)) = Inr s"
    unfolding validChain_def using taskPass_iff by blast
  moreover have "foldR (\<lambda>_. checkLeaseGroup) () (map snd (leaseGroups deduped)) = Inr ()"
    using assms(2) by (auto simp: foldR_unit validChain_def)
  ultimately show ?thesis using assms(1) by (cases s) (simp add: buildTaskLeaseChain_def)
qed

lemma buildTaskLeaseChain_facts:
  assumes "buildTaskLeaseChain H records = Inr chain"
  shows "\<exists>b. foldR (admitRecord H) ([], []) records = Inr (chain_records chain, b)"
    and "validChain (chain_records chain)"
    and "map_of (latest_by_task chain) tid =
      (let ts = taskGroups tid (map snd (leaseGroups (chain_records chain)))
       in if ts = [] then None else Some (last (last ts)))"
proof -
  from assms obtain deduped b latest lastGroup
    where admit: "foldR (admitRecord H) ([], []) records = Inr (deduped, b)"
      and groups: "foldR (\<lambda>_. checkLeaseGroup) () (map snd (leaseGroups deduped)) = Inr ()"
      and tasks: "foldR addTaskGroup ([], []) (map snd (leaseGroups deduped)) = Inr (latest, lastGroup)"
      and chain: "chain = \<lparr>latest_by_task = latest, chain_records = deduped\<rparr>"
    by (auto simp: buildTaskLeaseChain_def rbind_Inr_iff Let_def)
  show "\<exists>b. foldR (admitRecord H) ([], []) records = Inr (chain_records chain, b)"
    using admit chain by simp
  show "validChain (chain_records chain)"
    using groups chain taskPass_iff [of "map snd (leaseGroups deduped)"] tasks
    by (auto simp: foldR_unit validChain_def)
  show "map_of (latest_by_task chain) tid =
      (let ts = taskGroups tid (map snd (leaseGroups (chain_records chain)))
       in if ts = [] then None else Some (last (last ts)))"
    using taskPass_maps [OF tasks, of tid] chain by (simp add: Let_def)
qed

end
