(* ===== verification/Lease_Fencing.thy ===== *)
theory Lease_Fencing
  imports Lease_Chain
begin

text \<open>
  The guarantees of the lease state machine (\<^verbatim>\<open>runtime/src/scheduling/lease.ts\<close>): the shape of an accepted
  chain, fencing, and the two transitions of the construction path.
\<close>

section \<open>Attempts of one task\<close>

abbreviation groupsOf :: "task_lease_record list \<Rightarrow> task_lease_record list list" where
  "groupsOf rs \<equiv> map snd (leaseGroups rs)"

lemma nextOk_iff:
  "nextOk g h \<longleftrightarrow> lr_fencing_token (hd g) < lr_fencing_token (hd h) \<and> isTerminal (lr_state (last g))
     \<and> lr_attempt_number (hd g) < lr_attempt_number (hd h)
     \<and> lr_operation_id (hd h) = lr_operation_id (hd g) \<and> lr_iteration_id (hd h) = lr_iteration_id (hd g)
     \<and> lr_plan_digest (hd h) = lr_plan_digest (hd g) \<and> lr_task_digest (hd h) = lr_task_digest (hd g)"
  by (auto simp: nextOk_def checkNextAttempt_def Let_def)

lemma attempts_ordered:
  assumes "successively nextOk gs" "i < j" "j < length gs"
  shows "lr_fencing_token (hd (gs ! i)) < lr_fencing_token (hd (gs ! j))" "isTerminal (lr_state (last (gs ! i)))"
proof -
  have "successively (\<lambda>g h. lr_fencing_token (hd g) < lr_fencing_token (hd h)) gs"
    using assms(1) by (rule successively_mono) (auto simp: nextOk_iff)
  then have "sorted_wrt (\<lambda>g h. lr_fencing_token (hd g) < lr_fencing_token (hd h)) gs"
    by (subst (asm) successively_conv_sorted_wrt) (auto simp: transp_def)
  then show "lr_fencing_token (hd (gs ! i)) < lr_fencing_token (hd (gs ! j))"
    using assms(2,3) by (simp add: sorted_wrt_iff_nth_less)
  have "nextOk (gs ! i) (gs ! Suc i)" using assms by (simp add: successively_conv_nth)
  then show "isTerminal (lr_state (last (gs ! i)))" by (simp add: nextOk_iff)
qed

text \<open>Every record of a valid chain sits in the group of its lease, among the groups of its task.\<close>

lemma record_group:
  assumes "validChain rs" "r \<in> set rs"
  obtains g where "g = filter (\<lambda>s. lr_lease_id s = lr_lease_id r) rs" "r \<in> set g" "checkLeaseGroup g = Inr ()"
    "g \<in> set (taskGroups (lr_task_id r) (groupsOf rs))" "lr_fencing_token r = lr_fencing_token (hd g)"
proof -
  let ?g = "filter (\<lambda>s. lr_lease_id s = lr_lease_id r) rs"
  have mem: "r \<in> set ?g" using assms(2) by simp
  then have "?g \<noteq> []" by (metis empty_iff empty_set)
  then have group_mem: "(lr_lease_id r, ?g) \<in> set (leaseGroups rs)" by (simp add: leaseGroups_mem)
  then have ok: "checkLeaseGroup ?g = Inr ()" using assms(1) by (auto simp: validChain_def)
  have "?g \<in> set (groupsOf rs)" using group_mem by force
  then show ?thesis
    using that [OF refl mem ok] group_uniform [OF ok mem] by (simp add: taskGroups_def)
qed

lemma task_group_members:
  assumes "validChain rs" "g \<in> set (taskGroups tid (groupsOf rs))"
  shows "checkLeaseGroup g = Inr ()" "set g \<subseteq> set rs" "g \<noteq> []" "\<forall>r \<in> set g. lr_task_id r = tid"
    "g = filter (\<lambda>s. lr_lease_id s = lr_lease_id (hd g)) rs"
proof -
  from assms(2) obtain l where mem: "(l, g) \<in> set (leaseGroups rs)" and tid: "lr_task_id (hd g) = tid"
    by (auto simp: taskGroups_def)
  then have g: "g = filter (\<lambda>s. lr_lease_id s = l) rs" "g \<noteq> []" unfolding leaseGroups_mem by blast+
  show ok: "checkLeaseGroup g = Inr ()" using assms(1) mem by (auto simp: validChain_def)
  show "set g \<subseteq> set rs" "g \<noteq> []" using g by auto
  show "\<forall>r \<in> set g. lr_task_id r = tid" using group_uniform(1) [OF ok] tid by simp
  have "hd g \<in> set g" using g(2) by simp
  then have "lr_lease_id (hd g) = l" using g(1) by (metis (mono_tags, lifting) filter_set mem_Collect_eq set_filter)
  then show "g = filter (\<lambda>s. lr_lease_id s = lr_lease_id (hd g)) rs" using g(1) by simp
qed

lemma terminal_state: "isTerminal s \<longleftrightarrow> s \<noteq> granted"
  by (simp add: isTerminal_def terminal_iff)

text \<open>Two records of a task with the same token are the granted and the terminal record of one lease.\<close>

lemma same_token_lease:
  assumes valid: "validChain rs" and a: "a \<in> set rs" and b: "b \<in> set rs" "lr_task_id a = lr_task_id b"
    and tok: "lr_fencing_token a = lr_fencing_token b"
  obtains g where "g = filter (\<lambda>s. lr_lease_id s = lr_lease_id a) rs" "checkLeaseGroup g = Inr ()" "a \<in> set g" "b \<in> set g"
proof -
  let ?G = "taskGroups (lr_task_id a) (groupsOf rs)"
  obtain g where g: "a \<in> set g" "checkLeaseGroup g = Inr ()" "g \<in> set ?G" "lr_fencing_token a = lr_fencing_token (hd g)"
    "g = filter (\<lambda>s. lr_lease_id s = lr_lease_id a) rs"
    using record_group [OF valid a] by metis
  obtain h where h: "b \<in> set h" "h \<in> set ?G" "lr_fencing_token b = lr_fencing_token (hd h)"
    using record_group [OF valid b(1)] b(2) by metis
  obtain i j where ij: "i < length ?G" "g = ?G ! i" "j < length ?G" "h = ?G ! j"
    using g(3) h(2) by (metis in_set_conv_nth)
  have succ: "successively nextOk ?G" using valid by (simp add: validChain_def)
  have "i = j"
    using attempts_ordered(1) [OF succ, of i j] attempts_ordered(1) [OF succ, of j i] ij g(4) h(3) tok
    by (metis less_irrefl linorder_neqE_nat)
  then have "b \<in> set g" using h(1) ij by simp
  then show ?thesis using that g by blast
qed

lemma same_token_pair:
  assumes valid: "validChain rs" and a: "a \<in> set rs" and b: "b \<in> set rs" "lr_task_id a = lr_task_id b"
    and tok: "lr_fencing_token a = lr_fencing_token b" and ne: "a \<noteq> b"
  shows "(lr_state a = granted) \<noteq> (lr_state b = granted)"
proof -
  obtain g where "checkLeaseGroup g = Inr ()" "a \<in> set g" "b \<in> set g"
    using same_token_lease [OF valid a b tok] by blast
  then show ?thesis using ne by (auto simp: checkLeaseGroup_iff opens_def terminates_def terminal_state)
qed

section \<open>The accepted chain\<close>

text \<open>
  Every lease of an accepted chain is opened by exactly one granted record and closed by at most
  one terminal record, which links the granted record's digest, keeps its identity, token and
  reservation, and accounts for no less than before and no more than was reserved.
\<close>
theorem lease_chain_shape:
  assumes "buildTaskLeaseChain H records = Inr chain" "r \<in> set (chain_records chain)"
  shows "\<exists>g. opens g \<and> (filter (\<lambda>s. lr_lease_id s = lr_lease_id r) (chain_records chain) = [g]
     \<or> (\<exists>t. filter (\<lambda>s. lr_lease_id s = lr_lease_id r) (chain_records chain) = [g, t]
          \<and> terminates t g \<and> lr_task_id t = lr_task_id g \<and> lr_fencing_token t = lr_fencing_token g
          \<and> bu_steps (lr_consumed_budget g) \<le> bu_steps (lr_consumed_budget t)
          \<and> bu_steps (lr_consumed_budget t) \<le> bu_steps (lr_reserved_budget g)
          \<and> bu_tokens (lr_consumed_budget g) \<le> bu_tokens (lr_consumed_budget t)
          \<and> bu_tokens (lr_consumed_budget t) \<le> bu_tokens (lr_reserved_budget g)))"
proof -
  obtain b where admit: "foldR (admitRecord H) ([], []) records = Inr (chain_records chain, b)"
    using buildTaskLeaseChain_facts(1) [OF assms(1)] by blast
  note inv = admit_all_invariant [OF admit]
  have sem: "leaseSemantics H t" if "t \<in> set (chain_records chain)" for t
    using inv that by (auto simp: admissible_def)
  obtain g where g: "g = filter (\<lambda>s. lr_lease_id s = lr_lease_id r) (chain_records chain)"
    and ok: "checkLeaseGroup g = Inr ()"
    using record_group [OF buildTaskLeaseChain_facts(2) [OF assms(1)] assms(2)] by metis
  from ok obtain first where first: "opens first" "g = [first] \<or> (\<exists>t. g = [first, t] \<and> terminates t first)"
    by (auto simp: checkLeaseGroup_iff)
  then show ?thesis
  proof (elim disjE exE conjE)
    fix t assume gt: "g = [first, t]" and t: "terminates t first"
    then have "t \<in> set (chain_records chain)" using g by (metis filter_is_subset list.set_intros(1,2) subsetD)
    then show ?thesis
      using sem [of t] first(1) gt g t sameLeaseIdentity [of t first]
      by (auto simp: terminates_def leaseSemantics_def)
  qed (use first g in auto)
qed

text \<open>
  C2. Fencing tokens identify the leases of a task: two records of one task under different leases carry
  different tokens, and of the two the lease with the smaller token has its terminal record in the chain.
  So a chain holds at most one lease of a task without a terminal record, and it is the one with the
  greatest token. The position of that terminal record is not checked by the code: it may stand behind
  the next grant (\<open>late_end_accepted\<close> in \<open>Lease_Examples\<close>).
\<close>
theorem lease_tokens_fence:
  assumes "buildTaskLeaseChain H records = Inr chain"
    and "r \<in> set (chain_records chain)" "s \<in> set (chain_records chain)"
    and "lr_task_id r = lr_task_id s" "lr_lease_id r \<noteq> lr_lease_id s"
  shows "lr_fencing_token r \<noteq> lr_fencing_token s
     \<and> (lr_fencing_token r < lr_fencing_token s \<longrightarrow>
          (\<exists>t \<in> set (chain_records chain). lr_lease_id t = lr_lease_id r \<and> isTerminal (lr_state t)))"
proof -
  let ?rs = "chain_records chain" and ?G = "taskGroups (lr_task_id r) (groupsOf (chain_records chain))"
  have valid: "validChain ?rs" using buildTaskLeaseChain_facts(2) [OF assms(1)] .
  obtain g where g: "g = filter (\<lambda>x. lr_lease_id x = lr_lease_id r) ?rs" "r \<in> set g" "g \<in> set ?G"
    "lr_fencing_token r = lr_fencing_token (hd g)"
    using record_group [OF valid assms(2)] by metis
  obtain h where h: "h = filter (\<lambda>x. lr_lease_id x = lr_lease_id s) ?rs" "s \<in> set h" "h \<in> set ?G"
    "lr_fencing_token s = lr_fencing_token (hd h)"
    using record_group [OF valid assms(3)] assms(4) by metis
  obtain i j where ij: "i < length ?G" "g = ?G ! i" "j < length ?G" "h = ?G ! j"
    using g(3) h(3) by (metis in_set_conv_nth)
  have "r \<notin> set h" using h(1) assms(5) by simp
  then have "i \<noteq> j" using g(2) ij by metis
  have succ: "successively nextOk ?G" using valid by (simp add: validChain_def)
  have closed: "\<exists>t \<in> set ?rs. lr_lease_id t = lr_lease_id r \<and> isTerminal (lr_state t)" if "i < j"
  proof -
    have "isTerminal (lr_state (last g))" using attempts_ordered(2) [OF succ that] ij by simp
    moreover have "last g \<in> set g" using g(2) by (metis empty_iff empty_set last_in_set)
    ultimately show ?thesis using g(1) by auto
  qed
  show ?thesis
  proof (cases "i < j")
    case True
    then show ?thesis using attempts_ordered(1) [OF succ True] ij g(4) h(4) closed by simp
  next
    case False
    then have "j < i" using \<open>i \<noteq> j\<close> by simp
    from attempts_ordered(1) [OF succ this] show ?thesis using ij g(4) h(4) by simp
  qed
qed

text \<open>The latest record of a task carries the greatest token.\<close>

lemma latest_greatest:
  assumes "buildTaskLeaseChain H records = Inr chain"
  shows "(case jm_get (latest_by_task chain) tid of
      None \<Rightarrow> tid \<notin> lr_task_id ` set (chain_records chain)
    | Some latest \<Rightarrow> latest \<in> set (chain_records chain) \<and> lr_task_id latest = tid
        \<and> (\<forall>r \<in> set (chain_records chain). lr_task_id r = tid \<longrightarrow> lr_fencing_token r \<le> lr_fencing_token latest))"
proof -
  let ?rs = "chain_records chain" and ?G = "taskGroups tid (groupsOf (chain_records chain))"
  have valid: "validChain ?rs" using buildTaskLeaseChain_facts(2) [OF assms] .
  have get: "jm_get (latest_by_task chain) tid = (if ?G = [] then None else Some (last (last ?G)))"
    using buildTaskLeaseChain_facts(3) [OF assms] by (simp add: Let_def)
  show ?thesis
  proof (cases "?G = []")
    case True
    then have "r \<notin> set ?rs \<or> lr_task_id r \<noteq> tid" for r using record_group [OF valid, of r] by (metis empty_iff empty_set)
    then show ?thesis using get True by auto
  next
    case False
    then have mem: "last ?G \<in> set ?G" by simp
    note m = task_group_members [OF valid mem]
    then have lastin: "last (last ?G) \<in> set (last ?G)" by simp
    have "lr_fencing_token r \<le> lr_fencing_token (last (last ?G))" if r: "r \<in> set ?rs" "lr_task_id r = tid" for r
    proof -
      obtain g where g: "g \<in> set ?G" "lr_fencing_token r = lr_fencing_token (hd g)"
        using record_group [OF valid r(1)] r(2) by metis
      then obtain i where i: "i < length ?G" "g = ?G ! i" by (metis in_set_conv_nth)
      have succ: "successively nextOk ?G" using valid by (simp add: validChain_def)
      have "lr_fencing_token (hd g) \<le> lr_fencing_token (hd (last ?G))"
      proof (cases "i = length ?G - 1")
        case True
        then show ?thesis using i False by (simp add: last_conv_nth)
      next
        case neq: False
        then have "i < length ?G - 1" "length ?G - 1 < length ?G" using i by auto
        from attempts_ordered(1) [OF succ this] show ?thesis using i False by (simp add: last_conv_nth)
      qed
      then show ?thesis using g(2) group_uniform(2) [OF m(1) lastin] by simp
    qed
    then show ?thesis using get False m lastin by auto
  qed
qed

lemma latest_keys:
  assumes "buildTaskLeaseChain H records = Inr chain"
  shows "distinct (map fst (latest_by_task chain))"
    and "map lr_task_id (map snd (latest_by_task chain)) = map fst (latest_by_task chain)"
proof -
  from assms obtain gs latest lastGroup where pass: "foldR addTaskGroup ([], []) gs = Inr (latest, lastGroup)"
    and chain: "latest_by_task chain = latest"
    by (auto simp: buildTaskLeaseChain_def rbind_Inr_iff Let_def)
  have "distinct (map fst (fst s))" if "foldR addTaskGroup ([], []) gs = Inr s" for s
    using that by (rule foldR_invariant [where P = "\<lambda>s. distinct (map fst (fst s))"])
      (auto simp: addTaskGroup_def rbind_Inr_iff distinct_update split: prod.splits)
  then show dist: "distinct (map fst (latest_by_task chain))" using pass chain by fastforce
  have "lr_task_id v = k" if "(k, v) \<in> set (latest_by_task chain)" for k v
    using that dist latest_greatest [OF assms, of k] by simp
  then show "map lr_task_id (map snd (latest_by_task chain)) = map fst (latest_by_task chain)" by auto
qed

text \<open>
  Only the greatest token of a task is current: the check passes exactly for a task that has
  leases and the maximum of their tokens, so output bound to a superseded token is always rejected.
\<close>
theorem currentFencingToken_iff:
  assumes "buildTaskLeaseChain H records = Inr chain"
  shows "assertCurrentFencingToken chain tid token = Inr () \<longleftrightarrow>
     (\<exists>r \<in> set (chain_records chain). lr_task_id r = tid \<and> lr_fencing_token r = token)
     \<and> (\<forall>r \<in> set (chain_records chain). lr_task_id r = tid \<longrightarrow> lr_fencing_token r \<le> token)"
proof (cases "jm_get (latest_by_task chain) tid")
  case None
  then show ?thesis using latest_greatest [OF assms, of tid] by (auto simp: assertCurrentFencingToken_def)
next
  case (Some latest)
  then have "latest \<in> set (chain_records chain)" "lr_task_id latest = tid"
    "\<forall>r \<in> set (chain_records chain). lr_task_id r = tid \<longrightarrow> lr_fencing_token r \<le> lr_fencing_token latest"
    using latest_greatest [OF assms, of tid] by auto
  moreover from this have "token = lr_fencing_token latest"
    if "\<exists>r \<in> set (chain_records chain). lr_task_id r = tid \<and> lr_fencing_token r = token"
      "\<forall>r \<in> set (chain_records chain). lr_task_id r = tid \<longrightarrow> lr_fencing_token r \<le> token"
    using that by (metis antisym)
  ultimately show ?thesis using Some by (auto simp: assertCurrentFencingToken_def)
qed

section \<open>Granting\<close>

lemma update_absent: "k \<notin> fst ` set m \<Longrightarrow> jm_set k v m = m @ [(k, v)]"
  by (induction m) auto

lemma grantTaskLease_Inr:
  assumes "grantTaskLease H input = Inr r"
  shows "admissible H r" "opens r" "lr_task_id r = gi_task_id input" "lr_command_id r = gi_command_id input"
    "lr_fencing_token r = nextFencingToken (gi_chain input) (gi_task_id input)"
    "lr_attempt_number r = (case jm_get (latest_by_task (gi_chain input)) (gi_task_id input) of
        None \<Rightarrow> 1 | Some l \<Rightarrow> lr_attempt_number l + 1)"
    "lr_operation_id r = gi_operation_id input" "lr_iteration_id r = gi_iteration_id input"
    "lr_plan_digest r = gi_plan_digest input" "lr_task_digest r = gi_task_digest input"
    "lr_retry_kind r = gi_retry_kind input" "lr_reserved_budget r = gi_reserved_budget input"
    "\<And>l. jm_get (latest_by_task (gi_chain input)) (gi_task_id input) = Some l \<Longrightarrow> isTerminal (lr_state l)"
    "checkRetry (gi_chain input) (gi_task_id input) (lr_attempt_number r) (gi_retry_kind input) = Inr ()"
    "grantApprovals (gi_decision input) = Inr (lr_approval_digests r)"
    "pd_action_digest (gi_decision input) = gi_expected_action_digest input"
proof -
  let ?latest = "jm_get (latest_by_task (gi_chain input)) (gi_task_id input)"
  let ?attempt = "case ?latest of None \<Rightarrow> 1 | Some l \<Rightarrow> lr_attempt_number l + 1"
  from assms obtain approvals leaseId recordId draft where
    bound: "pd_action_digest (gi_decision input) = gi_expected_action_digest input"
    and approvals: "grantApprovals (gi_decision input) = Inr approvals"
    and latest: "case ?latest of None \<Rightarrow> True | Some l \<Rightarrow> isTerminal (lr_state l)"
    and retry: "checkRetry (gi_chain input) (gi_task_id input) ?attempt (gi_retry_kind input) = Inr ()"
    and built: "buildTaskLeaseRecord H draft = Inr r"
    and draft: "lr_task_id draft = gi_task_id input" "lr_command_id draft = gi_command_id input"
      "lr_state draft = granted" "lr_previous_lease_record_digest draft = None"
      "lr_fencing_token draft = nextFencingToken (gi_chain input) (gi_task_id input)"
      "lr_attempt_number draft = ?attempt" "lr_operation_id draft = gi_operation_id input"
      "lr_iteration_id draft = gi_iteration_id input" "lr_plan_digest draft = gi_plan_digest input"
      "lr_task_digest draft = gi_task_digest input" "lr_retry_kind draft = gi_retry_kind input"
      "lr_reserved_budget draft = gi_reserved_budget input" "lr_approval_digests draft = approvals"
    by (cases ?latest) (auto simp: grantTaskLease_def rbind_Inr_iff Let_def split: if_splits)
  note b = buildTaskLeaseRecord_Inr [OF built]
  show "admissible H r" using b(1,2) by (simp add: admissible_def)
  have fields: "lr_state r = granted" "lr_previous_lease_record_digest r = None" "lr_attempt_number r = ?attempt"
    using draft by (subst b(3); simp)+
  show "opens r" using fields by (simp add: opens_def)
  show "lr_task_id r = gi_task_id input" "lr_command_id r = gi_command_id input"
    "lr_fencing_token r = nextFencingToken (gi_chain input) (gi_task_id input)"
    "lr_operation_id r = gi_operation_id input" "lr_iteration_id r = gi_iteration_id input"
    "lr_plan_digest r = gi_plan_digest input" "lr_task_digest r = gi_task_digest input"
    "lr_retry_kind r = gi_retry_kind input" "lr_reserved_budget r = gi_reserved_budget input"
    using draft by (subst b(3); simp)+
  show "lr_attempt_number r = ?attempt" by (rule fields(3))
  show "isTerminal (lr_state l)" if "?latest = Some l" for l using latest that by simp
  show "checkRetry (gi_chain input) (gi_task_id input) (lr_attempt_number r) (gi_retry_kind input) = Inr ()"
    using retry fields(3) by simp
  show "grantApprovals (gi_decision input) = Inr (lr_approval_digests r)"
    using approvals draft by (subst b(3); simp)
  show "pd_action_digest (gi_decision input) = gi_expected_action_digest input" by (rule bound)
qed

text \<open>A record with a fresh command is admitted behind the others.\<close>

lemma admit_fresh:
  assumes "buildTaskLeaseChain H records = Inr chain" "admissible H r"
    and "lr_command_id r \<notin> lr_command_id ` set (chain_records chain)"
  shows "\<exists>b. foldR (admitRecord H) ([], []) (records @ [r]) = Inr (chain_records chain @ [r], b)"
proof -
  obtain b where admit: "foldR (admitRecord H) ([], []) records = Inr (chain_records chain, b)"
    using buildTaskLeaseChain_facts(1) [OF assms(1)] by blast
  have "find (\<lambda>s. lr_command_id s = lr_command_id r) (chain_records chain) = None"
    using assms(3) by (auto simp: find_None_iff dest: notin_imageD)
  then have "jm_get b (lr_command_id r) = None" using admit_all_invariant [OF admit] by simp
  then have "admitRecord H (chain_records chain, b) r = Inr (chain_records chain @ [r], jm_set (lr_command_id r) r b)"
    using assms(2) by (simp add: admitRecord_Inr)
  then show ?thesis using admit by (simp add: foldR_append)
qed

lemma build_extended:
  assumes "buildTaskLeaseChain H records = Inr chain" "admissible H r"
    and "lr_command_id r \<notin> lr_command_id ` set (chain_records chain)" "validChain (chain_records chain @ [r])"
  obtains chain' where "buildTaskLeaseChain H (records @ [r]) = Inr chain'"
    "chain_records chain' = chain_records chain @ [r]"
proof -
  obtain b where admit: "foldR (admitRecord H) ([], []) (records @ [r]) = Inr (chain_records chain @ [r], b)"
    using admit_fresh [OF assms(1-3)] by blast
  obtain chain' where chain': "buildTaskLeaseChain H (records @ [r]) = Inr chain'"
    using buildTaskLeaseChain_exists [OF admit assms(4)] by blast
  then have "chain_records chain' = chain_records chain @ [r]"
    using buildTaskLeaseChain_facts(1) [OF chain'] admit by auto
  then show ?thesis using that chain' by blast
qed

lemma leaseGroups_fresh:
  assumes "lr_lease_id r \<notin> lr_lease_id ` set rs"
  shows "leaseGroups (rs @ [r]) = leaseGroups rs @ [(lr_lease_id r, [r])]"
proof -
  have none: "filter (\<lambda>s. lr_lease_id s = lr_lease_id r) rs = []" using assms by (auto simp: filter_empty_conv dest: notin_imageD)
  then have "jm_get (leaseGroups rs) (lr_lease_id r) = None" by (simp add: leaseGroups_get Let_def)
  moreover from this have "lr_lease_id r \<notin> fst ` set (leaseGroups rs)" by (simp add: map_of_eq_None_iff)
  ultimately show ?thesis by (simp add: leaseGroups_snoc addToGroup_def pushGroup_def update_absent)
qed

text \<open>
  The situation of a grant: the command is new, the derived lease id is not in use (SHA-256 does not
  collide), and the plan of the task is the one of its earlier attempts.
\<close>

definition freshGrant :: "task_lease_chain \<Rightarrow> grant_task_lease_input \<Rightarrow> task_lease_record \<Rightarrow> bool" where
  "freshGrant chain input r \<longleftrightarrow>
     gi_chain input = chain \<and> gi_command_id input \<notin> lr_command_id ` set (chain_records chain)
     \<and> lr_lease_id r \<notin> lr_lease_id ` set (chain_records chain)
     \<and> (\<forall>s \<in> set (chain_records chain). lr_task_id s = gi_task_id input \<longrightarrow>
      lr_operation_id s = gi_operation_id input \<and> lr_iteration_id s = gi_iteration_id input
      \<and> lr_plan_digest s = gi_plan_digest input \<and> lr_task_digest s = gi_task_digest input)"

lemma grant_chain:
  assumes chain: "buildTaskLeaseChain H records = Inr chain" and grant: "grantTaskLease H input = Inr r"
    and fresh: "freshGrant chain input r"
  obtains chain' where "buildTaskLeaseChain H (records @ [r]) = Inr chain'"
    "chain_records chain' = chain_records chain @ [r]"
    "\<And>tid. taskGroups tid (groupsOf (chain_records chain')) =
       taskGroups tid (groupsOf (chain_records chain)) @ (if tid = gi_task_id input then [[r]] else [])"
proof -
  let ?rs = "chain_records chain" and ?tid = "gi_task_id input"
  let ?G = "taskGroups (gi_task_id input) (groupsOf (chain_records chain))"
  note g = grantTaskLease_Inr [OF grant]
  have input: "gi_chain input = chain" and lease: "lr_lease_id r \<notin> lr_lease_id ` set ?rs"
    using fresh by (simp_all add: freshGrant_def)
  have valid: "validChain ?rs" using buildTaskLeaseChain_facts(2) [OF chain] .
  have groups: "groupsOf (?rs @ [r]) = groupsOf ?rs @ [[r]]" using leaseGroups_fresh [OF lease] by simp
  have latest: "jm_get (latest_by_task chain) ?tid = (if ?G = [] then None else Some (last (last ?G)))"
    using buildTaskLeaseChain_facts(3) [OF chain] by (simp add: Let_def)
  have step: "nextOk (last ?G) [r]" if "?G \<noteq> []"
  proof -
    have "last ?G \<in> set ?G" using that by simp
    note m = task_group_members [OF valid this]
    have "last (last ?G) \<in> set (last ?G)" "hd (last ?G) \<in> set (last ?G)" using m(3) by simp_all
    then show ?thesis
      using latest that g input fresh m(2,4) group_uniform(2,3) [OF m(1), of "last (last ?G)"]
      by (auto simp: nextOk_iff nextFencingToken_def freshGrant_def)
  qed
  have "\<forall>tid. successively nextOk (taskGroups tid (groupsOf (?rs @ [r])))"
    unfolding groups taskGroups_snoc using valid step g(3) by (auto simp: validChain_def successively_snoc)
  moreover have "checkLeaseGroup [r] = Inr ()" using g(2) by (simp add: checkLeaseGroup_iff)
  ultimately have valid': "validChain (?rs @ [r])"
    using valid leaseGroups_fresh [OF lease] by (simp add: validChain_def)
  obtain chain' where c: "buildTaskLeaseChain H (records @ [r]) = Inr chain'" "chain_records chain' = ?rs @ [r]"
    using build_extended [OF chain g(1) _ valid'] fresh g(4) by (auto simp: freshGrant_def)
  show ?thesis
    by (rule that [OF c]) (use g(3) in \<open>auto simp: c(2) groups taskGroups_snoc simp del: map_append\<close>)
qed

text \<open>
  A granted attempt extends the chain: the ledger with the new record appended is accepted again,
  the new record is the task's latest and carries the successor of the previous token, and no other
  task changes. The hypotheses are the ones the ledger provides: the command is new, the derived lease
  id is not in use (SHA-256 does not collide), and the plan of the task is the one of its earlier attempts.
\<close>
theorem grantTaskLease_extends:
  assumes chain: "buildTaskLeaseChain H records = Inr chain" and grant: "grantTaskLease H input = Inr r"
    and fresh: "freshGrant chain input r"
  shows "\<exists>chain'. buildTaskLeaseChain H (records @ [r]) = Inr chain'
     \<and> jm_get (latest_by_task chain') (gi_task_id input) = Some r
     \<and> lr_fencing_token r = nextFencingToken chain (gi_task_id input)
     \<and> (\<forall>tid. tid \<noteq> gi_task_id input \<longrightarrow> jm_get (latest_by_task chain') tid = jm_get (latest_by_task chain) tid)"
proof -
  obtain chain' where c: "buildTaskLeaseChain H (records @ [r]) = Inr chain'"
    and groups: "\<And>tid. taskGroups tid (groupsOf (chain_records chain')) =
       taskGroups tid (groupsOf (chain_records chain)) @ (if tid = gi_task_id input then [[r]] else [])"
    using grant_chain [OF assms] by blast
  have "jm_get (latest_by_task chain') tid =
      (if tid = gi_task_id input then Some r else jm_get (latest_by_task chain) tid)" for tid
    using buildTaskLeaseChain_facts(3) [OF c, of tid] buildTaskLeaseChain_facts(3) [OF chain, of tid]
    by (auto simp: groups Let_def)
  then show ?thesis using c grantTaskLease_Inr(5) [OF grant] fresh by (auto simp: freshGrant_def)
qed

section \<open>Terminating\<close>

lemma terminateTaskLease_Inr:
  assumes "terminateTaskLease H current st consumed cmd = Inr t"
  shows "admissible H t" "terminates t current" "lr_command_id t = cmd" "lr_state t = st" "lr_state current = granted"
    "lr_lease_id t = lr_lease_id current" "lr_task_id t = lr_task_id current" "lr_consumed_budget t = consumed"
proof -
  from assms obtain recordId where
    built: "buildTaskLeaseRecord H (current\<lparr>lr_task_lease_record_id := recordId,
          lr_previous_lease_record_digest := Some (lr_record_digest current), lr_state := st,
          lr_consumed_budget := consumed, lr_command_id := cmd\<rparr>) = Inr t"
    and guards: "lr_state current = granted" "isTerminal st" "bu_steps (lr_consumed_budget current) \<le> bu_steps consumed"
      "bu_tokens (lr_consumed_budget current) \<le> bu_tokens consumed"
    by (auto simp: terminateTaskLease_def rbind_Inr_iff split: if_splits)
  note b = buildTaskLeaseRecord_Inr [OF built]
  show "admissible H t" using b(1,2) by (simp add: admissible_def)
  show "lr_state current = granted" by (rule guards(1))
  show "lr_command_id t = cmd" "lr_state t = st" "lr_lease_id t = lr_lease_id current" "lr_task_id t = lr_task_id current"
    "lr_consumed_budget t = consumed"
    by (subst b(3); simp)+
  show "terminates t current"
    using guards by (subst b(3)) (simp add: terminates_def assertSameLeaseIdentity_def Let_def)
qed

lemma update_present:
  assumes "distinct (map fst m)" "map_of m k = Some v"
  shows "\<exists>pre post. m = pre @ (k, v) # post \<and> (\<forall>w. jm_set k w m = pre @ (k, w) # post)"
  using assms
proof (induction m)
  case (Cons e m)
  obtain k' v' where e: "e = (k', v')" by fastforce
  show ?case
  proof (cases "k' = k")
    case True
    then show ?thesis using Cons.prems e by (intro exI [of _ "[]"] exI [of _ m]) auto
  next
    case False
    then obtain pre post where "m = pre @ (k, v) # post" "\<forall>w. jm_set k w m = pre @ (k, w) # post"
      using Cons e by auto
    then show ?thesis using False e by (intro exI [of _ "(k', v') # pre"] exI [of _ post]) auto
  qed
qed simp

text \<open>A live latest record is alone in its group, and its group is the task's last.\<close>

lemma live_latest_group:
  assumes chain: "buildTaskLeaseChain H records = Inr chain"
    and latest: "jm_get (latest_by_task chain) tid = Some current" and live: "lr_state current = granted"
  obtains G where "taskGroups tid (groupsOf (chain_records chain)) = G @ [[current]]"
    "filter (\<lambda>s. lr_lease_id s = lr_lease_id current) (chain_records chain) = [current]"
    "lr_task_id current = tid"
proof -
  let ?G = "taskGroups tid (groupsOf (chain_records chain))"
  have valid: "validChain (chain_records chain)" using buildTaskLeaseChain_facts(2) [OF chain] .
  have G: "?G \<noteq> []" "current = last (last ?G)"
    using latest buildTaskLeaseChain_facts(3) [OF chain, of tid] by (auto simp: Let_def split: if_splits)
  then have "last ?G \<in> set ?G" by simp
  note m = task_group_members [OF valid this]
  have single: "last ?G = [current]"
    using m(1) G(2) live by (auto simp: checkLeaseGroup_iff terminates_def isTerminal_def terminal_iff)
  show ?thesis
  proof (rule that)
    show "?G = butlast ?G @ [[current]]" using G(1) single by (metis append_butlast_last_id)
    show "filter (\<lambda>s. lr_lease_id s = lr_lease_id current) (chain_records chain) = [current]"
      using m(5) single by simp
    show "lr_task_id current = tid" using m(4) single by simp
  qed
qed

lemma terminate_chain:
  assumes chain: "buildTaskLeaseChain H records = Inr chain"
    and latest: "jm_get (latest_by_task chain) tid = Some current"
    and ends: "terminateTaskLease H current st consumed cmd = Inr t"
    and command: "cmd \<notin> lr_command_id ` set (chain_records chain)"
  obtains chain' G where "buildTaskLeaseChain H (records @ [t]) = Inr chain'"
    "taskGroups tid (groupsOf (chain_records chain)) = G @ [[current]]"
    "\<And>other. taskGroups other (groupsOf (chain_records chain')) =
       (if other = tid then G @ [[current, t]] else taskGroups other (groupsOf (chain_records chain)))"
proof -
  let ?rs = "chain_records chain" and ?l = "lr_lease_id current"
  note d = terminateTaskLease_Inr [OF ends]
  have valid: "validChain ?rs" using buildTaskLeaseChain_facts(2) [OF chain] .
  obtain G where G: "taskGroups tid (groupsOf ?rs) = G @ [[current]]"
    and alone: "filter (\<lambda>s. lr_lease_id s = ?l) ?rs = [current]" and tid: "lr_task_id current = tid"
    using live_latest_group [OF chain latest d(5)] .
  have get: "jm_get (leaseGroups ?rs) ?l = Some [current]" using alone by (simp add: leaseGroups_get)
  obtain pre post where old: "leaseGroups ?rs = pre @ (?l, [current]) # post"
    and new: "leaseGroups (?rs @ [t]) = pre @ (?l, [current, t]) # post"
    using update_present [OF distinct_leaseGroups get] get d(6) by (auto simp: leaseGroups_snoc addToGroup_def pushGroup_def)
  have last: "taskGroups tid (map snd post) = []"
  proof (rule ccontr)
    assume ne: "taskGroups tid (map snd post) \<noteq> []"
    then obtain h hs where h: "taskGroups tid (map snd post) = h # hs" by (cases "taskGroups tid (map snd post)") auto
    have "successively nextOk (taskGroups tid (map snd pre) @ [current] # h # hs)"
      using valid old tid h by (auto simp: validChain_def taskGroups_def dest: spec [of _ tid])
    then have "nextOk [current] h" by (simp add: successively_append_iff)
    then show False using d(5) by (simp add: nextOk_iff isTerminal_def terminal_iff)
  qed
  have groups: "taskGroups other (groupsOf (?rs @ [t])) =
      (if other = tid then taskGroups tid (map snd pre) @ [[current, t]] else taskGroups other (groupsOf ?rs))" for other
    using old new last tid by (auto simp: taskGroups_def)
  have old_groups: "taskGroups tid (groupsOf ?rs) = taskGroups tid (map snd pre) @ [[current]]"
    using old last tid by (simp add: taskGroups_def)
  have "successively nextOk (taskGroups other (groupsOf (?rs @ [t])))" for other
    using valid old_groups by (cases "other = tid")
      (auto simp: validChain_def groups successively_snoc nextOk_def dest: spec [of _ tid] simp del: map_append)
  moreover have "checkLeaseGroup [current, t] = Inr ()"
  proof -
    have "checkLeaseGroup [current] = Inr ()" using valid old by (auto simp: validChain_def)
    then show ?thesis using d(2) by (auto simp: checkLeaseGroup_iff)
  qed
  ultimately have valid': "validChain (?rs @ [t])"
    using valid old new by (auto simp: validChain_def)
  obtain chain' where c: "buildTaskLeaseChain H (records @ [t]) = Inr chain'" "chain_records chain' = ?rs @ [t]"
    using build_extended [OF chain d(1) _ valid'] command d(3) by auto
  show ?thesis by (rule that [OF c(1) old_groups]) (simp add: c(2) groups)
qed

text \<open>
  Terminating the live lease of a task extends the chain: the ledger with the terminal record
  appended is accepted again, that record becomes the task's latest, the task's token stays the same
  and no other task changes. Only the command has to be new.
\<close>
theorem terminateTaskLease_extends:
  assumes chain: "buildTaskLeaseChain H records = Inr chain"
    and latest: "jm_get (latest_by_task chain) tid = Some current"
    and ends: "terminateTaskLease H current st consumed cmd = Inr t"
    and command: "cmd \<notin> lr_command_id ` set (chain_records chain)"
  shows "\<exists>chain'. buildTaskLeaseChain H (records @ [t]) = Inr chain'
     \<and> jm_get (latest_by_task chain') tid = Some t \<and> isTerminal (lr_state t)
     \<and> nextFencingToken chain' tid = nextFencingToken chain tid
     \<and> (\<forall>other. other \<noteq> tid \<longrightarrow> jm_get (latest_by_task chain') other = jm_get (latest_by_task chain) other)"
proof -
  obtain chain' G where c: "buildTaskLeaseChain H (records @ [t]) = Inr chain'"
    and groups: "\<And>other. taskGroups other (groupsOf (chain_records chain')) =
       (if other = tid then G @ [[current, t]] else taskGroups other (groupsOf (chain_records chain)))"
    using terminate_chain [OF assms] by blast
  have "jm_get (latest_by_task chain') other =
      (if other = tid then Some t else jm_get (latest_by_task chain) other)" for other
    using buildTaskLeaseChain_facts(3) [OF c(1), of other] buildTaskLeaseChain_facts(3) [OF chain, of other]
    by (auto simp: groups Let_def)
  moreover have "isTerminal (lr_state t)" "lr_fencing_token t = lr_fencing_token current"
    using terminateTaskLease_Inr(2) [OF ends] sameLeaseIdentity(2) by (auto simp: terminates_def)
  ultimately show ?thesis using c(1) latest by (auto simp: nextFencingToken_def)
qed

section \<open>Authority and replay\<close>

text \<open>
  A lease is granted only with authority: the decision binds exactly the requested action, it is
  an \<open>allow\<close> or a \<open>requires_approval\<close> that carries its approval, which the record then names; the
  task has no live lease; and a retry kind needs an earlier attempt and has not been used for this task.
\<close>
theorem grantTaskLease_authorised:
  assumes "grantTaskLease H input = Inr r"
  shows "pd_action_digest (gi_decision input) = gi_expected_action_digest input
     \<and> (pd_outcome (gi_decision input) = allow \<and> lr_approval_digests r = []
        \<or> pd_outcome (gi_decision input) = requires_approval
          \<and> (\<exists>d. pd_approval_digest (gi_decision input) = Some d \<and> lr_approval_digests r = [d]))
     \<and> (\<forall>l. jm_get (latest_by_task (gi_chain input)) (gi_task_id input) = Some l \<longrightarrow> isTerminal (lr_state l))
     \<and> (\<forall>k. lr_retry_kind r = Some k \<longrightarrow> lr_attempt_number r \<noteq> 1
        \<and> (\<forall>s \<in> set (chain_records (gi_chain input)). lr_task_id s = gi_task_id input \<longrightarrow> lr_retry_kind s \<noteq> Some k))"
  using grantTaskLease_Inr(11,13-16) [OF assms]
  by (auto simp: grantApprovals_def checkRetry_def list_ex_iff split: decision_outcome.splits option.splits if_splits)

lemma find_distinct_Some:
  "distinct (map f xs) \<Longrightarrow> x \<in> set xs \<Longrightarrow> f x = k \<Longrightarrow> find (\<lambda>y. f y = k) xs = Some x"
  by (induction xs) auto

text \<open>
  Replaying a committed command changes nothing: appending a record the ledger already holds
  rebuilds the same chain.
\<close>
theorem buildTaskLeaseChain_replay:
  assumes "buildTaskLeaseChain H records = Inr chain" "r \<in> set records"
  shows "buildTaskLeaseChain H (records @ [r]) = Inr chain"
proof -
  obtain b where admit: "foldR (admitRecord H) ([], []) records = Inr (chain_records chain, b)"
    using buildTaskLeaseChain_facts(1) [OF assms(1)] by blast
  note inv = admit_all_invariant [OF admit]
  obtain d where d: "d \<in> set (chain_records chain)" "lr_command_id d = lr_command_id r" "lr_record_digest d = lr_record_digest r"
    using inv assms(2) by blast
  have "find (\<lambda>s. lr_command_id s = lr_command_id r) (chain_records chain) = Some d"
    using inv d(1,2) by (intro find_distinct_Some) auto
  then have "jm_get b (lr_command_id r) = Some d" using inv by simp
  then have "admitRecord H (chain_records chain, b) r = Inr (chain_records chain, b)"
    using inv assms(2) d(3) by (simp add: admitRecord_Inr)
  then have "foldR (admitRecord H) ([], []) (records @ [r]) = foldR (admitRecord H) ([], []) records"
    using admit by (simp add: foldR_append)
  then show ?thesis using assms(1) by (simp add: buildTaskLeaseChain_def)
qed

end
