(* ===== verification/Lease_Examples.thy ===== *)
theory Lease_Examples
  imports Lease_Fencing
begin

text \<open>
  A concrete lease history: a task is granted a lease, the lease expires, and a retry is granted. Each
  theorem of \<open>Lease_Fencing\<close> is applied to it.
\<close>

section \<open>The history\<close>

definition zeros :: string where
  "zeros = exampleDigest []"

definition exampleDecision :: policy_decision where
  "exampleDecision = \<lparr>pd_outcome = allow, pd_reasons = [], pd_action_digest = zeros,
     pd_effective_policy_digest = zeros, pd_approval_digest = None, pd_digest = zeros\<rparr>"

definition exampleGrant :: "task_lease_chain \<Rightarrow> string \<Rightarrow> task_retry_kind option \<Rightarrow> grant_task_lease_input" where
  "exampleGrant chain cmd retry = \<lparr>gi_chain = chain, gi_decision = exampleDecision,
     gi_expected_action_digest = zeros, gi_operation_id = ''op_1'', gi_iteration_id = ''it_1'',
     gi_plan_digest = zeros, gi_task_id = ''task_a'', gi_task_digest = zeros,
     gi_run_id = ''run_1'', gi_slot_id = ''slot_1'', gi_baseline_commit = ''0123456'',
     gi_agent_adapter_digest = zeros, gi_reserved_budget = \<lparr>bu_steps = 5, bu_tokens = 100\<rparr>,
     gi_issued_at = ''i'', gi_expires_at = ''ii'', gi_command_id = cmd, gi_retry_kind = retry\<rparr>"

definition exampleLease :: "string \<Rightarrow> string \<Rightarrow> int \<Rightarrow> task_retry_kind option \<Rightarrow> string \<Rightarrow> task_lease_record" where
  "exampleLease leaseId recordId n retry cmd =
     \<lparr>lr_protocol_version = PROTOCOL_1_3_VERSION, lr_record_kind = ''task_lease'',
      lr_operation_id = ''op_1'', lr_iteration_id = ''it_1'', lr_plan_digest = zeros, lr_task_id = ''task_a'',
      lr_task_digest = zeros, lr_run_id = ''run_1'', lr_slot_id = ''slot_1'', lr_baseline_commit = ''0123456'',
      lr_agent_adapter_digest = zeros, lr_policy_digest = zeros, lr_approval_digests = [],
      lr_task_lease_record_id = recordId, lr_lease_id = leaseId, lr_previous_lease_record_digest = None,
      lr_fencing_token = n, lr_state = granted, lr_attempt_number = n, lr_retry_kind = retry,
      lr_reserved_budget = \<lparr>bu_steps = 5, bu_tokens = 100\<rparr>, lr_consumed_budget = \<lparr>bu_steps = 0, bu_tokens = 0\<rparr>,
      lr_issued_at = ''i'', lr_expires_at = ''ii'', lr_command_id = cmd, lr_record_digest = []\<rparr>"

definition sealed :: "task_lease_record \<Rightarrow> task_lease_record" where
  "sealed r = r\<lparr>lr_record_digest := projr (contentDigest exampleHost (JObj (leaseBody r)))\<rparr>"

definition firstLeaseId :: string where
  "firstLeaseId = ''lease_e0000000000000000000000000000000''"

definition secondLeaseId :: string where
  "secondLeaseId = ''lease_00000000000000000000000000000000''"

definition leaseRecordIdOf :: "string \<Rightarrow> task_lease_state \<Rightarrow> string \<Rightarrow> string" where
  "leaseRecordIdOf leaseId st cmd = projr (leaseRecordId exampleHost leaseId st cmd)"

definition firstLease :: task_lease_record where
  "firstLease = sealed (exampleLease firstLeaseId (leaseRecordIdOf firstLeaseId granted ''cmd_a'') 1 None ''cmd_a'')"

definition firstEnd :: task_lease_record where
  "firstEnd = sealed (firstLease\<lparr>lr_task_lease_record_id := leaseRecordIdOf firstLeaseId expired ''cmd_b'',
     lr_previous_lease_record_digest := Some (lr_record_digest firstLease), lr_state := expired,
     lr_consumed_budget := \<lparr>bu_steps = 2, bu_tokens = 40\<rparr>, lr_command_id := ''cmd_b''\<rparr>)"

definition secondLease :: task_lease_record where
  "secondLease = sealed (exampleLease secondLeaseId (leaseRecordIdOf secondLeaseId granted ''cmd_cc'') 2
     (Some executor_retry) ''cmd_cc'')"

section \<open>Every record seals\<close>

lemma wellKeyed_lease: "wellKeyed exampleHost (JObj (leaseBody r))"
  by (auto simp: leaseBody_def budgetJson_def list_all_iff split: option.splits)

lemma contentDigest_lease:
  "contentDigest exampleHost (JObj (leaseBody r)) = Inr (lr_record_digest (sealed r))"
  "digestPattern (lr_record_digest (sealed r))"
  using contentDigest_example [OF wellKeyed_lease, of r] by (auto simp: sealed_def)

lemma sealed_update: "r\<lparr>lr_record_digest := lr_record_digest (sealed r)\<rparr> = sealed r"
  by (simp add: sealed_def)

lemma build_sealed:
  assumes "leaseSemantics exampleHost (sealed r)"
    "lr_protocol_version r = PROTOCOL_1_3_VERSION" "lr_record_kind r = ''task_lease''"
  shows "buildTaskLeaseRecord exampleHost (r\<lparr>lr_protocol_version := p, lr_record_kind := k, lr_record_digest := d\<rparr>) = Inr (sealed r)"
proof -
  have same: "r\<lparr>lr_protocol_version := p, lr_record_kind := k, lr_record_digest := d,
      lr_protocol_version := PROTOCOL_1_3_VERSION, lr_record_kind := ''task_lease''\<rparr> = r\<lparr>lr_record_digest := d\<rparr>"
    using assms(2,3) by (cases r) simp
  have "sealLease exampleHost (r\<lparr>lr_record_digest := d\<rparr>) = Inr (sealed r)"
    by (simp add: sealLease_def recordDigestOf_lease leaseBody_digest contentDigest_lease(1) sealed_update)
  then show ?thesis
    using assms(1) unfolding buildTaskLeaseRecord_def same by (simp add: assertSchedulingRecordSemantics_iff [THEN iffD2])
qed

section \<open>The steps\<close>

lemma exampleIds:
  "deriveTaskLeaseId exampleHost ''task_a'' 1 ''cmd_a'' = Inr firstLeaseId"
  "deriveTaskLeaseId exampleHost ''task_a'' 2 ''cmd_cc'' = Inr secondLeaseId"
  by code_simp+

lemma leaseRecordIdOf:
  "leaseRecordId exampleHost l st cmd = Inr (leaseRecordIdOf l st cmd)" "identifierSchema (leaseRecordIdOf l st cmd)"
proof -
  have "wellKeyed exampleHost (JObj [(''lease_id'', JStr l), (''state'', JStr (leaseStateText st)), (''command_id'', JStr cmd)])"
    by simp
  from contentDigest_example [OF this] obtain d
    where d: "contentDigest exampleHost (JObj [(''lease_id'', JStr l), (''state'', JStr (leaseStateText st)), (''command_id'', JStr cmd)]) = Inr d"
      "digestPattern d" by blast
  then show id: "leaseRecordId exampleHost l st cmd = Inr (leaseRecordIdOf l st cmd)"
    by (simp add: leaseRecordId_def leaseRecordIdOf_def)
  have "list_all isHex (take 32 d)" "length (take 32 d) = 32"
    using d(2) by (auto simp: digestPattern_def list_all_iff dest: in_set_takeD)
  moreover have "isIdChar c" if "isHex c" for c
    using that by (auto simp: isHex_def isIdChar_def isAlpha_def isLower_def isDigit_def less_eq_char_def)
  moreover have "list_all isLowerWord ''ask-lease-record''" "isLower CHR ''t''" by code_simp+
  ultimately show "identifierSchema (leaseRecordIdOf l st cmd)"
    using d by (auto simp: leaseRecordIdOf_def leaseRecordId_def identifierSchema_def identifierPattern_def list_all_iff)
qed

lemma exampleSchemas:
  "identifierSchema ''op_1'' \<and> identifierSchema ''it_1'' \<and> identifierSchema ''task_a'' \<and> identifierSchema ''run_1''
   \<and> identifierSchema ''slot_1'' \<and> identifierSchema ''cmd_a'' \<and> identifierSchema ''cmd_b'' \<and> identifierSchema ''cmd_cc''
   \<and> identifierSchema firstLeaseId \<and> identifierSchema secondLeaseId \<and> gitCommitPattern ''0123456'' \<and> digestPattern zeros"
  by code_simp

lemma example_semantics:
  "leaseSemantics exampleHost firstLease" "leaseSemantics exampleHost firstEnd" "leaseSemantics exampleHost secondLease"
  using exampleSchemas leaseRecordIdOf(2) contentDigest_lease(2)
  by (simp_all add: leaseSemantics_def TaskLeaseRecordSchema_def leaseBudgetSchema_def firstLease_def firstEnd_def
      secondLease_def exampleLease_def sealed_def)

lemma example_verified:
  "r \<in> {firstLease, firstEnd, secondLease} \<Longrightarrow>
     verifyRecordEnvelope exampleHost (leaseEntries r) \<and> assertSchedulingRecordSemantics exampleHost r = Inr ()"
proof -
  have seal: "contentDigest exampleHost (JObj (leaseBody (sealed x))) = Inr (lr_record_digest (sealed x))" for x
    by (metis contentDigest_lease(1) leaseBody_digest sealed_update)
  assume "r \<in> {firstLease, firstEnd, secondLease}"
  then have "leaseSemantics exampleHost r" "\<exists>x. r = sealed x"
    using example_semantics by (auto simp: firstLease_def firstEnd_def secondLease_def)
  then show ?thesis using verify_lease_iff seal by (auto simp: assertSchedulingRecordSemantics_iff)
qed

lemma example_fields:
  "lr_command_id firstLease = ''cmd_a''" "lr_command_id firstEnd = ''cmd_b''" "lr_command_id secondLease = ''cmd_cc''"
  "lr_lease_id firstLease = firstLeaseId" "lr_lease_id firstEnd = firstLeaseId" "lr_lease_id secondLease = secondLeaseId"
  "lr_task_id firstLease = ''task_a''" "lr_task_id firstEnd = ''task_a''" "lr_task_id secondLease = ''task_a''"
  "lr_fencing_token firstLease = 1" "lr_fencing_token firstEnd = 1" "lr_fencing_token secondLease = 2"
  "lr_attempt_number firstLease = 1" "lr_attempt_number firstEnd = 1" "lr_attempt_number secondLease = 2"
  "lr_state firstLease = granted" "lr_state firstEnd = expired" "lr_state secondLease = granted"
  "lr_retry_kind firstLease = None" "lr_retry_kind firstEnd = None"
  by (simp_all add: firstLease_def firstEnd_def secondLease_def sealed_def exampleLease_def)

lemma example_groups:
  "checkLeaseGroup [firstLease] = Inr ()" "checkLeaseGroup [firstLease, firstEnd] = Inr ()" "checkLeaseGroup [secondLease] = Inr ()"
  "checkNextAttempt [firstLease, firstEnd] secondLease = Inr ()"
proof -
  have "opens firstLease" "opens secondLease"
    by (simp_all add: opens_def firstLease_def secondLease_def sealed_def exampleLease_def)
  moreover have "terminates firstEnd firstLease"
    by (simp add: terminates_def isTerminal_def terminal_iff assertSameLeaseIdentity_def firstEnd_def firstLease_def
        sealed_def exampleLease_def Let_def)
  ultimately show "checkLeaseGroup [firstLease] = Inr ()" "checkLeaseGroup [firstLease, firstEnd] = Inr ()"
    "checkLeaseGroup [secondLease] = Inr ()" by (simp_all add: checkLeaseGroup_iff)
  have same: "lr_operation_id secondLease = lr_operation_id firstLease" "lr_iteration_id secondLease = lr_iteration_id firstLease"
    "lr_plan_digest secondLease = lr_plan_digest firstLease" "lr_task_digest secondLease = lr_task_digest firstLease"
    by (simp_all add: firstLease_def secondLease_def sealed_def exampleLease_def)
  show "checkNextAttempt [firstLease, firstEnd] secondLease = Inr ()"
    by (simp add: checkNextAttempt_def isTerminal_def terminal_iff example_fields same)
qed

lemma example_chains:
  "buildTaskLeaseChain exampleHost [] = Inr \<lparr>latest_by_task = [], chain_records = []\<rparr>"
  "buildTaskLeaseChain exampleHost [firstLease] = Inr \<lparr>latest_by_task = [(''task_a'', firstLease)], chain_records = [firstLease]\<rparr>"
  "buildTaskLeaseChain exampleHost [firstLease, firstEnd] =
     Inr \<lparr>latest_by_task = [(''task_a'', firstEnd)], chain_records = [firstLease, firstEnd]\<rparr>"
  "buildTaskLeaseChain exampleHost [firstLease, firstEnd, secondLease] =
     Inr \<lparr>latest_by_task = [(''task_a'', secondLease)], chain_records = [firstLease, firstEnd, secondLease]\<rparr>"
  by (simp_all add: buildTaskLeaseChain_def admitRecord_def example_verified example_fields leaseGroups_def addToGroup_def pushGroup_def
      example_groups addTaskGroup_def firstLeaseId_def secondLeaseId_def)

text \<open>The groups are validated when the whole ledger is read: a terminal record may come after the next grant.\<close>

lemma late_end_accepted:
  "buildTaskLeaseChain exampleHost [firstLease, secondLease, firstEnd] =
     Inr \<lparr>latest_by_task = [(''task_a'', secondLease)], chain_records = [firstLease, secondLease, firstEnd]\<rparr>"
  by (simp add: buildTaskLeaseChain_def admitRecord_def example_verified example_fields leaseGroups_def addToGroup_def pushGroup_def
      example_groups addTaskGroup_def firstLeaseId_def secondLeaseId_def)

lemma example_end:
  "terminateTaskLease exampleHost firstLease expired \<lparr>bu_steps = 2, bu_tokens = 40\<rparr> ''cmd_b'' = Inr firstEnd"
proof -
  let ?r = "firstLease\<lparr>lr_task_lease_record_id := leaseRecordIdOf firstLeaseId expired ''cmd_b'',
     lr_previous_lease_record_digest := Some (lr_record_digest firstLease), lr_state := expired,
     lr_consumed_budget := \<lparr>bu_steps = 2, bu_tokens = 40\<rparr>, lr_command_id := ''cmd_b''\<rparr>"
  have "buildTaskLeaseRecord exampleHost (?r\<lparr>lr_protocol_version := lr_protocol_version ?r, lr_record_kind := lr_record_kind ?r,
      lr_record_digest := lr_record_digest ?r\<rparr>) = Inr (sealed ?r)"
    by (rule build_sealed) (use example_semantics(2) in \<open>simp_all add: firstEnd_def firstLease_def sealed_def exampleLease_def\<close>)
  then show ?thesis
    by (simp add: terminateTaskLease_def example_fields isTerminal_def terminal_iff leaseRecordIdOf(1) firstEnd_def)
      (simp add: firstLease_def sealed_def exampleLease_def)
qed

definition expiredChain :: task_lease_chain where
  "expiredChain = \<lparr>latest_by_task = [(''task_a'', firstEnd)], chain_records = [firstLease, firstEnd]\<rparr>"

lemma example_grant:
  "grantTaskLease exampleHost (exampleGrant expiredChain ''cmd_cc'' (Some executor_retry)) = Inr secondLease"
proof -
  let ?r = "exampleLease secondLeaseId (leaseRecordIdOf secondLeaseId granted ''cmd_cc'') 2 (Some executor_retry) ''cmd_cc''"
  have built: "buildTaskLeaseRecord exampleHost (?r\<lparr>lr_protocol_version := [], lr_record_kind := [], lr_record_digest := []\<rparr>)
      = Inr (sealed ?r)"
    by (rule build_sealed) (use example_semantics(3) in \<open>simp_all add: secondLease_def exampleLease_def\<close>)
  have "grantTaskLease exampleHost (exampleGrant expiredChain ''cmd_cc'' (Some executor_retry))
      = buildTaskLeaseRecord exampleHost (?r\<lparr>lr_protocol_version := [], lr_record_kind := [], lr_record_digest := []\<rparr>)"
    by (simp add: grantTaskLease_def exampleGrant_def exampleDecision_def grantApprovals_def expiredChain_def example_fields
        isTerminal_def terminal_iff checkRetry_def exampleIds leaseRecordIdOf(1) nextFencingToken_def exampleLease_def)
  then show ?thesis using built by (simp add: secondLease_def)
qed

lemma example_first_grant:
  "grantTaskLease exampleHost (exampleGrant \<lparr>latest_by_task = [], chain_records = []\<rparr> ''cmd_a'' None) = Inr firstLease"
proof -
  let ?r = "exampleLease firstLeaseId (leaseRecordIdOf firstLeaseId granted ''cmd_a'') 1 None ''cmd_a''"
  have built: "buildTaskLeaseRecord exampleHost (?r\<lparr>lr_protocol_version := [], lr_record_kind := [], lr_record_digest := []\<rparr>)
      = Inr (sealed ?r)"
    by (rule build_sealed) (use example_semantics(1) in \<open>simp_all add: firstLease_def exampleLease_def\<close>)
  have "grantTaskLease exampleHost (exampleGrant \<lparr>latest_by_task = [], chain_records = []\<rparr> ''cmd_a'' None)
      = buildTaskLeaseRecord exampleHost (?r\<lparr>lr_protocol_version := [], lr_record_kind := [], lr_record_digest := []\<rparr>)"
    by (simp add: grantTaskLease_def exampleGrant_def exampleDecision_def grantApprovals_def
        checkRetry_def exampleIds leaseRecordIdOf(1) nextFencingToken_def exampleLease_def)
  then show ?thesis using built by (simp add: firstLease_def)
qed

section \<open>The theorems on the history\<close>

theorem lease_chain_shape_witness:
  "buildTaskLeaseChain exampleHost [firstLease, firstEnd] = Inr expiredChain
   \<and> (\<exists>g. opens g \<and> (filter (\<lambda>s. lr_lease_id s = lr_lease_id firstEnd) [firstLease, firstEnd] = [g]
        \<or> (\<exists>t. filter (\<lambda>s. lr_lease_id s = lr_lease_id firstEnd) [firstLease, firstEnd] = [g, t] \<and> terminates t g)))"
proof -
  have chain: "buildTaskLeaseChain exampleHost [firstLease, firstEnd] = Inr expiredChain"
    by (simp add: example_chains expiredChain_def)
  show ?thesis using lease_chain_shape [OF chain, of firstEnd] chain by (auto simp: expiredChain_def)
qed

theorem lease_tokens_fence_witness:
  "\<exists>t \<in> {firstLease, firstEnd, secondLease}. lr_lease_id t = lr_lease_id firstLease \<and> isTerminal (lr_state t)"
  using lease_tokens_fence [OF example_chains(4), of firstLease secondLease]
  by (simp add: example_fields firstLeaseId_def secondLeaseId_def)

theorem currentFencingToken_iff_witness:
  "assertCurrentFencingToken \<lparr>latest_by_task = [(''task_a'', secondLease)], chain_records = [firstLease, firstEnd, secondLease]\<rparr>
     ''task_a'' 2 = Inr ()
   \<and> assertCurrentFencingToken \<lparr>latest_by_task = [(''task_a'', secondLease)], chain_records = [firstLease, firstEnd, secondLease]\<rparr>
     ''task_a'' 1 \<noteq> Inr ()"
  using currentFencingToken_iff [OF example_chains(4), of "''task_a''" 2]
    currentFencingToken_iff [OF example_chains(4), of "''task_a''" 1]
  by (simp add: example_fields)

theorem grantTaskLease_extends_witness:
  "grantTaskLease exampleHost (exampleGrant expiredChain ''cmd_cc'' (Some executor_retry)) = Inr secondLease
   \<and> (\<exists>chain'. buildTaskLeaseChain exampleHost ([firstLease, firstEnd] @ [secondLease]) = Inr chain'
        \<and> jm_get (latest_by_task chain') ''task_a'' = Some secondLease)"
proof -
  have "\<exists>chain'. buildTaskLeaseChain exampleHost ([firstLease, firstEnd] @ [secondLease]) = Inr chain'
     \<and> jm_get (latest_by_task chain') (gi_task_id (exampleGrant expiredChain ''cmd_cc'' (Some executor_retry))) = Some secondLease
     \<and> lr_fencing_token secondLease = nextFencingToken expiredChain (gi_task_id (exampleGrant expiredChain ''cmd_cc'' (Some executor_retry)))
     \<and> (\<forall>tid. tid \<noteq> gi_task_id (exampleGrant expiredChain ''cmd_cc'' (Some executor_retry)) \<longrightarrow>
          jm_get (latest_by_task chain') tid = jm_get (latest_by_task expiredChain) tid)"
    by (rule grantTaskLease_extends [OF _ example_grant])
      (simp_all add: freshGrant_def example_chains expiredChain_def exampleGrant_def example_fields firstLeaseId_def secondLeaseId_def,
        simp_all add: firstLease_def firstEnd_def sealed_def exampleLease_def)
  then show ?thesis using example_grant by (auto simp: exampleGrant_def)
qed

theorem terminateTaskLease_extends_witness:
  "terminateTaskLease exampleHost firstLease expired \<lparr>bu_steps = 2, bu_tokens = 40\<rparr> ''cmd_b'' = Inr firstEnd
   \<and> (\<exists>chain'. buildTaskLeaseChain exampleHost ([firstLease] @ [firstEnd]) = Inr chain' \<and> isTerminal (lr_state firstEnd))"
  using terminateTaskLease_extends [OF example_chains(2) _ example_end, of "''task_a''"] example_end
  by (auto simp: example_fields)

theorem grantTaskLease_authorised_witness:
  "lr_approval_digests secondLease = [] \<and> lr_attempt_number secondLease \<noteq> 1"
proof -
  have "lr_retry_kind secondLease = Some executor_retry" by (simp add: secondLease_def sealed_def exampleLease_def)
  then show ?thesis
    using grantTaskLease_authorised [OF example_grant] by (auto simp: exampleGrant_def exampleDecision_def)
qed

theorem buildTaskLeaseChain_replay_witness:
  "buildTaskLeaseChain exampleHost ([firstLease, firstEnd] @ [firstLease])
     = Inr \<lparr>latest_by_task = [(''task_a'', firstEnd)], chain_records = [firstLease, firstEnd]\<rparr>"
  by (rule buildTaskLeaseChain_replay [OF example_chains(3)]) simp

end
