(* ===== verification/Run_Outcome.thy ===== *)
theory Run_Outcome
  imports Harness_Prelude
begin

text \<open>
  Outcomes and termination reasons of a run (\<^verbatim>\<open>core/src/schema/runtime.ts\<close>), shared by the scheduler's projection
  and the managed loop.
\<close>

datatype run_outcome = run_success | run_correct_block | run_clarification_required | run_handoff | run_partial | run_failure

datatype termination_reason =
    ended_completion | ended_gate_failure | ended_policy_denial | ended_budget_ceiling | ended_repeat_detection | ended_timeout
  | ended_adapter_failure | ended_user_cancellation | ended_manual_stop | ended_process_interruption

fun terminationText :: "termination_reason \<Rightarrow> string" where
  "terminationText ended_completion = ''completion''"
| "terminationText ended_gate_failure = ''gate_failure''"
| "terminationText ended_policy_denial = ''policy_denial''"
| "terminationText ended_budget_ceiling = ''budget_ceiling''"
| "terminationText ended_repeat_detection = ''repeat_detection''"
| "terminationText ended_timeout = ''timeout''"
| "terminationText ended_adapter_failure = ''adapter_failure''"
| "terminationText ended_user_cancellation = ''user_cancellation''"
| "terminationText ended_manual_stop = ''manual_stop''"
| "terminationText ended_process_interruption = ''process_interruption''"

end
