(* ===== verification/Scheduler_Projection.thy ===== *)
theory Scheduler_Projection
  imports Wave_Compiler Lease_Examples Run_Outcome
begin

text \<open>
  The task status projection (\<^verbatim>\<open>runtime/src/scheduling/projection.ts\<close>, the scheduling types of
  \<^verbatim>\<open>runtime/src/scheduling/ports.ts\<close>, \<open>readFindingExtension\<close> of \<^verbatim>\<open>core/src/schema/feedback.ts\<close>): a pure
  function of the plan and the ledger facts; the live snapshot only decorates it. Records of other
  components (runs, evidence, approvals, findings, wave integrations) carry the fields the projection
  reads.
\<close>

section \<open>Facts\<close>

datatype run_kind =
    run_started
  | run_progress
  | run_terminated run_outcome termination_reason
  | run_interrupted run_outcome

record run_record =
  rn_run_id :: string
  rn_task_id :: string
  rn_sequence :: nat
  rn_kind :: run_kind

record gate_evidence_record =
  ge_evidence_type :: string
  ge_subject_id :: string
  ge_provisional :: bool
  ge_extensions :: "(string \<times> json) list option"

record approval_request_record =
  ar_request_id :: string
  ar_object_id :: string

datatype feedback_type = Finding | RootCauseAnalysis | ImprovementCandidate | ImpactSetFeedback

datatype feedback_status = proposed | accepted | closed | superseded

record feedback_record =
  fb_id :: string
  fb_type :: feedback_type
  fb_status :: feedback_status
  fb_extensions :: "(string \<times> json) list option"

record wave_integration_record =
  wi_operation_id :: string
  wi_wave_index :: nat
  wi_task_ids :: "string list"

record task_dag_snapshot =
  dag_operation_id :: string
  dag_iteration_id :: string
  dag_plan_id :: string
  dag_plan_digest :: string
  dag_baseline_commit :: string
  dag_tasks :: "task_specification list"
  dag_parallel_waves :: "parallel_wave list"
  dag_iteration_budget :: iteration_budget

datatype agent_pool_slot_state = slot_idle | slot_running | slot_cancelling

record agent_pool_slot =
  sl_slot_id :: string
  sl_state :: agent_pool_slot_state
  sl_task_id :: "string option"
  sl_run_id :: "string option"

record scheduler_task_live_observation =
  lo_task_id :: string
  lo_pid :: "rat option"
  lo_heartbeat_at :: "string option"
  lo_output_tail :: "string option"
  lo_steps :: "rat option"
  lo_tokens :: "rat option"
  lo_duration_ms :: rat
  lo_worktree_id :: "string option"

record scheduler_live_snapshot =
  ls_operation_id :: string
  ls_observed_at :: string
  ls_slots :: "agent_pool_slot list"
  ls_tasks :: "scheduler_task_live_observation list"

record scheduler_authority_facts =
  sf_dag :: task_dag_snapshot
  sf_leases :: "task_lease_record list"
  sf_runs :: "run_record list"
  sf_gate_evidence :: "gate_evidence_record list"
  sf_approvals :: "approval_request_record list"
  sf_findings :: "feedback_record list"
  sf_wave_integrations :: "wave_integration_record list"

datatype task_scheduling_status =
    waiting_dependency | ready | awaiting_approval | running | verifying | integration_queued
  | candidate_validated | retry_pending | integrated | blocked | cancelled

record task_status_projection =
  tp_task_id :: string
  tp_wave_index :: "nat option"
  tp_status :: task_scheduling_status
  tp_provisional :: bool
  tp_live :: "scheduler_task_live_observation option"

datatype live_state = observed | rebuilding

record scheduler_state_projection =
  sp_operation_id :: string
  sp_plan_digest :: string
  sp_baseline_commit :: string
  sp_live_state :: live_state
  sp_observed_at :: "string option"
  sp_slots :: "agent_pool_slot list"
  sp_tasks :: "task_status_projection list"

section \<open>Readings\<close>

definition stateRank :: "task_lease_state \<Rightarrow> nat" where
  "stateRank state = (if state = granted then 0 else 1)"

definition supersedes :: "task_lease_record \<Rightarrow> task_lease_record \<Rightarrow> bool" where
  "supersedes r current \<longleftrightarrow> lr_fencing_token current < lr_fencing_token r
     \<or> lr_fencing_token r = lr_fencing_token current \<and> stateRank (lr_state current) \<le> stateRank (lr_state r)"

definition latestLeaseByTask :: "task_lease_record list \<Rightarrow> (string, task_lease_record) jmap" where
  "latestLeaseByTask leases = foldl (\<lambda>latest r.
     case jm_get latest (lr_task_id r) of
       None \<Rightarrow> jm_set (lr_task_id r) r latest
     | Some current \<Rightarrow> if supersedes r current then jm_set (lr_task_id r) r latest else latest) [] leases"

definition latestRunRecord :: "run_record list \<Rightarrow> string \<Rightarrow> string option \<Rightarrow> run_record option" where
  "latestRunRecord runs taskId currentRunId =
     (let own = filter (\<lambda>r. rn_task_id r = taskId) runs;
          byRun = foldl (\<lambda>m r. case jm_get m (rn_run_id r) of
            None \<Rightarrow> jm_set (rn_run_id r) r m
          | Some current \<Rightarrow> if rn_sequence current \<le> rn_sequence r then jm_set (rn_run_id r) r m else m) [] own
      in case currentRunId of
           Some runId \<Rightarrow> jm_get byRun runId
         | None \<Rightarrow> if own = [] then None else Some (last own))"

fun terminalRunOf :: "run_record option \<Rightarrow> (run_outcome \<times> termination_reason) option" where
  "terminalRunOf None = None"
| "terminalRunOf (Some r) =
     (case rn_kind r of
        run_terminated outcome reason \<Rightarrow> Some (outcome, reason)
      | run_interrupted outcome \<Rightarrow> Some (outcome, ended_process_interruption)
      | _ \<Rightarrow> None)"

text \<open>\<^verbatim>\<open>extensions?.[key]\<close>, then \<^verbatim>\<open>typeof extension !== "object" || extension === null\<close>: arrays are objects without the named fields.\<close>

definition objectExtension :: "(string \<times> json) list option \<Rightarrow> string \<Rightarrow> (string \<times> json) list option" where
  "objectExtension extensions key =
     (case extensions of
        None \<Rightarrow> None
      | Some es \<Rightarrow> (case jm_get es key of
          Some (JObj es') \<Rightarrow> Some es'
        | Some (JArr _) \<Rightarrow> Some []
        | _ \<Rightarrow> None))"

record evidence_reading =
  er_valid :: bool
  er_provisionalOnly :: bool

definition readCandidateEvidence :: "gate_evidence_record list \<Rightarrow> string \<Rightarrow> evidence_reading" where
  "readCandidateEvidence evidence taskId =
     (case foldl (\<lambda>(valid, provisionalOnly) r.
        if ge_subject_id r \<noteq> taskId \<or> ge_evidence_type r \<noteq> ''gate_result'' then (valid, provisionalOnly)
        else case objectExtension (ge_extensions r) ''harness.gate'' of
          None \<Rightarrow> (valid, provisionalOnly)
        | Some gate \<Rightarrow>
            if jm_get gate ''passed'' \<noteq> Some (JBool True) then (valid, provisionalOnly)
            else if ge_provisional r then (valid, True) else (True, provisionalOnly))
        (False, False) evidence
      of (valid, provisionalOnly) \<Rightarrow> \<lparr>er_valid = valid, er_provisionalOnly = provisionalOnly \<and> \<not> valid\<rparr>)"

record finding_extension =
  fx_rule :: "string option"
  fx_blocking :: bool
  fx_blocks :: "json list option"

definition readFindingExtension :: "feedback_record \<Rightarrow> finding_extension option" where
  "readFindingExtension finding =
     (case objectExtension (fb_extensions finding) ''harness.finding'' of
        None \<Rightarrow> None
      | Some parsed \<Rightarrow> Some
          \<lparr>fx_rule = (case jm_get parsed ''rule'' of Some (JStr r) \<Rightarrow> Some r | _ \<Rightarrow> None),
           fx_blocking = (jm_get parsed ''blocking'' = Some (JBool True)),
           fx_blocks = (case jm_get parsed ''blocks'' of Some (JArr vs) \<Rightarrow> Some vs | _ \<Rightarrow> None)\<rparr>)"

definition blocksTask :: "finding_extension \<Rightarrow> string \<Rightarrow> bool" where
  "blocksTask extension taskId \<longleftrightarrow> (case fx_blocks extension of None \<Rightarrow> False | Some vs \<Rightarrow> List.member vs (JStr taskId))"

definition isOpenFinding :: "feedback_record \<Rightarrow> bool" where
  "isOpenFinding finding \<longleftrightarrow> fb_type finding = Finding \<and> (fb_status finding = proposed \<or> fb_status finding = accepted)"

definition hasOpenBlocker :: "feedback_record list \<Rightarrow> string \<Rightarrow> bool" where
  "hasOpenBlocker findings taskId \<longleftrightarrow> list_ex (\<lambda>finding. isOpenFinding finding \<and>
     (case readFindingExtension finding of None \<Rightarrow> False | Some x \<Rightarrow> fx_blocking x \<and> blocksTask x taskId)) findings"

definition hasOpenIntegrationRetry :: "feedback_record list \<Rightarrow> string \<Rightarrow> bool" where
  "hasOpenIntegrationRetry findings taskId \<longleftrightarrow> list_ex (\<lambda>finding. isOpenFinding finding \<and>
     (case readFindingExtension finding of None \<Rightarrow> False
      | Some x \<Rightarrow> fx_rule x = Some ''integration_retry_scheduled'' \<and> blocksTask x taskId)) findings"

section \<open>The projection\<close>

definition integratedTaskIds :: "scheduler_authority_facts \<Rightarrow> string list" where
  "integratedTaskIds facts = concat (map wi_task_ids
     (filter (\<lambda>r. wi_operation_id r = dag_operation_id (sf_dag facts)) (sf_wave_integrations facts)))"

definition waveOfTask :: "parallel_wave list \<Rightarrow> string \<Rightarrow> nat option" where
  "waveOfTask waves tid = map_of (rev (concat (map (\<lambda>w. map (\<lambda>t. (t, wave_index w)) (wave_task_ids w)) waves))) tid"

definition earliestIncompleteWave :: "parallel_wave list \<Rightarrow> string list \<Rightarrow> nat option" where
  "earliestIncompleteWave waves integrated_ids =
     (case map wave_index (filter (\<lambda>w. list_ex (\<lambda>t. \<not> List.member integrated_ids t) (wave_task_ids w)) waves) of
        [] \<Rightarrow> None
      | i # is \<Rightarrow> Some (foldl min i is))"

definition nonRetryableTerminations :: "termination_reason list" where
  "nonRetryableTerminations = [ended_policy_denial, ended_gate_failure, ended_manual_stop]"

definition leasedStatus :: "task_lease_record \<Rightarrow> (run_outcome \<times> termination_reason) option \<Rightarrow> evidence_reading
    \<Rightarrow> task_scheduling_status" where
  "leasedStatus lease terminalRun evidence =
     (if lr_state lease = granted then
        (if terminalRun = None then running else if er_valid evidence then integration_queued else verifying)
      else case terminalRun of
        None \<Rightarrow> if lr_retry_kind lease = None then retry_pending else blocked
      | Some (outcome, reason) \<Rightarrow>
          if reason = ended_completion \<and> outcome = run_handoff then
            (if lr_state lease = released \<and> er_valid evidence then candidate_validated else verifying)
          else if List.member nonRetryableTerminations reason then blocked
          else if lr_retry_kind lease \<noteq> None then blocked
          else retry_pending)"

definition taskStatus :: "scheduler_authority_facts \<Rightarrow> task_specification \<Rightarrow> task_scheduling_status" where
  "taskStatus facts task =
     (let dag = sf_dag facts; tid = ts_id task;
          integrated_ids = integratedTaskIds facts;
          lease = jm_get (latestLeaseByTask (sf_leases facts)) tid;
          terminalRun = terminalRunOf (latestRunRecord (sf_runs facts) tid (map_option lr_run_id lease));
          evidence = readCandidateEvidence (sf_gate_evidence facts) tid;
          waveIndex = waveOfTask (dag_parallel_waves dag) tid
      in if List.member integrated_ids tid then integrated
         else if (case lease of None \<Rightarrow> False | Some l \<Rightarrow> lr_state l \<noteq> granted)
           \<and> map_option snd terminalRun = Some ended_user_cancellation then cancelled
         else if hasOpenBlocker (sf_findings facts) tid then blocked
         else if list_ex (\<lambda>request. ar_object_id request = tid) (sf_approvals facts) then awaiting_approval
         else if hasOpenIntegrationRetry (sf_findings facts) tid then verifying
         else case lease of
           Some l \<Rightarrow> leasedStatus l terminalRun evidence
         | None \<Rightarrow>
             if list_all (List.member integrated_ids) (ts_dependencies task) \<and> waveIndex \<noteq> None
               \<and> waveIndex = earliestIncompleteWave (dag_parallel_waves dag) integrated_ids
             then ready else waiting_dependency)"

definition projectSchedulerState :: "scheduler_authority_facts \<Rightarrow> scheduler_live_snapshot option \<Rightarrow> scheduler_state_projection" where
  "projectSchedulerState facts live =
     (let dag = sf_dag facts;
          liveByTask = (case live of None \<Rightarrow> [] | Some l \<Rightarrow> rev (map (\<lambda>o'. (lo_task_id o', o')) (ls_tasks l)))
      in \<lparr>sp_operation_id = dag_operation_id dag, sp_plan_digest = dag_plan_digest dag,
          sp_baseline_commit = dag_baseline_commit dag,
          sp_live_state = (if live = None then rebuilding else observed),
          sp_observed_at = map_option ls_observed_at live,
          sp_slots = (case live of None \<Rightarrow> [] | Some l \<Rightarrow> ls_slots l),
          sp_tasks = map (\<lambda>task. \<lparr>tp_task_id = ts_id task,
            tp_wave_index = waveOfTask (dag_parallel_waves dag) (ts_id task),
            tp_status = taskStatus facts task,
            tp_provisional = er_provisionalOnly (readCandidateEvidence (sf_gate_evidence facts) (ts_id task)),
            tp_live = map_of liveByTask (ts_id task)\<rparr>) (dag_tasks dag)\<rparr>)"

section \<open>The current lease\<close>

text \<open>The scan keeps, per task, a record no other record of the task strictly supersedes.\<close>

lemma supersedes_trans: "supersedes a b \<Longrightarrow> supersedes b c \<Longrightarrow> supersedes a c"
  by (auto simp: supersedes_def)

lemma supersedes_total: "supersedes a b \<or> supersedes b a"
  by (auto simp: supersedes_def)

lemma latestLeaseByTask_spec:
  "case jm_get (latestLeaseByTask leases) tid of
     None \<Rightarrow> \<forall>r \<in> set leases. lr_task_id r \<noteq> tid
   | Some l \<Rightarrow> l \<in> set leases \<and> lr_task_id l = tid \<and> (\<forall>r \<in> set leases. lr_task_id r = tid \<longrightarrow> supersedes l r)"
proof (induction leases rule: rev_induct)
  case (snoc r leases)
  have refl: "supersedes x x" for x by (simp add: supersedes_def)
  show ?case
  proof (cases "lr_task_id r = tid")
    case False
    then show ?thesis
      using snoc by (auto simp: latestLeaseByTask_def split: option.splits)
  next
    case True
    show ?thesis
    proof (cases "jm_get (latestLeaseByTask leases) tid")
      case None
      then show ?thesis using True snoc refl by (auto simp: latestLeaseByTask_def)
    next
      case (Some c)
      then have c: "c \<in> set leases" "lr_task_id c = tid" "\<forall>s \<in> set leases. lr_task_id s = tid \<longrightarrow> supersedes c s"
        using snoc by auto
      have get: "jm_get (latestLeaseByTask (leases @ [r])) tid = (if supersedes r c then Some r else Some c)"
        using Some True by (simp add: latestLeaseByTask_def)
      show ?thesis
        using c True refl supersedes_trans [of r c] supersedes_total [of r c] by (auto simp: get)
    qed
  qed
qed (simp add: latestLeaseByTask_def)

text \<open>A replayed command is byte-identical to its first record: two records of one command are the same.\<close>

definition replaysIdentical :: "task_lease_record list \<Rightarrow> bool" where
  "replaysIdentical leases \<longleftrightarrow>
     (\<forall>r \<in> set leases. \<forall>s \<in> set leases. lr_command_id r = lr_command_id s \<longrightarrow> r = s)"

lemma chain_records_replays:
  assumes chain: "buildTaskLeaseChain H leases = Inr chain" and replays: "replaysIdentical leases"
  shows "set (chain_records chain) = set leases"
proof -
  obtain b where admit: "foldR (admitRecord H) ([], []) leases = Inr (chain_records chain, b)"
    using buildTaskLeaseChain_facts(1) [OF chain] by blast
  note inv = admit_all_invariant [OF admit]
  have sub: "set (chain_records chain) \<subseteq> set leases" using inv by blast
  moreover have "r \<in> set (chain_records chain)" if r: "r \<in> set leases" for r
  proof -
    obtain d where "d \<in> set (chain_records chain)" "lr_command_id d = lr_command_id r" using inv r by blast
    then show ?thesis using sub r replays by (metis replaysIdentical_def subsetD)
  qed
  ultimately show ?thesis by blast
qed

lemma latest_lease_agrees:
  assumes chain: "buildTaskLeaseChain H leases = Inr chain" and replays: "replaysIdentical leases"
  shows "jm_get (latestLeaseByTask leases) tid = jm_get (latest_by_task chain) tid"
proof -
  have recs: "set (chain_records chain) = set leases" using chain_records_replays [OF assms] .
  have valid: "validChain (chain_records chain)" using buildTaskLeaseChain_facts(2) [OF chain] .
  note scan = latestLeaseByTask_spec [of leases tid] and top = latest_greatest [OF chain, of tid, unfolded recs]
  show ?thesis
  proof (cases "jm_get (latest_by_task chain) tid")
    case None
    then have none: "tid \<notin> lr_task_id ` set leases" using top by simp
    then have "jm_get (latestLeaseByTask leases) tid = None"
      using scan by (cases "jm_get (latestLeaseByTask leases) tid") auto
    then show ?thesis using None by simp
  next
    case (Some latest)
    then have l: "latest \<in> set leases" "lr_task_id latest = tid"
      "\<forall>r \<in> set leases. lr_task_id r = tid \<longrightarrow> lr_fencing_token r \<le> lr_fencing_token latest"
      using top by auto
    then obtain c where c: "jm_get (latestLeaseByTask leases) tid = Some c"
      using scan by (cases "jm_get (latestLeaseByTask leases) tid") auto
    then have c': "c \<in> set leases" "lr_task_id c = tid" "supersedes c latest" using scan l by auto
    then have tok: "lr_fencing_token c = lr_fencing_token latest" using l(3) by (auto simp: supersedes_def)
    have members: "c \<in> set (chain_records chain)" "latest \<in> set (chain_records chain)" using l(1) c'(1) recs by auto
    have "c = latest"
    proof (rule ccontr)
      assume ne: "c \<noteq> latest"
      have "(lr_state c = granted) \<noteq> (lr_state latest = granted)"
        using same_token_pair [OF valid members _ tok ne] c'(2) l(2) by simp
      then have live: "lr_state latest = granted" using c'(3) tok by (auto simp: supersedes_def stateRank_def split: if_splits)
      have "lr_task_id latest = lr_task_id c" using l(2) c'(2) by simp
      then obtain g where "g = filter (\<lambda>s. lr_lease_id s = lr_lease_id latest) (chain_records chain)" "c \<in> set g"
        using same_token_lease [OF valid members(2,1) _ tok [symmetric]] by blast
      then have "c \<in> set (filter (\<lambda>s. lr_lease_id s = lr_lease_id latest) (chain_records chain))" by simp
      moreover have "filter (\<lambda>s. lr_lease_id s = lr_lease_id latest) (chain_records chain) = [latest]"
        using live_latest_group [OF chain Some live] by metis
      ultimately show False using ne by simp
    qed
    then show ?thesis using c Some by simp
  qed
qed

text \<open>
  The read model and the lease state machine agree on the current lease of every task: for an
  accepted ledger, in which a replayed command repeats its record, the projection's scan by token and
  state finds exactly the record the chain calls latest.
\<close>
theorem latestLeaseByTask_chain:
  assumes "buildTaskLeaseChain H leases = Inr chain" "replaysIdentical leases"
  shows "jm_get (latestLeaseByTask leases) tid = jm_get (latest_by_task chain) tid"
  using assms by (rule latest_lease_agrees)

lemma example_replays: "replaysIdentical [firstLease, firstEnd, secondLease, firstEnd]"
  by (simp add: replaysIdentical_def example_fields)

theorem latestLeaseByTask_chain_witness:
  "jm_get (latestLeaseByTask [firstLease, firstEnd, secondLease]) ''task_a'' = Some secondLease
   \<and> jm_get (latestLeaseByTask [firstLease, firstEnd, secondLease]) ''task_b'' = None"
  using latestLeaseByTask_chain [OF example_chains(4), of "''task_a''"]
    latestLeaseByTask_chain [OF example_chains(4), of "''task_b''"] example_replays
  by (simp add: replaysIdentical_def)

section \<open>What a status rests on\<close>

lemma readCandidateEvidence_final:
  "er_valid (readCandidateEvidence (filter (\<lambda>r. \<not> ge_provisional r) evidence) tid) = er_valid (readCandidateEvidence evidence tid)"
proof -
  define step where "step = (\<lambda>(valid, provisionalOnly) (r :: gate_evidence_record).
        if ge_subject_id r \<noteq> tid \<or> ge_evidence_type r \<noteq> ''gate_result'' then (valid, provisionalOnly)
        else case objectExtension (ge_extensions r) ''harness.gate'' of
          None \<Rightarrow> (valid, provisionalOnly)
        | Some gate \<Rightarrow>
            if jm_get gate ''passed'' \<noteq> Some (JBool True) then (valid, provisionalOnly)
            else if ge_provisional r then (valid, True) else (True, provisionalOnly))"
  have valid: "er_valid (readCandidateEvidence es tid) = fst (foldl step (False, False) es)" for es
    by (simp add: readCandidateEvidence_def step_def split: prod.splits)
  have "fst (foldl step (v, p) (filter (\<lambda>r. \<not> ge_provisional r) es)) = fst (foldl step (v, p') es)" for v p p' es
    by (induction es arbitrary: v p p') (auto simp: step_def split: option.splits)
  then show ?thesis by (simp add: valid)
qed

lemma leasedStatus_evidence: "er_valid e = er_valid e' \<Longrightarrow> leasedStatus l t e = leasedStatus l t e'"
  by (cases t) (auto simp: leasedStatus_def)

text \<open>
  Statuses rest on authority alone: dropping every provisional piece of evidence, or replacing or
  losing the live snapshot, changes no task's status.
\<close>
theorem projection_authority:
  "map tp_status (sp_tasks (projectSchedulerState
       (facts\<lparr>sf_gate_evidence := filter (\<lambda>r. \<not> ge_provisional r) (sf_gate_evidence facts)\<rparr>) live))
     = map tp_status (sp_tasks (projectSchedulerState facts live'))"
proof -
  let ?final = "facts\<lparr>sf_gate_evidence := filter (\<lambda>r. \<not> ge_provisional r) (sf_gate_evidence facts)\<rparr>"
  have "integratedTaskIds ?final = integratedTaskIds facts" by (simp add: integratedTaskIds_def)
  then have "taskStatus ?final task = taskStatus facts task" for task
    by (cases "jm_get (latestLeaseByTask (sf_leases facts)) (ts_id task)")
      (simp_all add: taskStatus_def Let_def leasedStatus_evidence [OF readCandidateEvidence_final])
  then show ?thesis by (simp add: projectSchedulerState_def Let_def)
qed

lemma earliestIncompleteWave_Some:
  "earliestIncompleteWave waves done_ids = Some i \<longleftrightarrow>
     (\<exists>w \<in> set waves. wave_index w = i \<and> \<not> set (wave_task_ids w) \<subseteq> set done_ids)
     \<and> (\<forall>w \<in> set waves. wave_index w < i \<longrightarrow> set (wave_task_ids w) \<subseteq> set done_ids)"
proof -
  define pending where "pending = map wave_index (filter (\<lambda>w. list_ex (\<lambda>t. \<not> List.member done_ids t) (wave_task_ids w)) waves)"
  have mem: "j \<in> set pending \<longleftrightarrow> (\<exists>w \<in> set waves. wave_index w = j \<and> \<not> set (wave_task_ids w) \<subseteq> set done_ids)" for j
    by (auto simp: pending_def list_ex_iff image_iff)
  have "earliestIncompleteWave waves done_ids = Some i \<longleftrightarrow> pending \<noteq> [] \<and> Min (set pending) = i"
    unfolding earliestIncompleteWave_def pending_def [symmetric] by (cases pending) (auto simp: foldl_min simp del: foldl_Cons)
  also have "\<dots> \<longleftrightarrow> i \<in> set pending \<and> (\<forall>j \<in> set pending. i \<le> j)"
    by (cases "pending = []") (auto simp: Min_eq_iff)
  also have "(\<forall>j \<in> set pending. i \<le> j) \<longleftrightarrow> (\<forall>w \<in> set waves. wave_index w < i \<longrightarrow> set (wave_task_ids w) \<subseteq> set done_ids)"
    unfolding Ball_def mem by (auto simp: linorder_not_le [symmetric])
  finally show ?thesis unfolding mem .
qed

lemma latestLeaseByTask_None: "jm_get (latestLeaseByTask leases) tid = None \<longleftrightarrow> (\<forall>r \<in> set leases. lr_task_id r \<noteq> tid)"
  using latestLeaseByTask_spec [of leases tid] by (auto split: option.splits)

lemma leasedStatus_neq [simp]: "leasedStatus l t e \<noteq> ready" "leasedStatus l t e \<noteq> waiting_dependency"
  by (auto simp: leasedStatus_def split: option.splits prod.splits)

text \<open>
  A task is \<open>ready\<close> exactly when nothing stands in its way: no wave integration names it, it never
  had a lease, no open blocker, pending approval or integration retry names it, all its dependencies are
  integrated, and its wave is the earliest one with an unintegrated task.
\<close>
theorem taskStatus_ready_iff:
  "taskStatus facts task = ready \<longleftrightarrow>
     ts_id task \<notin> set (integratedTaskIds facts) \<and> (\<forall>r \<in> set (sf_leases facts). lr_task_id r \<noteq> ts_id task)
     \<and> \<not> hasOpenBlocker (sf_findings facts) (ts_id task) \<and> (\<forall>request \<in> set (sf_approvals facts). ar_object_id request \<noteq> ts_id task)
     \<and> \<not> hasOpenIntegrationRetry (sf_findings facts) (ts_id task)
     \<and> set (ts_dependencies task) \<subseteq> set (integratedTaskIds facts)
     \<and> (\<exists>i. waveOfTask (dag_parallel_waves (sf_dag facts)) (ts_id task) = Some i
          \<and> (\<exists>w \<in> set (dag_parallel_waves (sf_dag facts)). wave_index w = i
               \<and> \<not> set (wave_task_ids w) \<subseteq> set (integratedTaskIds facts))
          \<and> (\<forall>w \<in> set (dag_parallel_waves (sf_dag facts)). wave_index w < i \<longrightarrow>
               set (wave_task_ids w) \<subseteq> set (integratedTaskIds facts)))"
proof -
  have "taskStatus facts task = ready \<longleftrightarrow>
     ts_id task \<notin> set (integratedTaskIds facts) \<and> jm_get (latestLeaseByTask (sf_leases facts)) (ts_id task) = None
     \<and> \<not> hasOpenBlocker (sf_findings facts) (ts_id task) \<and> (\<forall>request \<in> set (sf_approvals facts). ar_object_id request \<noteq> ts_id task)
     \<and> \<not> hasOpenIntegrationRetry (sf_findings facts) (ts_id task)
     \<and> set (ts_dependencies task) \<subseteq> set (integratedTaskIds facts)
     \<and> (\<exists>i. waveOfTask (dag_parallel_waves (sf_dag facts)) (ts_id task) = Some i
          \<and> earliestIncompleteWave (dag_parallel_waves (sf_dag facts)) (integratedTaskIds facts) = Some i)"
    by (auto simp: taskStatus_def Let_def list_ex_iff list_all_iff split: option.splits if_splits dest: sym)
  then show ?thesis unfolding latestLeaseByTask_None earliestIncompleteWave_Some .
qed

definition exampleFacts :: scheduler_authority_facts where
  "exampleFacts = \<lparr>sf_dag = \<lparr>dag_operation_id = ''op_1'', dag_iteration_id = ''it_1'', dag_plan_id = ''plan_1'',
       dag_plan_digest = zeros, dag_baseline_commit = ''0123456'', dag_tasks = examplePlan,
       dag_parallel_waves = exampleWaves, dag_iteration_budget = \<lparr>ib_steps = 10, ib_tokens = 10, ib_duration_ms = 10\<rparr>\<rparr>,
     sf_leases = [], sf_runs = [], sf_gate_evidence = [], sf_approvals = [], sf_findings = [],
     sf_wave_integrations = [\<lparr>wi_operation_id = ''op_1'', wi_wave_index = 0, wi_task_ids = [''task_a'']\<rparr>]\<rparr>"

theorem taskStatus_ready_iff_witness:
  "taskStatus exampleFacts (exampleTask ''task_c'' [''task_a''] [''docs'']) = ready"
  unfolding taskStatus_ready_iff
  by (simp add: exampleFacts_def integratedTaskIds_def hasOpenBlocker_def hasOpenIntegrationRetry_def waveOfTask_def
      exampleWaves_def exampleTask_def)

end
