(* ===== verification/Wave_Order.thy ===== *)
theory Wave_Order
  imports Wave_Compiler
begin

text \<open>
  Correctness of \<open>stableTopologicalOrder\<close> (\<^verbatim>\<open>runtime/src/planning/waves.ts\<close>): the loop invariant of
  Kahn's algorithm, the declaration order as the only tie-break, and the exact condition under which
  the order exists.
\<close>

section \<open>Specification\<close>

text \<open>Dependencies of \<open>t\<close> not in \<open>order\<close>, counted as often as they are declared.\<close>

definition unmet :: "normalized_task list \<Rightarrow> normalized_task \<Rightarrow> nat" where
  "unmet order t = length (filter (\<lambda>d. d \<notin> nid ` set order) (ndeps t))"

lemma unmet_0_iff: "unmet order t = 0 \<longleftrightarrow> set (ndeps t) \<subseteq> nid ` set order"
  by (auto simp: unmet_def filter_empty_conv)

lemma unmet_snoc:
  assumes "nid c \<notin> nid ` set order"
  shows "unmet order t = unmet (order @ [c]) t + count_list (ndeps t) (nid c)"
proof -
  have "length (filter (\<lambda>d. d \<notin> nid ` set order) ds)
      = length (filter (\<lambda>d. d \<notin> nid ` set (order @ [c])) ds) + count_list ds (nid c)" for ds
    using assms by (induction ds) auto
  then show ?thesis by (simp add: unmet_def)
qed

text \<open>
  \<open>order\<close> respects the dependencies, and at every point takes the available task declared first.
\<close>

definition dependencyOrdered :: "normalized_task list \<Rightarrow> bool" where
  "dependencyOrdered order \<longleftrightarrow>
     (\<forall>i < length order. set (ndeps (order ! i)) \<subseteq> nid ` set (take i order))"

definition declarationFirst :: "normalized_task list \<Rightarrow> normalized_task list \<Rightarrow> bool" where
  "declarationFirst tasks order \<longleftrightarrow>
     (\<forall>i < length order. \<forall>t \<in> set tasks - set (take i order).
        set (ndeps t) \<subseteq> nid ` set (take i order) \<longrightarrow> n_position (order ! i) \<le> n_position t)"

lemma dependencyOrdered_snoc:
  "dependencyOrdered order \<Longrightarrow> set (ndeps c) \<subseteq> nid ` set order \<Longrightarrow> dependencyOrdered (order @ [c])"
  by (auto simp: dependencyOrdered_def nth_append less_Suc_eq)

lemma declarationFirst_snoc:
  assumes "declarationFirst tasks order"
    and "\<And>t. t \<in> set tasks - set order \<Longrightarrow> set (ndeps t) \<subseteq> nid ` set order \<Longrightarrow> n_position c \<le> n_position t"
  shows "declarationFirst tasks (order @ [c])"
  using assms by (auto simp: declarationFirst_def nth_append less_Suc_eq)

section \<open>The frontier\<close>

lemma set_insertByPosition [simp]: "set (insertByPosition d ts) = insert d (set ts)"
  by (induction ts) auto

lemma distinct_insertByPosition [simp]: "distinct (insertByPosition d ts) \<longleftrightarrow> d \<notin> set ts \<and> distinct ts"
  by (induction ts) auto

lemma sorted_insertByPosition:
  "sorted (map n_position ts) \<Longrightarrow> sorted (map n_position (insertByPosition d ts))"
  by (induction ts) auto

text \<open>
  The state in the middle of a round: \<open>order\<close> is done (its last task being processed), \<open>ds\<close> are the
  dependents of that task still to be released.
\<close>

definition kahnInv :: "normalized_task list \<Rightarrow> (string, int) jmap \<Rightarrow> normalized_task list
    \<Rightarrow> normalized_task list \<Rightarrow> normalized_task list \<Rightarrow> bool" where
  "kahnInv tasks indegree ready order ds \<longleftrightarrow>
     distinct (order @ ready) \<and> set (order @ ready) \<subseteq> set tasks \<and> sorted (map n_position ready)
     \<and> (\<forall>t \<in> set tasks. map_of indegree (nid t) = Some (int (unmet order t + count_list ds t)))
     \<and> (\<forall>t \<in> set tasks. t \<in> set (order @ ready) \<longleftrightarrow> unmet order t + count_list ds t = 0)"

lemma kahnInv_release:
  assumes inv: "kahnInv tasks indegree ready order (d # ds)"
    and dt: "d \<in> set tasks" and ids: "inj_on nid (set tasks)"
    and step: "releaseDependent (indegree, ready) d = (indegree', ready')"
  shows "kahnInv tasks indegree' ready' order ds"
proof -
  let ?n = "int (unmet order d + count_list ds d)"
  have deg: "map_of indegree (nid d) = Some (?n + 1)"
    using inv dt by (simp add: kahnInv_def)
  then have i': "indegree' = jm_set (nid d) ?n indegree"
    and r': "ready' = (if ?n = 0 then insertByPosition d ready else ready)"
    using step by (auto simp: releaseDependent_def Let_def split: if_splits)
  have notin: "d \<notin> set (order @ ready)" using inv dt by (simp add: kahnInv_def)
  have degs: "map_of indegree' (nid t) = Some (int (unmet order t + count_list ds t))" if "t \<in> set tasks" for t
  proof (cases "t = d")
    case True
    then show ?thesis by (simp add: i')
  next
    case False
    then have "nid t \<noteq> nid d" using ids that dt by (auto dest: inj_onD)
    then show ?thesis using inv that False by (simp add: i' kahnInv_def)
  qed
  have mem: "t \<in> set (order @ ready') \<longleftrightarrow> unmet order t + count_list ds t = 0" if "t \<in> set tasks" for t
    using inv that notin by (cases "t = d") (auto simp: kahnInv_def r')
  show ?thesis
    using inv degs mem notin dt sorted_insertByPosition [of ready d] by (auto simp: kahnInv_def r')
qed

lemma kahnInv_release_all:
  assumes "kahnInv tasks indegree ready order ds" "set ds \<subseteq> set tasks" "inj_on nid (set tasks)"
    and "foldl releaseDependent (indegree, ready) ds = (indegree', ready')"
  shows "kahnInv tasks indegree' ready' order []"
  using assms
proof (induction ds arbitrary: indegree ready)
  case (Cons d ds)
  obtain i1 r1 where s: "releaseDependent (indegree, ready) d = (i1, r1)" by fastforce
  show ?case
    by (rule Cons.IH [OF kahnInv_release [OF Cons.prems(1) _ Cons.prems(3) s]]) (use Cons.prems s in auto)
qed simp

lemma count_edgesOf:
  assumes "distinct ts" "t \<in> set ts"
  shows "count_list (edgesOf ts k) t = count_list (ndeps t) k"
proof -
  have rep: "count_list (replicate n x) y = (if x = y then n else 0)" for n and x y :: normalized_task
    by (induction n) auto
  have zero: "t \<notin> set us \<Longrightarrow> count_list (edgesOf us k) t = 0" for us
    by (induction us) (auto simp: edgesOf_def rep)
  show ?thesis using assms
  proof (induction ts)
    case (Cons u ts)
    then show ?case using zero [of ts] by (auto simp: edgesOf_def rep)
  qed simp
qed

lemma set_edgesOf: "set (edgesOf ts k) \<subseteq> set ts"
  by (auto simp: edgesOf_def)

text \<open>Taking the next task from the frontier starts the release of its dependents.\<close>

lemma kahnInv_take:
  assumes inv: "kahnInv tasks indegree (current # ready) order []"
    and ids: "inj_on nid (set tasks)" and dist: "distinct tasks"
  shows "kahnInv tasks indegree ready (order @ [current]) (edgesOf tasks (nid current))"
proof -
  have cur: "current \<in> set tasks" "current \<notin> set order" "set order \<subseteq> set tasks"
    using inv by (auto simp: kahnInv_def)
  then have "nid current \<notin> nid ` set order" using ids by (auto dest: inj_onD)
  then have "unmet (order @ [current]) t + count_list (edgesOf tasks (nid current)) t = unmet order t"
    if "t \<in> set tasks" for t
    using that by (simp add: count_edgesOf [OF dist] unmet_snoc [of current])
  then show ?thesis using inv by (auto simp: kahnInv_def)
qed

lemma kahnLoop_correct:
  assumes "kahnInv tasks indegree ready order []"
    and "inj_on nid (set tasks)" "distinct tasks"
    and "\<forall>t \<in> set tasks. map_of dependents (nid t) = Some (edgesOf tasks (nid t))"
    and "dependencyOrdered order" "declarationFirst tasks order"
    and "kahnLoop dependents indegree ready order = result"
  shows "dependencyOrdered result \<and> declarationFirst tasks result
     \<and> (\<exists>indegree'. kahnInv tasks indegree' [] result [])"
  using assms
proof (induction dependents indegree ready order rule: kahnLoop.induct)
  case (1 dependents indegree order)
  then show ?case by auto
next
  case (2 dependents indegree current ready order)
  have cur: "current \<in> set tasks" using "2.prems"(1) by (simp add: kahnInv_def)
  then have dep: "the (jm_get dependents (nid current)) = edgesOf tasks (nid current)"
    using "2.prems"(4) by simp
  obtain i' r' where fold: "foldl releaseDependent (indegree, ready) (edgesOf tasks (nid current)) = (i', r')"
    by fastforce
  have inv': "kahnInv tasks i' r' (order @ [current]) []"
    by (rule kahnInv_release_all [OF kahnInv_take [OF "2.prems"(1-3)] set_edgesOf "2.prems"(2) fold])
  have met: "set (ndeps current) \<subseteq> nid ` set order"
    using "2.prems"(1) cur by (auto simp: kahnInv_def simp flip: unmet_0_iff)
  have least: "n_position current \<le> n_position t"
    if "t \<in> set tasks - set order" "set (ndeps t) \<subseteq> nid ` set order" for t
  proof -
    have "t \<in> set (current # ready)"
      using "2.prems"(1) that by (auto simp: kahnInv_def simp flip: unmet_0_iff)
    then show ?thesis using "2.prems"(1) by (auto simp: kahnInv_def)
  qed
  have loop: "kahnLoop dependents i' r' (order @ [current]) = result"
    using "2.prems"(7) fold by (simp add: dep)
  show ?case
  proof (rule "2.IH" [OF _ inv' "2.prems"(2-4) _ _ loop])
    show "(i', r') = foldl releaseDependent (indegree, ready) (the (jm_get dependents (nid current)))"
      using fold by (simp add: dep)
    show "dependencyOrdered (order @ [current])"
      using "2.prems"(5) met by (rule dependencyOrdered_snoc)
    show "declarationFirst tasks (order @ [current])"
      using "2.prems"(6) least by (rule declarationFirst_snoc)
  qed
qed

section \<open>Normalisation\<close>

lemma normalizeTasksFrom_Inr:
  assumes "normalizeTasksFrom H ids p specs = Inr ns"
  shows "map n_task ns = specs \<and> map n_position ns = [p..<p + length specs]
     \<and> distinct (map ts_id specs) \<and> set ids \<inter> ts_id ` set specs = {}
     \<and> (\<forall>n \<in> set ns. \<exists>q. normalizeTask H q (n_task n) = Inr n)"
  using assms
proof (induction specs arbitrary: ids p ns)
  case (Cons spec specs)
  from Cons.prems obtain n ms where fresh: "ts_id spec \<notin> set ids"
    and n: "normalizeTask H p spec = Inr n"
    and ms: "normalizeTasksFrom H (ids @ [ts_id spec]) (Suc p) specs = Inr ms" and ns: "ns = n # ms"
    by (auto simp: rbind_Inr_iff split: if_splits)
  have "n_task n = spec" "n_position n = p"
    using n by (auto simp: normalizeTask_def rbind_Inr_iff)
  then show ?case using Cons.IH [OF ms] fresh n ns by (auto simp: upt_conv_Cons simp del: upt_Suc)
qed simp

lemma normalizeTasks_Inr:
  assumes "normalizeTasks H specs = Inr tasks"
  shows "map n_task tasks = specs" "map n_position tasks = [0..<length specs]"
    "distinct (map nid tasks)" "\<And>n. n \<in> set tasks \<Longrightarrow> \<exists>q. normalizeTask H q (n_task n) = Inr n"
proof -
  note facts = normalizeTasksFrom_Inr [OF assms [unfolded normalizeTasks_def]]
  show specs: "map n_task tasks = specs" and "map n_position tasks = [0..<length specs]"
    and "\<And>n. n \<in> set tasks \<Longrightarrow> \<exists>q. normalizeTask H q (n_task n) = Inr n"
    using facts by auto
  have "map nid tasks = map ts_id specs" using specs by auto
  then show "distinct (map nid tasks)" using facts by simp
qed

lemma normalizeTasks_set:
  assumes "normalizeTasks H specs = Inr tasks"
  shows "distinct tasks" "inj_on nid (set tasks)" "inj_on n_position (set tasks)" "sorted (map n_position tasks)"
  using normalizeTasks_Inr [OF assms] distinct_map [of nid tasks] distinct_map [of n_position tasks] by auto

section \<open>Existence\<close>

definition dependencyEdges :: "normalized_task list \<Rightarrow> (string \<times> string) set" where
  "dependencyEdges tasks = {(d, nid t) | d t. t \<in> set tasks \<and> d \<in> set (ndeps t)}"

definition dependenciesKnown :: "normalized_task list \<Rightarrow> bool" where
  "dependenciesKnown tasks \<longleftrightarrow> (\<forall>t \<in> set tasks. set (ndeps t) \<subseteq> nid ` set tasks)"

lemma finite_dependencyEdges: "finite (dependencyEdges tasks)"
proof -
  have "dependencyEdges tasks = (\<Union>t \<in> set tasks. (\<lambda>d. (d, nid t)) ` set (ndeps t))"
    by (auto simp: dependencyEdges_def)
  then show ?thesis by simp
qed

text \<open>An order of all tasks that respects the dependencies ranks them, so there is no cycle.\<close>

lemma length_takeWhile_nth:
  "distinct xs \<Longrightarrow> i < length xs \<Longrightarrow> length (takeWhile (\<lambda>x. x \<noteq> xs ! i) xs) = i"
proof (induction xs arbitrary: i)
  case (Cons x xs)
  then show ?case by (cases i) auto
qed simp

lemma ordered_acyclic:
  assumes "dependencyOrdered order" "set order = set tasks" "distinct (map nid order)"
  shows "acyclic (dependencyEdges tasks)"
proof -
  define rank where "rank k = length (takeWhile (\<lambda>x. x \<noteq> k) (map nid order))" for k
  have rank_nth: "rank (nid (order ! i)) = i" if "i < length order" for i
    using that length_takeWhile_nth [OF assms(3), of i] by (simp add: rank_def)
  have "(d, k) \<in> measure rank" if "(d, k) \<in> dependencyEdges tasks" for d k
  proof -
    from that obtain t where "t \<in> set order" "k = nid t" "d \<in> set (ndeps t)"
      using assms(2) by (auto simp: dependencyEdges_def)
    then obtain i where i: "i < length order" "k = nid (order ! i)" "d \<in> set (ndeps (order ! i))"
      by (metis in_set_conv_nth)
    then have "d \<in> nid ` set (take i order)" using assms(1) by (auto simp: dependencyOrdered_def)
    then obtain j where "j < i" "d = nid (order ! j)" by (auto simp: in_set_conv_nth)
    then show ?thesis using i rank_nth by simp
  qed
  then have "dependencyEdges tasks \<subseteq> measure rank" by auto
  then show ?thesis using wf_subset wf_acyclic wf_measure by metis
qed

text \<open>When the loop stops early, every task left over waits for a task left over.\<close>

lemma stuck_cyclic:
  assumes inv: "kahnInv tasks indegree [] order []" and known: "dependenciesKnown tasks"
    and ids: "inj_on nid (set tasks)" and left: "set order \<noteq> set tasks"
  shows "\<not> acyclic (dependencyEdges tasks)"
proof
  assume "acyclic (dependencyEdges tasks)"
  then have "wf (dependencyEdges tasks)" by (simp add: finite_acyclic_wf finite_dependencyEdges)
  let ?S = "nid ` (set tasks - set order)"
  obtain t0 where "t0 \<in> set tasks - set order" using inv left by (auto simp: kahnInv_def)
  then have "nid t0 \<in> ?S" by simp
  from wfE_min [OF \<open>wf _\<close> this] obtain z
    where z: "z \<in> ?S" and min: "\<And>y. (y, z) \<in> dependencyEdges tasks \<Longrightarrow> y \<notin> ?S" by blast
  from z obtain t where t: "t \<in> set tasks" "t \<notin> set order" "z = nid t" by auto
  then have "unmet order t \<noteq> 0" using inv by (simp add: kahnInv_def)
  then obtain d where d: "d \<in> set (ndeps t)" "d \<notin> nid ` set order" by (auto simp: unmet_0_iff)
  moreover have "d \<in> nid ` set tasks" using known t d by (auto simp: dependenciesKnown_def)
  ultimately have "d \<in> ?S" by auto
  moreover have "(d, z) \<in> dependencyEdges tasks" using t d by (auto simp: dependencyEdges_def)
  ultimately show False using min by blast
qed

section \<open>The topological order\<close>

text \<open>What the compiler relies on: the order in which the frontier is consumed, or no order.\<close>

definition stableOrder :: "normalized_task list \<Rightarrow> normalized_task list \<Rightarrow> bool" where
  "stableOrder tasks order \<longleftrightarrow>
     distinct order \<and> set order = set tasks \<and> dependencyOrdered order \<and> declarationFirst tasks order"

lemma kahnLoop_stable:
  assumes tasks: "distinct (map nid tasks)" "sorted (map n_position tasks)"
    and edges: "buildEdges tasks = Inr (indegree, dependents)"
    and order: "kahnLoop dependents indegree (filter (\<lambda>t. jm_get indegree (nid t) = Some 0) tasks) [] = order"
  shows "distinct order" "set order \<subseteq> set tasks" "dependencyOrdered order" "declarationFirst tasks order"
    "set order = set tasks \<or> \<not> acyclic (dependencyEdges tasks)"
proof -
  note e = buildEdges_Inr [OF edges tasks(1)]
  have ids: "inj_on nid (set tasks)" and dist: "distinct tasks" using tasks(1) by (auto simp: distinct_map)
  let ?ready = "filter (\<lambda>t. jm_get indegree (nid t) = Some 0) tasks"
  have inv: "kahnInv tasks indegree ?ready [] []"
    using e dist tasks(2) by (auto simp: kahnInv_def unmet_def sorted_filter)
  have final: "dependencyOrdered order \<and> declarationFirst tasks order
     \<and> (\<exists>indegree'. kahnInv tasks indegree' [] order [])"
    by (rule kahnLoop_correct [OF inv ids dist e(3) _ _ order])
      (auto simp: dependencyOrdered_def declarationFirst_def)
  then obtain i' where i': "kahnInv tasks i' [] order []" by blast
  from final show "dependencyOrdered order" "declarationFirst tasks order" by auto
  from i' show "distinct order" "set order \<subseteq> set tasks" by (auto simp: kahnInv_def)
  have "dependenciesKnown tasks" using e(1) by (simp add: dependenciesKnown_def)
  then show "set order = set tasks \<or> \<not> acyclic (dependencyEdges tasks)"
    using stuck_cyclic [OF i' _ ids] by blast
qed

lemma stableTopologicalOrder_stable:
  assumes tasks: "distinct (map nid tasks)" "sorted (map n_position tasks)"
    and order: "stableTopologicalOrder tasks = Inr order"
  shows "stableOrder tasks order"
proof -
  from order obtain indegree dependents where edges: "buildEdges tasks = Inr (indegree, dependents)"
    and loop: "kahnLoop dependents indegree (filter (\<lambda>t. jm_get indegree (nid t) = Some 0) tasks) [] = order"
    and len: "length order = length tasks"
    by (auto simp: stableTopologicalOrder_def rbind_Inr_iff Let_def split: if_splits)
  note k = kahnLoop_stable [OF tasks edges loop]
  have "distinct tasks" using tasks(1) by (simp add: distinct_map)
  then have "set order = set tasks" using k(1,2) len by (metis card_subset_eq List.finite_set distinct_card)
  then show ?thesis using k by (simp add: stableOrder_def)
qed

lemma stableTopologicalOrder_error:
  assumes tasks: "distinct (map nid tasks)" "sorted (map n_position tasks)"
    and order: "stableTopologicalOrder tasks = Inl e"
  shows "\<not> dependenciesKnown tasks \<and> e = PlanningError invalid_specification
     \<or> dependenciesKnown tasks \<and> \<not> acyclic (dependencyEdges tasks) \<and> e = PlanningError dependency_cycle"
proof (cases "buildEdges tasks")
  case (Inl e')
  then show ?thesis
    using order buildEdges_Inl [OF Inl] by (auto simp: stableTopologicalOrder_def dependenciesKnown_def)
next
  case (Inr tables)
  obtain indegree dependents where t: "tables = (indegree, dependents)" by fastforce
  let ?order = "kahnLoop dependents indegree (filter (\<lambda>t. jm_get indegree (nid t) = Some 0) tasks) []"
  note k = kahnLoop_stable [OF tasks Inr [unfolded t] refl]
  have "length ?order \<noteq> length tasks" and e: "e = PlanningError dependency_cycle"
    using order Inr t by (auto simp: stableTopologicalOrder_def Let_def split: if_splits)
  then have "set ?order \<noteq> set tasks"
    using k(1) tasks(1) by (metis distinct_card distinct_map)
  then show ?thesis
    using k(5) e buildEdges_Inr(1) [OF Inr [unfolded t] tasks(1)] by (simp add: dependenciesKnown_def)
qed

text \<open>The order is determined: two stable orders agree position by position.\<close>

lemma stableOrder_unique:
  assumes a: "stableOrder tasks xs" and b: "stableOrder tasks ys" and inj: "inj_on n_position (set tasks)"
  shows "xs = ys"
proof -
  have "length zs = card (set tasks)" if "stableOrder tasks zs" for zs
    using that distinct_card [of zs] by (simp add: stableOrder_def)
  then have len: "length xs = length ys" using a b by simp
  have "take i xs = take i ys" if "i \<le> length xs" for i
    using that
  proof (induction i)
    case (Suc i)
    then have same: "take i xs = take i ys" and i: "i < length xs" "i < length ys" using len by auto
    have pos: "n_position (us ! i) \<le> n_position (vs ! i)"
      if "stableOrder tasks us" "stableOrder tasks vs" "take i us = take i vs" "i < length us" "i < length vs" for us vs
    proof -
      have "vs ! i \<notin> set (take i vs)"
        using that by (auto simp: stableOrder_def in_set_conv_nth nth_eq_iff_index_eq)
      moreover have "vs ! i \<in> set tasks" using that by (auto simp: stableOrder_def)
      ultimately show ?thesis
        using that by (auto simp: stableOrder_def declarationFirst_def dependencyOrdered_def)
    qed
    have "n_position (xs ! i) = n_position (ys ! i)"
      using pos [OF a b same i] pos [OF b a same [symmetric] i(2,1)] by simp
    moreover have "xs ! i \<in> set tasks" "ys ! i \<in> set tasks" using a b i by (auto simp: stableOrder_def)
    ultimately have "xs ! i = ys ! i" using inj by (auto dest: inj_onD)
    then show ?case using same i by (simp add: take_Suc_conv_app_nth)
  qed simp
  from this [of "length xs"] show ?thesis using len by simp
qed

lemma topologicalOrder_exists:
  assumes "normalizeTasks H specs = Inr tasks" "stableTopologicalOrder tasks = Inr order"
  shows "dependenciesKnown tasks" "acyclic (dependencyEdges tasks)" "stableOrder tasks order"
proof -
  note n = normalizeTasks_Inr [OF assms(1)] normalizeTasks_set [OF assms(1)]
  show s: "stableOrder tasks order" using stableTopologicalOrder_stable [OF n(3) n(8) assms(2)] .
  then have "distinct (map nid order)" using n(6) by (auto simp: stableOrder_def distinct_map)
  then show "acyclic (dependencyEdges tasks)"
    using s ordered_acyclic [of order tasks] by (simp add: stableOrder_def)
  obtain tables where "buildEdges tasks = Inr tables"
    using assms(2) by (auto simp: stableTopologicalOrder_def rbind_Inr_iff)
  then show "dependenciesKnown tasks"
    using buildEdges_Inr(1) [OF _ n(3)] by (cases tables) (auto simp: dependenciesKnown_def)
qed

text \<open>
  C16. For the tasks of a plan, \<open>stableTopologicalOrder\<close> returns \<open>order\<close> exactly when every
  dependency is a task of the plan, the dependencies have no cycle, and \<open>order\<close> lists every task once,
  each after its dependencies and each the first declared among the tasks available at that point.
  So the order exists whenever the dependencies form a DAG, and it is unique.
\<close>
theorem stableTopologicalOrder_iff:
  assumes "normalizeTasks H specs = Inr tasks"
  shows "stableTopologicalOrder tasks = Inr order \<longleftrightarrow>
     dependenciesKnown tasks \<and> acyclic (dependencyEdges tasks) \<and> stableOrder tasks order"
proof
  note n = normalizeTasks_Inr [OF assms] normalizeTasks_set [OF assms]
  assume r: "dependenciesKnown tasks \<and> acyclic (dependencyEdges tasks) \<and> stableOrder tasks order"
  then obtain xs where xs: "stableTopologicalOrder tasks = Inr xs"
    using stableTopologicalOrder_error [OF n(3) n(8)] by (metis sum.exhaust_sel)
  then show "stableTopologicalOrder tasks = Inr order"
    using topologicalOrder_exists [OF assms xs] r stableOrder_unique [OF _ _ n(7)] by blast
qed (use topologicalOrder_exists [OF assms] in blast)

theorem stableTopologicalOrder_iff_witness:
  "normalizeTasks exampleHost examplePlan = Inr exampleTasks
   \<and> stableOrder exampleTasks [exampleTasks ! 1, exampleTasks ! 0, exampleTasks ! 2]"
  using stableTopologicalOrder_iff [OF normalize_examplePlan] order_exampleTasks normalize_examplePlan by blast

end
