(* ===== verification/Wave_Layout.thy ===== *)
theory Wave_Layout
  imports Wave_Order
begin

text \<open>
  Correctness of the wave layout of \<open>compileParallelWaves\<close> and of the drift guard
  \<open>assertParallelWaves\<close> (\<^verbatim>\<open>runtime/src/planning/waves.ts\<close>): the invariant of the placement loop and what
  it gives for the waves of a plan.
\<close>

section \<open>Conflicts\<close>

definition tasksConflict :: "normalized_task \<Rightarrow> normalized_task \<Rightarrow> bool" where
  "tasksConflict a b \<longleftrightarrow>
     (\<exists>p \<in> set (n_writePaths a). \<exists>q \<in> set (n_writePaths b). writePathsOverlap p q)
     \<or> set (n_resources a) \<inter> set (n_resources b) \<noteq> {}"

lemma conflictsWithWave_iff: "conflictsWithWave t ms \<longleftrightarrow> (\<exists>m \<in> set ms. tasksConflict t m)"
  unfolding conflictsWithWave_def tasksConflict_def list_ex_iff by blast

lemma writePathsOverlap_sym: "writePathsOverlap p q = writePathsOverlap q p"
  by (auto simp: writePathsOverlap_def)

lemma tasksConflict_sym: "tasksConflict a b = tasksConflict b a"
  unfolding tasksConflict_def using writePathsOverlap_sym by blast

section \<open>The placement loop\<close>

lemma earliestWave_from:
  fixes pl :: "(string, nat) jmap"
  assumes "\<forall>d \<in> set ds. \<exists>w. map_of pl d = Some w \<and> w < n" and "m \<le> n"
  shows "\<exists>e. foldR (\<lambda>wave d. case map_of pl d of None \<Rightarrow> Inl JsTypeError | Some w \<Rightarrow> Inr (max wave (w + 1))) m ds = Inr e
     \<and> m \<le> e \<and> e \<le> n \<and> (\<forall>d \<in> set ds. the (map_of pl d) < e)
     \<and> (e = m \<or> (\<exists>d \<in> set ds. e = the (map_of pl d) + 1))"
  using assms
proof (induction ds arbitrary: m)
  case (Cons d ds)
  then obtain w where w: "map_of pl d = Some w" "w < n" by auto
  have "max m (w + 1) \<le> n" using Cons.prems(2) w(2) by linarith
  from Cons.IH [OF _ this] Cons.prems(1) obtain e
    where e: "foldR (\<lambda>wave d. case map_of pl d of None \<Rightarrow> Inl JsTypeError | Some w \<Rightarrow> Inr (max wave (w + 1))) (max m (w + 1)) ds = Inr e"
      "max m (w + 1) \<le> e" "e \<le> n" "\<forall>d \<in> set ds. the (map_of pl d) < e"
      "e = max m (w + 1) \<or> (\<exists>d \<in> set ds. e = the (map_of pl d) + 1)" by auto
  have "e = m \<or> (\<exists>d \<in> set (d # ds). e = the (map_of pl d) + 1)"
    using e(5) w by (auto simp: max_def split: if_splits)
  then show ?case using e w by auto
qed simp

lemma earliestWave_placed:
  assumes "\<forall>d \<in> set ds. \<exists>w. map_of pl d = Some w \<and> w < n"
  obtains e where "earliestWave pl ds = Inr e" "e \<le> n" "\<And>d. d \<in> set ds \<Longrightarrow> the (map_of pl d) < e"
    "\<And>v. v < e \<Longrightarrow> \<exists>d \<in> set ds. v \<le> the (map_of pl d)"
proof -
  obtain e where e: "earliestWave pl ds = Inr e" "e \<le> n" "\<forall>d \<in> set ds. the (map_of pl d) < e"
      "e = 0 \<or> (\<exists>d \<in> set ds. e = the (map_of pl d) + 1)"
    using earliestWave_from [OF assms, of 0] unfolding earliestWave_def by auto
  have "\<exists>d \<in> set ds. v \<le> the (map_of pl d)" if "v < e" for v using e(4) that less_Suc_eq_le by force
  then show ?thesis using that e(1-3) by blast
qed

lemma firstFreeWave_spec:
  assumes "e \<le> length ws" "firstFreeWave t ws e = f"
  shows "e \<le> f \<and> f \<le> length ws \<and> (f < length ws \<longrightarrow> \<not> conflictsWithWave t (ws ! f))
     \<and> (\<forall>v. e \<le> v \<and> v < f \<longrightarrow> conflictsWithWave t (ws ! v))"
  using assms
proof (induction t ws e rule: firstFreeWave.induct)
  case (1 t ws e)
  show ?case
  proof (cases "e < length ws \<and> conflictsWithWave t (ws ! e)")
    case True
    then have "firstFreeWave t ws (e + 1) = f" using "1.prems"(2) by (simp add: firstFreeWave.simps [of t ws e])
    then have "e + 1 \<le> f \<and> f \<le> length ws \<and> (f < length ws \<longrightarrow> \<not> conflictsWithWave t (ws ! f))
       \<and> (\<forall>v. e + 1 \<le> v \<and> v < f \<longrightarrow> conflictsWithWave t (ws ! v))"
      using True by (intro "1.IH") auto
    then show ?thesis using True by (metis Suc_eq_plus1 Suc_leD le_eq_less_or_eq Suc_leI)
  next
    case False
    then have "f = e" using "1.prems"(2) by (auto simp: firstFreeWave.simps [of t ws e])
    then show ?thesis using "1.prems"(1) False by auto
  qed
qed

text \<open>The waves after \<open>t\<close> has been pushed to wave \<open>f\<close>, creating it when it is the next one.\<close>

definition pushTo :: "'a list list \<Rightarrow> nat \<Rightarrow> 'a \<Rightarrow> 'a list list" where
  "pushTo ws f t = (let ws' = (if f = length ws then ws @ [[]] else ws) in ws'[f := ws' ! f @ [t]])"

lemma length_pushTo: "f \<le> length ws \<Longrightarrow> length (pushTo ws f t) = max (length ws) (Suc f)"
  by (auto simp: pushTo_def Let_def max_def)

lemma nth_pushTo:
  "f \<le> length ws \<Longrightarrow> v < length (pushTo ws f t) \<Longrightarrow>
     pushTo ws f t ! v = (if v = f then (if f < length ws then ws ! f else []) @ [t] else ws ! v)"
  by (auto simp: pushTo_def Let_def nth_append nth_list_update)

lemma mset_pushTo: "f \<le> length ws \<Longrightarrow> mset (concat (pushTo ws f t)) = add_mset t (mset (concat ws))"
proof (induction ws arbitrary: f)
  case (Cons w ws)
  have "pushTo (w # ws) (Suc n) t = w # pushTo ws n t" for n by (simp add: pushTo_def Let_def)
  then show ?case using Cons by (cases f) (auto simp: pushTo_def)
qed (simp add: pushTo_def)

text \<open>
  The invariant after the tasks \<open>placed\<close>: the waves hold exactly these tasks, none is empty, the
  placement map is accurate, dependencies are in strictly earlier waves, a wave is free of conflicts,
  and every wave a task skipped was excluded by a dependency or a conflict.
\<close>

definition layoutInv :: "normalized_task list \<Rightarrow> normalized_task list list \<Rightarrow> (string, nat) jmap \<Rightarrow> bool" where
  "layoutInv placed ws pl \<longleftrightarrow>
     mset (concat ws) = mset placed \<and> [] \<notin> set ws
     \<and> (\<forall>t \<in> set placed. \<exists>w < length ws. map_of pl (nid t) = Some w \<and> t \<in> set (ws ! w))
     \<and> (\<forall>w < length ws. \<forall>a \<in> set (ws ! w). \<forall>d \<in> set (ndeps a). \<exists>v < w. d \<in> nid ` set (ws ! v))
     \<and> (\<forall>w < length ws. sorted_wrt (\<lambda>a b. \<not> tasksConflict b a) (ws ! w))
     \<and> (\<forall>w < length ws. \<forall>a \<in> set (ws ! w). \<forall>v < w. conflictsWithWave a (ws ! v)
          \<or> (\<exists>d \<in> set (ndeps a). \<exists>u < length ws. v \<le> u \<and> d \<in> nid ` set (ws ! u)))"

lemma layoutInv_place:
  assumes inv: "layoutInv placed ws pl" and fresh: "nid t \<notin> nid ` set placed"
    and deps: "set (ndeps t) \<subseteq> nid ` set placed"
  shows "\<exists>ws' pl'. placeTask (ws, pl) t = Inr (ws', pl') \<and> layoutInv (placed @ [t]) ws' pl'"
proof -
  have placed: "\<exists>w. map_of pl d = Some w \<and> w < length ws \<and> d \<in> nid ` set (ws ! w)" if "d \<in> set (ndeps t)" for d
    using inv deps that by (fastforce simp: layoutInv_def)
  then obtain e where e: "earliestWave pl (ndeps t) = Inr e" "e \<le> length ws"
      "\<And>d. d \<in> set (ndeps t) \<Longrightarrow> the (map_of pl d) < e"
      "\<And>v. v < e \<Longrightarrow> \<exists>d \<in> set (ndeps t). v \<le> the (map_of pl d)"
    using earliestWave_placed [of "ndeps t" pl "length ws"] by blast
  define f where "f = firstFreeWave t ws e"
  have f: "e \<le> f" "f \<le> length ws" "f < length ws \<Longrightarrow> \<not> conflictsWithWave t (ws ! f)"
      "\<And>v. e \<le> v \<Longrightarrow> v < f \<Longrightarrow> conflictsWithWave t (ws ! v)"
    using firstFreeWave_spec [OF e(2) f_def [symmetric]] by auto
  let ?ws = "pushTo ws f t" and ?pl = "jm_set (nid t) f pl"
  have "placeTask (ws, pl) t = Inr (?ws, ?pl)"
    using e(1) f(2) by (auto simp: placeTask_def pushTo_def Let_def simp flip: f_def)
  moreover have "layoutInv (placed @ [t]) ?ws ?pl"
  proof -
    have len: "length ?ws = max (length ws) (Suc f)" using f(2) by (rule length_pushTo)
    note nth = nth_pushTo [OF f(2)]
    have keep: "v < length ?ws \<and> set (ws ! v) \<subseteq> set (?ws ! v)" if "v < length ws" for v
      using that f(2) len nth [of v] by auto
    have old: "a \<in> set (ws ! w) \<and> w < length ws \<or> a = t \<and> w = f" if "w < length ?ws" "a \<in> set (?ws ! w)" for a w
      using that nth [of w] len f(2) by (auto split: if_splits)
    have at_f: "t \<in> set (?ws ! f)" using nth [of f] len by simp
    have "mset (concat ?ws) = mset (placed @ [t])" using inv mset_pushTo [OF f(2)] by (simp add: layoutInv_def)
    moreover have "[] \<notin> set ?ws"
    proof
      assume "[] \<in> set ?ws"
      then obtain w where w: "w < length ?ws" "?ws ! w = []" by (auto simp: in_set_conv_nth)
      then have "w < length ws \<and> ws ! w = []" using nth [of w] len f(2) by (auto split: if_splits)
      then show False using inv nth_mem [of w ws] by (auto simp: layoutInv_def)
    qed
    moreover have "\<exists>w < length ?ws. map_of ?pl (nid u) = Some w \<and> u \<in> set (?ws ! w)"
      if "u \<in> set (placed @ [t])" for u
    proof (cases "u = t")
      case True
      then show ?thesis using at_f len by auto
    next
      case False
      then have "u \<in> set placed" using that by simp
      moreover from this have "nid u \<noteq> nid t" using fresh by (metis image_eqI)
      ultimately show ?thesis using inv keep by (fastforce simp: layoutInv_def)
    qed
    moreover have "\<exists>v < w. d \<in> nid ` set (?ws ! v)"
      if w: "w < length ?ws" "a \<in> set (?ws ! w)" and d: "d \<in> set (ndeps a)" for w a d
    proof -
      from old [OF w] consider "a \<in> set (ws ! w)" "w < length ws" | "a = t" "w = f" by blast
      then have "\<exists>v < w. v < length ws \<and> d \<in> nid ` set (ws ! v)"
      proof cases
        case 1
        then obtain v where "v < w" "d \<in> nid ` set (ws ! v)" using inv d unfolding layoutInv_def by blast
        then show ?thesis using 1 by auto
      next
        case 2
        then show ?thesis using placed [of d] e(3) [of d] d f(1) by force
      qed
      then show ?thesis using keep by (meson image_mono subsetD)
    qed
    moreover have "sorted_wrt (\<lambda>a b. \<not> tasksConflict b a) (?ws ! w)" if "w < length ?ws" for w
      using that inv f(2,3) nth [of w] len
      by (auto simp: layoutInv_def sorted_wrt_append conflictsWithWave_iff split: if_splits)
    moreover have "conflictsWithWave a (?ws ! v)
          \<or> (\<exists>d \<in> set (ndeps a). \<exists>u < length ?ws. v \<le> u \<and> d \<in> nid ` set (?ws ! u))"
      if w: "w < length ?ws" "a \<in> set (?ws ! w)" and v: "v < w" for w a v
    proof -
      from old [OF w] consider "a \<in> set (ws ! w)" "w < length ws" | "a = t" "w = f" by blast
      then have "v < length ws \<and> (conflictsWithWave a (ws ! v)
          \<or> (\<exists>d \<in> set (ndeps a). \<exists>u < length ws. v \<le> u \<and> d \<in> nid ` set (ws ! u)))"
      proof cases
        case 1
        then show ?thesis using inv v by (simp add: layoutInv_def)
      next
        case 2
        show ?thesis
        proof (cases "v < e")
          case True
          then obtain d where "d \<in> set (ndeps t)" "v \<le> the (map_of pl d)" using e(4) by blast
          then show ?thesis using placed [of d] 2 v f(2) by force
        next
          case False
          then show ?thesis using f(2,4) 2 v by auto
        qed
      qed
      then show ?thesis using keep unfolding conflictsWithWave_iff by (meson image_mono subsetD)
    qed
    ultimately show ?thesis unfolding layoutInv_def by blast
  qed
  ultimately show ?thesis by blast
qed

lemma layoutInv_place_all:
  assumes "layoutInv placed ws pl" "dependencyOrdered (placed @ order)" "distinct (map nid (placed @ order))"
  shows "\<exists>ws' pl'. foldR placeTask (ws, pl) order = Inr (ws', pl') \<and> layoutInv (placed @ order) ws' pl'"
  using assms
proof (induction order arbitrary: placed ws pl)
  case (Cons t order)
  have deps: "set (ndeps t) \<subseteq> nid ` set placed"
    using Cons.prems(2) [unfolded dependencyOrdered_def, rule_format, of "length placed"] by simp
  have fresh: "nid t \<notin> nid ` set placed" using Cons.prems(3) by auto
  obtain ws1 pl1 where step: "placeTask (ws, pl) t = Inr (ws1, pl1)" "layoutInv (placed @ [t]) ws1 pl1"
    using layoutInv_place [OF Cons.prems(1) fresh deps] by blast
  then show ?case using Cons.IH [OF step(2)] Cons.prems(2,3) by simp
qed auto

section \<open>The compiled waves\<close>

text \<open>Compilation succeeds exactly when the order exists, and the waves satisfy the invariant.\<close>

lemma layout_of_order:
  assumes "normalizeTasks H specs = Inr tasks" "stableTopologicalOrder tasks = Inr order"
  shows "\<exists>ws pl. foldR placeTask ([], []) order = Inr (ws, pl) \<and> layoutInv order ws pl"
proof -
  note n = normalizeTasks_Inr [OF assms(1)] normalizeTasks_set [OF assms(1)]
  have stable: "stableOrder tasks order" using stableTopologicalOrder_stable [OF n(3) n(8) assms(2)] .
  then have "distinct (map nid order)" using n(6) by (auto simp: stableOrder_def distinct_map)
  then show ?thesis
    using layoutInv_place_all [of "[]" "[]" "[]" order] stable by (auto simp: layoutInv_def stableOrder_def)
qed

lemma compileParallelWaves_Inr:
  assumes "compileParallelWaves H specs = Inr waves"
  obtains tasks order ws pl where "normalizeTasks H specs = Inr tasks" "stableTopologicalOrder tasks = Inr order"
    "stableOrder tasks order" "layoutInv order ws pl"
    "length waves = length ws" "\<And>i. i < length ws \<Longrightarrow> waves ! i = \<lparr>wave_index = i, wave_task_ids = map nid (ws ! i)\<rparr>"
proof -
  from assms obtain tasks order ws pl where n: "normalizeTasks H specs = Inr tasks"
    and o: "stableTopologicalOrder tasks = Inr order" and f: "foldR placeTask ([], []) order = Inr (ws, pl)"
    and w: "waves = map (\<lambda>(i, members). \<lparr>wave_index = i, wave_task_ids = map nid members\<rparr>) (enumerate 0 ws)"
    by (auto simp: compileParallelWaves_def rbind_Inr_iff)
  show ?thesis
  proof (rule that [OF n o])
    show "stableOrder tasks order"
      using stableTopologicalOrder_stable [OF normalizeTasks_Inr(3) [OF n] normalizeTasks_set(4) [OF n] o] .
    show "layoutInv order ws pl" using layout_of_order [OF n o] f by auto
    show "length waves = length ws" using w by simp
    show "waves ! i = \<lparr>wave_index = i, wave_task_ids = map nid (ws ! i)\<rparr>" if "i < length ws" for i
      using w that by (simp add: nth_enumerate_eq)
  qed
qed

lemma concat_wave_ids:
  assumes "length waves = length ws"
    "\<And>i. i < length ws \<Longrightarrow> waves ! i = \<lparr>wave_index = i, wave_task_ids = map nid (ws ! i)\<rparr>"
  shows "map wave_task_ids waves = map (map nid) ws" "map wave_index waves = [0..<length ws]"
  using assms by (auto intro!: nth_equalityI)

text \<open>The claims of two task specifications collide, after normalisation.\<close>

definition specsConflict :: "host \<Rightarrow> task_specification \<Rightarrow> task_specification \<Rightarrow> bool" where
  "specsConflict H a b = (case (normalizeTask H 0 a, normalizeTask H 0 b) of
     (Inr x, Inr y) \<Rightarrow> tasksConflict x y | _ \<Rightarrow> True)"

lemma normalizeTask_position:
  "normalizeTask H q s = Inr n \<Longrightarrow> normalizeTask H 0 s = Inr (n\<lparr>n_position := 0\<rparr>)"
  by (auto simp: normalizeTask_def rbind_Inr_iff)

lemma specsConflict_normalized:
  assumes "normalizeTasks H specs = Inr tasks" "x \<in> set tasks" "y \<in> set tasks"
  shows "specsConflict H (n_task x) (n_task y) = tasksConflict x y"
proof -
  obtain q r where "normalizeTask H q (n_task x) = Inr x" "normalizeTask H r (n_task y) = Inr y"
    using normalizeTasks_Inr(4) [OF assms(1,2)] normalizeTasks_Inr(4) [OF assms(1,3)] by blast
  from this [THEN normalizeTask_position] show ?thesis
    by (simp add: specsConflict_def tasksConflict_def)
qed

lemma spec_normalized:
  assumes "normalizeTasks H specs = Inr tasks" "s \<in> set specs"
  obtains t where "t \<in> set tasks" "n_task t = s"
  using normalizeTasks_Inr(1) [OF assms(1)] assms(2) by auto

lemma stableOrder_mset: "stableOrder tasks order \<Longrightarrow> distinct tasks \<Longrightarrow> mset order = mset tasks"
  by (metis set_eq_iff_mset_eq_distinct stableOrder_def)

text \<open>A task id is in a wave exactly when its task is.\<close>

lemma layout_members:
  assumes st: "stableOrder tasks order" and inv: "layoutInv order ws pl" and w: "w < length ws"
  shows "set (ws ! w) \<subseteq> set tasks"
proof -
  have "set (ws ! w) \<subseteq> set (concat ws)" using nth_mem [OF w] by auto
  also have "\<dots> = set order" using inv unfolding layoutInv_def by (metis set_mset_mset)
  also have "\<dots> = set tasks" using st by (simp add: stableOrder_def)
  finally show ?thesis .
qed

lemma wave_member:
  assumes n: "normalizeTasks H specs = Inr tasks" and st: "stableOrder tasks order"
    and inv: "layoutInv order ws pl" and t: "t \<in> set tasks" and w: "w < length ws"
  shows "nid t \<in> set (map nid (ws ! w)) \<longleftrightarrow> t \<in> set (ws ! w)"
  using layout_members [OF st inv w] t normalizeTasks_set(2) [OF n] by (auto dest: inj_onD)

lemma sorted_wrt_pair:
  assumes "x \<in> set xs" "y \<in> set xs" "x \<noteq> y" "sorted_wrt P xs" "\<And>a b. P a b = P b a"
  shows "P y x"
  using assms(1-4)
proof (induction xs)
  case (Cons a xs)
  then show ?case using assms(5) by (metis set_ConsD sorted_wrt.simps(2))
qed simp

text \<open>
  C14. The waves of a plan partition it: wave \<open>i\<close> has index \<open>i\<close>, no wave is empty, every task id of
  the plan appears exactly once, and a task's dependencies are all in strictly earlier waves.
\<close>
theorem compileParallelWaves_partition:
  assumes "compileParallelWaves H specs = Inr waves"
  shows "map wave_index waves = [0..<length waves]
     \<and> mset (concat (map wave_task_ids waves)) = mset (map ts_id specs)
     \<and> distinct (concat (map wave_task_ids waves))
     \<and> [] \<notin> set (map wave_task_ids waves)
     \<and> (\<forall>s \<in> set specs. \<forall>w < length waves. ts_id s \<in> set (wave_task_ids (waves ! w)) \<longrightarrow>
          (\<forall>d \<in> set (ts_dependencies s). \<exists>v < w. d \<in> set (wave_task_ids (waves ! v))))"
proof -
  from assms obtain tasks order ws pl where n: "normalizeTasks H specs = Inr tasks"
    and st: "stableOrder tasks order" and inv: "layoutInv order ws pl" and len: "length waves = length ws"
    and nth: "\<And>i. i < length ws \<Longrightarrow> waves ! i = \<lparr>wave_index = i, wave_task_ids = map nid (ws ! i)\<rparr>"
    by (rule compileParallelWaves_Inr) blast
  note ids = concat_wave_ids [OF len nth]
  have "mset (concat ws) = mset tasks"
    using inv stableOrder_mset [OF st normalizeTasks_set(1) [OF n]] by (simp add: layoutInv_def)
  then have "image_mset nid (mset (concat ws)) = image_mset nid (mset tasks)" by simp
  moreover have specs: "map nid tasks = map ts_id specs" using normalizeTasks_Inr(1) [OF n] by auto
  ultimately have m: "mset (concat (map (map nid) ws)) = mset (map ts_id specs)"
    by (simp flip: map_concat specs)
  then have d: "distinct (concat (map (map nid) ws))"
    using normalizeTasks_Inr(3) [OF n] specs by (metis mset_eq_imp_distinct_iff)
  have deps: "\<exists>v < w. d \<in> set (wave_task_ids (waves ! v))"
    if s: "s \<in> set specs" and w: "w < length waves" "ts_id s \<in> set (wave_task_ids (waves ! w))"
      and d: "d \<in> set (ts_dependencies s)" for s w d
  proof -
    obtain t where t: "t \<in> set tasks" "n_task t = s" using spec_normalized [OF n s] .
    then have "t \<in> set (ws ! w)" using w len nth wave_member [OF n st inv t(1), of w] by simp
    then obtain v where "v < w" "d \<in> nid ` set (ws ! v)"
      using inv w len t d unfolding layoutInv_def by metis
    then show ?thesis using w len nth by auto
  qed
  show ?thesis using ids len m d deps inv by (auto simp: layoutInv_def)
qed

lemma wave_pairwise:
  assumes "compileParallelWaves H specs = Inr waves" "w < length waves"
  obtains tasks members where "normalizeTasks H specs = Inr tasks"
    "\<forall>t \<in> set tasks. nid t \<in> set (wave_task_ids (waves ! w)) \<longleftrightarrow> t \<in> set members"
    "\<forall>x \<in> set members. \<forall>y \<in> set members. x \<noteq> y \<longrightarrow> \<not> tasksConflict x y"
proof -
  from assms(1) obtain tasks order ws pl where n: "normalizeTasks H specs = Inr tasks"
    and st: "stableOrder tasks order" and inv: "layoutInv order ws pl" and len: "length waves = length ws"
    and nth: "\<And>i. i < length ws \<Longrightarrow> waves ! i = \<lparr>wave_index = i, wave_task_ids = map nid (ws ! i)\<rparr>"
    by (rule compileParallelWaves_Inr) blast
  have w: "w < length ws" using assms(2) len by simp
  then have free: "sorted_wrt (\<lambda>a b. \<not> tasksConflict b a) (ws ! w)" using inv by (simp add: layoutInv_def)
  show thesis
  proof (rule that [OF n, of "ws ! w"])
    show "\<forall>t \<in> set tasks. nid t \<in> set (wave_task_ids (waves ! w)) \<longleftrightarrow> t \<in> set (ws ! w)"
      using wave_member [OF n st inv _ w] nth [OF w] by simp
    have "\<not> tasksConflict x y" if "x \<in> set (ws ! w)" "y \<in> set (ws ! w)" "x \<noteq> y" for x y
      using that free by (rule sorted_wrt_pair) (simp add: tasksConflict_sym)
    then show "\<forall>x \<in> set (ws ! w). \<forall>y \<in> set (ws ! w). x \<noteq> y \<longrightarrow> \<not> tasksConflict x y" by blast
  qed
qed

text \<open>
  C1. Tasks that share a wave can run side by side: two different tasks of the plan in the same wave
  have no overlapping write paths and no exclusive resource in common.
\<close>
theorem compileParallelWaves_conflict_free:
  assumes "compileParallelWaves H specs = Inr waves"
    and "a \<in> set specs" "b \<in> set specs" "a \<noteq> b" "w < length waves"
    and "ts_id a \<in> set (wave_task_ids (waves ! w))" "ts_id b \<in> set (wave_task_ids (waves ! w))"
  shows "\<not> specsConflict H a b"
proof -
  obtain tasks members where n: "normalizeTasks H specs = Inr tasks"
    and mem: "\<forall>t \<in> set tasks. nid t \<in> set (wave_task_ids (waves ! w)) \<longleftrightarrow> t \<in> set members"
    and free: "\<forall>x \<in> set members. \<forall>y \<in> set members. x \<noteq> y \<longrightarrow> \<not> tasksConflict x y"
    by (rule wave_pairwise [OF assms(1,5)])
  obtain x y where x: "x \<in> set tasks" "n_task x = a" and y: "y \<in> set tasks" "n_task y = b"
    using spec_normalized [OF n] assms(2,3) by metis
  then have "x \<in> set members" "y \<in> set members" "x \<noteq> y" using assms(4,6,7) mem by auto
  then have "\<not> tasksConflict x y" using free by blast
  then show ?thesis using specsConflict_normalized [OF n x(1) y(1)] x y by simp
qed

text \<open>
  The layout is as early as the rules allow: for every wave before the one a task is in, either
  the task conflicts with a task of that wave or one of its dependencies is in that wave or later.
\<close>
theorem compileParallelWaves_earliest:
  assumes "compileParallelWaves H specs = Inr waves"
    and "a \<in> set specs" "w < length waves" "ts_id a \<in> set (wave_task_ids (waves ! w))" "v < w"
  shows "(\<exists>b \<in> set specs. ts_id b \<in> set (wave_task_ids (waves ! v)) \<and> specsConflict H a b)
     \<or> (\<exists>d \<in> set (ts_dependencies a). \<exists>u < length waves. v \<le> u \<and> d \<in> set (wave_task_ids (waves ! u)))"
proof -
  from assms(1) obtain tasks order ws pl where n: "normalizeTasks H specs = Inr tasks"
    and st: "stableOrder tasks order" and inv: "layoutInv order ws pl" and len: "length waves = length ws"
    and nth: "\<And>i. i < length ws \<Longrightarrow> waves ! i = \<lparr>wave_index = i, wave_task_ids = map nid (ws ! i)\<rparr>"
    by (rule compileParallelWaves_Inr) blast
  obtain x where x: "x \<in> set tasks" "n_task x = a" using spec_normalized [OF n] assms(2) by metis
  then have "x \<in> set (ws ! w)" using assms(3,4) len nth wave_member [OF n st inv x(1), of w] by auto
  then have "conflictsWithWave x (ws ! v)
      \<or> (\<exists>d \<in> set (ndeps x). \<exists>u < length ws. v \<le> u \<and> d \<in> nid ` set (ws ! u))"
    using inv assms(3,5) len unfolding layoutInv_def by metis
  then show ?thesis
  proof
    assume "conflictsWithWave x (ws ! v)"
    then obtain y where y: "y \<in> set (ws ! v)" "tasksConflict x y" by (auto simp: conflictsWithWave_iff)
    have v: "v < length ws" using assms(3,5) len by simp
    have yt: "y \<in> set tasks" using layout_members [OF st inv v] y(1) by blast
    then have "n_task y \<in> set specs" using normalizeTasks_Inr(1) [OF n] by auto
    moreover have "specsConflict H a (n_task y)" using specsConflict_normalized [OF n x(1) yt] x(2) y(2) by simp
    ultimately show ?thesis using y(1) nth [OF v] by auto
  next
    assume "\<exists>d \<in> set (ndeps x). \<exists>u < length ws. v \<le> u \<and> d \<in> nid ` set (ws ! u)"
    then obtain d u where "d \<in> set (ndeps x)" "u < length ws" "v \<le> u" "d \<in> nid ` set (ws ! u)" by blast
    then have "d \<in> set (ts_dependencies a) \<and> u < length waves \<and> v \<le> u \<and> d \<in> set (wave_task_ids (waves ! u))"
      using x(2) len nth by simp
    then show ?thesis by blast
  qed
qed

text \<open>What a plan must satisfy, on the specifications themselves.\<close>

definition claimsValid :: "host \<Rightarrow> task_specification \<Rightarrow> bool" where
  "claimsValid H t \<longleftrightarrow> (\<exists>d ps ks. tb_duration_ms (ts_budget t) = Some d \<and> isInteger d \<and> 1 \<le> d
     \<and> ts_write_paths t = Some ps \<and> (\<forall>p \<in> set ps. normalizeTaskWritePath H p = Inr p)
     \<and> ts_exclusive_resources t = Some ks \<and> (\<forall>k \<in> set ks. h_nfc H k = k \<and> resourceKeyPattern k))"

definition specEdges :: "task_specification list \<Rightarrow> (string \<times> string) set" where
  "specEdges specs = {(d, ts_id t) | d t. t \<in> set specs \<and> d \<in> set (ts_dependencies t)}"

definition specDependenciesKnown :: "task_specification list \<Rightarrow> bool" where
  "specDependenciesKnown specs \<longleftrightarrow> (\<forall>t \<in> set specs. set (ts_dependencies t) \<subseteq> ts_id ` set specs)"

lemma claimsValid_iff: "claimsValid H t \<longleftrightarrow> (\<exists>n. normalizeTask H q t = Inr n)"
proof
  assume "claimsValid H t"
  then obtain d ps ks where c: "tb_duration_ms (ts_budget t) = Some d" "isInteger d" "1 \<le> d" "ts_write_paths t = Some ps"
    "\<forall>p \<in> set ps. normalizeTaskWritePath H p = Inr p" "ts_exclusive_resources t = Some ks" "\<forall>k \<in> set ks. h_nfc H k = k \<and> resourceKeyPattern k"
    by (auto simp: claimsValid_def)
  have "mapR (normalizeTaskWritePath H) ps = Inr (map id ps)" by (rule mapR_total) (use c(5) in simp)
  moreover have "mapR (normalizeExclusiveResourceKey H) ks = Inr (map id ks)"
    by (rule mapR_total) (use c(7) in \<open>simp add: normalizeExclusiveResourceKey_Inr\<close>)
  ultimately show "\<exists>n. normalizeTask H q t = Inr n" using c by (simp add: normalizeTask_def assertProtocol13TaskSpecification_def)
next
  assume "\<exists>n. normalizeTask H q t = Inr n"
  then obtain ps ks paths keys where c: "assertProtocol13TaskSpecification t = Inr ()" "ts_write_paths t = Some ps" "ts_exclusive_resources t = Some ks"
    "mapR (normalizeTaskWritePath H) ps = Inr paths" "mapR (normalizeExclusiveResourceKey H) ks = Inr keys"
    by (auto simp: normalizeTask_def rbind_Inr_iff assertProtocol13TaskSpecification_def split: if_splits option.splits)
  have "\<forall>p \<in> set ps. normalizeTaskWritePath H p = Inr p" using mapR_Inr_set [OF c(4)] normalizeTaskWritePath_same by metis
  moreover have "\<forall>k \<in> set ks. h_nfc H k = k \<and> resourceKeyPattern k"
    using mapR_Inr_set [OF c(5)] by (auto simp: normalizeExclusiveResourceKey_Inr)
  ultimately show "claimsValid H t" using c(1-3)
    by (auto simp: claimsValid_def assertProtocol13TaskSpecification_def split: if_splits option.splits)
qed

lemma normalizeTasksFrom_Inl:
  assumes "normalizeTasksFrom H ids q specs = Inl e"
  shows "\<exists>before task behind. specs = before @ task # behind \<and> distinct (map ts_id before) \<and> set ids \<inter> ts_id ` set before = {}
     \<and> (\<forall>t \<in> set before. claimsValid H t)
     \<and> (ts_id task \<in> set ids \<union> ts_id ` set before \<and> e = PlanningError invalid_specification
        \<or> ts_id task \<notin> set ids \<union> ts_id ` set before \<and> \<not> claimsValid H task \<and> normalizeTask H (q + length before) task = Inl e)"
  using assms
proof (induction specs arbitrary: ids q)
  case (Cons spec specs)
  show ?case
  proof (cases "ts_id spec \<in> set ids \<or> (\<exists>e. normalizeTask H q spec = Inl e)")
    case True
    then show ?thesis using Cons.prems claimsValid_iff [of H spec q]
      by (intro exI [of _ "[]"] exI [of _ spec] exI [of _ specs]) (auto split: if_splits)
  next
    case False
    then obtain n where n: "normalizeTask H q spec = Inr n" by (cases "normalizeTask H q spec") auto
    then have rest: "normalizeTasksFrom H (ids @ [ts_id spec]) (Suc q) specs = Inl e" using Cons.prems False by (auto simp: rbind_Inl_iff)
    obtain before task behind where b: "specs = before @ task # behind" "distinct (map ts_id before)" "set (ids @ [ts_id spec]) \<inter> ts_id ` set before = {}"
      "\<forall>t \<in> set before. claimsValid H t"
      "ts_id task \<in> set (ids @ [ts_id spec]) \<union> ts_id ` set before \<and> e = PlanningError invalid_specification
        \<or> ts_id task \<notin> set (ids @ [ts_id spec]) \<union> ts_id ` set before \<and> \<not> claimsValid H task \<and> normalizeTask H (Suc q + length before) task = Inl e"
      using Cons.IH [OF rest] by blast
    have "claimsValid H spec" using n claimsValid_iff by blast
    then show ?thesis using b False by (intro exI [of _ "spec # before"] exI [of _ task] exI [of _ behind]) auto
  qed
qed simp

lemma normalized_plan:
  assumes "normalizeTasks H specs = Inr tasks"
  shows "distinct (map ts_id specs)" "\<forall>t \<in> set specs. claimsValid H t"
    "dependencyEdges tasks = specEdges specs" "dependenciesKnown tasks \<longleftrightarrow> specDependenciesKnown specs"
proof -
  note n = normalizeTasks_Inr [OF assms]
  have set: "set specs = n_task ` set tasks" using n(1) by (metis list.set_map)
  have "map nid tasks = map ts_id specs" using n(1) by auto
  then show "distinct (map ts_id specs)" using n(3) by simp
  show "\<forall>t \<in> set specs. claimsValid H t" using n(4) claimsValid_iff unfolding set by blast
  show "dependencyEdges tasks = specEdges specs" unfolding dependencyEdges_def specEdges_def set by blast
  show "dependenciesKnown tasks \<longleftrightarrow> specDependenciesKnown specs" unfolding dependenciesKnown_def specDependenciesKnown_def set
    by (simp add: image_image)
qed

text \<open>
  C15. The outcome of compilation, for every plan. Waves come out only when the task ids are distinct, the claims of
  every task are valid (a duration, canonical write paths, well-formed resource keys), every dependency names
  a task and the dependencies are acyclic. An error is, in this order: that of the first task that repeats an earlier id
  (\<open>invalid_specification\<close>) or whose claims are invalid (the error of that check), \<open>invalid_specification\<close> for an unknown
  dependency, \<open>dependency_cycle\<close> for a cycle. So each of the four causes makes the compiler fail, and nothing
  else does.
\<close>
theorem compileParallelWaves_outcome:
  "case compileParallelWaves H specs of
      Inr waves \<Rightarrow> distinct (map ts_id specs) \<and> (\<forall>t \<in> set specs. claimsValid H t) \<and> specDependenciesKnown specs \<and> acyclic (specEdges specs)
    | Inl e \<Rightarrow>
        (\<exists>before task behind. specs = before @ task # behind \<and> distinct (map ts_id before) \<and> (\<forall>t \<in> set before. claimsValid H t)
           \<and> (ts_id task \<in> ts_id ` set before \<and> e = PlanningError invalid_specification
              \<or> ts_id task \<notin> ts_id ` set before \<and> \<not> claimsValid H task \<and> normalizeTask H (length before) task = Inl e))
        \<or> distinct (map ts_id specs) \<and> (\<forall>t \<in> set specs. claimsValid H t) \<and> \<not> specDependenciesKnown specs \<and> e = PlanningError invalid_specification
        \<or> distinct (map ts_id specs) \<and> (\<forall>t \<in> set specs. claimsValid H t) \<and> specDependenciesKnown specs \<and> \<not> acyclic (specEdges specs)
          \<and> e = PlanningError dependency_cycle"
proof (cases "normalizeTasks H specs")
  case (Inl e)
  then show ?thesis using normalizeTasksFrom_Inl [of H "[]" 0 specs e] by (simp add: compileParallelWaves_def normalizeTasks_def)
next
  case norm: (Inr tasks)
  note plan = normalized_plan [OF norm]
  show ?thesis
  proof (cases "stableTopologicalOrder tasks")
    case (Inl e)
    then show ?thesis
      using stableTopologicalOrder_error [OF normalizeTasks_Inr(3) [OF norm] normalizeTasks_set(4) [OF norm] Inl] plan
      by (auto simp: compileParallelWaves_def norm)
  next
    case (Inr order)
    then show ?thesis
      using layout_of_order [OF norm Inr] topologicalOrder_exists [OF norm Inr] plan by (auto simp: compileParallelWaves_def norm)
  qed
qed

section \<open>The drift guard\<close>

definition waveContent :: "host \<Rightarrow> parallel_wave list \<Rightarrow> (nat \<times> string list) list" where
  "waveContent H ws = map (\<lambda>w. (wave_index w, map (h_nfc H) (wave_task_ids w))) ws"

lemma wave_keys:
  assumes "nfcAscii H"
  shows "h_nfc H ''wave_index'' = ''wave_index''" "h_nfc H ''task_ids'' = ''task_ids''"
  using assms by (simp_all add: nfcAscii_def)

lemma sort_wave_entries:
  "sortEntriesByKey [(''wave_index'', a), (''task_ids'', b)] = [(''task_ids'', b), (''wave_index'', a)]"
  by (simp add: sortEntriesByKey_def codeUnitCompare_def less_char_def)

lemma canonical_jsonOfWaves:
  assumes "nfcAscii H"
  shows "canonical H (jsonOfWaves ws) = JArr (map (\<lambda>(i, ids). JObj [(''task_ids'', JArr (map JStr ids)),
     (''wave_index'', JNum (of_nat i))]) (waveContent H ws))"
  by (simp add: jsonOfWaves_def waveContent_def wave_keys [OF assms] sort_wave_entries)

lemma canonicalizeJson_waves:
  assumes "nfcAscii H"
  shows "canonicalizeJson H (jsonOfWaves ws) = Inr (render H (canonical H (jsonOfWaves ws)))"
proof -
  have strs: "mapR (writeValue H) (map JStr ids) = Inr (map (\<lambda>s. stringify (h_nfc H s)) ids)" for ids
    by (induction ids) simp_all
  have "\<exists>s. writeValue H (JObj [(''wave_index'', JNum n), (''task_ids'', JArr (map JStr ids))]) = Inr s" for n ids
    by (simp add: wave_keys [OF assms] sort_wave_entries strs)
  then have "\<forall>v \<in> set (map (\<lambda>w. JObj [(''wave_index'', JNum (of_nat (wave_index w))),
      (''task_ids'', JArr (map JStr (wave_task_ids w)))]) ws). \<exists>s. writeValue H v = Inr s"
    by simp
  then obtain ys where "mapR (writeValue H) (map (\<lambda>w. JObj [(''wave_index'', JNum (of_nat (wave_index w))),
      (''task_ids'', JArr (map JStr (wave_task_ids w)))]) ws) = Inr ys"
    unfolding mapR_exists [symmetric] by blast
  then obtain s where "writeValue H (jsonOfWaves ws) = Inr s"
    unfolding jsonOfWaves_def writeValue.simps by simp
  then show ?thesis using writeValue_render [of H "jsonOfWaves ws" s] by (simp add: canonicalizeJson_def)
qed

text \<open>
  The stored waves are accepted exactly when they are the waves a fresh compilation gives (task
  ids compared after Unicode normalisation); every other stored projection is rejected as drift.
\<close>
theorem assertParallelWaves_exact:
  assumes "numberText H" "nfcAscii H" "compileParallelWaves H specs = Inr waves"
  shows "assertParallelWaves H specs persisted =
     (if waveContent H persisted = waveContent H waves then Inr () else Inl (PlanningError wave_drift))"
proof -
  have "render H (canonical H (jsonOfWaves waves)) = render H (canonical H (jsonOfWaves persisted))
      \<longleftrightarrow> canonical H (jsonOfWaves waves) = canonical H (jsonOfWaves persisted)"
    using render_decode [OF assms(1), of "[]" "[]"] by auto
  also have "\<dots> \<longleftrightarrow> waveContent H waves = waveContent H persisted"
    unfolding canonical_jsonOfWaves [OF assms(2)]
    by (auto dest!: map_injective intro!: injI inj_mapI)
  finally show ?thesis
    by (auto simp: assertParallelWaves_def assms(3) canonicalizeJson_waves [OF assms(2)])
qed

section \<open>The example plan\<close>

lemma examplePlan_parts:
  "examplePlan ! 0 \<in> set examplePlan" "examplePlan ! 1 \<in> set examplePlan" "examplePlan ! 2 \<in> set examplePlan"
  "examplePlan ! 0 \<noteq> examplePlan ! 2" "1 < length exampleWaves"
  "ts_id (examplePlan ! 0) \<in> set (wave_task_ids (exampleWaves ! 1))"
  "ts_id (examplePlan ! 2) \<in> set (wave_task_ids (exampleWaves ! 1))"
  by (simp_all add: examplePlan_def exampleWaves_def exampleTask_def)

theorem compileParallelWaves_partition_witness:
  "compileParallelWaves exampleHost examplePlan = Inr exampleWaves
   \<and> mset (concat (map wave_task_ids exampleWaves)) = mset (map ts_id examplePlan)"
  using compileParallelWaves_partition [OF compile_examplePlan] compile_examplePlan by blast

theorem compileParallelWaves_conflict_free_witness:
  "\<not> specsConflict exampleHost (examplePlan ! 0) (examplePlan ! 2)"
  by (rule compileParallelWaves_conflict_free [OF compile_examplePlan]) (rule examplePlan_parts)+

theorem compileParallelWaves_earliest_witness:
  "(\<exists>b \<in> set examplePlan. ts_id b \<in> set (wave_task_ids (exampleWaves ! 0)) \<and> specsConflict exampleHost (examplePlan ! 2) b)
   \<or> (\<exists>d \<in> set (ts_dependencies (examplePlan ! 2)). \<exists>u < length exampleWaves. 0 \<le> u
        \<and> d \<in> set (wave_task_ids (exampleWaves ! u)))"
  by (rule compileParallelWaves_earliest [OF compile_examplePlan examplePlan_parts(3,5,7)]) simp

theorem compileParallelWaves_outcome_witness:
  "compileParallelWaves exampleHost examplePlan = Inr exampleWaves \<and> acyclic (specEdges examplePlan)
   \<and> (\<exists>e. compileParallelWaves exampleHost (examplePlan @ examplePlan) = Inl e)"
proof -
  have "\<not> distinct (map ts_id (examplePlan @ examplePlan))" by (simp add: examplePlan_def)
  then show ?thesis
    using compileParallelWaves_outcome [where H = exampleHost and specs = examplePlan] compileParallelWaves_outcome [where H = exampleHost and specs = "examplePlan @ examplePlan"]
    by (cases "compileParallelWaves exampleHost (examplePlan @ examplePlan)") (simp_all add: compile_examplePlan)
qed

theorem assertParallelWaves_exact_witness:
  "assertParallelWaves exampleHost examplePlan exampleWaves = Inr ()
   \<and> assertParallelWaves exampleHost examplePlan [] = Inl (PlanningError wave_drift)"
proof -
  have "nfcAscii exampleHost" by (simp add: nfcAscii_def)
  from assertParallelWaves_exact [OF numberText_exampleHost this compile_examplePlan]
  show ?thesis by (simp add: waveContent_def exampleWaves_def)
qed

end
