(* ===== verification/Resource_Locks.thy ===== *)
theory Resource_Locks
  imports Wave_Layout
begin

text \<open>
  The resource lock table (\<^verbatim>\<open>runtime/src/scheduling/resource-locks.ts\<close>): lock keys of a claim,
  conflicts between keys, all-or-nothing acquisition and release under a fencing token. The lemmas:
  tables reached by acquiring and releasing keep tasks mutually exclusive, acquisition fails exactly on
  a conflict, and release undoes acquisition.
\<close>

section \<open>Definitions\<close>

record resource_lock_entry =
  le_key :: string
  le_task_id :: string
  le_fencing_token :: int

record resource_lock_table =
  lt_entries :: "resource_lock_entry list"

record task_resource_claim =
  rc_task_id :: string
  rc_fencing_token :: int
  rc_write_paths :: "string list"
  rc_exclusive_resources :: "string list"

definition emptyResourceLockTable :: resource_lock_table where
  "emptyResourceLockTable = \<lparr>lt_entries = []\<rparr>"

definition resourceKeys :: "host \<Rightarrow> string list \<Rightarrow> string list \<Rightarrow> string list result" where
  "resourceKeys H write_paths exclusive_resources =
     rbind (mapR (normalizeTaskWritePath H) write_paths) (\<lambda>paths.
     rbind (mapR (normalizeExclusiveResourceKey H) exclusive_resources) (\<lambda>resources.
     Inr (sort (dedupe (map (\<lambda>p. ''write:'' @ p) paths @ map (\<lambda>r. ''exclusive:'' @ r) resources)))))"

text \<open>
  \<^verbatim>\<open>indexOf\<close> gives \<^verbatim>\<open>-1\<close> for a key without separator; then \<^verbatim>\<open>slice(0, -1)\<close> drops the last character
  and \<^verbatim>\<open>slice(0)\<close> keeps the whole key.
\<close>

definition keyKind :: "string \<Rightarrow> string" where
  "keyKind key = (case cutAt CHR '':'' key of (h, Some _) \<Rightarrow> h | (h, None) \<Rightarrow> butlast h)"

definition keyValue :: "string \<Rightarrow> string" where
  "keyValue key = (case cutAt CHR '':'' key of (_, Some v) \<Rightarrow> v | (h, None) \<Rightarrow> h)"

definition keysConflict :: "string \<Rightarrow> string \<Rightarrow> bool" where
  "keysConflict first second \<longleftrightarrow>
     (if keyKind first \<noteq> keyKind second then False
      else if keyKind first = ''write'' then writePathsOverlap (keyValue first) (keyValue second)
      else keyValue first = keyValue second)"

definition lockEntryCompare :: "host \<Rightarrow> resource_lock_entry \<Rightarrow> resource_lock_entry \<Rightarrow> int" where
  "lockEntryCompare H =
     orElse (\<lambda>l r. h_localeCompare H (le_key l) (le_key r))
       (orElse (\<lambda>l r. h_localeCompare H (le_task_id l) (le_task_id r))
         (\<lambda>l r. le_fencing_token l - le_fencing_token r))"

definition sortEntries :: "host \<Rightarrow> resource_lock_entry list \<Rightarrow> resource_lock_entry list" where
  "sortEntries H entries = sort_by (lockEntryCompare H) entries"

definition claimEntries :: "task_resource_claim \<Rightarrow> string list \<Rightarrow> resource_lock_entry list" where
  "claimEntries claim keys =
     map (\<lambda>key. \<lparr>le_key = key, le_task_id = rc_task_id claim, le_fencing_token = rc_fencing_token claim\<rparr>) keys"

definition acquireTaskResources :: "host \<Rightarrow> resource_lock_table \<Rightarrow> task_resource_claim \<Rightarrow> resource_lock_table result" where
  "acquireTaskResources H table claim =
     rbind (resourceKeys H (rc_write_paths claim) (rc_exclusive_resources claim)) (\<lambda>keys.
     if list_ex (\<lambda>key. list_ex (\<lambda>entry. keysConflict (le_key entry) key) (lt_entries table)) keys
     then Inl (ResourceLockError resource_busy)
     else Inr \<lparr>lt_entries = sortEntries H (lt_entries table @ claimEntries claim keys)\<rparr>)"

definition releaseTaskResources :: "resource_lock_table \<Rightarrow> string \<Rightarrow> int \<Rightarrow> resource_lock_table result" where
  "releaseTaskResources table task_id fencing_token =
     (let owned = filter (\<lambda>entry. le_task_id entry = task_id) (lt_entries table) in
      if owned = [] then Inl (ResourceLockError release_mismatch)
      else if list_ex (\<lambda>entry. le_fencing_token entry \<noteq> fencing_token) owned
      then Inl (ResourceLockError release_mismatch)
      else Inr \<lparr>lt_entries = filter (\<lambda>entry. le_task_id entry \<noteq> task_id) (lt_entries table)\<rparr>)"

section \<open>Keys\<close>

lemma key_parts [simp]:
  "keyKind (''write:'' @ p) = ''write''" "keyValue (''write:'' @ p) = p"
  "keyKind (''exclusive:'' @ r) = ''exclusive''" "keyValue (''exclusive:'' @ r) = r"
  by (simp_all add: keyKind_def keyValue_def)

lemma keysConflict_refl [simp]: "keysConflict k k"
  by (simp add: keysConflict_def writePathsOverlap_def)

lemma keysConflict_sym: "keysConflict a b = keysConflict b a"
  using writePathsOverlap_sym by (auto simp: keysConflict_def)

lemma keysConflict_claims [simp]:
  "keysConflict (''write:'' @ p) (''write:'' @ q) \<longleftrightarrow> writePathsOverlap p q"
  "keysConflict (''exclusive:'' @ r) (''exclusive:'' @ s) \<longleftrightarrow> r = s"
  "\<not> keysConflict (''write:'' @ p) (''exclusive:'' @ r)"
  "\<not> keysConflict (''exclusive:'' @ r) (''write:'' @ p)"
  unfolding keysConflict_def key_parts by simp_all

text \<open>Accepted claims are already normalised: the keys are the claims as written.\<close>

lemma resourceKeys_Inr:
  assumes "resourceKeys H paths resources = Inr keys"
  shows "set keys = (\<lambda>p. ''write:'' @ p) ` set paths \<union> (\<lambda>r. ''exclusive:'' @ r) ` set resources"
    and "distinct keys" and "sorted keys"
proof -
  from assms obtain ps rs where "mapR (normalizeTaskWritePath H) paths = Inr ps"
    "mapR (normalizeExclusiveResourceKey H) resources = Inr rs"
    and keys: "keys = sort (dedupe (map (\<lambda>p. ''write:'' @ p) ps @ map (\<lambda>r. ''exclusive:'' @ r) rs))"
    by (auto simp: resourceKeys_def rbind_Inr_iff)
  then have "ps = paths" "rs = resources"
    using mapR_Inr_map [of "normalizeTaskWritePath H" paths ps "\<lambda>p. p"] normalizeTaskWritePath_same
      mapR_Inr_map [of "normalizeExclusiveResourceKey H" resources rs "\<lambda>r. r"] normalizeExclusiveResourceKey_Inr
    by auto
  then show "set keys = (\<lambda>p. ''write:'' @ p) ` set paths \<union> (\<lambda>r. ''exclusive:'' @ r) ` set resources"
    "distinct keys" "sorted keys" using keys by auto
qed

section \<open>The comparator\<close>

lemma consistent_lockEntryCompare:
  assumes "consistent_comparator (h_localeCompare H)"
  shows "consistent_comparator (lockEntryCompare H)"
  unfolding lockEntryCompare_def
  by (intro consistent_orElse consistent_key [OF assms] consistent_key [OF consistent_difference])

interpretation example_lock_order: consistent_comparator "lockEntryCompare exampleHost"
  by (rule consistent_lockEntryCompare) (rule exampleHost_collation)

section \<open>Acquire and release\<close>

lemma acquireTaskResources_Inr:
  "acquireTaskResources H table claim = Inr table' \<longleftrightarrow>
     (\<exists>keys. resourceKeys H (rc_write_paths claim) (rc_exclusive_resources claim) = Inr keys
       \<and> (\<forall>k \<in> set keys. \<forall>e \<in> set (lt_entries table). \<not> keysConflict (le_key e) k)
       \<and> table' = \<lparr>lt_entries = sortEntries H (lt_entries table @ claimEntries claim keys)\<rparr>)"
  by (auto simp: acquireTaskResources_def rbind_Inr_iff list_ex_iff)

lemma releaseTaskResources_Inr:
  "releaseTaskResources table tid n = Inr table' \<longleftrightarrow>
     (\<exists>e \<in> set (lt_entries table). le_task_id e = tid)
     \<and> (\<forall>e \<in> set (lt_entries table). le_task_id e = tid \<longrightarrow> le_fencing_token e = n)
     \<and> table' = \<lparr>lt_entries = filter (\<lambda>e. le_task_id e \<noteq> tid) (lt_entries table)\<rparr>"
  by (auto simp: releaseTaskResources_def Let_def list_ex_iff filter_empty_conv)

lemma releaseTaskResources_Inl: "releaseTaskResources table tid n = Inl e \<Longrightarrow> e = ResourceLockError release_mismatch"
  by (auto simp: releaseTaskResources_def Let_def split: if_splits)

section \<open>Mutual exclusion\<close>

definition mutuallyExclusive :: "resource_lock_table \<Rightarrow> bool" where
  "mutuallyExclusive table \<longleftrightarrow>
     (\<forall>e \<in> set (lt_entries table). \<forall>f \<in> set (lt_entries table).
        le_task_id e \<noteq> le_task_id f \<longrightarrow> \<not> keysConflict (le_key e) (le_key f))"

text \<open>The tables a coordinator reaches: it starts empty, acquires claims and releases tasks.\<close>

inductive lockReachable :: "host \<Rightarrow> resource_lock_table \<Rightarrow> bool" for H where
  start: "lockReachable H emptyResourceLockTable"
| acquire: "lockReachable H table \<Longrightarrow> acquireTaskResources H table claim = Inr table' \<Longrightarrow> lockReachable H table'"
| release: "lockReachable H table \<Longrightarrow> releaseTaskResources table tid n = Inr table' \<Longrightarrow> lockReachable H table'"

lemma acquire_mutuallyExclusive:
  assumes "mutuallyExclusive table" "acquireTaskResources H table claim = Inr table'"
  shows "mutuallyExclusive table'"
proof -
  from assms(2) obtain keys where
    free: "\<forall>k \<in> set keys. \<forall>e \<in> set (lt_entries table). \<not> keysConflict (le_key e) k"
    and t: "table' = \<lparr>lt_entries = sortEntries H (lt_entries table @ claimEntries claim keys)\<rparr>"
    by (auto simp: acquireTaskResources_Inr)
  show ?thesis
    unfolding mutuallyExclusive_def
  proof (intro ballI impI)
    fix e f assume e: "e \<in> set (lt_entries table')" and f: "f \<in> set (lt_entries table')"
      and ne: "le_task_id e \<noteq> le_task_id f"
    let ?old = "set (lt_entries table)" and ?new = "set (claimEntries claim keys)"
    have key: "le_key g \<in> set keys \<and> le_task_id g = rc_task_id claim" if "g \<in> ?new" for g
      using that by (auto simp: claimEntries_def)
    have "e \<in> ?old \<union> ?new" "f \<in> ?old \<union> ?new" using e f t by (auto simp: sortEntries_def)
    then consider "e \<in> ?old" "f \<in> ?old" | "e \<in> ?old" "f \<in> ?new" | "e \<in> ?new" "f \<in> ?old"
      using ne key by (metis UnE)
    then show "\<not> keysConflict (le_key e) (le_key f)"
    proof cases
      case 1
      then show ?thesis using assms(1) ne by (simp add: mutuallyExclusive_def)
    next
      case 2
      then show ?thesis using free key by blast
    next
      case 3
      then show ?thesis using free key keysConflict_sym by blast
    qed
  qed
qed

lemma release_mutuallyExclusive:
  "mutuallyExclusive table \<Longrightarrow> releaseTaskResources table tid n = Inr table' \<Longrightarrow> mutuallyExclusive table'"
  by (auto simp: releaseTaskResources_Inr mutuallyExclusive_def)

lemma reachable_exclusive: "lockReachable H table \<Longrightarrow> mutuallyExclusive table"
proof (induction rule: lockReachable.induct)
  case start
  then show ?case by (simp add: mutuallyExclusive_def emptyResourceLockTable_def)
qed (auto intro: acquire_mutuallyExclusive release_mutuallyExclusive)

text \<open>
  C4. Whatever claims are acquired and released, no two tasks ever hold conflicting locks: their write
  paths never overlap and they never hold the same exclusive resource.
\<close>
theorem lockReachable_mutuallyExclusive:
  assumes "lockReachable H table" "e \<in> set (lt_entries table)" "f \<in> set (lt_entries table)"
    "le_task_id e \<noteq> le_task_id f"
  shows "\<not> keysConflict (le_key e) (le_key f)"
  using reachable_exclusive [OF assms(1)] assms(2-4) by (simp add: mutuallyExclusive_def)

text \<open>
  Acquisition is all-or-nothing and complete: for a valid claim it fails exactly when some key
  of the claim conflicts with a held lock, and otherwise the new table holds the old locks and one lock
  per key of the claim under the claim's fencing token, nothing else.
\<close>
theorem acquireTaskResources_outcome:
  assumes "resourceKeys H (rc_write_paths claim) (rc_exclusive_resources claim) = Inr keys"
  shows "case acquireTaskResources H table claim of
      Inl e \<Rightarrow> e = ResourceLockError resource_busy
        \<and> (\<exists>k \<in> set keys. \<exists>held \<in> set (lt_entries table). keysConflict (le_key held) k)
    | Inr table' \<Rightarrow> mset (lt_entries table') = mset (lt_entries table)
          + {# \<lparr>le_key = k, le_task_id = rc_task_id claim, le_fencing_token = rc_fencing_token claim\<rparr>. k \<in># mset keys #}
        \<and> \<not> (\<exists>k \<in> set keys. \<exists>held \<in> set (lt_entries table). keysConflict (le_key held) k)"
  using assms by (simp add: acquireTaskResources_def sortEntries_def claimEntries_def list_ex_iff)

text \<open>
  A release needs the task's own current fencing token: it succeeds exactly when the task holds
  locks and all of them carry the token given, and then frees exactly that task's locks; a stale token
  or an unknown task is a \<open>release_mismatch\<close>.
\<close>
theorem releaseTaskResources_outcome:
  "case releaseTaskResources table tid token of
      Inl e \<Rightarrow> e = ResourceLockError release_mismatch
        \<and> (tid \<notin> le_task_id ` set (lt_entries table)
           \<or> (\<exists>held \<in> set (lt_entries table). le_task_id held = tid \<and> le_fencing_token held \<noteq> token))
    | Inr table' \<Rightarrow> tid \<in> le_task_id ` set (lt_entries table)
        \<and> \<not> (\<exists>held \<in> set (lt_entries table). le_task_id held = tid \<and> le_fencing_token held \<noteq> token)
        \<and> lt_entries table' = filter (\<lambda>held. le_task_id held \<noteq> tid) (lt_entries table)"
  by (auto simp: releaseTaskResources_def Let_def list_ex_iff filter_empty_conv)

section \<open>Round trip\<close>

lemma sortEntries_laws:
  assumes "consistent_comparator (h_localeCompare H)"
  shows "sortEntries H (sortEntries H es) = sortEntries H es"
    and "filter P (sortEntries H es) = sortEntries H (filter P es)"
proof -
  have laws: "comparator_laws (lockEntryCompare H)"
    using consistent_lockEntryCompare [OF assms] by (rule consistent_comparator.axioms(1))
  show "filter P (sortEntries H es) = sortEntries H (filter P es)"
    unfolding sortEntries_def by (rule comparator_laws.filter_sort_by [OF laws])
  show "sortEntries H (sortEntries H es) = sortEntries H es"
    unfolding sortEntries_def
    by (rule comparator_laws.sort_by_sorted [OF laws comparator_laws.sorted_sort_by [OF laws]])
qed

lemma lockReachable_sorted:
  assumes cmp: "consistent_comparator (h_localeCompare H)" and "lockReachable H table"
  shows "sortEntries H (lt_entries table) = lt_entries table"
  using assms(2)
proof induction
  case start
  then show ?case by (simp add: emptyResourceLockTable_def sortEntries_def)
next
  case (acquire table claim table')
  then show ?case by (auto simp: acquireTaskResources_Inr sortEntries_laws(1) [OF cmp])
next
  case (release table tid n table')
  then show ?case by (simp add: releaseTaskResources_Inr sortEntries_laws(2) [OF cmp, symmetric])
qed

text \<open>
  Releasing what was acquired gives back the table, entry for entry: for a reachable table, a task
  that held nothing before and a claim with at least one key.
\<close>
theorem release_acquire:
  assumes cmp: "consistent_comparator (h_localeCompare H)" and reach: "lockReachable H table"
    and absent: "rc_task_id claim \<notin> le_task_id ` set (lt_entries table)"
    and claims: "rc_write_paths claim \<noteq> [] \<or> rc_exclusive_resources claim \<noteq> []"
    and acq: "acquireTaskResources H table claim = Inr table'"
  shows "releaseTaskResources table' (rc_task_id claim) (rc_fencing_token claim) = Inr table"
proof -
  from acq obtain keys where keys: "resourceKeys H (rc_write_paths claim) (rc_exclusive_resources claim) = Inr keys"
    and t: "table' = \<lparr>lt_entries = sortEntries H (lt_entries table @ claimEntries claim keys)\<rparr>"
    by (auto simp: acquireTaskResources_Inr)
  have "set keys \<noteq> {}" unfolding resourceKeys_Inr(1) [OF keys] using claims by simp
  then obtain k where "k \<in> set keys" using ex_in_conv [of "set keys"] by (elim iffD2 [THEN exE])
  then have "\<lparr>le_key = k, le_task_id = rc_task_id claim, le_fencing_token = rc_fencing_token claim\<rparr> \<in> set (lt_entries table')"
    using t by (simp add: sortEntries_def claimEntries_def)
  then have owned: "\<exists>e \<in> set (lt_entries table'). le_task_id e = rc_task_id claim" by force
  have others: "\<forall>e \<in> set (lt_entries table). le_task_id e \<noteq> rc_task_id claim"
    using absent by (metis image_eqI)
  have tokens: "le_fencing_token e = rc_fencing_token claim"
    if "e \<in> set (lt_entries table')" "le_task_id e = rc_task_id claim" for e
    using that others t by (auto simp: sortEntries_def claimEntries_def)
  have "filter (\<lambda>e. le_task_id e \<noteq> rc_task_id claim) (claimEntries claim keys) = []"
    "filter (\<lambda>e. le_task_id e \<noteq> rc_task_id claim) (lt_entries table) = lt_entries table"
    using others by (auto simp: claimEntries_def filter_id_conv)
  then have "filter (\<lambda>e. le_task_id e \<noteq> rc_task_id claim) (lt_entries table') = lt_entries table"
    using t by (simp add: sortEntries_laws(2) [OF cmp] lockReachable_sorted [OF cmp reach])
  then show ?thesis using owned tokens by (simp add: releaseTaskResources_Inr)
qed

section \<open>Concrete tables\<close>

definition exampleClaim :: "string \<Rightarrow> int \<Rightarrow> string list \<Rightarrow> task_resource_claim" where
  "exampleClaim tid token paths =
     \<lparr>rc_task_id = tid, rc_fencing_token = token, rc_write_paths = paths, rc_exclusive_resources = []\<rparr>"

definition exampleTable :: resource_lock_table where
  "exampleTable = \<lparr>lt_entries = [\<lparr>le_key = ''write:docs'', le_task_id = ''task_b'', le_fencing_token = 1\<rparr>,
     \<lparr>le_key = ''write:src'', le_task_id = ''task_a'', le_fencing_token = 1\<rparr>]\<rparr>"

lemma exampleTable_steps:
  "acquireTaskResources exampleHost emptyResourceLockTable (exampleClaim ''task_a'' 1 [''src''])
     = Inr \<lparr>lt_entries = [\<lparr>le_key = ''write:src'', le_task_id = ''task_a'', le_fencing_token = 1\<rparr>]\<rparr>"
  "acquireTaskResources exampleHost \<lparr>lt_entries = [\<lparr>le_key = ''write:src'', le_task_id = ''task_a'', le_fencing_token = 1\<rparr>]\<rparr>
     (exampleClaim ''task_b'' 1 [''docs'']) = Inr exampleTable"
  by code_simp+

lemma exampleTable_reachable:
  "lockReachable exampleHost \<lparr>lt_entries = [\<lparr>le_key = ''write:src'', le_task_id = ''task_a'', le_fencing_token = 1\<rparr>]\<rparr>"
  "lockReachable exampleHost exampleTable"
proof -
  show first: "lockReachable exampleHost \<lparr>lt_entries = [\<lparr>le_key = ''write:src'', le_task_id = ''task_a'', le_fencing_token = 1\<rparr>]\<rparr>"
    by (rule lockReachable.acquire [OF lockReachable.start exampleTable_steps(1)])
  show "lockReachable exampleHost exampleTable"
    by (rule lockReachable.acquire [OF first exampleTable_steps(2)])
qed

theorem lockReachable_mutuallyExclusive_witness:
  "lockReachable exampleHost exampleTable \<and> \<not> keysConflict ''write:docs'' ''write:src''"
  using lockReachable_mutuallyExclusive [OF exampleTable_reachable(2), of "lt_entries exampleTable ! 0" "lt_entries exampleTable ! 1"]
    exampleTable_reachable(2)
  by (simp add: exampleTable_def)

theorem acquireTaskResources_outcome_witness:
  "resourceKeys exampleHost [''src/a''] [] = Inr [''write:src/a'']
   \<and> acquireTaskResources exampleHost exampleTable (exampleClaim ''task_c'' 1 [''src/a''])
       = Inl (ResourceLockError resource_busy)
   \<and> keysConflict ''write:src'' ''write:src/a''"
proof -
  have keys: "resourceKeys exampleHost (rc_write_paths (exampleClaim ''task_c'' 1 [''src/a'']))
      (rc_exclusive_resources (exampleClaim ''task_c'' 1 [''src/a''])) = Inr [''write:src/a'']" by code_simp
  moreover have "acquireTaskResources exampleHost exampleTable (exampleClaim ''task_c'' 1 [''src/a''])
      = Inl (ResourceLockError resource_busy)" by code_simp
  moreover have "keysConflict ''write:src'' ''write:src/a''" by code_simp
  ultimately show ?thesis
    using acquireTaskResources_outcome [OF keys, of exampleTable] by (simp add: exampleClaim_def)
qed

theorem release_acquire_witness:
  "releaseTaskResources exampleTable ''task_b'' 1
     = Inr \<lparr>lt_entries = [\<lparr>le_key = ''write:src'', le_task_id = ''task_a'', le_fencing_token = 1\<rparr>]\<rparr>"
  using release_acquire [OF exampleHost_collation(1) exampleTable_reachable(1) _ _ exampleTable_steps(2)]
  by (simp add: exampleClaim_def)

theorem releaseTaskResources_outcome_witness:
  "releaseTaskResources exampleTable ''task_a'' 2 = Inl (ResourceLockError release_mismatch)
   \<and> releaseTaskResources exampleTable ''task_a'' 1
     = Inr \<lparr>lt_entries = [\<lparr>le_key = ''write:docs'', le_task_id = ''task_b'', le_fencing_token = 1\<rparr>]\<rparr>"
proof -
  have "isl (releaseTaskResources exampleTable ''task_a'' 2)" by code_simp
  moreover have "\<not> isl (releaseTaskResources exampleTable ''task_a'' 1)" by code_simp
  ultimately show ?thesis
    using releaseTaskResources_outcome [where table = exampleTable and tid = "''task_a''" and token = 2] releaseTaskResources_outcome [where table = exampleTable and tid = "''task_a''" and token = 1]
    by (auto simp: exampleTable_def split: sum.splits)
qed

end
