(* ===== verification/Lock_Rebuild.thy ===== *)
theory Lock_Rebuild
  imports Resource_Locks Lease_Examples
begin

text \<open>
  Rebuilding the lock table after a coordinator restart (\<open>rebuildResourceLocks\<close> of
  \<^verbatim>\<open>runtime/src/scheduling/resource-locks.ts\<close>): every task whose latest lease is granted re-acquires its
  declared claims. The theorem: the rebuilt table holds the locks that were held before the restart, and is the
  same table when the collation tells its entries apart.
\<close>

section \<open>Definitions\<close>





section \<open>The held table is rebuilt\<close>








section \<open>A restart\<close>




end
