(* ===== verification/Budget_Account.thy ===== *)
theory Budget_Account
  imports Lease_Chain Planning_Task
begin

text \<open>
  Atomic iteration budget accounting (\<^verbatim>\<open>runtime/src/scheduling/budget.ts\<close>): reservations, settlement and
  the restoration of the account from the lease records. The lemmas of this theory: no sequence of
  reservations and settlements overspends the iteration or a task, and a settlement returns the unused
  part of its reservation exactly once. An object used as a table (\<^verbatim>\<open>consumed\<close>, \<^verbatim>\<open>reservations\<close>) is an
  association list over task ids.
\<close>

section \<open>Definitions\<close>

record budget_reservation = lease_budget +
  rv_lease_id :: string
  rv_fencing_token :: int

record iteration_budget_account =
  ba_limit :: iteration_budget
  ba_consumed :: "(string, lease_budget) jmap"
  ba_reservations :: "(string, budget_reservation) jmap"
  ba_iteration_deadline :: string

definition createIterationBudgetAccount :: "iteration_budget \<Rightarrow> string \<Rightarrow> iteration_budget_account" where
  "createIterationBudgetAccount limit deadline =
     \<lparr>ba_limit = limit, ba_consumed = [], ba_reservations = [], ba_iteration_deadline = deadline\<rparr>"

definition assertAmount :: "rat \<Rightarrow> rat \<Rightarrow> unit result" where
  "assertAmount steps tokens =
     (if \<not> isInteger steps \<or> steps < 0 then Inl (BudgetAccountingError invalid_amount)
      else if \<not> isInteger tokens \<or> tokens < 0 then Inl (BudgetAccountingError invalid_amount)
      else Inr ())"

definition sumAmounts :: "'a lease_budget_scheme list \<Rightarrow> lease_budget" where
  "sumAmounts amounts = foldl (\<lambda>s a. \<lparr>bu_steps = bu_steps s + bu_steps a, bu_tokens = bu_tokens s + bu_tokens a\<rparr>)
     \<lparr>bu_steps = 0, bu_tokens = 0\<rparr> amounts"

definition remainingBudget :: "iteration_budget_account \<Rightarrow> lease_budget" where
  "remainingBudget account =
     (let consumed = sumAmounts (map snd (ba_consumed account));
          reserved = sumAmounts (map snd (ba_reservations account))
      in \<lparr>bu_steps = ib_steps (ba_limit account) - bu_steps consumed - bu_steps reserved,
          bu_tokens = ib_tokens (ba_limit account) - bu_tokens consumed - bu_tokens reserved\<rparr>)"

record reserve_task_budget_input =
  ri_task_id :: string
  ri_lease_id :: string
  ri_fencing_token :: int
  ri_task_budget :: task_budget
  ri_task_remaining_duration_ms :: rat
  ri_steps :: rat
  ri_tokens :: rat
  ri_now :: string

record reserve_task_budget_result =
  rr_account :: iteration_budget_account
  rr_reserved_budget :: lease_budget
  rr_expires_at :: string

definition consumedOf :: "iteration_budget_account \<Rightarrow> string \<Rightarrow> lease_budget" where
  "consumedOf account tid =
     (case jm_get (ba_consumed account) tid of None \<Rightarrow> \<lparr>bu_steps = 0, bu_tokens = 0\<rparr> | Some c \<Rightarrow> c)"

definition reserveTaskBudget :: "host \<Rightarrow> iteration_budget_account \<Rightarrow> reserve_task_budget_input
    \<Rightarrow> reserve_task_budget_result result" where
  "reserveTaskBudget H account input =
     rbind (assertAmount (ri_steps input) (ri_tokens input)) (\<lambda>_.
     if \<not> isInteger (ri_task_remaining_duration_ms input) \<or> ri_task_remaining_duration_ms input < 0
     then Inl (BudgetAccountingError invalid_amount)
     else case (h_dateParse H (ri_now input), h_dateParse H (ba_iteration_deadline account)) of
       (Some nowMs, Some deadlineMs) \<Rightarrow>
         if deadlineMs \<le> nowMs then Inl (BudgetAccountingError deadline_exceeded)
         else if jm_get (ba_reservations account) (ri_task_id input) \<noteq> None
         then Inl (BudgetAccountingError reservation_conflict)
         else
           (let consumed = consumedOf account (ri_task_id input);
                available = remainingBudget account
            in if tb_steps (ri_task_budget input) - bu_steps consumed < ri_steps input
                 \<or> tb_tokens (ri_task_budget input) - bu_tokens consumed < ri_tokens input
            then Inl (BudgetAccountingError task_budget_exceeded)
            else if bu_steps available < ri_steps input \<or> bu_tokens available < ri_tokens input
            then Inl (BudgetAccountingError budget_exhausted)
            else Inr
              \<lparr>rr_account = account\<lparr>ba_reservations := jm_set (ri_task_id input)
                 \<lparr>bu_steps = ri_steps input, bu_tokens = ri_tokens input,
                  rv_lease_id = ri_lease_id input, rv_fencing_token = ri_fencing_token input\<rparr>
                 (ba_reservations account)\<rparr>,
               rr_reserved_budget = \<lparr>bu_steps = ri_steps input, bu_tokens = ri_tokens input\<rparr>,
               rr_expires_at = h_toIso H (min (nowMs + \<lfloor>ri_task_remaining_duration_ms input\<rfloor>) deadlineMs)\<rparr>)
     | _ \<Rightarrow> Inl (BudgetAccountingError invalid_amount))"

record settle_task_budget_input =
  si_task_id :: string
  si_lease_id :: string
  si_fencing_token :: int
  si_consumed :: lease_budget

record settle_task_budget_result =
  sr_account :: iteration_budget_account
  sr_remaining :: lease_budget
  sr_returned :: lease_budget

text \<open>The account after the reservation of \<open>tid\<close> is closed with \<open>consumed\<close>.\<close>

definition closeReservation :: "iteration_budget_account \<Rightarrow> string \<Rightarrow> lease_budget \<Rightarrow> iteration_budget_account" where
  "closeReservation account tid consumed =
     account\<lparr>ba_consumed := jm_set tid
         \<lparr>bu_steps = bu_steps (consumedOf account tid) + bu_steps consumed,
          bu_tokens = bu_tokens (consumedOf account tid) + bu_tokens consumed\<rparr> (ba_consumed account),
       ba_reservations := jm_del tid (ba_reservations account)\<rparr>"

definition settleTaskBudget :: "iteration_budget_account \<Rightarrow> settle_task_budget_input \<Rightarrow> settle_task_budget_result result" where
  "settleTaskBudget account input =
     rbind (assertAmount (bu_steps (si_consumed input)) (bu_tokens (si_consumed input))) (\<lambda>_.
     case jm_get (ba_reservations account) (si_task_id input) of
       None \<Rightarrow> Inl (BudgetAccountingError unknown_reservation)
     | Some reservation \<Rightarrow>
         if rv_lease_id reservation \<noteq> si_lease_id input \<or> rv_fencing_token reservation \<noteq> si_fencing_token input
         then Inl (BudgetAccountingError stale_fencing_token)
         else if bu_steps reservation < bu_steps (si_consumed input) \<or> bu_tokens reservation < bu_tokens (si_consumed input)
         then Inl (BudgetAccountingError consumed_exceeds_reserved)
         else
           (let next_account = closeReservation account (si_task_id input) (si_consumed input) in
            Inr \<lparr>sr_account = next_account, sr_remaining = remainingBudget next_account,
                 sr_returned = \<lparr>bu_steps = bu_steps reservation - bu_steps (si_consumed input),
                                bu_tokens = bu_tokens reservation - bu_tokens (si_consumed input)\<rparr>\<rparr>))"

section \<open>Restoration\<close>

definition openReservation :: "iteration_budget_account \<Rightarrow> string \<Rightarrow> task_lease_record \<Rightarrow> iteration_budget_account" where
  "openReservation account tid r =
     account\<lparr>ba_reservations := jm_set tid
       \<lparr>bu_steps = bu_steps (lr_reserved_budget r), bu_tokens = bu_tokens (lr_reserved_budget r),
        rv_lease_id = lr_lease_id r, rv_fencing_token = lr_fencing_token r\<rparr> (ba_reservations account)\<rparr>"

definition replayRecord :: "string \<Rightarrow> iteration_budget_account \<Rightarrow> task_lease_record \<Rightarrow> iteration_budget_account result" where
  "replayRecord tid account r =
     (if lr_state r = granted then
        (if jm_get (ba_reservations account) tid \<noteq> None then Inl (BudgetAccountingError account_inconsistent)
         else Inr (openReservation account tid r))
      else case jm_get (ba_reservations account) tid of
        None \<Rightarrow> Inl (BudgetAccountingError account_inconsistent)
      | Some reservation \<Rightarrow>
          if rv_lease_id reservation \<noteq> lr_lease_id r \<or> rv_fencing_token reservation \<noteq> lr_fencing_token r
          then Inl (BudgetAccountingError account_inconsistent)
          else if bu_steps reservation < bu_steps (lr_consumed_budget r) \<or> bu_tokens reservation < bu_tokens (lr_consumed_budget r)
          then Inl (BudgetAccountingError consumed_exceeds_reserved)
          else Inr (closeReservation account tid (lr_consumed_budget r)))"

definition addToTask :: "(string, task_lease_record list) jmap \<Rightarrow> task_lease_record \<Rightarrow> (string, task_lease_record list) jmap" where
  "addToTask = pushGroup lr_task_id"

text \<open>\<^verbatim>\<open>a.fencing_token - b.fencing_token || (a.state === "granted" ? -1 : 1)\<close>\<close>

definition fencingCompare :: "task_lease_record \<Rightarrow> task_lease_record \<Rightarrow> int" where
  "fencingCompare a b =
     (if lr_fencing_token a - lr_fencing_token b \<noteq> 0 then lr_fencing_token a - lr_fencing_token b
      else if lr_state a = granted then -1 else 1)"

definition restoreBudgetAccount :: "host \<Rightarrow> iteration_budget \<Rightarrow> string \<Rightarrow> task_lease_record list
    \<Rightarrow> iteration_budget_account result" where
  "restoreBudgetAccount H limit deadline records =
     rbind (buildTaskLeaseChain H records) (\<lambda>chain.
     rbind (foldR (\<lambda>account (tid, taskRecords). foldR (replayRecord tid) account (sort_by fencingCompare taskRecords))
       (createIterationBudgetAccount limit deadline) (foldl addToTask [] (chain_records chain))) (\<lambda>account.
     let remaining = remainingBudget account in
     if bu_steps remaining < 0 \<or> bu_tokens remaining < 0 then Inl (BudgetAccountingError account_inconsistent)
     else Inr account))"

section \<open>Arithmetic of the account\<close>

lemma sumAmounts_sum:
  "bu_steps (sumAmounts as) = (\<Sum>a \<leftarrow> as. bu_steps a)" "bu_tokens (sumAmounts as) = (\<Sum>a \<leftarrow> as. bu_tokens a)"
proof -
  have "bu_steps (foldl (\<lambda>s a. \<lparr>bu_steps = bu_steps s + bu_steps a, bu_tokens = bu_tokens s + bu_tokens a\<rparr>) z as)
      = bu_steps z + (\<Sum>a \<leftarrow> as. bu_steps a)
    \<and> bu_tokens (foldl (\<lambda>s a. \<lparr>bu_steps = bu_steps s + bu_steps a, bu_tokens = bu_tokens s + bu_tokens a\<rparr>) z as)
      = bu_tokens z + (\<Sum>a \<leftarrow> as. bu_tokens a)" for z
    by (induction as arbitrary: z) auto
  then show "bu_steps (sumAmounts as) = (\<Sum>a \<leftarrow> as. bu_steps a)" "bu_tokens (sumAmounts as) = (\<Sum>a \<leftarrow> as. bu_tokens a)"
    by (simp_all add: sumAmounts_def)
qed

text \<open>Totals over a table change by what is written or removed.\<close>

lemma sum_update:
  fixes f :: "'v \<Rightarrow> rat"
  assumes "distinct (map fst m)"
  shows "(\<Sum>e \<leftarrow> jm_set k v m. f (snd e)) =
    (\<Sum>e \<leftarrow> m. f (snd e)) + f v - (case jm_get m k of None \<Rightarrow> 0 | Some w \<Rightarrow> f w)"
  using assms
proof (induction m)
  case (Cons e m)
  then show ?case by (cases e) (auto simp: map_of_eq_None_iff split: option.splits)
qed simp

lemma sum_delete:
  fixes f :: "'v \<Rightarrow> rat"
  assumes "distinct (map fst m)"
  shows "(\<Sum>e \<leftarrow> jm_del k m. f (snd e)) = (\<Sum>e \<leftarrow> m. f (snd e)) - (case jm_get m k of None \<Rightarrow> 0 | Some w \<Rightarrow> f w)"
  using assms
proof (induction m)
  case (Cons e m)
  then show ?case by (cases e) (auto simp: map_of_eq_None_iff split: option.splits)
qed simp

lemma remainingBudget_steps:
  "bu_steps (remainingBudget a) = ib_steps (ba_limit a) - (\<Sum>e \<leftarrow> ba_consumed a. bu_steps (snd e))
     - (\<Sum>e \<leftarrow> ba_reservations a. bu_steps (snd e))"
  "bu_tokens (remainingBudget a) = ib_tokens (ba_limit a) - (\<Sum>e \<leftarrow> ba_consumed a. bu_tokens (snd e))
     - (\<Sum>e \<leftarrow> ba_reservations a. bu_tokens (snd e))"
  by (simp_all add: remainingBudget_def Let_def sumAmounts_sum comp_def)

section \<open>Reserving and settling\<close>

lemma reserveTaskBudget_Inr:
  assumes "reserveTaskBudget H a input = Inr res"
  obtains nowMs deadlineMs where
    "h_dateParse H (ri_now input) = Some nowMs" "h_dateParse H (ba_iteration_deadline a) = Some deadlineMs" "nowMs < deadlineMs"
    "0 \<le> ri_steps input" "0 \<le> ri_tokens input" "isInteger (ri_steps input)" "isInteger (ri_tokens input)"
    "jm_get (ba_reservations a) (ri_task_id input) = None"
    "ri_steps input \<le> tb_steps (ri_task_budget input) - bu_steps (consumedOf a (ri_task_id input))"
    "ri_tokens input \<le> tb_tokens (ri_task_budget input) - bu_tokens (consumedOf a (ri_task_id input))"
    "ri_steps input \<le> bu_steps (remainingBudget a)" "ri_tokens input \<le> bu_tokens (remainingBudget a)"
    "rr_account res = a\<lparr>ba_reservations := jm_set (ri_task_id input)
       \<lparr>bu_steps = ri_steps input, bu_tokens = ri_tokens input, rv_lease_id = ri_lease_id input,
        rv_fencing_token = ri_fencing_token input\<rparr> (ba_reservations a)\<rparr>"
    "rr_reserved_budget res = \<lparr>bu_steps = ri_steps input, bu_tokens = ri_tokens input\<rparr>"
    "rr_expires_at res = h_toIso H (min (nowMs + \<lfloor>ri_task_remaining_duration_ms input\<rfloor>) deadlineMs)"
  using assms
  by (auto simp: reserveTaskBudget_def assertAmount_def rbind_Inr_iff Let_def not_less split: if_splits option.splits)

lemma settleTaskBudget_Inr:
  assumes "settleTaskBudget a input = Inr res"
  obtains rv where "jm_get (ba_reservations a) (si_task_id input) = Some rv"
    "rv_lease_id rv = si_lease_id input" "rv_fencing_token rv = si_fencing_token input"
    "0 \<le> bu_steps (si_consumed input)" "0 \<le> bu_tokens (si_consumed input)"
    "bu_steps (si_consumed input) \<le> bu_steps rv" "bu_tokens (si_consumed input) \<le> bu_tokens rv"
    "sr_account res = closeReservation a (si_task_id input) (si_consumed input)"
    "sr_remaining res = remainingBudget (sr_account res)"
    "sr_returned res = \<lparr>bu_steps = bu_steps rv - bu_steps (si_consumed input), bu_tokens = bu_tokens rv - bu_tokens (si_consumed input)\<rparr>"
  using assms
  by (auto simp: settleTaskBudget_def assertAmount_def rbind_Inr_iff Let_def not_less split: if_splits option.splits)

definition tablesOk :: "iteration_budget_account \<Rightarrow> bool" where
  "tablesOk a \<longleftrightarrow> distinct (map fst (ba_consumed a)) \<and> distinct (map fst (ba_reservations a))"

lemma consumedOf_case:
  "(case jm_get (ba_consumed a) tid of None \<Rightarrow> 0 | Some w \<Rightarrow> bu_steps w) = bu_steps (consumedOf a tid)"
  "(case jm_get (ba_consumed a) tid of None \<Rightarrow> 0 | Some w \<Rightarrow> bu_tokens w) = bu_tokens (consumedOf a tid)"
  by (simp_all add: consumedOf_def split: option.splits)

lemma closeReservation_remaining:
  assumes "tablesOk a" "jm_get (ba_reservations a) tid = Some rv"
  shows "bu_steps (remainingBudget (closeReservation a tid c)) = bu_steps (remainingBudget a) + bu_steps rv - bu_steps c"
    "bu_tokens (remainingBudget (closeReservation a tid c)) = bu_tokens (remainingBudget a) + bu_tokens rv - bu_tokens c"
  using assms
  by (simp_all add: remainingBudget_steps closeReservation_def tablesOk_def sum_update sum_delete consumedOf_case)

lemma closeReservation_tables: "tablesOk a \<Longrightarrow> tablesOk (closeReservation a tid c)"
  by (simp add: tablesOk_def closeReservation_def distinct_update distinct_delete)

text \<open>The accounts of one iteration: every task keeps its own approved budget.\<close>

inductive budgetReachable ::
  "host \<Rightarrow> iteration_budget \<Rightarrow> string \<Rightarrow> (string \<Rightarrow> task_budget) \<Rightarrow> iteration_budget_account \<Rightarrow> bool"
  for H limit deadline approved where
  create: "budgetReachable H limit deadline approved (createIterationBudgetAccount limit deadline)"
| reserve: "budgetReachable H limit deadline approved a \<Longrightarrow> reserveTaskBudget H a input = Inr res \<Longrightarrow>
    ri_task_budget input = approved (ri_task_id input) \<Longrightarrow> budgetReachable H limit deadline approved (rr_account res)"
| settle: "budgetReachable H limit deadline approved a \<Longrightarrow> settleTaskBudget a input' = Inr res' \<Longrightarrow>
    budgetReachable H limit deadline approved (sr_account res')"

definition reservedOf :: "iteration_budget_account \<Rightarrow> string \<Rightarrow> lease_budget" where
  "reservedOf a tid = (case jm_get (ba_reservations a) tid of
     None \<Rightarrow> \<lparr>bu_steps = 0, bu_tokens = 0\<rparr> | Some r \<Rightarrow> \<lparr>bu_steps = bu_steps r, bu_tokens = bu_tokens r\<rparr>)"

definition withinTask :: "iteration_budget_account \<Rightarrow> (string \<Rightarrow> task_budget) \<Rightarrow> string \<Rightarrow> bool" where
  "withinTask a approved tid \<longleftrightarrow>
     jm_get (ba_consumed a) tid = None \<and> jm_get (ba_reservations a) tid = None
     \<or> 0 \<le> bu_steps (consumedOf a tid) \<and> 0 \<le> bu_steps (reservedOf a tid)
       \<and> 0 \<le> bu_tokens (consumedOf a tid) \<and> 0 \<le> bu_tokens (reservedOf a tid)
       \<and> bu_steps (consumedOf a tid) + bu_steps (reservedOf a tid) \<le> tb_steps (approved tid)
       \<and> bu_tokens (consumedOf a tid) + bu_tokens (reservedOf a tid) \<le> tb_tokens (approved tid)"

definition budgetInv :: "iteration_budget \<Rightarrow> (string \<Rightarrow> task_budget) \<Rightarrow> iteration_budget_account \<Rightarrow> bool" where
  "budgetInv limit approved a \<longleftrightarrow> ba_limit a = limit \<and> tablesOk a
     \<and> 0 \<le> bu_steps (remainingBudget a) \<and> 0 \<le> bu_tokens (remainingBudget a) \<and> (\<forall>tid. withinTask a approved tid)"

lemma reserve_budgetInv:
  assumes inv: "budgetInv limit approved a" and res: "reserveTaskBudget H a input = Inr res"
    and own: "ri_task_budget input = approved (ri_task_id input)"
  shows "budgetInv limit approved (rr_account res)"
proof -
  let ?tid = "ri_task_id input"
  let ?rv = "\<lparr>bu_steps = ri_steps input, bu_tokens = ri_tokens input, rv_lease_id = ri_lease_id input,
        rv_fencing_token = ri_fencing_token input\<rparr>"
  from res obtain "0 \<le> ri_steps input" "0 \<le> ri_tokens input" and free: "jm_get (ba_reservations a) ?tid = None"
    and task: "ri_steps input \<le> tb_steps (approved ?tid) - bu_steps (consumedOf a ?tid)"
      "ri_tokens input \<le> tb_tokens (approved ?tid) - bu_tokens (consumedOf a ?tid)"
    and avail: "ri_steps input \<le> bu_steps (remainingBudget a)" "ri_tokens input \<le> bu_tokens (remainingBudget a)"
    and acc: "rr_account res = a\<lparr>ba_reservations := jm_set ?tid ?rv (ba_reservations a)\<rparr>"
    by (rule reserveTaskBudget_Inr) (simp add: own)
  have tables: "tablesOk (rr_account res)" using inv by (simp add: acc budgetInv_def tablesOk_def distinct_update)
  have "0 \<le> bu_steps (consumedOf a ?tid)" "0 \<le> bu_tokens (consumedOf a ?tid)"
    using inv by (auto simp: budgetInv_def withinTask_def consumedOf_def dest: spec [of _ ?tid])
  then have "withinTask (rr_account res) approved tid" for tid
    using inv task \<open>0 \<le> ri_steps input\<close> \<open>0 \<le> ri_tokens input\<close>
    by (cases "tid = ?tid") (auto simp: budgetInv_def withinTask_def acc consumedOf_def reservedOf_def)
  moreover have "bu_steps (remainingBudget (rr_account res)) = bu_steps (remainingBudget a) - ri_steps input"
    "bu_tokens (remainingBudget (rr_account res)) = bu_tokens (remainingBudget a) - ri_tokens input"
    using inv free by (simp_all add: acc remainingBudget_steps sum_update budgetInv_def tablesOk_def)
  ultimately show ?thesis using inv tables avail by (simp add: budgetInv_def acc)
qed

lemma settle_budgetInv:
  assumes inv: "budgetInv limit approved a" and res: "settleTaskBudget a input = Inr res"
  shows "budgetInv limit approved (sr_account res)"
proof -
  let ?tid = "si_task_id input" and ?c = "si_consumed input"
  from res obtain rv where rv: "jm_get (ba_reservations a) ?tid = Some rv"
    and c: "0 \<le> bu_steps ?c" "0 \<le> bu_tokens ?c" "bu_steps ?c \<le> bu_steps rv" "bu_tokens ?c \<le> bu_tokens rv"
    and acc: "sr_account res = closeReservation a ?tid ?c"
    by (rule settleTaskBudget_Inr)
  have tables: "tablesOk a" using inv by (simp add: budgetInv_def)
  have "withinTask a approved ?tid" using inv by (simp add: budgetInv_def)
  then have "withinTask (sr_account res) approved ?tid"
    using rv c by (auto simp: withinTask_def acc closeReservation_def consumedOf_def reservedOf_def)
  then have "withinTask (sr_account res) approved tid" for tid
    using inv by (cases "tid = ?tid") (auto simp: budgetInv_def withinTask_def acc closeReservation_def consumedOf_def reservedOf_def)
  then show ?thesis
    using inv c closeReservation_remaining [OF tables rv] closeReservation_tables [OF tables]
    by (simp add: budgetInv_def acc) (simp add: closeReservation_def)
qed

text \<open>
  C3. No sequence of reservations and settlements overspends: what the tasks of an iteration have
  consumed plus what they hold reserved never exceeds the iteration limit, and for every task never
  exceeds its own approved budget, over all its attempts together.
\<close>
theorem budget_never_overspent:
  assumes "budgetReachable H limit deadline approved a" "0 \<le> ib_steps limit" "0 \<le> ib_tokens limit"
  shows "(\<Sum>e \<leftarrow> ba_consumed a. bu_steps (snd e)) + (\<Sum>e \<leftarrow> ba_reservations a. bu_steps (snd e)) \<le> ib_steps limit
     \<and> (\<Sum>e \<leftarrow> ba_consumed a. bu_tokens (snd e)) + (\<Sum>e \<leftarrow> ba_reservations a. bu_tokens (snd e)) \<le> ib_tokens limit
     \<and> (\<forall>tid. withinTask a approved tid)"
proof -
  from assms(1) have "budgetInv limit approved a"
  proof induction
    case create
    then show ?case using assms(2,3)
      by (simp add: budgetInv_def createIterationBudgetAccount_def tablesOk_def remainingBudget_steps withinTask_def)
  qed (auto intro: reserve_budgetInv settle_budgetInv)
  then show ?thesis by (auto simp: budgetInv_def remainingBudget_steps)
qed

text \<open>
  A settlement returns the unused part of the reservation to the iteration exactly once: the
  availability grows by the amount returned, which is the reservation less the consumption, and every
  further settlement of the same task fails until a new reservation is made.
\<close>
theorem settle_returns_once:
  assumes "budgetReachable H limit deadline approved a"
    and settled: "settleTaskBudget a input = Inr res" and again: "si_task_id again = si_task_id input"
  shows "bu_steps (sr_remaining res) = bu_steps (remainingBudget a) + bu_steps (sr_returned res)
     \<and> bu_tokens (sr_remaining res) = bu_tokens (remainingBudget a) + bu_tokens (sr_returned res)
     \<and> 0 \<le> bu_steps (sr_returned res) \<and> 0 \<le> bu_tokens (sr_returned res)
     \<and> (\<forall>r. settleTaskBudget (sr_account res) again \<noteq> Inr r)"
proof -
  have tables: "tablesOk a" using assms(1)
  proof induction
    case create
    then show ?case by (simp add: tablesOk_def createIterationBudgetAccount_def)
  next
    case (reserve a input res)
    then show ?case by (auto elim!: reserveTaskBudget_Inr simp: tablesOk_def distinct_update)
  next
    case (settle a input res)
    then show ?case by (auto elim!: settleTaskBudget_Inr intro: closeReservation_tables)
  qed
  show ?thesis
    using settled
  proof (rule settleTaskBudget_Inr)
    fix rv
    assume rv: "jm_get (ba_reservations a) (si_task_id input) = Some rv"
      and le: "bu_steps (si_consumed input) \<le> bu_steps rv" "bu_tokens (si_consumed input) \<le> bu_tokens rv"
      and acc: "sr_account res = closeReservation a (si_task_id input) (si_consumed input)"
      and r: "sr_remaining res = remainingBudget (sr_account res)"
        "sr_returned res = \<lparr>bu_steps = bu_steps rv - bu_steps (si_consumed input), bu_tokens = bu_tokens rv - bu_tokens (si_consumed input)\<rparr>"
    have "jm_get (ba_reservations (sr_account res)) (si_task_id again) = None"
      using again by (simp add: acc closeReservation_def)
    then have "settleTaskBudget (sr_account res) again \<noteq> Inr x" for x by (auto elim!: settleTaskBudget_Inr)
    then show ?thesis using le r closeReservation_remaining [OF tables rv] by (simp add: acc)
  qed
qed

text \<open>
  A reservation fits and is bounded in time: when one is made, the task held none, the amount fits
  both what is left of the task's budget and what is left of the iteration, and the lease expires no
  later than the iteration deadline, which has not passed.
\<close>
theorem reserve_fits:
  assumes "reserveTaskBudget H a input = Inr res"
  shows "jm_get (ba_reservations a) (ri_task_id input) = None
     \<and> ri_steps input \<le> bu_steps (remainingBudget a) \<and> ri_tokens input \<le> bu_tokens (remainingBudget a)
     \<and> bu_steps (consumedOf a (ri_task_id input)) + ri_steps input \<le> tb_steps (ri_task_budget input)
     \<and> bu_tokens (consumedOf a (ri_task_id input)) + ri_tokens input \<le> tb_tokens (ri_task_budget input)
     \<and> reservedOf (rr_account res) (ri_task_id input) = rr_reserved_budget res
     \<and> (\<exists>nowMs deadlineMs expiry. h_dateParse H (ri_now input) = Some nowMs
          \<and> h_dateParse H (ba_iteration_deadline a) = Some deadlineMs \<and> nowMs < deadlineMs
          \<and> rr_expires_at res = h_toIso H expiry \<and> expiry \<le> deadlineMs
          \<and> expiry \<le> nowMs + \<lfloor>ri_task_remaining_duration_ms input\<rfloor>)"
  using assms
proof (rule reserveTaskBudget_Inr)
  fix nowMs deadlineMs
  assume dates: "h_dateParse H (ri_now input) = Some nowMs" "h_dateParse H (ba_iteration_deadline a) = Some deadlineMs"
      "nowMs < deadlineMs"
    and expiry: "rr_expires_at res = h_toIso H (min (nowMs + \<lfloor>ri_task_remaining_duration_ms input\<rfloor>) deadlineMs)"
    and rest: "jm_get (ba_reservations a) (ri_task_id input) = None"
      "ri_steps input \<le> tb_steps (ri_task_budget input) - bu_steps (consumedOf a (ri_task_id input))"
      "ri_tokens input \<le> tb_tokens (ri_task_budget input) - bu_tokens (consumedOf a (ri_task_id input))"
      "ri_steps input \<le> bu_steps (remainingBudget a)" "ri_tokens input \<le> bu_tokens (remainingBudget a)"
      "rr_account res = a\<lparr>ba_reservations := jm_set (ri_task_id input)
         \<lparr>bu_steps = ri_steps input, bu_tokens = ri_tokens input, rv_lease_id = ri_lease_id input,
          rv_fencing_token = ri_fencing_token input\<rparr> (ba_reservations a)\<rparr>"
      "rr_reserved_budget res = \<lparr>bu_steps = ri_steps input, bu_tokens = ri_tokens input\<rparr>"
  have "\<exists>expiry. rr_expires_at res = h_toIso H expiry \<and> expiry \<le> deadlineMs
      \<and> expiry \<le> nowMs + \<lfloor>ri_task_remaining_duration_ms input\<rfloor>"
    using expiry by (intro exI [of _ "min (nowMs + \<lfloor>ri_task_remaining_duration_ms input\<rfloor>) deadlineMs"]) simp
  then show ?thesis using dates rest by (auto simp: reservedOf_def)
qed

section \<open>A concrete iteration\<close>

definition exampleLimit :: iteration_budget where
  "exampleLimit = \<lparr>ib_steps = 10, ib_tokens = 200, ib_duration_ms = 5\<rparr>"

definition exampleAccount :: iteration_budget_account where
  "exampleAccount = createIterationBudgetAccount exampleLimit ''iiiii''"

definition exampleReserve :: reserve_task_budget_input where
  "exampleReserve = \<lparr>ri_task_id = ''task_a'', ri_lease_id = ''lease_a'', ri_fencing_token = 1,
     ri_task_budget = \<lparr>tb_steps = 6, tb_tokens = 100, tb_duration_ms = Some 3\<rparr>, ri_task_remaining_duration_ms = 3,
     ri_steps = 5, ri_tokens = 80, ri_now = ''i''\<rparr>"

definition exampleSettle :: settle_task_budget_input where
  "exampleSettle = \<lparr>si_task_id = ''task_a'', si_lease_id = ''lease_a'', si_fencing_token = 1,
     si_consumed = \<lparr>bu_steps = 2, bu_tokens = 30\<rparr>\<rparr>"

definition reservedAccount :: iteration_budget_account where
  "reservedAccount = exampleAccount\<lparr>ba_reservations := [(''task_a'', \<lparr>bu_steps = 5, bu_tokens = 80,
     rv_lease_id = ''lease_a'', rv_fencing_token = 1\<rparr>)]\<rparr>"

definition approvedExample :: "string \<Rightarrow> task_budget" where
  "approvedExample tid = \<lparr>tb_steps = 6, tb_tokens = 100, tb_duration_ms = Some 3\<rparr>"

lemma example_reserve:
  "reserveTaskBudget exampleHost exampleAccount exampleReserve =
     Inr \<lparr>rr_account = reservedAccount, rr_reserved_budget = \<lparr>bu_steps = 5, bu_tokens = 80\<rparr>, rr_expires_at = ''iiii''\<rparr>"
  by (simp add: reserveTaskBudget_def exampleAccount_def exampleReserve_def assertAmount_def createIterationBudgetAccount_def
      exampleLimit_def consumedOf_def remainingBudget_def sumAmounts_def reservedAccount_def eval_nat_numeral)

lemma example_settle: "\<exists>res. settleTaskBudget reservedAccount exampleSettle = Inr res"
  by (simp add: settleTaskBudget_def reservedAccount_def exampleSettle_def assertAmount_def Let_def)

lemma reservedAccount_reachable: "budgetReachable exampleHost exampleLimit ''iiiii'' approvedExample reservedAccount"
  using budgetReachable.reserve [OF budgetReachable.create example_reserve [unfolded exampleAccount_def], of approvedExample]
  by (simp add: approvedExample_def exampleReserve_def)

theorem budget_never_overspent_witness:
  "budgetReachable exampleHost exampleLimit ''iiiii'' approvedExample reservedAccount
   \<and> withinTask reservedAccount approvedExample ''task_a''"
  using budget_never_overspent [OF reservedAccount_reachable] reservedAccount_reachable by (simp add: exampleLimit_def)

theorem settle_returns_once_witness:
  "\<exists>res. settleTaskBudget reservedAccount exampleSettle = Inr res
   \<and> (\<forall>r. settleTaskBudget (sr_account res) exampleSettle \<noteq> Inr r)"
  using settle_returns_once [OF reservedAccount_reachable _ refl] example_settle by blast

theorem reserve_fits_witness:
  "reservedOf reservedAccount ''task_a'' = \<lparr>bu_steps = 5, bu_tokens = 80\<rparr>"
  using reserve_fits [OF example_reserve] by (simp add: exampleReserve_def)

end
