(* ===== verification/Budget_Restore.thy ===== *)
theory Budget_Restore
  imports Budget_Account Lease_Examples
begin

text \<open>
  Restoration of the budget account (\<open>restoreBudgetAccount\<close> of \<^verbatim>\<open>runtime/src/scheduling/budget.ts\<close>). The
  ledger is the authority: the account is a function of the accepted lease chain, task by task, and an
  account kept live in step with the ledger is the account that is restored from it.
\<close>

section \<open>Replay order\<close>

text \<open>A comparator with the laws that agrees with \<open>fencingCompare\<close> on the records of one task.\<close>

definition fencingOrder :: "task_lease_record \<Rightarrow> task_lease_record \<Rightarrow> int" where
  "fencingOrder = orElse (\<lambda>a b. lr_fencing_token a - lr_fencing_token b)
     (\<lambda>a b. (if lr_state a = granted then 0 else 1) - (if lr_state b = granted then 0 else 1))"

interpretation fencing: consistent_comparator fencingOrder
  unfolding fencingOrder_def
  by (intro consistent_orElse consistent_key [OF consistent_difference, of "\<lambda>a. lr_fencing_token a"]
      consistent_key [OF consistent_difference, of "\<lambda>a. if lr_state a = granted then 0 else 1"])

lemma distinct_taskGroups: "distinct (taskGroups tid (groupsOf rs))"
proof -
  have "distinct (groupsOf rs)"
  proof (unfold distinct_map, intro conjI inj_onI)
    show "distinct (leaseGroups rs)" using distinct_leaseGroups distinct_map by blast
    fix x y assume x: "x \<in> set (leaseGroups rs)" and y: "y \<in> set (leaseGroups rs)" and eq: "snd x = snd y"
    obtain k g l where xy: "x = (k, g)" "y = (l, g)" using eq by (metis prod.collapse)
    have "g = filter (\<lambda>r. lr_lease_id r = k) rs \<and> g \<noteq> []" using x unfolding xy leaseGroups_mem .
    moreover have "g = filter (\<lambda>r. lr_lease_id r = l) rs \<and> g \<noteq> []" using y unfolding xy leaseGroups_mem .
    ultimately have "hd g \<in> {r. lr_lease_id r = k}" "hd g \<in> {r. lr_lease_id r = l}"
      by (metis hd_in_set mem_Collect_eq filter_set set_filter)+
    then show "x = y" using xy by simp
  qed
  then show ?thesis by (simp add: taskGroups_def)
qed

lemma concat_taskGroups:
  assumes valid: "validChain rs" and dist: "distinct rs"
  shows "mset (concat (taskGroups tid (groupsOf rs))) = mset (filter (\<lambda>r. lr_task_id r = tid) rs)"
proof -
  let ?G = "taskGroups tid (groupsOf rs)"
  note m = task_group_members [OF valid]
  have "distinct (concat ?G)"
  proof (rule distinct_concat [OF distinct_taskGroups])
    show "distinct g" if "g \<in> set ?G" for g using m(5) [OF that] dist by (metis distinct_filter)
    show "set g \<inter> set h = {}" if g: "g \<in> set ?G" and h: "h \<in> set ?G" and ne: "g \<noteq> h" for g h
    proof (rule ccontr)
      assume "set g \<inter> set h \<noteq> {}"
      then obtain r where r: "r \<in> set g" "r \<in> set h" by blast
      have "lr_lease_id r = lr_lease_id (hd g)" using r(1) m(5) [OF g] by (metis (mono_tags, lifting) filter_set mem_Collect_eq set_filter)
      moreover have "lr_lease_id r = lr_lease_id (hd h)" using r(2) m(5) [OF h] by (metis (mono_tags, lifting) filter_set mem_Collect_eq set_filter)
      ultimately show False using ne m(5) [OF g] m(5) [OF h] by simp
    qed
  qed
  moreover have "set (concat ?G) = set (filter (\<lambda>r. lr_task_id r = tid) rs)"
  proof
    show "set (concat ?G) \<subseteq> set (filter (\<lambda>r. lr_task_id r = tid) rs)"
    proof
      fix r assume "r \<in> set (concat ?G)"
      then obtain g where "g \<in> set ?G" "r \<in> set g" by auto
      then show "r \<in> set (filter (\<lambda>r. lr_task_id r = tid) rs)" using m(2,4) by auto
    qed
    show "set (filter (\<lambda>r. lr_task_id r = tid) rs) \<subseteq> set (concat ?G)"
    proof
      fix r assume "r \<in> set (filter (\<lambda>r. lr_task_id r = tid) rs)"
      then have r: "r \<in> set rs" "lr_task_id r = tid" by auto
      then obtain g where "g \<in> set ?G" "r \<in> set g" using record_group [OF valid r(1)] by metis
      then show "r \<in> set (concat ?G)" by auto
    qed
  qed
  ultimately show ?thesis using dist set_eq_iff_mset_eq_distinct distinct_filter by blast
qed

text \<open>The replay processes the leases of a task one after the other.\<close>

lemma replay_order:
  assumes valid: "validChain rs" and dist: "distinct rs"
  shows "sort_by fencingCompare (filter (\<lambda>r. lr_task_id r = tid) rs) = concat (taskGroups tid (groupsOf rs))"
proof -
  let ?xs = "filter (\<lambda>r. lr_task_id r = tid) rs" and ?G = "taskGroups tid (groupsOf rs)"
  have "sort_by fencingCompare ?xs = sort_by fencingOrder ?xs"
  proof (rule sort_by_cong)
    fix a b assume "a \<in> set ?xs" "b \<in> set ?xs" "a \<noteq> b"
    then show "(fencingCompare a b \<le> 0) = (fencingOrder a b \<le> 0)"
      using same_token_pair [OF valid, of a b] by (auto simp: fencingCompare_def fencingOrder_def orElse_def)
  qed (use dist in simp)
  also have "\<dots> = sort_by fencingOrder (concat ?G)"
  proof (rule fencing.sort_by_unique)
    show "mset ?xs = mset (concat ?G)" using concat_taskGroups [OF assms] by simp
    fix a b assume ab: "a \<in> set ?xs" "b \<in> set ?xs" "fencingOrder a b \<le> 0" "fencingOrder b a \<le> 0"
    then have "fencingOrder a b = 0" by (simp add: fencing.cmp_eq_iff)
    then have "lr_fencing_token a = lr_fencing_token b" "(lr_state a = granted) = (lr_state b = granted)"
      by (auto simp: fencingOrder_def orElse_def split: if_splits)
    then show "a = b" using same_token_pair [OF valid, of a b] ab by auto
  qed
  also have "\<dots> = concat ?G"
  proof (rule fencing.sort_by_sorted, rule sorted_wrt_concat)
    note m = task_group_members [OF valid]
    have succ: "successively nextOk ?G" using valid by (simp add: validChain_def)
    show "sorted_wrt (\<lambda>g h. \<forall>x \<in> set g. \<forall>y \<in> set h. fencingOrder x y \<le> 0) ?G"
    proof (unfold sorted_wrt_iff_nth_less, intro allI impI ballI)
      fix i j x y assume ij: "i < j" "j < length ?G" and xy: "x \<in> set (?G ! i)" "y \<in> set (?G ! j)"
      have "?G ! i \<in> set ?G" "?G ! j \<in> set ?G" using ij by auto
      then have "lr_fencing_token x < lr_fencing_token y"
        using attempts_ordered(1) [OF succ ij] group_uniform(2) [OF m(1)] xy by metis
      then show "fencingOrder x y \<le> 0" by (simp add: fencingOrder_def orElse_def)
    qed
    show "sorted_wrt (\<lambda>x y. fencingOrder x y \<le> 0) g" if "g \<in> set ?G" for g
      using m(1) [OF that] sameLeaseIdentity(2)
      by (auto simp: checkLeaseGroup_iff opens_def terminates_def fencingOrder_def orElse_def)
  qed
  finally show ?thesis .
qed

section \<open>The account as a function of the chain\<close>

text \<open>What one task contributes: the consumption of its closed leases, the reservation of its open one.\<close>

definition closedLeases :: "task_lease_record list list \<Rightarrow> task_lease_record list" where
  "closedLeases gs = map last (filter (\<lambda>g. length g = 2) gs)"

definition consumedSpec :: "task_lease_record list list \<Rightarrow> lease_budget option" where
  "consumedSpec gs = (if closedLeases gs = [] then None
     else Some \<lparr>bu_steps = (\<Sum>t \<leftarrow> closedLeases gs. bu_steps (lr_consumed_budget t)),
                bu_tokens = (\<Sum>t \<leftarrow> closedLeases gs. bu_tokens (lr_consumed_budget t))\<rparr>)"

definition leaseReservation :: "task_lease_record \<Rightarrow> budget_reservation" where
  "leaseReservation r = \<lparr>bu_steps = bu_steps (lr_reserved_budget r), bu_tokens = bu_tokens (lr_reserved_budget r),
     rv_lease_id = lr_lease_id r, rv_fencing_token = lr_fencing_token r\<rparr>"

definition reservedSpec :: "task_lease_record list list \<Rightarrow> budget_reservation option" where
  "reservedSpec gs = (if gs = [] \<or> length (last gs) = 2 then None else Some (leaseReservation (hd (last gs))))"

text \<open>An account agrees with the groups of every task.\<close>

definition accountOf :: "(string \<Rightarrow> task_lease_record list list) \<Rightarrow> iteration_budget_account \<Rightarrow> bool" where
  "accountOf gs a \<longleftrightarrow> tablesOk a
     \<and> (\<forall>tid. jm_get (ba_consumed a) tid = consumedSpec (gs tid) \<and> jm_get (ba_reservations a) tid = reservedSpec (gs tid))"

text \<open>A task's groups as the chain guarantees them: every lease but the last is closed within its reservation.\<close>

definition replayable :: "task_lease_record list list \<Rightarrow> bool" where
  "replayable gs \<longleftrightarrow>
     (\<forall>g \<in> set gs. checkLeaseGroup g = Inr ()
        \<and> (\<forall>r \<in> set g. bu_steps (lr_consumed_budget r) \<le> bu_steps (lr_reserved_budget r)
             \<and> bu_tokens (lr_consumed_budget r) \<le> bu_tokens (lr_reserved_budget r)))
     \<and> (\<forall>g \<in> set (butlast gs). length g = 2)"

lemma reservedSpec_closed: "(\<forall>g \<in> set gs. length g = 2) \<Longrightarrow> reservedSpec gs = None"
  unfolding reservedSpec_def using last_in_set by metis

lemma consumedSpec_snoc:
  "consumedSpec (gs @ [g]) = (if length g = 2
     then Some (case consumedSpec gs of
       None \<Rightarrow> \<lparr>bu_steps = bu_steps (lr_consumed_budget (last g)), bu_tokens = bu_tokens (lr_consumed_budget (last g))\<rparr>
     | Some c \<Rightarrow> \<lparr>bu_steps = bu_steps c + bu_steps (lr_consumed_budget (last g)),
                  bu_tokens = bu_tokens c + bu_tokens (lr_consumed_budget (last g))\<rparr>)
     else consumedSpec gs)"
  by (simp add: consumedSpec_def closedLeases_def)

lemma replayable_snoc: "replayable (gs @ [g]) \<Longrightarrow> replayable gs \<and> (\<forall>h \<in> set gs. length h = 2)"
  by (auto simp: replayable_def dest: in_set_butlastD)

text \<open>Opening and closing on an account that agrees with the groups.\<close>

lemma accountOf_open:
  assumes "accountOf gs a" "length (gs tid) = 0 \<or> length (last (gs tid)) = 2" "opens g"
  shows "accountOf (gs(tid := gs tid @ [[g]])) (openReservation a tid g)"
  using assms
  by (auto simp: accountOf_def openReservation_def tablesOk_def distinct_update consumedSpec_snoc reservedSpec_def
      leaseReservation_def)

lemma accountOf_close:
  assumes "accountOf gs a" "gs tid = hs @ [[g]]"
  shows "accountOf (gs(tid := hs @ [[g, t]])) (closeReservation a tid (lr_consumed_budget t))"
proof -
  have old: "jm_get (ba_consumed a) tid = consumedSpec hs"
    using assms by (simp add: accountOf_def consumedSpec_snoc)
  have "tablesOk (closeReservation a tid (lr_consumed_budget t))"
    using assms(1) closeReservation_tables by (auto simp: accountOf_def)
  moreover have "jm_get (ba_consumed (closeReservation a tid (lr_consumed_budget t))) tid = consumedSpec (hs @ [[g, t]])"
    using old by (auto simp: closeReservation_def consumedOf_def consumedSpec_snoc split: option.splits)
  moreover have "jm_get (ba_reservations (closeReservation a tid (lr_consumed_budget t))) tid = reservedSpec (hs @ [[g, t]])"
    by (simp add: closeReservation_def reservedSpec_def)
  ultimately show ?thesis
    using assms(1) by (auto simp: accountOf_def closeReservation_def)
qed

lemma replay_group:
  assumes acc: "accountOf gs a" and prior: "\<forall>h \<in> set (gs tid). length h = 2" and ok: "replayable (gs tid @ [g])"
  shows "\<exists>a'. foldR (replayRecord tid) a g = Inr a' \<and> accountOf (gs(tid := gs tid @ [g])) a'
     \<and> ba_limit a' = ba_limit a"
proof -
  have "checkLeaseGroup g = Inr ()" using ok by (simp add: replayable_def)
  then obtain r where r: "opens r" and shape: "g = [r] \<or> (\<exists>t. g = [r, t] \<and> terminates t r)"
    by (auto simp: checkLeaseGroup_iff)
  have none: "jm_get (ba_reservations a) tid = None"
    using acc reservedSpec_closed [OF prior] by (simp add: accountOf_def)
  have first: "replayRecord tid a r = Inr (openReservation a tid r)"
    using none r by (simp add: replayRecord_def opens_def)
  have opened: "accountOf (gs(tid := gs tid @ [[r]])) (openReservation a tid r)"
    by (rule accountOf_open [OF acc _ r]) (use prior last_in_set in \<open>metis length_0_conv\<close>)
  from shape show ?thesis
  proof
    assume "g = [r]"
    then show ?thesis using first opened by (simp add: openReservation_def)
  next
    assume "\<exists>t. g = [r, t] \<and> terminates t r"
    then obtain t where t: "g = [r, t]" "terminates t r" by blast
    have "jm_get (ba_reservations (openReservation a tid r)) tid = Some (leaseReservation r)"
      by (simp add: openReservation_def leaseReservation_def)
    moreover have "bu_steps (lr_consumed_budget t) \<le> bu_steps (lr_reserved_budget r)"
      "bu_tokens (lr_consumed_budget t) \<le> bu_tokens (lr_reserved_budget r)"
      using ok t sameLeaseIdentity(6,7) by (auto simp: replayable_def terminates_def)
    ultimately have "replayRecord tid (openReservation a tid r) t
        = Inr (closeReservation (openReservation a tid r) tid (lr_consumed_budget t))"
      using t(2) sameLeaseIdentity(2,3) by (auto simp: replayRecord_def terminates_def terminal_state leaseReservation_def)
    moreover have "accountOf (gs(tid := gs tid @ [[r, t]])) (closeReservation (openReservation a tid r) tid (lr_consumed_budget t))"
      using accountOf_close [OF opened, of tid "gs tid" r t] by simp
    ultimately show ?thesis
      using first t(1) by (simp add: closeReservation_def openReservation_def)
  qed
qed

lemma replay_task:
  assumes "accountOf base a" "base tid = []" "replayable gs"
  shows "\<exists>a'. foldR (replayRecord tid) a (concat gs) = Inr a' \<and> accountOf (base(tid := gs)) a' \<and> ba_limit a' = ba_limit a"
  using assms(3)
proof (induction gs rule: rev_induct)
  case Nil
  then show ?case using assms(1,2) by (metis concat.simps(1) foldR.simps(1) fun_upd_triv)
next
  case (snoc g gs)
  then have prior: "replayable gs" "\<forall>h \<in> set gs. length h = 2" using replayable_snoc by auto
  obtain a1 where a1: "foldR (replayRecord tid) a (concat gs) = Inr a1" "accountOf (base(tid := gs)) a1" "ba_limit a1 = ba_limit a"
    using snoc.IH [OF prior(1)] by blast
  obtain a2 where "foldR (replayRecord tid) a1 g = Inr a2" "accountOf (base(tid := gs @ [g])) a2" "ba_limit a2 = ba_limit a1"
    using replay_group [OF a1(2), of tid g] prior(2) snoc.prems by auto
  then show ?case using a1(1,3) by (simp add: foldR_append del: fun_upd_apply)
qed

lemma consumedSpec_Nil [simp]: "consumedSpec [] = None" "reservedSpec [] = None"
  by (simp_all add: consumedSpec_def closedLeases_def reservedSpec_def)

lemma replay_all:
  assumes "accountOf base a" "distinct (map fst ts)" "\<forall>(tid, rs) \<in> set ts. base tid = []"
    and "\<forall>(tid, rs) \<in> set ts. sort_by fencingCompare rs = concat (gs tid) \<and> replayable (gs tid)"
  shows "\<exists>a'. foldR (\<lambda>account (tid, taskRecords). foldR (replayRecord tid) account (sort_by fencingCompare taskRecords)) a ts = Inr a'
     \<and> accountOf (\<lambda>tid. if tid \<in> fst ` set ts then gs tid else base tid) a' \<and> ba_limit a' = ba_limit a"
  using assms
proof (induction ts arbitrary: a base)
  case (Cons e ts)
  obtain tid rs where e: "e = (tid, rs)" by fastforce
  obtain a1 where a1: "foldR (replayRecord tid) a (concat (gs tid)) = Inr a1" "accountOf (base(tid := gs tid)) a1"
    "ba_limit a1 = ba_limit a"
    using replay_task [OF Cons.prems(1), of tid "gs tid"] Cons.prems(3,4) e by auto
  have fresh: "tid \<notin> fst ` set ts" using Cons.prems(2) e by auto
  have rest: "\<exists>a'. foldR (\<lambda>account (tid, taskRecords). foldR (replayRecord tid) account (sort_by fencingCompare taskRecords)) a1 ts = Inr a'
     \<and> accountOf (\<lambda>k. if k \<in> fst ` set ts then gs k else (base(tid := gs tid)) k) a' \<and> ba_limit a' = ba_limit a1"
    by (rule Cons.IH [OF a1(2)]) (use Cons.prems(2-4) e fresh in \<open>force+\<close>)
  have "(\<lambda>k. if k \<in> fst ` set ts then gs k else (base(tid := gs tid)) k) = (\<lambda>k. if k \<in> fst ` set (e # ts) then gs k else base k)"
    using e by auto
  then show ?case using rest a1(1,3) Cons.prems(4) e by auto
qed (auto simp: fun_upd_idem)

text \<open>The groups of an accepted chain can be replayed.\<close>

lemma chain_replayable:
  assumes "buildTaskLeaseChain H records = Inr chain"
  shows "replayable (taskGroups tid (groupsOf (chain_records chain)))" "distinct (chain_records chain)"
proof -
  let ?rs = "chain_records chain" and ?G = "taskGroups tid (groupsOf (chain_records chain))"
  have valid: "validChain ?rs" using buildTaskLeaseChain_facts(2) [OF assms] .
  obtain b where admit: "foldR (admitRecord H) ([], []) records = Inr (?rs, b)"
    using buildTaskLeaseChain_facts(1) [OF assms] by blast
  note inv = admit_all_invariant [OF admit]
  show "distinct ?rs" using inv distinct_map by blast
  note m = task_group_members [OF valid]
  have "length g = 2" if g: "g \<in> set (butlast ?G)" for g
  proof -
    obtain i where i: "i < length ?G - 1" "g = ?G ! i"
      using g by (metis in_set_conv_nth length_butlast nth_butlast)
    then have "i < Suc i" "Suc i < length ?G" by auto
    moreover have "successively nextOk ?G" using valid by (simp add: validChain_def)
    ultimately have "isTerminal (lr_state (last g))" using attempts_ordered(2) i by blast
    moreover have "checkLeaseGroup g = Inr ()" using m(1) g in_set_butlastD by metis
    ultimately show ?thesis by (auto simp: checkLeaseGroup_iff opens_def terminal_state)
  qed
  moreover have "leaseSemantics H r" if "g \<in> set ?G" "r \<in> set g" for g r
    using m(2) [OF that(1)] that(2) inv by (auto simp: admissible_def)
  ultimately show "replayable ?G"
    using m(1) unfolding replayable_def leaseSemantics_def by blast
qed

lemma restore_replays:
  assumes chain: "buildTaskLeaseChain H records = Inr chain"
  obtains a where "accountOf (\<lambda>tid. taskGroups tid (groupsOf (chain_records chain))) a" "ba_limit a = limit"
    "restoreBudgetAccount H limit deadline records =
       (if bu_steps (remainingBudget a) < 0 \<or> bu_tokens (remainingBudget a) < 0
        then Inl (BudgetAccountingError account_inconsistent) else Inr a)"
proof -
  let ?rs = "chain_records chain" and ?ts = "foldl addToTask [] (chain_records chain)"
  let ?gs = "\<lambda>tid. taskGroups tid (groupsOf (chain_records chain))"
  have valid: "validChain ?rs" using buildTaskLeaseChain_facts(2) [OF chain] .
  note rep = chain_replayable [OF chain]
  have start: "accountOf (\<lambda>_. []) (createIterationBudgetAccount limit deadline)"
    by (simp add: accountOf_def tablesOk_def createIterationBudgetAccount_def)
  have mem: "(tid, g) \<in> set ?ts \<longleftrightarrow> g = filter (\<lambda>r. lr_task_id r = tid) ?rs \<and> g \<noteq> []" for tid g
    unfolding addToTask_def by (rule group_mem)
  have each: "\<forall>(tid, rs) \<in> set ?ts. sort_by fencingCompare rs = concat (?gs tid) \<and> replayable (?gs tid)"
    using rep(1) replay_order [OF valid rep(2)] by (auto simp: mem)
  obtain a where a: "foldR (\<lambda>account (tid, taskRecords). foldR (replayRecord tid) account (sort_by fencingCompare taskRecords))
      (createIterationBudgetAccount limit deadline) ?ts = Inr a"
    "accountOf (\<lambda>tid. if tid \<in> fst ` set ?ts then ?gs tid else []) a" "ba_limit a = limit"
    using replay_all [OF start _ _ each] distinct_groups [of lr_task_id ?rs]
    by (auto simp: addToTask_def createIterationBudgetAccount_def)
  have "(\<lambda>tid. if tid \<in> fst ` set ?ts then ?gs tid else []) = ?gs"
  proof
    fix tid
    have "?gs tid = []" if "tid \<notin> fst ` set ?ts"
    proof (rule ccontr)
      assume "?gs tid \<noteq> []"
      then obtain g where g: "g \<in> set (?gs tid)" by (cases "?gs tid") auto
      note m = task_group_members [OF valid g]
      have "hd g \<in> set (filter (\<lambda>r. lr_task_id r = tid) ?rs)" using m by auto
      then have "(tid, filter (\<lambda>r. lr_task_id r = tid) ?rs) \<in> set ?ts" by (metis empty_iff empty_set mem)
      then show False using that by force
    qed
    then show "(if tid \<in> fst ` set ?ts then ?gs tid else []) = ?gs tid" by auto
  qed
  then show ?thesis using a chain by (intro that [of a]) (simp_all add: restoreBudgetAccount_def Let_def)
qed

text \<open>
  The restored account is determined by the accepted lease chain, whatever the interleaving of the
  tasks in the ledger: a task's consumption is the sum over its closed leases, its reservation is that of
  its open lease, and restoration fails only when these together exceed the iteration limit.
\<close>
theorem restoreBudgetAccount_chain:
  assumes "buildTaskLeaseChain H records = Inr chain"
  shows "\<exists>a. accountOf (\<lambda>tid. taskGroups tid (groupsOf (chain_records chain))) a \<and> ba_limit a = limit
     \<and> restoreBudgetAccount H limit deadline records =
         (if bu_steps (remainingBudget a) < 0 \<or> bu_tokens (remainingBudget a) < 0
          then Inl (BudgetAccountingError account_inconsistent) else Inr a)"
  using restore_replays [OF assms, of limit deadline] by metis

section \<open>The live account\<close>

text \<open>
  The ledger and the live account, kept in step as the coordinator does: a grant is committed together
  with the reservation it carries, a terminal record together with the settlement of its consumption.
\<close>

inductive ledgerAccount ::
  "host \<Rightarrow> iteration_budget \<Rightarrow> string \<Rightarrow> task_lease_record list \<Rightarrow> iteration_budget_account \<Rightarrow> bool"
  for H limit deadline where
  start: "ledgerAccount H limit deadline [] (createIterationBudgetAccount limit deadline)"
| grant: "ledgerAccount H limit deadline records a \<Longrightarrow> buildTaskLeaseChain H records = Inr chain \<Longrightarrow>
    grantTaskLease H input = Inr r \<Longrightarrow> freshGrant chain input r \<Longrightarrow>
    reserveTaskBudget H a reservation = Inr res \<Longrightarrow> ri_task_id reservation = gi_task_id input \<Longrightarrow>
    ri_lease_id reservation = lr_lease_id r \<Longrightarrow> ri_fencing_token reservation = lr_fencing_token r \<Longrightarrow>
    gi_reserved_budget input = rr_reserved_budget res \<Longrightarrow>
    ledgerAccount H limit deadline (records @ [r]) (rr_account res)"
| close: "ledgerAccount H limit deadline records a \<Longrightarrow> buildTaskLeaseChain H records = Inr chain \<Longrightarrow>
    jm_get (latest_by_task chain) tid = Some current \<Longrightarrow> terminateTaskLease H current st (si_consumed settlement) cmd = Inr t \<Longrightarrow>
    cmd \<notin> lr_command_id ` set (chain_records chain) \<Longrightarrow>
    settleTaskBudget a settlement = Inr res' \<Longrightarrow> si_task_id settlement = tid \<Longrightarrow>
    ledgerAccount H limit deadline (records @ [t]) (sr_account res')"

lemma table_sum_eq:
  fixes f :: "'v \<Rightarrow> rat"
  assumes "distinct (map fst m)" "distinct (map fst n)" "map_of m = map_of n"
  shows "(\<Sum>e \<leftarrow> m. f (snd e)) = (\<Sum>e \<leftarrow> n. f (snd e))"
proof -
  have "mset m = mset n"
    using assms map_of_inject_set [OF assms(1,2)] by (simp add: set_eq_iff_mset_eq_distinct distinct_map)
  then have "mset (map (\<lambda>e. f (snd e)) m) = mset (map (\<lambda>e. f (snd e)) n)" by simp
  then show ?thesis by (metis sum_mset_sum_list)
qed

lemma accountOf_unique:
  assumes "accountOf gs a" "accountOf gs b" "ba_limit a = ba_limit b"
  shows "map_of (ba_consumed a) = map_of (ba_consumed b)" "map_of (ba_reservations a) = map_of (ba_reservations b)"
    "remainingBudget a = remainingBudget b"
proof -
  show maps: "map_of (ba_consumed a) = map_of (ba_consumed b)" "map_of (ba_reservations a) = map_of (ba_reservations b)"
    using assms(1,2) by (auto simp: accountOf_def)
  have "distinct (map fst (ba_consumed a))" "distinct (map fst (ba_consumed b))"
    "distinct (map fst (ba_reservations a))" "distinct (map fst (ba_reservations b))"
    using assms(1,2) by (simp_all add: accountOf_def tablesOk_def)
  note sums = table_sum_eq [OF this(1,2) maps(1)] table_sum_eq [OF this(3,4) maps(2)]
  show "remainingBudget a = remainingBudget b"
    by (rule lease_budget.equality) (simp_all add: remainingBudget_steps sums assms(3))
qed

lemma ledgerAccount_agrees:
  assumes "ledgerAccount H limit deadline records a"
  shows "\<exists>chain. buildTaskLeaseChain H records = Inr chain
     \<and> accountOf (\<lambda>tid. taskGroups tid (groupsOf (chain_records chain))) a \<and> ba_limit a = limit"
  using assms
proof induction
  case start
  have "buildTaskLeaseChain H [] = Inr \<lparr>latest_by_task = [], chain_records = []\<rparr>"
    by (simp add: buildTaskLeaseChain_def leaseGroups_def)
  then show ?case
    by (simp add: accountOf_def tablesOk_def createIterationBudgetAccount_def leaseGroups_def taskGroups_def)
next
  case (grant records a chain input r reservation res)
  let ?gs = "\<lambda>tid. taskGroups tid (groupsOf (chain_records chain))" and ?tid = "gi_task_id input"
  have acc: "accountOf ?gs a" "ba_limit a = limit" using grant.IH grant.hyps(2) by auto
  from grant.hyps(5) obtain "jm_get (ba_reservations a) (ri_task_id reservation) = None"
    and account: "rr_account res = a\<lparr>ba_reservations := jm_set (ri_task_id reservation)
       \<lparr>bu_steps = ri_steps reservation, bu_tokens = ri_tokens reservation, rv_lease_id = ri_lease_id reservation,
        rv_fencing_token = ri_fencing_token reservation\<rparr> (ba_reservations a)\<rparr>"
    and amount: "rr_reserved_budget res = \<lparr>bu_steps = ri_steps reservation, bu_tokens = ri_tokens reservation\<rparr>"
    by (rule reserveTaskBudget_Inr)
  then have closed: "length (?gs ?tid) = 0 \<or> length (last (?gs ?tid)) = 2"
    using acc(1) grant.hyps(6) by (auto simp: accountOf_def reservedSpec_def dest!: spec [of _ ?tid] split: if_splits)
  note g = grantTaskLease_Inr [OF grant.hyps(3)]
  obtain chain' where c: "buildTaskLeaseChain H (records @ [r]) = Inr chain'"
    and groups: "\<And>tid. taskGroups tid (groupsOf (chain_records chain')) = ?gs tid @ (if tid = ?tid then [[r]] else [])"
    using grant_chain [OF grant.hyps(2-4)] by blast
  have "rr_account res = openReservation a ?tid r"
    using account amount grant.hyps(6-9) g(12) by (simp add: openReservation_def)
  then have "accountOf (?gs(?tid := ?gs ?tid @ [[r]])) (rr_account res)"
    using accountOf_open [OF acc(1) closed g(2)] by simp
  moreover have "?gs(?tid := ?gs ?tid @ [[r]]) = (\<lambda>tid. taskGroups tid (groupsOf (chain_records chain')))"
    by (auto simp: groups)
  ultimately show ?case using c acc(2) account by auto
next
  case (close records a chain tid current st settlement cmd t res')
  let ?gs = "\<lambda>tid. taskGroups tid (groupsOf (chain_records chain))"
  have acc: "accountOf ?gs a" "ba_limit a = limit" using close.IH close.hyps(2) by auto
  from close.hyps(6) obtain rv where account: "sr_account res' = closeReservation a tid (si_consumed settlement)"
    by (rule settleTaskBudget_Inr) (simp add: close.hyps(7))
  obtain chain' G where c: "buildTaskLeaseChain H (records @ [t]) = Inr chain'" and old: "?gs tid = G @ [[current]]"
    and groups: "\<And>other. taskGroups other (groupsOf (chain_records chain')) =
       (if other = tid then G @ [[current, t]] else ?gs other)"
    using terminate_chain [OF close.hyps(2-5)] by blast
  have "accountOf (?gs(tid := G @ [[current, t]])) (sr_account res')"
    using accountOf_close [OF acc(1) old, of t] account terminateTaskLease_Inr(8) [OF close.hyps(4)] by simp
  moreover have "?gs(tid := G @ [[current, t]]) = (\<lambda>other. taskGroups other (groupsOf (chain_records chain')))"
    by (auto simp: groups)
  ultimately show ?case using c acc(2) account by (auto simp: closeReservation_def)
qed

lemma ledgerAccount_solvent:
  assumes "ledgerAccount H limit deadline records a" "0 \<le> ib_steps limit" "0 \<le> ib_tokens limit"
  shows "tablesOk a \<and> 0 \<le> bu_steps (remainingBudget a) \<and> 0 \<le> bu_tokens (remainingBudget a)"
  using assms(1)
proof induction
  case start
  then show ?case
    using assms(2,3) by (simp add: tablesOk_def createIterationBudgetAccount_def remainingBudget_steps)
next
  case (grant records a chain input r reservation res)
  from grant.hyps(5) grant.IH show ?case
    by (auto elim!: reserveTaskBudget_Inr simp: tablesOk_def distinct_update remainingBudget_steps sum_update)
next
  case (close records a chain tid current st settlement cmd t res')
  from close.hyps(6) close.IH show ?case
    by (auto elim!: settleTaskBudget_Inr simp: closeReservation_tables closeReservation_remaining)
qed

text \<open>
  C18. A restart restores the live account: if the account was kept in step with the ledger, restoring it
  from the ledger succeeds and gives the same consumption and reservation for every task and the same
  availability.
\<close>
theorem restoreBudgetAccount_live:
  assumes "ledgerAccount H limit deadline records a" "0 \<le> ib_steps limit" "0 \<le> ib_tokens limit"
  shows "\<exists>a'. restoreBudgetAccount H limit deadline records = Inr a'
     \<and> map_of (ba_consumed a') = map_of (ba_consumed a)
     \<and> map_of (ba_reservations a') = map_of (ba_reservations a)
     \<and> remainingBudget a' = remainingBudget a"
proof -
  obtain chain where chain: "buildTaskLeaseChain H records = Inr chain"
    and acc: "accountOf (\<lambda>tid. taskGroups tid (groupsOf (chain_records chain))) a" "ba_limit a = limit"
    using ledgerAccount_agrees [OF assms(1)] by blast
  obtain a' where a': "accountOf (\<lambda>tid. taskGroups tid (groupsOf (chain_records chain))) a'" "ba_limit a' = limit"
    "restoreBudgetAccount H limit deadline records =
       (if bu_steps (remainingBudget a') < 0 \<or> bu_tokens (remainingBudget a') < 0
        then Inl (BudgetAccountingError account_inconsistent) else Inr a')"
    using restore_replays [OF chain] .
  note same = accountOf_unique [OF a'(1) acc(1)]
  show ?thesis
    using a'(2,3) acc(2) same ledgerAccount_solvent [OF assms] by (auto simp: not_less)
qed

section \<open>A concrete ledger\<close>

definition firstReserve :: reserve_task_budget_input where
  "firstReserve = \<lparr>ri_task_id = ''task_a'', ri_lease_id = firstLeaseId, ri_fencing_token = 1,
     ri_task_budget = \<lparr>tb_steps = 6, tb_tokens = 100, tb_duration_ms = Some 3\<rparr>, ri_task_remaining_duration_ms = 3,
     ri_steps = 5, ri_tokens = 100, ri_now = ''i''\<rparr>"

definition fundedAccount :: iteration_budget_account where
  "fundedAccount = exampleAccount\<lparr>ba_reservations := [(''task_a'', \<lparr>bu_steps = 5, bu_tokens = 100,
     rv_lease_id = firstLeaseId, rv_fencing_token = 1\<rparr>)]\<rparr>"

lemma first_reserve:
  "reserveTaskBudget exampleHost (createIterationBudgetAccount exampleLimit ''iiiii'') firstReserve =
     Inr \<lparr>rr_account = fundedAccount, rr_reserved_budget = \<lparr>bu_steps = 5, bu_tokens = 100\<rparr>, rr_expires_at = ''iiii''\<rparr>"
  by (simp add: reserveTaskBudget_def exampleAccount_def firstReserve_def assertAmount_def createIterationBudgetAccount_def
      exampleLimit_def consumedOf_def remainingBudget_def sumAmounts_def fundedAccount_def eval_nat_numeral)

lemma first_ledger: "ledgerAccount exampleHost exampleLimit ''iiiii'' [firstLease] fundedAccount"
proof -
  have "ledgerAccount exampleHost exampleLimit ''iiiii'' ([] @ [firstLease])
      (rr_account \<lparr>rr_account = fundedAccount, rr_reserved_budget = \<lparr>bu_steps = 5, bu_tokens = 100\<rparr>, rr_expires_at = ''iiii''\<rparr>)"
    by (rule ledgerAccount.grant [OF ledgerAccount.start example_chains(1) example_first_grant _ first_reserve])
      (simp_all add: freshGrant_def exampleGrant_def firstReserve_def example_fields)
  then show ?thesis by simp
qed

theorem restoreBudgetAccount_chain_witness:
  "buildTaskLeaseChain exampleHost [firstLease] = Inr \<lparr>latest_by_task = [(''task_a'', firstLease)], chain_records = [firstLease]\<rparr>
   \<and> (\<exists>a. accountOf (\<lambda>tid. taskGroups tid (groupsOf [firstLease])) a \<and> ba_limit a = exampleLimit)"
  using restoreBudgetAccount_chain [OF example_chains(2), of exampleLimit "''iiiii''"] example_chains(2) by auto

theorem restoreBudgetAccount_live_witness:
  "\<exists>a'. restoreBudgetAccount exampleHost exampleLimit ''iiiii'' [firstLease] = Inr a'
     \<and> map_of (ba_reservations a') = map_of (ba_reservations fundedAccount)"
  using restoreBudgetAccount_live [OF first_ledger] by (auto simp: exampleLimit_def)

end
