(* ===== verification/Task_Digest.thy ===== *)
theory Task_Digest
  imports Planning_Task Canonical_Json
begin

text \<open>
  The meaning of a task (\<^verbatim>\<open>runtime/src/planning/task.ts\<close>): \<open>hasIndependentValue\<close> and the semantic digest
  \<open>taskSemanticDigest\<close>, which does not depend on the order in which a planner lists outputs,
  dependencies, claims, capabilities, tools, assertions or gates. \<^verbatim>\<open>JSON.stringify\<close> of a value is \<open>render\<close>.
\<close>

section \<open>Definitions\<close>

definition isSpace :: "char \<Rightarrow> bool" where
  "isSpace c \<longleftrightarrow> of_char c \<in> {9 :: nat, 10, 11, 12, 13, 32, 160}"

definition trimEnd :: "string \<Rightarrow> string" where
  "trimEnd s = rev (dropWhile isSpace (rev s))"

definition trim :: "string \<Rightarrow> string" where
  "trim s = trimEnd (dropWhile isSpace s)"

definition hasIndependentValue :: "task_specification \<Rightarrow> bool" where
  "hasIndependentValue spec \<longleftrightarrow>
     0 < length (trim (ts_objective spec)) \<and> 0 < length (ts_expected_outputs spec) \<and> 0 < length (ts_acceptance spec)"

definition sortedStrings :: "string list \<Rightarrow> json" where
  "sortedStrings values = JArr (map JStr (sort values))"

text \<open>\<^verbatim>\<open>.sort((left, right) => JSON.stringify(left).localeCompare(JSON.stringify(right)))\<close>\<close>

definition sortByText :: "host \<Rightarrow> json list \<Rightarrow> json list" where
  "sortByText H = sort_by (\<lambda>l r. h_localeCompare H (render H l) (render H r))"

fun riskText :: "task_risk \<Rightarrow> string" where
  "riskText low = ''low''" | "riskText medium = ''medium''" | "riskText high = ''high''" | "riskText critical = ''critical''"

fun assertionKindText :: "assertion_kind \<Rightarrow> string" where
  "assertionKindText criterion_assertion = ''criterion_assertion''"
| "assertionKindText task_internal_assertion = ''task_internal_assertion''"

definition optionalField :: "string \<Rightarrow> json option \<Rightarrow> (string \<times> json) list" where
  "optionalField key v = (case v of None \<Rightarrow> [] | Some x \<Rightarrow> [(key, x)])"

definition assertionJson :: "acceptance_assertion \<Rightarrow> json" where
  "assertionJson a = JObj ([(''assertion_id'', JStr (as_assertion_id a))]
     @ optionalField ''assertion_kind'' (map_option (\<lambda>k. JStr (assertionKindText k)) (as_assertion_kind a))
     @ optionalField ''acceptance_criterion_id'' (map_option JStr (as_acceptance_criterion_id a))
     @ optionalField ''criterion_semantic_digest'' (map_option JStr (as_criterion_semantic_digest a))
     @ [(''test_ids'', sortedStrings (as_test_ids a)), (''required_gate_ids'', sortedStrings (as_required_gate_ids a)),
        (''evidence_requirements'', sortedStrings (as_evidence_requirements a))])"

definition taskSemanticJson :: "host \<Rightarrow> task_specification \<Rightarrow> json" where
  "taskSemanticJson H spec = JObj
     [(''objective'', JStr (ts_objective spec)),
      (''expected_outputs'', sortedStrings (ts_expected_outputs spec)),
      (''impact_paths'', JArr (sortByText H (map (\<lambda>path. JArr (map JStr path)) (ts_impact_paths spec)))),
      (''dependencies'', sortedStrings (ts_dependencies spec)),
      (''write_paths'', sortedStrings (case ts_write_paths spec of None \<Rightarrow> [] | Some ps \<Rightarrow> ps)),
      (''exclusive_resources'', sortedStrings (case ts_exclusive_resources spec of None \<Rightarrow> [] | Some rs \<Rightarrow> rs)),
      (''budget'', JObj ([(''steps'', JNum (tb_steps (ts_budget spec))), (''tokens'', JNum (tb_tokens (ts_budget spec)))]
         @ optionalField ''duration_ms'' (map_option JNum (tb_duration_ms (ts_budget spec))))),
      (''capabilities'', sortedStrings (ts_capabilities spec)),
      (''tools'', sortedStrings (ts_tools spec)),
      (''risk'', JStr (riskText (ts_risk spec))),
      (''assertions'', JArr (sortByText H (map assertionJson (case ts_assertions spec of None \<Rightarrow> [] | Some xs \<Rightarrow> xs)))),
      (''required_gates'', sortedStrings (ts_required_gates spec))]"

definition taskSemanticDigest :: "host \<Rightarrow> task_specification \<Rightarrow> string result" where
  "taskSemanticDigest H spec = contentDigest H (taskSemanticJson H spec)"

section \<open>Order of listing\<close>

text \<open>Two specifications that list the same content, each list in an order of its own.\<close>

definition sameMeaning :: "task_specification \<Rightarrow> task_specification \<Rightarrow> bool" where
  "sameMeaning s t \<longleftrightarrow>
     ts_objective s = ts_objective t \<and> mset (ts_expected_outputs s) = mset (ts_expected_outputs t)
     \<and> mset (ts_impact_paths s) = mset (ts_impact_paths t) \<and> mset (ts_dependencies s) = mset (ts_dependencies t)
     \<and> mset (case ts_write_paths s of None \<Rightarrow> [] | Some ps \<Rightarrow> ps) = mset (case ts_write_paths t of None \<Rightarrow> [] | Some ps \<Rightarrow> ps)
     \<and> mset (case ts_exclusive_resources s of None \<Rightarrow> [] | Some rs \<Rightarrow> rs)
         = mset (case ts_exclusive_resources t of None \<Rightarrow> [] | Some rs \<Rightarrow> rs)
     \<and> ts_budget s = ts_budget t \<and> mset (ts_capabilities s) = mset (ts_capabilities t) \<and> mset (ts_tools s) = mset (ts_tools t)
     \<and> ts_risk s = ts_risk t
     \<and> mset (map assertionJson (case ts_assertions s of None \<Rightarrow> [] | Some xs \<Rightarrow> xs))
         = mset (map assertionJson (case ts_assertions t of None \<Rightarrow> [] | Some xs \<Rightarrow> xs))
     \<and> mset (ts_required_gates s) = mset (ts_required_gates t)"

lemma sortedStrings_perm: "mset xs = mset ys \<Longrightarrow> sortedStrings xs = sortedStrings ys"
  unfolding sortedStrings_def by (metis properties_for_sort sorted_sort mset_sort)

lemma render_inj: "numberText H \<Longrightarrow> render H a = render H b \<Longrightarrow> a = b"
  using render_decode [of H "[]" "[]" a b] by simp

lemma sortByText_perm:
  assumes "consistent_comparator (h_localeCompare H)" "collationSeparates H" "numberText H"
    and "mset xs = mset ys"
  shows "sortByText H xs = sortByText H ys"
proof -
  have laws: "consistent_comparator (\<lambda>l r. h_localeCompare H (render H l) (render H r))"
    by (rule consistent_key [OF assms(1)])
  show ?thesis
    unfolding sortByText_def
  proof (rule comparator_laws.sort_by_unique [OF consistent_comparator.axioms(1) [OF laws] _ assms(4)])
    fix x y assume "h_localeCompare H (render H x) (render H y) \<le> 0" "h_localeCompare H (render H y) (render H x) \<le> 0"
    then show "x = y"
      using consistent_comparator.cmp_eq_iff [OF laws, of x y] assms(2) render_inj [OF assms(3), of x y]
      unfolding collationSeparates_def by blast
  qed
qed

text \<open>
  The semantic digest is a digest of the meaning: specifications that differ only in the order in
  which they list outputs, impact paths, dependencies, claims, capabilities, tools, assertions or gates
  (and in their ids) have the same digest. The collation separates different texts.
\<close>
theorem taskSemanticDigest_order:
  assumes "consistent_comparator (h_localeCompare H)" "collationSeparates H" "numberText H"
    and "sameMeaning s t"
  shows "taskSemanticDigest H s = taskSemanticDigest H t"
proof -
  have "mset (map (\<lambda>path. JArr (map JStr path)) (ts_impact_paths s)) = mset (map (\<lambda>path. JArr (map JStr path)) (ts_impact_paths t))"
    using assms(4) by (simp add: sameMeaning_def)
  then have "sortByText H (map (\<lambda>path. JArr (map JStr path)) (ts_impact_paths s))
      = sortByText H (map (\<lambda>path. JArr (map JStr path)) (ts_impact_paths t))"
    by (rule sortByText_perm [OF assms(1-3)])
  moreover have "sortByText H (map assertionJson (case ts_assertions s of None \<Rightarrow> [] | Some xs \<Rightarrow> xs))
      = sortByText H (map assertionJson (case ts_assertions t of None \<Rightarrow> [] | Some xs \<Rightarrow> xs))"
    by (rule sortByText_perm [OF assms(1-3)]) (use assms(4) in \<open>simp add: sameMeaning_def\<close>)
  moreover have "sortedStrings (ts_expected_outputs s) = sortedStrings (ts_expected_outputs t)"
    "sortedStrings (ts_dependencies s) = sortedStrings (ts_dependencies t)"
    "sortedStrings (ts_capabilities s) = sortedStrings (ts_capabilities t)"
    "sortedStrings (ts_tools s) = sortedStrings (ts_tools t)"
    "sortedStrings (ts_required_gates s) = sortedStrings (ts_required_gates t)"
    "sortedStrings (case ts_write_paths s of None \<Rightarrow> [] | Some ps \<Rightarrow> ps)
      = sortedStrings (case ts_write_paths t of None \<Rightarrow> [] | Some ps \<Rightarrow> ps)"
    "sortedStrings (case ts_exclusive_resources s of None \<Rightarrow> [] | Some rs \<Rightarrow> rs)
      = sortedStrings (case ts_exclusive_resources t of None \<Rightarrow> [] | Some rs \<Rightarrow> rs)"
    by (rule sortedStrings_perm, use assms(4) in \<open>simp add: sameMeaning_def\<close>)+
  moreover have "ts_objective s = ts_objective t" "ts_budget s = ts_budget t" "ts_risk s = ts_risk t"
    using assms(4) by (simp_all add: sameMeaning_def)
  ultimately show ?thesis by (simp add: taskSemanticDigest_def taskSemanticJson_def)
qed

definition outputsTask :: "string list \<Rightarrow> task_specification" where
  "outputsTask outs = \<lparr>ts_id = ''task_a'', ts_objective = ''do'', ts_impact_paths = [], ts_expected_outputs = outs,
     ts_capabilities = [], ts_tools = [], ts_dependencies = [], ts_risk = low,
     ts_budget = \<lparr>tb_steps = 1, tb_tokens = 1, tb_duration_ms = Some 1\<rparr>,
     ts_write_paths = Some [], ts_exclusive_resources = Some [], ts_acceptance = [], ts_assertions = None,
     ts_required_gates = []\<rparr>"

theorem taskSemanticDigest_order_witness:
  "taskSemanticDigest exampleHost (outputsTask [''a'', ''b'']) = taskSemanticDigest exampleHost (outputsTask [''b'', ''a''])"
  by (rule taskSemanticDigest_order [OF exampleHost_collation numberText_exampleHost])
    (simp add: sameMeaning_def outputsTask_def)

end
