(* ===== verification/Readiness.thy ===== *)
theory Readiness
  imports Scheduler_Projection Lock_Rebuild Budget_Restore Task_Digest "HOL-Library.Sublist"
begin

text \<open>
  Readiness selection (\<^verbatim>\<open>runtime/src/scheduling/readiness.ts\<close>): the concurrency ceiling and the scan that
  picks the tasks a scheduling pass dispatches, over the status projection, the lease chain, the lock
  table and the budget account.
\<close>

section \<open>Definitions\<close>

record effective_concurrency_input =
  ec_runtime_requested :: rat
  ec_profile_limit :: rat
  ec_installation_limit :: rat
  ec_project_limit :: rat
  ec_local_resource_limit :: rat
  ec_unattended_eligible :: bool

definition effectiveMaxConcurrency :: "effective_concurrency_input \<Rightarrow> rat" where
  "effectiveMaxConcurrency input =
     (if \<not> ec_unattended_eligible input then 1
      else case filter (\<lambda>bound. isInteger bound \<and> 0 < bound)
          [ec_runtime_requested input, ec_profile_limit input, ec_installation_limit input,
           ec_project_limit input, ec_local_resource_limit input] of
        [] \<Rightarrow> 1
      | b # bs \<Rightarrow> foldl min b bs)"

record scheduler_readiness_facts =
  rf_leases :: "task_lease_record list"
  rf_runs :: "run_record list"
  rf_gate_evidence :: "gate_evidence_record list"
  rf_approvals :: "approval_request_record list"
  rf_findings :: "feedback_record list"
  rf_wave_integrations :: "wave_integration_record list"
  rf_stale_context_task_ids :: "string list"

record readiness_adapter_profile =
  ap_unattended_eligible :: bool
  ap_capabilities :: "string list"

record ready_task_candidate =
  rt_task :: task_specification
  rt_task_digest :: string
  rt_wave_index :: nat
  rt_retry_kind :: "task_retry_kind option"
  rt_attempt_number :: int
  rt_fencing_token :: int
  rt_reservation :: lease_budget

record select_ready_tasks_input =
  sr_dag :: task_dag_snapshot
  sr_facts :: scheduler_readiness_facts
  sr_resources :: resource_lock_table
  sr_budget :: iteration_budget_account
  sr_adapter :: readiness_adapter_profile
  sr_available_slots :: rat
  sr_effective_max_concurrency :: rat

definition projectionFacts :: "select_ready_tasks_input \<Rightarrow> scheduler_authority_facts" where
  "projectionFacts input =
     (let facts = sr_facts input in
      \<lparr>sf_dag = sr_dag input, sf_leases = rf_leases facts, sf_runs = rf_runs facts,
       sf_gate_evidence = rf_gate_evidence facts, sf_approvals = rf_approvals facts,
       sf_findings = rf_findings facts, sf_wave_integrations = rf_wave_integrations facts\<rparr>)"

text \<open>The locals of the scan: the working lock table, what is left, and the candidates so far.\<close>

record scan_state =
  sc_table :: resource_lock_table
  sc_slotsLeft :: rat
  sc_stepsLeft :: rat
  sc_tokensLeft :: rat
  sc_selected :: "ready_task_candidate list"

definition taskClaim :: "task_specification \<Rightarrow> int \<Rightarrow> task_resource_claim result" where
  "taskClaim task token =
     (case (ts_write_paths task, ts_exclusive_resources task) of
        (Some paths, Some resources) \<Rightarrow> Inr \<lparr>rc_task_id = ts_id task, rc_fencing_token = token,
           rc_write_paths = paths, rc_exclusive_resources = resources\<rparr>
      | _ \<Rightarrow> Inl JsTypeError)"

definition taskReservation :: "iteration_budget_account \<Rightarrow> task_specification \<Rightarrow> lease_budget" where
  "taskReservation budget task =
     \<lparr>bu_steps = tb_steps (ts_budget task) - bu_steps (consumedOf budget (ts_id task)),
      bu_tokens = tb_tokens (ts_budget task) - bu_tokens (consumedOf budget (ts_id task))\<rparr>"

definition considerTask :: "host \<Rightarrow> select_ready_tasks_input \<Rightarrow> task_lease_chain \<Rightarrow> scan_state
    \<Rightarrow> task_status_projection \<Rightarrow> scan_state result" where
  "considerTask H input chain sc status =
     (if tp_status status \<noteq> ready \<and> tp_status status \<noteq> retry_pending then Inr sc
      else case find (\<lambda>candidate. ts_id candidate = tp_task_id status) (dag_tasks (sr_dag input)) of
        None \<Rightarrow> Inr sc
      | Some task \<Rightarrow>
          if List.member (rf_stale_context_task_ids (sr_facts input)) (ts_id task) then Inr sc
          else if \<not> list_all (List.member (ap_capabilities (sr_adapter input))) (ts_capabilities task) then Inr sc
          else
            (let reservation = taskReservation (sr_budget input) task;
                 fencingToken = nextFencingToken chain (ts_id task);
                 latest = jm_get (latest_by_task chain) (ts_id task)
             in if bu_steps reservation \<le> 0 \<or> bu_tokens reservation \<le> 0 then Inr sc
                else if sc_stepsLeft sc < bu_steps reservation \<or> sc_tokensLeft sc < bu_tokens reservation then Inr sc
                else case rbind (taskClaim task fencingToken) (acquireTaskResources H (sc_table sc)) of
                  Inl (ResourceLockError _) \<Rightarrow> Inr sc
                | Inl e \<Rightarrow> Inl e
                | Inr table \<Rightarrow>
                    rbind (taskSemanticDigest H task) (\<lambda>digest.
                    Inr \<lparr>sc_table = table, sc_slotsLeft = sc_slotsLeft sc - 1,
                      sc_stepsLeft = sc_stepsLeft sc - bu_steps reservation,
                      sc_tokensLeft = sc_tokensLeft sc - bu_tokens reservation,
                      sc_selected = sc_selected sc @
                        [\<lparr>rt_task = task, rt_task_digest = digest,
                          rt_wave_index = (case tp_wave_index status of None \<Rightarrow> 0 | Some i \<Rightarrow> i),
                          rt_retry_kind = (if tp_status status = retry_pending then Some executor_retry else None),
                          rt_attempt_number = (case latest of None \<Rightarrow> 0 | Some l \<Rightarrow> lr_attempt_number l) + 1,
                          rt_fencing_token = fencingToken, rt_reservation = reservation\<rparr>]\<rparr>)))"

fun scanTasks :: "host \<Rightarrow> select_ready_tasks_input \<Rightarrow> task_lease_chain \<Rightarrow> scan_state
    \<Rightarrow> task_status_projection list \<Rightarrow> scan_state result" where
  "scanTasks H input chain sc [] = Inr sc"
| "scanTasks H input chain sc (status # rest) =
     (if sc_slotsLeft sc = 0 then Inr sc
      else rbind (considerTask H input chain sc status) (\<lambda>sc'. scanTasks H input chain sc' rest))"

definition selectionCapacity :: "select_ready_tasks_input \<Rightarrow> rat" where
  "selectionCapacity input = min (sr_available_slots input) (sr_effective_max_concurrency input)"

definition scanStart :: "select_ready_tasks_input \<Rightarrow> scan_state" where
  "scanStart input = \<lparr>sc_table = sr_resources input, sc_slotsLeft = selectionCapacity input,
     sc_stepsLeft = bu_steps (remainingBudget (sr_budget input)),
     sc_tokensLeft = bu_tokens (remainingBudget (sr_budget input)), sc_selected = []\<rparr>"

definition selectReadyTasks :: "host \<Rightarrow> select_ready_tasks_input \<Rightarrow> ready_task_candidate list result" where
  "selectReadyTasks H input =
     (if \<not> isInteger (selectionCapacity input) \<or> selectionCapacity input < 1 then Inr []
      else
        rbind (buildTaskLeaseChain H (rf_leases (sr_facts input))) (\<lambda>chain.
        rbind (scanTasks H input chain (scanStart input)
          (sp_tasks (projectSchedulerState (projectionFacts input) None))) (\<lambda>sc.
        Inr (sc_selected sc))))"

section \<open>The ceiling\<close>

text \<open>The ceiling is a positive whole number, at most every valid bound, and one when the adapter is not unattended.\<close>

lemma effectiveMaxConcurrency_bounds:
  "1 \<le> effectiveMaxConcurrency input" "isInteger (effectiveMaxConcurrency input)"
  "\<not> ec_unattended_eligible input \<Longrightarrow> effectiveMaxConcurrency input = 1"
  "ec_unattended_eligible input \<Longrightarrow> isInteger b \<Longrightarrow> 0 < b \<Longrightarrow>
     b \<in> {ec_runtime_requested input, ec_profile_limit input, ec_installation_limit input,
       ec_project_limit input, ec_local_resource_limit input} \<Longrightarrow> effectiveMaxConcurrency input \<le> b"
proof -
  define bounds where "bounds = filter (\<lambda>bound. isInteger bound \<and> 0 < bound)
    [ec_runtime_requested input, ec_profile_limit input, ec_installation_limit input,
     ec_project_limit input, ec_local_resource_limit input]"
  have ceiling: "effectiveMaxConcurrency input = (if \<not> ec_unattended_eligible input \<or> bounds = [] then 1 else Min (set bounds))"
    unfolding effectiveMaxConcurrency_def bounds_def [symmetric]
    by (cases bounds) (simp_all only: foldl_min list.case, simp_all)
  have ok: "isInteger x \<and> 1 \<le> x" if "x \<in> set bounds" for x
  proof -
    have "isInteger x" "0 < x" using that unfolding bounds_def set_filter by simp_all
    then show ?thesis by (metis isInteger_def of_int_1_le_iff of_int_0_less_iff int_one_le_iff_zero_less)
  qed
  have "Min (set bounds) \<in> set bounds" if "bounds \<noteq> []" using that by simp
  then show "1 \<le> effectiveMaxConcurrency input" "isInteger (effectiveMaxConcurrency input)"
    "\<not> ec_unattended_eligible input \<Longrightarrow> effectiveMaxConcurrency input = 1"
    using ok by (auto simp: ceiling)
  show "effectiveMaxConcurrency input \<le> b" if "ec_unattended_eligible input" "isInteger b" "0 < b"
    "b \<in> {ec_runtime_requested input, ec_profile_limit input, ec_installation_limit input,
       ec_project_limit input, ec_local_resource_limit input}"
  proof -
    have "b \<in> set bounds" using that unfolding bounds_def set_filter by simp
    then show ?thesis using that(1) by (auto simp: ceiling)
  qed
qed

section \<open>One step of the scan\<close>

text \<open>What a step that selects a task has established.\<close>

definition selectable :: "select_ready_tasks_input \<Rightarrow> scan_state \<Rightarrow> task_status_projection \<Rightarrow> task_specification \<Rightarrow> bool" where
  "selectable input sc status task \<longleftrightarrow>
     tp_status status \<in> {ready, retry_pending}
     \<and> find (\<lambda>candidate. ts_id candidate = tp_task_id status) (dag_tasks (sr_dag input)) = Some task
     \<and> ts_id task \<notin> set (rf_stale_context_task_ids (sr_facts input))
     \<and> set (ts_capabilities task) \<subseteq> set (ap_capabilities (sr_adapter input))
     \<and> 0 < bu_steps (taskReservation (sr_budget input) task) \<and> 0 < bu_tokens (taskReservation (sr_budget input) task)
     \<and> bu_steps (taskReservation (sr_budget input) task) \<le> sc_stepsLeft sc
     \<and> bu_tokens (taskReservation (sr_budget input) task) \<le> sc_tokensLeft sc"

lemma considerTask_cases:
  assumes "considerTask H input chain sc status = Inr sc'"
  obtains (skip) "sc' = sc"
      "\<And>task. selectable input sc status task \<Longrightarrow>
         \<exists>k. rbind (taskClaim task (nextFencingToken chain (ts_id task))) (acquireTaskResources H (sc_table sc))
           = Inl (ResourceLockError k)"
  | (select) task c table digest where "selectable input sc status task" "taskSemanticDigest H task = Inr digest"
      "rbind (taskClaim task (nextFencingToken chain (ts_id task))) (acquireTaskResources H (sc_table sc)) = Inr table"
      "c = \<lparr>rt_task = task, rt_task_digest = digest,
          rt_wave_index = (case tp_wave_index status of None \<Rightarrow> 0 | Some i \<Rightarrow> i),
          rt_retry_kind = (if tp_status status = retry_pending then Some executor_retry else None),
          rt_attempt_number = (case jm_get (latest_by_task chain) (ts_id task) of None \<Rightarrow> 0 | Some l \<Rightarrow> lr_attempt_number l) + 1,
          rt_fencing_token = nextFencingToken chain (ts_id task), rt_reservation = taskReservation (sr_budget input) task\<rparr>"
      "sc' = \<lparr>sc_table = table, sc_slotsLeft = sc_slotsLeft sc - 1,
          sc_stepsLeft = sc_stepsLeft sc - bu_steps (taskReservation (sr_budget input) task),
          sc_tokensLeft = sc_tokensLeft sc - bu_tokens (taskReservation (sr_budget input) task),
          sc_selected = sc_selected sc @ [c]\<rparr>"
proof -
  let ?find = "find (\<lambda>candidate. ts_id candidate = tp_task_id status) (dag_tasks (sr_dag input))"
  show ?thesis
  proof (cases "\<exists>task. selectable input sc status task")
    case False
    then have "sc' = sc"
      using assms by (auto simp: considerTask_def selectable_def Let_def list_all_iff subset_iff not_less not_le split: option.splits if_splits)
    then show ?thesis using skip False by blast
  next
    case True
    then obtain task where s: "selectable input sc status task" by blast
    then have only: "t = task" if "selectable input sc status t" for t using that by (simp add: selectable_def)
    let ?attempt = "rbind (taskClaim task (nextFencingToken chain (ts_id task))) (acquireTaskResources H (sc_table sc))"
    show ?thesis
    proof (cases ?attempt)
      case (Inl e)
      then obtain k where "e = ResourceLockError k" "sc' = sc"
        using assms s by (cases e) (auto simp: considerTask_def selectable_def Let_def list_all_iff subset_iff not_less not_le split: if_splits)
      then show ?thesis using skip only Inl by blast
    next
      case (Inr table)
      then show ?thesis
        using assms s select [OF s _ Inr refl]
        by (auto simp: considerTask_def selectable_def Let_def list_all_iff subset_iff not_less not_le rbind_Inr_iff split: if_splits)
    qed
  qed
qed

section \<open>The whole scan\<close>

definition acquireCandidates :: "host \<Rightarrow> resource_lock_table \<Rightarrow> ready_task_candidate list \<Rightarrow> resource_lock_table result" where
  "acquireCandidates H = foldR (\<lambda>table c. rbind (taskClaim (rt_task c) (rt_fencing_token c)) (acquireTaskResources H table))"

definition reservedSteps :: "ready_task_candidate list \<Rightarrow> rat" where
  "reservedSteps cs = sum_list (map (bu_steps \<circ> rt_reservation) cs)"

definition reservedTokens :: "ready_task_candidate list \<Rightarrow> rat" where
  "reservedTokens cs = sum_list (map (bu_tokens \<circ> rt_reservation) cs)"

lemmas reserved_defs = reservedSteps_def reservedTokens_def

definition scanInv :: "host \<Rightarrow> select_ready_tasks_input \<Rightarrow> scan_state \<Rightarrow> bool" where
  "scanInv H input sc \<longleftrightarrow>
     (\<exists>n. sc_slotsLeft sc = of_nat n \<and> selectionCapacity input = of_nat (n + length (sc_selected sc)))
     \<and> sc_stepsLeft sc = bu_steps (remainingBudget (sr_budget input)) - reservedSteps (sc_selected sc)
     \<and> sc_tokensLeft sc = bu_tokens (remainingBudget (sr_budget input)) - reservedTokens (sc_selected sc)
     \<and> (sc_selected sc \<noteq> [] \<longrightarrow> 0 \<le> sc_stepsLeft sc \<and> 0 \<le> sc_tokensLeft sc)
     \<and> acquireCandidates H (sr_resources input) (sc_selected sc) = Inr (sc_table sc)"

lemma considerTask_inv:
  assumes inv: "scanInv H input sc" and slots: "sc_slotsLeft sc \<noteq> 0" and step: "considerTask H input chain sc status = Inr sc'"
  shows "scanInv H input sc'"
  using step
proof (cases rule: considerTask_cases)
  case skip
  then show ?thesis using inv by simp
next
  case (select task c table digest)
  from inv slots obtain n where n: "sc_slotsLeft sc = of_nat (Suc n)" "selectionCapacity input = of_nat (Suc n + length (sc_selected sc))"
    unfolding scanInv_def by (metis not0_implies_Suc of_nat_0)
  then have "\<exists>n. sc_slotsLeft sc' = of_nat n \<and> selectionCapacity input = of_nat (n + length (sc_selected sc'))"
    using select(5) by (intro exI [of _ n]) simp
  moreover have "acquireCandidates H (sr_resources input) (sc_selected sc') = Inr (sc_table sc')"
    using inv select(3-5) by (simp add: scanInv_def acquireCandidates_def foldR_append)
  ultimately show ?thesis
    using inv select(1,4,5) by (simp add: scanInv_def selectable_def reserved_defs)
qed

lemma scan_inv:
  assumes "scanTasks H input chain sc sts = Inr sc'" "scanInv H input sc"
  shows "scanInv H input sc'"
  using assms by (induction sts arbitrary: sc) (auto simp: rbind_Inr_iff dest: considerTask_inv split: if_splits)

lemma isInteger_nat: "isInteger x \<Longrightarrow> 0 \<le> x \<Longrightarrow> \<exists>n. x = of_nat n"
  by (metis isInteger_def of_int_0_le_iff of_int_of_nat_eq zero_le_imp_eq_int)

text \<open>The scan of a successful selection, with the invariant at its end.\<close>

lemma selectReadyTasks_scan:
  assumes "selectReadyTasks H input = Inr selected" "selected \<noteq> [] \<or> (isInteger (selectionCapacity input) \<and> 1 \<le> selectionCapacity input)"
  obtains chain sc where "buildTaskLeaseChain H (rf_leases (sr_facts input)) = Inr chain"
    "scanTasks H input chain (scanStart input) (sp_tasks (projectSchedulerState (projectionFacts input) None)) = Inr sc"
    "selected = sc_selected sc" "scanInv H input sc"
proof -
  from assms have cap: "isInteger (selectionCapacity input)" "1 \<le> selectionCapacity input"
    by (auto simp: selectReadyTasks_def split: if_splits)
  then obtain chain sc where c: "buildTaskLeaseChain H (rf_leases (sr_facts input)) = Inr chain"
    and sc: "scanTasks H input chain (scanStart input) (sp_tasks (projectSchedulerState (projectionFacts input) None)) = Inr sc"
      "selected = sc_selected sc"
    using assms(1) by (auto simp: selectReadyTasks_def rbind_Inr_iff)
  have "scanInv H input (scanStart input)"
    using isInteger_nat [OF cap(1)] cap(2) by (auto simp: scanInv_def scanStart_def reserved_defs acquireCandidates_def)
  then show ?thesis using that c sc scan_inv by blast
qed

text \<open>A candidate answers to one of the statuses, with the numbers of the chain and the account.\<close>

abbreviation candidateId :: "ready_task_candidate \<Rightarrow> string" where
  "candidateId c \<equiv> ts_id (rt_task c)"

definition candidateFor :: "select_ready_tasks_input \<Rightarrow> task_lease_chain \<Rightarrow> task_status_projection list
    \<Rightarrow> ready_task_candidate \<Rightarrow> bool" where
  "candidateFor input chain sts c \<longleftrightarrow>
     (\<exists>status \<in> set sts. \<exists>sc0. selectable input sc0 status (rt_task c)
       \<and> rt_fencing_token c = nextFencingToken chain (ts_id (rt_task c))
       \<and> rt_attempt_number c = (case jm_get (latest_by_task chain) (ts_id (rt_task c)) of None \<Rightarrow> 0 | Some l \<Rightarrow> lr_attempt_number l) + 1
       \<and> rt_reservation c = taskReservation (sr_budget input) (rt_task c)
       \<and> rt_retry_kind c = (if tp_status status = retry_pending then Some executor_retry else None))"

text \<open>The scan only appends, in the order of the statuses it visits.\<close>

lemma scan_appends:
  assumes "scanTasks H input chain sc sts = Inr sc'"
  obtains cs where "sc_selected sc' = sc_selected sc @ cs" "subseq (map candidateId cs) (map tp_task_id sts)"
    "\<forall>c \<in> set cs. candidateFor input chain sts c"
proof -
  have "\<exists>cs. sc_selected sc' = sc_selected sc @ cs \<and> subseq (map candidateId cs) (map tp_task_id sts)
      \<and> (\<forall>c \<in> set cs. candidateFor input chain sts c)"
    using assms
  proof (induction sts arbitrary: sc)
    case (Cons status sts)
    show ?case
    proof (cases "sc_slotsLeft sc = 0")
      case True
      then show ?thesis using Cons.prems by simp
    next
      case False
      then obtain sc1 where step: "considerTask H input chain sc status = Inr sc1" and rest: "scanTasks H input chain sc1 sts = Inr sc'"
        using Cons.prems by (auto simp: rbind_Inr_iff)
      from Cons.IH [OF rest] obtain cs where cs: "sc_selected sc' = sc_selected sc1 @ cs"
        "subseq (map candidateId cs) (map tp_task_id sts)" "\<forall>c \<in> set cs. candidateFor input chain sts c" by blast
      from step show ?thesis
      proof (cases rule: considerTask_cases)
        case skip
        then show ?thesis using cs by (intro exI [of _ cs]) (auto simp: candidateFor_def intro: list_emb_Cons)
      next
        case (select task c table digest)
        have "ts_id task = tp_task_id status" using select(1) by (auto simp: selectable_def find_Some_iff)
        moreover have "candidateFor input chain (status # sts) c"
          using select(1) unfolding candidateFor_def by (intro bexI [of _ status] exI [of _ sc]) (simp_all add: select(4))
        ultimately show ?thesis using cs select(4,5) by (intro exI [of _ "c # cs"]) (auto simp: candidateFor_def)
      qed
    qed
  qed simp
  then show ?thesis using that by blast
qed

text \<open>
  C22. The selected tasks can be dispatched together: they are no more than the free slots and the
  concurrency ceiling, their reservations together fit what is left of the iteration budget, all their
  resource claims can be acquired one after the other on top of the locks already held, and they come in
  plan order.
\<close>
theorem selectReadyTasks_dispatchable:
  assumes "selectReadyTasks H input = Inr selected" "selected \<noteq> []"
  shows "of_nat (length selected) \<le> sr_available_slots input \<and> of_nat (length selected) \<le> sr_effective_max_concurrency input
     \<and> reservedSteps selected \<le> bu_steps (remainingBudget (sr_budget input))
     \<and> reservedTokens selected \<le> bu_tokens (remainingBudget (sr_budget input))
     \<and> (\<exists>table. acquireCandidates H (sr_resources input) selected = Inr table)
     \<and> subseq (map candidateId selected) (map ts_id (dag_tasks (sr_dag input)))"
proof -
  obtain chain sc where scan: "scanTasks H input chain (scanStart input) (sp_tasks (projectSchedulerState (projectionFacts input) None)) = Inr sc"
    and sel: "selected = sc_selected sc" and inv: "scanInv H input sc"
    using selectReadyTasks_scan [OF assms(1)] assms(2) by blast
  have "subseq (map candidateId selected) (map tp_task_id (sp_tasks (projectSchedulerState (projectionFacts input) None)))"
    using scan_appends [OF scan] sel by (auto simp: scanStart_def)
  then show ?thesis
    using inv sel assms(2)
    by (auto simp: scanInv_def selectionCapacity_def projectSchedulerState_def projectionFacts_def Let_def comp_def
        simp flip: of_nat_add split: if_splits)
qed

section \<open>Who is selected\<close>

lemma find_distinct_id:
  assumes "distinct (map ts_id tasks)" "t \<in> set tasks"
  shows "find (\<lambda>u. ts_id u = ts_id t) tasks = Some t"
  using assms by (rule find_distinct_Some) simp

lemma projected_status:
  assumes "distinct (map ts_id (dag_tasks (sr_dag input)))"
    "status \<in> set (sp_tasks (projectSchedulerState (projectionFacts input) None))"
    "find (\<lambda>u. ts_id u = tp_task_id status) (dag_tasks (sr_dag input)) = Some task"
  shows "tp_status status = taskStatus (projectionFacts input) task" "task \<in> set (dag_tasks (sr_dag input))"
proof -
  from assms(2) obtain t where t: "t \<in> set (dag_tasks (sr_dag input))" "tp_task_id status = ts_id t"
    "tp_status status = taskStatus (projectionFacts input) t"
    by (auto simp: projectSchedulerState_def projectionFacts_def Let_def)
  then have "task = t" using assms(3) find_distinct_id [OF assms(1) t(1)] by simp
  then show "tp_status status = taskStatus (projectionFacts input) task" "task \<in> set (dag_tasks (sr_dag input))"
    using t by simp_all
qed

text \<open>Neither a ready nor a retryable task has a live lease.\<close>

lemma ready_unleased: "taskStatus facts task = ready \<Longrightarrow> jm_get (latestLeaseByTask (sf_leases facts)) (ts_id task) = None"
  by (auto simp: taskStatus_def Let_def split: option.splits if_splits)

lemma retry_pending_closed:
  assumes "taskStatus facts task = retry_pending"
  obtains l where "jm_get (latestLeaseByTask (sf_leases facts)) (ts_id task) = Some l" "lr_state l \<noteq> granted" "lr_retry_kind l = None"
  using assms that by (auto simp: taskStatus_def leasedStatus_def Let_def split: option.splits if_splits prod.splits)

text \<open>
  Every selected task is a ready or retryable task of the plan that the adapter can run on fresh
  context: it has no live lease, it carries the fencing token and the attempt number of its next lease,
  it reserves exactly the positive remainder of its own budget, and it is marked as an executor retry
  exactly when its last attempt is closed and was not itself a retry.
\<close>
theorem selectReadyTasks_candidate:
  assumes sel: "selectReadyTasks H input = Inr selected" and c: "c \<in> set selected"
    and chain: "buildTaskLeaseChain H (rf_leases (sr_facts input)) = Inr chain"
    and replays: "replaysIdentical (rf_leases (sr_facts input))"
    and ids: "distinct (map ts_id (dag_tasks (sr_dag input)))"
  shows "rt_task c \<in> set (dag_tasks (sr_dag input)) \<and> candidateId c \<notin> set (rf_stale_context_task_ids (sr_facts input))
     \<and> set (ts_capabilities (rt_task c)) \<subseteq> set (ap_capabilities (sr_adapter input))
     \<and> rt_fencing_token c = nextFencingToken chain (candidateId c)
     \<and> rt_reservation c = taskReservation (sr_budget input) (rt_task c)
     \<and> 0 < bu_steps (rt_reservation c) \<and> 0 < bu_tokens (rt_reservation c)
     \<and> (case jm_get (latest_by_task chain) (candidateId c) of
           None \<Rightarrow> rt_attempt_number c = 1 \<and> rt_retry_kind c = None \<and> taskStatus (projectionFacts input) (rt_task c) = ready
         | Some l \<Rightarrow> rt_attempt_number c = lr_attempt_number l + 1 \<and> rt_retry_kind c = Some executor_retry
             \<and> isTerminal (lr_state l) \<and> lr_retry_kind l = None)"
proof -
  let ?sts = "sp_tasks (projectSchedulerState (projectionFacts input) None)"
  have "selected \<noteq> []" using c by auto
  then obtain chain' sc where ch: "buildTaskLeaseChain H (rf_leases (sr_facts input)) = Inr chain'"
    and scan: "scanTasks H input chain' (scanStart input) ?sts = Inr sc" and s: "selected = sc_selected sc"
    using selectReadyTasks_scan [OF sel] by metis
  have "chain' = chain" using ch chain by simp
  then have "candidateFor input chain ?sts c"
    using scan_appends [OF scan] s c by (auto simp: scanStart_def)
  then obtain status sc0 where status: "status \<in> set ?sts" and ok: "selectable input sc0 status (rt_task c)"
    and f: "rt_fencing_token c = nextFencingToken chain (candidateId c)"
      "rt_attempt_number c = (case jm_get (latest_by_task chain) (candidateId c) of None \<Rightarrow> 0 | Some l \<Rightarrow> lr_attempt_number l) + 1"
      "rt_reservation c = taskReservation (sr_budget input) (rt_task c)"
      "rt_retry_kind c = (if tp_status status = retry_pending then Some executor_retry else None)"
    unfolding candidateFor_def by blast
  note t = projected_status [OF ids status, of "rt_task c"]
  have agree: "jm_get (latestLeaseByTask (sf_leases (projectionFacts input))) k = jm_get (latest_by_task chain) k" for k
    using latest_lease_agrees [OF chain replays] by (simp add: projectionFacts_def Let_def)
  have st: "tp_status status = taskStatus (projectionFacts input) (rt_task c)" "rt_task c \<in> set (dag_tasks (sr_dag input))"
    using t ok by (auto simp: selectable_def)
  have "case jm_get (latest_by_task chain) (candidateId c) of
           None \<Rightarrow> tp_status status = ready
         | Some l \<Rightarrow> tp_status status = retry_pending \<and> isTerminal (lr_state l) \<and> lr_retry_kind l = None"
  proof (cases "tp_status status = ready")
    case True
    then show ?thesis using ready_unleased [of "projectionFacts input" "rt_task c"] agree st by simp
  next
    case False
    then have r: "tp_status status = retry_pending" using ok by (simp add: selectable_def)
    then obtain l where "jm_get (latest_by_task chain) (candidateId c) = Some l" "lr_state l \<noteq> granted" "lr_retry_kind l = None"
      using retry_pending_closed [of "projectionFacts input" "rt_task c"] agree st by metis
    then show ?thesis using r by (simp add: terminal_state)
  qed
  then show ?thesis using ok f st by (auto simp: selectable_def split: option.splits)
qed

section \<open>Nobody is left out\<close>

lemma resourceKeys_error: "resourceKeys H ps rs = Inl e \<Longrightarrow> \<exists>k. e = PlanningError k"
  by (auto simp: resourceKeys_def rbind_Inl_iff normalizeTaskWritePath_def normalizeExclusiveResourceKey_def Let_def
      split: sum.splits if_splits dest!: mapR_error)

lemma acquire_busy_mono:
  assumes "rbind (taskClaim task n) (acquireTaskResources H table) = Inl (ResourceLockError k)"
    "set (lt_entries table) \<subseteq> set (lt_entries table')"
  shows "rbind (taskClaim task n) (acquireTaskResources H table') = Inl (ResourceLockError resource_busy)"
proof -
  obtain claim where claim: "taskClaim task n = Inr claim"
    using assms(1) by (auto simp: taskClaim_def split: option.splits)
  then obtain keys where "resourceKeys H (rc_write_paths claim) (rc_exclusive_resources claim) = Inr keys"
    using assms(1) resourceKeys_error by (cases "resourceKeys H (rc_write_paths claim) (rc_exclusive_resources claim)")
      (auto simp: acquireTaskResources_def)
  then show ?thesis using assms claim by (auto simp: acquireTaskResources_def list_ex_iff split: if_splits)
qed

lemma acquire_grows: "rbind (taskClaim task n) (acquireTaskResources H table) = Inr table' \<Longrightarrow>
    set (lt_entries table) \<subseteq> set (lt_entries table')"
  by (auto simp: rbind_Inr_iff acquireTaskResources_Inr sortEntries_def)

definition scanLe :: "scan_state \<Rightarrow> scan_state \<Rightarrow> bool" where
  "scanLe sc sc' \<longleftrightarrow> set (lt_entries (sc_table sc)) \<subseteq> set (lt_entries (sc_table sc'))
     \<and> sc_stepsLeft sc' \<le> sc_stepsLeft sc \<and> sc_tokensLeft sc' \<le> sc_tokensLeft sc
     \<and> set (sc_selected sc) \<subseteq> set (sc_selected sc')"

lemma considerTask_le: "considerTask H input chain sc status = Inr sc' \<Longrightarrow> scanLe sc sc'"
  by (erule considerTask_cases) (use acquire_grows in \<open>auto simp: scanLe_def selectable_def\<close>)

lemma scanLe_trans: "scanLe a b \<Longrightarrow> scanLe b c \<Longrightarrow> scanLe a c"
  by (auto simp: scanLe_def)

lemma scanLe_refl [simp]: "scanLe sc sc"
  by (simp add: scanLe_def)

lemma scan_le: "scanTasks H input chain sc sts = Inr sc' \<Longrightarrow> scanLe sc sc'"
proof (induction sts arbitrary: sc)
  case (Cons status sts)
  then show ?case
    by (cases "sc_slotsLeft sc = 0") (auto simp: rbind_Inr_iff dest: considerTask_le intro: scanLe_trans)
qed simp

text \<open>An eligible status that is visited is either selected or turned down for lack of budget or a lock.\<close>

definition eligible :: "select_ready_tasks_input \<Rightarrow> task_status_projection \<Rightarrow> task_specification \<Rightarrow> bool" where
  "eligible input status task \<longleftrightarrow>
     tp_status status \<in> {ready, retry_pending}
     \<and> find (\<lambda>candidate. ts_id candidate = tp_task_id status) (dag_tasks (sr_dag input)) = Some task
     \<and> ts_id task \<notin> set (rf_stale_context_task_ids (sr_facts input))
     \<and> set (ts_capabilities task) \<subseteq> set (ap_capabilities (sr_adapter input))
     \<and> 0 < bu_steps (taskReservation (sr_budget input) task) \<and> 0 < bu_tokens (taskReservation (sr_budget input) task)"

definition turnedDown :: "host \<Rightarrow> select_ready_tasks_input \<Rightarrow> task_lease_chain \<Rightarrow> scan_state \<Rightarrow> task_specification \<Rightarrow> bool" where
  "turnedDown H input chain sc task \<longleftrightarrow>
     sc_stepsLeft sc < bu_steps (taskReservation (sr_budget input) task)
     \<or> sc_tokensLeft sc < bu_tokens (taskReservation (sr_budget input) task)
     \<or> rbind (taskClaim task (nextFencingToken chain (ts_id task))) (acquireTaskResources H (sc_table sc))
         = Inl (ResourceLockError resource_busy)"

lemma turnedDown_mono: "turnedDown H input chain sc task \<Longrightarrow> scanLe sc sc' \<Longrightarrow> turnedDown H input chain sc' task"
  using acquire_busy_mono by (fastforce simp: turnedDown_def scanLe_def)

lemma considerTask_decides:
  assumes step: "considerTask H input chain sc status = Inr sc'" and q: "eligible input status task"
  shows "task \<in> rt_task ` set (sc_selected sc') \<or> turnedDown H input chain sc' task"
  using step
proof (cases rule: considerTask_cases)
  case skip
  show ?thesis
  proof (cases "selectable input sc status task")
    case True
    then show ?thesis using skip(2) [OF True] acquire_busy_mono [OF _ subset_refl] by (auto simp: turnedDown_def skip(1))
  next
    case False
    then show ?thesis using q by (auto simp: skip(1) turnedDown_def selectable_def eligible_def)
  qed
next
  case (select t c table digest)
  then show ?thesis using q by (simp add: selectable_def eligible_def)
qed

lemma scan_decides:
  assumes "scanTasks H input chain sc sts = Inr sc'" "sc_slotsLeft sc' \<noteq> 0" "status \<in> set sts" "eligible input status task"
  shows "task \<in> rt_task ` set (sc_selected sc') \<or> turnedDown H input chain sc' task"
  using assms
proof (induction sts arbitrary: sc)
  case (Cons s sts)
  then have "sc_slotsLeft sc \<noteq> 0" by auto
  then obtain sc1 where step: "considerTask H input chain sc s = Inr sc1" and rest: "scanTasks H input chain sc1 sts = Inr sc'"
    using Cons.prems by (auto simp: rbind_Inr_iff)
  show ?case
  proof (cases "status = s")
    case True
    then show ?thesis
      using considerTask_decides [OF step] Cons.prems(4) scan_le [OF rest] turnedDown_mono by (fastforce simp: scanLe_def)
  next
    case False
    then show ?thesis using Cons.IH [OF rest] Cons.prems by auto
  qed
qed simp

text \<open>
  Selection wastes no slot: when it returns fewer tasks than the capacity, every ready or retryable
  task with fresh context, matching capabilities and a positive remainder is either selected, or what
  the selected tasks leave of the iteration budget does not cover it, or its resource claims conflict
  with the locks held once the selected tasks are dispatched.
\<close>
theorem selectReadyTasks_maximal:
  assumes sel: "selectReadyTasks H input = Inr selected"
    and spare: "isInteger (selectionCapacity input)" "of_nat (length selected) < selectionCapacity input"
    and chain: "buildTaskLeaseChain H (rf_leases (sr_facts input)) = Inr chain"
    and ids: "distinct (map ts_id (dag_tasks (sr_dag input)))" and task: "task \<in> set (dag_tasks (sr_dag input))"
    and st: "taskStatus (projectionFacts input) task \<in> {ready, retry_pending}"
    and fresh: "ts_id task \<notin> set (rf_stale_context_task_ids (sr_facts input))"
    and caps: "set (ts_capabilities task) \<subseteq> set (ap_capabilities (sr_adapter input))"
    and rest: "0 < bu_steps (taskReservation (sr_budget input) task)" "0 < bu_tokens (taskReservation (sr_budget input) task)"
  shows "task \<in> rt_task ` set selected
     \<or> bu_steps (remainingBudget (sr_budget input)) - reservedSteps selected < bu_steps (taskReservation (sr_budget input) task)
     \<or> bu_tokens (remainingBudget (sr_budget input)) - reservedTokens selected < bu_tokens (taskReservation (sr_budget input) task)
     \<or> (\<exists>table. acquireCandidates H (sr_resources input) selected = Inr table
          \<and> rbind (taskClaim task (nextFencingToken chain (ts_id task))) (acquireTaskResources H table)
              = Inl (ResourceLockError resource_busy))"
proof -
  let ?sts = "sp_tasks (projectSchedulerState (projectionFacts input) None)"
  obtain k where k: "selectionCapacity input = of_int k" using spare(1) by (metis isInteger_def)
  then have "1 \<le> selectionCapacity input" using spare(2) by (simp add: k)
  then obtain chain' sc where ch: "buildTaskLeaseChain H (rf_leases (sr_facts input)) = Inr chain'"
    and scan: "scanTasks H input chain' (scanStart input) ?sts = Inr sc" and s: "selected = sc_selected sc"
    and inv: "scanInv H input sc"
    using selectReadyTasks_scan [OF sel] spare(1) by metis
  have same: "chain' = chain" using ch chain by simp
  let ?status = "\<lparr>tp_task_id = ts_id task, tp_wave_index = waveOfTask (dag_parallel_waves (sr_dag input)) (ts_id task),
    tp_status = taskStatus (projectionFacts input) task,
    tp_provisional = er_provisionalOnly (readCandidateEvidence (rf_gate_evidence (sr_facts input)) (ts_id task)), tp_live = None\<rparr>"
  have "?status \<in> set ?sts" using task by (simp add: projectSchedulerState_def projectionFacts_def Let_def)
  moreover have "eligible input ?status task"
    using st fresh caps rest find_distinct_id [OF ids task] by (simp add: eligible_def)
  moreover have "sc_slotsLeft sc \<noteq> 0" using inv spare(2) s by (auto simp: scanInv_def)
  ultimately have "task \<in> rt_task ` set (sc_selected sc) \<or> turnedDown H input chain sc task"
    using scan_decides [OF scan] same by blast
  then show ?thesis using inv s by (auto simp: turnedDown_def scanInv_def)
qed

section \<open>A pass over the example plan\<close>

definition exampleInput :: "resource_lock_entry list \<Rightarrow> select_ready_tasks_input" where
  "exampleInput held = \<lparr>sr_dag = sf_dag exampleFacts,
     sr_facts = \<lparr>rf_leases = [], rf_runs = [], rf_gate_evidence = [], rf_approvals = [], rf_findings = [],
       rf_wave_integrations = sf_wave_integrations exampleFacts, rf_stale_context_task_ids = []\<rparr>,
     sr_resources = \<lparr>lt_entries = held\<rparr>,
     sr_budget = createIterationBudgetAccount (dag_iteration_budget (sf_dag exampleFacts)) ''i'',
     sr_adapter = \<lparr>ap_unattended_eligible = True, ap_capabilities = []\<rparr>,
     sr_available_slots = 3, sr_effective_max_concurrency = 3\<rparr>"

definition heldDocs :: "resource_lock_entry list" where
  "heldDocs = [\<lparr>le_key = ''write:docs'', le_task_id = ''task_x'', le_fencing_token = 1\<rparr>]"

lemma example_pass:
  obtains selected where "selectReadyTasks exampleHost (exampleInput []) = Inr selected" "map candidateId selected = [''task_c'', ''task_b'']"
proof -
  have "map_sum id (map candidateId) (selectReadyTasks exampleHost (exampleInput [])) = Inr [''task_c'', ''task_b'']"
    by code_simp
  then show ?thesis using that by (cases "selectReadyTasks exampleHost (exampleInput [])") auto
qed

lemma busy_pass:
  obtains selected where "selectReadyTasks exampleHost (exampleInput heldDocs) = Inr selected" "map candidateId selected = [''task_b'']"
proof -
  have "map_sum id (map candidateId) (selectReadyTasks exampleHost (exampleInput heldDocs)) = Inr [''task_b'']"
    by code_simp
  then show ?thesis using that by (cases "selectReadyTasks exampleHost (exampleInput heldDocs)") auto
qed

lemma example_input:
  "buildTaskLeaseChain exampleHost (rf_leases (sr_facts (exampleInput held))) = Inr \<lparr>latest_by_task = [], chain_records = []\<rparr>"
  "replaysIdentical (rf_leases (sr_facts (exampleInput held)))"
  "distinct (map ts_id (dag_tasks (sr_dag (exampleInput held))))"
  "selectionCapacity (exampleInput held) = 3"
  by (simp_all add: exampleInput_def example_chains(1) replaysIdentical_def exampleFacts_def examplePlan_def exampleTask_def
      selectionCapacity_def)

theorem selectReadyTasks_dispatchable_witness:
  "\<exists>selected. selectReadyTasks exampleHost (exampleInput []) = Inr selected \<and> length selected = 2
     \<and> (\<exists>table. acquireCandidates exampleHost \<lparr>lt_entries = []\<rparr> selected = Inr table)"
proof (rule example_pass)
  fix selected assume s: "selectReadyTasks exampleHost (exampleInput []) = Inr selected" "map candidateId selected = [''task_c'', ''task_b'']"
  then have "selected \<noteq> []" "length selected = 2" by (auto dest: arg_cong [of _ _ length])
  then show ?thesis using s(1) selectReadyTasks_dispatchable [OF s(1)] by (auto simp: exampleInput_def)
qed

theorem selectReadyTasks_candidate_witness:
  "\<exists>selected. selectReadyTasks exampleHost (exampleInput []) = Inr selected
     \<and> (\<exists>c \<in> set selected. rt_fencing_token c = 1 \<and> rt_attempt_number c = 1 \<and> rt_retry_kind c = None)"
proof (rule example_pass)
  fix selected assume s: "selectReadyTasks exampleHost (exampleInput []) = Inr selected" "map candidateId selected = [''task_c'', ''task_b'']"
  then obtain c where c: "c \<in> set selected" by (cases selected) auto
  show ?thesis
    using s(1) c selectReadyTasks_candidate [OF s(1) c example_input(1-3)] by (auto simp: nextFencingToken_def)
qed

theorem selectReadyTasks_maximal_witness:
  "\<exists>selected task. selectReadyTasks exampleHost (exampleInput heldDocs) = Inr selected \<and> length selected = 1
     \<and> task = exampleTask ''task_c'' [''task_a''] [''docs''] \<and> task \<notin> rt_task ` set selected
     \<and> (bu_steps (remainingBudget (sr_budget (exampleInput heldDocs))) - reservedSteps selected < 1
        \<or> bu_tokens (remainingBudget (sr_budget (exampleInput heldDocs))) - reservedTokens selected < 1
        \<or> (\<exists>table. acquireCandidates exampleHost \<lparr>lt_entries = heldDocs\<rparr> selected = Inr table
             \<and> rbind (taskClaim task 1) (acquireTaskResources exampleHost table) = Inl (ResourceLockError resource_busy)))"
proof (rule busy_pass)
  fix selected assume s: "selectReadyTasks exampleHost (exampleInput heldDocs) = Inr selected" "map candidateId selected = [''task_b'']"
  let ?task = "exampleTask ''task_c'' [''task_a''] [''docs'']"
  have task: "?task \<in> set (dag_tasks (sr_dag (exampleInput heldDocs)))" by (simp add: exampleInput_def exampleFacts_def examplePlan_def)
  have st: "taskStatus (projectionFacts (exampleInput heldDocs)) ?task \<in> {ready, retry_pending}" by code_simp
  have rest: "taskReservation (sr_budget (exampleInput heldDocs)) ?task = \<lparr>bu_steps = 1, bu_tokens = 1\<rparr>" by code_simp
  have len: "length selected = 1" using s(2) by (auto dest: arg_cong [of _ _ length])
  have "ts_id ?task \<notin> set (map candidateId selected)" unfolding s(2) by (simp add: exampleTask_def)
  then have out: "?task \<notin> rt_task ` set selected" by auto
  have "?task \<in> rt_task ` set selected
     \<or> bu_steps (remainingBudget (sr_budget (exampleInput heldDocs))) - reservedSteps selected < bu_steps (taskReservation (sr_budget (exampleInput heldDocs)) ?task)
     \<or> bu_tokens (remainingBudget (sr_budget (exampleInput heldDocs))) - reservedTokens selected < bu_tokens (taskReservation (sr_budget (exampleInput heldDocs)) ?task)
     \<or> (\<exists>table. acquireCandidates exampleHost (sr_resources (exampleInput heldDocs)) selected = Inr table
          \<and> rbind (taskClaim ?task (nextFencingToken \<lparr>latest_by_task = [], chain_records = []\<rparr> (ts_id ?task))) (acquireTaskResources exampleHost table)
              = Inl (ResourceLockError resource_busy))"
    by (rule selectReadyTasks_maximal [OF s(1) _ _ example_input(1,3) task st])
      (use len in \<open>simp_all add: example_input rest, simp_all add: exampleInput_def exampleTask_def\<close>)
  then show ?thesis
    using s(1) len out by (intro exI [of _ selected] exI [of _ ?task]) (auto simp: rest nextFencingToken_def, auto simp: exampleInput_def)
qed

end
