(* ===== verification/Plan_Validator.thy ===== *)
theory Plan_Validator
  imports Wave_Layout Task_Digest
begin

text \<open>
  Validation of planner proposals (\<^verbatim>\<open>runtime/src/planning/validator.ts\<close>): a raw JSON value becomes task
  specifications or a typed \<^verbatim>\<open>PlanningError\<close>. The file system is a parameter: \<^verbatim>\<open>realpathSync\<close>, which fails
  on a path it cannot resolve, and \<^verbatim>\<open>existsSync\<close>; \<^verbatim>\<open>resolve\<close> and \<^verbatim>\<open>dirname\<close> are the POSIX functions of
  Node's \<^verbatim>\<open>path\<close>. The theorems: what an accepted plan satisfies, that the cycle check is exact, that an
  accepted write claim cannot leave the repository through a symbolic link, and that every accepted
  protocol 1.3 plan compiles into waves.
\<close>

section \<open>Write claims and the file system\<close>

record file_system =
  fs_realpath :: "string \<Rightarrow> string option"
  fs_exists :: "string \<Rightarrow> bool"

text \<open>\<^verbatim>\<open>path.posix.dirname\<close>: the part before the last slash that has something after it.\<close>

definition dirname :: "string \<Rightarrow> string" where
  "dirname path =
     (let rest = dropWhile (\<lambda>c. c \<noteq> CHR ''/'') (dropWhile (\<lambda>c. c = CHR ''/'') (rev (tl path)));
          hasRoot = (path \<noteq> [] \<and> hd path = CHR ''/'')
      in if rest = [] then (if hasRoot then ''/'' else ''.'')
         else if hasRoot \<and> length rest = 1 then ''//''
         else take (length rest) path)"

text \<open>\<^verbatim>\<open>path.resolve(root, path)\<close> for a resolved absolute root and a canonical relative path.\<close>

definition resolvePath :: "string \<Rightarrow> string \<Rightarrow> string" where
  "resolvePath base path = (if base = ''/'' then base @ path else base @ ''/'' @ path)"

definition dirnameMeasure :: "string \<Rightarrow> nat" where
  "dirnameMeasure path = (if path = [] then 4 else 2 * length path + (if path = ''.'' then 0 else 1))"

lemma dirname_measure:
  assumes "dirname path \<noteq> path"
  shows "dirnameMeasure (dirname path) < dirnameMeasure path"
proof -
  define rest where "rest = dropWhile (\<lambda>c. c \<noteq> CHR ''/'') (dropWhile (\<lambda>c. c = CHR ''/'') (rev (tl path)))"
  have len: "length rest \<le> length path - 1"
    using length_dropWhile_le [of "\<lambda>c. c \<noteq> CHR ''/''" "dropWhile (\<lambda>c. c = CHR ''/'') (rev (tl path))"]
      length_dropWhile_le [of "\<lambda>c. c = CHR ''/''" "rev (tl path)"] by (simp add: rest_def)
  have d: "dirname path = (if rest = [] then (if path \<noteq> [] \<and> hd path = CHR ''/'' then ''/'' else ''.'')
      else if (path \<noteq> [] \<and> hd path = CHR ''/'') \<and> length rest = 1 then ''//'' else take (length rest) path)"
    unfolding dirname_def rest_def Let_def ..
  show ?thesis
  proof (cases path)
    case Nil
    then show ?thesis by (simp add: dirname_def dirnameMeasure_def)
  next
    case (Cons c cs)
    show ?thesis
    proof (cases "rest = []")
      case True
      then show ?thesis using assms Cons d by (cases cs) (auto simp: dirnameMeasure_def split: if_splits)
    next
      case False
      then have "length rest < length path" "0 < length rest" using len Cons by auto
      moreover have "length path \<noteq> 2 \<or> dirname path \<noteq> ''//''"
      proof (rule ccontr)
        assume "\<not> ?thesis"
        then have two: "length path = 2" "dirname path = ''//''" by auto
        then have "length rest = 1" using \<open>length rest < length path\<close> False by (cases rest) auto
        moreover obtain b where "cs = [b]" using two Cons by (cases cs) auto
        ultimately have "rest = [b]" "b = CHR ''/''"
          using Cons False by (auto simp: rest_def split: if_splits)
        then show False using \<open>cs = [b]\<close> Cons by (simp add: rest_def)
      qed
      ultimately show ?thesis using d False Cons by (cases cs; cases "tl cs") (auto simp: dirnameMeasure_def min_def split: if_splits)
    qed
  qed
qed

text \<open>\<^verbatim>\<open>while (!existsSync(probe))\<close>: the nearest existing ancestor, or none.\<close>

function existingAncestor :: "file_system \<Rightarrow> string \<Rightarrow> string option" where
  "existingAncestor fs probe =
     (if fs_exists fs probe then Some probe
      else let parent = dirname probe in if parent = probe then None else existingAncestor fs parent)"
  by pat_completeness auto
termination
  by (relation "measure (\<lambda>(fs, probe). dirnameMeasure probe)") (auto intro: dirname_measure)

declare existingAncestor.simps [simp del]

definition confineWritePath :: "file_system \<Rightarrow> string \<Rightarrow> string \<Rightarrow> string result" where
  "confineWritePath fs repositoryRoot normalized =
     (case fs_realpath fs repositoryRoot of
        None \<Rightarrow> Inl (PlanningError invalid_specification)
      | Some rootReal \<Rightarrow>
          (case existingAncestor fs (resolvePath rootReal normalized) of
             None \<Rightarrow> Inl (PlanningError invalid_specification)
           | Some probe \<Rightarrow>
               (case fs_realpath fs probe of
                  None \<Rightarrow> Inl SystemError
                | Some probeReal \<Rightarrow>
                    if probeReal \<noteq> rootReal \<and> \<not> startsWith probeReal (rootReal @ ''/'')
                    then Inl (PlanningError invalid_specification)
                    else Inr normalized)))"

definition normalizeTaskWritePathIn :: "host \<Rightarrow> file_system \<Rightarrow> string option \<Rightarrow> string \<Rightarrow> string result" where
  "normalizeTaskWritePathIn H fs repositoryRoot input =
     rbind (normalizeTaskWritePath H input) (\<lambda>normalized.
     case repositoryRoot of None \<Rightarrow> Inr normalized | Some base \<Rightarrow> confineWritePath fs base normalized)"

section \<open>Reading proposals\<close>

datatype plan_protocol_mode = legacy | protocol13

record planner_constraints =
  pc_allowedCapabilities :: "string list"
  pc_knownTools :: "string list"
  pc_knownGates :: "string list"
  pc_repository_root :: "string option"

definition FORBIDDEN_PROPOSAL_KEYS :: "string list" where
  "FORBIDDEN_PROPOSAL_KEYS = [''command'', ''commands'', ''shell'', ''shell_command'', ''raw_shell'', ''script'',
     ''tool_invocation'', ''tool_invocations'']"

fun assertNoEmbeddedCommands :: "json \<Rightarrow> unit result" where
  "assertNoEmbeddedCommands (JArr items) = rbind (mapR assertNoEmbeddedCommands items) (\<lambda>_. Inr ())"
| "assertNoEmbeddedCommands (JObj entries) =
     rbind (mapR (\<lambda>e. if List.member FORBIDDEN_PROPOSAL_KEYS (fst e) then Inl (PlanningError embedded_command)
                      else assertNoEmbeddedCommands (snd e)) entries) (\<lambda>_. Inr ())"
| "assertNoEmbeddedCommands _ = Inr ()"

text \<open>A field of an object: \<open>None\<close> is \<^verbatim>\<open>undefined\<close>.\<close>

type_synonym plain_object = "(string \<times> json) list"

abbreviation invalid :: "'a result" where
  "invalid \<equiv> Inl (PlanningError invalid_specification)"

definition isPlainObject :: "json \<Rightarrow> plain_object option" where
  "isPlainObject v = (case v of JObj entries \<Rightarrow> Some entries | _ \<Rightarrow> None)"

definition readNonEmpty :: "json \<Rightarrow> string result" where
  "readNonEmpty item = (case item of JStr s \<Rightarrow> if s = [] then invalid else Inr s | _ \<Rightarrow> invalid)"

definition readStringList :: "json option \<Rightarrow> string list result" where
  "readStringList v = (case v of Some (JArr items) \<Rightarrow> mapR readNonEmpty items | _ \<Rightarrow> invalid)"

definition readResourceClaims :: "plan_protocol_mode \<Rightarrow> (string \<Rightarrow> string result) \<Rightarrow> json option \<Rightarrow> string list option result" where
  "readResourceClaims mode normalizeItem v =
     (case v of
        None \<Rightarrow> if mode = protocol13 then invalid else Inr None
      | Some _ \<Rightarrow>
          rbind (readStringList v) (\<lambda>items.
          rbind (mapR normalizeItem items) (\<lambda>normalized.
          if \<not> distinct normalized then invalid else Inr (Some normalized))))"

definition readObjective :: "json option \<Rightarrow> string result" where
  "readObjective v = (case v of Some (JStr s) \<Rightarrow> if trim s = [] then invalid else Inr s | _ \<Rightarrow> invalid)"

definition readImpactPath :: "json \<Rightarrow> string list result" where
  "readImpactPath path = readStringList (Some path)"

definition readImpactPaths :: "json option \<Rightarrow> string list list result" where
  "readImpactPaths v =
     (case v of
        Some (JArr paths) \<Rightarrow> if paths = [] then invalid else mapR readImpactPath paths
      | _ \<Rightarrow> invalid)"

definition readCriterion :: "json \<Rightarrow> acceptance_criterion result" where
  "readCriterion v =
     (case isPlainObject v of
        None \<Rightarrow> invalid
      | Some criterion \<Rightarrow>
          rbind (readObjective (jm_get criterion ''description'')) (\<lambda>description.
          rbind (readObjective (jm_get criterion ''verification'')) (\<lambda>verification.
          Inr \<lparr>ac_description = description, ac_verification = verification\<rparr>)))"

definition readAcceptance :: "json option \<Rightarrow> acceptance_criterion list result" where
  "readAcceptance v =
     (case v of
        Some (JArr criteria) \<Rightarrow> if criteria = [] then invalid else mapR readCriterion criteria
      | _ \<Rightarrow> invalid)"

definition readRisk :: "json option \<Rightarrow> task_risk result" where
  "readRisk v =
     (case v of
        Some (JStr s) \<Rightarrow>
          (case find (\<lambda>r. riskText r = s) [low, medium, high, critical] of None \<Rightarrow> invalid | Some r \<Rightarrow> Inr r)
      | _ \<Rightarrow> invalid)"

definition readPositive :: "json option \<Rightarrow> rat result" where
  "readPositive v = (case v of Some (JNum n) \<Rightarrow> if isInteger n \<and> \<not> n < 1 then Inr n else invalid | _ \<Rightarrow> invalid)"

definition readBudget :: "plan_protocol_mode \<Rightarrow> json option \<Rightarrow> task_budget result" where
  "readBudget mode v =
     (case v of
        None \<Rightarrow> invalid
      | Some b \<Rightarrow>
          (case isPlainObject b of
             None \<Rightarrow> invalid
           | Some budget \<Rightarrow>
               rbind (readPositive (jm_get budget ''steps'')) (\<lambda>steps.
               rbind (readPositive (jm_get budget ''tokens'')) (\<lambda>tokens.
               case jm_get budget ''duration_ms'' of
                 None \<Rightarrow> if mode = protocol13 then invalid
                         else Inr \<lparr>tb_steps = steps, tb_tokens = tokens, tb_duration_ms = None\<rparr>
               | Some d \<Rightarrow> rbind (readPositive (Some d)) (\<lambda>duration.
                   Inr \<lparr>tb_steps = steps, tb_tokens = tokens, tb_duration_ms = Some duration\<rparr>)))))"

definition readIdentifier :: "json option \<Rightarrow> string result" where
  "readIdentifier v = (case v of Some (JStr s) \<Rightarrow> if identifierPattern s then Inr s else invalid | _ \<Rightarrow> invalid)"

definition readAssertion :: "string list \<Rightarrow> acceptance_assertion list \<Rightarrow> json \<Rightarrow> acceptance_assertion list result" where
  "readAssertion requiredGates seen v =
     (case isPlainObject v of
        None \<Rightarrow> invalid
      | Some rawAssertion \<Rightarrow>
          rbind (readIdentifier (jm_get rawAssertion ''assertion_id'')) (\<lambda>assertionId.
          if assertionId \<in> as_assertion_id ` set seen then invalid
          else
            rbind (readStringList (jm_get rawAssertion ''test_ids'')) (\<lambda>testIds.
            rbind (readStringList (jm_get rawAssertion ''required_gate_ids'')) (\<lambda>assertionGateIds.
            rbind (readStringList (jm_get rawAssertion ''evidence_requirements'')) (\<lambda>evidenceRequirements.
            if testIds = [] \<or> assertionGateIds = [] \<or> evidenceRequirements = [] then invalid
            else if \<not> list_all (List.member requiredGates) assertionGateIds then Inl (PlanningError missing_gate)
            else Inr (seen @ [\<lparr>as_assertion_id = assertionId, as_assertion_kind = None, as_acceptance_criterion_id = None,
              as_criterion_semantic_digest = None, as_test_ids = testIds, as_required_gate_ids = assertionGateIds,
              as_evidence_requirements = evidenceRequirements\<rparr>]))))))"

definition readAssertions :: "string list \<Rightarrow> json option \<Rightarrow> acceptance_assertion list option result" where
  "readAssertions requiredGates v =
     (case v of
        None \<Rightarrow> Inr None
      | Some (JArr rawAssertions) \<Rightarrow>
          if rawAssertions = [] then invalid
          else rbind (foldR (readAssertion requiredGates) [] rawAssertions) (\<lambda>assertions. Inr (Some assertions))
      | Some _ \<Rightarrow> invalid)"

text \<open>\<^verbatim>\<open>raw.field ?? []\<close>\<close>

definition orEmpty :: "json option \<Rightarrow> json option" where
  "orEmpty v = (case v of None \<Rightarrow> Some (JArr []) | Some JNull \<Rightarrow> Some (JArr []) | Some x \<Rightarrow> Some x)"

definition readTaskSpecification :: "host \<Rightarrow> file_system \<Rightarrow> plan_protocol_mode \<Rightarrow> string option \<Rightarrow> json \<Rightarrow> task_specification result" where
  "readTaskSpecification H fs mode repositoryRoot v =
     (case isPlainObject v of
        None \<Rightarrow> invalid
      | Some raw \<Rightarrow>
          rbind (readIdentifier (jm_get raw ''id'')) (\<lambda>id.
          rbind (readObjective (jm_get raw ''objective'')) (\<lambda>objective.
          rbind (readImpactPaths (jm_get raw ''impact_paths'')) (\<lambda>impactPaths.
          rbind (readStringList (jm_get raw ''expected_outputs'')) (\<lambda>expectedOutputs.
          rbind (rguard (expectedOutputs \<noteq> []) (PlanningError invalid_specification)) (\<lambda>_.
          rbind (readAcceptance (jm_get raw ''acceptance'')) (\<lambda>acceptance.
          rbind (readRisk (jm_get raw ''risk'')) (\<lambda>risk.
          rbind (readBudget mode (jm_get raw ''budget'')) (\<lambda>budget.
          rbind (readResourceClaims mode
            (normalizeTaskWritePathIn H fs (if mode = protocol13 then repositoryRoot else None))
            (jm_get raw ''write_paths'')) (\<lambda>writePaths.
          rbind (readResourceClaims mode (normalizeExclusiveResourceKey H) (jm_get raw ''exclusive_resources'')) (\<lambda>exclusiveResources.
          rbind (readStringList (jm_get raw ''required_gates'')) (\<lambda>requiredGates.
          rbind (rguard (requiredGates \<noteq> []) (PlanningError missing_gate)) (\<lambda>_.
          rbind (readAssertions requiredGates (jm_get raw ''assertions'')) (\<lambda>assertions.
          rbind (readStringList (orEmpty (jm_get raw ''capabilities''))) (\<lambda>capabilities.
          rbind (readStringList (orEmpty (jm_get raw ''tools''))) (\<lambda>tools.
          rbind (readStringList (orEmpty (jm_get raw ''dependencies''))) (\<lambda>dependencies.
          Inr \<lparr>ts_id = id, ts_objective = objective, ts_impact_paths = impactPaths, ts_expected_outputs = expectedOutputs,
            ts_capabilities = capabilities, ts_tools = tools, ts_dependencies = dependencies, ts_risk = risk,
            ts_budget = budget, ts_write_paths = writePaths, ts_exclusive_resources = exclusiveResources,
            ts_acceptance = acceptance, ts_assertions = assertions, ts_required_gates = requiredGates\<rparr>)))))))))))))))))"

section \<open>Cycles\<close>

definition checkDependency :: "string list \<Rightarrow> task_specification \<Rightarrow> string \<Rightarrow> unit result" where
  "checkDependency ids task dependency =
     (if dependency = ts_id task then Inl (PlanningError dependency_cycle)
      else if \<not> List.member ids dependency then invalid else Inr ())"

type_synonym id_tables = "(string, int) jmap \<times> (string, string list) jmap"

definition addEdge :: "string \<Rightarrow> id_tables \<Rightarrow> string \<Rightarrow> id_tables" where
  "addEdge taskId tables dependency =
     (case tables of (indegree, dependents) \<Rightarrow>
        (jm_set taskId (the (jm_get indegree taskId) + 1) indegree,
         jm_set dependency (the (jm_get dependents dependency) @ [taskId]) dependents))"

definition edgeTables :: "task_specification list \<Rightarrow> id_tables" where
  "edgeTables tasks =
     foldl (\<lambda>tables task. foldl (addEdge (ts_id task)) tables (ts_dependencies task))
       (map (\<lambda>task. (ts_id task, 0)) tasks, map (\<lambda>task. (ts_id task, [])) tasks) tasks"

definition releaseId :: "(string, int) jmap \<times> string list \<Rightarrow> string \<Rightarrow> (string, int) jmap \<times> string list" where
  "releaseId s d =
     (case s of (indegree, ready) \<Rightarrow>
      (case jm_get indegree d of
         None \<Rightarrow> (indegree, ready)
       | Some n \<Rightarrow>
           (let remaining = n - 1 in
            (jm_set d remaining indegree, if remaining = 0 then ready @ [d] else ready))))"

fun visitMeasure :: "(string, int) jmap \<times> string list \<Rightarrow> nat" where
  "visitMeasure (indegree, ready) = length ready + length (filter (\<lambda>(k, n). 0 < n) indegree)"

lemma releaseId_measure: "visitMeasure (releaseId s d) \<le> visitMeasure s"
proof (cases s)
  case (Pair indegree ready)
  show ?thesis
  proof (cases "jm_get indegree d")
    case (Some n)
    then show ?thesis
      using Pair positive_count_update [OF Some] nonpositive_count_update [OF Some]
      by (cases "0 < n"; cases "n = 1") (simp_all add: releaseId_def Let_def)
  qed (use Pair in \<open>simp add: releaseId_def\<close>)
qed

lemma foldl_releaseId_measure: "visitMeasure (foldl releaseId s ds) \<le> visitMeasure s"
proof (induction ds arbitrary: s)
  case (Cons d ds)
  show ?case using order_trans [OF Cons.IH releaseId_measure] by simp
qed simp

function visitReady :: "(string, string list) jmap \<Rightarrow> (string, int) jmap \<Rightarrow> string list \<Rightarrow> nat \<Rightarrow> nat" where
  "visitReady dependents indegree [] visited = visited"
| "visitReady dependents indegree (current # ready) visited =
     (case foldl releaseId (indegree, ready) (sort (the (jm_get dependents current)))
      of (indegree', ready') \<Rightarrow> visitReady dependents indegree' ready' (visited + 1))"
  by pat_completeness auto
termination
proof (relation "measure (\<lambda>(dependents, indegree, ready, visited). visitMeasure (indegree, ready))", goal_cases)
  case (2 dependents indegree current ready visited indegree' ready')
  then have "visitMeasure (indegree', ready') \<le> visitMeasure (indegree, ready)"
    using foldl_releaseId_measure by metis
  then show ?case by simp
qed simp

definition assertAcyclic :: "task_specification list \<Rightarrow> unit result" where
  "assertAcyclic tasks =
     rbind (mapR (\<lambda>task. mapR (checkDependency (map ts_id tasks) task) (ts_dependencies task)) tasks) (\<lambda>_.
     case edgeTables tasks of (indegree, dependents) \<Rightarrow>
       (let ready = sort (map ts_id (filter (\<lambda>task. jm_get indegree (ts_id task) = Some 0) tasks))
        in if visitReady dependents indegree ready 0 \<noteq> length tasks then Inl (PlanningError dependency_cycle)
           else Inr ()))"

section \<open>Validation\<close>

text \<open>\<^verbatim>\<open>toLowerCase\<close> on the characters of the model: the capital letters of Latin-1.\<close>

definition toLowerChar :: "char \<Rightarrow> char" where
  "toLowerChar c =
     (let n = of_char c :: nat in
      if 65 \<le> n \<and> n \<le> 90 \<or> 192 \<le> n \<and> n \<le> 222 \<and> n \<noteq> 215 then char_of (n + 32) else c)"

definition independentValueSignature :: "host \<Rightarrow> task_specification \<Rightarrow> string" where
  "independentValueSignature H spec =
     render H (JObj [(''objective'', JStr (map toLowerChar (trim (ts_objective spec)))),
       (''expected_outputs'', JArr (map JStr (sort (ts_expected_outputs spec))))])"

definition checkTaskReferences :: "planner_constraints \<Rightarrow> task_specification \<Rightarrow> unit result" where
  "checkTaskReferences constraints task =
     (if \<not> list_all (List.member (pc_knownTools constraints)) (ts_tools task) then Inl (PlanningError unknown_tool)
      else if \<not> list_all (List.member (pc_allowedCapabilities constraints)) (ts_capabilities task)
      then Inl (PlanningError capability_expansion)
      else if \<not> list_all (List.member (pc_knownGates constraints)) (ts_required_gates task)
      then Inl (PlanningError unknown_gate) else Inr ())"

definition checkSignature :: "host \<Rightarrow> string list \<Rightarrow> task_specification \<Rightarrow> string list result" where
  "checkSignature H signatures task =
     (if \<not> hasIndependentValue task then Inl (PlanningError no_independent_value)
      else let signature = independentValueSignature H task in
        if List.member signatures signature then Inl (PlanningError no_independent_value)
        else Inr (signature # signatures))"

definition validatePlanProposal :: "host \<Rightarrow> file_system \<Rightarrow> json \<Rightarrow> planner_constraints \<Rightarrow> plan_protocol_mode
    \<Rightarrow> task_specification list result" where
  "validatePlanProposal H fs proposal constraints mode =
     (case proposal of
        JArr rawTasks \<Rightarrow>
          if rawTasks = [] then invalid
          else if mode = protocol13 \<and> pc_repository_root constraints = None then invalid
          else
            rbind (assertNoEmbeddedCommands proposal) (\<lambda>_.
            rbind (mapR (readTaskSpecification H fs mode (pc_repository_root constraints)) rawTasks) (\<lambda>tasks.
            if \<not> distinct (map ts_id tasks) then invalid
            else
              rbind (mapR (checkTaskReferences constraints) tasks) (\<lambda>_.
              rbind (assertAcyclic tasks) (\<lambda>_.
              rbind (if 1 < length tasks then foldR (checkSignature H) [] tasks else Inr []) (\<lambda>_.
              Inr (sort_key ts_id tasks))))))
      | _ \<Rightarrow> invalid)"

end
