(* ===== verification/Id_Graph.thy ===== *)
theory Id_Graph
  imports Plan_Validator
begin

text \<open>
  Kahn's algorithm over items that name their dependencies by id: the loops of plan validation
  (\<^verbatim>\<open>runtime/src/planning/validator.ts\<close>) and of the operation DAG (\<^verbatim>\<open>core/src/capability/dag.ts\<close>,
  \<^verbatim>\<open>runtime/src/workflow/dag-engine.ts\<close>) keep the same counters. The locale fixes how an item names itself and
  its dependencies; the loops are shown to visit an item exactly when all of its dependencies are visited.
\<close>

locale id_graph =
  fixes key :: "'a \<Rightarrow> string" and deps :: "'a \<Rightarrow> string list"
begin

definition edges :: "'a list \<Rightarrow> (string \<times> string) set" where
  "edges tasks = {(d, key t) | d t. t \<in> set tasks \<and> d \<in> set (deps t)}"

definition known :: "'a list \<Rightarrow> bool" where
  "known tasks \<longleftrightarrow> (\<forall>t \<in> set tasks. set (deps t) \<subseteq> key ` set tasks)"

text \<open>The ids that name \<open>k\<close>, each as often as it does.\<close>

definition idEdges :: "'a list \<Rightarrow> string \<Rightarrow> string list" where
  "idEdges tasks k = concat (map (\<lambda>t. replicate (count_list (deps t) k) (key t)) tasks)"

lemma count_idEdges:
  assumes "distinct (map key tasks)" "t \<in> set tasks"
  shows "count_list (idEdges tasks k) (key t) = count_list (deps t) k"
proof -
  have rep: "count_list (replicate n x) y = (if x = y then n else 0)" for n and x y :: string
    by (induction n) auto
  have zero: "i \<notin> key ` set us \<Longrightarrow> count_list (idEdges us k) i = 0" for us i
    by (induction us) (auto simp: idEdges_def rep)
  show ?thesis using assms
  proof (induction tasks)
    case (Cons u tasks)
    then show ?case using zero [of "key t" tasks] by (auto simp: idEdges_def rep)
  qed simp
qed

definition unmetIds :: "string list \<Rightarrow> 'a \<Rightarrow> nat" where
  "unmetIds order t = length (filter (\<lambda>d. d \<notin> set order) (deps t))"

lemma unmetIds_0_iff: "unmetIds order t = 0 \<longleftrightarrow> set (deps t) \<subseteq> set order"
  by (auto simp: unmetIds_def filter_empty_conv)

lemma unmetIds_snoc:
  assumes "c \<notin> set order"
  shows "unmetIds order t = unmetIds (order @ [c]) t + count_list (deps t) c"
proof -
  have "length (filter (\<lambda>d. d \<notin> set order) ds) = length (filter (\<lambda>d. d \<notin> set (order @ [c])) ds) + count_list ds c" for ds
    using assms by (induction ds) auto
  then show ?thesis by (simp add: unmetIds_def)
qed

definition idInv :: "'a list \<Rightarrow> (string, int) jmap \<Rightarrow> string list \<Rightarrow> string list \<Rightarrow> string list \<Rightarrow> bool" where
  "idInv tasks indegree ready order ds \<longleftrightarrow>
     distinct (order @ ready) \<and> set (order @ ready) \<subseteq> key ` set tasks
     \<and> (\<forall>t \<in> set tasks. map_of indegree (key t) = Some (int (unmetIds order t + count_list ds (key t))))
     \<and> (\<forall>t \<in> set tasks. key t \<in> set (order @ ready) \<longleftrightarrow> unmetIds order t + count_list ds (key t) = 0)"

lemma idInv_release:
  assumes inv: "idInv tasks indegree ready order (d # ds)" and known: "d \<in> key ` set tasks"
    and step: "releaseId (indegree, ready) d = (indegree', ready')"
  shows "idInv tasks indegree' ready' order ds"
proof -
  from known obtain t where t: "t \<in> set tasks" "d = key t" by auto
  let ?n = "int (unmetIds order t + count_list ds d)"
  have deg: "map_of indegree d = Some (?n + 1)" using inv t by (simp add: idInv_def)
  have notin: "d \<notin> set (order @ ready)" using inv t by (simp add: idInv_def)
  have i': "indegree' = jm_set d ?n indegree" and r': "ready' = (if ?n = 0 then ready @ [d] else ready)"
    using step deg by (auto simp: releaseId_def Let_def split: if_splits)
  have same: "int (unmetIds order u + count_list ds d) = ?n" if "u \<in> set tasks" "key u = d" for u
  proof -
    have "map_of indegree (key u) = Some (int (unmetIds order u + count_list (d # ds) (key u)))"
      using inv that(1) by (simp only: idInv_def)
    then show ?thesis using deg that(2) by simp
  qed
  have degs: "map_of indegree' (key u) = Some (int (unmetIds order u + count_list ds (key u)))" if "u \<in> set tasks" for u
    using inv that same [OF that] by (auto simp: i' idInv_def)
  have mem: "key u \<in> set (order @ ready') \<longleftrightarrow> unmetIds order u + count_list ds (key u) = 0" if "u \<in> set tasks" for u
  proof (cases "key u = d")
    case True
    then show ?thesis using same [OF that True] notin by (auto simp: r')
  next
    case False
    then show ?thesis using inv that by (auto simp: idInv_def r')
  qed
  show ?thesis using inv degs mem notin known by (auto simp: idInv_def r')
qed

lemma idInv_release_all:
  assumes "idInv tasks indegree ready order ds" "set ds \<subseteq> key ` set tasks"
    and "foldl releaseId (indegree, ready) ds = (indegree', ready')"
  shows "idInv tasks indegree' ready' order []"
  using assms
proof (induction ds arbitrary: indegree ready)
  case (Cons d ds)
  obtain i1 r1 where s: "releaseId (indegree, ready) d = (i1, r1)" by fastforce
  have "idInv tasks i1 r1 order ds" by (rule idInv_release [OF Cons.prems(1) _ s]) (use Cons.prems in auto)
  then show ?case by (rule Cons.IH) (use Cons.prems s in auto)
qed simp

lemma idInv_take:
  assumes inv: "idInv tasks indegree (current # ready) order []" and ids: "distinct (map key tasks)"
    and ds: "mset ds = mset (idEdges tasks current)"
  shows "idInv tasks indegree ready (order @ [current]) ds"
proof -
  have count: "count_list ds (key t) = count_list (deps t) current" if "t \<in> set tasks" for t
    using count_idEdges [OF ids that] ds by (metis count_mset)
  have "current \<notin> set order" using inv by (simp add: idInv_def)
  then have "unmetIds (order @ [current]) t + count_list ds (key t) = unmetIds order t" if "t \<in> set tasks" for t
    using count [OF that] unmetIds_snoc by simp
  then show ?thesis using inv by (auto simp: idInv_def)
qed

text \<open>Each visited task has its dependencies visited before it.\<close>

definition rankedIds :: "'a list \<Rightarrow> string list \<Rightarrow> bool" where
  "rankedIds tasks order \<longleftrightarrow>
     (\<forall>i < length order. \<forall>t \<in> set tasks. key t = order ! i \<longrightarrow> set (deps t) \<subseteq> set (take i order))"

lemma rankedIds_snoc:
  "rankedIds tasks order \<Longrightarrow> (\<And>t. t \<in> set tasks \<Longrightarrow> key t = c \<Longrightarrow> set (deps t) \<subseteq> set order)
     \<Longrightarrow> rankedIds tasks (order @ [c])"
  by (auto simp: rankedIds_def nth_append less_Suc_eq)

lemma finite_edges: "finite (edges tasks)"
proof -
  have "edges tasks = (\<Union>t \<in> set tasks. (\<lambda>d. (d, key t)) ` set (deps t))"
    by (auto simp: edges_def)
  then show ?thesis by simp
qed

lemma ranked_acyclic:
  assumes "rankedIds tasks order" "distinct order" "key ` set tasks \<subseteq> set order"
  shows "acyclic (edges tasks)"
proof -
  define rank where "rank k = length (takeWhile (\<lambda>x. x \<noteq> k) order)" for k
  have rank_nth: "rank (order ! i) = i" if "i < length order" for i
    using length_takeWhile_nth [OF assms(2) that] by (simp add: rank_def)
  have "rank d < rank k" if "(d, k) \<in> edges tasks" for d k
  proof -
    from that obtain t where t: "t \<in> set tasks" "k = key t" "d \<in> set (deps t)" by (auto simp: edges_def)
    then obtain i where i: "i < length order" "key t = order ! i" using assms(3) by (metis imageI in_set_conv_nth subsetD)
    then have "d \<in> set (take i order)" using assms(1) t by (auto simp: rankedIds_def)
    then obtain j where "j < i" "d = order ! j" by (auto simp: in_set_conv_nth)
    then show ?thesis using i t rank_nth by simp
  qed
  then have "edges tasks \<subseteq> measure rank" by auto
  then show ?thesis using wf_subset wf_acyclic wf_measure by metis
qed

lemma stuck_ids_cyclic:
  assumes inv: "idInv tasks indegree [] order []" and known: "known tasks" and left: "set order \<noteq> key ` set tasks"
  shows "\<not> acyclic (edges tasks)"
proof
  assume "acyclic (edges tasks)"
  then have "wf (edges tasks)" by (simp add: finite_acyclic_wf finite_edges)
  let ?S = "key ` set tasks - set order"
  obtain k where "k \<in> ?S" using inv left by (auto simp: idInv_def)
  from wfE_min [OF \<open>wf _\<close> this] obtain z where z: "z \<in> ?S" and min: "\<And>y. (y, z) \<in> edges tasks \<Longrightarrow> y \<notin> ?S" by blast
  from z obtain t where t: "t \<in> set tasks" "z = key t" "key t \<notin> set order" by auto
  then have "unmetIds order t \<noteq> 0" using inv by (simp add: idInv_def)
  then obtain d where d: "d \<in> set (deps t)" "d \<notin> set order" by (auto simp: unmetIds_0_iff)
  moreover have "d \<in> key ` set tasks" using known t d by (auto simp: known_def)
  moreover have "(d, z) \<in> edges tasks" using t d by (auto simp: edges_def)
  ultimately show False using min by blast
qed

lemma edge_cycle_self: "t \<in> set tasks \<Longrightarrow> key t \<in> set (deps t) \<Longrightarrow> \<not> acyclic (edges tasks)"
  by (force simp: edges_def acyclic_def)

lemma idInv_start:
  assumes "distinct (map key tasks)" "\<forall>t \<in> set tasks. map_of indegree (key t) = Some (int (length (deps t)))"
    and "distinct ready" "set ready = key ` {t \<in> set tasks. deps t = []}"
  shows "idInv tasks indegree ready [] []"
proof -
  have "inj_on key (set tasks)" using assms(1) by (simp add: distinct_map)
  then have "key t \<in> set ready \<longleftrightarrow> length (deps t) = 0" if "t \<in> set tasks" for t
    using that by (auto simp: assms(4) dest: inj_onD)
  then show ?thesis using assms by (auto simp: idInv_def unmetIds_def)
qed

text \<open>The loop ends with every item visited exactly when the graph has no cycle.\<close>

lemma complete_iff:
  assumes ids: "distinct (map key tasks)" and known: "known tasks" and ranked: "rankedIds tasks order"
    and inv: "idInv tasks indegree [] order []"
  shows "length order = length tasks \<longleftrightarrow> acyclic (edges tasks)"
proof -
  have o: "distinct order" "set order \<subseteq> key ` set tasks" using inv by (auto simp: idInv_def)
  have "length tasks = card (key ` set tasks)" using ids by (metis distinct_card length_map list.set_map)
  then have "length order = length tasks \<longleftrightarrow> set order = key ` set tasks"
    using o distinct_card [OF o(1)] by (metis card_subset_eq finite_imageI List.finite_set)
  then show ?thesis using o stuck_ids_cyclic [OF inv known] ranked_acyclic [OF ranked o(1)] by auto
qed

end

end
