(* ===== verification/Plan_Acyclic.thy ===== *)
theory Plan_Acyclic
  imports Id_Graph
begin

text \<open>
  The cycle check of plan validation (\<open>assertAcyclic\<close>, \<^verbatim>\<open>runtime/src/planning/validator.ts\<close>) is exact: the
  invariant of its loop over task ids, and what it decides.
\<close>

section \<open>Edges\<close>

definition planEdges :: "task_specification list \<Rightarrow> (string \<times> string) set" where
  "planEdges tasks = {(d, ts_id t) | d t. t \<in> set tasks \<and> d \<in> set (ts_dependencies t)}"

definition planKnown :: "task_specification list \<Rightarrow> bool" where
  "planKnown tasks \<longleftrightarrow> (\<forall>t \<in> set tasks. set (ts_dependencies t) \<subseteq> ts_id ` set tasks)"

interpretation plan: id_graph ts_id ts_dependencies .

lemma plan_graph: "planEdges = plan.edges" "planKnown = plan.known"
  by (simp_all add: fun_eq_iff planEdges_def planKnown_def plan.edges_def plan.known_def)

lemma addEdges:
  assumes "foldl (addEdge k) (ind, dep) ds = (ind', dep')"
    and "map_of ind k = Some n" "\<forall>d \<in> set ds. map_of dep d \<noteq> None"
  shows "map_of ind' = (map_of ind)(k \<mapsto> n + int (length ds))
     \<and> (\<forall>x. map_of dep' x = map_option (\<lambda>l. l @ replicate (count_list ds x) k) (map_of dep x))"
  using assms
proof (induction ds arbitrary: ind dep n)
  case Nil
  then show ?case by (auto simp: option.map_ident)
next
  case (Cons d ds)
  then obtain l where l: "map_of dep d = Some l" by auto
  let ?ind = "jm_set k (n + 1) ind" and ?dep = "jm_set d (l @ [k]) dep"
  have step: "addEdge k (ind, dep) d = (?ind, ?dep)" using Cons.prems(2) l by (simp add: addEdge_def)
  have ih: "map_of ind' = (map_of ?ind)(k \<mapsto> (n + 1) + int (length ds))
     \<and> (\<forall>x. map_of dep' x = map_option (\<lambda>l. l @ replicate (count_list ds x) k) (map_of ?dep x))"
    by (rule Cons.IH) (use Cons.prems step in auto)
  then have "\<forall>x. map_of dep' x = map_option (\<lambda>l. l @ replicate (count_list (d # ds) x) k) (map_of dep x)"
    using l by (auto simp: replicate_app_Cons_same)
  then show ?case using ih by (simp add: algebra_simps)
qed

abbreviation addTaskEdges :: "id_tables \<Rightarrow> task_specification \<Rightarrow> id_tables" where
  "addTaskEdges tables task \<equiv> foldl (addEdge (ts_id task)) tables (ts_dependencies task)"

lemma addAllEdges:
  assumes "foldl addTaskEdges (ind, dep) ts = (ind', dep')" "distinct (map ts_id ts)"
    and "\<forall>t \<in> set ts. map_of ind (ts_id t) = Some 0"
    and "\<forall>t \<in> set ts. \<forall>d \<in> set (ts_dependencies t). map_of dep d \<noteq> None"
  shows "(\<forall>t \<in> set ts. map_of ind' (ts_id t) = Some (int (length (ts_dependencies t))))
     \<and> (\<forall>k. k \<notin> ts_id ` set ts \<longrightarrow> map_of ind' k = map_of ind k)
     \<and> (\<forall>x. map_of dep' x = map_option (\<lambda>l. l @ plan.idEdges ts x) (map_of dep x))"
  using assms
proof (induction ts arbitrary: ind dep)
  case Nil
  then show ?case by (simp add: plan.idEdges_def option.map_ident)
next
  case (Cons t ts)
  obtain i1 d1 where first: "addTaskEdges (ind, dep) t = (i1, d1)" by fastforce
  have one: "map_of i1 = (map_of ind)(ts_id t \<mapsto> 0 + int (length (ts_dependencies t)))
     \<and> (\<forall>x. map_of d1 x = map_option (\<lambda>l. l @ replicate (count_list (ts_dependencies t) x) (ts_id t)) (map_of dep x))"
    by (rule addEdges [OF first]) (use Cons.prems in auto)
  have "foldl addTaskEdges (i1, d1) ts = (ind', dep')" using Cons.prems(1) by (simp add: first)
  moreover have "\<forall>u \<in> set ts. map_of i1 (ts_id u) = Some 0" using one Cons.prems(2,3) by (auto dest: notin_imageD)
  moreover have "\<forall>u \<in> set ts. \<forall>d \<in> set (ts_dependencies u). map_of d1 d \<noteq> None" using one Cons.prems(4) by simp
  ultimately have ih: "(\<forall>u \<in> set ts. map_of ind' (ts_id u) = Some (int (length (ts_dependencies u))))
     \<and> (\<forall>k. k \<notin> ts_id ` set ts \<longrightarrow> map_of ind' k = map_of i1 k)
     \<and> (\<forall>x. map_of dep' x = map_option (\<lambda>l. l @ plan.idEdges ts x) (map_of d1 x))"
    using Cons.prems(2) by (intro Cons.IH) auto
  then have "\<forall>x. map_of dep' x = map_option (\<lambda>l. l @ plan.idEdges (t # ts) x) (map_of dep x)"
    using one by (simp add: plan.idEdges_def option.map_comp comp_def)
  then show ?case using ih one Cons.prems(2) by auto
qed

lemma edgeTables_spec:
  assumes "edgeTables tasks = (ind, dep)" "distinct (map ts_id tasks)" "planKnown tasks"
  shows "\<forall>t \<in> set tasks. map_of ind (ts_id t) = Some (int (length (ts_dependencies t)))"
    and "\<forall>t \<in> set tasks. map_of dep (ts_id t) = Some (plan.idEdges tasks (ts_id t))"
proof -
  have keyed: "map_of (map (\<lambda>t. (ts_id t, v)) tasks) k = (if k \<in> ts_id ` set tasks then Some v else None)" for v k
    by (induction tasks) auto
  have "(\<forall>t \<in> set tasks. map_of ind (ts_id t) = Some (int (length (ts_dependencies t))))
     \<and> (\<forall>k. k \<notin> ts_id ` set tasks \<longrightarrow> map_of ind k = map_of (map (\<lambda>t. (ts_id t, 0)) tasks) k)
     \<and> (\<forall>x. map_of dep x = map_option (\<lambda>l. l @ plan.idEdges tasks x) (map_of (map (\<lambda>t. (ts_id t, [])) tasks) x))"
    by (rule addAllEdges [OF assms(1) [unfolded edgeTables_def] assms(2)])
      (use assms(3) in \<open>auto simp: keyed planKnown_def\<close>)
  then show "\<forall>t \<in> set tasks. map_of ind (ts_id t) = Some (int (length (ts_dependencies t)))"
    "\<forall>t \<in> set tasks. map_of dep (ts_id t) = Some (plan.idEdges tasks (ts_id t))"
    by (simp_all add: keyed)
qed

section \<open>The loop\<close>

lemma visitReady_order:
  assumes "plan.idInv tasks indegree ready order []" "distinct (map ts_id tasks)"
    and "\<forall>t \<in> set tasks. map_of dependents (ts_id t) = Some (plan.idEdges tasks (ts_id t))"
    and "plan.rankedIds tasks order" "visited = length order"
  shows "\<exists>order' indegree'. visitReady dependents indegree ready visited = length order'
     \<and> plan.rankedIds tasks order' \<and> plan.idInv tasks indegree' [] order' []"
  using assms
proof (induction dependents indegree ready visited arbitrary: order rule: visitReady.induct)
  case (1 dependents indegree visited)
  then show ?case by auto
next
  case (2 dependents indegree current ready visited)
  have cur: "current \<in> ts_id ` set tasks" using "2.prems"(1) by (simp add: plan.idInv_def)
  then have dep: "the (jm_get dependents current) = plan.idEdges tasks current" using "2.prems"(3) by auto
  let ?ds = "sort (plan.idEdges tasks current)"
  obtain i' r' where fold: "foldl releaseId (indegree, ready) ?ds = (i', r')" by fastforce
  have inv: "plan.idInv tasks i' r' (order @ [current]) []"
    by (rule plan.idInv_release_all [OF plan.idInv_take [OF "2.prems"(1,2), of ?ds] _ fold]) (auto simp: plan.idEdges_def)
  have "set (ts_dependencies t) \<subseteq> set order" if "t \<in> set tasks" "ts_id t = current" for t
    using "2.prems"(1) that by (auto simp: plan.idInv_def simp flip: plan.unmetIds_0_iff)
  then have ranked: "plan.rankedIds tasks (order @ [current])" by (rule plan.rankedIds_snoc [OF "2.prems"(4)])
  have "visitReady dependents indegree (current # ready) visited = visitReady dependents i' r' (visited + 1)"
    using fold by (simp add: dep)
  moreover have "\<exists>order' indegree'. visitReady dependents i' r' (visited + 1) = length order'
     \<and> plan.rankedIds tasks order' \<and> plan.idInv tasks indegree' [] order' []"
    by (rule "2.IH" [OF _ inv "2.prems"(2,3) ranked]) (use fold dep "2.prems"(5) in auto)
  ultimately show ?case by simp
qed

section \<open>The check\<close>

lemma visit_iff:
  assumes ids: "distinct (map ts_id tasks)" and known: "planKnown tasks"
    and tables: "edgeTables tasks = (indegree, dependents)"
  shows "visitReady dependents indegree (sort (map ts_id (filter (\<lambda>t. jm_get indegree (ts_id t) = Some 0) tasks))) 0 = length tasks
     \<longleftrightarrow> acyclic (planEdges tasks)"
proof -
  let ?ready = "sort (map ts_id (filter (\<lambda>t. jm_get indegree (ts_id t) = Some 0) tasks))"
  note e = edgeTables_spec [OF tables ids known]
  have ready: "distinct ?ready" "set ?ready = ts_id ` {t \<in> set tasks. ts_dependencies t = []}"
    using ids e(1) by (auto simp: distinct_map_filter)
  from visitReady_order [OF plan.idInv_start [OF ids e(1) ready] ids e(2), of 0] obtain order indegree'
    where v: "visitReady dependents indegree ?ready 0 = length order" and r: "plan.rankedIds tasks order"
      and inv: "plan.idInv tasks indegree' [] order []" by (auto simp: plan.rankedIds_def)
  show ?thesis using v plan.complete_iff [OF ids _ r inv] known by (simp add: plan_graph)
qed

lemma dependencies_checked:
  "(\<exists>r. mapR (\<lambda>task. mapR (checkDependency (map ts_id tasks) task) (ts_dependencies task)) tasks = Inr r)
     \<longleftrightarrow> planKnown tasks \<and> (\<forall>t \<in> set tasks. ts_id t \<notin> set (ts_dependencies t))"
  by (auto simp: mapR_exists checkDependency_def planKnown_def split: if_splits)

lemma assertAcyclic_accepts:
  assumes "distinct (map ts_id tasks)"
  shows "assertAcyclic tasks = Inr () \<longleftrightarrow> planKnown tasks \<and> acyclic (planEdges tasks)"
proof -
  obtain indegree dependents where tables: "edgeTables tasks = (indegree, dependents)" by fastforce
  show ?thesis
    using visit_iff [OF assms _ tables] dependencies_checked [of tasks] plan.edge_cycle_self [of _ tasks] tables
    by (auto simp: assertAcyclic_def rbind_Inr_iff Let_def plan_graph split: if_splits)
qed

end
