(* ===== verification/Plan_Soundness.thy ===== *)
theory Plan_Soundness
  imports Plan_Acyclic
begin

text \<open>
  What plan validation promises (\<open>validatePlanProposal\<close>, \<^verbatim>\<open>runtime/src/planning/validator.ts\<close>), and that
  the wave compiler can rely on it.
\<close>

section \<open>Errors of the cycle check\<close>

text \<open>
  The cycle check of plan validation is exact: it passes exactly when every dependency is a task of
  the plan and the dependencies have no cycle; it reports \<open>dependency_cycle\<close> only when there is one and
  \<open>invalid_specification\<close> only when a dependency is unknown.
\<close>
theorem assertAcyclic_exact:
  assumes "distinct (map ts_id tasks)"
  shows "case assertAcyclic tasks of
      Inr _ \<Rightarrow> planKnown tasks \<and> acyclic (planEdges tasks)
    | Inl e \<Rightarrow> \<not> acyclic (planEdges tasks) \<and> e = PlanningError dependency_cycle
        \<or> \<not> planKnown tasks \<and> e = PlanningError invalid_specification"
proof (cases "assertAcyclic tasks")
  case (Inr u)
  then show ?thesis using assertAcyclic_accepts [OF assms] by simp
next
  case (Inl e)
  let ?checks = "mapR (\<lambda>task. mapR (checkDependency (map ts_id tasks) task) (ts_dependencies task)) tasks"
  show ?thesis
  proof (cases ?checks)
    case (Inl e')
    then have "e = e'" using \<open>assertAcyclic tasks = Inl e\<close> by (simp add: assertAcyclic_def)
    from mapR_error [OF Inl] obtain t where t: "t \<in> set tasks"
      "mapR (checkDependency (map ts_id tasks) t) (ts_dependencies t) = Inl e'" by blast
    from mapR_error [OF t(2)] obtain d where d: "d \<in> set (ts_dependencies t)" "checkDependency (map ts_id tasks) t d = Inl e'"
      by blast
    then show ?thesis using t(1) \<open>e = e'\<close> Inl \<open>assertAcyclic tasks = Inl e\<close> plan.edge_cycle_self [of t tasks, folded plan_graph]
      by (auto simp: checkDependency_def planKnown_def split: if_splits)
  next
    case (Inr r)
    then have "planKnown tasks" using dependencies_checked [of tasks] by blast
    moreover have "e = PlanningError dependency_cycle"
      using \<open>assertAcyclic tasks = Inl e\<close> Inr by (auto simp: assertAcyclic_def Let_def split: prod.splits if_splits)
    ultimately show ?thesis using assertAcyclic_accepts [OF assms] Inl by auto
  qed
qed

section \<open>Embedded commands\<close>



section \<open>Reading a task\<close>

definition positiveCount :: "rat \<Rightarrow> bool" where
  "positiveCount n \<longleftrightarrow> isInteger n \<and> 1 \<le> n"

text \<open>What every task of an accepted plan satisfies, whatever the proposal looked like.\<close>

definition textList :: "string list \<Rightarrow> bool" where
  "textList xs \<longleftrightarrow> [] \<notin> set xs"

definition assertionComplete :: "acceptance_assertion \<Rightarrow> bool" where
  "assertionComplete a \<longleftrightarrow> identifierPattern (as_assertion_id a) \<and> (\<forall>xs \<in> {as_test_ids a, as_required_gate_ids a, as_evidence_requirements a}.
     xs \<noteq> [] \<and> textList xs)"

definition wellSpecified :: "host \<Rightarrow> task_specification \<Rightarrow> bool" where
  "wellSpecified H t \<longleftrightarrow>
     identifierPattern (ts_id t) \<and> hasIndependentValue t
     \<and> ts_impact_paths t \<noteq> [] \<and> (\<forall>path \<in> set (ts_impact_paths t). textList path)
     \<and> (\<forall>c \<in> set (ts_acceptance t). trim (ac_description c) \<noteq> [] \<and> trim (ac_verification c) \<noteq> [])
     \<and> (\<forall>xs \<in> {ts_expected_outputs t, ts_required_gates t, ts_capabilities t, ts_tools t, ts_dependencies t}. textList xs)
     \<and> positiveCount (tb_steps (ts_budget t)) \<and> positiveCount (tb_tokens (ts_budget t))
     \<and> (\<forall>d. tb_duration_ms (ts_budget t) = Some d \<longrightarrow> positiveCount d)
     \<and> ts_required_gates t \<noteq> []
     \<and> (\<forall>as. ts_assertions t = Some as \<longrightarrow> as \<noteq> [] \<and> distinct (map as_assertion_id as)
          \<and> (\<forall>a \<in> set as. assertionComplete a \<and> set (as_required_gate_ids a) \<subseteq> set (ts_required_gates t)))
     \<and> (\<forall>ps. ts_write_paths t = Some ps \<longrightarrow> distinct ps \<and> (\<forall>p \<in> set ps. normalizeTaskWritePath H p = Inr p))
     \<and> (\<forall>rs. ts_exclusive_resources t = Some rs \<longrightarrow> distinct rs \<and> (\<forall>r \<in> set rs. normalizeExclusiveResourceKey H r = Inr r))"

lemma confine_same: "confineWritePath fs base p = Inr q \<Longrightarrow> q = p"
  by (auto simp: confineWritePath_def split: option.splits if_splits)

lemma normalizeIn_Inr:
  assumes "normalizeTaskWritePathIn H fs base p = Inr q"
  shows "normalizeTaskWritePath H q = Inr q \<and> (\<forall>b. base = Some b \<longrightarrow> confineWritePath fs b q = Inr q)"
proof -
  from assms obtain n where n: "normalizeTaskWritePath H p = Inr n"
    and rest: "(case base of None \<Rightarrow> Inr n | Some b \<Rightarrow> confineWritePath fs b n) = Inr q"
    by (auto simp: normalizeTaskWritePathIn_def rbind_Inr_iff)
  have "n = p" using normalizeTaskWritePath_same [OF n] .
  moreover have "q = n" using rest confine_same by (auto split: option.splits)
  ultimately show ?thesis using n rest by auto
qed

lemma readResourceClaims_Inr:
  assumes "readResourceClaims mode f v = Inr claims"
  shows "case claims of None \<Rightarrow> mode = legacy | Some cs \<Rightarrow> distinct cs \<and> (\<forall>c \<in> set cs. \<exists>x. f x = Inr c)"
  using assms
  by (cases mode) (auto simp: readResourceClaims_def rbind_Inr_iff split: option.splits if_splits dest: mapR_Inr_source)

lemma readBudget_Inr:
  assumes "readBudget mode v = Inr b"
  shows "positiveCount (tb_steps b)" "positiveCount (tb_tokens b)"
    "case tb_duration_ms b of None \<Rightarrow> mode = legacy | Some d \<Rightarrow> positiveCount d"
proof -
  have p: "positiveCount n" if "readPositive v = Inr n" for v n
    using that by (auto simp: readPositive_def positiveCount_def split: option.splits json.splits if_splits)
  show "positiveCount (tb_steps b)" "positiveCount (tb_tokens b)"
    "case tb_duration_ms b of None \<Rightarrow> mode = legacy | Some d \<Rightarrow> positiveCount d"
    using assms p by (cases mode; auto simp: readBudget_def rbind_Inr_iff split: option.splits if_splits)+
qed

lemma readStringList_texts: "readStringList v = Inr xs \<Longrightarrow> textList xs"
  by (auto simp: readStringList_def readNonEmpty_def textList_def split: option.splits json.splits if_splits dest!: mapR_Inr_source)

lemma readIdentifier_Inr: "readIdentifier v = Inr s \<Longrightarrow> identifierPattern s"
  by (auto simp: readIdentifier_def split: option.splits json.splits if_splits)

lemma readAssertion_Inr:
  assumes "readAssertion gates seen x = Inr seen'"
  obtains a where "seen' = seen @ [a]" "as_assertion_id a \<notin> as_assertion_id ` set seen" "assertionComplete a" "set (as_required_gate_ids a) \<subseteq> set gates"
proof -
  obtain entries i tests gateIds evidence where a: "x = JObj entries" "readIdentifier (jm_get entries ''assertion_id'') = Inr i"
    "i \<notin> as_assertion_id ` set seen" "readStringList (jm_get entries ''test_ids'') = Inr tests"
    "readStringList (jm_get entries ''required_gate_ids'') = Inr gateIds" "readStringList (jm_get entries ''evidence_requirements'') = Inr evidence"
    "tests \<noteq> []" "gateIds \<noteq> []" "evidence \<noteq> []" "list_all (List.member gates) gateIds"
    "seen' = seen @ [\<lparr>as_assertion_id = i, as_assertion_kind = None, as_acceptance_criterion_id = None, as_criterion_semantic_digest = None,
       as_test_ids = tests, as_required_gate_ids = gateIds, as_evidence_requirements = evidence\<rparr>]"
    using assms by (auto simp: readAssertion_def isPlainObject_def rbind_Inr_iff split: option.splits json.splits if_splits)
  show thesis using a readIdentifier_Inr [OF a(2)] readStringList_texts
    by (intro that [OF a(11)]) (auto simp: assertionComplete_def list_all_iff)
qed

lemma readAssertions_Inr:
  assumes "readAssertions gates v = Inr (Some as)"
  shows "as \<noteq> []" "distinct (map as_assertion_id as) \<and> (\<forall>a \<in> set as. assertionComplete a \<and> set (as_required_gate_ids a) \<subseteq> set gates)"
proof -
  from assms obtain items where fold: "foldR (readAssertion gates) [] items = Inr as" and items: "items \<noteq> []"
    by (auto simp: readAssertions_def rbind_Inr_iff split: option.splits json.splits if_splits)
  show "distinct (map as_assertion_id as) \<and> (\<forall>a \<in> set as. assertionComplete a \<and> set (as_required_gate_ids a) \<subseteq> set gates)"
    by (rule foldR_invariant [OF fold]) (simp, erule readAssertion_Inr, auto)
  have "length as = length items"
  proof -
    have "length seen' = length seen + length items" if "foldR (readAssertion gates) seen items = Inr seen'" for seen seen'
      using that by (induction items arbitrary: seen) (auto simp: rbind_Inr_iff elim!: readAssertion_Inr)
    then show ?thesis using fold by fastforce
  qed
  then show "as \<noteq> []" using items by auto
qed

lemma readImpactPaths_Inr:
  assumes "readImpactPaths v = Inr paths"
  shows "paths \<noteq> [] \<and> (\<forall>path \<in> set paths. textList path)"
proof -
  from assms obtain items where read: "mapR readImpactPath items = Inr paths" and items: "items \<noteq> []"
    by (auto simp: readImpactPaths_def split: option.splits json.splits if_splits)
  have "textList path" if "path \<in> set paths" for path
    using mapR_Inr_source [OF read that] by (auto simp: readImpactPath_def intro: readStringList_texts)
  moreover have "paths \<noteq> []" using read items by (auto simp: mapR_Inr_iff)
  ultimately show ?thesis by blast
qed

text \<open>The fields of a task that was read, each with the reader that accepted it.\<close>

lemma readTaskSpecification_Inr:
  assumes "readTaskSpecification H fs mode base v = Inr t"
  obtains raw where "v = JObj raw" "readIdentifier (jm_get raw ''id'') = Inr (ts_id t)"
    "readObjective (jm_get raw ''objective'') = Inr (ts_objective t)" "ts_expected_outputs t \<noteq> []"
    "readAcceptance (jm_get raw ''acceptance'') = Inr (ts_acceptance t)"
    "readBudget mode (jm_get raw ''budget'') = Inr (ts_budget t)"
    "readResourceClaims mode (normalizeTaskWritePathIn H fs (if mode = protocol13 then base else None))
       (jm_get raw ''write_paths'') = Inr (ts_write_paths t)"
    "readResourceClaims mode (normalizeExclusiveResourceKey H) (jm_get raw ''exclusive_resources'') = Inr (ts_exclusive_resources t)"
    "ts_required_gates t \<noteq> []" "readAssertions (ts_required_gates t) (jm_get raw ''assertions'') = Inr (ts_assertions t)"
    "readImpactPaths (jm_get raw ''impact_paths'') = Inr (ts_impact_paths t)"
    "\<forall>xs \<in> {ts_expected_outputs t, ts_required_gates t, ts_capabilities t, ts_tools t, ts_dependencies t}. \<exists>v. readStringList v = Inr xs"
proof -
  from assms obtain raw where raw: "v = JObj raw"
    by (auto simp: readTaskSpecification_def isPlainObject_def split: json.splits)
  show thesis
    using assms by (intro that [of raw]) (auto simp: readTaskSpecification_def isPlainObject_def raw rbind_Inr_iff)
qed

lemma read_wellSpecified:
  assumes "readTaskSpecification H fs mode base v = Inr t"
  shows "wellSpecified H t"
    and "mode = protocol13 \<Longrightarrow> assertProtocol13TaskSpecification t = Inr ()"
    and "mode = protocol13 \<Longrightarrow> base = Some b \<Longrightarrow> ts_write_paths t = Some ps \<Longrightarrow> p \<in> set ps \<Longrightarrow> confineWritePath fs b p = Inr p"
proof -
  from assms obtain raw where r: "readIdentifier (jm_get raw ''id'') = Inr (ts_id t)"
    "readObjective (jm_get raw ''objective'') = Inr (ts_objective t)" "ts_expected_outputs t \<noteq> []"
    "readAcceptance (jm_get raw ''acceptance'') = Inr (ts_acceptance t)"
    "readBudget mode (jm_get raw ''budget'') = Inr (ts_budget t)"
    "readResourceClaims mode (normalizeTaskWritePathIn H fs (if mode = protocol13 then base else None))
       (jm_get raw ''write_paths'') = Inr (ts_write_paths t)"
    "readResourceClaims mode (normalizeExclusiveResourceKey H) (jm_get raw ''exclusive_resources'') = Inr (ts_exclusive_resources t)"
    "ts_required_gates t \<noteq> []" "readAssertions (ts_required_gates t) (jm_get raw ''assertions'') = Inr (ts_assertions t)"
    "readImpactPaths (jm_get raw ''impact_paths'') = Inr (ts_impact_paths t)"
    "\<forall>xs \<in> {ts_expected_outputs t, ts_required_gates t, ts_capabilities t, ts_tools t, ts_dependencies t}. \<exists>v. readStringList v = Inr xs"
    by (rule readTaskSpecification_Inr)
  have impact: "ts_impact_paths t \<noteq> []" "\<forall>path \<in> set (ts_impact_paths t). textList path"
    using readImpactPaths_Inr [OF r(10)] by simp_all
  have texts: "\<forall>xs \<in> {ts_expected_outputs t, ts_required_gates t, ts_capabilities t, ts_tools t, ts_dependencies t}. textList xs"
    using r(11) readStringList_texts by blast
  have criteria: "trim (ac_description c) \<noteq> [] \<and> trim (ac_verification c) \<noteq> []" if c: "c \<in> set (ts_acceptance t)" for c
  proof -
    obtain v where "readCriterion v = Inr c"
      using r(4) mapR_Inr_source [OF _ c] by (auto simp: readAcceptance_def split: option.splits json.splits if_splits)
    then show ?thesis by (auto simp: readCriterion_def readObjective_def rbind_Inr_iff split: option.splits json.splits if_splits)
  qed
  have ident: "identifierPattern (ts_id t)"
    using r(1) by (auto simp: readIdentifier_def split: option.splits json.splits if_splits)
  have "trim (ts_objective t) \<noteq> []"
    using r(2) by (auto simp: readObjective_def split: option.splits json.splits if_splits)
  moreover have "ts_acceptance t \<noteq> []"
    using r(4) by (auto simp: readAcceptance_def mapR_Inr_iff split: option.splits json.splits if_splits)
  ultimately have worth: "hasIndependentValue t" using r(3) by (simp add: hasIndependentValue_def)
  note budget = readBudget_Inr [OF r(5)]
  note paths = readResourceClaims_Inr [OF r(6)] and resources = readResourceClaims_Inr [OF r(7)]
  have path: "normalizeTaskWritePath H p = Inr p \<and> (mode = protocol13 \<and> base = Some b \<longrightarrow> confineWritePath fs b p = Inr p)"
    if "ts_write_paths t = Some ps" "p \<in> set ps" for ps p b
    using paths that by (auto dest!: normalizeIn_Inr split: if_splits)
  have resource: "normalizeExclusiveResourceKey H k = Inr k" if "ts_exclusive_resources t = Some ks" "k \<in> set ks" for ks k
    using resources that by (auto simp: normalizeExclusiveResourceKey_Inr)
  have checked: "as \<noteq> []" "distinct (map as_assertion_id as)" "\<forall>a \<in> set as. assertionComplete a \<and> set (as_required_gate_ids a) \<subseteq> set (ts_required_gates t)"
    if "ts_assertions t = Some as" for as
    using readAssertions_Inr [of "ts_required_gates t" _ as] r(9) that by auto
  have claims: "\<forall>ps. ts_write_paths t = Some ps \<longrightarrow> distinct ps \<and> (\<forall>p \<in> set ps. normalizeTaskWritePath H p = Inr p)"
    "\<forall>rs. ts_exclusive_resources t = Some rs \<longrightarrow> distinct rs \<and> (\<forall>r \<in> set rs. normalizeExclusiveResourceKey H r = Inr r)"
    using paths resources path resource by auto
  have duration: "\<forall>d. tb_duration_ms (ts_budget t) = Some d \<longrightarrow> positiveCount d" using budget(3) by auto
  show "wellSpecified H t"
    unfolding wellSpecified_def using ident worth impact texts criteria budget(1,2) duration r(8) checked claims by simp
  show "assertProtocol13TaskSpecification t = Inr ()" if "mode = protocol13"
    using that budget(3) paths resources
    by (auto simp: assertProtocol13TaskSpecification_def positiveCount_def split: option.splits)
  show "confineWritePath fs b p = Inr p" if "mode = protocol13" "base = Some b" "ts_write_paths t = Some ps" "p \<in> set ps"
    using path [OF that(3,4)] that(1,2) by simp
qed

lemma wellSpecified_normalizes:
  assumes "wellSpecified H t" "assertProtocol13TaskSpecification t = Inr ()"
  shows "\<exists>n. normalizeTask H q t = Inr n"
proof -
  have same: "\<exists>ys. mapR f (case c of None \<Rightarrow> [] | Some xs \<Rightarrow> xs) = Inr ys"
    if "\<And>xs x. c = Some xs \<Longrightarrow> x \<in> set xs \<Longrightarrow> f x = Inr x" for f :: "string \<Rightarrow> string result" and c
    using that by (cases c) (auto simp: mapR_exists)
  obtain ps rs where "mapR (normalizeTaskWritePath H) (case ts_write_paths t of None \<Rightarrow> [] | Some ps \<Rightarrow> ps) = Inr ps"
    "mapR (normalizeExclusiveResourceKey H) (case ts_exclusive_resources t of None \<Rightarrow> [] | Some rs \<Rightarrow> rs) = Inr rs"
    using same [of "ts_write_paths t" "normalizeTaskWritePath H"] same [of "ts_exclusive_resources t" "normalizeExclusiveResourceKey H"]
      assms(1) by (auto simp: wellSpecified_def)
  then show ?thesis using assms(2) by (simp add: normalizeTask_def)
qed

section \<open>Accepted plans\<close>

lemma validatePlanProposal_Inr:
  assumes "validatePlanProposal H fs proposal constraints mode = Inr plan"
  obtains rawTasks tasks where "proposal = JArr rawTasks" "rawTasks \<noteq> []"
    "mode = protocol13 \<Longrightarrow> pc_repository_root constraints \<noteq> None" "assertNoEmbeddedCommands proposal = Inr ()"
    "mapR (readTaskSpecification H fs mode (pc_repository_root constraints)) rawTasks = Inr tasks"
    "distinct (map ts_id tasks)" "\<And>t. t \<in> set tasks \<Longrightarrow> checkTaskReferences constraints t = Inr ()"
    "assertAcyclic tasks = Inr ()" "plan = sort_key ts_id tasks"
    "1 < length tasks \<Longrightarrow> \<exists>signatures. foldR (checkSignature H) [] tasks = Inr signatures"
proof -
  from assms obtain rawTasks where raw: "proposal = JArr rawTasks"
    by (auto simp: validatePlanProposal_def split: json.splits)
  from assms obtain tasks refs where t: "rawTasks \<noteq> []" "mode = protocol13 \<longrightarrow> pc_repository_root constraints \<noteq> None"
    "assertNoEmbeddedCommands proposal = Inr ()"
    "mapR (readTaskSpecification H fs mode (pc_repository_root constraints)) rawTasks = Inr tasks"
    "distinct (map ts_id tasks)" "mapR (checkTaskReferences constraints) tasks = Inr refs"
    "assertAcyclic tasks = Inr ()" "plan = sort_key ts_id tasks"
    "1 < length tasks \<longrightarrow> (\<exists>signatures. foldR (checkSignature H) [] tasks = Inr signatures)"
    by (auto simp: validatePlanProposal_def raw rbind_Inr_iff split: if_splits)
  show thesis
  proof (rule that [OF raw t(1) _ t(3,4,5) _ t(7,8)])
    fix x assume "x \<in> set tasks"
    then show "checkTaskReferences constraints x = Inr ()" using t(6) by (auto dest: mapR_Inr_set)
  qed (use t(2,9) in blast)+
qed

text \<open>Two siblings with the same objective, up to case and outer space, and the same outputs in any order.\<close>

definition duplicates :: "task_specification \<Rightarrow> task_specification \<Rightarrow> bool" where
  "duplicates s t \<longleftrightarrow> map toLowerChar (trim (ts_objective s)) = map toLowerChar (trim (ts_objective t))
     \<and> mset (ts_expected_outputs s) = mset (ts_expected_outputs t)"

lemma duplicates_signature: "duplicates s t \<Longrightarrow> independentValueSignature H s = independentValueSignature H t"
  using sorted_list_of_multiset_mset [of "ts_expected_outputs s"] sorted_list_of_multiset_mset [of "ts_expected_outputs t"]
  unfolding duplicates_def independentValueSignature_def by simp

lemma checkSignatures:
  assumes "foldR (checkSignature H) signatures tasks = Inr signatures'"
  shows "distinct (map (independentValueSignature H) tasks) \<and> set signatures \<inter> independentValueSignature H ` set tasks = {}"
  using assms
proof (induction tasks arbitrary: signatures)
  case (Cons t tasks)
  let ?sig = "independentValueSignature H t"
  from Cons.prems obtain new: "?sig \<notin> set signatures" and rest: "foldR (checkSignature H) (?sig # signatures) tasks = Inr signatures'"
    by (auto simp: rbind_Inr_iff checkSignature_def [of H signatures t] Let_def split: if_splits)
  then show ?case using Cons.IH [OF rest] by auto
qed simp

lemma planEdges_perm: "set ps = set qs \<Longrightarrow> planEdges ps = planEdges qs" "set ps = set qs \<Longrightarrow> planKnown ps = planKnown qs"
  by (auto simp: planEdges_def planKnown_def)

text \<open>The facts about an accepted plan that later stages use.\<close>

lemma accepted_plan:
  assumes "validatePlanProposal H fs proposal constraints mode = Inr plan"
  shows "plan \<noteq> []" "sorted (map ts_id plan)" "distinct (map ts_id plan)" "planKnown plan" "acyclic (planEdges plan)"
    and "t \<in> set plan \<Longrightarrow> wellSpecified H t" "t \<in> set plan \<Longrightarrow> checkTaskReferences constraints t = Inr ()"
    and "t \<in> set plan \<Longrightarrow> mode = protocol13 \<Longrightarrow> assertProtocol13TaskSpecification t = Inr ()"
    and "t \<in> set plan \<Longrightarrow> mode = protocol13 \<Longrightarrow> ts_write_paths t = Some ps \<Longrightarrow> p \<in> set ps \<Longrightarrow>
       \<exists>base. pc_repository_root constraints = Some base \<and> confineWritePath fs base p = Inr p"
    and "\<exists>rawTasks tasks. proposal = JArr rawTasks \<and> mset plan = mset tasks
       \<and> mapR (readTaskSpecification H fs mode (pc_repository_root constraints)) rawTasks = Inr tasks"
    and "s \<in> set plan \<Longrightarrow> t \<in> set plan \<Longrightarrow> s \<noteq> t \<Longrightarrow> \<not> duplicates s t"
proof -
  obtain rawTasks tasks where v: "rawTasks \<noteq> []" "mode = protocol13 \<Longrightarrow> pc_repository_root constraints \<noteq> None"
    "mapR (readTaskSpecification H fs mode (pc_repository_root constraints)) rawTasks = Inr tasks"
    "distinct (map ts_id tasks)" "\<And>t. t \<in> set tasks \<Longrightarrow> checkTaskReferences constraints t = Inr ()"
    "assertAcyclic tasks = Inr ()" "plan = sort_key ts_id tasks" "proposal = JArr rawTasks"
    "1 < length tasks \<Longrightarrow> \<exists>signatures. foldR (checkSignature H) [] tasks = Inr signatures"
    by (rule validatePlanProposal_Inr [OF assms]) blast
  have same: "set plan = set tasks" by (simp add: v(7))
  have len: "length rawTasks = length tasks" using v(3) by (simp add: mapR_Inr_iff list_all2_lengthD)
  then have "tasks \<noteq> []" using v(1) by auto
  then show "plan \<noteq> []" using same by auto
  show "sorted (map ts_id plan)" by (simp add: v(7))
  show "distinct (map ts_id plan)"
    using v(4) by (metis v(7) mset_map mset_sort mset_eq_imp_distinct_iff)
  show "planKnown plan" "acyclic (planEdges plan)"
    using assertAcyclic_accepts [OF v(4)] v(6) planEdges_perm [OF same] by auto
  show "checkTaskReferences constraints t = Inr ()" if "t \<in> set plan" using v(5) that same by blast
  have read: "\<exists>raw. readTaskSpecification H fs mode (pc_repository_root constraints) raw = Inr t" if "t \<in> set plan" for t
    using mapR_Inr_source [OF v(3)] that same by blast
  show "wellSpecified H t" if "t \<in> set plan" using read [OF that] read_wellSpecified(1) by blast
  show "assertProtocol13TaskSpecification t = Inr ()" if "t \<in> set plan" "mode = protocol13"
    using read [OF that(1)] read_wellSpecified(2) that(2) by blast
  show "\<exists>base. pc_repository_root constraints = Some base \<and> confineWritePath fs base p = Inr p"
    if "t \<in> set plan" "mode = protocol13" "ts_write_paths t = Some ps" "p \<in> set ps"
    using read [OF that(1)] read_wellSpecified(3) [OF _ that(2) _ that(3,4)] v(2) that(2) by blast
  show "\<exists>rawTasks tasks. proposal = JArr rawTasks \<and> mset plan = mset tasks
       \<and> mapR (readTaskSpecification H fs mode (pc_repository_root constraints)) rawTasks = Inr tasks"
    using v(3,7,8) by (intro exI [of _ rawTasks] exI [of _ tasks]) simp
  show "\<not> duplicates s t" if st: "s \<in> set plan" "t \<in> set plan" "s \<noteq> t"
  proof -
    have in_tasks: "s \<in> set tasks" "t \<in> set tasks" using st same by auto
    then have "1 < length tasks" using st(3) by (cases tasks; cases "tl tasks") auto
    then obtain sigs where sigs: "foldR (checkSignature H) [] tasks = Inr sigs" using v(9) by blast
    have "inj_on (independentValueSignature H) (set tasks)" using checkSignatures [OF sigs] by (simp add: distinct_map)
    then show ?thesis using in_tasks st(3) duplicates_signature by (metis inj_onD)
  qed
qed

section \<open>Symbolic links\<close>

lemma existingAncestor_Some:
  assumes "existingAncestor fs path = Some probe"
  shows "\<exists>n. probe = (dirname ^^ n) path \<and> fs_exists fs probe \<and> (\<forall>k < n. \<not> fs_exists fs ((dirname ^^ k) path))"
  using assms
proof (induction fs path rule: existingAncestor.induct)
  case (1 fs path)
  show ?case
  proof (cases "fs_exists fs path")
    case True
    then show ?thesis using "1.prems" by (intro exI [of _ 0]) (simp add: existingAncestor.simps)
  next
    case False
    then have up: "dirname path \<noteq> path" "existingAncestor fs (dirname path) = Some probe"
      using "1.prems" by (auto simp: existingAncestor.simps [of fs path] Let_def split: if_splits)
    then obtain n where n: "probe = (dirname ^^ n) (dirname path)" "fs_exists fs probe"
      "\<forall>k < n. \<not> fs_exists fs ((dirname ^^ k) (dirname path))"
      using "1.IH" [OF False refl] by blast
    have "\<not> fs_exists fs ((dirname ^^ k) path)" if "k < Suc n" for k
      using that n(3) False by (cases k) (auto simp: funpow_swap1)
    then show ?thesis using n(1,2) by (intro exI [of _ "Suc n"]) (simp add: funpow_swap1)
  qed
qed

text \<open>
  A claim that stays in the repository: the nearest existing ancestor of the claimed path, walking up from the path
  joined to the resolved repository root, resolves to the root itself or to a path below it.
\<close>

definition staysInside :: "file_system \<Rightarrow> string option \<Rightarrow> string \<Rightarrow> bool" where
  "staysInside fs repositoryRoot p \<longleftrightarrow> (\<exists>base top n real. repositoryRoot = Some base \<and> fs_realpath fs base = Some top
     \<and> fs_exists fs ((dirname ^^ n) (resolvePath top p)) \<and> (\<forall>k < n. \<not> fs_exists fs ((dirname ^^ k) (resolvePath top p)))
     \<and> fs_realpath fs ((dirname ^^ n) (resolvePath top p)) = Some real
     \<and> (real = top \<or> (\<exists>rest. real = top @ ''/'' @ rest)))"

text \<open>No accepted protocol 1.3 claim leaves the repository through a symbolic link.\<close>

theorem accepted_claim_no_escape:
  assumes "validatePlanProposal H fs proposal constraints protocol13 = Inr plan"
    and "t \<in> set plan" "ts_write_paths t = Some ps" "p \<in> set ps"
  shows "staysInside fs (pc_repository_root constraints) p"
proof -
  obtain base where base: "pc_repository_root constraints = Some base" "confineWritePath fs base p = Inr p"
    using accepted_plan(9) [OF assms(1,2) refl assms(3,4)] by blast
  then obtain top probe real where c: "fs_realpath fs base = Some top" "existingAncestor fs (resolvePath top p) = Some probe"
    "fs_realpath fs probe = Some real" "real = top \<or> startsWith real (top @ ''/'')"
    by (auto simp: confineWritePath_def split: option.splits if_splits)
  obtain n where n: "probe = (dirname ^^ n) (resolvePath top p)" "fs_exists fs probe"
    "\<forall>k < n. \<not> fs_exists fs ((dirname ^^ k) (resolvePath top p))"
    using existingAncestor_Some [OF c(2)] by blast
  have "real = top \<or> (\<exists>rest. real = top @ ''/'' @ rest)" using c(4) by (auto simp: startsWith_iff)
  then show ?thesis unfolding staysInside_def using base(1) c(1,3) n by blast
qed

section \<open>Soundness of validation\<close>


text \<open>Such a plan normalises.\<close>

lemma normalizeTasksFrom_total:
  assumes "\<And>t q. t \<in> set specs \<Longrightarrow> \<exists>n. normalizeTask H q t = Inr n" "distinct (map ts_id specs)"
    "set ids \<inter> ts_id ` set specs = {}"
  shows "\<exists>ns. normalizeTasksFrom H ids p specs = Inr ns"
  using assms
proof (induction specs arbitrary: ids p)
  case (Cons spec specs)
  obtain n where n: "normalizeTask H p spec = Inr n" using Cons.prems(1) by (meson list.set_intros(1))
  have "\<exists>ns. normalizeTasksFrom H (ids @ [ts_id spec]) (Suc p) specs = Inr ns"
    by (rule Cons.IH) (use Cons.prems in \<open>auto dest: notin_imageD\<close>)
  then show ?case using n Cons.prems(3) by auto
qed simp

text \<open>
  C28. Validation and compilation agree: every plan that validation accepts under protocol 1.3 compiles
  into parallel waves, so an accepted plan never fails later on its claims, ids or dependencies.
\<close>
theorem validated_plan_compiles:
  assumes "validatePlanProposal H fs proposal constraints protocol13 = Inr plan"
  shows "\<exists>waves. compileParallelWaves H plan = Inr waves"
proof -
  have "\<exists>ns. normalizeTasksFrom H [] 0 plan = Inr ns"
    by (rule normalizeTasksFrom_total)
      (use accepted_plan(3) [OF assms] wellSpecified_normalizes accepted_plan(6,8) [OF assms] in auto)
  then obtain ns where ns: "normalizeTasks H plan = Inr ns" by (auto simp: normalizeTasks_def)
  note n = normalizeTasks_Inr [OF ns] normalizeTasks_set [OF ns]
  have image: "\<And>t. t \<in> set ns \<Longrightarrow> n_task t \<in> set plan" "\<And>s. s \<in> set plan \<Longrightarrow> \<exists>t \<in> set ns. n_task t = s"
    using n(1) by (metis imageI list.set_map) (metis imageE list.set_map n(1))
  have "dependenciesKnown ns" "dependencyEdges ns = planEdges plan"
    using accepted_plan(4) [OF assms] image by (auto simp: dependenciesKnown_def planKnown_def dependencyEdges_def planEdges_def) force+
  then obtain order where order: "stableTopologicalOrder ns = Inr order"
    using stableTopologicalOrder_error [OF n(3) n(8)] accepted_plan(5) [OF assms] by (cases "stableTopologicalOrder ns") auto
  show ?thesis using layout_of_order [OF ns order] by (auto simp: compileParallelWaves_def ns order)
qed

section \<open>Example\<close>

definition exampleFs :: file_system where
  "exampleFs = \<lparr>fs_realpath = (\<lambda>p. if p = ''/work'' then Some ''/repo'' else Some p),
     fs_exists = (\<lambda>p. List.member [''/'', ''/repo'', ''/repo/src''] p)\<rparr>"

definition exampleConstraints :: planner_constraints where
  "exampleConstraints = \<lparr>pc_allowedCapabilities = [''code''], pc_knownTools = [''edit''], pc_knownGates = [''unit''],
     pc_repository_root = Some ''/work''\<rparr>"

definition exampleRawTask :: "string \<Rightarrow> string \<Rightarrow> string \<Rightarrow> string list \<Rightarrow> json" where
  "exampleRawTask i output path deps = JObj
     [(''id'', JStr i), (''objective'', JStr ''do''), (''impact_paths'', JArr [JArr []]), (''expected_outputs'', JArr [JStr output]),
      (''acceptance'', JArr [JObj [(''description'', JStr ''ok''), (''verification'', JStr ''unit'')]]), (''risk'', JStr ''low''),
      (''budget'', JObj [(''steps'', JNum 1), (''tokens'', JNum 1), (''duration_ms'', JNum 1)]),
      (''write_paths'', JArr [JStr path]), (''exclusive_resources'', JArr []), (''required_gates'', JArr [JStr ''unit'']),
      (''tools'', JArr [JStr ''edit'']), (''dependencies'', JArr (map JStr deps))]"

definition exampleProposal :: json where
  "exampleProposal = JArr [exampleRawTask ''task_b'' ''y'' ''docs/a'' [''task_a''], exampleRawTask ''task_a'' ''x'' ''src/a'' []]"

definition examplePlanned :: "string \<Rightarrow> string \<Rightarrow> string \<Rightarrow> string list \<Rightarrow> task_specification" where
  "examplePlanned i output path deps = \<lparr>ts_id = i, ts_objective = ''do'', ts_impact_paths = [[]], ts_expected_outputs = [output],
     ts_capabilities = [], ts_tools = [''edit''], ts_dependencies = deps, ts_risk = low,
     ts_budget = \<lparr>tb_steps = 1, tb_tokens = 1, tb_duration_ms = Some 1\<rparr>, ts_write_paths = Some [path],
     ts_exclusive_resources = Some [], ts_acceptance = [\<lparr>ac_description = ''ok'', ac_verification = ''unit''\<rparr>],
     ts_assertions = None, ts_required_gates = [''unit'']\<rparr>"

lemma example_validates:
  "validatePlanProposal exampleHost exampleFs exampleProposal exampleConstraints protocol13
     = Inr [examplePlanned ''task_a'' ''x'' ''src/a'' [], examplePlanned ''task_b'' ''y'' ''docs/a'' [''task_a'']]"
  by code_simp

theorem assertAcyclic_exact_witness:
  "planKnown [examplePlanned ''task_b'' ''y'' ''docs/a'' [''task_a''], examplePlanned ''task_a'' ''x'' ''src/a'' []]
   \<and> \<not> acyclic (planEdges [examplePlanned ''task_a'' ''x'' ''src/a'' [''task_b''], examplePlanned ''task_b'' ''y'' ''docs/a'' [''task_a'']])"
proof -
  let ?plan = "[examplePlanned ''task_b'' ''y'' ''docs/a'' [''task_a''], examplePlanned ''task_a'' ''x'' ''src/a'' []]"
  let ?loop = "[examplePlanned ''task_a'' ''x'' ''src/a'' [''task_b''], examplePlanned ''task_b'' ''y'' ''docs/a'' [''task_a'']]"
  have "assertAcyclic ?plan = Inr ()" "assertAcyclic ?loop = Inl (PlanningError dependency_cycle)" by code_simp+
  moreover have "distinct (map ts_id ?plan)" "distinct (map ts_id ?loop)" by (simp_all add: examplePlanned_def)
  ultimately show ?thesis using assertAcyclic_exact [of ?plan] assertAcyclic_exact [of ?loop] by simp
qed


theorem validated_plan_compiles_witness:
  "\<exists>waves. compileParallelWaves exampleHost
     [examplePlanned ''task_a'' ''x'' ''src/a'' [], examplePlanned ''task_b'' ''y'' ''docs/a'' [''task_a'']] = Inr waves"
  by (rule validated_plan_compiles [OF example_validates])

theorem accepted_claim_no_escape_witness:
  "staysInside exampleFs (Some ''/work'') ''src/a''"
proof -
  have "staysInside exampleFs (pc_repository_root exampleConstraints) ''src/a''"
    by (rule accepted_claim_no_escape [OF example_validates, of "examplePlanned ''task_a'' ''x'' ''src/a'' []" "[''src/a'']"])
      (simp_all add: examplePlanned_def)
  then show ?thesis by (simp add: exampleConstraints_def)
qed

end
