(* ===== verification/Policy_Action.thy ===== *)
theory Policy_Action
  imports Lease_Chain Task_Digest
begin

text \<open>
  Normalised policy actions (\<^verbatim>\<open>runtime/src/policy/action.ts\<close>) and the lexical path scopes of
  \<^verbatim>\<open>path-boundary.ts\<close>. A raw request is a JavaScript value; the constructors beyond JSON stand for what the
  normaliser rejects. Object keys are ordinary names: \<^verbatim>\<open>__proto__\<close>, which an assignment turns into a prototype
  change, is not represented.
\<close>

section \<open>Actions\<close>

datatype policy_action_kind =
    read_path | write_path | invoke_tool | propose_state | submit_evidence
  | approve | accept_evidence | change_policy | register_tool | grant_path
  | dispatch_task | retry_task | integrate_wave

datatype actor_kind = actor_harness | actor_human | actor_adapter | actor_agent

datatype action_origin = control_plane | from_prompt

type_synonym policy_risk = task_risk

datatype control_level = control_managed | control_delegated | control_manual

datatype trajectory_visibility = trajectory_full | trajectory_summarized | trajectory_external_only

record adapter_control_profile =
  cp_control :: control_level
  cp_trajectory_visibility :: trajectory_visibility
  cp_usage_metering :: bool
  cp_side_effect_interception :: bool

record policy_action =
  pa_kind :: policy_action_kind
  pa_actor :: string
  pa_actor_kind :: actor_kind
  pa_origin :: action_origin
  pa_phase :: string
  pa_resource :: "string option"
  pa_parameters :: "(string \<times> json) list"
  pa_risk :: policy_risk
  pa_approval_digest :: "string option"
  pa_control_profile :: "adapter_control_profile option"

definition POLICY_ACTION_KINDS :: "policy_action_kind list" where
  "POLICY_ACTION_KINDS = [read_path, write_path, invoke_tool, propose_state, submit_evidence, approve, accept_evidence,
     change_policy, register_tool, grant_path, dispatch_task, retry_task, integrate_wave]"

definition SCHEDULER_POLICY_ACTION_KINDS :: "policy_action_kind list" where
  "SCHEDULER_POLICY_ACTION_KINDS = [dispatch_task, retry_task, integrate_wave]"

definition ESCALATION_ACTION_KINDS :: "policy_action_kind list" where
  "ESCALATION_ACTION_KINDS = [approve, accept_evidence, change_policy, register_tool, grant_path]"

fun actionKindText :: "policy_action_kind \<Rightarrow> string" where
  "actionKindText read_path = ''read_path''"
| "actionKindText write_path = ''write_path''"
| "actionKindText invoke_tool = ''invoke_tool''"
| "actionKindText propose_state = ''propose_state''"
| "actionKindText submit_evidence = ''submit_evidence''"
| "actionKindText approve = ''approve''"
| "actionKindText accept_evidence = ''accept_evidence''"
| "actionKindText change_policy = ''change_policy''"
| "actionKindText register_tool = ''register_tool''"
| "actionKindText grant_path = ''grant_path''"
| "actionKindText dispatch_task = ''dispatch_task''"
| "actionKindText retry_task = ''retry_task''"
| "actionKindText integrate_wave = ''integrate_wave''"

fun actorKindText :: "actor_kind \<Rightarrow> string" where
  "actorKindText actor_harness = ''harness''"
| "actorKindText actor_human = ''human''"
| "actorKindText actor_adapter = ''adapter''"
| "actorKindText actor_agent = ''agent''"

fun originText :: "action_origin \<Rightarrow> string" where
  "originText control_plane = ''control_plane''"
| "originText from_prompt = ''prompt''"

fun controlText :: "control_level \<Rightarrow> string" where
  "controlText control_managed = ''managed''"
| "controlText control_delegated = ''delegated''"
| "controlText control_manual = ''manual''"

fun trajectoryText :: "trajectory_visibility \<Rightarrow> string" where
  "trajectoryText trajectory_full = ''full''"
| "trajectoryText trajectory_summarized = ''summarized''"
| "trajectoryText trajectory_external_only = ''external-only''"

definition TRAJECTORY_VISIBILITIES :: "trajectory_visibility list" where
  "TRAJECTORY_VISIBILITIES = [trajectory_full, trajectory_summarized, trajectory_external_only]"

definition POLICY_RISKS :: "policy_risk list" where
  "POLICY_RISKS = [low, medium, high, critical]"

fun policyRiskRank :: "policy_risk \<Rightarrow> nat" where
  "policyRiskRank low = 0" | "policyRiskRank medium = 1" | "policyRiskRank high = 2" | "policyRiskRank critical = 3"

section \<open>Normalisation\<close>

datatype raw_value =
    RUndefined | RNull | RBool bool | RNum rat | RNonFinite | RStr string
  | RArr "raw_value list" | RObj "(string \<times> raw_value) list" | RInstance | ROther

abbreviation invalidAction :: "'a result" where
  "invalidAction \<equiv> Inl (PolicyError invalid_action)"

fun normalizeJsonValue :: "raw_value \<Rightarrow> json result" where
  "normalizeJsonValue RNull = Inr JNull"
| "normalizeJsonValue (RBool b) = Inr (JBool b)"
| "normalizeJsonValue (RStr s) = Inr (JStr s)"
| "normalizeJsonValue (RNum n) = Inr (JNum n)"
| "normalizeJsonValue RNonFinite = invalidAction"
| "normalizeJsonValue (RArr items) = rbind (mapR normalizeJsonValue items) (\<lambda>vs. Inr (JArr vs))"
| "normalizeJsonValue (RObj entries) =
     rbind (mapR (\<lambda>e. if snd e = RUndefined then invalidAction
        else rbind (normalizeJsonValue (snd e)) (\<lambda>v. Inr (fst e, v))) entries) (\<lambda>es. Inr (JObj es))"
| "normalizeJsonValue RInstance = invalidAction"
| "normalizeJsonValue RUndefined = invalidAction"
| "normalizeJsonValue ROther = invalidAction"

text \<open>A property read: \<^verbatim>\<open>undefined\<close> when absent.\<close>

definition rawField :: "(string \<times> raw_value) list \<Rightarrow> string \<Rightarrow> raw_value" where
  "rawField raw key = (case map_of raw key of None \<Rightarrow> RUndefined | Some v \<Rightarrow> v)"

definition readEnum :: "('a \<Rightarrow> string) \<Rightarrow> 'a list \<Rightarrow> raw_value \<Rightarrow> 'a result" where
  "readEnum text allowed v =
     (case v of
        RStr s \<Rightarrow> (case find (\<lambda>x. text x = s) allowed of None \<Rightarrow> invalidAction | Some x \<Rightarrow> Inr x)
      | _ \<Rightarrow> invalidAction)"

definition readNonEmptyString :: "raw_value \<Rightarrow> string result" where
  "readNonEmptyString v = (case v of RStr s \<Rightarrow> if trim s = [] then invalidAction else Inr s | _ \<Rightarrow> invalidAction)"

definition readOptional :: "(raw_value \<Rightarrow> 'a result) \<Rightarrow> raw_value \<Rightarrow> 'a option result" where
  "readOptional read v = (if v = RUndefined then Inr None else rbind (read v) (\<lambda>x. Inr (Some x)))"

definition readControlProfile :: "raw_value \<Rightarrow> adapter_control_profile result" where
  "readControlProfile v =
     (case v of
        RObj raw \<Rightarrow>
          rbind (readEnum controlText [control_managed, control_delegated, control_manual] (rawField raw ''control'')) (\<lambda>control.
          rbind (readEnum trajectoryText TRAJECTORY_VISIBILITIES (rawField raw ''trajectory_visibility'')) (\<lambda>trajectory.
          Inr \<lparr>cp_control = control, cp_trajectory_visibility = trajectory,
            cp_usage_metering = (rawField raw ''usage_metering'' = RBool True),
            cp_side_effect_interception = (rawField raw ''side_effect_interception'' = RBool True)\<rparr>))
      | _ \<Rightarrow> invalidAction)"

definition readParameters :: "raw_value \<Rightarrow> (string \<times> json) list result" where
  "readParameters v =
     (if v = RUndefined then Inr []
      else rbind (normalizeJsonValue v) (\<lambda>j. case j of JObj es \<Rightarrow> Inr es | _ \<Rightarrow> invalidAction))"

definition normalizeAction :: "raw_value \<Rightarrow> policy_action result" where
  "normalizeAction v =
     (case v of
        RObj raw \<Rightarrow>
          rbind (readEnum actionKindText POLICY_ACTION_KINDS (rawField raw ''kind'')) (\<lambda>kind.
          rbind (readParameters (rawField raw ''parameters'')) (\<lambda>parameters.
          rbind (readNonEmptyString (rawField raw ''actor'')) (\<lambda>actor.
          rbind (readEnum actorKindText [actor_harness, actor_human, actor_adapter, actor_agent] (rawField raw ''actor_kind'')) (\<lambda>actorKind.
          rbind (readEnum originText [control_plane, from_prompt] (rawField raw ''origin'')) (\<lambda>origin.
          rbind (readNonEmptyString (rawField raw ''phase'')) (\<lambda>phase.
          rbind (readOptional readNonEmptyString (rawField raw ''resource'')) (\<lambda>resource.
          rbind (readEnum riskText POLICY_RISKS (rawField raw ''risk'')) (\<lambda>risk.
          rbind (readOptional readNonEmptyString (rawField raw ''approval_digest'')) (\<lambda>approval.
          rbind (readOptional readControlProfile (rawField raw ''control_profile'')) (\<lambda>profile.
          Inr \<lparr>pa_kind = kind, pa_actor = actor, pa_actor_kind = actorKind, pa_origin = origin, pa_phase = phase,
            pa_resource = resource, pa_parameters = parameters, pa_risk = risk, pa_approval_digest = approval,
            pa_control_profile = profile\<rparr>))))))))))
      | _ \<Rightarrow> invalidAction)"

definition orNull :: "('a \<Rightarrow> json) \<Rightarrow> 'a option \<Rightarrow> json" where
  "orNull f v = (case v of None \<Rightarrow> JNull | Some x \<Rightarrow> f x)"

definition controlProfileJson :: "adapter_control_profile \<Rightarrow> json" where
  "controlProfileJson p = JObj [(''control'', JStr (controlText (cp_control p))),
     (''trajectory_visibility'', JStr (trajectoryText (cp_trajectory_visibility p))),
     (''usage_metering'', JBool (cp_usage_metering p)),
     (''side_effect_interception'', JBool (cp_side_effect_interception p))]"

definition actionJson :: "policy_action \<Rightarrow> json" where
  "actionJson a = JObj
     [(''kind'', JStr (actionKindText (pa_kind a))), (''actor'', JStr (pa_actor a)),
      (''actor_kind'', JStr (actorKindText (pa_actor_kind a))), (''origin'', JStr (originText (pa_origin a))),
      (''phase'', JStr (pa_phase a)), (''resource'', orNull JStr (pa_resource a)), (''parameters'', JObj (pa_parameters a)),
      (''risk'', JStr (riskText (pa_risk a))), (''approval_digest'', orNull JStr (pa_approval_digest a)),
      (''control_profile'', orNull controlProfileJson (pa_control_profile a))]"

definition actionDigest :: "host \<Rightarrow> policy_action \<Rightarrow> string result" where
  "actionDigest H action = contentDigest H (actionJson action)"

section \<open>Path scopes\<close>

definition normalizeRepoRelativePath :: "host \<Rightarrow> string \<Rightarrow> string result" where
  "normalizeRepoRelativePath H input =
     (case normalizeLocatorPath H input of Inl _ \<Rightarrow> Inl (PolicyError boundary_violation) | Inr p \<Rightarrow> Inr p)"

definition tryNormalizeRepoRelativePath :: "host \<Rightarrow> string \<Rightarrow> string option" where
  "tryNormalizeRepoRelativePath H input =
     (case normalizeRepoRelativePath H input of Inl _ \<Rightarrow> None | Inr p \<Rightarrow> Some p)"

definition isPathWithinScopes :: "host \<Rightarrow> string list \<Rightarrow> string \<Rightarrow> bool" where
  "isPathWithinScopes H scopes path \<longleftrightarrow>
     (case tryNormalizeRepoRelativePath H path of
        None \<Rightarrow> False
      | Some target \<Rightarrow>
          list_ex (\<lambda>scope. case tryNormalizeRepoRelativePath H scope of
             None \<Rightarrow> False
           | Some normalizedScope \<Rightarrow> target = normalizedScope \<or> startsWith target (normalizedScope @ ''/'')) scopes)"

end
