(* ===== verification/Policy_Merge.thy ===== *)
theory Policy_Merge
  imports Policy_Action
begin

text \<open>
  The effective policy (\<^verbatim>\<open>runtime/src/policy/decision.ts\<close>, \<open>mergePolicyLayers\<close> and
  \<open>resolveSchedulerCeilings\<close> of \<^verbatim>\<open>evaluator.ts\<close>): the layers are merged field by field with the operator
  the field declares. A merge that cannot be done is a conflict, described by a text.

\<close>

section \<open>Layers\<close>

definition POLICY_LAYERS :: "string list" where
  "POLICY_LAYERS = [''installation'', ''pack'', ''project'']"

definition POLICY_MERGE_OPERATORS :: "string list" where
  "POLICY_MERGE_OPERATORS = [''hard_ceiling'', ''allow_intersection'', ''deny_union'', ''approval_union'',
     ''strongest_control'', ''project_default'']"

record policy_field_input =
  pf_path :: string
  pf_merge_operator :: string
  pf_value :: json

record policy_layer_ref =
  plr_layer :: string
  plr_revision :: rat
  plr_digest :: string

record policy_layer_input = policy_layer_ref +
  pl_fields :: "policy_field_input list"

record effective_policy_field =
  ef_path :: string
  ef_merge_operator :: string
  ef_value :: json
  ef_reason :: string
  ef_sources :: "policy_layer_ref list"

record effective_policy =
  ep_fields :: "effective_policy_field list"
  ep_layers :: "policy_layer_ref list"
  ep_digest :: string

record layer_field_entry =
  lf_operator :: string
  lf_value :: json
  lf_source :: policy_layer_ref

definition layerRef :: "policy_layer_input \<Rightarrow> policy_layer_ref" where
  "layerRef layer = policy_layer_ref.truncate layer"

definition layerRank :: "string \<Rightarrow> nat" where
  "layerRank layer = length (takeWhile (\<lambda>l. l \<noteq> layer) POLICY_LAYERS)"

section \<open>Merging one field\<close>

definition TRAJECTORY_STRENGTH :: "string list" where
  "TRAJECTORY_STRENGTH = rev (map trajectoryText TRAJECTORY_VISIBILITIES)"

definition CONTROL_STRENGTH_ORDERS :: "(string \<times> string list) list" where
  "CONTROL_STRENGTH_ORDERS =
     [(''controls.trajectory'', TRAJECTORY_STRENGTH),
      (''controls.redaction'', [''none'', ''references'', ''full'']),
      (''controls.retention'', [''ephemeral'', ''run'', ''release'']),
      (''controls.side_effect_interception'', [''optional'', ''required''])]"

definition quoted :: "string \<Rightarrow> string" where
  "quoted s = [CHR 0x22] @ s @ [CHR 0x22]"

definition commas :: "string list \<Rightarrow> string" where
  "commas = joinWith '',''"

definition fieldText :: "string \<Rightarrow> string \<Rightarrow> string" where
  "fieldText path rest = ''policy field '' @ path @ '': '' @ rest"

text \<open>A value as an array of strings, or the conflict text.\<close>

definition asStringArray :: "string \<Rightarrow> string \<Rightarrow> json \<Rightarrow> string + string list" where
  "asStringArray path operator v =
     (let error = fieldText path (operator @ '' requires string-array values'') in
      case v of
        JArr items \<Rightarrow> mapR (\<lambda>item. case item of JStr s \<Rightarrow> Inr s | _ \<Rightarrow> Inl error) items
      | _ \<Rightarrow> Inl error)"

definition ceilingNumber :: "string \<Rightarrow> json \<Rightarrow> string + rat" where
  "ceilingNumber path v =
     (case v of JNum n \<Rightarrow> Inr n | _ \<Rightarrow> Inl (fieldText path ''hard_ceiling requires finite numeric values''))"

definition controlLevel :: "host \<Rightarrow> string \<Rightarrow> string list \<Rightarrow> json \<Rightarrow> string + string" where
  "controlLevel H path strengths v =
     (let error = Inl (fieldText path (''value '' @ render H v @ '' cannot be ordered against the declared strength ordering ['' @
            commas strengths @ '']''))
      in case v of JStr s \<Rightarrow> if List.member strengths s then Inr s else error | _ \<Rightarrow> error)"

definition orderIndex :: "string list \<Rightarrow> string \<Rightarrow> nat" where
  "orderIndex strengths s = length (takeWhile (\<lambda>x. x \<noteq> s) strengths)"

definition mergeCeiling :: "rat list \<Rightarrow> rat" where
  "mergeCeiling values = foldl min (hd values) (tl values)"

definition mergeIntersection :: "string list list \<Rightarrow> string list" where
  "mergeIntersection values =
     sort (dedupe (case values of [] \<Rightarrow> [] | v # vs \<Rightarrow> foldl (\<lambda>merged w. filter (\<lambda>x. List.member w x) merged) v vs))"

definition mergeUnion :: "string list list \<Rightarrow> string list" where
  "mergeUnion values = sort (dedupe (concat values))"

definition mergeStrongest :: "string list \<Rightarrow> string list \<Rightarrow> string" where
  "mergeStrongest strengths levels =
     foldl (\<lambda>strongest level. if orderIndex strengths strongest < orderIndex strengths level then level else strongest)
       (hd levels) (tl levels)"

definition describeEntry :: "layer_field_entry \<times> string list \<Rightarrow> string" where
  "describeEntry e = plr_layer (lf_source (fst e)) @ ''['' @ commas (snd e) @ '']''"

definition effectiveField :: "string \<Rightarrow> layer_field_entry list \<Rightarrow> json \<Rightarrow> string \<Rightarrow> effective_policy_field" where
  "effectiveField path entries v reason =
     \<lparr>ef_path = path, ef_merge_operator = lf_operator (hd entries), ef_value = v, ef_reason = reason,
      ef_sources = map lf_source entries\<rparr>"

definition stringsJson :: "string list \<Rightarrow> json" where
  "stringsJson ss = JArr (map JStr ss)"

text \<open>\<^verbatim>\<open>mergeField\<close> on a non-empty group; \<open>Inr (Inl text)\<close> is the thrown policy conflict. A path that names a
  property of \<^verbatim>\<open>Object.prototype\<close> finds a function instead of an ordering, and the call of \<^verbatim>\<open>includes\<close> fails.\<close>

definition mergeField :: "host \<Rightarrow> string \<Rightarrow> layer_field_entry list \<Rightarrow> (string + effective_policy_field) result" where
  "mergeField H path entries =
     (let operator = lf_operator (hd entries) in
      if operator = ''hard_ceiling''
      then Inr (rbind (mapR (\<lambda>e. ceilingNumber path (lf_value e)) entries) (\<lambda>values.
        let merged = mergeCeiling values in
        Inr (effectiveField path entries (JNum merged)
          (''hard_ceiling:min('' @ commas (map (h_number H) values) @ '')='' @ h_number H merged))))
      else if operator = ''allow_intersection''
      then Inr (rbind (mapR (\<lambda>e. asStringArray path operator (lf_value e)) entries) (\<lambda>values.
        let merged = mergeIntersection values in
        Inr (effectiveField path entries (stringsJson merged)
          (''allow_intersection:'' @ joinWith '' & '' (map describeEntry (zip entries values)) @ '' = ['' @ commas merged @ '']''))))
      else if operator = ''deny_union'' \<or> operator = ''approval_union''
      then Inr (rbind (mapR (\<lambda>e. asStringArray path operator (lf_value e)) entries) (\<lambda>values.
        let merged = mergeUnion values in
        Inr (effectiveField path entries (stringsJson merged)
          (operator @ '':'' @ joinWith '' | '' (map describeEntry (zip entries values)) @ '' = ['' @ commas merged @ '']''))))
      else if operator = ''strongest_control''
      then (case map_of CONTROL_STRENGTH_ORDERS path of
          None \<Rightarrow> if List.member objectPrototypeKeys path then Inl JsTypeError
            else Inr (Inl (fieldText path ''strongest_control has no schema-declared strength ordering''))
        | Some strengths \<Rightarrow> Inr (rbind (mapR (\<lambda>e. controlLevel H path strengths (lf_value e)) entries) (\<lambda>levels.
            let merged = mergeStrongest strengths levels in
            Inr (effectiveField path entries (JStr merged)
              (''strongest_control:strictest('' @ commas levels @ '')='' @ merged)))))
      else
        (let winner = hd (sort_key (\<lambda>e. - int (layerRank (plr_layer (lf_source e)))) entries) in
         Inr (Inr (effectiveField path entries (lf_value winner)
           (''project_default:'' @ plr_layer (lf_source winner) @ '' value wins by declared precedence'')))))"

section \<open>Merging the layers\<close>

record merged_policy =
  mp_effective :: effective_policy
  mp_conflicts :: "string list"

definition layerRefJson :: "policy_layer_ref \<Rightarrow> json" where
  "layerRefJson r = JObj [(''layer'', JStr (plr_layer r)), (''revision'', JNum (plr_revision r)), (''digest'', JStr (plr_digest r))]"

definition admitLayer :: "policy_layer_input list \<Rightarrow> policy_layer_input \<Rightarrow> policy_layer_input list result" where
  "admitLayer ordered layer =
     (if \<not> List.member POLICY_LAYERS (plr_layer layer) then Inl (PolicyError invalid_policy)
      else if plr_layer layer \<in> plr_layer ` set ordered then Inl (PolicyError invalid_policy)
      else Inr (ordered @ [layer]))"

definition orderLayers :: "policy_layer_input list \<Rightarrow> policy_layer_input list result" where
  "orderLayers layers =
     rbind (foldR admitLayer [] layers) (\<lambda>ordered. Inr (sort_key (\<lambda>l. layerRank (plr_layer l)) ordered))"

definition knownOperator :: "policy_field_input \<Rightarrow> bool" where
  "knownOperator field \<longleftrightarrow> List.member POLICY_MERGE_OPERATORS (pf_merge_operator field)"

definition layerEntries :: "policy_layer_input \<Rightarrow> (string \<times> layer_field_entry) list" where
  "layerEntries layer =
     map (\<lambda>field. (pf_path field, \<lparr>lf_operator = pf_merge_operator field, lf_value = pf_value field, lf_source = layerRef layer\<rparr>))
       (filter knownOperator (pl_fields layer))"

definition operatorConflicts :: "policy_layer_input \<Rightarrow> string list" where
  "operatorConflicts layer =
     map (\<lambda>field. fieldText (pf_path field) (''layer '' @ plr_layer layer @ '' declares unknown merge operator '' @
         quoted (pf_merge_operator field) @ ''; without a declared merge operator the field blocks''))
       (filter (\<lambda>field. \<not> knownOperator field) (pl_fields layer))"

definition byPath :: "policy_layer_input list \<Rightarrow> (string, (string \<times> layer_field_entry) list) jmap" where
  "byPath ordered = foldl (pushGroup fst) [] (concat (map layerEntries ordered))"

definition mergeGroup :: "host \<Rightarrow> string \<Rightarrow> layer_field_entry list \<Rightarrow> (string + effective_policy_field) result" where
  "mergeGroup H path entries =
     (let operators = dedupe (map lf_operator entries) in
      if length operators \<noteq> 1
      then Inr (Inl (fieldText path (''layers declare conflicting merge operators ('' @ joinWith '' vs '' (sort operators) @
        ''); the conflict blocks instead of being resolved by source priority'')))
      else mergeField H path entries)"

definition addMerged :: "effective_policy_field list \<times> string list \<Rightarrow> string + effective_policy_field
    \<Rightarrow> effective_policy_field list \<times> string list" where
  "addMerged s r = (case r of Inl conflict \<Rightarrow> (fst s, snd s @ [conflict]) | Inr field \<Rightarrow> (fst s @ [field], snd s))"

definition effectiveJson :: "policy_layer_ref list \<Rightarrow> effective_policy_field list \<Rightarrow> json" where
  "effectiveJson refs merged = JObj [(''layers'', JArr (map layerRefJson refs)),
     (''fields'', JArr (map (\<lambda>f. JObj [(''path'', JStr (ef_path f)), (''merge_operator'', JStr (ef_merge_operator f)),
        (''value'', ef_value f)]) merged))]"

definition mergePolicyLayers :: "host \<Rightarrow> policy_layer_input list \<Rightarrow> merged_policy result" where
  "mergePolicyLayers H layers =
     rbind (orderLayers layers) (\<lambda>ordered.
     let groups = byPath ordered in
     rbind (mapR (\<lambda>path. mergeGroup H path (map snd (the (jm_get groups path)))) (sort (map fst groups))) (\<lambda>results.
     case foldl addMerged ([], concat (map operatorConflicts ordered)) results of (merged, conflicts) \<Rightarrow>
     rbind (contentDigest H (effectiveJson (map layerRef ordered) merged)) (\<lambda>digest.
     Inr \<lparr>mp_effective = \<lparr>ep_fields = merged, ep_layers = map layerRef ordered, ep_digest = digest\<rparr>,
          mp_conflicts = sort conflicts\<rparr>)))"

section \<open>Reading the effective policy\<close>

definition fieldAt :: "effective_policy \<Rightarrow> string \<Rightarrow> effective_policy_field option" where
  "fieldAt effective path = find (\<lambda>field. ef_path field = path) (ep_fields effective)"

definition jsonStrings :: "json \<Rightarrow> string list option" where
  "jsonStrings v =
     (case v of
        JArr items \<Rightarrow> (case mapR (\<lambda>item. case item of JStr s \<Rightarrow> Inr s | _ \<Rightarrow> Inl ()) items of Inl _ \<Rightarrow> None | Inr ss \<Rightarrow> Some ss)
      | _ \<Rightarrow> None)"

definition policyStrings :: "effective_policy \<Rightarrow> string \<Rightarrow> string list option" where
  "policyStrings effective path =
     (case fieldAt effective path of None \<Rightarrow> None | Some field \<Rightarrow> jsonStrings (ef_value field))"

definition policyNumber :: "effective_policy \<Rightarrow> string \<Rightarrow> rat option" where
  "policyNumber effective path =
     (case fieldAt effective path of None \<Rightarrow> None
      | Some field \<Rightarrow> (case ef_value field of JNum n \<Rightarrow> Some n | _ \<Rightarrow> None))"

definition policyString :: "effective_policy \<Rightarrow> string \<Rightarrow> string option" where
  "policyString effective path =
     (case fieldAt effective path of None \<Rightarrow> None
      | Some field \<Rightarrow> (case ef_value field of JStr s \<Rightarrow> Some s | _ \<Rightarrow> None))"

section \<open>Scheduler ceilings\<close>

datatype ceiling_value = ceiling_missing | ceiling_invalid json | ceiling_ok rat

definition ceilingValue :: "effective_policy \<Rightarrow> string \<Rightarrow> ceiling_value" where
  "ceilingValue effective path =
     (case fieldAt effective path of
        None \<Rightarrow> ceiling_missing
      | Some field \<Rightarrow> (case ef_value field of JNum n \<Rightarrow> ceiling_ok n | v \<Rightarrow> ceiling_invalid v))"

definition PROFILE_DEFAULT_MAX_CONCURRENCY :: rat where
  "PROFILE_DEFAULT_MAX_CONCURRENCY = 2"

definition LOOP_CEILING_FALLBACKS :: "(string \<times> string) list" where
  "LOOP_CEILING_FALLBACKS =
     [(''budgets.iteration.max_steps'', ''loop.max_steps''), (''budgets.iteration.max_tokens'', ''loop.max_tokens''),
      (''budgets.iteration.max_duration_ms'', ''loop.max_duration_ms'')]"

record scheduler_ceilings =
  sl_max_concurrency :: rat
  sl_iteration :: "(string, rat) jmap"

datatype scheduler_ceiling_resolution =
    ceilings_resolved scheduler_ceilings "string list"
  | ceilings_blocked "string list"

record ceiling_scan =
  cg_max_concurrency :: rat
  cg_iteration :: "(string, rat) jmap"
  cg_reasons :: "string list"
  cg_violations :: "string list"

definition scanConcurrency :: "host \<Rightarrow> effective_policy \<Rightarrow> ceiling_scan" where
  "scanConcurrency H effective =
     (let path = ''scheduler.max_concurrency'';
          start = \<lparr>cg_max_concurrency = PROFILE_DEFAULT_MAX_CONCURRENCY, cg_iteration = [], cg_reasons = [], cg_violations = []\<rparr>;
          violation = (\<lambda>v. start\<lparr>cg_violations := [path @ '' must be a positive integer; got '' @ render H v]\<rparr>)
      in case ceilingValue effective path of
        ceiling_missing \<Rightarrow> start\<lparr>cg_reasons := [path @ '' undeclared: defaulting to the profile default of '' @
          h_number H PROFILE_DEFAULT_MAX_CONCURRENCY]\<rparr>
      | ceiling_invalid v \<Rightarrow> violation v
      | ceiling_ok n \<Rightarrow>
          if n \<le> 0 \<or> \<not> isInteger n then violation (JNum n)
          else start\<lparr>cg_max_concurrency := n, cg_reasons := [path @ ''='' @ h_number H n]\<rparr>)"

definition scanCeiling :: "host \<Rightarrow> effective_policy \<Rightarrow> ceiling_scan \<Rightarrow> string \<times> string \<Rightarrow> ceiling_scan" where
  "scanCeiling H effective sc paths =
     (case paths of (path, fallbackPath) \<Rightarrow>
      let key = drop (length ''budgets.iteration.'') path;
          violation = (\<lambda>v. sc\<lparr>cg_violations := cg_violations sc @ [path @ '' must be a positive finite number; got '' @ render H v]\<rparr>)
      in case ceilingValue effective path of
        ceiling_invalid v \<Rightarrow> violation v
      | ceiling_ok n \<Rightarrow>
          if n \<le> 0 then violation (JNum n)
          else sc\<lparr>cg_iteration := jm_set key n (cg_iteration sc), cg_reasons := cg_reasons sc @ [path @ ''='' @ h_number H n]\<rparr>
      | ceiling_missing \<Rightarrow>
          (case ceilingValue effective fallbackPath of
             ceiling_ok n \<Rightarrow>
               if 0 < n
               then sc\<lparr>cg_iteration := jm_set key n (cg_iteration sc), cg_reasons := cg_reasons sc @
                 [path @ '' undeclared: falling back to '' @ fallbackPath @ ''='' @ h_number H n]\<rparr>
               else sc\<lparr>cg_reasons := cg_reasons sc @ [path @ '' undeclared and no positive '' @ fallbackPath @ '' fallback: no ceiling'']\<rparr>
           | _ \<Rightarrow> sc\<lparr>cg_reasons := cg_reasons sc @ [path @ '' undeclared and no positive '' @ fallbackPath @ '' fallback: no ceiling'']\<rparr>))"

definition resolveSchedulerCeilings :: "host \<Rightarrow> effective_policy \<Rightarrow> scheduler_ceiling_resolution" where
  "resolveSchedulerCeilings H effective =
     (let sc = foldl (scanCeiling H effective) (scanConcurrency H effective) LOOP_CEILING_FALLBACKS in
      if cg_violations sc \<noteq> []
      then ceilings_blocked (sort (cg_violations sc) @
        [''blocked: a declared scheduler ceiling that cannot be honored never falls back silently''])
      else ceilings_resolved \<lparr>sl_max_concurrency = cg_max_concurrency sc, sl_iteration = cg_iteration sc\<rparr> (cg_reasons sc))"

end
