(* ===== verification/Policy_Strict.thy ===== *)
theory Policy_Strict
  imports Policy_Merge
begin

text \<open>
  The merged policy (\<open>mergePolicyLayers\<close>, \<^verbatim>\<open>runtime/src/policy/evaluator.ts\<close>) is exactly as strict as its
  layers: the contract of a merge operator is a locale, interpreted for the four narrowing operators.
\<close>

section \<open>The contract of a merge operator\<close>

locale strict_merge =
  fixes merge :: "'a list \<Rightarrow> 'a" and stricter :: "'a \<Rightarrow> 'a \<Rightarrow> bool"
  assumes stricter_trans: "stricter a b \<Longrightarrow> stricter b c \<Longrightarrow> stricter a c"
    and merge_strict: "v \<in> set vs \<Longrightarrow> stricter (merge vs) v"
    and merge_weakest: "vs \<noteq> [] \<Longrightarrow> (\<And>v. v \<in> set vs \<Longrightarrow> stricter w v) \<Longrightarrow> stricter w (merge vs)"
begin

lemma merge_more: "us \<noteq> [] \<Longrightarrow> set us \<subseteq> set vs \<Longrightarrow> stricter (merge vs) (merge us)"
  using merge_strict by (intro merge_weakest) auto

text \<open>The same for values that are embedded in a larger type.\<close>

lemma embedded_strict:
  assumes "h ` E = g ` set vs"
  shows "\<forall>e \<in> E. \<exists>a b. g (merge vs) = g a \<and> h e = g b \<and> stricter a b"
proof
  fix e assume "e \<in> E"
  then obtain b where "b \<in> set vs" "h e = g b" using assms by (metis imageE imageI)
  then show "\<exists>a b. g (merge vs) = g a \<and> h e = g b \<and> stricter a b" using merge_strict by blast
qed

lemma embedded_weakest:
  assumes "h ` E = g ` set vs" "vs \<noteq> []" "inj g"
  shows "\<forall>v. (\<forall>e \<in> E. \<exists>a b. v = g a \<and> h e = g b \<and> stricter a b) \<longrightarrow> (\<exists>a b. v = g a \<and> g (merge vs) = g b \<and> stricter a b)"
proof (intro allI impI)
  fix v assume all: "\<forall>e \<in> E. \<exists>a b. v = g a \<and> h e = g b \<and> stricter a b"
  have at: "\<exists>a. v = g a \<and> stricter a x" if x: "x \<in> set vs" for x
  proof -
    from x assms(1) obtain e where e: "e \<in> E" "h e = g x" by (metis imageE imageI)
    then obtain a b where "v = g a" "h e = g b" "stricter a b" using all by blast
    then show ?thesis using e(2) assms(3) by (auto dest: injD)
  qed
  then obtain a where a: "v = g a" using assms(2) by (cases vs) auto
  have "stricter a x" if "x \<in> set vs" for x using at [OF that] a assms(3) by (auto dest: injD)
  then show "\<exists>a b. v = g a \<and> g (merge vs) = g b \<and> stricter a b" using a merge_weakest [OF assms(2)] by blast
qed

lemma merge_iff: "vs \<noteq> [] \<Longrightarrow> stricter w (merge vs) \<longleftrightarrow> (\<forall>v \<in> set vs. stricter w v)"
  using merge_strict merge_weakest stricter_trans by blast

end

lemma foldl_min_le: "foldl min a (vs :: rat list) \<le> a" "v \<in> set vs \<Longrightarrow> foldl min a vs \<le> v"
proof (induction vs arbitrary: a)
  case (Cons u vs)
  { case 1 show ?case using Cons(1) [of "min a u"] by (simp add: min_le_iff_disj) }
  { case 2 then show ?case using Cons(1) [of "min a u"] Cons(2) [of "min a u"] by auto }
qed simp_all

lemma foldl_min_greatest: "w \<le> a \<Longrightarrow> (\<And>v. v \<in> set vs \<Longrightarrow> w \<le> v) \<Longrightarrow> w \<le> foldl min a (vs :: rat list)"
  by (induction vs arbitrary: a) auto

interpretation ceiling: strict_merge mergeCeiling "(\<le>)"
proof
  show "mergeCeiling vs \<le> v" if "v \<in> set vs" for v vs
    using that foldl_min_le by (cases vs) (auto simp: mergeCeiling_def)
  show "w \<le> mergeCeiling vs" if "vs \<noteq> []" "\<And>v. v \<in> set vs \<Longrightarrow> w \<le> v" for vs w
    using that by (cases vs) (auto simp: mergeCeiling_def intro: foldl_min_greatest)
qed simp

lemma set_foldl_filter: "set (foldl (\<lambda>merged w. filter (\<lambda>x. List.member w x) merged) v vs) = set v \<inter> (\<Inter>w \<in> set vs. set w)"
  by (induction vs arbitrary: v) auto

interpretation allows: strict_merge mergeIntersection "\<lambda>a b. set a \<subseteq> set b"
proof
  show "set (mergeIntersection vs) \<subseteq> set v" if "v \<in> set vs" for v vs
    using that by (cases vs) (auto simp: mergeIntersection_def set_foldl_filter)
  show "set w \<subseteq> set (mergeIntersection vs)" if "vs \<noteq> []" "\<And>v. v \<in> set vs \<Longrightarrow> set w \<subseteq> set v" for vs w
    using that by (cases vs) (fastforce simp: mergeIntersection_def set_foldl_filter)+
qed simp

interpretation denies: strict_merge mergeUnion "\<lambda>a b. set b \<subseteq> set a"
  by unfold_locales (auto simp: mergeUnion_def)

lemma foldl_strongest:
  fixes rank :: "'a \<Rightarrow> nat"
  defines "step \<equiv> \<lambda>s l. if rank s < rank l then l else s"
  shows "rank a \<le> rank (foldl step a ls)" "v \<in> set ls \<Longrightarrow> rank v \<le> rank (foldl step a ls)"
    "foldl step a ls \<in> set (a # ls)"
proof (induction ls arbitrary: a)
  case (Cons l ls)
  { case 1 show ?case using Cons(1) [of "step a l"] by (auto simp: step_def split: if_splits) }
  { case 2 then show ?case using Cons(1) [of "step a l"] Cons(2) [of "step a l"] by (auto simp: step_def split: if_splits) }
  { case 3 show ?case using Cons(3) [of "step a l"] by (auto simp: step_def split: if_splits) }
qed (simp_all add: step_def)

interpretation controls: strict_merge "mergeStrongest strengths" "\<lambda>a b. orderIndex strengths b \<le> orderIndex strengths a" for strengths
proof
  show "orderIndex strengths v \<le> orderIndex strengths (mergeStrongest strengths vs)" if "v \<in> set vs" for v vs
    using that foldl_strongest(1,2) [where rank = "orderIndex strengths"] by (cases vs) (auto simp: mergeStrongest_def)
  show "orderIndex strengths (mergeStrongest strengths vs) \<le> orderIndex strengths w"
    if "vs \<noteq> []" "\<And>v. v \<in> set vs \<Longrightarrow> orderIndex strengths v \<le> orderIndex strengths w" for vs w
  proof -
    have "mergeStrongest strengths vs \<in> set vs"
      using that(1) foldl_strongest(3) [where rank = "orderIndex strengths" and a = "hd vs" and ls = "tl vs"] by (cases vs) (auto simp: mergeStrongest_def)
    then show ?thesis using that(2) by blast
  qed
qed simp

section \<open>Merged fields\<close>

text \<open>At least as strict under an operator; \<open>project_default\<close> promises nothing.\<close>

definition stricterValue :: "string \<Rightarrow> string \<Rightarrow> json \<Rightarrow> json \<Rightarrow> bool" where
  "stricterValue operator path v w \<longleftrightarrow>
     (if operator = ''hard_ceiling'' then (\<exists>a b. v = JNum a \<and> w = JNum b \<and> a \<le> b)
      else if operator = ''allow_intersection'' then (\<exists>a b. v = stringsJson a \<and> w = stringsJson b \<and> set a \<subseteq> set b)
      else if operator = ''deny_union'' \<or> operator = ''approval_union''
      then (\<exists>a b. v = stringsJson a \<and> w = stringsJson b \<and> set b \<subseteq> set a)
      else if operator = ''strongest_control''
      then (\<exists>strengths a b. map_of CONTROL_STRENGTH_ORDERS path = Some strengths \<and> v = JStr a \<and> w = JStr b
              \<and> orderIndex strengths b \<le> orderIndex strengths a)
      else True)"

lemma asStringArray_Inr: "asStringArray path operator v = Inr ss \<longleftrightarrow> v = stringsJson ss"
proof -
  have "mapR (\<lambda>item. case item of JStr s \<Rightarrow> Inr s | _ \<Rightarrow> Inl e) items = Inr ss \<longleftrightarrow> items = map JStr ss" for items and e :: string
    by (induction items arbitrary: ss) (auto simp: rbind_Inr_iff split: json.splits)
  then show ?thesis by (auto simp: asStringArray_def stringsJson_def Let_def split: json.splits)
qed

lemma inj_stringsJson: "inj stringsJson"
  by (auto simp: stringsJson_def inj_on_def inj_map_eq_map)

lemma mapR_values:
  assumes "mapR (\<lambda>e. f (lf_value e)) entries = Inr vs" "\<forall>v x. f v = Inr x \<longrightarrow> v = g x"
  shows "lf_value ` set entries = g ` set vs"
proof -
  have "map lf_value entries = map g vs"
    using assms by (auto simp: mapR_Inr_iff list_all2_conv_all_nth intro!: nth_equalityI)
  then show ?thesis by (metis list.set_map)
qed

lemma mapR_nonempty: "mapR f xs = Inr ys \<Longrightarrow> xs \<noteq> [] \<Longrightarrow> ys \<noteq> []"
  by (auto simp: mapR_Inr_iff)

text \<open>A merged field is the weakest value that is at least as strict as every contribution.\<close>

definition mergedStrictly :: "string \<Rightarrow> layer_field_entry list \<Rightarrow> effective_policy_field \<Rightarrow> bool" where
  "mergedStrictly path entries f \<longleftrightarrow>
     ef_path f = path \<and> ef_merge_operator f = lf_operator (hd entries)
     \<and> (\<forall>e \<in> set entries. stricterValue (lf_operator (hd entries)) path (ef_value f) (lf_value e))
     \<and> (\<forall>v. (\<forall>e \<in> set entries. stricterValue (lf_operator (hd entries)) path v (lf_value e)) \<longrightarrow>
          stricterValue (lf_operator (hd entries)) path v (ef_value f))"

lemma effectiveField_simps [simp]:
  "ef_path (effectiveField path entries v r) = path" "ef_value (effectiveField path entries v r) = v"
  "ef_merge_operator (effectiveField path entries v r) = lf_operator (hd entries)"
  by (simp_all add: effectiveField_def)

lemma mergeField_strict:
  assumes field: "mergeField H path entries = Inr (Inr f)" and ne: "entries \<noteq> []"
  shows "mergedStrictly path entries f"
proof -
  let ?op = "lf_operator (hd entries)" and ?V = "lf_value ` set entries"
  consider "?op = ''hard_ceiling''" | "?op = ''allow_intersection''" | "?op = ''deny_union'' \<or> ?op = ''approval_union''"
    | "?op = ''strongest_control''"
    | "?op \<noteq> ''hard_ceiling''" "?op \<noteq> ''allow_intersection''" "?op \<noteq> ''deny_union''" "?op \<noteq> ''approval_union''" "?op \<noteq> ''strongest_control''"
    by blast
  then show ?thesis
  proof cases
    case 1
    obtain vs r where v: "mapR (\<lambda>e. ceilingNumber path (lf_value e)) entries = Inr vs"
      and f: "f = effectiveField path entries (JNum (mergeCeiling vs)) r"
      using field by (auto simp: mergeField_def 1 rbind_Inr_iff Let_def)
    have inj: "inj JNum" by (simp add: inj_on_def)
    have V: "?V = JNum ` set vs"
      by (rule mapR_values [OF v]) (auto simp: ceilingNumber_def split: json.splits)
    show ?thesis
      using ceiling.embedded_strict [OF V] ceiling.embedded_weakest [OF V mapR_nonempty [OF v ne] inj]
      by (simp add: mergedStrictly_def f stricterValue_def 1)
  next
    case 2
    obtain vs r where v: "mapR (\<lambda>e. asStringArray path ?op (lf_value e)) entries = Inr vs"
      and f: "f = effectiveField path entries (stringsJson (mergeIntersection vs)) r"
      using field by (auto simp: mergeField_def 2 rbind_Inr_iff Let_def)
    have V: "?V = stringsJson ` set vs" by (rule mapR_values [OF v]) (simp add: asStringArray_Inr)
    show ?thesis
      using allows.embedded_strict [OF V] allows.embedded_weakest [OF V mapR_nonempty [OF v ne] inj_stringsJson]
      by (simp add: mergedStrictly_def f stricterValue_def 2)
  next
    case 3
    obtain vs r where v: "mapR (\<lambda>e. asStringArray path ?op (lf_value e)) entries = Inr vs"
      and f: "f = effectiveField path entries (stringsJson (mergeUnion vs)) r"
      using field 3 by (auto simp: mergeField_def rbind_Inr_iff Let_def)
    have V: "?V = stringsJson ` set vs" by (rule mapR_values [OF v]) (simp add: asStringArray_Inr)
    show ?thesis
      using denies.embedded_strict [OF V] denies.embedded_weakest [OF V mapR_nonempty [OF v ne] inj_stringsJson] 3
      by (elim disjE) (simp_all add: mergedStrictly_def f stricterValue_def)
  next
    case 4
    obtain strengths levels r where o: "map_of CONTROL_STRENGTH_ORDERS path = Some strengths"
      and v: "mapR (\<lambda>e. controlLevel H path strengths (lf_value e)) entries = Inr levels"
      and f: "f = effectiveField path entries (JStr (mergeStrongest strengths levels)) r"
      using field by (auto simp: mergeField_def 4 rbind_Inr_iff Let_def split: option.splits if_splits)
    have inj: "inj JStr" by (simp add: inj_on_def)
    have V: "?V = JStr ` set levels"
      by (rule mapR_values [OF v]) (auto simp: controlLevel_def Let_def split: json.splits if_splits)
    show ?thesis
      using controls.embedded_strict [OF V, of strengths] controls.embedded_weakest [OF V mapR_nonempty [OF v ne] inj, of strengths]
      by (simp add: mergedStrictly_def f stricterValue_def 4 o)
  next
    case 5
    then show ?thesis using field by (auto simp: mergeField_def mergedStrictly_def stricterValue_def Let_def)
  qed
qed

section \<open>The merged policy\<close>

lemma orderLayers_set:
  assumes "orderLayers layers = Inr ordered"
  shows "set ordered = set layers"
proof -
  have fold: "foldR admitLayer seen ls = Inr out \<Longrightarrow> out = seen @ ls" for seen ls out
    by (induction ls arbitrary: seen) (fastforce simp: admitLayer_def rbind_Inr_iff split: if_splits)+
  from assms show ?thesis by (auto simp: orderLayers_def rbind_Inr_iff dest!: fold)
qed

lemma addMerged_simps:
  "addMerged (fs, cs) (Inl c) = (fs, cs @ [c])" "addMerged (fs, cs) (Inr f) = (fs @ [f], cs)"
  by (simp_all add: addMerged_def)

lemma foldl_addMerged:
  "foldl addMerged (fs, cs) rs = (merged, conflicts) \<Longrightarrow>
     (\<exists>new. conflicts = cs @ new \<and> (new = [] \<longrightarrow> merged = fs @ map projr rs \<and> (\<forall>r \<in> set rs. \<not> isl r)))"
proof (induction rs arbitrary: fs cs)
  case (Cons r rs)
  show ?case
  proof (cases r)
    case (Inl c)
    then have "foldl addMerged (fs, cs @ [c]) rs = (merged, conflicts)" using Cons.prems by (simp add: addMerged_simps)
    from Cons.IH [OF this] show ?thesis by auto
  next
    case (Inr f)
    then have "foldl addMerged (fs @ [f], cs) rs = (merged, conflicts)" using Cons.prems by (simp add: addMerged_simps)
    from Cons.IH [OF this] show ?thesis using Inr by auto
  qed
qed simp

text \<open>The contributions to a path, from all layers in order.\<close>

definition contributions :: "policy_layer_input list \<Rightarrow> string \<Rightarrow> layer_field_entry list" where
  "contributions ordered path = map snd (filter (\<lambda>e. fst e = path) (concat (map layerEntries ordered)))"

lemma byPath_get:
  "jm_get (byPath ordered) path = (let g = filter (\<lambda>e. fst e = path) (concat (map layerEntries ordered)) in if g = [] then None else Some g)"
  unfolding byPath_def by (rule group_get)

lemma byPath_keys: "path \<in> fst ` set (byPath ordered) \<longleftrightarrow> contributions ordered path \<noteq> []"
proof -
  have "path \<in> fst ` set (byPath ordered) \<longleftrightarrow> jm_get (byPath ordered) path \<noteq> None" by (simp add: map_of_eq_None_iff)
  also have "\<dots> \<longleftrightarrow> contributions ordered path \<noteq> []" by (simp add: byPath_get contributions_def Let_def)
  finally show ?thesis .
qed

lemma contributions_mem:
  "e \<in> set (contributions ordered path) \<longleftrightarrow>
     (\<exists>layer \<in> set ordered. \<exists>field \<in> set (pl_fields layer). knownOperator field \<and> pf_path field = path
        \<and> e = \<lparr>lf_operator = pf_merge_operator field, lf_value = pf_value field, lf_source = layerRef layer\<rparr>)"
  by (force simp: contributions_def layerEntries_def)

lemma mergeGroup_strict:
  assumes "mergeGroup H path entries = Inr (Inr f)" "entries \<noteq> []"
  shows "mergedStrictly path entries f" "\<forall>e \<in> set entries. lf_operator e = ef_merge_operator f"
proof -
  have one: "length (dedupe (map lf_operator entries)) = 1" and field: "mergeField H path entries = Inr (Inr f)"
    using assms(1) by (auto simp: mergeGroup_def Let_def split: if_splits)
  show m: "mergedStrictly path entries f" using mergeField_strict [OF field assms(2)] .
  from one obtain op where "dedupe (map lf_operator entries) = [op]" by (auto simp: length_Suc_conv)
  then have "lf_operator ` set entries = {op}" by (metis list.set(1,2) list.set_map set_dedupe)
  then have "lf_operator e = op" if "e \<in> set entries" for e using that by blast
  moreover have "hd entries \<in> set entries" using assms(2) by simp
  ultimately show "\<forall>e \<in> set entries. lf_operator e = ef_merge_operator f" using m by (simp add: mergedStrictly_def)
qed

text \<open>Without conflicts, every declared path has its merged field, and the effective policy finds it.\<close>

lemma mergePolicyLayers_fields:
  assumes "mergePolicyLayers H layers = Inr m" "mp_conflicts m = []"
  obtains ordered where "set ordered = set layers" "\<forall>layer \<in> set layers. \<forall>field \<in> set (pl_fields layer). knownOperator field"
    "\<forall>path. contributions ordered path \<noteq> [] \<longrightarrow>
       (\<exists>f. fieldAt (mp_effective m) path = Some f \<and> mergeGroup H path (contributions ordered path) = Inr (Inr f))"
    "\<forall>path. contributions ordered path = [] \<longrightarrow> fieldAt (mp_effective m) path = None"
proof -
  from assms(1) obtain ordered results where o: "orderLayers layers = Inr ordered"
    and r: "mapR (\<lambda>path. mergeGroup H path (map snd (the (jm_get (byPath ordered) path)))) (sort (map fst (byPath ordered))) = Inr results"
    and rest: "(case foldl addMerged ([], concat (map operatorConflicts ordered)) results of (merged, conflicts) \<Rightarrow>
       rbind (contentDigest H (effectiveJson (map layerRef ordered) merged)) (\<lambda>digest.
       Inr \<lparr>mp_effective = \<lparr>ep_fields = merged, ep_layers = map layerRef ordered, ep_digest = digest\<rparr>,
         mp_conflicts = sort conflicts\<rparr>)) = Inr m"
    unfolding mergePolicyLayers_def rbind_Inr_iff Let_def by blast
  obtain merged conflicts where fold: "foldl addMerged ([], concat (map operatorConflicts ordered)) results = (merged, conflicts)"
    by fastforce
  have m: "mp_conflicts m = sort conflicts" "ep_fields (mp_effective m) = merged"
    using rest by (auto simp: fold rbind_Inr_iff)
  have "conflicts = []" using m(1) assms(2) by (metis length_0_conv length_sort)
  then have none: "concat (map operatorConflicts ordered) = []" and merged: "merged = map projr results"
    and ok: "\<forall>x \<in> set results. \<not> isl x" using foldl_addMerged [OF fold] by auto
  let ?keys = "sort (map fst (byPath ordered))"
  have keys: "distinct ?keys" "\<And>k. k \<in> set ?keys \<longleftrightarrow> contributions ordered k \<noteq> []"
    using byPath_keys [of _ ordered] by (simp_all add: byPath_def distinct_groups)
  have each: "length results = length ?keys" "mergeGroup H (?keys ! i) (contributions ordered (?keys ! i)) = Inr (Inr (merged ! i))"
    if "i < length ?keys" for i
  proof -
    have len: "length results = length ?keys" and res: "mergeGroup H (?keys ! i) (map snd (the (jm_get (byPath ordered) (?keys ! i)))) = Inr (results ! i)"
      using r that by (auto simp: mapR_Inr_iff list_all2_conv_all_nth)
    then show "length results = length ?keys" by simp
    have ne: "contributions ordered (?keys ! i) \<noteq> []" using keys(2) nth_mem [OF that] by blast
    then have "map snd (the (jm_get (byPath ordered) (?keys ! i))) = contributions ordered (?keys ! i)"
      by (auto simp: byPath_get contributions_def Let_def)
    moreover have "results ! i = Inr (merged ! i)" using ok that len by (simp add: merged)
    ultimately show "mergeGroup H (?keys ! i) (contributions ordered (?keys ! i)) = Inr (Inr (merged ! i))" using res by simp
  qed
  have len: "length merged = length ?keys" using r by (auto simp: merged mapR_Inr_iff dest: list_all2_lengthD)
  have path: "map ef_path merged = ?keys"
  proof (rule nth_equalityI)
    fix i assume "i < length (map ef_path merged)"
    then have i: "i < length ?keys" using len by simp
    have "contributions ordered (?keys ! i) \<noteq> []" using keys(2) nth_mem [OF i] by blast
    then show "map ef_path merged ! i = ?keys ! i"
      using mergeGroup_strict(1) [OF each(2) [OF i]] i len by (simp add: mergedStrictly_def)
  qed (simp add: len)
  show thesis
  proof (rule that [OF orderLayers_set [OF o]])
    show "\<forall>layer \<in> set layers. \<forall>field \<in> set (pl_fields layer). knownOperator field"
      using none orderLayers_set [OF o] by (auto simp: operatorConflicts_def filter_empty_conv)
    show "\<forall>path. contributions ordered path \<noteq> [] \<longrightarrow>
       (\<exists>f. fieldAt (mp_effective m) path = Some f \<and> mergeGroup H path (contributions ordered path) = Inr (Inr f))"
    proof (intro allI impI)
      fix p assume "contributions ordered p \<noteq> []"
      then obtain i where i: "i < length ?keys" "p = ?keys ! i" using keys(2) by (metis in_set_conv_nth)
      have "find (\<lambda>f. ef_path f = p) merged = Some (merged ! i)"
      proof -
        have "ef_path (merged ! j) = ?keys ! j" if "j < length merged" for j
          using path that by (metis nth_map)
        then show ?thesis
          using i len keys(1) by (auto simp: find_Some_iff nth_eq_iff_index_eq intro!: exI [of _ i])
      qed
      then show "\<exists>f. fieldAt (mp_effective m) p = Some f \<and> mergeGroup H p (contributions ordered p) = Inr (Inr f)"
        using each(2) [OF i(1)] i(2) by (simp add: fieldAt_def m(2))
    qed
    show "\<forall>path. contributions ordered path = [] \<longrightarrow> fieldAt (mp_effective m) path = None"
    proof (intro allI impI)
      fix p assume "contributions ordered p = []"
      then have "p \<notin> ef_path ` set merged" using keys(2) path by (metis list.set_map)
      then show "fieldAt (mp_effective m) p = None" by (auto simp: fieldAt_def m(2) find_None_iff)
    qed
  qed
qed

lemma effective_facts:
  assumes "mergePolicyLayers H layers = Inr m" "mp_conflicts m = []"
  obtains contrib where "\<forall>path e. e \<in> set (contrib path) \<longleftrightarrow>
       (\<exists>layer \<in> set layers. \<exists>field \<in> set (pl_fields layer). pf_path field = path
        \<and> e = \<lparr>lf_operator = pf_merge_operator field, lf_value = pf_value field, lf_source = layerRef layer\<rparr>)"
    "\<forall>path. contrib path = [] \<longleftrightarrow> fieldAt (mp_effective m) path = None"
    "\<forall>path f. fieldAt (mp_effective m) path = Some f \<longrightarrow> mergedStrictly path (contrib path) f
       \<and> (\<forall>e \<in> set (contrib path). lf_operator e = ef_merge_operator f)"
proof -
  obtain ordered where o: "set ordered = set layers" and k: "\<forall>layer \<in> set layers. \<forall>field \<in> set (pl_fields layer). knownOperator field"
    and some: "\<forall>path. contributions ordered path \<noteq> [] \<longrightarrow>
       (\<exists>f. fieldAt (mp_effective m) path = Some f \<and> mergeGroup H path (contributions ordered path) = Inr (Inr f))"
    and none: "\<forall>path. contributions ordered path = [] \<longrightarrow> fieldAt (mp_effective m) path = None"
    by (rule mergePolicyLayers_fields [OF assms])
  show thesis
  proof (rule that [of "contributions ordered"])
    show "\<forall>path e. e \<in> set (contributions ordered path) \<longleftrightarrow>
       (\<exists>layer \<in> set layers. \<exists>field \<in> set (pl_fields layer). pf_path field = path
        \<and> e = \<lparr>lf_operator = pf_merge_operator field, lf_value = pf_value field, lf_source = layerRef layer\<rparr>)"
      unfolding contributions_mem o using k by blast
    show "\<forall>path. contributions ordered path = [] \<longleftrightarrow> fieldAt (mp_effective m) path = None"
      using some none by (metis option.distinct(1))
    show "\<forall>path f. fieldAt (mp_effective m) path = Some f \<longrightarrow> mergedStrictly path (contributions ordered path) f
       \<and> (\<forall>e \<in> set (contributions ordered path). lf_operator e = ef_merge_operator f)"
      using some none mergeGroup_strict by (metis option.distinct(1) option.inject)
  qed
qed

lemma effective_strict:
  assumes m: "mergePolicyLayers H layers = Inr m" "mp_conflicts m = []" and layer: "layer \<in> set layers" "field \<in> set (pl_fields layer)"
  shows "\<exists>f. fieldAt (mp_effective m) (pf_path field) = Some f \<and> ef_merge_operator f = pf_merge_operator field
         \<and> stricterValue (pf_merge_operator field) (pf_path field) (ef_value f) (pf_value field)"
proof -
  let ?e = "\<lparr>lf_operator = pf_merge_operator field, lf_value = pf_value field, lf_source = layerRef layer\<rparr>"
  obtain contrib where mem: "\<forall>path e. e \<in> set (contrib path) \<longleftrightarrow>
       (\<exists>layer \<in> set layers. \<exists>field \<in> set (pl_fields layer). pf_path field = path
        \<and> e = \<lparr>lf_operator = pf_merge_operator field, lf_value = pf_value field, lf_source = layerRef layer\<rparr>)"
    and none: "\<forall>path. contrib path = [] \<longleftrightarrow> fieldAt (mp_effective m) path = None"
    and strict: "\<forall>path f. fieldAt (mp_effective m) path = Some f \<longrightarrow> mergedStrictly path (contrib path) f
       \<and> (\<forall>e \<in> set (contrib path). lf_operator e = ef_merge_operator f)"
    by (rule effective_facts [OF m])
  have e: "?e \<in> set (contrib (pf_path field))" using mem layer by blast
  then have ne: "contrib (pf_path field) \<noteq> []" by (metis list.distinct(1) list.set_cases)
  then obtain f where f: "fieldAt (mp_effective m) (pf_path field) = Some f" using none by blast
  note s = strict [rule_format, OF f]
  have "lf_operator (hd (contrib (pf_path field))) = ef_merge_operator f" using s ne by simp
  moreover have "ef_merge_operator f = pf_merge_operator field" using s e by fastforce
  ultimately show ?thesis using s e f by (auto simp: mergedStrictly_def dest: bspec [of _ _ ?e])
qed

text \<open>
  C5. The layers of a policy are never overridden: when the merge reports no conflict, every field that a
  layer declares is in the effective policy under its operator, with a value at least as strict as the
  layer's (a lower or equal ceiling, a subset of an allow set, a superset of a deny or approval set, an
  equal or stronger control), and it is the weakest such value; nothing else is in the effective policy.
\<close>
theorem mergePolicyLayers_strict:
  assumes "mergePolicyLayers H layers = Inr m" "mp_conflicts m = []"
  shows "(\<forall>layer \<in> set layers. \<forall>field \<in> set (pl_fields layer).
       \<exists>f. fieldAt (mp_effective m) (pf_path field) = Some f \<and> ef_merge_operator f = pf_merge_operator field
         \<and> stricterValue (pf_merge_operator field) (pf_path field) (ef_value f) (pf_value field))
     \<and> (\<forall>path f v. fieldAt (mp_effective m) path = Some f \<longrightarrow>
         (\<forall>layer \<in> set layers. \<forall>field \<in> set (pl_fields layer). pf_path field = path \<longrightarrow>
            stricterValue (ef_merge_operator f) path v (pf_value field)) \<longrightarrow> stricterValue (ef_merge_operator f) path v (ef_value f))
     \<and> (\<forall>path. fieldAt (mp_effective m) path \<noteq> None \<longrightarrow> (\<exists>layer \<in> set layers. \<exists>field \<in> set (pl_fields layer). pf_path field = path))"
proof (intro conjI ballI allI impI)
  obtain contrib where mem: "\<forall>path e. e \<in> set (contrib path) \<longleftrightarrow>
       (\<exists>layer \<in> set layers. \<exists>field \<in> set (pl_fields layer). pf_path field = path
        \<and> e = \<lparr>lf_operator = pf_merge_operator field, lf_value = pf_value field, lf_source = layerRef layer\<rparr>)"
    and none: "\<forall>path. contrib path = [] \<longleftrightarrow> fieldAt (mp_effective m) path = None"
    and strict: "\<forall>path f. fieldAt (mp_effective m) path = Some f \<longrightarrow> mergedStrictly path (contrib path) f
       \<and> (\<forall>e \<in> set (contrib path). lf_operator e = ef_merge_operator f)"
    by (rule effective_facts [OF assms])
  show "\<exists>f. fieldAt (mp_effective m) (pf_path field) = Some f \<and> ef_merge_operator f = pf_merge_operator field
         \<and> stricterValue (pf_merge_operator field) (pf_path field) (ef_value f) (pf_value field)"
    if "layer \<in> set layers" "field \<in> set (pl_fields layer)" for layer field
    by (rule effective_strict [OF assms that])
  show "stricterValue (ef_merge_operator f) path v (ef_value f)"
    if "fieldAt (mp_effective m) path = Some f" and all: "\<forall>layer \<in> set layers. \<forall>field \<in> set (pl_fields layer). pf_path field = path \<longrightarrow>
            stricterValue (ef_merge_operator f) path v (pf_value field)" for path f v
  proof -
    have "stricterValue (ef_merge_operator f) path v (lf_value e)" if "e \<in> set (contrib path)" for e
      using that all mem by auto
    then show ?thesis using strict that(1) by (simp add: mergedStrictly_def)
  qed
  show "\<exists>layer \<in> set layers. \<exists>field \<in> set (pl_fields layer). pf_path field = path" if "fieldAt (mp_effective m) path \<noteq> None" for path
  proof -
    have "contrib path \<noteq> []" using none [rule_format, of path] that by auto
    then have "hd (contrib path) \<in> set (contrib path)" by simp
    then show ?thesis using mem by blast
  qed
qed

definition exampleLayers :: "policy_layer_input list" where
  "exampleLayers =
     [\<lparr>plr_layer = ''project'', plr_revision = 1, plr_digest = ''p'', pl_fields =
        [\<lparr>pf_path = ''budgets.max_steps'', pf_merge_operator = ''hard_ceiling'', pf_value = JNum 9\<rparr>,
         \<lparr>pf_path = ''paths.deny'', pf_merge_operator = ''deny_union'', pf_value = stringsJson [''secrets'']\<rparr>]\<rparr>,
      \<lparr>plr_layer = ''installation'', plr_revision = 1, plr_digest = ''i'', pl_fields =
        [\<lparr>pf_path = ''budgets.max_steps'', pf_merge_operator = ''hard_ceiling'', pf_value = JNum 5\<rparr>]\<rparr>]"

definition exampleMerged :: "effective_policy_field list" where
  "exampleMerged =
     [\<lparr>ef_path = ''budgets.max_steps'', ef_merge_operator = ''hard_ceiling'', ef_value = JNum 5,
       ef_reason = ''hard_ceiling:min('' @ commas (map exampleNumber [5, 9]) @ '')='' @ exampleNumber 5,
       ef_sources = map layerRef (rev exampleLayers)\<rparr>,
      \<lparr>ef_path = ''paths.deny'', ef_merge_operator = ''deny_union'', ef_value = stringsJson [''secrets''],
       ef_reason = ''deny_union:project[secrets] = [secrets]'', ef_sources = [layerRef (hd exampleLayers)]\<rparr>]"

lemma example_merge:
  "\<exists>d. mergePolicyLayers exampleHost exampleLayers =
     Inr \<lparr>mp_effective = \<lparr>ep_fields = exampleMerged, ep_layers = map layerRef (rev exampleLayers), ep_digest = d\<rparr>, mp_conflicts = []\<rparr>"
proof -
  have o: "orderLayers exampleLayers = Inr (rev exampleLayers)" by code_simp
  have r: "mapR (\<lambda>path. mergeGroup exampleHost path (map snd (the (jm_get (byPath (rev exampleLayers)) path))))
      (sort (map fst (byPath (rev exampleLayers)))) = Inr (map Inr exampleMerged)" by code_simp
  have c: "concat (map operatorConflicts (rev exampleLayers)) = []" by code_simp
  have f: "foldl addMerged ([], []) (map Inr exampleMerged) = (exampleMerged, [])"
    by (simp add: exampleMerged_def addMerged_simps)
  have "wellKeyed exampleHost (effectiveJson (map layerRef (rev exampleLayers)) exampleMerged)"
    by (auto simp: effectiveJson_def layerRefJson_def exampleMerged_def stringsJson_def list_all_iff)
  then obtain d where d: "contentDigest exampleHost (effectiveJson (map layerRef (rev exampleLayers)) exampleMerged) = Inr d"
    using contentDigest_example by blast
  show ?thesis unfolding mergePolicyLayers_def o rbind_simps Let_def r c f prod.case d by simp
qed

theorem mergePolicyLayers_strict_witness:
  "\<exists>m f. mergePolicyLayers exampleHost exampleLayers = Inr m \<and> fieldAt (mp_effective m) ''budgets.max_steps'' = Some f
     \<and> ef_value f = JNum 5 \<and> stricterValue ''hard_ceiling'' ''budgets.max_steps'' (ef_value f) (JNum 9)"
proof -
  obtain m where m: "mergePolicyLayers exampleHost exampleLayers = Inr m" "mp_conflicts m = []"
    "ep_fields (mp_effective m) = exampleMerged"
    using example_merge by auto
  have f: "fieldAt (mp_effective m) ''budgets.max_steps'' = Some (hd exampleMerged)"
    by (simp add: fieldAt_def m(3) exampleMerged_def)
  have "\<forall>layer \<in> set exampleLayers. \<forall>field \<in> set (pl_fields layer).
       \<exists>f. fieldAt (mp_effective m) (pf_path field) = Some f \<and> ef_merge_operator f = pf_merge_operator field
         \<and> stricterValue (pf_merge_operator field) (pf_path field) (ef_value f) (pf_value field)"
    using mergePolicyLayers_strict [OF m(1,2)] by blast
  then have "stricterValue ''hard_ceiling'' ''budgets.max_steps'' (ef_value (hd exampleMerged)) (JNum 9)"
    using f by (auto simp: exampleLayers_def)
  moreover have "ef_value (hd exampleMerged) = JNum 5" by (simp add: exampleMerged_def)
  ultimately show ?thesis using m(1) f by blast
qed

end
