(* ===== verification/Policy_Grant.thy ===== *)
theory Policy_Grant
  imports Policy_Strict
begin

text \<open>
  Capability grants (\<^verbatim>\<open>runtime/src/policy/capability-grant.ts\<close>): issuing a grant under an effective policy,
  narrowing it, and the check of an action against it. The grant record that binds an authorization is left
  out: it is sealed by the schema validator. The lemmas: an issued grant lies inside the policy, and a
  narrowed grant permits no more than the one it narrows.
\<close>

section \<open>Grants\<close>

record granted_tool =
  gt_name :: string
  gt_parameter_bounds :: "(string \<times> json list) list option"

record grant_budget =
  gb_steps :: rat
  gb_tokens :: rat

text \<open>The fields under the digest; \<^verbatim>\<open>issued_by\<close> has one value.\<close>

record grant_terms =
  cg_grant_id :: string
  cg_task_id :: string
  cg_capabilities :: "string list"
  cg_read_paths :: "string list"
  cg_write_paths :: "string list"
  cg_state_fields :: "string list"
  cg_tools :: "granted_tool list"
  cg_phase :: string
  cg_budget :: grant_budget
  cg_approval_digests :: "string list"
  cg_effective_policy_digest :: string

record capability_grant = grant_terms +
  cg_digest :: string

record grant_request =
  gq_grant_id :: string
  gq_task_id :: string
  gq_capabilities :: "string list"
  gq_read_paths :: "string list"
  gq_write_paths :: "string list"
  gq_state_fields :: "string list option"
  gq_tools :: "granted_tool list option"
  gq_phase :: string
  gq_budget :: grant_budget
  gq_approval_digests :: "string list option"

record grant_narrowing =
  gn_capabilities :: "string list option"
  gn_read_paths :: "string list option"
  gn_write_paths :: "string list option"
  gn_state_fields :: "string list option"
  gn_tools :: "granted_tool list option"
  gn_budget :: "grant_budget option"

record capability_grant_binding =
  gn_plan_digest :: string
  gn_context_bundle_digest :: string
  gn_adapter_profile_digest :: "string option"
  gn_baseline_commit :: string

record capability_grant_spec = grant_terms +
  cs_binding :: capability_grant_binding
  cs_spec_digest :: string

abbreviation capabilityExpansion :: "'a result" where
  "capabilityExpansion \<equiv> Inl (PolicyError policy_capability_expansion)"

definition sortedUnique :: "string list \<Rightarrow> string list" where
  "sortedUnique xs = sort (dedupe xs)"

definition grantedToolJson :: "granted_tool \<Rightarrow> json" where
  "grantedToolJson tool = JObj ((''name'', JStr (gt_name tool)) #
     optionalField ''parameter_bounds''
       (map_option (\<lambda>bounds. JObj (map (\<lambda>b. (fst b, JArr (snd b))) bounds)) (gt_parameter_bounds tool)))"

definition grantBudgetJson :: "grant_budget \<Rightarrow> json" where
  "grantBudgetJson b = JObj [(''steps'', JNum (gb_steps b)), (''tokens'', JNum (gb_tokens b))]"

definition grantEntries :: "'a grant_terms_scheme \<Rightarrow> (string \<times> json) list" where
  "grantEntries g =
     [(''grant_id'', JStr (cg_grant_id g)), (''task_id'', JStr (cg_task_id g)), (''issued_by'', JStr ''harness''),
      (''capabilities'', stringsJson (cg_capabilities g)), (''read_paths'', stringsJson (cg_read_paths g)),
      (''write_paths'', stringsJson (cg_write_paths g)), (''state_fields'', stringsJson (cg_state_fields g)),
      (''tools'', JArr (map grantedToolJson (cg_tools g))), (''phase'', JStr (cg_phase g)),
      (''budget'', grantBudgetJson (cg_budget g)), (''approval_digests'', stringsJson (cg_approval_digests g)),
      (''effective_policy_digest'', JStr (cg_effective_policy_digest g))]"

definition grantDigest :: "host \<Rightarrow> grant_terms \<Rightarrow> string result" where
  "grantDigest H parts = contentDigest H (JObj (grantEntries parts))"

definition sealGrant :: "host \<Rightarrow> grant_terms \<Rightarrow> capability_grant result" where
  "sealGrant H g = rbind (grantDigest H g) (\<lambda>d. Inr (grant_terms.extend g (capability_grant.fields d)))"

section \<open>Issuing\<close>

definition assertSubset :: "string list \<Rightarrow> string list \<Rightarrow> unit result" where
  "assertSubset requested allowed = rguard (list_all (List.member allowed) requested) (PolicyError policy_capability_expansion)"

definition assertSubsetOf :: "string list option \<Rightarrow> string list \<Rightarrow> unit result" where
  "assertSubsetOf allowed requested = (case allowed of None \<Rightarrow> Inr () | Some a \<Rightarrow> assertSubset requested a)"

definition clampBudget :: "rat option \<Rightarrow> rat \<Rightarrow> rat" where
  "clampBudget maximum requested = (case maximum of None \<Rightarrow> requested | Some c \<Rightarrow> min requested c)"

definition issuedBudget :: "effective_policy \<Rightarrow> grant_budget \<Rightarrow> grant_budget" where
  "issuedBudget effective b =
     \<lparr>gb_steps = clampBudget (policyNumber effective ''budgets.max_steps'') (gb_steps b),
      gb_tokens = clampBudget (policyNumber effective ''budgets.max_tokens'') (gb_tokens b)\<rparr>"

definition withinAllow :: "host \<Rightarrow> string list option \<Rightarrow> string \<Rightarrow> bool" where
  "withinAllow H allowed path \<longleftrightarrow> (case allowed of None \<Rightarrow> True | Some a \<Rightarrow> isPathWithinScopes H a path)"

definition issueGrant :: "host \<Rightarrow> grant_request \<Rightarrow> effective_policy \<Rightarrow> capability_grant result" where
  "issueGrant H request effective =
     (let denyCapabilities = orList (policyStrings effective ''capabilities.deny'');
          capabilities = sortedUnique (gq_capabilities request);
          denyPaths = orList (policyStrings effective ''paths.deny'');
          tools = sort_key gt_name (orList (gq_tools request))
      in
      rbind (assertSubsetOf (policyStrings effective ''capabilities.allow'') capabilities) (\<lambda>_.
      rbind (rguard (list_all (\<lambda>c. \<not> List.member denyCapabilities c) capabilities) (PolicyError policy_capability_expansion)) (\<lambda>_.
      rbind (mapR (normalizeRepoRelativePath H) (gq_read_paths request)) (\<lambda>reads.
      rbind (mapR (normalizeRepoRelativePath H) (gq_write_paths request)) (\<lambda>writes.
      let readPaths = sortedUnique reads; writePaths = sortedUnique writes in
      rbind (rguard (list_all (withinAllow H (policyStrings effective ''paths.read.allow'')) readPaths)
        (PolicyError policy_capability_expansion)) (\<lambda>_.
      rbind (rguard (list_all (\<lambda>path. withinAllow H (policyStrings effective ''paths.write.allow'') path
          \<and> \<not> isPathWithinScopes H denyPaths path) writePaths) (PolicyError policy_capability_expansion)) (\<lambda>_.
      rbind (assertSubsetOf (policyStrings effective ''resources.allow'') (map gt_name tools)) (\<lambda>_.
      rbind (assertSubsetOf (policyStrings effective ''phases.allow'') [gq_phase request]) (\<lambda>_.
      sealGrant H \<lparr>cg_grant_id = gq_grant_id request, cg_task_id = gq_task_id request, cg_capabilities = capabilities,
        cg_read_paths = readPaths, cg_write_paths = writePaths, cg_state_fields = sortedUnique (orList (gq_state_fields request)),
        cg_tools = tools, cg_phase = gq_phase request, cg_budget = issuedBudget effective (gq_budget request),
        cg_approval_digests = sortedUnique (orList (gq_approval_digests request)),
        cg_effective_policy_digest = ep_digest effective\<rparr>)))))))))"

definition grantSpecEntries :: "grant_terms \<Rightarrow> capability_grant_binding \<Rightarrow> (string \<times> json) list" where
  "grantSpecEntries g binding = grantEntries g @
     [(''plan_digest'', JStr (gn_plan_digest binding)), (''context_bundle_digest'', JStr (gn_context_bundle_digest binding))] @
     optionalField ''adapter_profile_digest'' (map_option JStr (gn_adapter_profile_digest binding)) @
     [(''baseline_commit'', JStr (gn_baseline_commit binding))]"

definition createCapabilityGrantSpec :: "host \<Rightarrow> grant_request \<Rightarrow> effective_policy \<Rightarrow> capability_grant_binding \<Rightarrow> capability_grant_spec result" where
  "createCapabilityGrantSpec H request effective binding =
     rbind (issueGrant H request effective) (\<lambda>grant.
     let base = grant_terms.truncate grant in
     rbind (contentDigest H (JObj (grantSpecEntries base binding))) (\<lambda>d.
     Inr (grant_terms.extend base (capability_grant_spec.fields binding d))))"

section \<open>Narrowing\<close>

definition assertSetNarrowing :: "string list \<Rightarrow> string list \<Rightarrow> string list result" where
  "assertSetNarrowing current narrowed =
     (let narrower = sortedUnique narrowed in
      if list_all (List.member current) narrower then Inr narrower else capabilityExpansion)"

definition findTool :: "granted_tool list \<Rightarrow> string \<Rightarrow> granted_tool option" where
  "findTool tools name = find (\<lambda>candidate. gt_name candidate = name) tools"

text \<open>One bound of a narrowed tool; a key of \<^verbatim>\<open>Object.prototype\<close> that is not a bound finds a value without
  \<^verbatim>\<open>includes\<close>.\<close>

definition checkToolBound :: "granted_tool \<Rightarrow> string \<times> json list \<Rightarrow> unit result" where
  "checkToolBound previous bound =
     (case bound of (key, values) \<Rightarrow>
      case gt_parameter_bounds previous of
        None \<Rightarrow> Inr ()
      | Some previousBounds \<Rightarrow>
          (case map_of previousBounds key of
             None \<Rightarrow> if List.member objectPrototypeKeys key \<and> values \<noteq> [] then Inl JsTypeError else Inr ()
           | Some previousValues \<Rightarrow>
               rguard (list_all (List.member previousValues) values) (PolicyError policy_capability_expansion)))"

definition checkNarrowedTool :: "granted_tool list \<Rightarrow> granted_tool \<Rightarrow> unit result" where
  "checkNarrowedTool current tool =
     (case findTool current (gt_name tool) of
        None \<Rightarrow> capabilityExpansion
      | Some previous \<Rightarrow> foldR (\<lambda>_. checkToolBound previous) () (orList (gt_parameter_bounds tool)))"

definition assertToolNarrowing :: "granted_tool list \<Rightarrow> granted_tool list \<Rightarrow> granted_tool list result" where
  "assertToolNarrowing current narrowed =
     (let narrower = sort_key gt_name narrowed in
      rbind (foldR (\<lambda>_. checkNarrowedTool current) () narrower) (\<lambda>_. Inr narrower))"

definition narrowOptional :: "'a \<Rightarrow> ('b \<Rightarrow> 'a result) \<Rightarrow> 'b option \<Rightarrow> 'a result" where
  "narrowOptional current narrow v = (case v of None \<Rightarrow> Inr current | Some x \<Rightarrow> narrow x)"

definition narrowPaths :: "host \<Rightarrow> string list \<Rightarrow> string list \<Rightarrow> string list result" where
  "narrowPaths H current narrowed =
     rbind (mapR (normalizeRepoRelativePath H) narrowed) (assertSetNarrowing current)"

definition narrowGrant :: "host \<Rightarrow> capability_grant \<Rightarrow> grant_narrowing \<Rightarrow> capability_grant result" where
  "narrowGrant H grant changes =
     rbind (narrowOptional (cg_capabilities grant) (assertSetNarrowing (cg_capabilities grant)) (gn_capabilities changes)) (\<lambda>capabilities.
     rbind (narrowOptional (cg_read_paths grant) (narrowPaths H (cg_read_paths grant)) (gn_read_paths changes)) (\<lambda>readPaths.
     rbind (narrowOptional (cg_write_paths grant) (narrowPaths H (cg_write_paths grant)) (gn_write_paths changes)) (\<lambda>writePaths.
     rbind (narrowOptional (cg_state_fields grant) (assertSetNarrowing (cg_state_fields grant)) (gn_state_fields changes)) (\<lambda>stateFields.
     rbind (narrowOptional (cg_tools grant) (assertToolNarrowing (cg_tools grant)) (gn_tools changes)) (\<lambda>tools.
     let budget = (case gn_budget changes of None \<Rightarrow> cg_budget grant | Some b \<Rightarrow> b) in
     if gb_steps (cg_budget grant) < gb_steps budget \<or> gb_tokens (cg_budget grant) < gb_tokens budget
     then capabilityExpansion
     else sealGrant H \<lparr>cg_grant_id = cg_grant_id grant, cg_task_id = cg_task_id grant, cg_capabilities = capabilities,
        cg_read_paths = readPaths, cg_write_paths = writePaths, cg_state_fields = stateFields, cg_tools = tools,
        cg_phase = cg_phase grant, cg_budget = budget, cg_approval_digests = cg_approval_digests grant,
        cg_effective_policy_digest = cg_effective_policy_digest grant\<rparr>)))))"

section \<open>Actions inside a grant\<close>

definition isScalar :: "json \<Rightarrow> bool" where
  "isScalar v \<longleftrightarrow> (case v of JStr _ \<Rightarrow> True | JNum _ \<Rightarrow> True | JBool _ \<Rightarrow> True | _ \<Rightarrow> False)"

definition outsideBound :: "policy_action \<Rightarrow> string \<times> json list \<Rightarrow> bool" where
  "outsideBound action bound \<longleftrightarrow>
     (case map_of (pa_parameters action) (fst bound) of
        None \<Rightarrow> False
      | Some v \<Rightarrow> isScalar v \<and> \<not> List.member (snd bound) v)"

definition toolDenialReason :: "host \<Rightarrow> granted_tool list \<Rightarrow> policy_action \<Rightarrow> string \<Rightarrow> string option" where
  "toolDenialReason H tools action resource =
     (case findTool tools resource of
        None \<Rightarrow> Some (''tool '' @ quoted resource @ '' is not in the granted tool set'')
      | Some tool \<Rightarrow>
          map_option (\<lambda>bound. ''parameter '' @ resource @ ''.'' @ fst bound @ ''='' @
              render H (the (map_of (pa_parameters action) (fst bound))) @ '' is outside the granted parameter bounds'')
            (find (outsideBound action) (orList (gt_parameter_bounds tool))))"

definition resourceText :: "string option \<Rightarrow> string" where
  "resourceText resource = quoted (case resource of None \<Rightarrow> [] | Some r \<Rightarrow> r)"

definition resourceIn :: "(string \<Rightarrow> bool) \<Rightarrow> string option \<Rightarrow> bool" where
  "resourceIn P resource \<longleftrightarrow> (case resource of None \<Rightarrow> False | Some r \<Rightarrow> P r)"

definition grantDenialReason :: "host \<Rightarrow> 'a grant_terms_scheme \<Rightarrow> policy_action \<Rightarrow> string option" where
  "grantDenialReason H grant action =
     (if pa_phase action \<noteq> cg_phase grant
      then Some (''action phase '' @ quoted (pa_phase action) @ '' is outside the granted phase '' @ quoted (cg_phase grant))
      else let resource = pa_resource action in case pa_kind action of
        read_path \<Rightarrow>
          if resourceIn (isPathWithinScopes H (cg_read_paths grant)) resource then None
          else Some (''read path '' @ resourceText resource @ '' is outside the granted read scope'')
      | write_path \<Rightarrow>
          if resourceIn (isPathWithinScopes H (cg_write_paths grant)) resource then None
          else Some (''write path '' @ resourceText resource @ '' is outside the granted write scope'')
      | propose_state \<Rightarrow>
          if resourceIn (List.member (cg_state_fields grant)) resource then None
          else Some (''state field '' @ resourceText resource @ '' is outside the granted state proposal scope'')
      | invoke_tool \<Rightarrow>
          (case resource of
             None \<Rightarrow> Some ''tool invocation requires a resource (tool name)''
           | Some r \<Rightarrow> toolDenialReason H (cg_tools grant) action r)
      | _ \<Rightarrow> None)"

section \<open>A narrowed grant permits no more\<close>

lemma isPathWithinScopes_mono:
  "isPathWithinScopes H scopes path \<Longrightarrow> set scopes \<subseteq> set scopes' \<Longrightarrow> isPathWithinScopes H scopes' path"
  by (auto simp: isPathWithinScopes_def list_ex_iff split: option.splits)

lemma set_sortedUnique [simp]: "set (sortedUnique xs) = set xs"
  by (simp add: sortedUnique_def)

lemma assertSetNarrowing_Inr: "assertSetNarrowing current narrowed = Inr xs \<Longrightarrow> set xs \<subseteq> set current"
  by (auto simp: assertSetNarrowing_def Let_def list_all_iff split: if_splits)

lemma narrowPaths_Inr: "narrowPaths H current narrowed = Inr xs \<Longrightarrow> set xs \<subseteq> set current"
  by (auto simp: narrowPaths_def rbind_Inr_iff dest: assertSetNarrowing_Inr)

lemma sealGrant_Inr [result_simps]:
  "sealGrant H g = Inr g' \<longleftrightarrow> (\<exists>d. grantDigest H g = Inr d \<and> g' = grant_terms.extend g (capability_grant.fields d))"
  by (auto simp: sealGrant_def rbind_Inr_iff)

lemma sealed_terms [simp]:
  "cg_grant_id (grant_terms.extend g x) = cg_grant_id g" "cg_task_id (grant_terms.extend g x) = cg_task_id g"
  "cg_capabilities (grant_terms.extend g x) = cg_capabilities g" "cg_read_paths (grant_terms.extend g x) = cg_read_paths g"
  "cg_write_paths (grant_terms.extend g x) = cg_write_paths g" "cg_state_fields (grant_terms.extend g x) = cg_state_fields g"
  "cg_tools (grant_terms.extend g x) = cg_tools g" "cg_phase (grant_terms.extend g x) = cg_phase g"
  "cg_budget (grant_terms.extend g x) = cg_budget g" "cg_approval_digests (grant_terms.extend g x) = cg_approval_digests g"
  "cg_effective_policy_digest (grant_terms.extend g x) = cg_effective_policy_digest g"
  by (simp_all add: grant_terms.defs)

definition boundKeys :: "granted_tool \<Rightarrow> string list" where
  "boundKeys tool = map fst (orList (gt_parameter_bounds tool))"

text \<open>Every narrowed tool still names each parameter the granted tool bounds.\<close>

definition keepsBounds :: "granted_tool list \<Rightarrow> granted_tool list \<Rightarrow> bool" where
  "keepsBounds current narrowed \<longleftrightarrow>
     list_all (\<lambda>tool. case findTool current (gt_name tool) of None \<Rightarrow> True
        | Some previous \<Rightarrow> set (boundKeys previous) \<subseteq> set (boundKeys tool)) narrowed"

lemma findTool_Some: "findTool tools name = Some tool \<Longrightarrow> tool \<in> set tools \<and> gt_name tool = name"
  by (auto simp: findTool_def find_Some_iff)

lemma checkToolBound_Inr:
  assumes "checkToolBound previous (key, allowed) = Inr ()" "distinct (boundKeys previous)"
    "(key, wider) \<in> set (orList (gt_parameter_bounds previous))"
  shows "set allowed \<subseteq> set wider"
proof -
  from assms(3) obtain bounds where b: "gt_parameter_bounds previous = Some bounds" "(key, wider) \<in> set bounds"
    by (cases "gt_parameter_bounds previous") (auto simp: orList_def)
  then have "map_of bounds key = Some wider" using assms(2) by (simp add: boundKeys_def orList_def)
  then show ?thesis using assms(1) b by (auto simp: checkToolBound_def list_all_iff split: option.splits)
qed

lemma toolDenialReason_None:
  "toolDenialReason H tools action r = None \<longleftrightarrow>
     (\<exists>tool. findTool tools r = Some tool \<and> (\<forall>bound \<in> set (orList (gt_parameter_bounds tool)). \<not> outsideBound action bound))"
  by (auto simp: toolDenialReason_def find_None_iff split: option.splits)

lemma outsideBound_mono: "\<not> outsideBound action (key, allowed) \<Longrightarrow> set allowed \<subseteq> set wider \<Longrightarrow> \<not> outsideBound action (key, wider)"
  by (auto simp: outsideBound_def split: option.splits)

lemma assertToolNarrowing_denial:
  assumes "assertToolNarrowing current narrowed = Inr tools" "\<forall>tool \<in> set current. distinct (boundKeys tool)"
    "keepsBounds current narrowed" "toolDenialReason H tools action r = None"
  shows "toolDenialReason H current action r = None"
proof -
  have narrower: "tools = sort_key gt_name narrowed" "\<forall>tool \<in> set narrowed. checkNarrowedTool current tool = Inr ()"
    using assms(1) by (auto simp: assertToolNarrowing_def Let_def rbind_Inr_iff foldR_unit)
  obtain tool where tool: "tool \<in> set narrowed" "gt_name tool = r"
    "\<forall>bound \<in> set (orList (gt_parameter_bounds tool)). \<not> outsideBound action bound"
    using assms(4) narrower(1) by (auto simp: toolDenialReason_None dest: findTool_Some)
  then obtain previous where p: "findTool current r = Some previous"
    "\<forall>bound \<in> set (orList (gt_parameter_bounds tool)). checkToolBound previous bound = Inr ()"
    using narrower(2) by (auto simp: checkNarrowedTool_def foldR_unit split: option.splits)
  have "\<not> outsideBound action (key, wider)" if b: "(key, wider) \<in> set (orList (gt_parameter_bounds previous))" for key wider
  proof -
    have "key \<in> set (boundKeys tool)"
      using assms(3) tool(1,2) p(1) b by (force simp: keepsBounds_def list_all_iff boundKeys_def)
    then obtain allowed where a: "(key, allowed) \<in> set (orList (gt_parameter_bounds tool))" by (auto simp: boundKeys_def)
    have "set allowed \<subseteq> set wider"
      using checkToolBound_Inr [OF _ _ b] p(2) a assms(2) findTool_Some [OF p(1)] by blast
    then show ?thesis using tool(3) a outsideBound_mono by blast
  qed
  then show ?thesis using p(1) by (auto simp: toolDenialReason_None)
qed

lemma grantDenialReason_None:
  "grantDenialReason H grant action = None \<longleftrightarrow> pa_phase action = cg_phase grant \<and>
     (case pa_kind action of
        read_path \<Rightarrow> resourceIn (isPathWithinScopes H (cg_read_paths grant)) (pa_resource action)
      | write_path \<Rightarrow> resourceIn (isPathWithinScopes H (cg_write_paths grant)) (pa_resource action)
      | propose_state \<Rightarrow> resourceIn (\<lambda>f. f \<in> set (cg_state_fields grant)) (pa_resource action)
      | invoke_tool \<Rightarrow> resourceIn (\<lambda>r. toolDenialReason H (cg_tools grant) action r = None) (pa_resource action)
      | _ \<Rightarrow> True)"
  by (simp add: grantDenialReason_def resourceIn_def Let_def split: policy_action_kind.split option.split)

lemma narrowGrant_budget:
  "narrowGrant H g changes = Inr g' \<Longrightarrow>
     gb_steps (cg_budget g') \<le> gb_steps (cg_budget g) \<and> gb_tokens (cg_budget g') \<le> gb_tokens (cg_budget g)"
  by (auto simp: narrowGrant_def Let_def rbind_Inr_iff sealGrant_Inr split: if_splits)

lemma narrowGrant_parts:
  "narrowGrant H g changes = Inr g' \<Longrightarrow>
     narrowOptional (cg_capabilities g) (assertSetNarrowing (cg_capabilities g)) (gn_capabilities changes) = Inr (cg_capabilities g')
   \<and> narrowOptional (cg_read_paths g) (narrowPaths H (cg_read_paths g)) (gn_read_paths changes) = Inr (cg_read_paths g')
   \<and> narrowOptional (cg_write_paths g) (narrowPaths H (cg_write_paths g)) (gn_write_paths changes) = Inr (cg_write_paths g')
   \<and> narrowOptional (cg_state_fields g) (assertSetNarrowing (cg_state_fields g)) (gn_state_fields changes) = Inr (cg_state_fields g')
   \<and> narrowOptional (cg_tools g) (assertToolNarrowing (cg_tools g)) (gn_tools changes) = Inr (cg_tools g')"
  by (auto simp: narrowGrant_def Let_def rbind_Inr_iff sealGrant_Inr split: if_splits)

lemma narrowOptional_subset:
  assumes "narrowOptional current narrow v = Inr xs" "\<And>ys xs. narrow ys = Inr xs \<Longrightarrow> set xs \<subseteq> set current"
  shows "set xs \<subseteq> set current"
  using assms by (auto simp: narrowOptional_def split: option.splits)

lemma narrowGrant_sets:
  assumes "narrowGrant H g changes = Inr g'"
  shows "set (cg_capabilities g') \<subseteq> set (cg_capabilities g) \<and> set (cg_read_paths g') \<subseteq> set (cg_read_paths g)
     \<and> set (cg_write_paths g') \<subseteq> set (cg_write_paths g) \<and> set (cg_state_fields g') \<subseteq> set (cg_state_fields g)"
  using narrowGrant_parts [OF assms] narrowOptional_subset assertSetNarrowing_Inr narrowPaths_Inr by meson

lemma narrowGrant_tools:
  assumes "narrowGrant H g changes = Inr g'"
  shows "case gn_tools changes of None \<Rightarrow> cg_tools g' = cg_tools g | Some tools \<Rightarrow> assertToolNarrowing (cg_tools g) tools = Inr (cg_tools g')"
  using narrowGrant_parts [OF assms] by (auto simp: narrowOptional_def split: option.splits)

text \<open>
  C32. Narrowing a grant never grows it: when the narrowed tools keep naming the parameters that were bounded,
  the new grant has fewer or equal capabilities, paths, state fields and budget, the same task, phase,
  approvals and policy, and every action it permits was permitted by the grant it narrows.
\<close>
theorem narrowGrant_shrinks:
  assumes n: "narrowGrant H g changes = Inr g'"
    and keys: "\<forall>tool \<in> set (cg_tools g). distinct (boundKeys tool)"
    and keeps: "\<forall>tools. gn_tools changes = Some tools \<longrightarrow> keepsBounds (cg_tools g) tools"
  shows "set (cg_capabilities g') \<subseteq> set (cg_capabilities g) \<and> set (cg_read_paths g') \<subseteq> set (cg_read_paths g)
     \<and> set (cg_write_paths g') \<subseteq> set (cg_write_paths g) \<and> set (cg_state_fields g') \<subseteq> set (cg_state_fields g)
     \<and> gb_steps (cg_budget g') \<le> gb_steps (cg_budget g) \<and> gb_tokens (cg_budget g') \<le> gb_tokens (cg_budget g)
     \<and> cg_task_id g' = cg_task_id g \<and> cg_phase g' = cg_phase g \<and> cg_approval_digests g' = cg_approval_digests g
     \<and> cg_effective_policy_digest g' = cg_effective_policy_digest g
     \<and> (\<forall>action. grantDenialReason H g' action = None \<longrightarrow> grantDenialReason H g action = None)"
proof -
  have budget: "gb_steps (cg_budget g') \<le> gb_steps (cg_budget g) \<and> gb_tokens (cg_budget g') \<le> gb_tokens (cg_budget g)"
    using narrowGrant_budget [OF n] .
  have sets: "set (cg_capabilities g') \<subseteq> set (cg_capabilities g)" "set (cg_read_paths g') \<subseteq> set (cg_read_paths g)"
     "set (cg_write_paths g') \<subseteq> set (cg_write_paths g)" "set (cg_state_fields g') \<subseteq> set (cg_state_fields g)"
    using narrowGrant_sets [OF n] by auto
  have same: "cg_task_id g' = cg_task_id g" "cg_phase g' = cg_phase g" "cg_approval_digests g' = cg_approval_digests g"
     "cg_effective_policy_digest g' = cg_effective_policy_digest g"
    using n by (auto simp: narrowGrant_def Let_def rbind_Inr_iff sealGrant_Inr split: if_splits)
  have tools: "toolDenialReason H (cg_tools g) action r = None" if "toolDenialReason H (cg_tools g') action r = None" for action r
    using narrowGrant_tools [OF n] that keys keeps by (auto intro: assertToolNarrowing_denial split: option.splits)
  have "grantDenialReason H g action = None" if "grantDenialReason H g' action = None" for action
    using that same(2) sets tools isPathWithinScopes_mono [of H _ "the (pa_resource action)"]
    by (auto simp: grantDenialReason_None resourceIn_def split: policy_action_kind.splits option.splits)
  then show ?thesis using budget sets same by blast
qed

end
