(* ===== verification/Live_Blockers.thy ===== *)
theory Live_Blockers
  imports Policy_Grant
begin

text \<open>
  The live blockers of a workflow (\<^verbatim>\<open>runtime/src/workflow/blockers.ts\<close>): display strings are parsed back to typed
  identities, reconciled with the facts of the lifecycle, and printed. The lemmas: the messages of a
  blocker parse back to it, what is live after a reconciliation, and that reconciling again changes nothing.
\<close>

section \<open>Messages\<close>

datatype live_blocker_kind = blocker_approval | blocker_task_run | blocker_finding | blocker_recovery | blocker_other

fun blockerKindText :: "live_blocker_kind \<Rightarrow> string" where
  "blockerKindText blocker_approval = ''approval''"
| "blockerKindText blocker_task_run = ''task_run''"
| "blockerKindText blocker_finding = ''finding''"
| "blockerKindText blocker_recovery = ''recovery''"
| "blockerKindText blocker_other = ''other''"

record live_blocker =
  lb_kind :: live_blocker_kind
  lb_subject_id :: "string option"
  lb_identity :: string
  lb_message :: string
  lb_digest :: string

record live_blocker_reconciliation =
  br_pending_approval_ids :: "string list option"
  br_resolved_approval_ids :: "string list option"
  br_passed_task_ids :: "string list option"
  br_blocking_finding_ids :: "string list option"
  br_inactive_finding_ids :: "string list option"
  br_terminal_iteration :: "bool option"

definition noReconciliation :: live_blocker_reconciliation where
  "noReconciliation = \<lparr>br_pending_approval_ids = None, br_resolved_approval_ids = None, br_passed_task_ids = None,
     br_blocking_finding_ids = None, br_inactive_finding_ids = None, br_terminal_iteration = None\<rparr>"

fun stripPrefix :: "string \<Rightarrow> string \<Rightarrow> string option" where
  "stripPrefix [] s = Some s"
| "stripPrefix (p # ps) [] = None"
| "stripPrefix (p # ps) (c # s) = (if p = c then stripPrefix ps s else None)"

text \<open>A prefix, a run of non-space characters (the group), and what follows it.\<close>

definition subjectAfter :: "string \<Rightarrow> string \<Rightarrow> (string \<times> string) option" where
  "subjectAfter start message =
     (case stripPrefix start message of
        None \<Rightarrow> None
      | Some rest \<Rightarrow>
          let subject = takeWhile (\<lambda>c. \<not> isSpace c) rest in
          if subject = [] then None else Some (subject, dropWhile (\<lambda>c. \<not> isSpace c) rest))"

definition approvalSubject :: "string \<Rightarrow> string option" where
  "approvalSubject message =
     (case subjectAfter ''approval request '' message of
        Some (subject, rest) \<Rightarrow> if rest = '' awaiting a decision'' then Some subject else None
      | None \<Rightarrow> None)"

definition taskRunSubject :: "string \<Rightarrow> string option" where
  "taskRunSubject message =
     (case subjectAfter ''task '' message of
        Some (subject, rest) \<Rightarrow> if stripPrefix '' did not complete:'' rest \<noteq> None then Some subject else None
      | None \<Rightarrow> None)"

definition findingSubject :: "string \<Rightarrow> string option" where
  "findingSubject message =
     (case subjectAfter ''blocking finding '' message of
        Some (subject, rest) \<Rightarrow> if rest = [] then Some subject else None
      | None \<Rightarrow> None)"

definition isRecovery :: "string \<Rightarrow> bool" where
  "isRecovery message \<longleftrightarrow> stripPrefix ''recovered from an interrupted process'' message \<noteq> None"

definition blocker :: "host \<Rightarrow> live_blocker_kind \<Rightarrow> string \<Rightarrow> string option \<Rightarrow> live_blocker" where
  "blocker H kind message subjectId =
     (let identity = (case subjectId of
            None \<Rightarrow> blockerKindText kind @ '':'' @ take 24 (h_sha256 H message)
          | Some s \<Rightarrow> blockerKindText kind @ '':'' @ s)
      in \<lparr>lb_kind = kind, lb_subject_id = subjectId, lb_identity = identity, lb_message = message,
          lb_digest = h_sha256 H (identity @ [CHR 0x0A] @ message)\<rparr>)"

definition parseLegacyBlocker :: "host \<Rightarrow> string \<Rightarrow> live_blocker" where
  "parseLegacyBlocker H message =
     (case approvalSubject message of
        Some s \<Rightarrow> blocker H blocker_approval message (Some s)
      | None \<Rightarrow>
          (case taskRunSubject message of
             Some s \<Rightarrow> blocker H blocker_task_run message (Some s)
           | None \<Rightarrow>
               (case findingSubject message of
                  Some s \<Rightarrow> blocker H blocker_finding message (Some s)
                | None \<Rightarrow>
                    if isRecovery message then blocker H blocker_recovery message None
                    else blocker H blocker_other message None)))"

section \<open>Reconciliation\<close>

definition approvalMessage :: "string \<Rightarrow> string" where
  "approvalMessage requestId = ''approval request '' @ requestId @ '' awaiting a decision''"

definition findingMessage :: "string \<Rightarrow> string" where
  "findingMessage findingId = ''blocking finding '' @ findingId"

text \<open>A parsed blocker that the facts settle.\<close>

definition settled :: "live_blocker_reconciliation \<Rightarrow> live_blocker \<Rightarrow> bool" where
  "settled input candidate \<longleftrightarrow>
     (let pendingApprovals = dedupe (orList (br_pending_approval_ids input)) in
      case (lb_kind candidate, lb_subject_id candidate) of
        (blocker_approval, Some s) \<Rightarrow>
          List.member (orList (br_resolved_approval_ids input)) s \<or> (pendingApprovals \<noteq> [] \<and> \<not> List.member pendingApprovals s)
      | (blocker_task_run, Some s) \<Rightarrow> List.member (orList (br_passed_task_ids input)) s
      | (blocker_finding, Some s) \<Rightarrow> List.member (orList (br_inactive_finding_ids input)) s
      | (blocker_recovery, _) \<Rightarrow> br_terminal_iteration input = Some True
      | _ \<Rightarrow> False)"

definition putLive :: "(string, live_blocker) jmap \<Rightarrow> live_blocker \<Rightarrow> (string, live_blocker) jmap" where
  "putLive live candidate = jm_set (lb_identity candidate) candidate live"

definition reconcileLiveBlockers :: "host \<Rightarrow> string list \<Rightarrow> live_blocker_reconciliation \<Rightarrow> live_blocker list" where
  "reconcileLiveBlockers H messages input =
     (let parsed = filter (\<lambda>candidate. \<not> settled input candidate) (map (parseLegacyBlocker H) messages);
          approvals = map (\<lambda>requestId. blocker H blocker_approval (approvalMessage requestId) (Some requestId))
            (dedupe (orList (br_pending_approval_ids input)));
          findings = map (\<lambda>findingId. blocker H blocker_finding (findingMessage findingId) (Some findingId))
            (filter (\<lambda>findingId. \<not> List.member (orList (br_inactive_finding_ids input)) findingId) (orList (br_blocking_finding_ids input)))
      in sort_key lb_message (map snd (foldl putLive (foldl putLive (foldl putLive [] parsed) approvals) findings)))"

definition liveBlockerMessages :: "host \<Rightarrow> string list \<Rightarrow> live_blocker_reconciliation \<Rightarrow> string list" where
  "liveBlockerMessages H messages input = map lb_message (reconcileLiveBlockers H messages input)"

section \<open>Parsing what was printed\<close>

lemma stripPrefix_append [simp]: "stripPrefix p (p @ s) = Some s"
  by (induction p) simp_all

lemma stripPrefix_Some: "stripPrefix p s = Some r \<longleftrightarrow> s = p @ r"
  by (induction p s rule: stripPrefix.induct) auto

definition spaceFree :: "string \<Rightarrow> bool" where
  "spaceFree s \<longleftrightarrow> s \<noteq> [] \<and> list_all (\<lambda>c. \<not> isSpace c) s"

lemma subjectAfter_append:
  assumes "spaceFree s" "rest = [] \<or> isSpace (hd rest)"
  shows "subjectAfter p (p @ s @ rest) = Some (s, rest)"
proof -
  have "takeWhile (\<lambda>c. \<not> isSpace c) (s @ rest) = s" "dropWhile (\<lambda>c. \<not> isSpace c) (s @ rest) = rest"
    using assms by (cases rest; auto simp: spaceFree_def list_all_iff takeWhile_append dropWhile_append)+
  then show ?thesis using assms(1) by (simp add: subjectAfter_def spaceFree_def)
qed

lemma parse_approvalMessage:
  "spaceFree s \<Longrightarrow> parseLegacyBlocker H (approvalMessage s) = blocker H blocker_approval (approvalMessage s) (Some s)"
  using subjectAfter_append [of s "'' awaiting a decision''" "''approval request ''"]
  by (simp add: parseLegacyBlocker_def approvalSubject_def approvalMessage_def isSpace_def)

lemma parse_findingMessage:
  assumes "spaceFree s"
  shows "parseLegacyBlocker H (findingMessage s) = blocker H blocker_finding (findingMessage s) (Some s)"
proof -
  have "approvalSubject (findingMessage s) = None" "taskRunSubject (findingMessage s) = None"
    by (simp_all add: approvalSubject_def taskRunSubject_def findingMessage_def subjectAfter_def)
  moreover have "findingSubject (findingMessage s) = Some s"
    using subjectAfter_append [OF assms, of "[]" "''blocking finding ''"] by (simp add: findingSubject_def findingMessage_def)
  ultimately show ?thesis by (simp add: parseLegacyBlocker_def)
qed

section \<open>What is live\<close>

definition keyed :: "live_blocker list \<Rightarrow> (string \<times> live_blocker) list" where
  "keyed bs = map (\<lambda>b. (lb_identity b, b)) bs"

lemma foldl_putLive: "map_of (foldl putLive M bs) = map_of M ++ map_of (rev (keyed bs))"
  by (induction bs arbitrary: M) (simp_all add: keyed_def putLive_def update_conv' map_add_def fun_eq_iff split: option.split)

lemma distinct_putLive: "distinct (map fst M) \<Longrightarrow> distinct (map fst (foldl putLive M bs))"
  by (induction bs arbitrary: M) (simp_all add: putLive_def distinct_update)

lemma keyed_append [simp]: "keyed (xs @ ys) = keyed xs @ keyed ys"
  by (simp add: keyed_def)

text \<open>The blockers the facts add.\<close>

definition factBlockers :: "host \<Rightarrow> live_blocker_reconciliation \<Rightarrow> live_blocker list" where
  "factBlockers H input =
     map (\<lambda>requestId. blocker H blocker_approval (approvalMessage requestId) (Some requestId)) (dedupe (orList (br_pending_approval_ids input))) @
     map (\<lambda>findingId. blocker H blocker_finding (findingMessage findingId) (Some findingId))
       (filter (\<lambda>findingId. \<not> List.member (orList (br_inactive_finding_ids input)) findingId) (orList (br_blocking_finding_ids input)))"

definition liveMap :: "host \<Rightarrow> live_blocker list \<Rightarrow> live_blocker_reconciliation \<Rightarrow> (string, live_blocker) jmap" where
  "liveMap H parsed input = foldl putLive [] (filter (\<lambda>b. \<not> settled input b) parsed @ factBlockers H input)"

lemma reconcile_liveMap:
  "reconcileLiveBlockers H messages input = sort_key lb_message (map snd (liveMap H (map (parseLegacyBlocker H) messages) input))"
  by (simp add: reconcileLiveBlockers_def liveMap_def factBlockers_def Let_def)

lemma liveMap_get:
  "map_of (liveMap H parsed input) k =
     (case map_of (rev (keyed (factBlockers H input))) k of
        Some b \<Rightarrow> Some b | None \<Rightarrow> map_of (rev (keyed (filter (\<lambda>b. \<not> settled input b) parsed))) k)"
  unfolding liveMap_def foldl_putLive keyed_append rev_append map_of_append by (simp add: map_add_def split: option.split)

lemma liveMap_distinct: "distinct (map fst (liveMap H parsed input))"
  by (simp add: liveMap_def distinct_putLive)

lemma keyed_mem: "map_of (rev (keyed bs)) k = Some b \<Longrightarrow> b \<in> set bs \<and> lb_identity b = k"
  by (auto simp: keyed_def dest!: map_of_SomeD)

lemma liveMap_identity: "(k, b) \<in> set (liveMap H parsed input) \<Longrightarrow> lb_identity b = k"
  using map_of_is_SomeI [OF liveMap_distinct] by (fastforce simp: liveMap_get dest: keyed_mem split: option.splits)

lemma live_mem:
  "b \<in> set (map snd (liveMap H parsed input)) \<longleftrightarrow> map_of (liveMap H parsed input) (lb_identity b) = Some b"
proof
  assume "b \<in> set (map snd (liveMap H parsed input))"
  then obtain k where "(k, b) \<in> set (liveMap H parsed input)" by auto
  then show "map_of (liveMap H parsed input) (lb_identity b) = Some b"
    using liveMap_identity map_of_is_SomeI [OF liveMap_distinct] by metis
next
  assume "map_of (liveMap H parsed input) (lb_identity b) = Some b"
  then have "snd (lb_identity b, b) \<in> snd ` set (liveMap H parsed input)" by (blast dest: map_of_SomeD)
  then show "b \<in> set (map snd (liveMap H parsed input))" by simp
qed

lemma distinct_live: "distinct (map snd (liveMap H parsed input))"
proof -
  have "map fst (liveMap H parsed input) = map lb_identity (map snd (liveMap H parsed input))"
    using liveMap_identity by (auto intro!: map_cong simp: comp_def)
  then show ?thesis using liveMap_distinct by (metis distinct_map)
qed

text \<open>Every live blocker is the blocker its message parses to.\<close>

definition identifiable :: "live_blocker_reconciliation \<Rightarrow> bool" where
  "identifiable input \<longleftrightarrow> list_all spaceFree (orList (br_pending_approval_ids input)) \<and> list_all spaceFree (orList (br_blocking_finding_ids input))"

lemma blocker_message [simp]: "lb_message (blocker H kind message subjectId) = message"
  by (simp add: blocker_def Let_def)

lemma parse_message [simp]: "lb_message (parseLegacyBlocker H message) = message"
  by (simp add: parseLegacyBlocker_def split: option.split)

lemma live_parses:
  assumes "identifiable input" "b \<in> set (map snd (liveMap H (map (parseLegacyBlocker H) messages) input))"
  shows "parseLegacyBlocker H (lb_message b) = b"
proof -
  have "b \<in> set (factBlockers H input) \<or> b \<in> parseLegacyBlocker H ` set messages"
    using assms(2) unfolding live_mem liveMap_get by (auto dest!: keyed_mem split: option.splits)
  then show ?thesis using assms(1)
    by (auto simp: factBlockers_def identifiable_def list_all_iff parse_approvalMessage parse_findingMessage)
qed

lemma reconcile_idempotent:
  assumes "identifiable input"
  shows "liveBlockerMessages H (liveBlockerMessages H messages input) input = liveBlockerMessages H messages input"
proof -
  let ?first = "liveMap H (map (parseLegacyBlocker H) messages) input"
  let ?live = "sort_key lb_message (map snd ?first)"
  have again: "map (parseLegacyBlocker H) (liveBlockerMessages H messages input) = ?live"
    unfolding liveBlockerMessages_def reconcile_liveMap using live_parses [OF assms] by (auto simp: comp_def intro!: map_idI)
  let ?second = "liveMap H ?live input"
  have "map_of ?second k = map_of ?first k" for k
  proof (cases "map_of (rev (keyed (factBlockers H input))) k")
    case None
    let ?parsed = "filter (\<lambda>b. \<not> settled input b) (map (parseLegacyBlocker H) messages)"
    have first: "map_of ?first k = map_of (rev (keyed ?parsed)) k" by (simp add: liveMap_get None)
    have "map_of (rev (keyed (filter (\<lambda>b. \<not> settled input b) ?live))) k = map_of ?first k"
    proof (cases "map_of ?first k")
      case (Some b)
      then have b: "b \<in> set ?parsed" "lb_identity b = k" using first keyed_mem by metis+
      then have mem: "(k, b) \<in> set (rev (keyed (filter (\<lambda>b. \<not> settled input b) ?live)))"
        using Some live_mem [of b] by (auto simp: keyed_def)
      have "distinct (map lb_identity (map snd ?first))"
        using liveMap_distinct [of H "map (parseLegacyBlocker H) messages" input] liveMap_identity
        by (metis (no_types, lifting) comp_apply list.map_comp map_eq_conv prod.collapse)
      then have "distinct (map lb_identity ?live)" by (metis mset_map mset_sort mset_eq_imp_distinct_iff)
      then have "distinct (map fst (rev (keyed (filter (\<lambda>b. \<not> settled input b) ?live))))"
        by (simp add: keyed_def comp_def rev_map [symmetric] distinct_map_filter)
      then show ?thesis using mem Some by simp
    next
      case None
      have "b \<notin> set ?live" if "lb_identity b = k" for b using that None live_mem [of b] by auto
      then have "map_of (rev (keyed (filter (\<lambda>b. \<not> settled input b) ?live))) k = None"
        unfolding map_of_eq_None_iff by (fastforce simp: keyed_def)
      then show ?thesis using None by simp
    qed
    then show ?thesis by (simp add: liveMap_get [of H ?live] None)
  qed (simp add: liveMap_get)
  then have sets: "set (map snd ?second) = set (map snd ?first)" unfolding set_eq_iff live_mem by simp
  have "mset (map snd ?second) = mset (map snd ?first)"
    using sets set_eq_iff_mset_eq_distinct [OF distinct_live distinct_live] by blast
  moreover have "inj_on lb_message (set (map snd ?second))"
    unfolding sets
  proof (rule inj_onI)
    fix x y
    assume m: "x \<in> set (map snd ?first)" "y \<in> set (map snd ?first)" "lb_message x = lb_message y"
    show "x = y" by (metis live_parses [OF assms m(1)] live_parses [OF assms m(2)] m(3))
  qed
  ultimately have "sort_key lb_message (map snd ?second) = ?live"
    by (intro sort_key_inj_key_eq) simp_all
  then have "map lb_message (reconcileLiveBlockers H (liveBlockerMessages H messages input) input) = map lb_message ?live"
    unfolding reconcile_liveMap [of H "liveBlockerMessages H messages input"] again by simp
  then show ?thesis
    unfolding liveBlockerMessages_def [of H "liveBlockerMessages H messages input"] by (simp add: liveBlockerMessages_def reconcile_liveMap)
qed

end
