(* ===== verification/Working_State.thy ===== *)
theory Working_State
  imports Live_Blockers
begin

text \<open>
  The authoritative working state (\<^verbatim>\<open>runtime/src/workflow/working-state.ts\<close>): its content, the typed proposals that
  change it, and the structural check of a state that is read back. The writer token is an object identity
  and has no counterpart. The lemmas: a proposal keeps the structure of the state and never exceeds the
  budget ceilings.
\<close>

section \<open>The state\<close>

record confirmed_fact =
  cf_fact :: string
  cf_evidence_id :: string

record rejected_hypothesis =
  rh_hypothesis :: string
  rh_evidence_id :: string

record budget_use =
  wb_used_steps :: rat
  wb_used_tokens :: rat
  wb_ceiling_steps :: rat
  wb_ceiling_tokens :: rat

datatype external_action_status = action_pending | action_completed | action_uncertain

fun actionStatusText :: "external_action_status \<Rightarrow> string" where
  "actionStatusText action_pending = ''pending''"
| "actionStatusText action_completed = ''completed''"
| "actionStatusText action_uncertain = ''uncertain''"

record external_action_intent =
  ei_intent_id :: string
  ei_tool :: string
  ei_request_digest :: string
  ei_idempotency_key :: string
  ei_status :: external_action_status

record working_state =
  ws_goal :: string
  ws_baseline_commit :: string
  ws_requirement_baseline_digest :: string
  ws_policy_digest :: string
  ws_phase :: string
  ws_task_id :: "string option"
  ws_previous_checkpoint_id :: "string option"
  ws_confirmed_facts :: "confirmed_fact list"
  ws_rejected_hypotheses :: "rejected_hypothesis list"
  ws_open_questions :: "string list"
  ws_blockers :: "string list"
  ws_next_action :: "string option"
  ws_completed_task_ids :: "string list"
  ws_pending_task_ids :: "string list"
  ws_budget :: budget_use
  ws_capability_grants :: "string list"
  ws_approval_digests :: "string list"
  ws_context_bundle_digest :: "string option"
  ws_context_bundle_digests :: "(string \<times> string) list option"
  ws_input_digests :: "string list"
  ws_external_action_intents :: "external_action_intent list"

record working_state_proposal =
  wp_phase :: "string option"
  wp_task_id :: "string option"
  wp_add_confirmed_facts :: "confirmed_fact list option"
  wp_add_rejected_hypotheses :: "rejected_hypothesis list option"
  wp_add_open_questions :: "string list option"
  wp_add_blockers :: "string list option"
  wp_clear_blockers :: "string list option"
  wp_reconcile_blockers :: "live_blocker_reconciliation option"
  wp_set_next_action :: "string option"
  wp_set_requirement_baseline_digest :: "string option"
  wp_complete_task_ids :: "string list option"
  wp_add_pending_task_ids :: "string list option"
  wp_budget_use :: "(rat option \<times> rat option) option"
  wp_add_capability_grants :: "string list option"
  wp_add_approval_digests :: "string list option"
  wp_set_context_bundle_digest :: "string option"
  wp_set_context_bundle_digests :: "(string \<times> string) list option"
  wp_add_input_digests :: "string list option"
  wp_upsert_external_action_intents :: "external_action_intent list option"

definition emptyProposal :: working_state_proposal where
  "emptyProposal = \<lparr>wp_phase = None, wp_task_id = None, wp_add_confirmed_facts = None, wp_add_rejected_hypotheses = None,
     wp_add_open_questions = None, wp_add_blockers = None, wp_clear_blockers = None, wp_reconcile_blockers = None,
     wp_set_next_action = None, wp_set_requirement_baseline_digest = None, wp_complete_task_ids = None,
     wp_add_pending_task_ids = None, wp_budget_use = None, wp_add_capability_grants = None, wp_add_approval_digests = None,
     wp_set_context_bundle_digest = None, wp_set_context_bundle_digests = None, wp_add_input_digests = None,
     wp_upsert_external_action_intents = None\<rparr>"

section \<open>Applying a proposal\<close>

definition uniqueStrings :: "string list \<Rightarrow> string list" where
  "uniqueStrings xs = dedupe xs"

text \<open>Keep the first element of every key.\<close>

fun uniqueBy :: "('a \<Rightarrow> string) \<Rightarrow> string list \<Rightarrow> 'a list \<Rightarrow> 'a list" where
  "uniqueBy key seen [] = []"
| "uniqueBy key seen (x # xs) = (if List.member seen (key x) then uniqueBy key seen xs else x # uniqueBy key (key x # seen) xs)"

definition uniqueFacts :: "confirmed_fact list \<Rightarrow> confirmed_fact list" where
  "uniqueFacts facts = uniqueBy (\<lambda>fact. cf_fact fact @ cf_evidence_id fact) [] facts"

definition uniqueHypotheses :: "rejected_hypothesis list \<Rightarrow> rejected_hypothesis list" where
  "uniqueHypotheses hypotheses = uniqueBy (\<lambda>hypothesis. rh_hypothesis hypothesis @ rh_evidence_id hypothesis) [] hypotheses"

definition valueOr :: "'a option \<Rightarrow> 'a \<Rightarrow> 'a" where
  "valueOr v d = (case v of None \<Rightarrow> d | Some x \<Rightarrow> x)"

definition keepOr :: "'a option \<Rightarrow> 'a option \<Rightarrow> 'a option" where
  "keepOr proposed current = (case proposed of None \<Rightarrow> current | Some x \<Rightarrow> Some x)"

definition proposedBudget :: "working_state \<Rightarrow> working_state_proposal \<Rightarrow> budget_use" where
  "proposedBudget state proposal = (ws_budget state)\<lparr>
     wb_used_steps := wb_used_steps (ws_budget state) + (case wp_budget_use proposal of None \<Rightarrow> 0 | Some (steps, _) \<Rightarrow> valueOr steps 0),
     wb_used_tokens := wb_used_tokens (ws_budget state) + (case wp_budget_use proposal of None \<Rightarrow> 0 | Some (_, tokens) \<Rightarrow> valueOr tokens 0)\<rparr>"

definition overCeiling :: "budget_use \<Rightarrow> bool" where
  "overCeiling b \<longleftrightarrow> wb_ceiling_steps b < wb_used_steps b \<or> wb_ceiling_tokens b < wb_used_tokens b"

definition proposedCompleted :: "working_state \<Rightarrow> working_state_proposal \<Rightarrow> string list" where
  "proposedCompleted state proposal = dedupe (ws_completed_task_ids state @ orList (wp_complete_task_ids proposal))"

definition proposedPending :: "working_state \<Rightarrow> working_state_proposal \<Rightarrow> string list" where
  "proposedPending state proposal = uniqueStrings (filter (\<lambda>taskId. \<not> List.member (proposedCompleted state proposal) taskId)
     (ws_pending_task_ids state) @ filter (\<lambda>taskId. \<not> List.member (proposedCompleted state proposal) taskId) (orList (wp_add_pending_task_ids proposal)))"

definition proposedIntents :: "working_state \<Rightarrow> working_state_proposal \<Rightarrow> external_action_intent list" where
  "proposedIntents state proposal = map snd (foldl (\<lambda>intents intent. jm_set (ei_intent_id intent) intent intents) []
     (ws_external_action_intents state @ orList (wp_upsert_external_action_intents proposal)))"

definition proposedBlockers :: "host \<Rightarrow> working_state \<Rightarrow> working_state_proposal \<Rightarrow> string list" where
  "proposedBlockers H state proposal = liveBlockerMessages H
     (uniqueStrings (filter (\<lambda>b. \<not> List.member (orList (wp_clear_blockers proposal)) b) (ws_blockers state) @ orList (wp_add_blockers proposal)))
     (valueOr (wp_reconcile_blockers proposal) noReconciliation)"

definition applyWorkingStateProposal :: "host \<Rightarrow> working_state \<Rightarrow> working_state_proposal \<Rightarrow> working_state result" where
  "applyWorkingStateProposal H state proposal =
     (if overCeiling (proposedBudget state proposal) then Inl (WorkingStateError budget_ceiling)
      else Inr (state\<lparr>
        ws_phase := valueOr (wp_phase proposal) (ws_phase state),
        ws_task_id := keepOr (wp_task_id proposal) (ws_task_id state),
        ws_confirmed_facts := uniqueFacts (ws_confirmed_facts state @ orList (wp_add_confirmed_facts proposal)),
        ws_rejected_hypotheses := uniqueHypotheses (ws_rejected_hypotheses state @ orList (wp_add_rejected_hypotheses proposal)),
        ws_open_questions := uniqueStrings (ws_open_questions state @ orList (wp_add_open_questions proposal)),
        ws_blockers := proposedBlockers H state proposal,
        ws_next_action := keepOr (wp_set_next_action proposal) (ws_next_action state),
        ws_requirement_baseline_digest := valueOr (wp_set_requirement_baseline_digest proposal) (ws_requirement_baseline_digest state),
        ws_completed_task_ids := proposedCompleted state proposal,
        ws_pending_task_ids := proposedPending state proposal,
        ws_budget := proposedBudget state proposal,
        ws_capability_grants := uniqueStrings (ws_capability_grants state @ orList (wp_add_capability_grants proposal)),
        ws_approval_digests := uniqueStrings (ws_approval_digests state @ orList (wp_add_approval_digests proposal)),
        ws_context_bundle_digest := keepOr (wp_set_context_bundle_digest proposal) (ws_context_bundle_digest state),
        ws_context_bundle_digests := keepOr (wp_set_context_bundle_digests proposal) (ws_context_bundle_digests state),
        ws_input_digests := uniqueStrings (ws_input_digests state @ orList (wp_add_input_digests proposal)),
        ws_external_action_intents := proposedIntents state proposal\<rparr>))"

section \<open>Reading a state back\<close>

text \<open>The checks that remain once the fields have their types.\<close>

definition isDigestMap :: "(string \<times> string) list \<Rightarrow> bool" where
  "isDigestMap digests \<longleftrightarrow> list_all (\<lambda>(taskId, digest). taskId \<noteq> [] \<and> digestPattern digest) digests"

definition isIntent :: "external_action_intent \<Rightarrow> bool" where
  "isIntent intent \<longleftrightarrow> digestPattern (ei_request_digest intent)"

definition isCount :: "rat \<Rightarrow> bool" where
  "isCount n \<longleftrightarrow> isInteger n \<and> 0 \<le> n"

definition isBudget :: "budget_use \<Rightarrow> bool" where
  "isBudget b \<longleftrightarrow> isCount (wb_used_steps b) \<and> isCount (wb_used_tokens b) \<and> isCount (wb_ceiling_steps b) \<and> isCount (wb_ceiling_tokens b)"

definition isWorkingState :: "working_state \<Rightarrow> bool" where
  "isWorkingState state \<longleftrightarrow>
     ws_goal state \<noteq> [] \<and> 7 \<le> length (ws_baseline_commit state)
     \<and> digestPattern (ws_requirement_baseline_digest state) \<and> digestPattern (ws_policy_digest state) \<and> ws_phase state \<noteq> []
     \<and> isBudget (ws_budget state) \<and> list_all digestPattern (ws_approval_digests state)
     \<and> pred_option digestPattern (ws_context_bundle_digest state) \<and> pred_option isDigestMap (ws_context_bundle_digests state)
     \<and> list_all digestPattern (ws_input_digests state) \<and> list_all isIntent (ws_external_action_intents state)"

definition assertWorkingState :: "working_state \<Rightarrow> unit result" where
  "assertWorkingState state = rguard (isWorkingState state) (WorkingStateError invalid_working_state)"

section \<open>Digests\<close>

definition factJson :: "confirmed_fact \<Rightarrow> json" where
  "factJson f = JObj [(''fact'', JStr (cf_fact f)), (''evidence_id'', JStr (cf_evidence_id f))]"

definition hypothesisJson :: "rejected_hypothesis \<Rightarrow> json" where
  "hypothesisJson h = JObj [(''hypothesis'', JStr (rh_hypothesis h)), (''evidence_id'', JStr (rh_evidence_id h))]"

definition intentJson :: "external_action_intent \<Rightarrow> json" where
  "intentJson i = JObj [(''intent_id'', JStr (ei_intent_id i)), (''tool'', JStr (ei_tool i)), (''request_digest'', JStr (ei_request_digest i)),
     (''idempotency_key'', JStr (ei_idempotency_key i)), (''status'', JStr (actionStatusText (ei_status i)))]"

definition budgetUseJson :: "budget_use \<Rightarrow> json" where
  "budgetUseJson b = JObj [(''used_steps'', JNum (wb_used_steps b)), (''used_tokens'', JNum (wb_used_tokens b)),
     (''ceiling_steps'', JNum (wb_ceiling_steps b)), (''ceiling_tokens'', JNum (wb_ceiling_tokens b))]"

text \<open>The entries of a state apart from its budget.\<close>

definition semanticEntries :: "working_state \<Rightarrow> (string \<times> json) list" where
  "semanticEntries s =
     [(''goal'', JStr (ws_goal s)), (''baseline_commit'', JStr (ws_baseline_commit s)),
      (''requirement_baseline_digest'', JStr (ws_requirement_baseline_digest s)), (''policy_digest'', JStr (ws_policy_digest s)),
      (''phase'', JStr (ws_phase s))] @
     optionalField ''task_id'' (map_option JStr (ws_task_id s)) @
     optionalField ''previous_checkpoint_id'' (map_option JStr (ws_previous_checkpoint_id s)) @
     [(''confirmed_facts'', JArr (map factJson (ws_confirmed_facts s))),
      (''rejected_hypotheses'', JArr (map hypothesisJson (ws_rejected_hypotheses s))),
      (''open_questions'', stringsJson (ws_open_questions s)), (''blockers'', stringsJson (ws_blockers s))] @
     optionalField ''next_action'' (map_option JStr (ws_next_action s)) @
     [(''completed_task_ids'', stringsJson (ws_completed_task_ids s)), (''pending_task_ids'', stringsJson (ws_pending_task_ids s)),
      (''capability_grants'', stringsJson (ws_capability_grants s)), (''approval_digests'', stringsJson (ws_approval_digests s))] @
     optionalField ''context_bundle_digest'' (map_option JStr (ws_context_bundle_digest s)) @
     optionalField ''context_bundle_digests'' (map_option (\<lambda>ds. JObj (map (map_prod id JStr) ds)) (ws_context_bundle_digests s)) @
     [(''input_digests'', stringsJson (ws_input_digests s)),
      (''external_action_intents'', JArr (map intentJson (ws_external_action_intents s)))]"

definition workingStateDigest :: "host \<Rightarrow> working_state \<Rightarrow> string result" where
  "workingStateDigest H s = contentDigest H (JObj ((''budget'', budgetUseJson (ws_budget s)) # semanticEntries s))"

section \<open>What a proposal keeps\<close>

lemma set_uniqueBy: "set (uniqueBy key seen xs) \<subseteq> set xs"
  by (induction xs arbitrary: seen) auto

lemma set_uniqueStrings [simp]: "set (uniqueStrings xs) = set xs" and distinct_uniqueStrings [simp]: "distinct (uniqueStrings xs)"
  by (simp_all add: uniqueStrings_def)

lemma valueOr_simps [simp]: "valueOr None d = d" "valueOr (Some x) d = x"
  by (simp_all add: valueOr_def)

lemma keepOr_simps [simp]: "keepOr None c = c" "keepOr (Some x) c = Some x"
  by (simp_all add: keepOr_def)

lemma valueOr_pred: "pred_option P v \<Longrightarrow> P d \<Longrightarrow> P (valueOr v d)"
  by (cases v) simp_all

lemma keepOr_pred: "pred_option P v \<Longrightarrow> pred_option P c \<Longrightarrow> pred_option P (keepOr v c)"
  by (cases v) simp_all

lemma apply_Inr:
  assumes "applyWorkingStateProposal H state proposal = Inr state'"
  shows "ws_budget state' = proposedBudget state proposal" "\<not> overCeiling (ws_budget state')"
    "ws_goal state' = ws_goal state" "ws_baseline_commit state' = ws_baseline_commit state" "ws_policy_digest state' = ws_policy_digest state"
    "ws_previous_checkpoint_id state' = ws_previous_checkpoint_id state"
    "ws_requirement_baseline_digest state' = valueOr (wp_set_requirement_baseline_digest proposal) (ws_requirement_baseline_digest state)"
    "ws_context_bundle_digests state' = keepOr (wp_set_context_bundle_digests proposal) (ws_context_bundle_digests state)"
    "ws_completed_task_ids state' = proposedCompleted state proposal" "ws_pending_task_ids state' = proposedPending state proposal"
    "ws_phase state' = valueOr (wp_phase proposal) (ws_phase state)"
    "ws_approval_digests state' = uniqueStrings (ws_approval_digests state @ orList (wp_add_approval_digests proposal))"
    "ws_context_bundle_digest state' = keepOr (wp_set_context_bundle_digest proposal) (ws_context_bundle_digest state)"
    "ws_input_digests state' = uniqueStrings (ws_input_digests state @ orList (wp_add_input_digests proposal))"
    "ws_external_action_intents state' = proposedIntents state proposal"
  using assms by (auto simp: applyWorkingStateProposal_def split: if_splits)

lemma apply_ceilings:
  "applyWorkingStateProposal H state proposal = Inr state' \<Longrightarrow>
     wb_ceiling_steps (ws_budget state') = wb_ceiling_steps (ws_budget state) \<and> wb_ceiling_tokens (ws_budget state') = wb_ceiling_tokens (ws_budget state)"
  using apply_Inr(1) by (simp add: proposedBudget_def)

lemma apply_same_budget:
  "applyWorkingStateProposal H state proposal = Inr state' \<Longrightarrow> wp_budget_use proposal = None \<Longrightarrow> ws_budget state' = ws_budget state"
  using apply_Inr(1) by (simp add: proposedBudget_def)

text \<open>A proposal whose values have the shapes the structural check asks for.\<close>

definition shapedProposal :: "working_state_proposal \<Rightarrow> bool" where
  "shapedProposal p \<longleftrightarrow> pred_option (\<lambda>phase. phase \<noteq> []) (wp_phase p) \<and> pred_option digestPattern (wp_set_requirement_baseline_digest p)
     \<and> pred_option (\<lambda>(steps, tokens). pred_option isCount steps \<and> pred_option isCount tokens) (wp_budget_use p)
     \<and> list_all digestPattern (orList (wp_add_approval_digests p)) \<and> pred_option digestPattern (wp_set_context_bundle_digest p)
     \<and> pred_option isDigestMap (wp_set_context_bundle_digests p) \<and> list_all digestPattern (orList (wp_add_input_digests p))
     \<and> list_all isIntent (orList (wp_upsert_external_action_intents p))"

lemma isCount_add: "isCount a \<Longrightarrow> isCount b \<Longrightarrow> isCount (a + b)"
  by (auto simp: isCount_def isInteger_def floor_add)

lemma isBudget_proposed:
  assumes "isBudget (ws_budget s)" "pred_option (\<lambda>(steps, tokens). pred_option isCount steps \<and> pred_option isCount tokens) (wp_budget_use p)"
  shows "isBudget (proposedBudget s p)"
proof -
  have zero: "isCount 0" by (simp add: isCount_def)
  have "isCount (case wp_budget_use p of None \<Rightarrow> 0 | Some (x, _) \<Rightarrow> valueOr x 0)" "isCount (case wp_budget_use p of None \<Rightarrow> 0 | Some (_, x) \<Rightarrow> valueOr x 0)"
    using assms(2) zero by (cases "wp_budget_use p"; auto simp: valueOr_def split: option.splits)+
  then show ?thesis using assms(1) by (simp add: isBudget_def proposedBudget_def isCount_add)
qed

lemma set_proposedIntents: "set (proposedIntents s p) \<subseteq> set (ws_external_action_intents s @ orList (wp_upsert_external_action_intents p))"
proof -
  have "snd ` set (foldl (\<lambda>intents intent. jm_set (ei_intent_id intent) intent intents) M xs) \<subseteq> snd ` set M \<union> set xs"
    for M :: "(string, external_action_intent) jmap" and xs
  proof (induction xs arbitrary: M)
    case (Cons x xs)
    have "snd ` set (jm_set (ei_intent_id x) x M) \<subseteq> insert x (snd ` set M)" by (induction M) auto
    then have "snd ` set (foldl (\<lambda>intents intent. jm_set (ei_intent_id intent) intent intents) (jm_set (ei_intent_id x) x M) xs)
        \<subseteq> insert x (snd ` set M) \<union> set xs"
      using Cons.IH [of "jm_set (ei_intent_id x) x M"] by blast
    then show ?case by simp
  qed simp
  from this [of "[]" "ws_external_action_intents s @ orList (wp_upsert_external_action_intents p)"] show ?thesis
    by (simp add: proposedIntents_def)
qed

lemma apply_shape:
  assumes "isWorkingState s" "shapedProposal p" "applyWorkingStateProposal H s p = Inr s'"
  shows "isWorkingState s'"
proof -
  have "isBudget (ws_budget s')" using assms apply_Inr(1) isBudget_proposed by (simp add: isWorkingState_def shapedProposal_def)
  moreover have "list_all isIntent (proposedIntents s p)"
    using assms(1,2) set_proposedIntents [of s p] by (auto simp: isWorkingState_def shapedProposal_def list_all_iff)
  moreover have "valueOr (wp_phase p) (ws_phase s) \<noteq> []" "digestPattern (valueOr (wp_set_requirement_baseline_digest p) (ws_requirement_baseline_digest s))"
    "pred_option digestPattern (keepOr (wp_set_context_bundle_digest p) (ws_context_bundle_digest s))"
    "pred_option isDigestMap (keepOr (wp_set_context_bundle_digests p) (ws_context_bundle_digests s))"
    using assms(1,2) valueOr_pred [of "\<lambda>phase. phase \<noteq> []" "wp_phase p"] valueOr_pred [of digestPattern]
    unfolding isWorkingState_def shapedProposal_def by (simp_all add: keepOr_pred)
  ultimately show ?thesis using assms(1,2) unfolding isWorkingState_def shapedProposal_def apply_Inr(3-) [OF assms(3)]
    by (simp add: list_all_iff ball_Un)
qed

text \<open>
  C39. The working state keeps its type and its accounts: a proposal of the right shape applied to a state that
  passes the structural check gives a state that passes it, within both budget ceilings, for the same goal,
  baseline and policy, in which no completed task is pending and every completed task stays completed.
\<close>
theorem applyWorkingStateProposal_type:
  assumes "isWorkingState s" "shapedProposal p" "applyWorkingStateProposal H s p = Inr s'"
  shows "isWorkingState s' \<and> \<not> overCeiling (ws_budget s') \<and> ws_goal s' = ws_goal s \<and> ws_baseline_commit s' = ws_baseline_commit s
     \<and> ws_policy_digest s' = ws_policy_digest s \<and> set (ws_pending_task_ids s') \<inter> set (ws_completed_task_ids s') = {}
     \<and> set (ws_completed_task_ids s) \<subseteq> set (ws_completed_task_ids s')"
  using apply_shape [OF assms] apply_Inr [OF assms(3)] by (auto simp: proposedPending_def proposedCompleted_def)

text \<open>Two different confirmed facts whose texts run together are taken for one: the second is lost.\<close>

lemma uniqueFacts_loses:
  "uniqueFacts [\<lparr>cf_fact = ''port 80'', cf_evidence_id = ''80-log''\<rparr>, \<lparr>cf_fact = ''port 8080'', cf_evidence_id = ''-log''\<rparr>]
     = [\<lparr>cf_fact = ''port 80'', cf_evidence_id = ''80-log''\<rparr>]"
  by (simp add: uniqueFacts_def)

section \<open>Example\<close>

definition exampleState :: working_state where
  "exampleState = \<lparr>ws_goal = ''goal'', ws_baseline_commit = ''abcdef0'', ws_requirement_baseline_digest = exampleDigest [], ws_policy_digest = exampleDigest [],
     ws_phase = ''execute'', ws_task_id = None, ws_previous_checkpoint_id = None, ws_confirmed_facts = [], ws_rejected_hypotheses = [],
     ws_open_questions = [], ws_blockers = [], ws_next_action = None, ws_completed_task_ids = [''a''], ws_pending_task_ids = [''b''],
     ws_budget = \<lparr>wb_used_steps = 0, wb_used_tokens = 0, wb_ceiling_steps = 10, wb_ceiling_tokens = 100\<rparr>,
     ws_capability_grants = [], ws_approval_digests = [], ws_context_bundle_digest = None, ws_context_bundle_digests = None,
     ws_input_digests = [], ws_external_action_intents = []\<rparr>"

lemma exampleState_valid: "isWorkingState exampleState"
  by (simp add: isWorkingState_def exampleState_def digestPattern_example isBudget_def isCount_def)

theorem applyWorkingStateProposal_type_witness:
  "\<exists>s'. applyWorkingStateProposal exampleHost exampleState (emptyProposal\<lparr>wp_complete_task_ids := Some [''b'']\<rparr>) = Inr s' \<and> isWorkingState s'
     \<and> \<not> overCeiling (ws_budget s')"
proof -
  let ?p = "emptyProposal\<lparr>wp_complete_task_ids := Some [''b'']\<rparr>"
  have "shapedProposal ?p" by (simp add: shapedProposal_def emptyProposal_def orList_def)
  moreover have "\<not> overCeiling (proposedBudget exampleState ?p)" by (simp add: overCeiling_def proposedBudget_def emptyProposal_def exampleState_def)
  then obtain s' where "applyWorkingStateProposal exampleHost exampleState ?p = Inr s'" by (simp add: applyWorkingStateProposal_def)
  ultimately show ?thesis using applyWorkingStateProposal_type [OF exampleState_valid] by blast
qed

end
