(* ===== verification/Workflow_Resume.thy ===== *)
theory Workflow_Resume
  imports Working_State
begin

text \<open>
  What a resume verifies before it reopens a blocked operation, and how it reconciles the runs that never ended
  (\<^verbatim>\<open>runtime/src/workflow/resume.ts\<close>, \<open>streamTerminalRecord\<close> of \<^verbatim>\<open>operation.ts\<close>). The store holds what is read from
  disk and from the ledger, already parsed: the latest valid checkpoint, the artifacts with the digest of their
  bytes (\<open>None\<close> when reading or verifying one throws), and the record streams of the runs. The records a resume
  writes are taken to pass their schemas. The lemmas: exactly when the checks pass, and that
  every run without a terminal record is closed once and succeeded once.
\<close>

section \<open>What is read\<close>

record run_record_head =
  rh_record_kind :: string
  rh_sequence :: int
  rh_progress_evidence_id :: "string option"

record run_stream =
  sm_run_id :: string
  sm_records :: "run_record_head list"

record resume_store =
  rz_checkpoint :: "working_state option"
  rz_baseline :: string
  rz_approvals :: "(string \<times> json option) list"
  rz_bundles :: "json option list"
  rz_streams :: "run_stream list"
  rz_project_id :: "string option"
  rz_newRun :: "nat \<Rightarrow> string"
  rz_ledger_accepts :: bool

definition artifactField :: "json \<Rightarrow> string \<Rightarrow> json option" where
  "artifactField v key = (case v of JObj es \<Rightarrow> map_of es key | _ \<Rightarrow> None)"

section \<open>Bindings\<close>

definition addDecision :: "(string, json) jmap \<Rightarrow> string \<times> json option \<Rightarrow> (string, json) jmap" where
  "addDecision decisions artifact =
     (case snd artifact of
        None \<Rightarrow> decisions
      | Some parsed \<Rightarrow>
          if artifactField parsed ''record_kind'' = Some (JStr ''approval_decision'') then jm_set (fst artifact) parsed decisions else decisions)"

definition approvalDecisions :: "resume_store \<Rightarrow> (string, json) jmap" where
  "approvalDecisions store = foldl addDecision [] (rz_approvals store)"

definition verifyApprovalBindings :: "resume_store \<Rightarrow> working_state \<Rightarrow> unit result" where
  "verifyApprovalBindings store workingState =
     foldR (\<lambda>_ digest.
       case jm_get (approvalDecisions store) digest of
         None \<Rightarrow> Inl (WorkflowError wf_approval_invalid)
       | Some decision \<Rightarrow> rguard (artifactField decision ''decision'' = Some (JStr ''approve'')) (WorkflowError wf_approval_invalid))
       () (ws_approval_digests workingState)"

definition boundBundles :: "working_state \<Rightarrow> string list" where
  "boundBundles workingState =
     dedupe ((case ws_context_bundle_digest workingState of None \<Rightarrow> [] | Some d \<Rightarrow> [d])
       @ map snd (orList (ws_context_bundle_digests workingState)))"

text \<open>The digest of an artifact that is one of the wanted bundles.\<close>

definition wantedBundle :: "string list \<Rightarrow> json \<Rightarrow> string option" where
  "wantedBundle digests bundle =
     (if artifactField bundle ''record_kind'' \<noteq> Some (JStr ''context_bundle'') then None
      else case artifactField bundle ''digest'' of
        Some (JStr d) \<Rightarrow> if List.member digests d then Some d else None
      | _ \<Rightarrow> None)"

definition scanBundle :: "string list \<Rightarrow> string list \<Rightarrow> json option \<Rightarrow> string list result" where
  "scanBundle digests found artifact =
     (case artifact of
        None \<Rightarrow> Inr found
      | Some bundle \<Rightarrow>
          (case wantedBundle digests bundle of
             None \<Rightarrow> Inr found
           | Some d \<Rightarrow>
               if artifactField bundle ''stale'' = Some (JBool True) then Inl (WorkflowError wf_context_bundle_invalid)
               else Inr (found @ [d])))"

definition verifyContextBundleBinding :: "resume_store \<Rightarrow> working_state \<Rightarrow> unit result" where
  "verifyContextBundleBinding store workingState =
     (let digests = boundBundles workingState in
      if digests = [] then Inr ()
      else rbind (foldR (scanBundle digests) [] (rz_bundles store)) (\<lambda>found.
        rguard (list_all (List.member found) digests) (WorkflowError wf_context_bundle_invalid)))"

section \<open>Runs without an end\<close>

definition streamTerminalRecord :: "run_stream \<Rightarrow> run_record_head option" where
  "streamTerminalRecord stream =
     (case sm_records stream of
        [] \<Rightarrow> None
      | r # rs \<Rightarrow> (let final = last (r # rs) in
          if rh_record_kind final = ''run_terminated'' \<or> rh_record_kind final = ''run_interrupted'' then Some final else None))"

record resumed_run =
  ru_interrupted_run_id :: string
  ru_interrupted_sequence :: int
  ru_partial_evidence_ids :: "string list"
  ru_successor_run_id :: string

definition interruptedSequence :: "run_stream \<Rightarrow> int" where
  "interruptedSequence stream = foldl (\<lambda>maximum r. max maximum (rh_sequence r)) 0 (sm_records stream) + 1"

definition reconcileRun :: "resume_store \<Rightarrow> nat \<times> run_stream \<Rightarrow> resumed_run result" where
  "reconcileRun store entry =
     (case sm_records (snd entry) of
        [] \<Rightarrow> Inl (WorkflowError wf_operation_corrupt)
      | started # _ \<Rightarrow>
          if rh_record_kind started \<noteq> ''run_started'' then Inl (WorkflowError wf_operation_corrupt)
          else Inr \<lparr>ru_interrupted_run_id = sm_run_id (snd entry), ru_interrupted_sequence = interruptedSequence (snd entry),
            ru_partial_evidence_ids = dedupe (List.map_filter (\<lambda>r. if rh_record_kind r = ''run_progress'' then rh_progress_evidence_id r else None)
              (sm_records (snd entry))),
            ru_successor_run_id = rz_newRun store (fst entry)\<rparr>)"

definition openStreams :: "resume_store \<Rightarrow> run_stream list" where
  "openStreams store = filter (\<lambda>stream. streamTerminalRecord stream = None) (rz_streams store)"

section \<open>All checks of a resume\<close>

definition resumeChecks :: "resume_store \<Rightarrow> resumed_run list result" where
  "resumeChecks store =
     (case rz_checkpoint store of
        None \<Rightarrow> Inl (WorkflowError wf_checkpoint_not_found)
      | Some workingState \<Rightarrow>
          rbind (rguard (rz_baseline store = ws_baseline_commit workingState) (WorkflowError wf_baseline_mismatch)) (\<lambda>_.
          rbind (verifyApprovalBindings store workingState) (\<lambda>_.
          rbind (verifyContextBundleBinding store workingState) (\<lambda>_.
          rbind (mapR (reconcileRun store) (enumerate 0 (openStreams store))) (\<lambda>resumedRuns.
          rbind (rguard (rz_project_id store \<noteq> None) (WorkflowError wf_operation_corrupt)) (\<lambda>_.
          rbind (rguard (rz_ledger_accepts store) (WorkflowError wf_ledger_failure)) (\<lambda>_.
          Inr resumedRuns)))))))"

text \<open>When an operation may resume, without the order and the loops of the code.\<close>

definition resumeAllowed :: "resume_store \<Rightarrow> bool" where
  "resumeAllowed store \<longleftrightarrow>
     (\<exists>ws. rz_checkpoint store = Some ws \<and> rz_baseline store = ws_baseline_commit ws
        \<and> (\<forall>d \<in> set (ws_approval_digests ws). \<exists>v. jm_get (approvalDecisions store) d = Some v
             \<and> artifactField v ''decision'' = Some (JStr ''approve''))
        \<and> (\<forall>d \<in> set (boundBundles ws). \<exists>v. Some v \<in> set (rz_bundles store) \<and> wantedBundle [d] v = Some d)
        \<and> (\<forall>d \<in> set (boundBundles ws). \<forall>v. Some v \<in> set (rz_bundles store) \<longrightarrow> wantedBundle [d] v = Some d \<longrightarrow>
             artifactField v ''stale'' \<noteq> Some (JBool True)))
     \<and> (\<forall>s \<in> set (openStreams store). \<exists>r rs. sm_records s = r # rs \<and> rh_record_kind r = ''run_started'')
     \<and> rz_project_id store \<noteq> None \<and> rz_ledger_accepts store"

lemma rguard_ok: "rguard c e = Inr u \<longleftrightarrow> c"
  by (simp add: rguard_def)

lemma verifyApprovals_iff:
  "verifyApprovalBindings store ws = Inr () \<longleftrightarrow> (\<forall>d \<in> set (ws_approval_digests ws). \<exists>v. jm_get (approvalDecisions store) d = Some v
     \<and> artifactField v ''decision'' = Some (JStr ''approve''))"
proof -
  have "foldR (\<lambda>_ digest. case jm_get m digest of None \<Rightarrow> Inl (WorkflowError wf_approval_invalid)
       | Some decision \<Rightarrow> rguard (artifactField decision ''decision'' = Some (JStr ''approve'')) (WorkflowError wf_approval_invalid)) () ds = Inr ()
     \<longleftrightarrow> (\<forall>d \<in> set ds. \<exists>v. jm_get m d = Some v \<and> artifactField v ''decision'' = Some (JStr ''approve''))" for ds and m :: "(string, json) jmap"
    by (induction ds) (auto simp: rbind_Inr_iff rguard_ok split: option.splits)
  then show ?thesis by (simp add: verifyApprovalBindings_def)
qed

lemma wantedBundle_Some:
  "wantedBundle digests v = Some d \<longleftrightarrow> d \<in> set digests \<and> wantedBundle [d] v = Some d"
  by (auto simp: wantedBundle_def split: option.splits json.splits if_splits)

lemma scanBundle_Inr:
  "scanBundle digests found artifact = Inr found' \<longleftrightarrow>
     (case artifact of None \<Rightarrow> found' = found
      | Some v \<Rightarrow> (case wantedBundle digests v of None \<Rightarrow> found' = found
          | Some d \<Rightarrow> artifactField v ''stale'' \<noteq> Some (JBool True) \<and> found' = found @ [d]))"
  by (auto simp: scanBundle_def split: option.splits)

lemma scanBundles_iff:
  "(\<exists>found'. foldR (scanBundle digests) found artifacts = Inr found' \<and> set found' = F) \<longleftrightarrow>
     (\<forall>v d. Some v \<in> set artifacts \<longrightarrow> wantedBundle digests v = Some d \<longrightarrow> artifactField v ''stale'' \<noteq> Some (JBool True))
     \<and> F = set found \<union> {d. \<exists>v. Some v \<in> set artifacts \<and> wantedBundle digests v = Some d}"
proof (induction artifacts arbitrary: found)
  case (Cons artifact artifacts)
  show ?case
  proof (cases "\<exists>v d. artifact = Some v \<and> wantedBundle digests v = Some d")
    case True
    then obtain v d where v: "artifact = Some v" "wantedBundle digests v = Some d" by blast
    show ?thesis using Cons [of "found @ [d]"] v
      by (cases "artifactField v ''stale'' = Some (JBool True)") (auto simp: rbind_Inr_iff scanBundle_Inr)
  next
    case False
    then have "scanBundle digests found artifact = Inr found" by (cases artifact; cases "wantedBundle digests (the artifact)") (auto simp: scanBundle_Inr)
    then show ?thesis using Cons [of found] False by auto
  qed
qed auto

lemma verifyBundles_iff:
  "verifyContextBundleBinding store ws = Inr () \<longleftrightarrow>
     (\<forall>d \<in> set (boundBundles ws). \<exists>v. Some v \<in> set (rz_bundles store) \<and> wantedBundle [d] v = Some d)
     \<and> (\<forall>d \<in> set (boundBundles ws). \<forall>v. Some v \<in> set (rz_bundles store) \<longrightarrow> wantedBundle [d] v = Some d \<longrightarrow>
          artifactField v ''stale'' \<noteq> Some (JBool True))"
proof (cases "boundBundles ws = []")
  case False
  let ?ds = "boundBundles ws" and ?F = "{d. \<exists>v. Some v \<in> set (rz_bundles store) \<and> wantedBundle (boundBundles ws) v = Some d}"
  have "verifyContextBundleBinding store ws = Inr () \<longleftrightarrow> (\<exists>found. foldR (scanBundle ?ds) [] (rz_bundles store) = Inr found \<and> set ?ds \<subseteq> set found)"
    using False by (auto simp: verifyContextBundleBinding_def Let_def rbind_Inr_iff rguard_ok list_all_iff)
  also have "\<dots> \<longleftrightarrow> (\<exists>F. (\<exists>found. foldR (scanBundle ?ds) [] (rz_bundles store) = Inr found \<and> set found = F) \<and> set ?ds \<subseteq> F)" by blast
  also have "\<dots> \<longleftrightarrow> (\<forall>v d. Some v \<in> set (rz_bundles store) \<longrightarrow> wantedBundle ?ds v = Some d \<longrightarrow> artifactField v ''stale'' \<noteq> Some (JBool True)) \<and> set ?ds \<subseteq> ?F"
    unfolding scanBundles_iff by simp
  finally show ?thesis using wantedBundle_Some [of ?ds] by (auto simp: subset_iff)
qed (simp add: verifyContextBundleBinding_def)

lemma reconcileRun_ok: "(\<exists>r. reconcileRun store entry = Inr r) \<longleftrightarrow> (\<exists>r rs. sm_records (snd entry) = r # rs \<and> rh_record_kind r = ''run_started'')"
  by (auto simp: reconcileRun_def split: list.splits)

text \<open>The checks pass exactly when the operation may resume.\<close>

lemma resumeChecks_iff: "(\<exists>runs. resumeChecks store = Inr runs) \<longleftrightarrow> resumeAllowed store"
proof -
  have runs: "(\<exists>runs. mapR (reconcileRun store) (enumerate 0 (openStreams store)) = Inr runs) \<longleftrightarrow>
      (\<forall>s \<in> set (openStreams store). \<exists>r rs. sm_records s = r # rs \<and> rh_record_kind r = ''run_started'')"
  proof -
    have "set (openStreams store) = snd ` set (enumerate 0 (openStreams store))" by (metis map_snd_enumerate set_map)
    then show ?thesis by (simp only: mapR_exists reconcileRun_ok ball_simps)
  qed
  show ?thesis
  proof (cases "rz_checkpoint store")
    case None
    then show ?thesis by (simp add: resumeChecks_def resumeAllowed_def)
  next
    case (Some ws)
    have "(\<exists>runs. resumeChecks store = Inr runs) \<longleftrightarrow> rz_baseline store = ws_baseline_commit ws \<and> verifyApprovalBindings store ws = Inr ()
        \<and> verifyContextBundleBinding store ws = Inr () \<and> (\<exists>runs. mapR (reconcileRun store) (enumerate 0 (openStreams store)) = Inr runs)
        \<and> rz_project_id store \<noteq> None \<and> rz_ledger_accepts store"
      using Some by (auto simp: resumeChecks_def rbind_Inr_iff rguard_ok)
    then show ?thesis using Some unfolding runs verifyApprovals_iff verifyBundles_iff resumeAllowed_def by auto
  qed
qed

lemma foldl_max_ge: "x \<in> set xs \<Longrightarrow> rh_sequence x \<le> foldl (\<lambda>m r. max m (rh_sequence r)) n xs"
proof -
  have base: "n \<le> foldl (\<lambda>m r. max m (rh_sequence r)) n xs" for n xs
  proof (induction xs arbitrary: n)
    case (Cons y ys)
    show ?case using Cons [of "max n (rh_sequence y)"] by simp
  qed simp
  show "x \<in> set xs \<Longrightarrow> ?thesis"
  proof (induction xs arbitrary: n)
    case (Cons y ys)
    then show ?case using base [of "max n (rh_sequence y)" ys] by (cases "x = y") auto
  qed simp
qed

text \<open>A resume closes every open run once, behind all of its records, and no other, and gives each one successor.\<close>

lemma resumeChecks_runs:
  assumes "resumeChecks store = Inr runs"
  shows "map ru_interrupted_run_id runs = map sm_run_id (openStreams store)"
    "map ru_successor_run_id runs = map (rz_newRun store) [0..<length (openStreams store)]"
    "i < length runs \<Longrightarrow> r \<in> set (sm_records (openStreams store ! i)) \<Longrightarrow> rh_sequence r < ru_interrupted_sequence (runs ! i)"
proof -
  have m: "mapR (reconcileRun store) (enumerate 0 (openStreams store)) = Inr runs"
    using assms by (auto simp: resumeChecks_def rbind_Inr_iff split: option.splits)
  note all = m [unfolded mapR_Inr_iff list_all2_conv_all_nth]
  have n: "length runs = length (openStreams store)" using all by simp
  have step: "reconcileRun store (i, openStreams store ! i) = Inr (runs ! i)" if "i < length runs" for i
    using all that by (simp add: nth_enumerate_eq)
  have each: "ru_interrupted_run_id (runs ! i) = sm_run_id (openStreams store ! i)" "ru_successor_run_id (runs ! i) = rz_newRun store i"
    "ru_interrupted_sequence (runs ! i) = interruptedSequence (openStreams store ! i)" if i: "i < length runs" for i
  proof -
    obtain ids where "runs ! i = \<lparr>ru_interrupted_run_id = sm_run_id (openStreams store ! i),
        ru_interrupted_sequence = interruptedSequence (openStreams store ! i), ru_partial_evidence_ids = ids, ru_successor_run_id = rz_newRun store i\<rparr>"
      using step [OF i, symmetric] by (cases "sm_records (openStreams store ! i)") (auto simp: reconcileRun_def split: if_splits)
    then show "ru_interrupted_run_id (runs ! i) = sm_run_id (openStreams store ! i)" "ru_successor_run_id (runs ! i) = rz_newRun store i"
      "ru_interrupted_sequence (runs ! i) = interruptedSequence (openStreams store ! i)" by simp_all
  qed
  show "map ru_interrupted_run_id runs = map sm_run_id (openStreams store)"
    "map ru_successor_run_id runs = map (rz_newRun store) [0..<length (openStreams store)]"
    using each n by (auto intro!: nth_equalityI)
  assume "i < length runs" "r \<in> set (sm_records (openStreams store ! i))"
  then show "rh_sequence r < ru_interrupted_sequence (runs ! i)"
    using each(3) foldl_max_ge [of r "sm_records (openStreams store ! i)" 0] by (simp add: interruptedSequence_def)
qed

end
