(* ===== verification/Workflow_State.thy ===== *)
theory Workflow_State
  imports Workflow_Resume
begin

text \<open>
  The workflow state machine (\<^verbatim>\<open>runtime/src/workflow/state-machine.ts\<close>, the state tables of
  \<^verbatim>\<open>core/src/schema/operation.ts\<close>) and the transitions the workflow engine commits with it
  (\<^verbatim>\<open>runtime/src/workflow/operation.ts\<close>, \<^verbatim>\<open>resume.ts\<close>), as steps on the state and the saved
  resume state of an operation record. A resume runs all the checks of \<open>Workflow_Resume\<close> on what it reads. The commits
  of the other transitions, the checkpoints they write and the events are not modelled.
\<close>

section \<open>States\<close>

datatype operation_state =
    op_created | op_awaiting_input | op_awaiting_approval | op_planned | op_running | op_verifying
  | op_repairing | op_blocked | op_completed | op_aborted

datatype iteration_state =
    it_draft | it_planned | it_running | it_verifying | it_blocked | it_completed | it_aborted

datatype recoverable_block_reason =
    missing_input | block_awaiting_approval | stale_evidence | uncertain_external_action
  | repairable_gate_failure | block_budget_ceiling | transient_environment_failure | git_drift

datatype abort_reason = abort_user_cancellation | policy_violation | schema_validation_failure

definition resumableOperationStates :: "operation_state list" where
  "resumableOperationStates = [op_created, op_awaiting_input, op_awaiting_approval, op_planned, op_running, op_verifying, op_repairing]"

fun iterationStateForOperation :: "operation_state \<Rightarrow> iteration_state" where
  "iterationStateForOperation op_created = it_draft"
| "iterationStateForOperation op_awaiting_input = it_draft"
| "iterationStateForOperation op_awaiting_approval = it_draft"
| "iterationStateForOperation op_planned = it_planned"
| "iterationStateForOperation op_running = it_running"
| "iterationStateForOperation op_verifying = it_verifying"
| "iterationStateForOperation op_repairing = it_running"
| "iterationStateForOperation op_blocked = it_blocked"
| "iterationStateForOperation op_completed = it_completed"
| "iterationStateForOperation op_aborted = it_aborted"

section \<open>Operation transitions\<close>

definition isTerminalOperationState :: "operation_state \<Rightarrow> bool" where
  "isTerminalOperationState state \<longleftrightarrow> state = op_completed \<or> state = op_aborted"

definition isResumableOperationState :: "operation_state \<Rightarrow> bool" where
  "isResumableOperationState state \<longleftrightarrow> List.member resumableOperationStates state"

definition operationChain :: "operation_state list" where
  "operationChain = [op_created, op_awaiting_input, op_awaiting_approval, op_planned, op_running, op_verifying, op_completed]"

text \<open>\<^verbatim>\<open>Array.prototype.indexOf\<close>, with \<^verbatim>\<open>-1\<close> for an absent element.\<close>

fun indexOf :: "'a list \<Rightarrow> 'a \<Rightarrow> int" where
  "indexOf [] x = -1"
| "indexOf (y # ys) x = (if x = y then 0 else let i = indexOf ys x in if i = -1 then -1 else i + 1)"

definition canTransitionOperation :: "operation_state \<Rightarrow> operation_state \<Rightarrow> bool" where
  "canTransitionOperation from to_state \<longleftrightarrow>
     (if from = to_state \<or> isTerminalOperationState from \<or> from = op_blocked then False
      else if to_state = op_blocked \<or> to_state = op_aborted then True
      else if from = op_repairing then to_state = op_running
      else if to_state = op_repairing then from = op_running \<or> from = op_verifying
      else if to_state = op_completed then from = op_verifying
      else 0 \<le> indexOf operationChain from \<and> indexOf operationChain from < indexOf operationChain to_state)"

definition assertOperationTransition :: "operation_state \<Rightarrow> operation_state \<Rightarrow> unit result" where
  "assertOperationTransition from to_state =
     (if \<not> canTransitionOperation from to_state then Inl InvalidStateTransition else Inr ())"

definition blockTargetFor :: "operation_state \<Rightarrow> recoverable_block_reason \<Rightarrow> (operation_state \<times> operation_state) result" where
  "blockTargetFor current reason =
     (if \<not> isResumableOperationState current then Inl InvalidStateTransition else Inr (op_blocked, current))"

definition resumeTargetFor :: "operation_state \<Rightarrow> operation_state option \<Rightarrow> operation_state result" where
  "resumeTargetFor current resumeState =
     (case resumeState of
        None \<Rightarrow> Inl InvalidStateTransition
      | Some state \<Rightarrow> if current \<noteq> op_blocked then Inl InvalidStateTransition else Inr state)"

definition abortTargetFor :: "operation_state \<Rightarrow> abort_reason \<Rightarrow> operation_state result" where
  "abortTargetFor current reason =
     (if isTerminalOperationState current then Inl InvalidStateTransition else Inr op_aborted)"

section \<open>Iteration transitions\<close>

definition isTerminalIterationState :: "iteration_state \<Rightarrow> bool" where
  "isTerminalIterationState state \<longleftrightarrow> state = it_completed \<or> state = it_aborted"

definition iterationChain :: "iteration_state list" where
  "iterationChain = [it_draft, it_planned, it_running, it_verifying, it_completed]"

definition canTransitionIteration :: "iteration_state \<Rightarrow> iteration_state \<Rightarrow> bool" where
  "canTransitionIteration from to_state \<longleftrightarrow>
     (if from = to_state \<or> isTerminalIterationState from then False
      else if to_state = it_blocked \<or> to_state = it_aborted then True
      else if from = it_blocked then to_state \<noteq> it_completed
      else if to_state = it_completed then from = it_verifying
      else 0 \<le> indexOf iterationChain from \<and> indexOf iterationChain from < indexOf iterationChain to_state)"

definition assertIterationTransition :: "iteration_state \<Rightarrow> iteration_state \<Rightarrow> unit result" where
  "assertIterationTransition from to_state =
     (if \<not> canTransitionIteration from to_state then Inl InvalidStateTransition else Inr ())"

definition iterationActiveOrder :: "iteration_state list" where
  "iterationActiveOrder = [it_draft, it_planned, it_running, it_verifying]"

definition moreActive :: "iteration_state \<Rightarrow> operation_state \<Rightarrow> iteration_state" where
  "moreActive aggregate state =
     (if state = op_completed then aggregate
      else let mapped = iterationStateForOperation state in
        if indexOf iterationActiveOrder aggregate < indexOf iterationActiveOrder mapped then mapped else aggregate)"

definition aggregateIterationState :: "operation_state list \<Rightarrow> iteration_state" where
  "aggregateIterationState states =
     (if states = [] then it_draft
      else if list_all (\<lambda>state. state = op_completed) states then it_completed
      else if list_ex (\<lambda>state. state = op_blocked) states then it_blocked
      else if list_ex (\<lambda>state. state = op_aborted) states then it_aborted
      else foldl moreActive it_draft states)"

section \<open>The engine\<close>

record workflow_operation =
  wo_state :: operation_state
  wo_resume_state :: "operation_state option"

definition startOperation :: workflow_operation where
  "startOperation = \<lparr>wo_state = op_created, wo_resume_state = None\<rparr>"

definition advanceOperation :: "workflow_operation \<Rightarrow> operation_state \<Rightarrow> workflow_operation result" where
  "advanceOperation current to_state =
     (if to_state = op_blocked \<or> to_state = op_aborted then Inl InvalidStateTransition
      else rbind (assertOperationTransition (wo_state current) to_state) (\<lambda>_.
        Inr \<lparr>wo_state = to_state, wo_resume_state = None\<rparr>))"

definition blockOperation :: "workflow_operation \<Rightarrow> recoverable_block_reason \<Rightarrow> workflow_operation result" where
  "blockOperation current reason =
     rbind (blockTargetFor (wo_state current) reason) (\<lambda>(state, resume).
     Inr \<lparr>wo_state = state, wo_resume_state = Some resume\<rparr>)"

definition abortOperation :: "workflow_operation \<Rightarrow> abort_reason \<Rightarrow> workflow_operation result" where
  "abortOperation current reason =
     rbind (abortTargetFor (wo_state current) reason) (\<lambda>_.
     Inr \<lparr>wo_state = op_aborted, wo_resume_state = None\<rparr>)"

definition resumeOperation :: "resume_store \<Rightarrow> workflow_operation \<Rightarrow> (workflow_operation \<times> resumed_run list) result" where
  "resumeOperation store current =
     (if wo_state current = op_completed \<or> wo_state current = op_aborted then Inl (WorkflowError wf_operation_terminal)
      else rbind (resumeTargetFor (wo_state current) (wo_resume_state current)) (\<lambda>state.
        rbind (resumeChecks store) (\<lambda>resumedRuns.
        Inr (\<lparr>wo_state = state, wo_resume_state = None\<rparr>, resumedRuns))))"

text \<open>The steps of the engine, where a resume may find any of the given stores.\<close>

inductive workflowStep :: "resume_store set \<Rightarrow> workflow_operation \<Rightarrow> workflow_operation \<Rightarrow> bool" for stores :: "resume_store set" where
  advance: "advanceOperation op to_state = Inr op' \<Longrightarrow> workflowStep stores op op'"
| block: "blockOperation op reason = Inr op' \<Longrightarrow> workflowStep stores op op'"
| abort: "abortOperation op reason = Inr op' \<Longrightarrow> workflowStep stores op op'"
| resume: "store \<in> stores \<Longrightarrow> resumeOperation store op = Inr (op', runs) \<Longrightarrow> workflowStep stores op op'"

inductive_cases workflowStepE: "workflowStep stores op op'"

lemmas workflow_defs = advanceOperation_def blockOperation_def abortOperation_def resumeOperation_def
  assertOperationTransition_def blockTargetFor_def abortTargetFor_def resumeTargetFor_def rbind_Inr_iff

lemma resumable_iff: "isResumableOperationState s \<longleftrightarrow> s \<noteq> op_blocked \<and> \<not> isTerminalOperationState s"
  by (cases s) (simp_all add: isResumableOperationState_def resumableOperationStates_def isTerminalOperationState_def)

lemma canTransition_target:
  "canTransitionOperation s t \<Longrightarrow> isResumableOperationState s"
  "canTransitionOperation s op_completed \<Longrightarrow> s = op_verifying"
  by (auto simp: canTransitionOperation_def resumable_iff split: if_splits)

text \<open>The schema of a persisted operation: a resume state exactly while blocked, and one that can be resumed.\<close>

definition operationSchema :: "workflow_operation \<Rightarrow> bool" where
  "operationSchema op \<longleftrightarrow>
     (case wo_resume_state op of
        None \<Rightarrow> wo_state op \<noteq> op_blocked
      | Some state \<Rightarrow> wo_state op = op_blocked \<and> isResumableOperationState state)"

lemma step_schema: "workflowStep stores op op' \<Longrightarrow> operationSchema op \<Longrightarrow> operationSchema op'"
  by (erule workflowStepE) (auto simp: workflow_defs operationSchema_def resumable_iff isTerminalOperationState_def
      split: if_splits option.splits)

lemma reachable_schema: "(workflowStep stores)\<^sup>*\<^sup>* startOperation op \<Longrightarrow> operationSchema op"
  by (induction rule: rtranclp_induct) (auto simp: startOperation_def operationSchema_def intro: step_schema [unfolded operationSchema_def])

text \<open>
  C23. Whatever the engine does, a persisted operation satisfies its schema, it is completed only out of
  verification, a terminal operation never moves again, and resuming a blocked operation returns it to
  the state it was blocked in, or fails with the error of the first of the resume checks that does not hold.
\<close>
theorem workflow_safe:
  assumes "(workflowStep stores)\<^sup>*\<^sup>* startOperation op"
  shows "operationSchema op
     \<and> (\<forall>op'. workflowStep stores op op' \<longrightarrow> \<not> isTerminalOperationState (wo_state op)
          \<and> (wo_state op' = op_completed \<longrightarrow> wo_state op = op_verifying))
     \<and> (\<forall>reason op'. blockOperation op reason = Inr op' \<longrightarrow> (\<forall>store.
          resumeOperation store op' = (case resumeChecks store of Inl e \<Rightarrow> Inl e | Inr runs \<Rightarrow> Inr (op, runs))))"
proof (intro conjI allI impI)
  show schema: "operationSchema op" using reachable_schema [OF assms] .
  show "\<not> isTerminalOperationState (wo_state op)" if "workflowStep stores op op'" for op'
    using that schema by (cases rule: workflowStep.cases)
      (auto simp: workflow_defs operationSchema_def resumable_iff isTerminalOperationState_def
        dest: canTransition_target split: if_splits option.splits)
  show "wo_state op = op_verifying" if "workflowStep stores op op'" "wo_state op' = op_completed" for op'
    using that schema by (cases rule: workflowStep.cases)
      (auto simp: workflow_defs operationSchema_def resumable_iff isTerminalOperationState_def
        dest: canTransition_target split: if_splits option.splits)
  show "resumeOperation store op' = (case resumeChecks store of Inl e \<Rightarrow> Inl e | Inr runs \<Rightarrow> Inr (op, runs))"
    if "blockOperation op reason = Inr op'" for reason op' store
    using that schema by (cases op; cases "resumeChecks store")
      (auto simp: workflow_defs operationSchema_def resumable_iff split: option.splits if_splits)
qed

lemma advance_step:
  assumes "canTransitionOperation (wo_state op) t" "t \<noteq> op_blocked" "t \<noteq> op_aborted"
  shows "workflowStep stores op \<lparr>wo_state = t, wo_resume_state = None\<rparr>"
  using assms by (intro workflowStep.advance [of _ t]) (simp add: advanceOperation_def assertOperationTransition_def)

lemma verifying_completes:
  assumes "(workflowStep stores)\<^sup>*\<^sup>* op v" "wo_state v = op_verifying"
  shows "\<exists>final. (workflowStep stores)\<^sup>*\<^sup>* op final \<and> wo_state final = op_completed"
proof -
  have "workflowStep stores v \<lparr>wo_state = op_completed, wo_resume_state = None\<rparr>"
    using assms(2) by (intro advance_step) (simp_all add: canTransitionOperation_def isTerminalOperationState_def)
  then show ?thesis using assms(1) by (intro exI [of _ "\<lparr>wo_state = op_completed, wo_resume_state = None\<rparr>"]) auto
qed

lemma resumable_completes:
  assumes "isResumableOperationState (wo_state op)"
  shows "\<exists>final. (workflowStep stores)\<^sup>*\<^sup>* op final \<and> wo_state final = op_completed"
proof -
  let ?run = "\<lparr>wo_state = op_running, wo_resume_state = None\<rparr>" and ?verify = "\<lparr>wo_state = op_verifying, wo_resume_state = None\<rparr>"
  have run: "workflowStep stores ?run ?verify"
    by (rule advance_step) (simp_all add: canTransitionOperation_def isTerminalOperationState_def operationChain_def)
  consider "wo_state op = op_verifying" | "wo_state op = op_repairing" | "canTransitionOperation (wo_state op) op_verifying"
    using assms by (cases "wo_state op") (simp_all add: resumable_iff canTransitionOperation_def isTerminalOperationState_def operationChain_def)
  then show ?thesis
  proof cases
    case 1
    then show ?thesis by (intro verifying_completes [of _ op op]) simp_all
  next
    case 2
    then have "workflowStep stores op ?run" by (intro advance_step) (simp_all add: canTransitionOperation_def isTerminalOperationState_def)
    then show ?thesis using run by (intro verifying_completes [of _ op ?verify]) auto
  next
    case 3
    then have "workflowStep stores op ?verify" by (rule advance_step) simp_all
    then show ?thesis by (intro verifying_completes [of _ op ?verify]) auto
  qed
qed

text \<open>
  C24. No dead ends but for what a resume verifies. Every operation the engine reaches that is not terminal can be
  aborted at once. One that is not blocked can still be completed, without any resume. One that is blocked can be completed
  through a resume on a store that may resume (a valid checkpoint, an undrifted baseline, approvals that still approve,
  context bundles that are there and not stale, runs that can be reconciled, a project binding and a ledger that takes the
  commit), and on any other store it can only be aborted. Advancing, blocking and aborting are taken up to the ledger commit
  that ends them: when that commit throws, the operation stays as it was and the step has not been made.
\<close>
theorem workflow_can_finish:
  assumes "(workflowStep stores)\<^sup>*\<^sup>* startOperation op" "\<not> isTerminalOperationState (wo_state op)"
  shows "(\<exists>op'. abortOperation op reason = Inr op' \<and> wo_state op' = op_aborted)
     \<and> (wo_state op \<noteq> op_blocked \<longrightarrow> (\<exists>final. (workflowStep {})\<^sup>*\<^sup>* op final \<and> wo_state final = op_completed))
     \<and> (wo_state op = op_blocked \<longrightarrow> (if resumeAllowed store
          then \<exists>final. (workflowStep {store})\<^sup>*\<^sup>* op final \<and> wo_state final = op_completed
          else \<forall>op'. workflowStep {store} op op' \<longrightarrow> wo_state op' = op_aborted))"
proof (intro conjI impI)
  show "\<exists>op'. abortOperation op reason = Inr op' \<and> wo_state op' = op_aborted"
    using assms(2) by (simp add: abortOperation_def abortTargetFor_def)
  show "\<exists>final. (workflowStep {})\<^sup>*\<^sup>* op final \<and> wo_state final = op_completed" if "wo_state op \<noteq> op_blocked"
    using that assms(2) resumable_completes by (simp add: resumable_iff)
  assume blocked: "wo_state op = op_blocked"
  then obtain s where s: "wo_resume_state op = Some s" "isResumableOperationState s"
    using reachable_schema [OF assms(1)] by (auto simp: operationSchema_def split: option.splits)
  show "if resumeAllowed store then \<exists>final. (workflowStep {store})\<^sup>*\<^sup>* op final \<and> wo_state final = op_completed
      else \<forall>op'. workflowStep {store} op op' \<longrightarrow> wo_state op' = op_aborted"
  proof (cases "resumeAllowed store")
    case True
    then obtain runs where runs: "resumeChecks store = Inr runs" using resumeChecks_iff by blast
    let ?op' = "\<lparr>wo_state = s, wo_resume_state = None\<rparr>"
    have "workflowStep {store} op ?op'" using blocked s runs by (intro workflowStep.resume [of store]) (simp_all add: workflow_defs)
    then show ?thesis using resumable_completes [of ?op' "{store}"] s(2) True by (auto intro: converse_rtranclp_into_rtranclp)
  next
    case False
    then have no: "resumeChecks store \<noteq> Inr runs" for runs using resumeChecks_iff by blast
    have "wo_state op' = op_aborted" if "workflowStep {store} op op'" for op'
      using that blocked no by (cases rule: workflowStep.cases)
        (auto simp: workflow_defs resumable_iff canTransitionOperation_def split: if_splits option.splits)
    then show ?thesis using False by simp
  qed
qed

text \<open>A store that may resume: a checkpoint on the current baseline that binds nothing else.\<close>

definition freshStore :: resume_store where
  "freshStore = \<lparr>rz_checkpoint = Some \<lparr>ws_goal = ''g'', ws_baseline_commit = ''c'', ws_requirement_baseline_digest = [], ws_policy_digest = [],
      ws_phase = ''build'', ws_task_id = None, ws_previous_checkpoint_id = None, ws_confirmed_facts = [], ws_rejected_hypotheses = [],
      ws_open_questions = [], ws_blockers = [], ws_next_action = None, ws_completed_task_ids = [], ws_pending_task_ids = [],
      ws_budget = \<lparr>wb_used_steps = 0, wb_used_tokens = 0, wb_ceiling_steps = 1, wb_ceiling_tokens = 1\<rparr>, ws_capability_grants = [],
      ws_approval_digests = [], ws_context_bundle_digest = None, ws_context_bundle_digests = None, ws_input_digests = [],
      ws_external_action_intents = []\<rparr>,
    rz_baseline = ''c'', rz_approvals = [], rz_bundles = [], rz_streams = [], rz_project_id = Some ''p'', rz_newRun = (\<lambda>_. ''run''),
    rz_ledger_accepts = True\<rparr>"

theorem workflow_safe_witness:
  "operationSchema startOperation \<and> (\<exists>op'. workflowStep {freshStore} startOperation op' \<and> \<not> isTerminalOperationState (wo_state startOperation))"
proof -
  have "workflowStep {freshStore} startOperation \<lparr>wo_state = op_planned, wo_resume_state = None\<rparr>"
    by (rule advance_step) (simp_all add: startOperation_def canTransitionOperation_def isTerminalOperationState_def operationChain_def)
  then show ?thesis using workflow_safe [of "{freshStore}" startOperation] by blast
qed

theorem workflow_can_finish_witness:
  "\<exists>op final. blockOperation startOperation git_drift = Inr op \<and> (workflowStep {freshStore})\<^sup>*\<^sup>* op final \<and> wo_state final = op_completed"
proof -
  let ?op = "\<lparr>wo_state = op_blocked, wo_resume_state = Some op_created\<rparr>"
  have block: "blockOperation startOperation git_drift = Inr ?op"
    by (simp add: blockOperation_def blockTargetFor_def startOperation_def resumable_iff isTerminalOperationState_def)
  have reach: "(workflowStep {freshStore})\<^sup>*\<^sup>* startOperation ?op" using workflowStep.block [OF block] by blast
  have "resumeAllowed freshStore"
    by (simp add: resumeAllowed_def freshStore_def boundBundles_def dedupe_def orList_def openStreams_def)
  then have "\<exists>final. (workflowStep {freshStore})\<^sup>*\<^sup>* ?op final \<and> wo_state final = op_completed"
    using workflow_can_finish [OF reach, of _ freshStore] by (simp add: isTerminalOperationState_def)
  then show ?thesis using block by blast
qed

section \<open>Operations and iterations\<close>

text \<open>
  The iteration follows its operation: every legal operation transition keeps the mapped iteration
  state or moves it along a legal iteration transition, and so does resuming a blocked operation. The one
  exception is repair after verification: it moves the mapped state back from \<open>verifying\<close> to \<open>running\<close>,
  which the iteration rules reject.
\<close>
theorem operation_refines_iteration:
  "(canTransitionOperation s t \<longrightarrow>
      iterationStateForOperation s = iterationStateForOperation t
      \<or> (canTransitionIteration (iterationStateForOperation s) (iterationStateForOperation t) \<longleftrightarrow>
           \<not> (s = op_verifying \<and> t = op_repairing)))
   \<and> (isResumableOperationState r \<longrightarrow>
        canTransitionIteration it_blocked (iterationStateForOperation r))"
proof
  show "canTransitionOperation s t \<longrightarrow>
      iterationStateForOperation s = iterationStateForOperation t
      \<or> (canTransitionIteration (iterationStateForOperation s) (iterationStateForOperation t) \<longleftrightarrow>
           \<not> (s = op_verifying \<and> t = op_repairing))"
    by (cases s; cases t) (simp_all add: canTransitionOperation_def canTransitionIteration_def isTerminalOperationState_def
        isTerminalIterationState_def operationChain_def iterationChain_def)
  show "isResumableOperationState r \<longrightarrow> canTransitionIteration it_blocked (iterationStateForOperation r)"
    by (cases r) (simp_all add: resumable_iff canTransitionIteration_def isTerminalOperationState_def isTerminalIterationState_def)
qed

theorem operation_refines_iteration_witness:
  "canTransitionIteration (iterationStateForOperation op_planned) (iterationStateForOperation op_running)
   \<and> \<not> canTransitionIteration (iterationStateForOperation op_verifying) (iterationStateForOperation op_repairing)"
proof -
  have "canTransitionOperation op_planned op_running" "canTransitionOperation op_verifying op_repairing"
    by (simp_all add: canTransitionOperation_def isTerminalOperationState_def operationChain_def)
  then show ?thesis
    using operation_refines_iteration [of op_planned op_running op_planned]
      operation_refines_iteration [of op_verifying op_repairing op_planned] by simp
qed

text \<open>The fold keeps the most advanced mapped state of the operations still active.\<close>

abbreviation activity :: "iteration_state \<Rightarrow> int" where
  "activity \<equiv> indexOf iterationActiveOrder"

lemma activity_simps [simp]:
  "activity it_draft = 0" "activity it_planned = 1" "activity it_running = 2" "activity it_verifying = 3"
  "activity it_blocked = -1" "activity it_completed = -1" "activity it_aborted = -1"
  by (simp_all add: iterationActiveOrder_def)

lemma activity_inj: "0 \<le> activity i \<Longrightarrow> activity i = activity j \<Longrightarrow> i = j"
  by (cases i; cases j) simp_all

lemma moreActive_activity:
  "activity (moreActive a s) = max (activity a) (if s = op_completed then activity a else activity (iterationStateForOperation s))"
  by (simp add: moreActive_def Let_def)

lemma Max_insert_max: "finite S \<Longrightarrow> Max (insert (max x y) S) = Max (insert x (insert y S))"
  by (cases "S = {}") (simp_all add: max.assoc)

lemma foldl_moreActive:
  "activity (foldl moreActive a states) =
     Max (insert (activity a) ((\<lambda>s. activity (iterationStateForOperation s)) ` (set states - {op_completed})))"
proof (induction states arbitrary: a)
  case (Cons s states)
  let ?f = "\<lambda>s. activity (iterationStateForOperation s)"
  have fin: "finite (?f ` (set states - {op_completed}))" by simp
  show ?case
  proof (cases "s = op_completed")
    case True
    then show ?thesis using Cons [of a] by (simp add: moreActive_def)
  next
    case False
    have "activity (foldl moreActive a (s # states))
        = Max (insert (max (activity a) (?f s)) (?f ` (set states - {op_completed})))"
      using Cons [of "moreActive a s"] False by (simp add: moreActive_activity)
    also have "\<dots> = Max (insert (activity a) (insert (?f s) (?f ` (set states - {op_completed}))))"
      using fin by (rule Max_insert_max)
    finally show ?thesis using False by (simp add: insert_Diff_if)
  qed
qed simp

text \<open>
  The state of an iteration depends only on which states its operations are in: completed when all
  are, else blocked when one is, else aborted when one is, else the most advanced delivery state among
  the operations that are not completed; without operations it is a draft.
\<close>
theorem aggregateIterationState_spec:
  "(aggregateIterationState states = it_completed \<longleftrightarrow> states \<noteq> [] \<and> set states = {op_completed})
   \<and> (aggregateIterationState states = it_blocked \<longleftrightarrow> op_blocked \<in> set states)
   \<and> (aggregateIterationState states = it_aborted \<longleftrightarrow> op_aborted \<in> set states \<and> op_blocked \<notin> set states)
   \<and> (set states \<inter> {op_blocked, op_aborted} = {} \<and> set states \<noteq> {op_completed} \<longrightarrow>
        activity (aggregateIterationState states) =
          Max (insert 0 ((\<lambda>s. activity (iterationStateForOperation s)) ` (set states - {op_completed}))))"
proof -
  let ?fold = "foldl moreActive it_draft states"
  have fold: "activity ?fold = Max (insert 0 ((\<lambda>s. activity (iterationStateForOperation s)) ` (set states - {op_completed})))"
    using foldl_moreActive [of it_draft states] by (simp only: activity_simps)
  then have "0 \<le> activity ?fold" by (simp only: Max_ge finite_insert finite_imageI finite_Diff finite_set insertI1)
  then have live: "?fold \<noteq> it_completed" "?fold \<noteq> it_blocked" "?fold \<noteq> it_aborted"
    by (intro notI; simp only: activity_simps; simp)+
  have all: "list_all (\<lambda>s. s = op_completed) states \<and> states \<noteq> [] \<longleftrightarrow> set states = {op_completed}"
  proof
    assume "list_all (\<lambda>s. s = op_completed) states \<and> states \<noteq> []"
    then have "set states \<subseteq> {op_completed}" "set states \<noteq> {}" by (auto simp: list_all_iff)
    then show "set states = {op_completed}" by (simp add: subset_singleton_iff)
  next
    assume eq: "set states = {op_completed}"
    show "list_all (\<lambda>s. s = op_completed) states \<and> states \<noteq> []"
      unfolding list_all_iff eq using eq by (metis insert_not_empty set_empty singletonD)
  qed
  consider "states = []" | "set states = {op_completed}" "states \<noteq> []"
    | "states \<noteq> []" "\<not> list_all (\<lambda>s. s = op_completed) states" "set states \<noteq> {op_completed}"
    using all by blast
  then show ?thesis
  proof cases
    case 3
    then show ?thesis using live fold by (auto simp: aggregateIterationState_def list_ex_iff)
  qed (simp_all add: aggregateIterationState_def list_all_iff)
qed

theorem aggregateIterationState_spec_witness:
  "activity (aggregateIterationState [op_completed, op_repairing, op_planned]) = 2"
  using aggregateIterationState_spec [of "[op_completed, op_repairing, op_planned]"] by (simp add: insert_Diff_if)

end
