(* ===== verification/Impact_Propagation.thy ===== *)
theory Impact_Propagation
  imports Canonical_Json
begin

text \<open>
  Relation-aware impact propagation (\<^verbatim>\<open>graph/src/impact/propagation.ts\<close>): breadth-first search from a
  change seed over the relations a policy admits. The theorem: it reaches exactly the nodes within the
  policy's depth, each with a shortest explanation path. Confidences are rationals.
\<close>

section \<open>Rules and records\<close>

datatype risk_level = risk_low | risk_medium | risk_high

datatype propagation_direction = dir_forward | dir_inverse | dir_both

datatype edge_status = edge_proposed | edge_accepted | edge_rejected | edge_superseded

record edge_record =
  ed_id :: string
  ed_type :: string
  ed_source_id :: string
  ed_target_id :: string
  ed_status :: edge_status
  ed_confidence :: rat

record propagation_rule =
  pr_type :: string
  pr_direction :: propagation_direction
  pr_defaultRisk :: risk_level
  pr_allowsInference :: bool

definition propagationRule :: "string \<Rightarrow> propagation_direction \<Rightarrow> risk_level \<Rightarrow> bool \<Rightarrow> propagation_rule" where
  "propagationRule type direction risk inference =
     \<lparr>pr_type = type, pr_direction = direction, pr_defaultRisk = risk, pr_allowsInference = inference\<rparr>"

definition PROPAGATION_RULES :: "propagation_rule list" where
  "PROPAGATION_RULES =
     [propagationRule ''REFUTES'' dir_forward risk_high False,
      propagationRule ''VIOLATES'' dir_forward risk_high False,
      propagationRule ''BLOCKS'' dir_forward risk_high False,
      propagationRule ''VERIFIES'' dir_both risk_medium True,
      propagationRule ''ADDRESSES'' dir_inverse risk_medium True,
      propagationRule ''SHAPES'' dir_forward risk_medium True,
      propagationRule ''SPECIFIES'' dir_both risk_high False,
      propagationRule ''REALIZES'' dir_inverse risk_high True,
      propagationRule ''IMPLEMENTS'' dir_inverse risk_medium True,
      propagationRule ''DECOMPOSES_TO'' dir_forward risk_medium False,
      propagationRule ''CONSTRAINED_BY'' dir_both risk_high False,
      propagationRule ''GOVERNED_BY'' dir_both risk_high False,
      propagationRule ''DEPENDS_ON'' dir_both risk_low False,
      propagationRule ''DERIVES_FROM'' dir_inverse risk_medium False,
      propagationRule ''SUPERSEDES'' dir_forward risk_low False,
      propagationRule ''DIAGNOSED_BY'' dir_forward risk_low False,
      propagationRule ''PROPOSES_CHANGE_TO'' dir_forward risk_medium False,
      propagationRule ''MAY_IMPACT'' dir_forward risk_low True]"

definition MAX_PROPAGATION_DEPTH :: rat where
  "MAX_PROPAGATION_DEPTH = 10"

record propagation_policy =
  pp_rules :: "propagation_rule list"
  pp_maxDepth :: rat

definition DEFAULT_PROPAGATION_POLICY :: propagation_policy where
  "DEFAULT_PROPAGATION_POLICY = \<lparr>pp_rules = PROPAGATION_RULES, pp_maxDepth = 6\<rparr>"

record impact_path_step =
  st_edgeId :: string
  st_relation :: string
  st_fromNodeId :: string
  st_toNodeId :: string
  st_relationRisk :: risk_level
  st_inferred :: bool
  st_confidence :: rat

record propagation_reach =
  re_nodeId :: string
  re_path :: "impact_path_step list"

section \<open>Traversal\<close>

definition rulesByType :: "propagation_rule list \<Rightarrow> string \<Rightarrow> propagation_rule option" where
  "rulesByType rules = map_of (rev (map (\<lambda>rule. (pr_type rule, rule)) rules))"

text \<open>The bucket of a node: an edge between known nodes is pushed once for each endpoint.\<close>

definition edgesByEndpoint :: "string list \<Rightarrow> edge_record list \<Rightarrow> string \<Rightarrow> edge_record list" where
  "edgesByEndpoint nodeIds edges nodeId =
     concat (map (\<lambda>edge. (if ed_source_id edge = nodeId then [edge] else []) @ (if ed_target_id edge = nodeId then [edge] else []))
       (filter (\<lambda>edge. List.member nodeIds (ed_source_id edge) \<and> List.member nodeIds (ed_target_id edge)) edges))"

record traversable_edge =
  te_edge :: edge_record
  te_rule :: propagation_rule
  te_peerId :: string

definition traverse :: "propagation_rule list \<Rightarrow> string \<Rightarrow> edge_record \<Rightarrow> traversable_edge option" where
  "traverse rules nodeId edge =
     (case rulesByType rules (ed_type edge) of
        None \<Rightarrow> None
      | Some rule \<Rightarrow>
          if ed_status edge = edge_rejected \<or> ed_status edge = edge_superseded then None
          else if ed_status edge = edge_proposed \<and> \<not> pr_allowsInference rule then None
          else
            (let isSource = (ed_source_id edge = nodeId) in
             if pr_direction rule = dir_forward \<and> \<not> isSource then None
             else if pr_direction rule = dir_inverse \<and> isSource then None
             else Some \<lparr>te_edge = edge, te_rule = rule, te_peerId = (if isSource then ed_target_id edge else ed_source_id edge)\<rparr>))"

text \<open>
  The comparator by edge id never returns 0, so the order of two edges with the same id is left to the
  sorting algorithm; here it is stable.
\<close>

definition traversableEdges :: "propagation_rule list \<Rightarrow> string list \<Rightarrow> edge_record list \<Rightarrow> string \<Rightarrow> traversable_edge list" where
  "traversableEdges rules nodeIds edges nodeId =
     sort_key (\<lambda>t. ed_id (te_edge t)) (List.map_filter (traverse rules nodeId) (edgesByEndpoint nodeIds edges nodeId))"

type_synonym reach_map = "(string, impact_path_step list) jmap"

definition stepOf :: "string \<Rightarrow> traversable_edge \<Rightarrow> impact_path_step" where
  "stepOf nodeId t =
     \<lparr>st_edgeId = ed_id (te_edge t), st_relation = ed_type (te_edge t), st_fromNodeId = nodeId, st_toNodeId = te_peerId t,
      st_relationRisk = pr_defaultRisk (te_rule t),
      st_inferred = (ed_status (te_edge t) = edge_proposed \<or> ed_confidence (te_edge t) < 1),
      st_confidence = ed_confidence (te_edge t)\<rparr>"

definition expandEdge :: "string \<Rightarrow> impact_path_step list \<Rightarrow> reach_map \<times> string list \<Rightarrow> traversable_edge \<Rightarrow> reach_map \<times> string list" where
  "expandEdge nodeId parentPath s t =
     (case s of (reach, queue) \<Rightarrow>
        if jm_get reach (te_peerId t) \<noteq> None then (reach, queue)
        else (jm_set (te_peerId t) (parentPath @ [stepOf nodeId t]) reach, queue @ [te_peerId t]))"

text \<open>A frontier node is always in the map, so the cast of its entry never meets an absent value.\<close>

definition expandNode :: "propagation_rule list \<Rightarrow> string list \<Rightarrow> edge_record list \<Rightarrow> reach_map \<times> string list \<Rightarrow> string
    \<Rightarrow> reach_map \<times> string list" where
  "expandNode rules nodeIds edges s nodeId =
     (case jm_get (fst s) nodeId of
        None \<Rightarrow> s
      | Some parentPath \<Rightarrow> foldl (expandEdge nodeId parentPath) s (traversableEdges rules nodeIds edges nodeId))"

definition expandLevel :: "propagation_rule list \<Rightarrow> string list \<Rightarrow> edge_record list \<Rightarrow> reach_map \<Rightarrow> string list
    \<Rightarrow> reach_map \<times> string list" where
  "expandLevel rules nodeIds edges reach frontier = foldl (expandNode rules nodeIds edges) (reach, []) (sort frontier)"

fun propagateLevels :: "propagation_rule list \<Rightarrow> string list \<Rightarrow> edge_record list \<Rightarrow> nat \<Rightarrow> reach_map \<Rightarrow> string list \<Rightarrow> reach_map" where
  "propagateLevels rules nodeIds edges 0 reach frontier = reach"
| "propagateLevels rules nodeIds edges (Suc depth) reach frontier =
     (if frontier = [] then reach
      else case expandLevel rules nodeIds edges reach frontier of
        (reach', queue) \<Rightarrow> propagateLevels rules nodeIds edges depth reach' queue)"

definition propagateImpact :: "string \<Rightarrow> string list \<Rightarrow> edge_record list \<Rightarrow> propagation_policy \<Rightarrow> propagation_reach list result" where
  "propagateImpact seedNodeId nodeIds edges policy =
     (if \<not> isInteger (pp_maxDepth policy) \<or> pp_maxDepth policy < 1 \<or> MAX_PROPAGATION_DEPTH < pp_maxDepth policy
      then Inl ImpactError
      else if \<not> List.member nodeIds seedNodeId then Inl ImpactError
      else Inr (map (\<lambda>(nodeId, path). \<lparr>re_nodeId = nodeId, re_path = path\<rparr>)
        (sort_key fst (propagateLevels (pp_rules policy) nodeIds edges (nat \<lfloor>pp_maxDepth policy\<rfloor>)
          [(seedNodeId, [])] [seedNodeId]))))"

section \<open>One level\<close>

text \<open>One hop of the traversal, and the walks it makes.\<close>

definition hop :: "propagation_rule list \<Rightarrow> string list \<Rightarrow> edge_record list \<Rightarrow> string \<Rightarrow> string \<Rightarrow> bool" where
  "hop rules nodeIds edges n m \<longleftrightarrow> m \<in> te_peerId ` set (traversableEdges rules nodeIds edges n)"

lemma foldl_expandEdge:
  assumes "foldl (expandEdge nodeId parentPath) (reach, queue) ts = (reach', queue')"
  shows "\<exists>added. queue' = queue @ added \<and> distinct added \<and> set added = te_peerId ` set ts - dom (jm_get reach)
     \<and> dom (jm_get reach') = dom (jm_get reach) \<union> te_peerId ` set ts
     \<and> (\<forall>k \<in> dom (jm_get reach). jm_get reach' k = jm_get reach k)
     \<and> (\<forall>k \<in> set added. \<exists>t \<in> set ts. te_peerId t = k \<and> jm_get reach' k = Some (parentPath @ [stepOf nodeId t]))"
  using assms
proof (induction ts arbitrary: reach queue)
  case (Cons t ts)
  show ?case
  proof (cases "jm_get reach (te_peerId t)")
    case None
    let ?reach = "jm_set (te_peerId t) (parentPath @ [stepOf nodeId t]) reach"
    have get: "jm_get ?reach = (jm_get reach)(te_peerId t \<mapsto> parentPath @ [stepOf nodeId t])" by (rule update_conv')
    have "expandEdge nodeId parentPath (reach, queue) t = (?reach, queue @ [te_peerId t])" using None by (simp add: expandEdge_def)
    then have fold: "foldl (expandEdge nodeId parentPath) (?reach, queue @ [te_peerId t]) ts = (reach', queue')"
      using Cons.prems by simp
    obtain added where a: "queue' = (queue @ [te_peerId t]) @ added" "distinct added"
      "set added = te_peerId ` set ts - dom (jm_get ?reach)" "dom (jm_get reach') = dom (jm_get ?reach) \<union> te_peerId ` set ts"
      "\<forall>k \<in> dom (jm_get ?reach). jm_get reach' k = jm_get ?reach k"
      "\<forall>k \<in> set added. \<exists>t \<in> set ts. te_peerId t = k \<and> jm_get reach' k = Some (parentPath @ [stepOf nodeId t])"
      using Cons.IH [OF fold] by blast
    have new: "te_peerId t \<notin> dom (jm_get reach)" using None by auto
    have dom: "dom (jm_get ?reach) = insert (te_peerId t) (dom (jm_get reach))" unfolding get dom_fun_upd by simp
    show ?thesis
    proof (intro exI [of _ "te_peerId t # added"] conjI)
      show "\<forall>k \<in> dom (jm_get reach). jm_get reach' k = jm_get reach k"
      proof
        fix k assume k: "k \<in> dom (jm_get reach)"
        then have "k \<noteq> te_peerId t" "k \<in> dom (jm_get ?reach)" using new by (auto simp: dom_update)
        then show "jm_get reach' k = jm_get reach k" using a(5) by (simp add: get)
      qed
      show "\<forall>k \<in> set (te_peerId t # added). \<exists>u \<in> set (t # ts). te_peerId u = k \<and> jm_get reach' k = Some (parentPath @ [stepOf nodeId u])"
      proof -
        have "te_peerId t \<in> dom (jm_get ?reach)" by (auto simp: dom_update)
        then have "jm_get reach' (te_peerId t) = Some (parentPath @ [stepOf nodeId t])" using a(5) by (simp add: get)
        then show ?thesis using a(6) by auto
      qed
    qed (use a(1-4) [unfolded dom] new in auto)
  next
    case (Some p)
    then have "expandEdge nodeId parentPath (reach, queue) t = (reach, queue)" by (simp add: expandEdge_def)
    then have fold: "foldl (expandEdge nodeId parentPath) (reach, queue) ts = (reach', queue')"
      using Cons.prems by simp
    have "te_peerId t \<in> dom (jm_get reach)" using Some by blast
    then show ?thesis using Cons.IH [OF fold] by (simp add: insert_absorb insert_Diff_if Un_insert_left) blast
  qed
qed auto

lemma foldl_expandNode:
  assumes "foldl (expandNode rules nodeIds edges) (reach, queue) ns = (reach', queue')" "set ns \<subseteq> dom (jm_get reach)"
  shows "\<exists>added. queue' = queue @ added \<and> set added = {m. \<exists>n \<in> set ns. hop rules nodeIds edges n m} - dom (jm_get reach)
     \<and> dom (jm_get reach') = dom (jm_get reach) \<union> {m. \<exists>n \<in> set ns. hop rules nodeIds edges n m}
     \<and> (\<forall>k \<in> dom (jm_get reach). jm_get reach' k = jm_get reach k)
     \<and> (\<forall>k \<in> set added. \<exists>n \<in> set ns. \<exists>p t. jm_get reach n = Some p \<and> t \<in> set (traversableEdges rules nodeIds edges n)
          \<and> te_peerId t = k \<and> jm_get reach' k = Some (p @ [stepOf n t]))"
  using assms
proof (induction ns arbitrary: reach queue)
  case (Cons n ns)
  then obtain p where p: "jm_get reach n = Some p" by auto
  obtain r1 q1 where step: "foldl (expandEdge n p) (reach, queue) (traversableEdges rules nodeIds edges n) = (r1, q1)"
    by fastforce
  then have "expandNode rules nodeIds edges (reach, queue) n = (r1, q1)" using p by (simp add: expandNode_def)
  then have rest: "foldl (expandNode rules nodeIds edges) (r1, q1) ns = (reach', queue')"
    using Cons.prems(1) by simp
  have peers: "te_peerId ` set (traversableEdges rules nodeIds edges n) = {m. hop rules nodeIds edges n m}"
    by (auto simp: hop_def)
  obtain a1 where a1: "q1 = queue @ a1" "set a1 = {m. hop rules nodeIds edges n m} - dom (jm_get reach)"
    "dom (jm_get r1) = dom (jm_get reach) \<union> {m. hop rules nodeIds edges n m}"
    "\<forall>k \<in> dom (jm_get reach). jm_get r1 k = jm_get reach k"
    "\<forall>k \<in> set a1. \<exists>t \<in> set (traversableEdges rules nodeIds edges n). te_peerId t = k \<and> jm_get r1 k = Some (p @ [stepOf n t])"
    using foldl_expandEdge [OF step] unfolding peers by blast
  have "set ns \<subseteq> dom (jm_get r1)" using Cons.prems(2) a1(3) by auto
  from Cons.IH [OF rest this] obtain a2 where a2: "queue' = q1 @ a2"
    "set a2 = {m. \<exists>n \<in> set ns. hop rules nodeIds edges n m} - dom (jm_get r1)"
    "dom (jm_get reach') = dom (jm_get r1) \<union> {m. \<exists>n \<in> set ns. hop rules nodeIds edges n m}"
    "\<forall>k \<in> dom (jm_get r1). jm_get reach' k = jm_get r1 k"
    "\<forall>k \<in> set a2. \<exists>n \<in> set ns. \<exists>p t. jm_get r1 n = Some p \<and> t \<in> set (traversableEdges rules nodeIds edges n)
        \<and> te_peerId t = k \<and> jm_get reach' k = Some (p @ [stepOf n t])"
    by blast
  show ?case
  proof (intro exI [of _ "a1 @ a2"] conjI)
    show "set (a1 @ a2) = {m. \<exists>n \<in> set (n # ns). hop rules nodeIds edges n m} - dom (jm_get reach)"
      using a1(2,3) a2(2) by auto
    show "dom (jm_get reach') = dom (jm_get reach) \<union> {m. \<exists>n \<in> set (n # ns). hop rules nodeIds edges n m}"
      using a1(3) a2(3) by auto
    show "\<forall>k \<in> dom (jm_get reach). jm_get reach' k = jm_get reach k" using a1(3,4) a2(4) by auto
    have same: "jm_get r1 m = jm_get reach m" if "m \<in> set ns" for m using that Cons.prems(2) a1(4) by auto
    show "\<forall>k \<in> set (a1 @ a2). \<exists>m \<in> set (n # ns). \<exists>p t. jm_get reach m = Some p \<and> t \<in> set (traversableEdges rules nodeIds edges m)
          \<and> te_peerId t = k \<and> jm_get reach' k = Some (p @ [stepOf m t])"
    proof
      fix k assume "k \<in> set (a1 @ a2)"
      then consider "k \<in> set a1" | "k \<in> set a2" by auto
      then show "\<exists>m \<in> set (n # ns). \<exists>p t. jm_get reach m = Some p \<and> t \<in> set (traversableEdges rules nodeIds edges m)
          \<and> te_peerId t = k \<and> jm_get reach' k = Some (p @ [stepOf m t])"
      proof cases
        case 1
        then obtain t where "t \<in> set (traversableEdges rules nodeIds edges n)" "te_peerId t = k" "jm_get r1 k = Some (p @ [stepOf n t])"
          using a1(5) by blast
        moreover from this have "jm_get reach' k = jm_get r1 k" using a2(4) by blast
        ultimately show ?thesis using p by (intro bexI [of _ n] exI [of _ p] exI [of _ t]) auto
      next
        case 2
        then show ?thesis using a2(5) same by (metis list.set_intros(2))
      qed
    qed
  qed (use a1(1) a2(1) in simp)
qed auto

section \<open>Shortest explanation paths\<close>

text \<open>A path explains a node when its steps are traversable edges that lead from the seed to the node.\<close>

fun explains :: "propagation_rule list \<Rightarrow> string list \<Rightarrow> edge_record list \<Rightarrow> string \<Rightarrow> impact_path_step list \<Rightarrow> string \<Rightarrow> bool" where
  "explains rules nodeIds edges seed [] n \<longleftrightarrow> n = seed"
| "explains rules nodeIds edges seed (s # ss) n \<longleftrightarrow>
     (\<exists>t \<in> set (traversableEdges rules nodeIds edges seed). s = stepOf seed t \<and> explains rules nodeIds edges (te_peerId t) ss n)"

lemma explains_snoc:
  "explains rules nodeIds edges seed p n \<Longrightarrow> t \<in> set (traversableEdges rules nodeIds edges n) \<Longrightarrow>
     explains rules nodeIds edges seed (p @ [stepOf n t]) (te_peerId t)"
  by (induction p arbitrary: seed) auto

lemma explains_walk: "explains rules nodeIds edges seed p n \<Longrightarrow> (hop rules nodeIds edges ^^ length p) seed n"
proof (induction p arbitrary: seed)
  case (Cons s p)
  then obtain t where "t \<in> set (traversableEdges rules nodeIds edges seed)" "explains rules nodeIds edges (te_peerId t) p n" by auto
  then have "hop rules nodeIds edges seed (te_peerId t)" "(hop rules nodeIds edges ^^ length p) (te_peerId t) n"
    using Cons.IH by (simp add: hop_def, simp)
  then show ?case unfolding list.size by (metis add_0_right add_Suc_right relpowp_Suc_I2)
qed simp

abbreviation reachableIn :: "propagation_rule list \<Rightarrow> string list \<Rightarrow> edge_record list \<Rightarrow> string \<Rightarrow> nat \<Rightarrow> string \<Rightarrow> bool" where
  "reachableIn rules nodeIds edges seed d n \<equiv> \<exists>k \<le> d. (hop rules nodeIds edges ^^ k) seed n"

definition levelInv :: "propagation_rule list \<Rightarrow> string list \<Rightarrow> edge_record list \<Rightarrow> string \<Rightarrow> nat \<Rightarrow> reach_map \<Rightarrow> string list \<Rightarrow> bool" where
  "levelInv rules nodeIds edges seed d reach frontier \<longleftrightarrow>
     (\<forall>n. n \<in> dom (jm_get reach) \<longleftrightarrow> reachableIn rules nodeIds edges seed d n)
     \<and> (\<forall>n. n \<in> set frontier \<longleftrightarrow> (hop rules nodeIds edges ^^ d) seed n \<and> (\<forall>k < d. \<not> (hop rules nodeIds edges ^^ k) seed n))
     \<and> (\<forall>n p. jm_get reach n = Some p \<longrightarrow> explains rules nodeIds edges seed p n
          \<and> (\<forall>k < length p. \<not> (hop rules nodeIds edges ^^ k) seed n))"

lemma level_step:
  assumes inv: "levelInv rules nodeIds edges seed d reach frontier"
    and step: "expandLevel rules nodeIds edges reach frontier = (reach', queue)"
  shows "levelInv rules nodeIds edges seed (Suc d) reach' queue"
proof -
  let ?hop = "hop rules nodeIds edges" and ?hops = "{m. \<exists>n \<in> set frontier. hop rules nodeIds edges n m}"
  have dom: "n \<in> dom (jm_get reach) \<longleftrightarrow> (\<exists>k \<le> d. (?hop ^^ k) seed n)" for n using inv by (simp add: levelInv_def)
  have front: "n \<in> set frontier \<longleftrightarrow> (?hop ^^ d) seed n \<and> (\<forall>k < d. \<not> (?hop ^^ k) seed n)" for n
    using inv by (simp add: levelInv_def)
  have path: "explains rules nodeIds edges seed p n \<and> (\<forall>k < length p. \<not> (?hop ^^ k) seed n)" if "jm_get reach n = Some p" for n p
    using inv that by (simp add: levelInv_def)
  have "set (sort frontier) \<subseteq> dom (jm_get reach)"
  proof
    fix n assume "n \<in> set (sort frontier)"
    then have "(?hop ^^ d) seed n" using front by simp
    then show "n \<in> dom (jm_get reach)" using dom by blast
  qed
  from foldl_expandNode [OF step [unfolded expandLevel_def] this]
  have e: "set queue = ?hops - dom (jm_get reach)" "dom (jm_get reach') = dom (jm_get reach) \<union> ?hops"
    "\<forall>k \<in> dom (jm_get reach). jm_get reach' k = jm_get reach k"
    "\<forall>k \<in> set queue. \<exists>n \<in> set frontier. \<exists>p t. jm_get reach n = Some p \<and> t \<in> set (traversableEdges rules nodeIds edges n)
        \<and> te_peerId t = k \<and> jm_get reach' k = Some (p @ [stepOf n t])"
    by auto
  have walk: "(?hop ^^ Suc d) seed m" if "m \<in> ?hops" for m
    using that front by (auto intro: relpowp_Suc_I)
  have covered: "m \<in> dom (jm_get reach) \<or> m \<in> ?hops" if hopm: "(?hop ^^ Suc d) seed m" for m
  proof -
    from hopm obtain n where n: "(?hop ^^ d) seed n" "?hop n m" by (auto elim: relpowp_Suc_E)
    show ?thesis
    proof (cases "n \<in> set frontier")
      case False
      then obtain k where "k < d" "(?hop ^^ k) seed n" using n(1) front by blast
      then have "(?hop ^^ Suc k) seed m" "Suc k \<le> d" using n(2) by (auto intro: relpowp_Suc_I)
      then show ?thesis using dom by blast
    qed (use n(2) in blast)
  qed
  have "\<forall>n. n \<in> dom (jm_get reach') \<longleftrightarrow> (\<exists>k \<le> Suc d. (?hop ^^ k) seed n)"
    using e(2) dom walk covered by (metis (no_types, lifting) UnCI UnE le_Suc_eq order_refl)
  moreover have "\<forall>n. n \<in> set queue \<longleftrightarrow> (?hop ^^ Suc d) seed n \<and> (\<forall>k < Suc d. \<not> (?hop ^^ k) seed n)"
    using e(1) dom walk covered by (metis (no_types, lifting) Diff_iff less_Suc_eq_le)
  moreover have "explains rules nodeIds edges seed p n \<and> (\<forall>k < length p. \<not> (?hop ^^ k) seed n)" if get: "jm_get reach' n = Some p" for n p
  proof (cases "n \<in> dom (jm_get reach)")
    case True
    then show ?thesis using e(3) get path by simp
  next
    case False
    have "n \<in> dom (jm_get reach')" using get by blast
    then have "n \<in> set queue" using False e(1,2) by blast
    then obtain m q t where m: "m \<in> set frontier" "jm_get reach m = Some q" "t \<in> set (traversableEdges rules nodeIds edges m)"
      "te_peerId t = n" "p = q @ [stepOf m t]"
      using e(4) get by fastforce
    have "length q \<le> d" using path [OF m(2)] m(1) front by (metis linorder_not_le)
    then have "\<forall>k < length p. \<not> (?hop ^^ k) seed n" using False dom m(5) by (auto simp: less_Suc_eq_le dest: le_trans)
    then show ?thesis using path [OF m(2)] m(3-5) explains_snoc by blast
  qed
  ultimately show ?thesis unfolding levelInv_def by blast
qed

lemma propagateLevels_inv:
  assumes "levelInv rules nodeIds edges seed d reach frontier"
  shows "\<exists>f. levelInv rules nodeIds edges seed (d + n) (propagateLevels rules nodeIds edges n reach frontier) f"
  using assms
proof (induction n arbitrary: d reach frontier)
  case (Suc n)
  obtain reach' queue where level: "expandLevel rules nodeIds edges reach frontier = (reach', queue)" by fastforce
  have next_inv: "levelInv rules nodeIds edges seed (Suc d) reach' queue" using level_step [OF Suc.prems level] .
  have stop: "propagateLevels rules nodeIds edges k r [] = r" for k r by (cases k) simp_all
  have "propagateLevels rules nodeIds edges (Suc n) reach frontier = propagateLevels rules nodeIds edges n reach' queue"
  proof (cases "frontier = []")
    case True
    then have "reach' = reach" "queue = []" using level by (auto simp: expandLevel_def)
    then show ?thesis using True stop by simp
  qed (use level in simp)
  then show ?case using Suc.IH [OF next_inv] by simp
qed auto

lemma expandEdge_distinct:
  "distinct (map fst (fst s)) \<Longrightarrow> distinct (map fst (fst (expandEdge n p s t)))"
  by (auto simp: expandEdge_def distinct_update split: prod.splits)

lemma foldl_keeps: "(\<And>s x. P s \<Longrightarrow> P (f s x)) \<Longrightarrow> P s \<Longrightarrow> P (foldl f s xs)"
  by (induction xs arbitrary: s) auto

lemma propagateLevels_distinct:
  "distinct (map fst reach) \<Longrightarrow> distinct (map fst (propagateLevels rules nodeIds edges n reach frontier))"
proof (induction n arbitrary: reach frontier)
  case (Suc n)
  have node: "distinct (map fst (fst (expandNode rules nodeIds edges s m)))" if "distinct (map fst (fst s))" for s m
    using that by (auto simp: expandNode_def split: option.splits intro: foldl_keeps expandEdge_distinct)
  have "distinct (map fst (fst (expandLevel rules nodeIds edges reach frontier)))"
    unfolding expandLevel_def by (rule foldl_keeps [where P = "\<lambda>s. distinct (map fst (fst s))"]) (use node Suc.prems in auto)
  then show ?case using Suc by (auto split: prod.splits)
qed simp

text \<open>
  C25. Propagation is breadth-first search: the result lists, once each and in id order, exactly the
  nodes that a walk of at most the policy's depth over admitted edges reaches from the seed, and each
  comes with an explanation path of admitted edges from the seed than which there is no shorter walk.
\<close>
theorem propagateImpact_bfs:
  assumes "propagateImpact seed nodeIds edges policy = Inr reaches"
  shows "sorted (map re_nodeId reaches) \<and> distinct (map re_nodeId reaches)
     \<and> (\<forall>n. n \<in> re_nodeId ` set reaches \<longleftrightarrow>
          (\<exists>k. of_nat k \<le> pp_maxDepth policy \<and> (hop (pp_rules policy) nodeIds edges ^^ k) seed n))
     \<and> (\<forall>r \<in> set reaches. explains (pp_rules policy) nodeIds edges seed (re_path r) (re_nodeId r)
          \<and> (\<forall>k < length (re_path r). \<not> (hop (pp_rules policy) nodeIds edges ^^ k) seed (re_nodeId r)))"
proof -
  let ?n = "nat \<lfloor>pp_maxDepth policy\<rfloor>" and ?rules = "pp_rules policy"
  let ?reach = "propagateLevels ?rules nodeIds edges ?n [(seed, [])] [seed]"
  from assms have depth: "isInteger (pp_maxDepth policy)" "1 \<le> pp_maxDepth policy"
    and reaches: "reaches = map (\<lambda>(nodeId, path). \<lparr>re_nodeId = nodeId, re_path = path\<rparr>) (sort_key fst ?reach)"
    by (auto simp: propagateImpact_def not_less split: if_splits)
  have start: "levelInv ?rules nodeIds edges seed 0 [(seed, [])] [seed]" by (auto simp: levelInv_def split: if_splits)
  obtain f where inv: "levelInv ?rules nodeIds edges seed ?n ?reach f"
    using propagateLevels_inv [OF start, of ?n] by auto
  have dist: "distinct (map fst ?reach)" by (rule propagateLevels_distinct) simp
  have keys: "map re_nodeId reaches = map fst (sort_key fst ?reach)" by (simp add: reaches split: prod.splits)
  have "sorted (map fst (sort_key fst ?reach))" by simp
  moreover have "distinct (map fst (sort_key fst ?reach))" using dist by (metis distinct_map distinct_sort set_sort)
  ultimately have sorted: "sorted (map re_nodeId reaches)" "distinct (map re_nodeId reaches)" using keys dist by simp_all
  have members: "re_nodeId ` set reaches = dom (jm_get ?reach)"
    using keys by (metis (no_types, lifting) dom_map_of_conv_image_fst list.set_map set_sort)
  obtain i where i: "pp_maxDepth policy = of_int i" using depth(1) by (metis isInteger_def)
  have bound: "of_nat k \<le> pp_maxDepth policy \<longleftrightarrow> k \<le> ?n" for k
  proof -
    have "of_nat k \<le> pp_maxDepth policy \<longleftrightarrow> int k \<le> i" unfolding i by (metis of_int_le_iff of_int_of_nat_eq)
    also have "\<dots> \<longleftrightarrow> k \<le> ?n" using depth(2) by (auto simp: i)
    finally show ?thesis .
  qed
  show ?thesis
  proof (intro conjI allI ballI)
    show "n \<in> re_nodeId ` set reaches \<longleftrightarrow> (\<exists>k. of_nat k \<le> pp_maxDepth policy \<and> (hop ?rules nodeIds edges ^^ k) seed n)" for n
      unfolding members bound using inv by (simp add: levelInv_def)
    fix r assume "r \<in> set reaches"
    then have "(re_nodeId r, re_path r) \<in> set ?reach" by (auto simp: reaches)
    then have "jm_get ?reach (re_nodeId r) = Some (re_path r)" using dist by simp
    then have "explains ?rules nodeIds edges seed (re_path r) (re_nodeId r)
        \<and> (\<forall>k < length (re_path r). \<not> (hop ?rules nodeIds edges ^^ k) seed (re_nodeId r))"
      using inv by (simp add: levelInv_def)
    then show "explains ?rules nodeIds edges seed (re_path r) (re_nodeId r)"
      "k < length (re_path r) \<longrightarrow> \<not> (hop ?rules nodeIds edges ^^ k) seed (re_nodeId r)" for k by auto
  qed (use sorted in auto)
qed

definition exampleEdge :: "string \<Rightarrow> string \<Rightarrow> string \<Rightarrow> string \<Rightarrow> edge_status \<Rightarrow> rat \<Rightarrow> edge_record" where
  "exampleEdge eid type src tgt st c =
     \<lparr>ed_id = eid, ed_type = type, ed_source_id = src, ed_target_id = tgt, ed_status = st, ed_confidence = c\<rparr>"

definition exampleEdges :: "edge_record list" where
  "exampleEdges = [exampleEdge ''e2'' ''REALIZES'' ''code'' ''comp'' edge_accepted 1,
     exampleEdge ''e1'' ''SHAPES'' ''dec'' ''comp'' edge_accepted 1,
     exampleEdge ''e3'' ''VERIFIES'' ''test'' ''dec'' edge_proposed (1/2),
     exampleEdge ''e4'' ''BLOCKS'' ''dec'' ''code'' edge_proposed (1/2)]"

lemma propagate_example:
  "map_sum id (map (\<lambda>r. (re_nodeId r, map st_edgeId (re_path r))))
     (propagateImpact ''dec'' [''code'', ''comp'', ''dec'', ''test'', ''req''] exampleEdges DEFAULT_PROPAGATION_POLICY)
   = Inr [(''code'', [''e1'', ''e2'']), (''comp'', [''e1'']), (''dec'', []), (''test'', [''e3''])]"
  by code_simp

theorem propagateImpact_bfs_witness:
  "\<exists>k. of_nat k \<le> (6 :: rat) \<and> (hop PROPAGATION_RULES [''code'', ''comp'', ''dec'', ''test'', ''req''] exampleEdges ^^ k) ''dec'' ''code''"
proof -
  obtain reaches where r: "propagateImpact ''dec'' [''code'', ''comp'', ''dec'', ''test'', ''req''] exampleEdges DEFAULT_PROPAGATION_POLICY = Inr reaches"
    "map (\<lambda>r. (re_nodeId r, map st_edgeId (re_path r))) reaches = [(''code'', [''e1'', ''e2'']), (''comp'', [''e1'']), (''dec'', []), (''test'', [''e3''])]"
    using propagate_example
    by (cases "propagateImpact ''dec'' [''code'', ''comp'', ''dec'', ''test'', ''req''] exampleEdges DEFAULT_PROPAGATION_POLICY") auto
  then have "''code'' \<in> re_nodeId ` set reaches" by auto
  then show ?thesis using propagateImpact_bfs [OF r(1)] by (simp add: DEFAULT_PROPAGATION_POLICY_def)
qed

end
