(* ===== verification/Impact_Set.thy ===== *)
theory Impact_Set
  imports Impact_Propagation Locator
begin

text \<open>
  Change seeds, scoring and ImpactSets (\<^verbatim>\<open>graph/src/impact/seeds.ts\<close>, \<^verbatim>\<open>scoring.ts\<close>,
  \<^verbatim>\<open>impact-set.ts\<close>, \<open>classifyRescan\<close> of \<^verbatim>\<open>core/src/identity/rename.ts\<close>): the classified entries of a
  change, the additive advisory merge, and the approval that freezes a set before planning. The value
  under \<^verbatim>\<open>extensions["harness.impact"]\<close> is a field of the node, absent when no object is there; the
  source casts it without a check, so the model ranges over nodes whose value has the shape of the type.
\<close>

section \<open>Seeds\<close>

datatype iteration_kind = feature | bugfix | refactor | security | maintenance

datatype change_seed_kind = content_change | rename_with_change | pure_rename | finding_seed | improvement

record change_seed =
  cs_id :: string
  cs_nodeId :: string
  cs_kind :: change_seed_kind
  cs_iterationKind :: iteration_kind
  cs_reason :: string

fun iterationKindText :: "iteration_kind \<Rightarrow> string" where
  "iterationKindText feature = ''feature''"
| "iterationKindText bugfix = ''bugfix''"
| "iterationKindText refactor = ''refactor''"
| "iterationKindText security = ''security''"
| "iterationKindText maintenance = ''maintenance''"

fun seedKindText :: "change_seed_kind \<Rightarrow> string" where
  "seedKindText content_change = ''content-change''"
| "seedKindText rename_with_change = ''rename-with-change''"
| "seedKindText pure_rename = ''pure-rename''"
| "seedKindText finding_seed = ''finding''"
| "seedKindText improvement = ''improvement''"

definition seedId :: "host \<Rightarrow> string \<Rightarrow> change_seed_kind \<Rightarrow> iteration_kind \<Rightarrow> string result" where
  "seedId H nodeId kind iterationKind =
     rbind (contentDigest H (JObj [(''nodeId'', JStr nodeId), (''kind'', JStr (seedKindText kind)),
       (''iterationKind'', JStr (iterationKindText iterationKind))])) (\<lambda>digest.
     Inr (''seed_'' @ take 16 digest))"

definition makeSeed :: "host \<Rightarrow> string \<Rightarrow> change_seed_kind \<Rightarrow> iteration_kind \<Rightarrow> string \<Rightarrow> change_seed result" where
  "makeSeed H nodeId kind iterationKind reason =
     rbind (seedId H nodeId kind iterationKind) (\<lambda>i.
     Inr \<lparr>cs_id = i, cs_nodeId = nodeId, cs_kind = kind, cs_iterationKind = iterationKind, cs_reason = reason\<rparr>)"

datatype rescan_classification = rescan_unchanged | rescan_pure_rename | rescan_content_change | rescan_rename_with_change

record node_snapshot =
  ns_locator :: string
  ns_digest :: string

definition classifyRescan :: "host \<Rightarrow> node_snapshot \<Rightarrow> node_snapshot \<Rightarrow> rescan_classification result" where
  "classifyRescan H previous current =
     rbind (canonicalizeLocator H (ns_locator previous)) (\<lambda>a.
     rbind (canonicalizeLocator H (ns_locator current)) (\<lambda>b.
     (let sameLocator = (a = b); sameDigest = (ns_digest previous = ns_digest current) in
      if sameLocator \<and> sameDigest then Inr rescan_unchanged
      else if sameLocator then Inr rescan_content_change
      else if sameDigest then Inr rescan_pure_rename
      else Inr rescan_rename_with_change)))"

definition seedFromRescan :: "host \<Rightarrow> string \<Rightarrow> node_snapshot \<Rightarrow> node_snapshot \<Rightarrow> iteration_kind \<Rightarrow> change_seed option result" where
  "seedFromRescan H nodeId previous current iterationKind =
     rbind (classifyRescan H previous current) (\<lambda>c.
     case c of
       rescan_unchanged \<Rightarrow> Inr None
     | rescan_pure_rename \<Rightarrow> rbind (makeSeed H nodeId pure_rename iterationKind
         (''locator changed from '' @ ns_locator previous @ '' to '' @ ns_locator current @ ''; content digest unchanged'')) (\<lambda>s. Inr (Some s))
     | rescan_content_change \<Rightarrow> rbind (makeSeed H nodeId content_change iterationKind
         (''content digest changed from '' @ ns_digest previous @ '' to '' @ ns_digest current)) (\<lambda>s. Inr (Some s))
     | rescan_rename_with_change \<Rightarrow> rbind (makeSeed H nodeId rename_with_change iterationKind
         (''locator changed from '' @ ns_locator previous @ '' to '' @ ns_locator current @ '' and content digest changed'')) (\<lambda>s. Inr (Some s)))"

section \<open>Scoring\<close>

datatype impact_classification = must_change | inspect | informational

fun riskRank :: "risk_level \<Rightarrow> nat" where
  "riskRank risk_low = 0" | "riskRank risk_medium = 1" | "riskRank risk_high = 2"

definition maxRisk :: "risk_level \<Rightarrow> risk_level \<Rightarrow> risk_level" where
  "maxRisk left right = (if riskRank right \<le> riskRank left then left else right)"

fun iterationBaseRisk :: "iteration_kind \<Rightarrow> risk_level" where
  "iterationBaseRisk feature = risk_medium"
| "iterationBaseRisk bugfix = risk_medium"
| "iterationBaseRisk refactor = risk_low"
| "iterationBaseRisk security = risk_high"
| "iterationBaseRisk maintenance = risk_low"

definition seedBaseRisk :: "change_seed \<Rightarrow> risk_level" where
  "seedBaseRisk seed =
     (if cs_kind seed = pure_rename then risk_low
      else if cs_kind seed = finding_seed then (if cs_iterationKind seed = security then risk_high else risk_medium)
      else iterationBaseRisk (cs_iterationKind seed))"

text \<open>\<^verbatim>\<open>Math.round\<close> is the floor after adding one half.\<close>

definition pathConfidence :: "impact_path_step list \<Rightarrow> rat" where
  "pathConfidence path =
     (let confidence = foldl (\<lambda>c step. c * st_confidence step) 1 path
      in of_int \<lfloor>confidence * 1000000 + 1 / 2\<rfloor> / 1000000)"

definition pathRisk :: "change_seed \<Rightarrow> impact_path_step list \<Rightarrow> risk_level" where
  "pathRisk seed path = foldl (\<lambda>risk step. if st_relationRisk step = risk_high then risk_high else risk) (seedBaseRisk seed) path"

record impact_assessment =
  ia_risk :: risk_level
  ia_confidence :: rat
  ia_classification :: impact_classification
  ia_reason :: string

fun impactRiskText :: "risk_level \<Rightarrow> string" where
  "impactRiskText risk_low = ''low''" | "impactRiskText risk_medium = ''medium''" | "impactRiskText risk_high = ''high''"

definition assessImpact :: "host \<Rightarrow> change_seed \<Rightarrow> impact_path_step list \<Rightarrow> impact_assessment" where
  "assessImpact H seed path =
     (let risk = pathRisk seed path; confidence = pathConfidence path;
          hops = h_number H (of_nat (length path));
          assess = (\<lambda>classification reason. \<lparr>ia_risk = risk, ia_confidence = confidence, ia_classification = classification, ia_reason = reason\<rparr>)
      in if cs_kind seed = pure_rename \<and> list_all (\<lambda>step. st_relation step = ''SUPERSEDES'') path
         then assess informational ''pure rename: only the locator changed; the content digest is unchanged''
         else case find st_inferred path of
           Some step \<Rightarrow> assess inspect (''path traverses inferred edge '' @ st_edgeId step @ '' (confidence '' @
             h_number H (st_confidence step) @ ''); a human must confirm the relation'')
         | None \<Rightarrow>
             if path = [] then assess must_change (''change seed: '' @ cs_reason seed)
             else if risk = risk_low
             then assess informational (''low-risk '' @ iterationKindText (cs_iterationKind seed) @
               '' change; deterministic path of '' @ hops @ '' edge(s) needs no revision'')
             else assess must_change (impactRiskText risk @ '' risk '' @ iterationKindText (cs_iterationKind seed) @
               '' change propagated over '' @ hops @ '' deterministic edge(s)''))"

section \<open>Sets\<close>

record impact_entry =
  ie_node_id :: string
  ie_node_type :: string
  ie_classification :: impact_classification
  ie_risk :: risk_level
  ie_confidence :: rat
  ie_path :: "string list"
  ie_reason :: string
  ie_seed_id :: string

record impact_set_content =
  ic_content_digest :: string
  ic_seeds :: "change_seed list"
  ic_entries :: "impact_entry list"
  ic_approval_digest :: "string option"

record node_record =
  nr_protocol_version :: string
  nr_id :: string
  nr_type :: string
  nr_revision :: rat
  nr_status :: string
  nr_source :: string
  nr_iteration_id :: string
  nr_actor :: string
  nr_timestamp :: string
  nr_confidence :: rat
  nr_extensions :: "(string \<times> json) list"
  nr_impact :: "impact_set_content option"
  nr_digest :: string

text \<open>Seeds from a Finding or an ImprovementCandidate node.\<close>

definition seedFromFinding :: "host \<Rightarrow> node_record \<Rightarrow> iteration_kind \<Rightarrow> change_seed result" where
  "seedFromFinding H finding iterationKind =
     (if nr_type finding \<noteq> ''Finding'' then Inl ImpactError
      else makeSeed H (nr_id finding) finding_seed iterationKind
        (''finding '' @ nr_id finding @ '' revision '' @ h_number H (nr_revision finding) @ '' triggers impact analysis''))"

definition seedFromImprovementCandidate :: "host \<Rightarrow> node_record \<Rightarrow> iteration_kind \<Rightarrow> change_seed result" where
  "seedFromImprovementCandidate H candidate iterationKind =
     (if nr_type candidate \<noteq> ''ImprovementCandidate'' then Inl ImpactError
      else makeSeed H (nr_id candidate) improvement iterationKind
        (''improvement candidate '' @ nr_id candidate @ '' proposes a change''))"

record impact_set_context =
  ix_iterationId :: string
  ix_actor :: string
  ix_timestamp :: string

fun classificationRank :: "impact_classification \<Rightarrow> nat" where
  "classificationRank must_change = 0" | "classificationRank inspect = 1" | "classificationRank informational = 2"

fun classificationText :: "impact_classification \<Rightarrow> string" where
  "classificationText must_change = ''must-change''"
| "classificationText inspect = ''inspect''"
| "classificationText informational = ''informational''"

definition seedJson :: "change_seed \<Rightarrow> json" where
  "seedJson s = JObj [(''id'', JStr (cs_id s)), (''nodeId'', JStr (cs_nodeId s)), (''kind'', JStr (seedKindText (cs_kind s))),
     (''iterationKind'', JStr (iterationKindText (cs_iterationKind s))), (''reason'', JStr (cs_reason s))]"

definition entryJson :: "impact_entry \<Rightarrow> json" where
  "entryJson e = JObj [(''node_id'', JStr (ie_node_id e)), (''node_type'', JStr (ie_node_type e)),
     (''classification'', JStr (classificationText (ie_classification e))), (''risk'', JStr (impactRiskText (ie_risk e))),
     (''confidence'', JNum (ie_confidence e)), (''path'', JArr (map JStr (ie_path e))), (''reason'', JStr (ie_reason e)),
     (''seed_id'', JStr (ie_seed_id e))]"

definition digestContent :: "host \<Rightarrow> change_seed list \<Rightarrow> impact_entry list \<Rightarrow> string result" where
  "digestContent H seeds entries =
     contentDigest H (JObj [(''seeds'', JArr (map seedJson seeds)), (''entries'', JArr (map entryJson entries))])"

definition contentJson :: "impact_set_content \<Rightarrow> json" where
  "contentJson c = JObj ([(''content_digest'', JStr (ic_content_digest c)), (''seeds'', JArr (map seedJson (ic_seeds c))),
     (''entries'', JArr (map entryJson (ic_entries c)))]
     @ (case ic_approval_digest c of None \<Rightarrow> [] | Some d \<Rightarrow> [(''approval_digest'', JStr d)]))"

definition nodeJson :: "node_record \<Rightarrow> json" where
  "nodeJson n = JObj [(''protocol_version'', JStr (nr_protocol_version n)), (''record_kind'', JStr ''node''),
     (''id'', JStr (nr_id n)), (''type'', JStr (nr_type n)), (''revision'', JNum (nr_revision n)), (''status'', JStr (nr_status n)),
     (''source'', JStr (nr_source n)),
     (''provenance'', JObj [(''iteration_id'', JStr (nr_iteration_id n)), (''actor'', JStr (nr_actor n)), (''timestamp'', JStr (nr_timestamp n))]),
     (''confidence'', JNum (nr_confidence n)),
     (''extensions'', JObj (nr_extensions n @ (case nr_impact n of None \<Rightarrow> [] | Some c \<Rightarrow> [(''harness.impact'', contentJson c)])))]"

definition sealNode :: "host \<Rightarrow> node_record \<Rightarrow> node_record result" where
  "sealNode H n = rbind (contentDigest H (nodeJson n)) (\<lambda>d. Inr (n\<lparr>nr_digest := d\<rparr>))"

definition PROTOCOL_VERSION :: string where
  "PROTOCOL_VERSION = ''1.0.0''"

definition candidateEntry :: "host \<Rightarrow> change_seed \<Rightarrow> node_record \<Rightarrow> propagation_reach \<Rightarrow> impact_entry" where
  "candidateEntry H seed node reach =
     (let assessment = assessImpact H seed (re_path reach) in
      \<lparr>ie_node_id = nr_id node, ie_node_type = nr_type node, ie_classification = ia_classification assessment,
       ie_risk = ia_risk assessment, ie_confidence = ia_confidence assessment, ie_path = map st_edgeId (re_path reach),
       ie_reason = ia_reason assessment, ie_seed_id = cs_id seed\<rparr>)"

definition keepStronger :: "(string, impact_entry) jmap \<Rightarrow> impact_entry \<Rightarrow> (string, impact_entry) jmap" where
  "keepStronger entryByNode candidate =
     (case jm_get entryByNode (ie_node_id candidate) of
        None \<Rightarrow> jm_set (ie_node_id candidate) candidate entryByNode
      | Some existing \<Rightarrow>
          if classificationRank (ie_classification candidate) < classificationRank (ie_classification existing)
          then jm_set (ie_node_id candidate) candidate entryByNode else entryByNode)"

definition nodeById :: "node_record list \<Rightarrow> string \<Rightarrow> node_record option" where
  "nodeById nodes = map_of (rev (map (\<lambda>node. (nr_id node, node)) nodes))"

text \<open>Every reached node is in the node list, so the lookup of its record never fails.\<close>

definition seedEntries :: "host \<Rightarrow> node_record list \<Rightarrow> edge_record list \<Rightarrow> propagation_policy \<Rightarrow> change_seed \<Rightarrow> impact_entry list result" where
  "seedEntries H nodes edges policy seed =
     rbind (propagateImpact (cs_nodeId seed) (map nr_id nodes) edges policy) (\<lambda>reaches.
     mapR (\<lambda>reach. case nodeById nodes (re_nodeId reach) of
        None \<Rightarrow> Inl JsTypeError
      | Some node \<Rightarrow> Inr (candidateEntry H seed node reach)) reaches)"

definition sortSeeds :: "change_seed list \<Rightarrow> change_seed list" where
  "sortSeeds seeds = sort_key cs_id seeds"

definition impactEntries :: "host \<Rightarrow> node_record list \<Rightarrow> edge_record list \<Rightarrow> propagation_policy \<Rightarrow> change_seed list \<Rightarrow> impact_entry list result" where
  "impactEntries H nodes edges policy seeds =
     rbind (foldR (\<lambda>entryByNode seed. rbind (seedEntries H nodes edges policy seed) (\<lambda>candidates.
       Inr (foldl keepStronger entryByNode candidates))) [] (sortSeeds seeds)) (\<lambda>entryByNode.
     Inr (sort_key ie_node_id (map snd entryByNode)))"

definition generateImpactSet :: "host \<Rightarrow> change_seed list \<Rightarrow> node_record list \<Rightarrow> edge_record list \<Rightarrow> impact_set_context
    \<Rightarrow> propagation_policy \<Rightarrow> node_record result" where
  "generateImpactSet H seeds nodes edges ctx policy =
     (if seeds = [] then Inl ImpactError
      else
        rbind (impactEntries H nodes edges policy seeds) (\<lambda>entries.
        rbind (digestContent H (sortSeeds seeds) entries) (\<lambda>digest.
        sealNode H \<lparr>nr_protocol_version = PROTOCOL_VERSION, nr_id = ''impactset_'' @ take 16 digest, nr_type = ''ImpactSet'',
          nr_revision = 1, nr_status = ''proposed'', nr_source = ''workflow'', nr_iteration_id = ix_iterationId ctx,
          nr_actor = ix_actor ctx, nr_timestamp = ix_timestamp ctx, nr_confidence = 1, nr_extensions = [],
          nr_impact = Some \<lparr>ic_content_digest = digest, ic_seeds = sortSeeds seeds, ic_entries = entries, ic_approval_digest = None\<rparr>,
          nr_digest = []\<rparr>)))"

definition readImpactSetContent :: "node_record \<Rightarrow> impact_set_content result" where
  "readImpactSetContent impactSet =
     (if nr_type impactSet \<noteq> ''ImpactSet'' then Inl ImpactError
      else case nr_impact impactSet of None \<Rightarrow> Inl ImpactError | Some content \<Rightarrow> Inr content)"

definition impactSetContentDigest :: "node_record \<Rightarrow> string result" where
  "impactSetContentDigest impactSet = rbind (readImpactSetContent impactSet) (\<lambda>c. Inr (ic_content_digest c))"

record impact_candidate =
  ac_node_id :: string
  ac_node_type :: string
  ac_classification :: impact_classification
  ac_risk :: risk_level
  ac_confidence :: rat
  ac_reason :: string

record impact_risk_signal =
  rs_node_id :: string
  rs_risk :: risk_level

definition advisoryEntry :: "impact_candidate \<Rightarrow> impact_entry" where
  "advisoryEntry a = \<lparr>ie_node_id = ac_node_id a, ie_node_type = ac_node_type a, ie_classification = ac_classification a,
     ie_risk = ac_risk a, ie_confidence = ac_confidence a, ie_path = [], ie_reason = ''advisory: '' @ ac_reason a, ie_seed_id = ''advisory''\<rparr>"

definition addAdvisory :: "string list \<times> impact_entry list \<Rightarrow> impact_candidate \<Rightarrow> (string list \<times> impact_entry list) result" where
  "addAdvisory s addition =
     (case s of (known, additions) \<Rightarrow>
        if List.member known (ac_node_id addition) then Inl ImpactError
        else Inr (ac_node_id addition # known, additions @ [advisoryEntry addition]))"

definition addRaise :: "string list \<Rightarrow> (string, risk_level) jmap \<Rightarrow> impact_risk_signal \<Rightarrow> (string, risk_level) jmap" where
  "addRaise known raises signal =
     (if \<not> List.member known (rs_node_id signal) then raises
      else jm_set (rs_node_id signal)
        (case jm_get raises (rs_node_id signal) of None \<Rightarrow> rs_risk signal | Some pending \<Rightarrow> maxRisk pending (rs_risk signal)) raises)"

definition raiseEntry :: "(string, risk_level) jmap \<Rightarrow> impact_entry \<Rightarrow> impact_entry" where
  "raiseEntry raises entry =
     (case jm_get raises (ie_node_id entry) of None \<Rightarrow> entry | Some raise \<Rightarrow> entry\<lparr>ie_risk := maxRisk (ie_risk entry) raise\<rparr>)"

definition mergedEntries :: "impact_entry list \<Rightarrow> impact_candidate list \<Rightarrow> impact_risk_signal list \<Rightarrow> impact_entry list result" where
  "mergedEntries entries candidates signals =
     rbind (foldR addAdvisory (map ie_node_id entries, []) candidates) (\<lambda>(known, additions).
     Inr (sort_key ie_node_id (map (raiseEntry (foldl (addRaise known) [] signals)) (entries @ additions))))"

definition mergeImpactAdvisory :: "host \<Rightarrow> node_record \<Rightarrow> impact_candidate list \<Rightarrow> impact_risk_signal list \<Rightarrow> node_record result" where
  "mergeImpactAdvisory H impactSet candidates signals =
     (if nr_status impactSet \<noteq> ''proposed'' then Inl ImpactError
      else
        rbind (readImpactSetContent impactSet) (\<lambda>content.
        rbind (mergedEntries (ic_entries content) candidates signals) (\<lambda>entries.
        rbind (digestContent H (ic_seeds content) entries) (\<lambda>digest.
        sealNode H (impactSet\<lparr>nr_id := ''impactset_'' @ take 16 digest,
          nr_impact := Some \<lparr>ic_content_digest = digest, ic_seeds = ic_seeds content, ic_entries = entries, ic_approval_digest = None\<rparr>\<rparr>)))))"

definition freezeImpactSet :: "host \<Rightarrow> node_record \<Rightarrow> string \<Rightarrow> node_record result" where
  "freezeImpactSet H impactSet approvalDigest =
     rbind (readImpactSetContent impactSet) (\<lambda>content.
     if nr_status impactSet \<noteq> ''proposed'' then Inl ImpactError
     else sealNode H (impactSet\<lparr>nr_revision := nr_revision impactSet + 1, nr_status := ''accepted'',
       nr_impact := Some (content\<lparr>ic_approval_digest := Some approvalDigest\<rparr>)\<rparr>))"

definition assertApprovedImpactSet :: "host \<Rightarrow> node_record \<Rightarrow> string \<Rightarrow> unit result" where
  "assertApprovedImpactSet H impactSet approvedContentDigest =
     rbind (readImpactSetContent impactSet) (\<lambda>content.
     if nr_status impactSet \<noteq> ''accepted'' \<or> ic_approval_digest content = None then Inl ImpactError
     else rbind (digestContent H (ic_seeds content) (ic_entries content)) (\<lambda>actual.
       if actual \<noteq> ic_content_digest content \<or> actual \<noteq> approvedContentDigest then Inl ImpactError else Inr ()))"

section \<open>Classification\<close>

lemma assess_must_change:
  assumes "ia_classification (assessImpact H seed path) = must_change"
  shows "list_all (\<lambda>step. \<not> st_inferred step) path" "path = [] \<or> ia_risk (assessImpact H seed path) \<noteq> risk_low"
    "cs_kind seed = pure_rename \<longrightarrow> (\<exists>step \<in> set path. st_relation step \<noteq> ''SUPERSEDES'')"
  using assms by (auto simp: assessImpact_def Let_def list_all_iff find_None_iff split: if_splits option.splits)

lemma foldl_keepStronger:
  "case jm_get (foldl keepStronger [] cs) k of
     None \<Rightarrow> \<forall>c \<in> set cs. ie_node_id c \<noteq> k
   | Some e \<Rightarrow> e \<in> set cs \<and> ie_node_id e = k
       \<and> (\<forall>c \<in> set cs. ie_node_id c = k \<longrightarrow> classificationRank (ie_classification e) \<le> classificationRank (ie_classification c))"
proof (induction cs rule: rev_induct)
  case (snoc c cs)
  then show ?case
    by (cases "jm_get (foldl keepStronger [] cs) (ie_node_id c)"; cases "ie_node_id c = k")
      (auto simp: keepStronger_def split: option.splits)
qed simp

lemma distinct_keepStronger: "distinct (map fst m) \<Longrightarrow> distinct (map fst (foldl keepStronger m cs))"
  by (rule foldl_keeps [where P = "\<lambda>m. distinct (map fst m)"]) (auto simp: keepStronger_def distinct_update split: option.splits)

lemma fold_seeds:
  assumes "foldR (\<lambda>m seed. rbind (f seed) (\<lambda>cs. Inr (foldl keepStronger m cs))) m seeds = Inr m'"
  shows "\<exists>css. mapR f seeds = Inr css \<and> m' = foldl keepStronger m (concat css)"
  using assms
proof (induction seeds arbitrary: m)
  case (Cons seed seeds)
  then obtain cs where cs: "f seed = Inr cs"
    "foldR (\<lambda>m seed. rbind (f seed) (\<lambda>cs. Inr (foldl keepStronger m cs))) (foldl keepStronger m cs) seeds = Inr m'"
    by (auto simp: rbind_Inr_iff)
  from Cons.IH [OF this(2)] obtain css where "mapR f seeds = Inr css" "m' = foldl keepStronger (foldl keepStronger m cs) (concat css)"
    by blast
  then show ?case using cs(1) by (intro exI [of _ "cs # css"]) simp
qed simp

lemma nodeById_id: "nodeById nodes n = Some node \<Longrightarrow> nr_id node = n"
  by (auto simp: nodeById_def dest!: map_of_SomeD)

text \<open>The candidates of one seed, one per node it reaches.\<close>

definition assessedBy :: "host \<Rightarrow> node_record list \<Rightarrow> edge_record list \<Rightarrow> propagation_policy \<Rightarrow> change_seed \<Rightarrow> string
    \<Rightarrow> impact_path_step list \<Rightarrow> bool" where
  "assessedBy H nodes edges policy seed n path \<longleftrightarrow>
     (\<exists>reaches. propagateImpact (cs_nodeId seed) (map nr_id nodes) edges policy = Inr reaches
        \<and> \<lparr>re_nodeId = n, re_path = path\<rparr> \<in> set reaches)"

lemma seedEntries_members:
  assumes "seedEntries H nodes edges policy seed = Inr cs"
  shows "assessedBy H nodes edges policy seed n path \<longleftrightarrow>
     (\<exists>node. nodeById nodes n = Some node \<and> assessedBy H nodes edges policy seed n path
        \<and> candidateEntry H seed node \<lparr>re_nodeId = n, re_path = path\<rparr> \<in> set cs)"
    and "c \<in> set cs \<Longrightarrow> \<exists>path node. assessedBy H nodes edges policy seed (ie_node_id c) path \<and> nr_id node = ie_node_id c
        \<and> c = candidateEntry H seed node \<lparr>re_nodeId = ie_node_id c, re_path = path\<rparr>"
proof -
  let ?f = "\<lambda>reach. case nodeById nodes (re_nodeId reach) of None \<Rightarrow> Inl JsTypeError | Some node \<Rightarrow> Inr (candidateEntry H seed node reach)"
  from assms obtain reaches where p: "propagateImpact (cs_nodeId seed) (map nr_id nodes) edges policy = Inr reaches"
    and m: "mapR ?f reaches = Inr cs"
    by (auto simp: seedEntries_def rbind_Inr_iff)
  show "assessedBy H nodes edges policy seed n path \<longleftrightarrow>
     (\<exists>node. nodeById nodes n = Some node \<and> assessedBy H nodes edges policy seed n path
        \<and> candidateEntry H seed node \<lparr>re_nodeId = n, re_path = path\<rparr> \<in> set cs)"
    using p mapR_Inr_set [OF m, of "\<lparr>re_nodeId = n, re_path = path\<rparr>"] by (auto simp: assessedBy_def split: option.splits)
  assume "c \<in> set cs"
  then obtain reach where r: "reach \<in> set reaches" "?f reach = Inr c" using mapR_Inr_source [OF m] by blast
  then obtain node where node: "nodeById nodes (re_nodeId reach) = Some node" "c = candidateEntry H seed node reach"
    by (auto split: option.splits)
  have "ie_node_id c = re_nodeId reach" using node nodeById_id by (simp add: candidateEntry_def Let_def)
  moreover have "reach = \<lparr>re_nodeId = re_nodeId reach, re_path = re_path reach\<rparr>" by (cases reach) simp
  ultimately show "\<exists>path node. assessedBy H nodes edges policy seed (ie_node_id c) path \<and> nr_id node = ie_node_id c
        \<and> c = candidateEntry H seed node \<lparr>re_nodeId = ie_node_id c, re_path = path\<rparr>"
    using p r(1) node nodeById_id unfolding assessedBy_def by metis
qed

text \<open>An entry that carries the assessment of one path from one seed.\<close>

definition carries :: "host \<Rightarrow> change_seed \<Rightarrow> impact_path_step list \<Rightarrow> impact_entry \<Rightarrow> bool" where
  "carries H seed path e \<longleftrightarrow> (let a = assessImpact H seed path in
     ie_classification e = ia_classification a \<and> ie_risk e = ia_risk a \<and> ie_confidence e = ia_confidence a
     \<and> ie_reason e = ia_reason a \<and> ie_path e = map st_edgeId path \<and> ie_seed_id e = cs_id seed)"

lemma candidateEntry_simps [simp]:
  "ie_node_id (candidateEntry H seed node r) = nr_id node"
  "ie_classification (candidateEntry H seed node r) = ia_classification (assessImpact H seed (re_path r))"
  "carries H seed (re_path r) (candidateEntry H seed node r)"
  by (simp_all add: candidateEntry_def carries_def Let_def)

lemma impactEntries_spec:
  assumes "impactEntries H nodes edges policy seeds = Inr entries"
  shows "sorted (map ie_node_id entries)" "distinct (map ie_node_id entries)"
    "n \<in> ie_node_id ` set entries \<longleftrightarrow> (\<exists>seed \<in> set seeds. \<exists>path. assessedBy H nodes edges policy seed n path)"
    "e \<in> set entries \<Longrightarrow> (\<exists>seed \<in> set seeds. \<exists>path. assessedBy H nodes edges policy seed (ie_node_id e) path
        \<and> carries H seed path e)
      \<and> (\<forall>seed \<in> set seeds. \<forall>path. assessedBy H nodes edges policy seed (ie_node_id e) path \<longrightarrow>
           classificationRank (ie_classification e) \<le> classificationRank (ia_classification (assessImpact H seed path)))"
proof -
  let ?f = "seedEntries H nodes edges policy"
  from assms obtain m where fold: "foldR (\<lambda>m seed. rbind (?f seed) (\<lambda>cs. Inr (foldl keepStronger m cs))) [] (sortSeeds seeds) = Inr m"
    and entries: "entries = sort_key ie_node_id (map snd m)"
    by (auto simp: impactEntries_def rbind_Inr_iff)
  obtain css where css: "mapR ?f (sortSeeds seeds) = Inr css" and m: "m = foldl keepStronger [] (concat css)"
    using fold_seeds [OF fold] by blast
  have dist: "distinct (map fst m)" unfolding m by (rule distinct_keepStronger) simp
  have key: "ie_node_id e = k" if "(k, e) \<in> set m" for k e
    using foldl_keepStronger [of "concat css" k] that dist m by simp
  then have keys: "map ie_node_id (map snd m) = map fst m" by auto
  have mset: "mset entries = mset (map snd m)" by (simp add: entries)
  show "sorted (map ie_node_id entries)" by (simp add: entries)
  have "mset (map ie_node_id entries) = mset (map fst m)" using mset keys by (metis mset_map)
  then show "distinct (map ie_node_id entries)" using dist by (metis mset_eq_imp_distinct_iff)
  have pick: "c \<in> set (concat css) \<longleftrightarrow> (\<exists>seed \<in> set seeds. \<exists>cs. ?f seed = Inr cs \<and> c \<in> set cs)" for c
    using mapR_Inr_set [OF css] mapR_Inr_source [OF css] by (fastforce simp: sortSeeds_def)
  have total: "\<exists>cs. ?f seed = Inr cs" if "seed \<in> set seeds" for seed
    using mapR_Inr_set [OF css, of seed] that by (auto simp: sortSeeds_def)
  have found: "\<exists>c \<in> set (concat css). ie_node_id c = k \<and> ie_classification c = ia_classification (assessImpact H seed path)"
    if seed: "seed \<in> set seeds" and reached: "assessedBy H nodes edges policy seed k path" for seed k path
  proof -
    obtain cs where cs: "?f seed = Inr cs" using total [OF seed] by blast
    then obtain node where "nodeById nodes k = Some node" "candidateEntry H seed node \<lparr>re_nodeId = k, re_path = path\<rparr> \<in> set cs"
      using seedEntries_members(1) [OF cs, of k path] reached by blast
    then show ?thesis using pick seed cs nodeById_id
      by (intro bexI [of _ "candidateEntry H seed node \<lparr>re_nodeId = k, re_path = path\<rparr>"]) auto
  qed
  have source: "\<exists>seed \<in> set seeds. \<exists>path. assessedBy H nodes edges policy seed (ie_node_id c) path
      \<and> carries H seed path c" if c: "c \<in> set (concat css)" for c
  proof -
    obtain seed cs where "seed \<in> set seeds" "?f seed = Inr cs" "c \<in> set cs" using pick c by blast
    then show ?thesis using seedEntries_members(2) [of H nodes edges policy seed cs c]
      by (metis candidateEntry_simps(3) propagation_reach.select_convs(2))
  qed
  have set_entries: "set entries = snd ` set m" by (simp add: entries)
  show "n \<in> ie_node_id ` set entries \<longleftrightarrow> (\<exists>seed \<in> set seeds. \<exists>path. assessedBy H nodes edges policy seed n path)"
  proof -
    have "ie_node_id ` set entries = fst ` set m" using arg_cong [OF keys, of set] by (simp add: set_entries image_image)
    then have "n \<in> ie_node_id ` set entries \<longleftrightarrow> jm_get m n \<noteq> None" by (simp add: map_of_eq_None_iff)
    also have "\<dots> \<longleftrightarrow> (\<exists>c \<in> set (concat css). ie_node_id c = n)"
      using foldl_keepStronger [of "concat css" n] by (auto simp: m split: option.splits)
    also have "\<dots> \<longleftrightarrow> (\<exists>seed \<in> set seeds. \<exists>path. assessedBy H nodes edges policy seed n path)"
      using found source by metis
    finally show ?thesis .
  qed
  assume "e \<in> set entries"
  then obtain k where "(k, e) \<in> set m" using set_entries by auto
  then have "jm_get m (ie_node_id e) = Some e" using dist key by force
  then have e: "e \<in> set (concat css)" "\<forall>c \<in> set (concat css). ie_node_id c = ie_node_id e \<longrightarrow>
      classificationRank (ie_classification e) \<le> classificationRank (ie_classification c)"
    using foldl_keepStronger [of "concat css" "ie_node_id e"] by (simp_all add: m)
  then show "(\<exists>seed \<in> set seeds. \<exists>path. assessedBy H nodes edges policy seed (ie_node_id e) path
        \<and> carries H seed path e)
      \<and> (\<forall>seed \<in> set seeds. \<forall>path. assessedBy H nodes edges policy seed (ie_node_id e) path \<longrightarrow>
           classificationRank (ie_classification e) \<le> classificationRank (ia_classification (assessImpact H seed path)))"
    using source [OF e(1)] found by metis
qed

lemma generated_content:
  assumes "generateImpactSet H seeds nodes edges ctx policy = Inr node"
  obtains entries digest where "impactEntries H nodes edges policy seeds = Inr entries"
    "digestContent H (sortSeeds seeds) entries = Inr digest"
    "nr_impact node = Some \<lparr>ic_content_digest = digest, ic_seeds = sortSeeds seeds, ic_entries = entries, ic_approval_digest = None\<rparr>"
    "nr_type node = ''ImpactSet''" "nr_status node = ''proposed''"
  using assms that by (fastforce simp: generateImpactSet_def rbind_Inr_iff sealNode_def split: if_splits)

text \<open>
  C26. An ImpactSet is complete and takes the strongest classification: it has exactly one entry, in id
  order, for every node some seed reaches; the entry carries the assessment of one of the paths that reach
  the node (classification, risk, confidence, reason, path and seed), and no assessment of the node is
  stronger; and an entry is \<open>must-change\<close> only if some seed reaches the node over accepted edges of full confidence
  alone, so an inferred relation never makes a node change.
\<close>
theorem generateImpactSet_strongest:
  assumes "generateImpactSet H seeds nodes edges ctx policy = Inr node" "readImpactSetContent node = Inr content"
  shows "sorted (map ie_node_id (ic_entries content)) \<and> distinct (map ie_node_id (ic_entries content))
     \<and> (\<forall>n. n \<in> ie_node_id ` set (ic_entries content) \<longleftrightarrow>
          (\<exists>seed \<in> set seeds. \<exists>path. assessedBy H nodes edges policy seed n path))
     \<and> (\<forall>e \<in> set (ic_entries content). \<exists>seed \<in> set seeds. \<exists>path. assessedBy H nodes edges policy seed (ie_node_id e) path
          \<and> carries H seed path e)
     \<and> (\<forall>e \<in> set (ic_entries content). \<forall>seed \<in> set seeds. \<forall>path. assessedBy H nodes edges policy seed (ie_node_id e) path \<longrightarrow>
          classificationRank (ie_classification e) \<le> classificationRank (ia_classification (assessImpact H seed path)))
     \<and> (\<forall>e \<in> set (ic_entries content). ie_classification e = must_change \<longrightarrow>
          (\<exists>seed \<in> set seeds. \<exists>path. assessedBy H nodes edges policy seed (ie_node_id e) path
             \<and> (\<forall>step \<in> set path. \<not> st_inferred step)))"
proof -
  obtain entries digest where i: "impactEntries H nodes edges policy seeds = Inr entries"
    and impact: "nr_impact node = Some \<lparr>ic_content_digest = digest, ic_seeds = sortSeeds seeds, ic_entries = entries, ic_approval_digest = None\<rparr>"
    by (rule generated_content [OF assms(1)])
  have c: "ic_entries content = entries" using impact assms(2) by (auto simp: readImpactSetContent_def split: if_splits)
  note spec = impactEntries_spec [OF i]
  have "\<exists>seed \<in> set seeds. \<exists>path. assessedBy H nodes edges policy seed (ie_node_id e) path \<and> (\<forall>step \<in> set path. \<not> st_inferred step)"
    if e: "e \<in> set entries" "ie_classification e = must_change" for e
  proof -
    obtain seed path where p: "seed \<in> set seeds" "assessedBy H nodes edges policy seed (ie_node_id e) path"
      "ia_classification (assessImpact H seed path) = must_change"
      using spec(4) [OF e(1)] e(2) by (auto simp: carries_def Let_def)
    show ?thesis using p(1,2) assess_must_change(1) [OF p(3)] unfolding list_all_iff by blast
  qed
  then show ?thesis using spec unfolding c by (intro conjI allI ballI impI) simp_all
qed

section \<open>Advisory and approval\<close>

lemma riskRank_maxRisk: "riskRank (maxRisk a b) = max (riskRank a) (riskRank b)"
  by (simp add: maxRisk_def)

lemma raiseEntry_fields:
  "ie_node_id (raiseEntry raises e) = ie_node_id e" "ie_classification (raiseEntry raises e) = ie_classification e"
  "ie_path (raiseEntry raises e) = ie_path e" "riskRank (ie_risk e) \<le> riskRank (ie_risk (raiseEntry raises e))"
  by (simp_all add: raiseEntry_def riskRank_maxRisk split: option.splits)

lemma addAdvisory_all:
  assumes "foldR addAdvisory (known, additions) candidates = Inr (known', additions')"
  shows "additions' = additions @ map advisoryEntry candidates" "set known \<inter> ac_node_id ` set candidates = {}"
    "distinct (map ac_node_id candidates)"
proof -
  have "additions' = additions @ map advisoryEntry candidates \<and> set known \<inter> ac_node_id ` set candidates = {}
      \<and> distinct (map ac_node_id candidates)"
    using assms
  proof (induction candidates arbitrary: known additions)
    case (Cons a candidates)
    have step: "addAdvisory (known, additions) a = (if ac_node_id a \<in> set known then Inl ImpactError
        else Inr (ac_node_id a # known, additions @ [advisoryEntry a]))" by (simp add: addAdvisory_def)
    then have new: "ac_node_id a \<notin> set known"
      and rest: "foldR addAdvisory (ac_node_id a # known, additions @ [advisoryEntry a]) candidates = Inr (known', additions')"
      using Cons.prems by (auto split: if_splits)
    show ?case using Cons.IH [OF rest] new by auto
  qed simp
  then show "additions' = additions @ map advisoryEntry candidates" "set known \<inter> ac_node_id ` set candidates = {}"
    "distinct (map ac_node_id candidates)" by auto
qed

text \<open>
  A merged advisory only adds: every entry of the set is still there with the same classification,
  path and node and with at least its risk, every other entry is an advisory addition for a node the set
  did not have, and the seeds stay.
\<close>
theorem mergeImpactAdvisory_additive:
  assumes "mergeImpactAdvisory H node candidates signals = Inr merged"
    "readImpactSetContent node = Inr content" "readImpactSetContent merged = Inr content'"
  shows "ic_seeds content' = ic_seeds content
     \<and> (\<forall>e \<in> set (ic_entries content). \<exists>e' \<in> set (ic_entries content'). ie_node_id e' = ie_node_id e
          \<and> ie_classification e' = ie_classification e \<and> ie_path e' = ie_path e \<and> riskRank (ie_risk e) \<le> riskRank (ie_risk e'))
     \<and> (\<forall>e' \<in> set (ic_entries content'). ie_node_id e' \<in> ie_node_id ` set (ic_entries content)
          \<or> ie_path e' = [] \<and> ie_node_id e' \<in> ac_node_id ` set candidates)
     \<and> ac_node_id ` set candidates \<inter> ie_node_id ` set (ic_entries content) = {}"
proof -
  from assms obtain entries digest where e: "mergedEntries (ic_entries content) candidates signals = Inr entries"
    and c': "content' = \<lparr>ic_content_digest = digest, ic_seeds = ic_seeds content, ic_entries = entries, ic_approval_digest = None\<rparr>"
    by (auto simp: mergeImpactAdvisory_def rbind_Inr_iff sealNode_def readImpactSetContent_def split: if_splits option.splits)
  from e obtain known additions where a: "foldR addAdvisory (map ie_node_id (ic_entries content), []) candidates = Inr (known, additions)"
    and entries: "entries = sort_key ie_node_id (map (raiseEntry (foldl (addRaise known) [] signals)) (ic_entries content @ additions))"
    by (auto simp: mergedEntries_def rbind_Inr_iff)
  note add = addAdvisory_all [OF a]
  let ?raise = "raiseEntry (foldl (addRaise known) [] signals)"
  have set: "set entries = ?raise ` (set (ic_entries content) \<union> advisoryEntry ` set candidates)"
    using add(1) by (simp add: entries image_Un image_image)
  have adv: "ie_node_id (advisoryEntry a) = ac_node_id a \<and> ie_path (advisoryEntry a) = []" for a by (simp add: advisoryEntry_def)
  have "\<forall>e \<in> set (ic_entries content). \<exists>e' \<in> set entries. ie_node_id e' = ie_node_id e
          \<and> ie_classification e' = ie_classification e \<and> ie_path e' = ie_path e \<and> riskRank (ie_risk e) \<le> riskRank (ie_risk e')"
    using set raiseEntry_fields by (metis UnI1 imageI)
  moreover have "\<forall>e' \<in> set entries. ie_node_id e' \<in> ie_node_id ` set (ic_entries content)
          \<or> ie_path e' = [] \<and> ie_node_id e' \<in> ac_node_id ` set candidates"
    unfolding set by (auto simp: raiseEntry_fields adv)
  moreover have "ac_node_id ` set candidates \<inter> ie_node_id ` set (ic_entries content) = {}"
    using add(2) by auto
  ultimately show ?thesis by (simp add: c')
qed

text \<open>
  The approval gate is exact: a generated set passes only once it has been frozen by an approval, the
  frozen set passes for exactly the content digest the approval was asked for, and it can neither be
  frozen again nor take an advisory.
\<close>
theorem impact_approval_roundtrip:
  assumes "generateImpactSet H seeds nodes edges ctx policy = Inr node" "freezeImpactSet H node approval = Inr frozen"
  shows "(assertApprovedImpactSet H frozen d = Inr () \<longleftrightarrow> impactSetContentDigest node = Inr d)
     \<and> assertApprovedImpactSet H node d = Inl ImpactError
     \<and> freezeImpactSet H frozen other = Inl ImpactError \<and> mergeImpactAdvisory H frozen candidates signals = Inl ImpactError"
proof -
  obtain entries digest where g: "digestContent H (sortSeeds seeds) entries = Inr digest"
    "nr_impact node = Some \<lparr>ic_content_digest = digest, ic_seeds = sortSeeds seeds, ic_entries = entries, ic_approval_digest = None\<rparr>"
    "nr_type node = ''ImpactSet''" "nr_status node = ''proposed''"
    using generated_content [OF assms(1)] by metis
  then have f: "nr_impact frozen = Some \<lparr>ic_content_digest = digest, ic_seeds = sortSeeds seeds, ic_entries = entries, ic_approval_digest = Some approval\<rparr>"
    "nr_type frozen = ''ImpactSet''" "nr_status frozen = ''accepted''"
    using assms(2) by (auto simp: freezeImpactSet_def readImpactSetContent_def rbind_Inr_iff sealNode_def)
  show ?thesis
    using g f by (auto simp: assertApprovedImpactSet_def impactSetContentDigest_def readImpactSetContent_def freezeImpactSet_def
        mergeImpactAdvisory_def)
qed

section \<open>An example change\<close>

lemma sealNode_example: "nr_extensions n = [] \<Longrightarrow> \<exists>d. sealNode exampleHost n = Inr (n\<lparr>nr_digest := d\<rparr>)"
proof -
  assume "nr_extensions n = []"
  then have "wellKeyed exampleHost (nodeJson n)"
    by (auto simp: nodeJson_def contentJson_def seedJson_def entryJson_def list_all_iff split: option.splits)
  then show ?thesis using contentDigest_example by (fastforce simp: sealNode_def)
qed

lemma digestContent_example: "\<exists>d. digestContent exampleHost seeds entries = Inr d"
proof -
  have "wellKeyed exampleHost (JObj [(''seeds'', JArr (map seedJson seeds)), (''entries'', JArr (map entryJson entries))])"
    by (auto simp: seedJson_def entryJson_def list_all_iff)
  then show ?thesis using contentDigest_example unfolding digestContent_def by blast
qed

definition exampleNode :: "string \<Rightarrow> string \<Rightarrow> node_record" where
  "exampleNode i type = \<lparr>nr_protocol_version = PROTOCOL_VERSION, nr_id = i, nr_type = type, nr_revision = 1, nr_status = ''accepted'',
     nr_source = ''workflow'', nr_iteration_id = ''it_1'', nr_actor = ''a'', nr_timestamp = ''i'', nr_confidence = 1,
     nr_extensions = [], nr_impact = None, nr_digest = []\<rparr>"

definition exampleNodes :: "node_record list" where
  "exampleNodes = [exampleNode ''code'' ''CodeArtifact'', exampleNode ''comp'' ''Component'', exampleNode ''dec'' ''Decision'',
     exampleNode ''test'' ''Test'']"

definition exampleSeed :: change_seed where
  "exampleSeed = \<lparr>cs_id = ''s'', cs_nodeId = ''dec'', cs_kind = content_change, cs_iterationKind = feature, cs_reason = ''r''\<rparr>"

definition exampleContext :: impact_set_context where
  "exampleContext = \<lparr>ix_iterationId = ''it_1'', ix_actor = ''a'', ix_timestamp = ''i''\<rparr>"

lemma example_entries:
  "map_sum id (map (\<lambda>e. (ie_node_id e, ie_classification e)))
     (impactEntries exampleHost exampleNodes exampleEdges DEFAULT_PROPAGATION_POLICY [exampleSeed])
   = Inr [(''code'', must_change), (''comp'', must_change), (''dec'', must_change), (''test'', inspect)]"
  by code_simp

text \<open>The generated set, and the set frozen by an approval.\<close>

lemma example_set:
  obtains node content where
    "generateImpactSet exampleHost [exampleSeed] exampleNodes exampleEdges exampleContext DEFAULT_PROPAGATION_POLICY = Inr node"
    "readImpactSetContent node = Inr content" "nr_extensions node = []" "nr_status node = ''proposed''" "nr_type node = ''ImpactSet''"
    "map (\<lambda>e. (ie_node_id e, ie_classification e)) (ic_entries content)
       = [(''code'', must_change), (''comp'', must_change), (''dec'', must_change), (''test'', inspect)]"
proof -
  obtain entries where e: "impactEntries exampleHost exampleNodes exampleEdges DEFAULT_PROPAGATION_POLICY [exampleSeed] = Inr entries"
    "map (\<lambda>e. (ie_node_id e, ie_classification e)) entries
       = [(''code'', must_change), (''comp'', must_change), (''dec'', must_change), (''test'', inspect)]"
    using example_entries
    by (cases "impactEntries exampleHost exampleNodes exampleEdges DEFAULT_PROPAGATION_POLICY [exampleSeed]") auto
  obtain d where d: "digestContent exampleHost (sortSeeds [exampleSeed]) entries = Inr d" using digestContent_example by blast
  let ?n = "\<lparr>nr_protocol_version = PROTOCOL_VERSION, nr_id = ''impactset_'' @ take 16 d, nr_type = ''ImpactSet'',
          nr_revision = 1, nr_status = ''proposed'', nr_source = ''workflow'', nr_iteration_id = ix_iterationId exampleContext,
          nr_actor = ix_actor exampleContext, nr_timestamp = ix_timestamp exampleContext, nr_confidence = 1, nr_extensions = [],
          nr_impact = Some \<lparr>ic_content_digest = d, ic_seeds = sortSeeds [exampleSeed], ic_entries = entries, ic_approval_digest = None\<rparr>,
          nr_digest = []\<rparr>"
  obtain s where s: "sealNode exampleHost ?n = Inr (?n\<lparr>nr_digest := s\<rparr>)" using sealNode_example [of ?n] by auto
  then have "generateImpactSet exampleHost [exampleSeed] exampleNodes exampleEdges exampleContext DEFAULT_PROPAGATION_POLICY
      = Inr (?n\<lparr>nr_digest := s\<rparr>)"
    using e(1) d by (simp add: generateImpactSet_def)
  then show ?thesis 
    by (rule that [of _ "\<lparr>ic_content_digest = d, ic_seeds = sortSeeds [exampleSeed], ic_entries = entries, ic_approval_digest = None\<rparr>"])
      (simp_all add: readImpactSetContent_def e(2))
qed

theorem generateImpactSet_strongest_witness:
  "\<exists>seed \<in> {exampleSeed}. \<exists>path. assessedBy exampleHost exampleNodes exampleEdges DEFAULT_PROPAGATION_POLICY seed ''code'' path
     \<and> (\<forall>step \<in> set path. \<not> st_inferred step)"
proof (rule example_set)
  fix node content
  assume g: "generateImpactSet exampleHost [exampleSeed] exampleNodes exampleEdges exampleContext DEFAULT_PROPAGATION_POLICY = Inr node"
    "readImpactSetContent node = Inr content"
    and e: "map (\<lambda>e. (ie_node_id e, ie_classification e)) (ic_entries content)
       = [(''code'', must_change), (''comp'', must_change), (''dec'', must_change), (''test'', inspect)]"
  have "(''code'', must_change) \<in> set (map (\<lambda>e. (ie_node_id e, ie_classification e)) (ic_entries content))" unfolding e by simp
  then obtain x where "x \<in> set (ic_entries content)" "ie_node_id x = ''code''" "ie_classification x = must_change" by auto
  then show ?thesis using generateImpactSet_strongest [OF g] by fastforce
qed

theorem mergeImpactAdvisory_additive_witness:
  "\<exists>node merged content content'. mergeImpactAdvisory exampleHost node [] [\<lparr>rs_node_id = ''code'', rs_risk = risk_high\<rparr>] = Inr merged
     \<and> readImpactSetContent node = Inr content \<and> readImpactSetContent merged = Inr content' \<and> length (ic_entries content) = 4
     \<and> ic_seeds content' = ic_seeds content"
proof (rule example_set)
  fix node content
  let ?signals = "[\<lparr>rs_node_id = ''code'', rs_risk = risk_high\<rparr>]"
  assume n: "nr_status node = ''proposed''" "readImpactSetContent node = Inr content" "nr_extensions node = []" "nr_type node = ''ImpactSet''"
    and e: "map (\<lambda>e. (ie_node_id e, ie_classification e)) (ic_entries content)
       = [(''code'', must_change), (''comp'', must_change), (''dec'', must_change), (''test'', inspect)]"
  obtain entries where m: "mergedEntries (ic_entries content) [] ?signals = Inr entries" by (simp add: mergedEntries_def)
  obtain d where d: "digestContent exampleHost (ic_seeds content) entries = Inr d" using digestContent_example by blast
  let ?n = "node\<lparr>nr_id := ''impactset_'' @ take 16 d,
    nr_impact := Some \<lparr>ic_content_digest = d, ic_seeds = ic_seeds content, ic_entries = entries, ic_approval_digest = None\<rparr>\<rparr>"
  obtain s where "sealNode exampleHost ?n = Inr (?n\<lparr>nr_digest := s\<rparr>)" using sealNode_example [of ?n] n(3) by auto
  then have merged: "mergeImpactAdvisory exampleHost node [] ?signals = Inr (?n\<lparr>nr_digest := s\<rparr>)"
    using n m d by (simp add: mergeImpactAdvisory_def)
  obtain content' where c': "readImpactSetContent (?n\<lparr>nr_digest := s\<rparr>) = Inr content'" using n(4) by (simp add: readImpactSetContent_def)
  have "length (ic_entries content) = 4" using arg_cong [OF e, of length] by simp
  then show ?thesis using merged n(2) c' mergeImpactAdvisory_additive [OF merged n(2) c'] by blast
qed

theorem impact_approval_roundtrip_witness:
  "\<exists>node frozen d. impactSetContentDigest node = Inr d \<and> freezeImpactSet exampleHost node ''approval'' = Inr frozen
     \<and> assertApprovedImpactSet exampleHost frozen d = Inr () \<and> assertApprovedImpactSet exampleHost node d = Inl ImpactError"
proof (rule example_set)
  fix node content
  assume g: "generateImpactSet exampleHost [exampleSeed] exampleNodes exampleEdges exampleContext DEFAULT_PROPAGATION_POLICY = Inr node"
    and n: "nr_status node = ''proposed''" "readImpactSetContent node = Inr content" "nr_extensions node = []"
  let ?n = "node\<lparr>nr_revision := nr_revision node + 1, nr_status := ''accepted'',
    nr_impact := Some (content\<lparr>ic_approval_digest := Some ''approval''\<rparr>)\<rparr>"
  obtain s where "sealNode exampleHost ?n = Inr (?n\<lparr>nr_digest := s\<rparr>)" using sealNode_example [of ?n] n(3) by auto
  then have f: "freezeImpactSet exampleHost node ''approval'' = Inr (?n\<lparr>nr_digest := s\<rparr>)" using n by (simp add: freezeImpactSet_def)
  have d: "impactSetContentDigest node = Inr (ic_content_digest content)" using n(2) by (simp add: impactSetContentDigest_def)
  show ?thesis
    using d f impact_approval_roundtrip [OF g f, of "ic_content_digest content" "[]" "[]" "[]"] by blast
qed

end
