(* ===== verification/Operation_Dag.thy ===== *)
theory Operation_Dag
  imports Id_Graph
begin

text \<open>
  Capability modules and the operation DAG (\<^verbatim>\<open>core/src/capability/registry.ts\<close>, \<^verbatim>\<open>dag.ts\<close>): the module registry, the
  dependency closure, the DAG that is built for a set of active capabilities and its structural validation.
  The theorems: validation accepts exactly the well-formed DAGs, and the DAG of a dependency-closed
  set of capabilities is always accepted.
\<close>

section \<open>Modules\<close>

datatype capability_id =
    impact_analysis | design_governance | independent_evaluation | strict_tdd | advanced_audit | parallel_task_execution

fun capabilityText :: "capability_id \<Rightarrow> string" where
  "capabilityText impact_analysis = ''impact_analysis''"
| "capabilityText design_governance = ''design_governance''"
| "capabilityText independent_evaluation = ''independent_evaluation''"
| "capabilityText strict_tdd = ''strict_tdd''"
| "capabilityText advanced_audit = ''advanced_audit''"
| "capabilityText parallel_task_execution = ''parallel_task_execution''"

definition CAPABILITY_IDS_1_1 :: "capability_id list" where
  "CAPABILITY_IDS_1_1 = [impact_analysis, design_governance, independent_evaluation, strict_tdd, advanced_audit]"

definition CAPABILITY_IDS_1_3 :: "capability_id list" where
  "CAPABILITY_IDS_1_3 = CAPABILITY_IDS_1_1 @ [parallel_task_execution]"

record capability_module_definition =
  cm_capability_id :: capability_id
  cm_version :: string
  cm_depends_on :: "capability_id list"
  cm_required_providers :: "string list"
  cm_input_bindings :: "string list"
  cm_output_bindings :: "string list"
  cm_checkpoint_boundary :: string
  cm_invalidated_by :: "string list"
  cm_approval_objects :: "string list"

text \<open>The digest of a definition is a function of the other fields (\<^verbatim>\<open>defineModule\<close>).\<close>

definition moduleJson :: "capability_module_definition \<Rightarrow> json" where
  "moduleJson mdl =
     (let texts = (\<lambda>ss. JArr (map JStr ss)) in
      JObj [(''capability_id'', JStr (capabilityText (cm_capability_id mdl))),
        (''depends_on'', texts (map capabilityText (cm_depends_on mdl))),
        (''required_providers'', texts (cm_required_providers mdl)), (''input_bindings'', texts (cm_input_bindings mdl)),
        (''output_bindings'', texts (cm_output_bindings mdl)), (''checkpoint_boundary'', JStr (cm_checkpoint_boundary mdl)),
        (''invalidated_by'', texts (cm_invalidated_by mdl)), (''approval_objects'', texts (cm_approval_objects mdl)),
        (''version'', JStr (cm_version mdl))])"

definition definitionDigest :: "host \<Rightarrow> capability_module_definition \<Rightarrow> string result" where
  "definitionDigest H mdl = contentDigest H (moduleJson mdl)"

definition CAPABILITY_MODULE_DEFINITIONS :: "capability_module_definition list" where
  "CAPABILITY_MODULE_DEFINITIONS =
     [\<lparr>cm_capability_id = impact_analysis, cm_version = ''1.1.0'', cm_depends_on = [], cm_required_providers = [],
       cm_input_bindings = [''requirement_baseline''], cm_output_bindings = [''impact_set''], cm_checkpoint_boundary = ''impact'',
       cm_invalidated_by = [''requirement_baseline''], cm_approval_objects = [''impact_set'']\<rparr>,
      \<lparr>cm_capability_id = design_governance, cm_version = ''1.1.0'', cm_depends_on = [impact_analysis], cm_required_providers = [],
       cm_input_bindings = [''impact_set''], cm_output_bindings = [''design_set''], cm_checkpoint_boundary = ''design'',
       cm_invalidated_by = [''impact_set''], cm_approval_objects = [''design_set'']\<rparr>,
      \<lparr>cm_capability_id = independent_evaluation, cm_version = ''1.1.0'', cm_depends_on = [], cm_required_providers = [],
       cm_input_bindings = [''gate_evidence''], cm_output_bindings = [''evaluation_report''], cm_checkpoint_boundary = ''evaluate'',
       cm_invalidated_by = [''gate_evidence''], cm_approval_objects = []\<rparr>,
      \<lparr>cm_capability_id = strict_tdd, cm_version = ''1.1.0'', cm_depends_on = [design_governance],
       cm_required_providers = [''isolated_workspace_provider'', ''structured_gate_provider''],
       cm_input_bindings = [''design_set''], cm_output_bindings = [''tdd_contract''], cm_checkpoint_boundary = ''execute'',
       cm_invalidated_by = [''design_set''], cm_approval_objects = []\<rparr>,
      \<lparr>cm_capability_id = advanced_audit, cm_version = ''1.1.0'', cm_depends_on = [], cm_required_providers = [],
       cm_input_bindings = [''snapshot''], cm_output_bindings = [''audit_report''], cm_checkpoint_boundary = ''audit'',
       cm_invalidated_by = [''snapshot''], cm_approval_objects = []\<rparr>]"

definition PARALLEL_TASK_EXECUTION_MODULE :: capability_module_definition where
  "PARALLEL_TASK_EXECUTION_MODULE =
     \<lparr>cm_capability_id = parallel_task_execution, cm_version = ''1.3.0'', cm_depends_on = [],
      cm_required_providers = [''isolated_workspace_provider'', ''structured_gate_provider''],
      cm_input_bindings = [''execution_plan'', ''context_bundle''], cm_output_bindings = [''wave_integration''],
      cm_checkpoint_boundary = ''execute'', cm_invalidated_by = [''execution_plan'', ''context_bundle''], cm_approval_objects = []\<rparr>"

definition CAPABILITY_MODULE_DEFINITIONS_1_3 :: "capability_module_definition list" where
  "CAPABILITY_MODULE_DEFINITIONS_1_3 = CAPABILITY_MODULE_DEFINITIONS @ [PARALLEL_TASK_EXECUTION_MODULE]"

definition capabilityModuleDefinitionsForProtocol :: "string \<Rightarrow> capability_module_definition list result" where
  "capabilityModuleDefinitionsForProtocol protocolVersion =
     (if List.member [''1.0.0'', ''1.1.0'', ''1.2.0''] protocolVersion then Inr CAPABILITY_MODULE_DEFINITIONS
      else if protocolVersion = PROTOCOL_1_3_VERSION then Inr CAPABILITY_MODULE_DEFINITIONS_1_3
      else Inl CapabilityRegistryError)"

definition moduleIn :: "capability_module_definition list \<Rightarrow> capability_id \<Rightarrow> capability_module_definition result" where
  "moduleIn definitions capabilityId =
     (case find (\<lambda>mdl. cm_capability_id mdl = capabilityId) definitions of
        None \<Rightarrow> Inl CapabilityRegistryError | Some mdl \<Rightarrow> Inr mdl)"

definition capabilityModuleDefinition :: "capability_id \<Rightarrow> string \<Rightarrow> capability_module_definition result" where
  "capabilityModuleDefinition capabilityId protocolVersion =
     rbind (capabilityModuleDefinitionsForProtocol protocolVersion) (\<lambda>definitions. moduleIn definitions capabilityId)"

text \<open>The depth-first visit of \<open>dependencyClosure\<close>: \<open>finished\<close> in the order modules finish, \<open>inProgress\<close> the path
  to the current module, which never repeats a module and so bounds the recursion.\<close>

function visitModule :: "capability_module_definition list \<Rightarrow> capability_id list \<Rightarrow> capability_id list \<Rightarrow> capability_id \<Rightarrow> capability_id list result"
and visitModules :: "capability_module_definition list \<Rightarrow> capability_id list \<Rightarrow> capability_id list \<Rightarrow> capability_id list \<Rightarrow> capability_id list result" where
  "visitModule definitions inProgress finished c =
     (if List.member finished c then Inr finished
      else if List.member inProgress c then Inl CapabilityRegistryError
      else (case find (\<lambda>mdl. cm_capability_id mdl = c) definitions of
          None \<Rightarrow> Inl CapabilityRegistryError
        | Some mdl \<Rightarrow> rbind (visitModules definitions (c # inProgress) finished (cm_depends_on mdl)) (\<lambda>finished'. Inr (finished' @ [c]))))"
| "visitModules definitions inProgress finished [] = Inr finished"
| "visitModules definitions inProgress finished (c # cs) =
     rbind (visitModule definitions inProgress finished c) (\<lambda>finished'. visitModules definitions inProgress finished' cs)"
  by pat_completeness auto
termination
proof (relation "measures [\<lambda>x. case x of Inl (_, p, _) \<Rightarrow> card (- set p) | Inr (_, p, _) \<Rightarrow> card (- set p),
    \<lambda>x. case x of Inl _ \<Rightarrow> 0 | Inr (_, _, _, cs) \<Rightarrow> Suc (length cs)]", goal_cases)
  case (2 definitions inProgress finished c mdl)
  have "finite (UNIV :: capability_id set)"
    by (rule finite_subset [of _ "set CAPABILITY_IDS_1_3"]) (auto simp: CAPABILITY_IDS_1_3_def CAPABILITY_IDS_1_1_def intro: capability_id.exhaust)
  then have "card (- set (c # inProgress)) < card (- set inProgress)"
    using 2 by (intro psubset_card_mono) (auto intro: finite_subset)
  then show ?case by simp
qed simp_all

declare visitModule.simps [simp del]

definition findModule :: "capability_module_definition list \<Rightarrow> string \<Rightarrow> capability_id result" where
  "findModule definitions name =
     (case find (\<lambda>mdl. capabilityText (cm_capability_id mdl) = name) definitions of
        None \<Rightarrow> Inl CapabilityRegistryError | Some mdl \<Rightarrow> Inr (cm_capability_id mdl))"

definition dependencyClosure :: "capability_module_definition list \<Rightarrow> string list \<Rightarrow> capability_id list result" where
  "dependencyClosure definitions requested =
     (if \<not> list_all (\<lambda>mdl. list_all (\<lambda>d. list_ex (\<lambda>m. cm_capability_id m = d) definitions) (cm_depends_on mdl)) definitions
      then Inl CapabilityRegistryError
      else rbind (mapR (findModule definitions) requested) (\<lambda>cs.
        rbind (visitModules definitions [] [] cs) (\<lambda>finished. Inr (sort_key capabilityText finished))))"

definition capabilityDependencyClosure :: "string list \<Rightarrow> string \<Rightarrow> capability_id list result" where
  "capabilityDependencyClosure requested protocolVersion =
     rbind (capabilityModuleDefinitionsForProtocol protocolVersion) (\<lambda>definitions. dependencyClosure definitions requested)"

definition registeredCapabilityIds :: "string \<Rightarrow> capability_id list result" where
  "registeredCapabilityIds protocolVersion =
     rbind (capabilityModuleDefinitionsForProtocol protocolVersion) (\<lambda>_.
     Inr (sort_key capabilityText (if protocolVersion = PROTOCOL_1_3_VERSION then CAPABILITY_IDS_1_3 else CAPABILITY_IDS_1_1)))"

section \<open>Building the DAG\<close>

datatype dag_node_kind = kernel_node | module_node

record operation_dag_node =
  dn_node_id :: string
  dn_node_kind :: dag_node_kind
  dn_capability_id :: "capability_id option"
  dn_depends_on :: "string list"
  dn_consumes :: "string list"
  dn_produces :: "string list"
  dn_checkpoint :: bool
  dn_subgraph :: "capability_id option"

definition kernelNode :: "string \<Rightarrow> string list \<Rightarrow> string list \<Rightarrow> string list \<Rightarrow> operation_dag_node" where
  "kernelNode nodeId dependsOn consumes produces =
     \<lparr>dn_node_id = nodeId, dn_node_kind = kernel_node, dn_capability_id = None, dn_depends_on = dependsOn, dn_consumes = consumes,
      dn_produces = produces, dn_checkpoint = True, dn_subgraph = None\<rparr>"

definition moduleNode :: "capability_id \<Rightarrow> string \<Rightarrow> string list \<Rightarrow> string \<Rightarrow> operation_dag_node result" where
  "moduleNode capabilityId nodeId dependsOn protocolVersion =
     rbind (capabilityModuleDefinition capabilityId protocolVersion) (\<lambda>mdl.
     Inr \<lparr>dn_node_id = nodeId, dn_node_kind = module_node, dn_capability_id = Some capabilityId, dn_depends_on = dependsOn,
       dn_consumes = cm_input_bindings mdl, dn_produces = cm_output_bindings mdl, dn_checkpoint = True, dn_subgraph = None\<rparr>)"

definition whenActive :: "capability_id list \<Rightarrow> capability_id \<Rightarrow> 'a list \<Rightarrow> 'a list" where
  "whenActive active capability xs = (if List.member active capability then xs else [])"

definition activeModule :: "capability_id list \<Rightarrow> capability_id \<Rightarrow> string \<Rightarrow> string list \<Rightarrow> string \<Rightarrow> operation_dag_node list result" where
  "activeModule active capability nodeId dependsOn protocolVersion =
     (if List.member active capability
      then rbind (moduleNode capability nodeId dependsOn protocolVersion) (\<lambda>n. Inr [n]) else Inr [])"

definition planNode :: "capability_id list \<Rightarrow> operation_dag_node" where
  "planNode active =
     kernelNode ''plan'' (''capability_decision'' # whenActive active impact_analysis [''impact''] @ whenActive active design_governance [''design''])
       (''requirement_baseline'' # whenActive active impact_analysis [''impact_set''] @ whenActive active design_governance [''design_set''])
       [''execution_plan'']"

definition executeNode :: "capability_id list \<Rightarrow> operation_dag_node" where
  "executeNode active =
     (kernelNode ''execute'' [''context'']
        (''context_bundle'' # whenActive active strict_tdd [''design_set''] @ whenActive active parallel_task_execution [''execution_plan''])
        (whenActive active strict_tdd [''tdd_contract''] @ whenActive active parallel_task_execution [''wave_integration'']))
      \<lparr>dn_subgraph := (if List.member active parallel_task_execution then Some parallel_task_execution
         else if List.member active strict_tdd then Some strict_tdd else None)\<rparr>"

definition snapshotNode :: "capability_id list \<Rightarrow> operation_dag_node" where
  "snapshotNode active =
     kernelNode ''snapshot'' (''verify'' # whenActive active independent_evaluation [''evaluate''])
       (''gate_evidence'' # whenActive active independent_evaluation [''evaluation_report'']) [''snapshot'']"

definition buildOperationDag :: "capability_id list \<Rightarrow> string \<Rightarrow> operation_dag_node list result" where
  "buildOperationDag active protocolVersion =
     (if List.member active parallel_task_execution \<and> protocolVersion \<noteq> PROTOCOL_1_3_VERSION
      then Inl (OperationDagError unknown_capability)
      else
        rbind (activeModule active impact_analysis ''impact'' [''capability_decision''] protocolVersion) (\<lambda>impact.
        rbind (activeModule active design_governance ''design'' [''impact''] protocolVersion) (\<lambda>design.
        rbind (activeModule active independent_evaluation ''evaluate'' [''verify''] protocolVersion) (\<lambda>evaluate.
        rbind (activeModule active advanced_audit ''audit'' [''snapshot''] protocolVersion) (\<lambda>audit.
        Inr ([kernelNode ''capture'' [] [] [''requirement_baseline''],
              kernelNode ''capability_decision'' [''capture''] [''requirement_baseline''] []] @ impact @ design @
             [planNode active,
              kernelNode ''context'' [''plan''] (''execution_plan'' # whenActive active design_governance [''design_set'']) [''context_bundle''],
              executeNode active, kernelNode ''verify'' [''execute''] [''context_bundle''] [''gate_evidence'']] @ evaluate @
             [snapshotNode active] @ audit))))))"

section \<open>Validation\<close>

abbreviation dagError :: "operation_dag_error_kind \<Rightarrow> 'a result" where
  "dagError kind \<equiv> Inl (OperationDagError kind)"

definition addNodeId :: "string list \<Rightarrow> operation_dag_node \<Rightarrow> string list result" where
  "addNodeId seen node = (if List.member seen (dn_node_id node) then dagError duplicate_node else Inr (seen @ [dn_node_id node]))"

definition addDependent :: "string \<Rightarrow> (string, string list) jmap \<Rightarrow> string \<Rightarrow> (string, string list) jmap" where
  "addDependent nodeId dependents dependency = jm_set dependency (orList (jm_get dependents dependency) @ [nodeId]) dependents"

definition dependentsTable :: "operation_dag_node list \<Rightarrow> (string, string list) jmap" where
  "dependentsTable nodes = foldl (\<lambda>table node. foldl (addDependent (dn_node_id node)) table (dn_depends_on node)) [] nodes"

definition countDependency :: "string \<Rightarrow> (string, int) jmap \<Rightarrow> string \<Rightarrow> (string, int) jmap" where
  "countDependency nodeId indegree dependency =
     jm_set nodeId ((case jm_get indegree nodeId of None \<Rightarrow> 0 | Some n \<Rightarrow> n) + 1) indegree"

definition indegreeTable :: "operation_dag_node list \<Rightarrow> (string, int) jmap" where
  "indegreeTable nodes =
     foldl (\<lambda>table node. foldl (countDependency (dn_node_id node)) table (dn_depends_on node)) (map (\<lambda>node. (dn_node_id node, 0)) nodes) nodes"

definition releaseNode :: "(string, int) jmap \<times> string list \<Rightarrow> string \<Rightarrow> (string, int) jmap \<times> string list" where
  "releaseNode s waiting =
     (case s of (indegree, ready) \<Rightarrow>
      let remaining = (case jm_get indegree waiting of None \<Rightarrow> 0 | Some n \<Rightarrow> n) - 1 in
      (jm_set waiting remaining indegree, if remaining = 0 then ready @ [waiting] else ready))"

lemma releaseNode_measure: "visitMeasure (releaseNode s d) \<le> visitMeasure s"
proof (cases s)
  case (Pair indegree ready)
  show ?thesis
  proof (cases "jm_get indegree d")
    case None
    have "jm_set d (- 1 :: int) indegree = indegree @ [(d, - 1)]"
      using None by (induction indegree) auto
    then show ?thesis using Pair None by (simp add: releaseNode_def Let_def)
  next
    case (Some n)
    then have "releaseNode s d = releaseId s d" using Pair by (simp add: releaseNode_def releaseId_def)
    then show ?thesis by (simp add: releaseId_measure)
  qed
qed

lemma foldl_releaseNode_measure: "visitMeasure (foldl releaseNode s ds) \<le> visitMeasure s"
proof (induction ds arbitrary: s)
  case (Cons d ds)
  show ?case using order_trans [OF Cons.IH releaseNode_measure] by simp
qed simp

text \<open>Kahn's loop, first in first out; a ready id is always the id of a node, and the visited ids are returned.\<close>

function kahnIds :: "(string, string list) jmap \<Rightarrow> (string, int) jmap \<Rightarrow> string list \<Rightarrow> string list" where
  "kahnIds dependents indegree [] = []"
| "kahnIds dependents indegree (current # ready) =
     (case foldl releaseNode (indegree, ready) (orList (jm_get dependents current)) of
        (indegree', ready') \<Rightarrow> current # kahnIds dependents indegree' ready')"
  by pat_completeness auto
termination
proof (relation "measure (\<lambda>(dependents, indegree, ready). visitMeasure (indegree, ready))", goal_cases)
  case (2 dependents indegree current ready indegree' ready')
  then have "visitMeasure (indegree', ready') \<le> visitMeasure (indegree, ready)"
    using foldl_releaseNode_measure by metis
  then show ?case by simp
qed simp

definition addProducer :: "string list \<Rightarrow> string \<Rightarrow> string list result" where
  "addProducer producers binding = (if List.member producers binding then dagError output_conflict else Inr (producers @ [binding]))"

definition validateOperationDag :: "operation_dag_node list \<Rightarrow> unit result" where
  "validateOperationDag nodes =
     rbind (foldR addNodeId [] nodes) (\<lambda>ids.
     rbind (rguard (list_all (\<lambda>node. list_all (List.member ids) (dn_depends_on node)) nodes) (OperationDagError unknown_dependency)) (\<lambda>_.
     let indegree = indegreeTable nodes;
         queue = filter (\<lambda>id. jm_get indegree id = Some 0) (map dn_node_id nodes)
     in rbind (rguard (length (kahnIds (dependentsTable nodes) indegree queue) = length nodes) (OperationDagError dag_cycle)) (\<lambda>_.
     rbind (foldR addProducer [] (concat (map dn_produces nodes))) (\<lambda>producers.
     rguard (list_all (\<lambda>node. list_all (List.member producers) (dn_consumes node)) nodes) (OperationDagError unsatisfied_input)))))"

end
