(* ===== verification/Dag_Valid.thy ===== *)
theory Dag_Valid
  imports Operation_Dag
begin

text \<open>
  What the operation DAG checks guarantee (\<^verbatim>\<open>core/src/capability/registry.ts\<close>, \<^verbatim>\<open>dag.ts\<close>): the closure is the least set that
  contains the request and its dependencies, validation reports the first defect there is, and the DAG of a
  closed set of capabilities has none.
\<close>

section \<open>The tables of Kahn's loop\<close>

interpretation dag: id_graph dn_node_id dn_depends_on .

lemma countDependencies:
  "jm_get (foldl (countDependency k) table ds) x =
     (if x = k \<and> ds \<noteq> [] then Some ((case jm_get table k of None \<Rightarrow> 0 | Some n \<Rightarrow> n) + int (length ds)) else jm_get table x)"
proof (induction ds arbitrary: table)
  case (Cons d ds)
  then show ?case by (auto simp: countDependency_def update_conv' split: option.splits)
qed simp

lemma indegreeTable_spec:
  assumes "distinct (map dn_node_id nodes)" "n \<in> set nodes"
  shows "jm_get (indegreeTable nodes) (dn_node_id n) = Some (int (length (dn_depends_on n)))"
proof -
  have rest: "jm_get (foldl (\<lambda>table node. foldl (countDependency (dn_node_id node)) table (dn_depends_on node)) t ns) (dn_node_id n)
      = jm_get t (dn_node_id n)" if "dn_node_id n \<notin> dn_node_id ` set ns" for t ns
    using that by (induction ns arbitrary: t) (auto simp: countDependencies)
  have zero: "jm_get (map (\<lambda>node. (dn_node_id node, 0 :: int)) ns) (dn_node_id n) = Some 0" if "n \<in> set ns" for ns
    using that by (induction ns) auto
  obtain us vs where split: "nodes = us @ n # vs" using assms(2) by (auto dest: split_list)
  then have "dn_node_id n \<notin> dn_node_id ` set us" "dn_node_id n \<notin> dn_node_id ` set vs" using assms(1) by auto
  then show ?thesis using zero [OF assms(2)] by (simp add: indegreeTable_def split rest countDependencies)
qed

lemma dependentsTable_spec: "orList (jm_get (dependentsTable nodes) k) = dag.idEdges nodes k"
proof -
  have one: "orList (jm_get (foldl (addDependent i) table ds) k) = orList (jm_get table k) @ replicate (count_list ds k) i" for i table ds
    by (induction ds arbitrary: table) (auto simp: addDependent_def update_conv' orList_def replicate_app_Cons_same split: option.splits)
  have "orList (jm_get (foldl (\<lambda>table node. foldl (addDependent (dn_node_id node)) table (dn_depends_on node)) table nodes) k)
      = orList (jm_get table k) @ dag.idEdges nodes k" for table
    by (induction nodes arbitrary: table) (simp_all add: one dag.idEdges_def)
  then show ?thesis by (simp add: dependentsTable_def orList_def)
qed

lemma foldl_releaseNode:
  "\<forall>d \<in> set ds. jm_get indegree d \<noteq> None \<Longrightarrow> foldl releaseNode (indegree, ready) ds = foldl releaseId (indegree, ready) ds"
proof (induction ds arbitrary: indegree ready)
  case (Cons d ds)
  then obtain n where "jm_get indegree d = Some n" by auto
  then show ?case using Cons by (simp add: releaseNode_def releaseId_def Let_def)
qed simp

lemma kahnIds_order:
  assumes "dag.idInv nodes indegree ready order []" "distinct (map dn_node_id nodes)"
    and "\<forall>k. orList (jm_get dependents k) = dag.idEdges nodes k" "dag.rankedIds nodes order"
  shows "\<exists>indegree'. dag.rankedIds nodes (order @ kahnIds dependents indegree ready)
     \<and> dag.idInv nodes indegree' [] (order @ kahnIds dependents indegree ready) []"
  using assms
proof (induction dependents indegree ready arbitrary: order rule: kahnIds.induct)
  case (1 dependents indegree)
  then show ?case by auto
next
  case (2 dependents indegree current ready)
  let ?ds = "dag.idEdges nodes current"
  have ds: "set ?ds \<subseteq> dn_node_id ` set nodes" by (auto simp: dag.idEdges_def)
  then have some: "\<forall>d \<in> set ?ds. jm_get indegree d \<noteq> None" using "2.prems"(1) by (auto simp: dag.idInv_def)
  obtain i' r' where fold: "foldl releaseId (indegree, ready) ?ds = (i', r')" by fastforce
  have inv: "dag.idInv nodes i' r' (order @ [current]) []"
    by (rule dag.idInv_release_all [OF dag.idInv_take [OF "2.prems"(1,2) refl] ds fold])
  have "set (dn_depends_on n) \<subseteq> set order" if "n \<in> set nodes" "dn_node_id n = current" for n
    using "2.prems"(1) that by (auto simp: dag.idInv_def simp flip: dag.unmetIds_0_iff)
  then have ranked: "dag.rankedIds nodes (order @ [current])" by (rule dag.rankedIds_snoc [OF "2.prems"(4)])
  have step: "foldl releaseNode (indegree, ready) (orList (jm_get dependents current)) = (i', r')"
    using "2.prems"(3) fold foldl_releaseNode [OF some] by simp
  have "\<exists>indegree'. dag.rankedIds nodes ((order @ [current]) @ kahnIds dependents i' r')
     \<and> dag.idInv nodes indegree' [] ((order @ [current]) @ kahnIds dependents i' r') []"
    by (rule "2.IH" [OF step [symmetric] inv "2.prems"(2,3) ranked])
  then show ?case using step by simp
qed

text \<open>The ids the loop visits, started from the nodes without dependencies.\<close>

lemma kahn_visits:
  assumes "distinct (map dn_node_id nodes)" "dag.known nodes" "distinct ready" "set ready = dn_node_id ` {n \<in> set nodes. dn_depends_on n = []}"
    and "\<forall>n \<in> set nodes. jm_get indegree (dn_node_id n) = Some (int (length (dn_depends_on n)))"
  obtains order where "order = kahnIds (dependentsTable nodes) indegree ready" "distinct order" "set order \<subseteq> dn_node_id ` set nodes"
    "dag.rankedIds nodes order" "length order = length nodes \<longleftrightarrow> acyclic (dag.edges nodes)"
proof -
  let ?order = "kahnIds (dependentsTable nodes) indegree ready"
  obtain i' where o: "dag.rankedIds nodes ?order" "dag.idInv nodes i' [] ?order []"
    using kahnIds_order [OF dag.idInv_start [OF assms(1,5,3,4)] assms(1), of "dependentsTable nodes"]
    by (auto simp: dependentsTable_spec dag.rankedIds_def)
  show thesis
    by (rule that [OF refl _ _ o(1) dag.complete_iff [OF assms(1,2) o]]) (use o(2) in \<open>auto simp: dag.idInv_def\<close>)
qed

section \<open>Validation\<close>

definition dagEdges :: "operation_dag_node list \<Rightarrow> (string \<times> string) set" where
  "dagEdges nodes = {(d, dn_node_id n) | d n. n \<in> set nodes \<and> d \<in> set (dn_depends_on n)}"

definition dagKnown :: "operation_dag_node list \<Rightarrow> bool" where
  "dagKnown nodes \<longleftrightarrow> (\<forall>n \<in> set nodes. set (dn_depends_on n) \<subseteq> dn_node_id ` set nodes)"

lemma dag_graph: "dagEdges = dag.edges" "dagKnown = dag.known"
  by (simp_all add: fun_eq_iff dagEdges_def dagKnown_def dag.edges_def dag.known_def)

definition dagSatisfied :: "operation_dag_node list \<Rightarrow> bool" where
  "dagSatisfied nodes \<longleftrightarrow> (\<forall>n \<in> set nodes. set (dn_consumes n) \<subseteq> (\<Union>m \<in> set nodes. set (dn_produces m)))"

lemma foldR_distinct:
  assumes "\<And>s x. add s x = (if f x \<in> set s then Inl e else Inr (s @ [f x]))" "distinct s"
  shows "foldR add s xs = (if distinct (s @ map f xs) then Inr (s @ map f xs) else Inl e)"
  using assms(2)
proof (induction xs arbitrary: s)
  case (Cons x xs)
  show ?case
  proof (cases "f x \<in> set s")
    case False
    then show ?thesis using Cons.IH [of "s @ [f x]"] Cons.prems by (auto simp: assms(1))
  qed (auto simp: assms(1))
qed simp

lemma validation:
  "validateOperationDag nodes =
     (if \<not> distinct (map dn_node_id nodes) then Inl (OperationDagError duplicate_node)
      else if \<not> dagKnown nodes then Inl (OperationDagError unknown_dependency)
      else if \<not> acyclic (dagEdges nodes) then Inl (OperationDagError dag_cycle)
      else if \<not> distinct (concat (map dn_produces nodes)) then Inl (OperationDagError output_conflict)
      else if \<not> dagSatisfied nodes then Inl (OperationDagError unsatisfied_input)
      else Inr ())"
proof (cases "distinct (map dn_node_id nodes) \<and> dagKnown nodes")
  case False
  then show ?thesis
    using foldR_distinct [of addNodeId dn_node_id "OperationDagError duplicate_node" "[]" nodes]
    by (cases "distinct (map dn_node_id nodes)") (simp_all add: validateOperationDag_def addNodeId_def dagKnown_def list_all_iff rguard_def subset_eq, blast)
next
  case True
  let ?indegree = "indegreeTable nodes"
  let ?queue = "filter (\<lambda>id. jm_get ?indegree id = Some 0) (map dn_node_id nodes)"
  have ids: "foldR addNodeId [] nodes = Inr (map dn_node_id nodes)"
    using foldR_distinct [of addNodeId dn_node_id "OperationDagError duplicate_node" "[]" nodes] True by (simp add: addNodeId_def)
  have known: "list_all (\<lambda>node. list_all (List.member (map dn_node_id nodes)) (dn_depends_on node)) nodes"
    using True by (auto simp: dagKnown_def list_all_iff)
  note degrees = indegreeTable_spec [OF conjunct1 [OF True]]
  have queue: "distinct ?queue" "set ?queue = dn_node_id ` {n \<in> set nodes. dn_depends_on n = []}"
    using True by (auto simp: degrees)
  have cyc: "length (kahnIds (dependentsTable nodes) ?indegree ?queue) = length nodes \<longleftrightarrow> acyclic (dagEdges nodes)"
    using kahn_visits [of nodes ?queue ?indegree] True queue degrees unfolding dag_graph by blast
  have producers: "foldR addProducer [] (concat (map dn_produces nodes)) =
      (if distinct (concat (map dn_produces nodes)) then Inr (concat (map dn_produces nodes)) else Inl (OperationDagError output_conflict))"
    using foldR_distinct [of addProducer "\<lambda>b. b" "OperationDagError output_conflict" "[]" "concat (map dn_produces nodes)"]
    by (simp add: addProducer_def)
  have satisfied: "list_all (\<lambda>node. list_all (List.member (concat (map dn_produces nodes))) (dn_consumes node)) nodes \<longleftrightarrow> dagSatisfied nodes"
    by (auto simp: dagSatisfied_def list_all_iff)
  show ?thesis using True unfolding validateOperationDag_def ids rbind_simps Let_def cyc producers
    by (simp add: known satisfied rguard_def)
qed

text \<open>
  C35. Validation reports exactly the first defect of a DAG, in this order: a repeated node id, a dependency on
  no node, a dependency cycle, a binding with two producers, a consumed binding without a producer; a DAG
  without a defect is accepted.
\<close>
theorem validateOperationDag_exact:
  "validateOperationDag nodes =
     (if \<not> distinct (map dn_node_id nodes) then Inl (OperationDagError duplicate_node)
      else if \<not> dagKnown nodes then Inl (OperationDagError unknown_dependency)
      else if \<not> acyclic (dagEdges nodes) then Inl (OperationDagError dag_cycle)
      else if \<not> distinct (concat (map dn_produces nodes)) then Inl (OperationDagError output_conflict)
      else if \<not> dagSatisfied nodes then Inl (OperationDagError unsatisfied_input)
      else Inr ())"
  by (rule validation)

section \<open>The dependency closure\<close>

definition closedUnder :: "capability_module_definition list \<Rightarrow> capability_id set \<Rightarrow> bool" where
  "closedUnder definitions C \<longleftrightarrow>
     (\<forall>m \<in> set definitions. cm_capability_id m \<in> C \<longrightarrow> set (cm_depends_on m) \<subseteq> C)"

lemma find_module:
  assumes "distinct (map cm_capability_id definitions)"
  shows "find (\<lambda>m. cm_capability_id m = c) definitions = Some m \<longleftrightarrow> m \<in> set definitions \<and> cm_capability_id m = c"
  using assms by (induction definitions) (auto simp: image_iff)

lemma visit_closure:
  assumes "distinct (map cm_capability_id definitions)"
  shows "visitModule definitions p finished c = Inr finished' \<Longrightarrow> closedUnder definitions (set finished) \<Longrightarrow>
      closedUnder definitions (set finished') \<and> set finished \<subseteq> set finished' \<and> c \<in> set finished'
      \<and> (\<forall>C. closedUnder definitions C \<longrightarrow> set finished \<subseteq> C \<longrightarrow> c \<in> C \<longrightarrow> set finished' \<subseteq> C)"
    and "visitModules definitions p finished cs = Inr finished' \<Longrightarrow> closedUnder definitions (set finished) \<Longrightarrow>
      closedUnder definitions (set finished') \<and> set finished \<subseteq> set finished' \<and> set cs \<subseteq> set finished'
      \<and> (\<forall>C. closedUnder definitions C \<longrightarrow> set finished \<subseteq> C \<longrightarrow> set cs \<subseteq> C \<longrightarrow> set finished' \<subseteq> C)"
  using assms
proof (induction definitions p finished c and definitions p finished cs arbitrary: finished' and finished' rule: visitModule_visitModules.induct)
  case (1 definitions p finished c)
  show ?case
  proof (cases "c \<in> set finished")
    case False
    with "1.prems"(1) obtain m f where m: "c \<notin> set p" "find (\<lambda>m. cm_capability_id m = c) definitions = Some m"
      and f: "visitModules definitions (c # p) finished (cm_depends_on m) = Inr f" "finished' = f @ [c]"
      by (auto simp: visitModule.simps [of _ _ _ c] rbind_Inr_iff split: if_splits option.splits)
    have m': "m \<in> set definitions" "cm_capability_id m = c" using m(2) find_module [OF "1.prems"(3)] by blast+
    note ih = "1.IH" [OF _ _ m(2) f(1) "1.prems"(2,3)]
    have ih': "closedUnder definitions (set f)" "set finished \<subseteq> set f" "set (cm_depends_on m) \<subseteq> set f"
      "\<And>C. closedUnder definitions C \<Longrightarrow> set finished \<subseteq> C \<Longrightarrow> set (cm_depends_on m) \<subseteq> C \<Longrightarrow> set f \<subseteq> C"
      using ih False m(1) by auto
    have only: "m'' = m" if "m'' \<in> set definitions" "cm_capability_id m'' = c" for m''
      using that m' "1.prems"(3) by (metis distinct_map inj_onD)
    have "closedUnder definitions (set finished')"
      using ih'(1,3) only unfolding closedUnder_def f(2) by (auto simp: subset_eq)
    moreover have "set finished' \<subseteq> C" if C: "closedUnder definitions C" "set finished \<subseteq> C" "c \<in> C" for C
      using ih'(4) [OF C(1,2)] C m' by (auto simp: closedUnder_def f(2))
    ultimately show ?thesis using ih'(2) by (auto simp: f(2))
  qed (use "1.prems" in \<open>simp add: visitModule.simps [of _ _ _ c]\<close>)
next
  case (2 definitions p finished)
  then show ?case by simp
next
  case (3 definitions p finished c cs)
  then obtain f where f: "visitModule definitions p finished c = Inr f" "visitModules definitions p f cs = Inr finished'"
    by (auto simp: rbind_Inr_iff)
  note one = "3.IH"(1) [OF f(1) "3.prems"(2,3)]
  note rest = "3.IH"(2) [OF f(1) f(2) conjunct1 [OF one] "3.prems"(3)]
  have "set finished' \<subseteq> C" if "closedUnder definitions C" "set finished \<subseteq> C" "set (c # cs) \<subseteq> C" for C
    using one rest that by simp
  then show ?case using one rest by auto
qed

lemma findModule_text: "findModule definitions name = Inr c \<Longrightarrow> capabilityText c = name"
  by (auto simp: findModule_def find_Some_iff split: option.splits)

lemma closure_checked:
  assumes "dependencyClosure definitions requested = Inr active"
  shows "\<forall>m \<in> set definitions. set (cm_depends_on m) \<subseteq> cm_capability_id ` set definitions"
    "set requested \<subseteq> capabilityText ` cm_capability_id ` set definitions"
proof -
  obtain cs where "mapR (findModule definitions) requested = Inr cs"
    using assms by (auto simp: dependencyClosure_def rbind_Inr_iff split: if_splits)
  then show "set requested \<subseteq> capabilityText ` cm_capability_id ` set definitions"
    by (auto simp: findModule_def find_Some_iff dest!: mapR_Inr_set split: option.splits)
  show "\<forall>m \<in> set definitions. set (cm_depends_on m) \<subseteq> cm_capability_id ` set definitions"
    using assms by (fastforce simp: dependencyClosure_def list_all_iff list_ex_iff split: if_splits)
qed

lemma closure_facts:
  assumes "distinct (map cm_capability_id definitions)" "dependencyClosure definitions requested = Inr active"
  shows "closedUnder definitions (set active)" "set requested \<subseteq> capabilityText ` set active"
    "closedUnder definitions C \<Longrightarrow> set requested \<subseteq> capabilityText ` C \<Longrightarrow> set active \<subseteq> C"
proof -
  obtain cs f where cs: "mapR (findModule definitions) requested = Inr cs" and f: "visitModules definitions [] [] cs = Inr f"
    and active: "set active = set f"
    using assms(2) by (auto simp: dependencyClosure_def rbind_Inr_iff split: if_splits)
  have "map capabilityText cs = requested" using cs
    by (induction requested arbitrary: cs) (auto simp: rbind_Inr_iff dest: findModule_text)
  then have req: "set requested = capabilityText ` set cs" by (metis list.set_map)
  have inj: "inj capabilityText" by (rule injI) (rename_tac a b, case_tac a; case_tac b; simp)
  have v: "closedUnder definitions (set f)" "set cs \<subseteq> set f" "\<And>C. closedUnder definitions C \<Longrightarrow> set cs \<subseteq> C \<Longrightarrow> set f \<subseteq> C"
    using visit_closure(2) [OF assms(1) f] by (auto simp: closedUnder_def)
  show "closedUnder definitions (set active)" "set requested \<subseteq> capabilityText ` set active" using v(1,2) by (auto simp: active req)
  show "set active \<subseteq> C" if "closedUnder definitions C" "set requested \<subseteq> capabilityText ` C"
    using v(3) [OF that(1)] that(2) inj by (simp add: active req inj_image_subset_iff)
qed

text \<open>
  The capability closure is the least dependency-closed set that contains the requested capabilities.
\<close>
theorem dependencyClosure_least:
  assumes "distinct (map cm_capability_id definitions)" "dependencyClosure definitions requested = Inr active"
  shows "closedUnder definitions (set active) \<and> set requested \<subseteq> capabilityText ` set active
     \<and> (\<forall>C. closedUnder definitions C \<longrightarrow> set requested \<subseteq> capabilityText ` C \<longrightarrow> set active \<subseteq> C)"
  using closure_facts [OF assms] by blast

section \<open>The DAG of a set of capabilities\<close>

definition dagModule :: "capability_id \<Rightarrow> string \<Rightarrow> string list \<Rightarrow> string list \<Rightarrow> string list \<Rightarrow> operation_dag_node" where
  "dagModule c nodeId dependsOn consumes produces =
     \<lparr>dn_node_id = nodeId, dn_node_kind = module_node, dn_capability_id = Some c, dn_depends_on = dependsOn,
      dn_consumes = consumes, dn_produces = produces, dn_checkpoint = True, dn_subgraph = None\<rparr>"

definition dagNodes :: "capability_id list \<Rightarrow> operation_dag_node list" where
  "dagNodes active =
     [kernelNode ''capture'' [] [] [''requirement_baseline''],
      kernelNode ''capability_decision'' [''capture''] [''requirement_baseline''] []] @
     whenActive active impact_analysis [dagModule impact_analysis ''impact'' [''capability_decision''] [''requirement_baseline''] [''impact_set'']] @
     whenActive active design_governance [dagModule design_governance ''design'' [''impact''] [''impact_set''] [''design_set'']] @
     [planNode active,
      kernelNode ''context'' [''plan''] (''execution_plan'' # whenActive active design_governance [''design_set'']) [''context_bundle''],
      executeNode active, kernelNode ''verify'' [''execute''] [''context_bundle''] [''gate_evidence'']] @
     whenActive active independent_evaluation [dagModule independent_evaluation ''evaluate'' [''verify''] [''gate_evidence''] [''evaluation_report'']] @
     [snapshotNode active] @
     whenActive active advanced_audit [dagModule advanced_audit ''audit'' [''snapshot''] [''snapshot''] [''audit_report'']]"

lemma activeModule_known:
  assumes "activeModule active c nodeId dependsOn protocolVersion = Inr ns" "moduleIn CAPABILITY_MODULE_DEFINITIONS c = Inr m"
  shows "ns = whenActive active c [dagModule c nodeId dependsOn (cm_input_bindings m) (cm_output_bindings m)]"
proof -
  have "moduleIn CAPABILITY_MODULE_DEFINITIONS_1_3 c = Inr m"
    using assms(2) by (auto simp: moduleIn_def CAPABILITY_MODULE_DEFINITIONS_1_3_def find_append split: option.splits)
  then show ?thesis using assms
    by (auto simp: activeModule_def moduleNode_def whenActive_def dagModule_def capabilityModuleDefinition_def
        capabilityModuleDefinitionsForProtocol_def rbind_Inr_iff split: if_splits)
qed

lemma registry:
  "moduleIn CAPABILITY_MODULE_DEFINITIONS impact_analysis = Inr (CAPABILITY_MODULE_DEFINITIONS ! 0)"
  "moduleIn CAPABILITY_MODULE_DEFINITIONS design_governance = Inr (CAPABILITY_MODULE_DEFINITIONS ! 1)"
  "moduleIn CAPABILITY_MODULE_DEFINITIONS independent_evaluation = Inr (CAPABILITY_MODULE_DEFINITIONS ! 2)"
  "moduleIn CAPABILITY_MODULE_DEFINITIONS advanced_audit = Inr (CAPABILITY_MODULE_DEFINITIONS ! 4)"
  by (simp_all add: moduleIn_def CAPABILITY_MODULE_DEFINITIONS_def)

lemma build_nodes: "buildOperationDag active protocolVersion = Inr nodes \<Longrightarrow> nodes = dagNodes active"
  by (auto simp: buildOperationDag_def dagNodes_def rbind_Inr_iff CAPABILITY_MODULE_DEFINITIONS_def registry split: if_splits
      dest!: activeModule_known [OF _ registry(1)] activeModule_known [OF _ registry(2)] activeModule_known [OF _ registry(3)]
        activeModule_known [OF _ registry(4)])

lemma build_total:
  assumes "capabilityModuleDefinitionsForProtocol protocolVersion = Inr definitions"
    "parallel_task_execution \<in> set active \<longrightarrow> protocolVersion = PROTOCOL_1_3_VERSION"
  shows "buildOperationDag active protocolVersion = Inr (dagNodes active)"
proof -
  have m: "\<exists>ns. activeModule active c nodeId dependsOn protocolVersion = Inr ns" if "moduleIn CAPABILITY_MODULE_DEFINITIONS c = Inr x" for c nodeId dependsOn x
    using assms(1) that by (auto simp: activeModule_def moduleNode_def capabilityModuleDefinition_def moduleIn_def find_append
        capabilityModuleDefinitionsForProtocol_def CAPABILITY_MODULE_DEFINITIONS_1_3_def split: if_splits option.splits)
  obtain a b c d where "activeModule active impact_analysis ''impact'' [''capability_decision''] protocolVersion = Inr a"
    "activeModule active design_governance ''design'' [''impact''] protocolVersion = Inr b"
    "activeModule active independent_evaluation ''evaluate'' [''verify''] protocolVersion = Inr c"
    "activeModule active advanced_audit ''audit'' [''snapshot''] protocolVersion = Inr d"
    using m [OF registry(1)] m [OF registry(2)] m [OF registry(3)] m [OF registry(4)] by meson
  then have "\<exists>nodes. buildOperationDag active protocolVersion = Inr nodes"
    using assms(2) by (simp add: buildOperationDag_def)
  then show ?thesis using build_nodes by blast
qed

definition phaseRank :: "string \<Rightarrow> nat" where
  "phaseRank k = length (takeWhile (\<lambda>x. x \<noteq> k) [''capture'', ''capability_decision'', ''impact'', ''design'', ''plan'', ''context'',
     ''execute'', ''verify'', ''evaluate'', ''snapshot'', ''audit''])"

lemma phaseRank_simps:
  "phaseRank ''capture'' = 0" "phaseRank ''capability_decision'' = 1" "phaseRank ''impact'' = 2" "phaseRank ''design'' = 3"
  "phaseRank ''plan'' = 4" "phaseRank ''context'' = 5" "phaseRank ''execute'' = 6" "phaseRank ''verify'' = 7"
  "phaseRank ''evaluate'' = 8" "phaseRank ''snapshot'' = 9" "phaseRank ''audit'' = 10"
  by (simp_all add: phaseRank_def)

lemma whenActive_simps:
  "x \<in> set (whenActive active c xs) \<longleftrightarrow> c \<in> set active \<and> x \<in> set xs"
  "map f (whenActive active c xs) = whenActive active c (map f xs)"
  "concat (whenActive active c [xs]) = whenActive active c xs"
  "(\<forall>x \<in> set (whenActive active c xs). P x) \<longleftrightarrow> c \<in> set active \<longrightarrow> (\<forall>x \<in> set xs. P x)"
  "distinct (whenActive active c xs) \<longleftrightarrow> c \<in> set active \<longrightarrow> distinct xs"
  by (auto simp: whenActive_def)

lemma dagNodes_ids:
  "map dn_node_id (dagNodes active) = [''capture'', ''capability_decision''] @ whenActive active impact_analysis [''impact''] @
     whenActive active design_governance [''design''] @ [''plan'', ''context'', ''execute'', ''verify''] @
     whenActive active independent_evaluation [''evaluate''] @ [''snapshot''] @ whenActive active advanced_audit [''audit'']"
  by (simp add: dagNodes_def whenActive_simps planNode_def executeNode_def snapshotNode_def kernelNode_def dagModule_def)

lemma dagNodes_produces:
  "concat (map dn_produces (dagNodes active)) = [''requirement_baseline''] @ whenActive active impact_analysis [''impact_set''] @
     whenActive active design_governance [''design_set''] @ [''execution_plan'', ''context_bundle''] @ whenActive active strict_tdd [''tdd_contract''] @
     whenActive active parallel_task_execution [''wave_integration''] @ [''gate_evidence''] @
     whenActive active independent_evaluation [''evaluation_report''] @ [''snapshot''] @ whenActive active advanced_audit [''audit_report'']"
  by (simp add: dagNodes_def whenActive_simps planNode_def executeNode_def snapshotNode_def kernelNode_def dagModule_def)

lemma dagNodes_all:
  "(\<forall>n \<in> set (dagNodes active). P n) \<longleftrightarrow>
     P (kernelNode ''capture'' [] [] [''requirement_baseline'']) \<and> P (kernelNode ''capability_decision'' [''capture''] [''requirement_baseline''] [])
     \<and> (impact_analysis \<in> set active \<longrightarrow> P (dagModule impact_analysis ''impact'' [''capability_decision''] [''requirement_baseline''] [''impact_set'']))
     \<and> (design_governance \<in> set active \<longrightarrow> P (dagModule design_governance ''design'' [''impact''] [''impact_set''] [''design_set'']))
     \<and> P (planNode active)
     \<and> P (kernelNode ''context'' [''plan''] (''execution_plan'' # whenActive active design_governance [''design_set'']) [''context_bundle''])
     \<and> P (executeNode active) \<and> P (kernelNode ''verify'' [''execute''] [''context_bundle''] [''gate_evidence''])
     \<and> (independent_evaluation \<in> set active \<longrightarrow> P (dagModule independent_evaluation ''evaluate'' [''verify''] [''gate_evidence''] [''evaluation_report'']))
     \<and> P (snapshotNode active)
     \<and> (advanced_audit \<in> set active \<longrightarrow> P (dagModule advanced_audit ''audit'' [''snapshot''] [''snapshot''] [''audit_report'']))"
  unfolding dagNodes_def set_append ball_Un whenActive_simps by simp

lemma dagNodes_facts:
  "distinct (map dn_node_id (dagNodes active))" "distinct (concat (map dn_produces (dagNodes active)))"
  "\<forall>n \<in> set (dagNodes active). \<forall>d \<in> set (dn_depends_on n). phaseRank d < phaseRank (dn_node_id n)"
  "dagKnown (dagNodes active) \<longleftrightarrow> (design_governance \<in> set active \<longrightarrow> impact_analysis \<in> set active)"
  "dagSatisfied (dagNodes active) \<longleftrightarrow> (design_governance \<in> set active \<longrightarrow> impact_analysis \<in> set active)
     \<and> (strict_tdd \<in> set active \<longrightarrow> design_governance \<in> set active)"
proof -
  note nodes = planNode_def executeNode_def snapshotNode_def kernelNode_def dagModule_def
  show "distinct (map dn_node_id (dagNodes active))" unfolding dagNodes_ids by (simp add: whenActive_simps disjoint_iff)
  show "distinct (concat (map dn_produces (dagNodes active)))" unfolding dagNodes_produces by (simp add: whenActive_simps disjoint_iff)
  show "\<forall>n \<in> set (dagNodes active). \<forall>d \<in> set (dn_depends_on n). phaseRank d < phaseRank (dn_node_id n)"
    unfolding dagNodes_all by (simp add: nodes phaseRank_simps whenActive_simps ball_Un)
  have ids: "dn_node_id ` set (dagNodes active) = set (map dn_node_id (dagNodes active))" by simp
  show "dagKnown (dagNodes active) \<longleftrightarrow> (design_governance \<in> set active \<longrightarrow> impact_analysis \<in> set active)"
    unfolding dagKnown_def ids dagNodes_ids dagNodes_all by (simp add: nodes whenActive_simps subset_eq ball_Un)
  have prods: "(\<Union>m \<in> set (dagNodes active). set (dn_produces m)) = set (concat (map dn_produces (dagNodes active)))" by simp
  show "dagSatisfied (dagNodes active) \<longleftrightarrow> (design_governance \<in> set active \<longrightarrow> impact_analysis \<in> set active)
     \<and> (strict_tdd \<in> set active \<longrightarrow> design_governance \<in> set active)"
    unfolding dagSatisfied_def prods dagNodes_produces dagNodes_all by (simp add: nodes whenActive_simps subset_eq ball_Un)
qed

lemma dagNodes_valid:
  "validateOperationDag (dagNodes active) =
     (if design_governance \<in> set active \<and> impact_analysis \<notin> set active then Inl (OperationDagError unknown_dependency)
      else if strict_tdd \<in> set active \<and> design_governance \<notin> set active then Inl (OperationDagError unsatisfied_input)
      else Inr ())"
proof -
  have "dagEdges (dagNodes active) \<subseteq> measure phaseRank" using dagNodes_facts(3) by (auto simp: dagEdges_def)
  then have "acyclic (dagEdges (dagNodes active))" using wf_subset wf_acyclic wf_measure by metis
  then show ?thesis unfolding validation using dagNodes_facts by auto
qed

text \<open>
  The DAG that is built for a set of active capabilities is rejected exactly when the set is not closed:
  design governance without impact analysis is an unknown dependency, strict TDD without design governance an
  unsatisfied input, and every other set gives a valid DAG.
\<close>
theorem buildOperationDag_valid:
  assumes "buildOperationDag active protocolVersion = Inr nodes"
  shows "validateOperationDag nodes =
     (if design_governance \<in> set active \<and> impact_analysis \<notin> set active then Inl (OperationDagError unknown_dependency)
      else if strict_tdd \<in> set active \<and> design_governance \<notin> set active then Inl (OperationDagError unsatisfied_input)
      else Inr ())"
  using build_nodes [OF assms] dagNodes_valid by simp

text \<open>
  Capability closure and DAG construction fit together: whatever capabilities are requested, the closure that
  the registry of the protocol accepts builds a DAG, and the DAG passes validation.
\<close>
theorem closure_dag_valid:
  assumes "capabilityDependencyClosure requested protocolVersion = Inr active"
  shows "\<exists>nodes. buildOperationDag active protocolVersion = Inr nodes \<and> validateOperationDag nodes = Inr ()"
proof -
  obtain definitions where d: "capabilityModuleDefinitionsForProtocol protocolVersion = Inr definitions"
    "dependencyClosure definitions requested = Inr active"
    using assms by (auto simp: capabilityDependencyClosure_def rbind_Inr_iff)
  have defs: "definitions = CAPABILITY_MODULE_DEFINITIONS \<or> definitions = CAPABILITY_MODULE_DEFINITIONS_1_3 \<and> protocolVersion = PROTOCOL_1_3_VERSION"
    using d(1) by (auto simp: capabilityModuleDefinitionsForProtocol_def split: if_splits)
  have distinct: "distinct (map cm_capability_id definitions)"
    using defs by (auto simp: CAPABILITY_MODULE_DEFINITIONS_1_3_def CAPABILITY_MODULE_DEFINITIONS_def PARALLEL_TASK_EXECUTION_MODULE_def)
  have "closedUnder definitions (set active)" using closure_facts(1) [OF distinct d(2)] .
  then have c: "design_governance \<in> set active \<longrightarrow> impact_analysis \<in> set active" "strict_tdd \<in> set active \<longrightarrow> design_governance \<in> set active"
    using defs by (auto simp: closedUnder_def CAPABILITY_MODULE_DEFINITIONS_1_3_def CAPABILITY_MODULE_DEFINITIONS_def)
  have checked: "\<forall>m \<in> set definitions. set (cm_depends_on m) \<subseteq> cm_capability_id ` set definitions" "set requested \<subseteq> capabilityText ` cm_capability_id ` set definitions"
    using closure_checked [OF d(2)] by auto
  have known: "set active \<subseteq> cm_capability_id ` set definitions"
    by (rule closure_facts(3) [OF distinct d(2)]) (use checked in \<open>auto simp: closedUnder_def\<close>)
  have "parallel_task_execution \<in> set active \<longrightarrow> protocolVersion = PROTOCOL_1_3_VERSION"
    using known defs by (auto simp: CAPABILITY_MODULE_DEFINITIONS_def)
  then have "buildOperationDag active protocolVersion = Inr (dagNodes active)" by (rule build_total [OF d(1)])
  moreover have "validateOperationDag (dagNodes active) = Inr ()" using dagNodes_valid [of active] c by auto
  ultimately show ?thesis by blast
qed

section \<open>Examples\<close>

lemma tdd_closure:
  "dependencyClosure CAPABILITY_MODULE_DEFINITIONS [''strict_tdd''] = Inr [design_governance, impact_analysis, strict_tdd]"
  "capabilityDependencyClosure [''strict_tdd''] ''1.1.0'' = Inr [design_governance, impact_analysis, strict_tdd]"
  by code_simp+

theorem dependencyClosure_least_witness:
  "closedUnder CAPABILITY_MODULE_DEFINITIONS {design_governance, impact_analysis, strict_tdd}"
proof -
  have "distinct (map cm_capability_id CAPABILITY_MODULE_DEFINITIONS)" by (simp add: CAPABILITY_MODULE_DEFINITIONS_def)
  then show ?thesis using dependencyClosure_least [OF _ tdd_closure(1)] by simp
qed

theorem buildOperationDag_valid_witness:
  "\<exists>nodes. buildOperationDag [strict_tdd] ''1.1.0'' = Inr nodes \<and> validateOperationDag nodes = Inl (OperationDagError unsatisfied_input)"
proof -
  have "capabilityModuleDefinitionsForProtocol ''1.1.0'' = Inr CAPABILITY_MODULE_DEFINITIONS" by code_simp
  then have b: "buildOperationDag [strict_tdd] ''1.1.0'' = Inr (dagNodes [strict_tdd])" by (rule build_total) simp
  show ?thesis using buildOperationDag_valid [OF b] b by simp
qed

theorem closure_dag_valid_witness:
  "\<exists>nodes. buildOperationDag [design_governance, impact_analysis, strict_tdd] ''1.1.0'' = Inr nodes \<and> validateOperationDag nodes = Inr ()"
  by (rule closure_dag_valid [OF tdd_closure(2)])

end
