(* ===== verification/Dag_Engine.thy ===== *)
theory Dag_Engine
  imports Dag_Valid
begin

text \<open>
  The workflow DAG engine (\<^verbatim>\<open>runtime/src/workflow/dag-engine.ts\<close>, \<^verbatim>\<open>dag.ts\<close>): the checkpoint journal, the replay of
  the journal against the current DAG, and the execution of the remaining nodes. Runners are parameters:
  a runner is a function of its context, and a thrown error is one of its results. A run returns the store
  it leaves behind also when it throws.
\<close>

section \<open>Runners and results\<close>

record dag_approval_notice =
  an_object_id :: string
  an_object_kind :: string
  an_object_digest :: string

type_synonym produced_bindings = "(string \<times> string) list"

datatype dag_node_result =
    node_committed "produced_bindings option"
  | node_paused "produced_bindings option"
  | plan_superseded string produced_bindings
  | node_awaiting_approval dag_approval_notice
  | node_blocked string string
  | node_threw string

record dag_node_context =
  dc_operation_id :: string
  dc_plan_digest :: string
  dc_node :: operation_dag_node
  dc_inputs :: "(string, string) jmap"

type_synonym dag_node_runner = "dag_node_context \<Rightarrow> dag_node_result"

record dag_runner_registry =
  rr_kernel :: "string \<Rightarrow> dag_node_runner option"
  rr_modules :: "capability_id \<Rightarrow> dag_node_runner option"

section \<open>The journal\<close>

record dag_checkpoint_entry =
  ce_sequence :: nat
  ce_node_id :: string
  ce_plan_digest :: string
  ce_wiring_digest :: string
  ce_input_digests :: "(string, string) jmap"
  ce_output_digests :: "(string, string) jmap"
  ce_checkpoint_id :: string

record 's dag_checkpoint_store =
  st_load :: "'s \<Rightarrow> string \<Rightarrow> dag_checkpoint_entry list"
  st_append :: "string \<Rightarrow> dag_checkpoint_entry \<Rightarrow> 's \<Rightarrow> 's"
  st_truncate :: "string \<Rightarrow> nat \<Rightarrow> 's \<Rightarrow> 's"

type_synonym memory_journals = "(string, dag_checkpoint_entry list) jmap"

definition memoryLoad :: "memory_journals \<Rightarrow> string \<Rightarrow> dag_checkpoint_entry list" where
  "memoryLoad journals operationId = orList (jm_get journals operationId)"

definition memoryAppend :: "string \<Rightarrow> dag_checkpoint_entry \<Rightarrow> memory_journals \<Rightarrow> memory_journals" where
  "memoryAppend operationId entry journals = jm_set operationId (orList (jm_get journals operationId) @ [entry]) journals"

definition memoryTruncate :: "string \<Rightarrow> nat \<Rightarrow> memory_journals \<Rightarrow> memory_journals" where
  "memoryTruncate operationId keep journals = jm_set operationId (take keep (orList (jm_get journals operationId))) journals"

definition InMemoryDagCheckpointStore :: "memory_journals dag_checkpoint_store" where
  "InMemoryDagCheckpointStore = \<lparr>st_load = memoryLoad, st_append = memoryAppend, st_truncate = memoryTruncate\<rparr>"

section \<open>The engine\<close>

datatype dag_engine_event = node_started_event string | node_committed_event string string | node_replayed_event string

datatype dag_run_outcome =
    run_paused string string "string list" "string list"
  | run_replan_required string string string "string list" "string list"
  | run_completed string "string list" "string list"
  | run_awaiting_approval string string dag_approval_notice
  | run_blocked string string string string
  | run_failed string string string

record dag_run_request =
  dq_operation_id :: string
  dq_plan_digest :: string
  dq_nodes :: "operation_dag_node list"

record 's dag_engine_config =
  ec_store :: "'s dag_checkpoint_store"
  ec_runners :: dag_runner_registry
  ec_newCheckpointId :: "(string \<Rightarrow> string \<Rightarrow> nat \<Rightarrow> string) option"

fun nodeKindText :: "dag_node_kind \<Rightarrow> string" where
  "nodeKindText kernel_node = ''kernel''" | "nodeKindText module_node = ''module''"

definition wiringDigest :: "host \<Rightarrow> operation_dag_node \<Rightarrow> string result" where
  "wiringDigest H node = contentDigest H (JObj
     ([(''node_id'', JStr (dn_node_id node)), (''node_kind'', JStr (nodeKindText (dn_node_kind node)))] @
      optionalField ''capability_id'' (map_option (\<lambda>c. JStr (capabilityText c)) (dn_capability_id node)) @
      [(''depends_on'', JArr (map JStr (dn_depends_on node))), (''consumes'', JArr (map JStr (dn_consumes node))),
       (''produces'', JArr (map JStr (dn_produces node)))] @
      optionalField ''subgraph'' (map_option (\<lambda>c. JStr (capabilityText c)) (dn_subgraph node))))"

definition recordDigestsEqual :: "(string, string) jmap \<Rightarrow> (string, string) jmap \<Rightarrow> bool" where
  "recordDigestsEqual left right \<longleftrightarrow>
     (let leftKeys = sort (map fst left); rightKeys = sort (map fst right) in
      length leftKeys = length rightKeys
      \<and> list_all (\<lambda>(l, r). l = r \<and> jm_get left l = jm_get right l) (zip leftKeys rightKeys))"

definition canonicalDigests :: "(string, string) jmap \<Rightarrow> (string, string) jmap" where
  "canonicalDigests digests = sort_key fst digests"

definition topologicalOrder :: "operation_dag_node list \<Rightarrow> operation_dag_node list" where
  "topologicalOrder nodes =
     map (\<lambda>id. the (find (\<lambda>node. dn_node_id node = id) (rev nodes)))
       (kahnIds (dependentsTable nodes) (map (\<lambda>node. (dn_node_id node, int (length (dn_depends_on node)))) nodes)
         (map dn_node_id (filter (\<lambda>node. dn_depends_on node = []) nodes)))"

definition resolveRunner :: "dag_runner_registry \<Rightarrow> operation_dag_node \<Rightarrow> dag_node_runner result" where
  "resolveRunner runners node =
     (case dn_node_kind node of
        kernel_node \<Rightarrow>
          (case rr_kernel runners (dn_node_id node) of None \<Rightarrow> Inl (DagEngineError missing_node_runner) | Some runner \<Rightarrow> Inr runner)
      | module_node \<Rightarrow>
          (case dn_capability_id node of
             None \<Rightarrow> Inl (DagEngineError module_node_without_capability)
           | Some c \<Rightarrow>
               (case rr_modules runners c of None \<Rightarrow> Inl (DagEngineError missing_node_runner) | Some runner \<Rightarrow> Inr runner)))"

fun resolveInputs :: "(string, string) jmap \<Rightarrow> string list \<Rightarrow> (string, string) jmap \<Rightarrow> (string, string) jmap option" where
  "resolveInputs produced [] inputs = Some inputs"
| "resolveInputs produced (kind # kinds) inputs =
     (case jm_get produced kind of
        None \<Rightarrow> None
      | Some digest \<Rightarrow> resolveInputs produced kinds (jm_set kind digest inputs))"

subsection \<open>Replaying the journal\<close>

definition entryMatches :: "host \<Rightarrow> (string, string) jmap \<Rightarrow> operation_dag_node \<Rightarrow> dag_checkpoint_entry option \<Rightarrow> bool result" where
  "entryMatches H produced node entry =
     (case (resolveInputs produced (dn_consumes node) [], entry) of
        (Some inputs, Some e) \<Rightarrow>
          if list_all (\<lambda>kind. jm_get (ce_output_digests e) kind \<noteq> None) (dn_produces node) \<and> ce_node_id e = dn_node_id node
          then rbind (wiringDigest H node) (\<lambda>d.
            Inr (ce_wiring_digest e = d \<and> recordDigestsEqual (ce_input_digests e) (canonicalDigests inputs)))
          else Inr False
      | _ \<Rightarrow> Inr False)"

record dag_run_state =
  rs_produced :: "(string, string) jmap"
  rs_journal_index :: nat
  rs_executed :: "string list"
  rs_replayed :: "string list"
  rs_events :: "dag_engine_event list"

definition acceptEntry :: "operation_dag_node \<Rightarrow> dag_checkpoint_entry \<Rightarrow> dag_run_state \<Rightarrow> dag_run_state" where
  "acceptEntry node entry s = s\<lparr>
     rs_produced := foldl (\<lambda>produced kind. jm_set kind (the (jm_get (ce_output_digests entry) kind)) produced) (rs_produced s) (dn_produces node),
     rs_journal_index := rs_journal_index s + 1, rs_replayed := rs_replayed s @ [dn_node_id node],
     rs_events := rs_events s @ [node_replayed_event (dn_node_id node)]\<rparr>"

text \<open>The nodes left to execute, and the state after the replayed ones.\<close>

fun replayNodes :: "host \<Rightarrow> dag_checkpoint_entry list \<Rightarrow> operation_dag_node list \<Rightarrow> dag_run_state \<Rightarrow> (operation_dag_node list \<times> dag_run_state) result" where
  "replayNodes H journal [] s = Inr ([], s)"
| "replayNodes H journal (node # nodes) s =
     (if \<not> dn_checkpoint node then Inr (node # nodes, s)
      else let entry = (if rs_journal_index s < length journal then Some (journal ! rs_journal_index s) else None) in
        rbind (entryMatches H (rs_produced s) node entry) (\<lambda>matches.
        if \<not> matches then Inr (node # nodes, s)
        else replayNodes H journal nodes (acceptEntry node (the entry) s)))"

subsection \<open>Executing the rest\<close>

definition resultBindings :: "dag_node_result \<Rightarrow> produced_bindings" where
  "resultBindings result =
     (case result of
        node_committed p \<Rightarrow> orList p | node_paused p \<Rightarrow> orList p | plan_superseded _ p \<Rightarrow> p | _ \<Rightarrow> [])"

definition collectOutputs :: "operation_dag_node \<Rightarrow> produced_bindings \<Rightarrow> (string, string) jmap result" where
  "collectOutputs node bindings =
     (if \<not> list_all (\<lambda>b. List.member (dn_produces node) (fst b)) bindings then Inl (DagEngineError runner_output_mismatch)
      else let outputs = foldl (\<lambda>outputs b. jm_set (fst b) (snd b) outputs) [] bindings in
        if \<not> list_all (\<lambda>kind. jm_get outputs kind \<noteq> None) (dn_produces node) then Inl (DagEngineError runner_output_mismatch)
        else Inr outputs)"

definition checkpointId :: "host \<Rightarrow> (string \<Rightarrow> string \<Rightarrow> nat \<Rightarrow> string) option \<Rightarrow> string \<Rightarrow> string \<Rightarrow> nat \<Rightarrow> string result" where
  "checkpointId H newCheckpointId operationId nodeId seq =
     (case newCheckpointId of
        Some f \<Rightarrow> Inr (f operationId nodeId seq)
      | None \<Rightarrow>
          rbind (contentDigest H (JObj [(''operationId'', JStr operationId), (''nodeId'', JStr nodeId), (''seq'', JNum (of_nat seq))])) (\<lambda>d.
          Inr (''checkpoint_'' @ take 16 d)))"

definition checkpointEntry :: "host \<Rightarrow> (string \<Rightarrow> string \<Rightarrow> nat \<Rightarrow> string) option \<Rightarrow> dag_run_request \<Rightarrow> operation_dag_node \<Rightarrow> nat
    \<Rightarrow> (string, string) jmap \<Rightarrow> (string, string) jmap \<Rightarrow> dag_checkpoint_entry result" where
  "checkpointEntry H newCheckpointId request node sequence inputs outputs =
     rbind (checkpointId H newCheckpointId (dq_operation_id request) (dn_node_id node) sequence) (\<lambda>checkpoint.
     rbind (wiringDigest H node) (\<lambda>wiring.
     Inr \<lparr>ce_sequence = sequence, ce_node_id = dn_node_id node, ce_plan_digest = dq_plan_digest request, ce_wiring_digest = wiring,
       ce_input_digests = canonicalDigests inputs, ce_output_digests = canonicalDigests outputs, ce_checkpoint_id = checkpoint\<rparr>))"

text \<open>What a result stops the run with before the node is committed.\<close>

definition stopBefore :: "string \<Rightarrow> string \<Rightarrow> dag_node_result \<Rightarrow> dag_run_outcome option" where
  "stopBefore operationId nodeId result =
     (case result of
        node_threw message \<Rightarrow> Some (run_failed operationId nodeId message)
      | node_awaiting_approval approval \<Rightarrow> Some (run_awaiting_approval operationId nodeId approval)
      | node_blocked reason detail \<Rightarrow> Some (run_blocked operationId nodeId reason detail)
      | _ \<Rightarrow> None)"

definition malformedPlan :: "operation_dag_node \<Rightarrow> dag_node_result \<Rightarrow> bool" where
  "malformedPlan node result \<longleftrightarrow>
     (case result of plan_superseded next_digest _ \<Rightarrow> \<not> dn_checkpoint node \<or> \<not> digestPattern next_digest | _ \<Rightarrow> False)"

text \<open>What a result stops the run with after the node is committed.\<close>

definition stopAfter :: "string \<Rightarrow> string \<Rightarrow> dag_node_result \<Rightarrow> dag_run_state \<Rightarrow> dag_run_outcome option" where
  "stopAfter operationId nodeId result s =
     (case result of
        plan_superseded next_digest _ \<Rightarrow> Some (run_replan_required operationId nodeId next_digest (rs_executed s) (rs_replayed s))
      | node_paused _ \<Rightarrow> Some (run_paused operationId nodeId (rs_executed s) (rs_replayed s))
      | _ \<Rightarrow> None)"

text \<open>The inputs of a node, its result and its outputs.\<close>

definition runNode :: "dag_runner_registry \<Rightarrow> dag_run_request \<Rightarrow> operation_dag_node \<Rightarrow> (string, string) jmap
    \<Rightarrow> ((string, string) jmap \<times> dag_node_result) result" where
  "runNode runners request node produced =
     (case resolveInputs produced (dn_consumes node) [] of
        None \<Rightarrow> Inl (DagEngineError runner_output_mismatch)
      | Some inputs \<Rightarrow>
          rbind (resolveRunner runners node) (\<lambda>runner.
          Inr (inputs, runner \<lparr>dc_operation_id = dq_operation_id request, dc_plan_digest = dq_plan_digest request, dc_node = node,
            dc_inputs = canonicalDigests inputs\<rparr>)))"

definition recordOutputs :: "operation_dag_node \<Rightarrow> (string, string) jmap \<Rightarrow> dag_run_state \<Rightarrow> dag_run_state" where
  "recordOutputs node outputs s = s\<lparr>rs_produced := foldl (\<lambda>produced b. jm_set (fst b) (snd b) produced) (rs_produced s) outputs,
     rs_executed := rs_executed s @ [dn_node_id node]\<rparr>"

definition commitNode :: "host \<Rightarrow> 's dag_engine_config \<Rightarrow> dag_run_request \<Rightarrow> operation_dag_node \<Rightarrow> (string, string) jmap \<Rightarrow> (string, string) jmap
    \<Rightarrow> dag_run_state \<Rightarrow> 's \<Rightarrow> (dag_run_state \<times> 's) result" where
  "commitNode H config request node inputs outputs s store =
     (if dn_checkpoint node
      then rbind (checkpointEntry H (ec_newCheckpointId config) request node (rs_journal_index s + 1) inputs outputs) (\<lambda>entry.
        Inr (s\<lparr>rs_journal_index := rs_journal_index s + 1,
               rs_events := rs_events s @ [node_committed_event (dn_node_id node) (ce_checkpoint_id entry)]\<rparr>,
             st_append (ec_store config) (dq_operation_id request) entry store))
      else Inr (s, store))"

type_synonym 's dag_run = "'s \<times> (dag_run_outcome \<times> dag_run_state) result"

fun executeNodes :: "host \<Rightarrow> 's dag_engine_config \<Rightarrow> dag_run_request \<Rightarrow> operation_dag_node list \<Rightarrow> dag_run_state \<Rightarrow> 's \<Rightarrow> 's dag_run" where
  "executeNodes H config request [] s store =
     (store, Inr (run_completed (dq_operation_id request) (rs_executed s) (rs_replayed s), s))"
| "executeNodes H config request (node # nodes) s store =
     (case runNode (ec_runners config) request node (rs_produced s) of
        Inl e \<Rightarrow> (store, Inl e)
      | Inr (inputs, result) \<Rightarrow>
          let started = s\<lparr>rs_events := rs_events s @ [node_started_event (dn_node_id node)]\<rparr> in
          (case stopBefore (dq_operation_id request) (dn_node_id node) result of
             Some outcome \<Rightarrow> (store, Inr (outcome, started))
           | None \<Rightarrow>
               if malformedPlan node result then (store, Inl (DagEngineError runner_output_mismatch))
               else case collectOutputs node (resultBindings result) of
                 Inl e \<Rightarrow> (store, Inl e)
               | Inr outputs \<Rightarrow>
                   (case commitNode H config request node inputs outputs (recordOutputs node outputs started) store of
                      Inl e \<Rightarrow> (store, Inl e)
                    | Inr (committed, store') \<Rightarrow>
                        (case stopAfter (dq_operation_id request) (dn_node_id node) result committed of
                           Some outcome \<Rightarrow> (store', Inr (outcome, committed))
                         | None \<Rightarrow> executeNodes H config request nodes committed store'))))"

definition startState :: dag_run_state where
  "startState = \<lparr>rs_produced = [], rs_journal_index = 0, rs_executed = [], rs_replayed = [], rs_events = []\<rparr>"

definition runDag :: "host \<Rightarrow> 's dag_engine_config \<Rightarrow> dag_run_request \<Rightarrow> 's \<Rightarrow> 's dag_run" where
  "runDag H config request store =
     (case validateOperationDag (dq_nodes request) of
        Inl e \<Rightarrow> (store, Inl e)
      | Inr _ \<Rightarrow>
          let journal = st_load (ec_store config) store (dq_operation_id request) in
          (case replayNodes H journal (topologicalOrder (dq_nodes request)) startState of
             Inl e \<Rightarrow> (store, Inl e)
           | Inr (rest, s) \<Rightarrow>
               executeNodes H config request rest s
                 (if rs_journal_index s < length journal
                  then st_truncate (ec_store config) (dq_operation_id request) (rs_journal_index s) store else store)))"

end
