(* ===== verification/Dag_Resume.thy ===== *)
theory Dag_Resume
  imports Dag_Engine "HOL-Library.Sublist"
begin

text \<open>
  Crash and resume of the DAG engine (\<^verbatim>\<open>runtime/src/workflow/dag-engine.ts\<close>): every checkpoint store refines a plain
  journal; interrupted runs leave a prefix of the journal of an uninterrupted run; and a resumed run ends
  with the journal and the outcome of the uninterrupted one.
\<close>

section \<open>One node\<close>

text \<open>The step of the loop without its store: how it ends the run, or the new state, the entries to append and
  the outcome after them.\<close>

datatype node_step =
    step_halt "(dag_run_outcome \<times> dag_run_state) result"
  | step_commit dag_run_state "dag_checkpoint_entry list" "dag_run_outcome option"

type_synonym new_id = "(string \<Rightarrow> string \<Rightarrow> nat \<Rightarrow> string) option"

definition nodeStep :: "host \<Rightarrow> dag_runner_registry \<Rightarrow> new_id \<Rightarrow> dag_run_request \<Rightarrow> operation_dag_node \<Rightarrow> dag_run_state \<Rightarrow> node_step" where
  "nodeStep H runners newId request node s =
     (case runNode runners request node (rs_produced s) of
        Inl e \<Rightarrow> step_halt (Inl e)
      | Inr (inputs, result) \<Rightarrow>
          let started = s\<lparr>rs_events := rs_events s @ [node_started_event (dn_node_id node)]\<rparr> in
          (case stopBefore (dq_operation_id request) (dn_node_id node) result of
             Some outcome \<Rightarrow> step_halt (Inr (outcome, started))
           | None \<Rightarrow>
               if malformedPlan node result then step_halt (Inl (DagEngineError runner_output_mismatch))
               else case collectOutputs node (resultBindings result) of
                 Inl e \<Rightarrow> step_halt (Inl e)
               | Inr outputs \<Rightarrow>
                   let recorded = recordOutputs node outputs started in
                   if \<not> dn_checkpoint node
                   then step_commit recorded [] (stopAfter (dq_operation_id request) (dn_node_id node) result recorded)
                   else case checkpointEntry H newId request node (rs_journal_index s + 1) inputs outputs of
                     Inl e \<Rightarrow> step_halt (Inl e)
                   | Inr entry \<Rightarrow>
                       let committed = recorded\<lparr>rs_journal_index := rs_journal_index s + 1,
                         rs_events := rs_events recorded @ [node_committed_event (dn_node_id node) (ce_checkpoint_id entry)]\<rparr>
                       in step_commit committed [entry] (stopAfter (dq_operation_id request) (dn_node_id node) result committed)))"

lemma recordOutputs_index [simp]: "rs_journal_index (recordOutputs node outputs s) = rs_journal_index s"
  by (simp add: recordOutputs_def)

lemma executeNodes_Cons:
  "executeNodes H config request (node # nodes) s store =
     (case nodeStep H (ec_runners config) (ec_newCheckpointId config) request node s of
        step_halt r \<Rightarrow> (store, r)
      | step_commit s' entries stop \<Rightarrow>
          let store' = foldl (\<lambda>st e. st_append (ec_store config) (dq_operation_id request) e st) store entries in
          (case stop of Some outcome \<Rightarrow> (store', Inr (outcome, s')) | None \<Rightarrow> executeNodes H config request nodes s' store'))"
  by (simp add: nodeStep_def commitNode_def Let_def rbind_def split: sum.split prod.split option.split)

declare executeNodes.simps(2) [simp del]

section \<open>Stores\<close>

locale checkpoint_store =
  fixes load :: "'s \<Rightarrow> string \<Rightarrow> dag_checkpoint_entry list"
    and append :: "string \<Rightarrow> dag_checkpoint_entry \<Rightarrow> 's \<Rightarrow> 's"
    and truncate :: "string \<Rightarrow> nat \<Rightarrow> 's \<Rightarrow> 's"
  assumes load_append: "load (append op e s) op = load s op @ [e]"
    and load_truncate: "load (truncate op n s) op = take n (load s op)"
begin

text \<open>The same store, seen as the journal of one operation.\<close>

lemma execute_refines:
  assumes "ec_store config = \<lparr>st_load = load, st_append = append, st_truncate = truncate\<rparr>"
    and "ec_store config' = \<lparr>st_load = \<lambda>j _. j, st_append = \<lambda>_ e j. j @ [e], st_truncate = \<lambda>_ n j. take n j\<rparr>"
    and "ec_runners config' = ec_runners config" "ec_newCheckpointId config' = ec_newCheckpointId config"
  shows "map_prod (\<lambda>st. load st (dq_operation_id request)) id (executeNodes H config request nodes s store)
     = executeNodes H config' request nodes s (load store (dq_operation_id request))"
proof (induction nodes arbitrary: s store)
  case (Cons node nodes)
  have loads: "load (foldl (\<lambda>st e. append (dq_operation_id request) e st) store entries) (dq_operation_id request)
      = foldl (\<lambda>j e. j @ [e]) (load store (dq_operation_id request)) entries" for entries
    by (induction entries arbitrary: store) (simp_all add: load_append)
  show ?case
    by (simp add: executeNodes_Cons assms Let_def Cons.IH [unfolded id_def] loads split: node_step.split option.split)
qed simp

lemma run_refines:
  assumes "ec_store config = \<lparr>st_load = load, st_append = append, st_truncate = truncate\<rparr>"
    and "ec_store config' = \<lparr>st_load = \<lambda>j _. j, st_append = \<lambda>_ e j. j @ [e], st_truncate = \<lambda>_ n j. take n j\<rparr>"
    and "ec_runners config' = ec_runners config" "ec_newCheckpointId config' = ec_newCheckpointId config"
  shows "map_prod (\<lambda>st. load st (dq_operation_id request)) id (runDag H config request store)
     = runDag H config' request (load store (dq_operation_id request))"
  using execute_refines [OF assms]
  by (simp add: runDag_def assms(1,2) Let_def load_truncate split: sum.split prod.split)

end

interpretation memory: checkpoint_store memoryLoad memoryAppend memoryTruncate
  by unfold_locales (simp_all add: memoryLoad_def memoryAppend_def memoryTruncate_def orList_def)

definition journalStore :: "dag_checkpoint_entry list dag_checkpoint_store" where
  "journalStore = \<lparr>st_load = \<lambda>j _. j, st_append = \<lambda>_ e j. j @ [e], st_truncate = \<lambda>_ n j. take n j\<rparr>"

interpretation journal: checkpoint_store "\<lambda>j _. j" "\<lambda>_ e j. j @ [e]" "\<lambda>_ n j. take n j"
  by unfold_locales simp_all

definition journalConfig :: "dag_runner_registry \<Rightarrow> (string \<Rightarrow> string \<Rightarrow> nat \<Rightarrow> string) option \<Rightarrow> dag_checkpoint_entry list dag_engine_config" where
  "journalConfig runners newId = \<lparr>ec_store = journalStore, ec_runners = runners, ec_newCheckpointId = newId\<rparr>"

definition memoryConfig :: "dag_runner_registry \<Rightarrow> (string \<Rightarrow> string \<Rightarrow> nat \<Rightarrow> string) option \<Rightarrow> memory_journals dag_engine_config" where
  "memoryConfig runners newId = \<lparr>ec_store = InMemoryDagCheckpointStore, ec_runners = runners, ec_newCheckpointId = newId\<rparr>"

lemma memory_run:
  "map_prod (\<lambda>st. memoryLoad st (dq_operation_id request)) id (runDag H (memoryConfig runners newId) request store)
     = runDag H (journalConfig runners newId) request (memoryLoad store (dq_operation_id request))"
  by (rule memory.run_refines) (simp_all add: memoryConfig_def journalConfig_def journalStore_def InMemoryDagCheckpointStore_def)

text \<open>
  C34. The in-memory store implements the journal: a run over it has the results of a run over a plain list of
  entries, and leaves the same journal for the operation.
\<close>
theorem memory_store_refines_journal:
  "map_prod (\<lambda>st. memoryLoad st (dq_operation_id request)) id (runDag H (memoryConfig runners newId) request store)
     = runDag H (journalConfig runners newId) request (memoryLoad store (dq_operation_id request))"
  by (rule memory_run)

section \<open>States that agree on the progress made\<close>

fun normOutcome :: "dag_run_outcome \<Rightarrow> dag_run_outcome" where
  "normOutcome (run_paused op n executed replayed) = run_paused op n (replayed @ executed) []"
| "normOutcome (run_replan_required op n d executed replayed) = run_replan_required op n d (replayed @ executed) []"
| "normOutcome (run_completed op executed replayed) = run_completed op (replayed @ executed) []"
| "normOutcome outcome = outcome"

definition normRun :: "(dag_run_outcome \<times> dag_run_state) result \<Rightarrow> dag_run_outcome result" where
  "normRun r = map_sum id (\<lambda>x. normOutcome (fst x)) r"

definition sameProgress :: "dag_run_state \<Rightarrow> dag_run_state \<Rightarrow> bool" where
  "sameProgress s s' \<longleftrightarrow> jm_get (rs_produced s) = jm_get (rs_produced s') \<and> rs_journal_index s = rs_journal_index s'
     \<and> rs_replayed s @ rs_executed s = rs_replayed s' @ rs_executed s'"

lemma resolveInputs_cong: "jm_get p = jm_get p' \<Longrightarrow> resolveInputs p ks inputs = resolveInputs p' ks inputs"
  by (induction ks arbitrary: inputs) (auto split: option.split)

lemma get_foldl_sets:
  "distinct (map fst bs) \<Longrightarrow> jm_get (foldl (\<lambda>p b. jm_set (fst b) (snd b) p) P bs) k = (case map_of bs k of None \<Rightarrow> jm_get P k | Some v \<Rightarrow> Some v)"
proof (induction bs arbitrary: P)
  case (Cons b bs)
  obtain a v where b: "b = (a, v)" by (cases b)
  have "map_of bs a = None" using Cons.prems by (simp add: b map_of_eq_None_iff)
  then show ?case using Cons by (auto simp: b update_conv' split: option.split)
qed simp

lemma get_foldl_cong:
  "jm_get p = jm_get p' \<Longrightarrow> jm_get (foldl (\<lambda>p b. jm_set (fst b) (snd b) p) p bs) = jm_get (foldl (\<lambda>p b. jm_set (fst b) (snd b) p) p' bs)"
  by (induction bs arbitrary: p p') (simp_all add: update_conv')

lemma runNode_cong: "jm_get p = jm_get p' \<Longrightarrow> runNode runners request node p = runNode runners request node p'"
  by (simp add: runNode_def resolveInputs_cong [of p p'])

lemma stopBefore_norm: "stopBefore op n result = Some outcome \<Longrightarrow> normOutcome outcome = outcome"
  by (auto simp: stopBefore_def split: dag_node_result.splits)

lemma stopAfter_norm:
  "rs_replayed s @ rs_executed s = rs_replayed s' @ rs_executed s' \<Longrightarrow>
     map_option normOutcome (stopAfter op n result s') = map_option normOutcome (stopAfter op n result s)"
  by (simp add: stopAfter_def split: dag_node_result.split)

lemma record_progress:
  "sameProgress s s' \<Longrightarrow> sameProgress (recordOutputs node outputs (s\<lparr>rs_events := ev\<rparr>)) (recordOutputs node outputs (s'\<lparr>rs_events := ev'\<rparr>))"
  by (simp add: sameProgress_def recordOutputs_def get_foldl_cong [of "rs_produced s" "rs_produced s'"])

lemma sameProgress_commit:
  "sameProgress s s' \<Longrightarrow> n = n' \<Longrightarrow> sameProgress (s\<lparr>rs_journal_index := n, rs_events := ev\<rparr>) (s'\<lparr>rs_journal_index := n', rs_events := ev'\<rparr>)"
  by (simp add: sameProgress_def)

lemma nodeStep_same:
  assumes "sameProgress s s'"
  shows "case nodeStep H runners newId request node s of
      step_halt x \<Rightarrow> \<exists>x'. nodeStep H runners newId request node s' = step_halt x' \<and> normRun x' = normRun x
    | step_commit t entries stop \<Rightarrow> \<exists>t' stop'. nodeStep H runners newId request node s' = step_commit t' entries stop' \<and> sameProgress t t'
        \<and> map_option normOutcome stop' = map_option normOutcome stop"
proof -
  have run: "runNode runners request node (rs_produced s') = runNode runners request node (rs_produced s)"
    and index: "rs_journal_index s' = rs_journal_index s"
    using assms by (simp_all add: sameProgress_def runNode_cong [of "rs_produced s'" "rs_produced s"])
  have progress: "sameProgress (recordOutputs node outputs (s\<lparr>rs_events := ev\<rparr>)) (recordOutputs node outputs (s'\<lparr>rs_events := ev'\<rparr>))" for outputs ev ev'
    by (rule record_progress [OF assms])
  then have lists: "rs_replayed (recordOutputs node outputs (s\<lparr>rs_events := ev\<rparr>)) @ rs_executed (recordOutputs node outputs (s\<lparr>rs_events := ev\<rparr>))
      = rs_replayed (recordOutputs node outputs (s'\<lparr>rs_events := ev'\<rparr>)) @ rs_executed (recordOutputs node outputs (s'\<lparr>rs_events := ev'\<rparr>))" for outputs ev ev'
    by (simp add: sameProgress_def)
  show ?thesis
    unfolding nodeStep_def run index Let_def
    by (auto simp: normRun_def intro!: progress sameProgress_commit stopAfter_norm lists split: sum.split prod.split option.split)
qed

lemma exec_Cons:
  "executeNodes H (journalConfig runners newId) request (node # nodes) s J =
     (case nodeStep H runners newId request node s of
        step_halt r \<Rightarrow> (J, r)
      | step_commit s' entries stop \<Rightarrow>
          (case stop of Some outcome \<Rightarrow> (J @ entries, Inr (outcome, s'))
           | None \<Rightarrow> executeNodes H (journalConfig runners newId) request nodes s' (J @ entries)))"
proof -
  have "foldl (\<lambda>j e. j @ [e]) J es = J @ es" for J es :: "dag_checkpoint_entry list" by (induction es arbitrary: J) auto
  then show ?thesis by (cases "nodeStep H runners newId request node s") (simp_all add: executeNodes_Cons journalConfig_def journalStore_def Let_def)
qed

lemma exec_grows:
  "executeNodes H (journalConfig runners newId) request nodes s J =
     (J @ fst (executeNodes H (journalConfig runners newId) request nodes s []), snd (executeNodes H (journalConfig runners newId) request nodes s []))"
proof (induction nodes arbitrary: s J)
  case (Cons node nodes)
  show ?case
  proof (cases "nodeStep H runners newId request node s")
    case (step_commit t es stop)
    then show ?thesis using Cons.IH [of t "J @ es"] Cons.IH [of t es] by (auto simp: exec_Cons split: option.split)
  qed (simp add: exec_Cons)
qed simp

lemma exec_same:
  "sameProgress s s' \<Longrightarrow> fst (executeNodes H (journalConfig runners newId) request nodes s' J) = fst (executeNodes H (journalConfig runners newId) request nodes s J)
     \<and> normRun (snd (executeNodes H (journalConfig runners newId) request nodes s' J)) = normRun (snd (executeNodes H (journalConfig runners newId) request nodes s J))"
proof (induction nodes arbitrary: s s' J)
  case Nil
  then show ?case by (simp add: normRun_def sameProgress_def)
next
  case (Cons node nodes)
  show ?case
  proof (cases "nodeStep H runners newId request node s")
    case (step_halt x)
    then show ?thesis using nodeStep_same [OF Cons.prems, of H runners newId request node] by (auto simp: exec_Cons)
  next
    case (step_commit t es stop)
    then obtain t' stop' where t': "nodeStep H runners newId request node s' = step_commit t' es stop'" "sameProgress t t'"
      "map_option normOutcome stop' = map_option normOutcome stop"
      using nodeStep_same [OF Cons.prems, of H runners newId request node] by auto
    show ?thesis
    proof (cases stop)
      case None
      then show ?thesis using Cons.IH [OF t'(2), of "J @ es"] t'(1,3) step_commit by (simp add: exec_Cons)
    next
      case (Some outcome)
      then show ?thesis using t'(1,3) step_commit by (auto simp: exec_Cons normRun_def)
    qed
  qed
qed

section \<open>Replay\<close>

lemma map_of_canonical: "distinct (map fst digests) \<Longrightarrow> jm_get (canonicalDigests digests) = jm_get digests"
proof -
  assume d: "distinct (map fst digests)"
  moreover have "mset (map fst (canonicalDigests digests)) = mset (map fst digests)" by (simp add: canonicalDigests_def)
  ultimately have "distinct (map fst (canonicalDigests digests))" using mset_eq_imp_distinct_iff by blast
  then show ?thesis using d by (subst map_of_inject_set) (simp_all add: canonicalDigests_def)
qed

lemma recordDigestsEqual_refl: "recordDigestsEqual x x"
  by (auto simp: recordDigestsEqual_def Let_def list_all_iff set_zip)

lemma collectOutputs_Inr:
  assumes "collectOutputs node bindings = Inr outputs"
  shows "distinct (map fst outputs)" "fst ` set outputs = set (dn_produces node)"
proof -
  have keys: "distinct (map fst (foldl (\<lambda>p b. jm_set (fst b) (snd b) p) P bs))
      \<and> fst ` set (foldl (\<lambda>p b. jm_set (fst b) (snd b) p) P bs) = fst ` set P \<union> fst ` set bs"
    if "distinct (map fst P)" for P :: "(string, string) jmap" and bs
    using that by (induction bs arbitrary: P) (simp_all add: distinct_update dom_update insert_commute Un_assoc)
  have o: "outputs = foldl (\<lambda>p b. jm_set (fst b) (snd b) p) [] bindings" "fst ` set bindings \<subseteq> set (dn_produces node)"
    "\<forall>kind \<in> set (dn_produces node). jm_get outputs kind \<noteq> None"
    using assms by (auto simp: collectOutputs_def Let_def list_all_iff split: if_splits)
  show "distinct (map fst outputs)" using keys [of "[]" bindings] o(1) by simp
  show "fst ` set outputs = set (dn_produces node)"
    using keys [of "[]" bindings] o by (auto simp: map_of_eq_None_iff)
qed

lemma nodeStep_commit:
  assumes "nodeStep H runners newId request node s = step_commit t entries stop" "dn_checkpoint node"
  obtains inputs result outputs e where "resolveInputs (rs_produced s) (dn_consumes node) [] = Some inputs"
    "collectOutputs node (resultBindings result) = Inr outputs" "entries = [e]"
    "checkpointEntry H newId request node (rs_journal_index s + 1) inputs outputs = Inr e"
    "rs_produced t = foldl (\<lambda>produced b. jm_set (fst b) (snd b) produced) (rs_produced s) outputs"
    "rs_journal_index t = rs_journal_index s + 1" "rs_executed t = rs_executed s @ [dn_node_id node]" "rs_replayed t = rs_replayed s"
proof -
  obtain inputs result where r: "runNode runners request node (rs_produced s) = Inr (inputs, result)"
    "stopBefore (dq_operation_id request) (dn_node_id node) result = None" "\<not> malformedPlan node result"
    using assms(1) by (simp add: nodeStep_def Let_def split: sum.splits prod.splits option.splits if_splits)
  obtain outputs where o: "collectOutputs node (resultBindings result) = Inr outputs"
    using assms(1) r by (cases "collectOutputs node (resultBindings result)") (simp_all add: nodeStep_def)
  obtain e where e: "checkpointEntry H newId request node (rs_journal_index s + 1) inputs outputs = Inr e"
    using assms r o by (cases "checkpointEntry H newId request node (rs_journal_index s + 1) inputs outputs") (simp_all add: nodeStep_def Let_def)
  have i: "resolveInputs (rs_produced s) (dn_consumes node) [] = Some inputs"
    using r(1) by (auto simp: runNode_def rbind_Inr_iff split: option.splits)
  have "t = (recordOutputs node outputs (s\<lparr>rs_events := rs_events s @ [node_started_event (dn_node_id node)]\<rparr>))
      \<lparr>rs_journal_index := rs_journal_index s + 1,
       rs_events := rs_events (recordOutputs node outputs (s\<lparr>rs_events := rs_events s @ [node_started_event (dn_node_id node)]\<rparr>))
         @ [node_committed_event (dn_node_id node) (ce_checkpoint_id e)]\<rparr>" "entries = [e]"
    using assms r o e by (simp_all add: nodeStep_def Let_def)
  then show thesis using that [OF i o _ e] by (simp add: recordOutputs_def)
qed

lemma checkpointEntry_Inr:
  "checkpointEntry H newId request node n inputs outputs = Inr e \<Longrightarrow>
     ce_node_id e = dn_node_id node \<and> wiringDigest H node = Inr (ce_wiring_digest e)
     \<and> ce_input_digests e = canonicalDigests inputs \<and> ce_output_digests e = canonicalDigests outputs"
  by (auto simp: checkpointEntry_def rbind_Inr_iff)

lemma get_foldl_kinds:
  "jm_get (foldl (\<lambda>p kind. jm_set kind (f kind) p) P kinds) k = (if k \<in> set kinds then Some (f k) else jm_get P k)"
  by (induction kinds arbitrary: P) (auto simp: update_conv')

text \<open>The entry of a committed node matches on replay, and accepting it makes the progress the commit made.\<close>

lemma replay_accepts:
  assumes step: "nodeStep H runners newId request node s = step_commit t entries stop" "dn_checkpoint node" and same: "sameProgress s s'"
    and executed: "rs_executed s' = []"
  obtains e where "entries = [e]" "entryMatches H (rs_produced s') node (Some e) = Inr True" "sameProgress t (acceptEntry node e s')"
    "rs_executed (acceptEntry node e s') = []" "rs_journal_index t = rs_journal_index s + 1"
proof -
  obtain inputs result outputs e where i: "resolveInputs (rs_produced s) (dn_consumes node) [] = Some inputs"
    and o: "collectOutputs node (resultBindings result) = Inr outputs" and es: "entries = [e]"
    and e: "checkpointEntry H newId request node (rs_journal_index s + 1) inputs outputs = Inr e"
    and t: "rs_produced t = foldl (\<lambda>produced b. jm_set (fst b) (snd b) produced) (rs_produced s) outputs"
      "rs_journal_index t = rs_journal_index s + 1" "rs_executed t = rs_executed s @ [dn_node_id node]" "rs_replayed t = rs_replayed s"
    by (rule nodeStep_commit [OF step])
  note c = checkpointEntry_Inr [OF e] and keys = collectOutputs_Inr [OF o]
  have outs: "jm_get (ce_output_digests e) = jm_get outputs" using c map_of_canonical [OF keys(1)] by simp
  have some: "jm_get outputs kind \<noteq> None \<longleftrightarrow> kind \<in> set (dn_produces node)" for kind
    using keys(2) by (simp add: map_of_eq_None_iff)
  have "resolveInputs (rs_produced s') (dn_consumes node) [] = Some inputs"
    using i resolveInputs_cong [of "rs_produced s'" "rs_produced s"] same by (simp add: sameProgress_def)
  then have matches: "entryMatches H (rs_produced s') node (Some e) = Inr True"
    using c some by (simp add: entryMatches_def map_of_canonical [OF keys(1)] list_all_iff recordDigestsEqual_refl)
  have "jm_get (rs_produced t) k = jm_get (rs_produced (acceptEntry node e s')) k" for k
    using same some [of k] by (auto simp: t(1) acceptEntry_def get_foldl_sets [OF keys(1)] get_foldl_kinds outs sameProgress_def split: option.split)
  then have "sameProgress t (acceptEntry node e s')"
    using same executed by (auto simp: sameProgress_def t(2-4) acceptEntry_def)
  then show thesis using that es matches executed t(2) by (simp add: acceptEntry_def)
qed

section \<open>Resume\<close>

text \<open>Runners that never ask for a pause or a new plan.\<close>

definition steady :: "dag_runner_registry \<Rightarrow> bool" where
  "steady runners \<longleftrightarrow> (\<forall>node f ctx. resolveRunner runners node = Inr f \<longrightarrow>
     (case f ctx of node_paused _ \<Rightarrow> False | plan_superseded _ _ \<Rightarrow> False | _ \<Rightarrow> True))"

text \<open>Idempotence across attempts: what an earlier attempt committed, the later runners commit with the same outputs.\<close>

definition repeats :: "dag_runner_registry \<Rightarrow> dag_runner_registry \<Rightarrow> bool" where
  "repeats earlier later \<longleftrightarrow> (\<forall>node f ctx. resolveRunner earlier node = Inr f \<longrightarrow> stopBefore [] [] (f ctx) = None \<longrightarrow>
     (\<exists>g p. resolveRunner later node = Inr g \<and> g ctx = node_committed p \<and> orList p = resultBindings (f ctx)))"

lemma stopBefore_None: "stopBefore op n result = None \<longleftrightarrow> stopBefore [] [] result = None"
  by (simp add: stopBefore_def split: dag_node_result.split)

lemma steady_step:
  assumes "steady runners" "nodeStep H runners newId request node s = step_commit t entries stop"
  shows "stop = None"
proof -
  obtain inputs result where r: "runNode runners request node (rs_produced s) = Inr (inputs, result)"
    "stop = stopAfter (dq_operation_id request) (dn_node_id node) result t"
    using assms(2) by (auto simp: nodeStep_def Let_def split: sum.splits option.splits if_splits)
  then obtain f ctx where "resolveRunner runners node = Inr f" "result = f ctx"
    by (auto simp: runNode_def rbind_Inr_iff split: option.splits)
  moreover from this(1) have "case f ctx of node_paused _ \<Rightarrow> False | plan_superseded _ _ \<Rightarrow> False | _ \<Rightarrow> True"
    using assms(1) unfolding steady_def by blast
  ultimately show ?thesis using r(2) by (simp add: stopAfter_def split: dag_node_result.splits)
qed

lemma repeats_step:
  assumes "repeats earlier later" "nodeStep H earlier newId request node s = step_commit t entries stop"
  shows "nodeStep H later newId request node s = step_commit t entries None"
proof -
  obtain inputs result where r: "runNode earlier request node (rs_produced s) = Inr (inputs, result)"
    "stopBefore (dq_operation_id request) (dn_node_id node) result = None"
    using assms(2) by (auto simp: nodeStep_def Let_def split: sum.splits option.splits)
  let ?ctx = "\<lparr>dc_operation_id = dq_operation_id request, dc_plan_digest = dq_plan_digest request, dc_node = node, dc_inputs = canonicalDigests inputs\<rparr>"
  obtain f where f: "resolveInputs (rs_produced s) (dn_consumes node) [] = Some inputs" "resolveRunner earlier node = Inr f" "result = f ?ctx"
    using r(1) by (auto simp: runNode_def rbind_Inr_iff split: option.splits)
  then obtain g p where g: "resolveRunner later node = Inr g" "g ?ctx = node_committed p" "orList p = resultBindings result"
    using assms(1) r(2) stopBefore_None unfolding repeats_def by metis
  have run: "runNode later request node (rs_produced s) = Inr (inputs, node_committed p)" using f(1) g by (simp add: runNode_def)
  show ?thesis using assms(2) g(3) unfolding nodeStep_def r(1) run
    by (auto simp: Let_def r(2) stopBefore_def malformedPlan_def stopAfter_def resultBindings_def [of "node_committed p"]
        split: sum.splits option.splits if_splits)
qed

lemma exec_repeats:
  assumes "repeats earlier later"
  shows "prefix (fst (executeNodes H (journalConfig earlier newId) request nodes s J)) (fst (executeNodes H (journalConfig later newId) request nodes s J))"
proof (induction nodes arbitrary: s J)
  case (Cons node nodes)
  show ?case
  proof (cases "nodeStep H earlier newId request node s")
    case (step_halt x)
    then show ?thesis by (subst (2) exec_grows) (simp add: exec_Cons)
  next
    case (step_commit t es stop)
    note later = repeats_step [OF assms this]
    show ?thesis
    proof (cases stop)
      case None
      then show ?thesis using Cons.IH [of t "J @ es"] by (simp add: exec_Cons step_commit later)
    next
      case (Some outcome)
      have "prefix (J @ es) (fst (executeNodes H (journalConfig later newId) request nodes t (J @ es)))"
        by (subst exec_grows) simp
      then show ?thesis by (simp add: exec_Cons step_commit later Some)
    qed
  qed
qed simp

text \<open>Replaying a prefix of the journal of a run and executing the rest gives the journal and the outcome of the run.\<close>

lemma resume_claim:
  assumes "steady runners" "\<forall>node \<in> set nodes. dn_checkpoint node" "sameProgress s s'" "rs_executed s' = []"
    and "executeNodes H (journalConfig runners newId) request nodes s [] = (E, out)" "k \<le> length E" "length P = rs_journal_index s"
  shows "\<exists>rest s''. replayNodes H (P @ take k E) nodes s' = Inr (rest, s'') \<and> rs_journal_index s'' = length P + k \<and> length rest + k = length nodes
     \<and> rs_executed s'' = []
     \<and> fst (executeNodes H (journalConfig runners newId) request rest s'' (P @ take k E)) = P @ E
     \<and> normRun (snd (executeNodes H (journalConfig runners newId) request rest s'' (P @ take k E))) = normRun out"
  using assms
proof (induction nodes arbitrary: s s' E P k)
  case Nil
  then show ?case by (auto simp: normRun_def sameProgress_def)
next
  case (Cons node nodes)
  show ?case
  proof (cases k)
    case 0
    have index: "rs_journal_index s' = length P" using Cons.prems by (simp add: sameProgress_def)
    have "replayNodes H P (node # nodes) s' = Inr (node # nodes, s')"
      using Cons.prems(2) by (simp add: index entryMatches_def split: option.split)
    moreover have "fst (executeNodes H (journalConfig runners newId) request (node # nodes) s' P) = P @ E
        \<and> normRun (snd (executeNodes H (journalConfig runners newId) request (node # nodes) s' P)) = normRun out"
      using exec_same [OF Cons.prems(3), of H runners newId request "node # nodes" P] Cons.prems(5)
      by (subst (asm) (2 4) exec_grows) simp
    ultimately show ?thesis using 0 index Cons.prems(4) by simp
  next
    case (Suc k')
    then have "E \<noteq> []" using Cons.prems(6) by auto
    then obtain t es stop where step: "nodeStep H runners newId request node s = step_commit t es stop"
      using Cons.prems(5) by (cases "nodeStep H runners newId request node s") (auto simp: exec_Cons)
    have "dn_checkpoint node" using Cons.prems(2) by simp
    then obtain e where e: "es = [e]" "entryMatches H (rs_produced s') node (Some e) = Inr True" "sameProgress t (acceptEntry node e s')"
      "rs_executed (acceptEntry node e s') = []" "rs_journal_index t = rs_journal_index s + 1"
      using replay_accepts [OF step _ Cons.prems(3,4)] by blast
    have stop: "stop = None" by (rule steady_step [OF Cons.prems(1) step])
    obtain E' where E': "executeNodes H (journalConfig runners newId) request nodes t [] = (E', out)" "E = e # E'"
      using Cons.prems(5) exec_grows [of H runners newId request nodes t "[e]"] by (simp add: exec_Cons step stop e(1)) (metis fst_conv prod.collapse snd_conv)
    have ih: "\<exists>rest s''. replayNodes H ((P @ [e]) @ take k' E') nodes (acceptEntry node e s') = Inr (rest, s'')
        \<and> rs_journal_index s'' = length (P @ [e]) + k' \<and> length rest + k' = length nodes \<and> rs_executed s'' = []
        \<and> fst (executeNodes H (journalConfig runners newId) request rest s'' ((P @ [e]) @ take k' E')) = (P @ [e]) @ E'
        \<and> normRun (snd (executeNodes H (journalConfig runners newId) request rest s'' ((P @ [e]) @ take k' E'))) = normRun out"
      by (rule Cons.IH [OF Cons.prems(1) _ e(3,4) E'(1)]) (use Cons.prems E'(2) Suc e(5) in auto)
    have index: "rs_journal_index s' = length P" using Cons.prems by (simp add: sameProgress_def)
    have "replayNodes H (P @ take k E) (node # nodes) s' = replayNodes H ((P @ [e]) @ take k' E') nodes (acceptEntry node e s')"
      using Cons.prems(2) e(2) by (simp add: index Suc E'(2) nth_append)
    then show ?thesis using ih by (simp add: Suc E'(2))
  qed
qed

section \<open>Interrupted runs\<close>

text \<open>The journals that interrupted attempts leave behind, one registry of runners per attempt.\<close>

definition attempted :: "host \<Rightarrow> 's dag_checkpoint_store \<Rightarrow> new_id \<Rightarrow> dag_run_request \<Rightarrow> dag_runner_registry list \<Rightarrow> 's \<Rightarrow> 's" where
  "attempted H store newId request attempts journals =
     foldl (\<lambda>st runners. fst (runDag H \<lparr>ec_store = store, ec_runners = runners, ec_newCheckpointId = newId\<rparr> request st)) journals attempts"

lemma find_unique: "x \<in> set xs \<Longrightarrow> P x \<Longrightarrow> (\<And>y. y \<in> set xs \<Longrightarrow> P y \<Longrightarrow> y = x) \<Longrightarrow> find P xs = Some x"
proof (induction xs)
  case (Cons y ys)
  then show ?case by (cases "P y") (fastforce intro: Cons.IH)+
qed simp

lemma topologicalOrder_spec:
  assumes "validateOperationDag nodes = Inr ()"
  shows "mset (topologicalOrder nodes) = mset nodes"
    and "i < length (topologicalOrder nodes) \<Longrightarrow>
      set (dn_depends_on (topologicalOrder nodes ! i)) \<subseteq> dn_node_id ` set (take i (topologicalOrder nodes))"
proof -
  have valid: "distinct (map dn_node_id nodes)" "dagKnown nodes" "acyclic (dagEdges nodes)"
    using assms unfolding validation by (simp_all split: if_splits)
  let ?indegree = "map (\<lambda>node. (dn_node_id node, int (length (dn_depends_on node)))) nodes"
  let ?ready = "map dn_node_id (filter (\<lambda>node. dn_depends_on node = []) nodes)"
  have degrees: "\<forall>n \<in> set nodes. jm_get ?indegree (dn_node_id n) = Some (int (length (dn_depends_on n)))"
    using valid(1) by (auto simp: map_of_eq_Some_iff comp_def)
  have ready: "distinct ?ready" "set ?ready = dn_node_id ` {n \<in> set nodes. dn_depends_on n = []}"
    using valid(1) by (simp_all add: distinct_map inj_on_def)
  obtain order where o: "order = kahnIds (dependentsTable nodes) ?indegree ?ready" "distinct order" "set order \<subseteq> dn_node_id ` set nodes"
    "dag.rankedIds nodes order" "length order = length nodes"
    using kahn_visits [OF valid(1) _ ready degrees] valid(2,3) unfolding dag_graph by blast
  have ids: "set order = dn_node_id ` set nodes"
    using o valid(1) by (metis card_subset_eq distinct_card finite_set length_map list.set_map)
  have unique: "m = n" if "m \<in> set nodes" "n \<in> set nodes" "dn_node_id m = dn_node_id n" for m n
    using that valid(1) by (metis distinct_map inj_onD)
  have found: "find (\<lambda>node. dn_node_id node = dn_node_id n) (rev nodes) = Some n" if "n \<in> set nodes" for n
    by (rule find_unique) (use that unique in auto)
  let ?topo = "topologicalOrder nodes"
  have topo: "?topo = map (\<lambda>id. the (find (\<lambda>node. dn_node_id node = id) (rev nodes))) order" by (simp add: topologicalOrder_def o(1))
  have order: "map dn_node_id ?topo = order" unfolding topo using o(3) found by (auto simp: comp_def intro!: map_idI)
  have sub: "set ?topo \<subseteq> set nodes" unfolding topo using o(3) found by auto
  have "n \<in> set ?topo" if "n \<in> set nodes" for n
    unfolding topo using that found [OF that] ids by (auto simp: image_iff intro!: bexI [of _ n])
  then have sets: "set ?topo = set nodes" using sub by blast
  moreover have "distinct ?topo" "distinct nodes" using order o(2) valid(1) by (auto simp: distinct_map)
  ultimately show "mset ?topo = mset nodes" by (simp add: set_eq_iff_mset_eq_distinct)
  show "set (dn_depends_on (?topo ! i)) \<subseteq> dn_node_id ` set (take i ?topo)" if i: "i < length ?topo"
  proof -
    have "i < length order" "dn_node_id (?topo ! i) = order ! i" "?topo ! i \<in> set nodes"
      using i order sub by (auto simp flip: order)
    then have "set (dn_depends_on (?topo ! i)) \<subseteq> set (take i order)" using o(4) by (auto simp: dag.rankedIds_def)
    then show ?thesis by (simp flip: order add: take_map)
  qed
qed

lemma run_from_prefix:
  assumes "steady later" "\<forall>node \<in> set (dq_nodes request). dn_checkpoint node"
    and fresh: "runDag H (journalConfig later newId) request [] = (E, out)" and "prefix J E"
  shows "repeats earlier later \<Longrightarrow> prefix (fst (runDag H (journalConfig earlier newId) request J)) E"
    and "fst (runDag H (journalConfig later newId) request J) = E"
    and "normRun (snd (runDag H (journalConfig later newId) request J)) = normRun out"
proof -
  have "(repeats earlier later \<longrightarrow> prefix (fst (runDag H (journalConfig earlier newId) request J)) E) \<and>
      fst (runDag H (journalConfig later newId) request J) = E \<and> normRun (snd (runDag H (journalConfig later newId) request J)) = normRun out"
  proof (cases "validateOperationDag (dq_nodes request)")
    case (Inl e)
    then show ?thesis using fresh assms(4) by (auto simp: runDag_def)
  next
    case (Inr u)
    let ?nodes = "topologicalOrder (dq_nodes request)"
    have "set ?nodes = set (dq_nodes request)" using topologicalOrder_spec(1) Inr by (metis old.unit.exhaust set_mset_mset)
    then have marked: "\<forall>node \<in> set ?nodes. dn_checkpoint node" using assms(2) by simp
    have start: "replayNodes H [] ?nodes startState = Inr (?nodes, startState)"
      by (cases ?nodes) (auto simp: entryMatches_def split: option.split)
    have exec: "executeNodes H (journalConfig later newId) request ?nodes startState [] = (E, out)"
      using fresh by (simp add: runDag_def Inr journalConfig_def journalStore_def start)
    have k: "take (length J) E = J" "length J \<le> length E" using assms(4) by (auto simp: prefix_def)
    obtain rest s where rest: "replayNodes H J ?nodes startState = Inr (rest, s)" "rs_journal_index s = length J"
      "fst (executeNodes H (journalConfig later newId) request rest s J) = E"
      "normRun (snd (executeNodes H (journalConfig later newId) request rest s J)) = normRun out"
      using resume_claim [OF assms(1) marked _ _ exec k(2), of startState "[]"] k(1) by (auto simp: startState_def sameProgress_def)
    have "runDag H (journalConfig r newId) request J = executeNodes H (journalConfig r newId) request rest s J" for r
      by (simp add: runDag_def Inr journalConfig_def journalStore_def rest(1,2))
    then show ?thesis using rest(3,4) exec_repeats [of earlier later H newId request rest s J] by simp
  qed
  then show "repeats earlier later \<Longrightarrow> prefix (fst (runDag H (journalConfig earlier newId) request J)) E"
    and "fst (runDag H (journalConfig later newId) request J) = E"
    and "normRun (snd (runDag H (journalConfig later newId) request J)) = normRun out"
    by simp_all
qed

end
