(* ===== verification/Dag_Run.thy ===== *)
theory Dag_Run
  imports Dag_Resume
begin

text \<open>
  What a run of the DAG engine promises (\<^verbatim>\<open>runtime/src/workflow/dag-engine.ts\<close>): a run over a DAG built by
  \<^verbatim>\<open>buildOperationDag\<close> with runners that commit what their node declares completes and executes every node after
  its dependencies; a run resumed after any number of interruptions ends as the uninterrupted one.
\<close>

section \<open>Inputs come from upstream\<close>

text \<open>Validation asks for some producer of every consumed binding; a run needs it to be an ancestor.\<close>

definition inputsUpstream :: "operation_dag_node list \<Rightarrow> bool" where
  "inputsUpstream nodes \<longleftrightarrow> (\<forall>n \<in> set nodes. \<forall>k \<in> set (dn_consumes n). \<exists>m \<in> set nodes.
     k \<in> set (dn_produces m) \<and> (dn_node_id m, dn_node_id n) \<in> (dagEdges nodes)\<^sup>+)"

lemma ancestors_earlier:
  assumes valid: "validateOperationDag nodes = Inr ()"
    and path: "(dn_node_id m, dn_node_id (topologicalOrder nodes ! i)) \<in> (dagEdges nodes)\<^sup>+" and "m \<in> set nodes" "i < length (topologicalOrder nodes)"
  shows "m \<in> set (take i (topologicalOrder nodes))"
proof -
  let ?topo = "topologicalOrder nodes"
  have sets: "set ?topo = set nodes" using topologicalOrder_spec(1) [OF valid] by (metis set_mset_mset)
  have ids: "distinct (map dn_node_id nodes)" using valid unfolding validation by (simp split: if_splits)
  have same: "x = y" if "x \<in> set nodes" "y \<in> set nodes" "dn_node_id x = dn_node_id y" for x y
    using that ids by (metis distinct_map inj_onD)
  have edge: "a \<in> dn_node_id ` set (take j ?topo)" if "(a, dn_node_id (?topo ! j)) \<in> dagEdges nodes" "j < length ?topo" for a j
  proof -
    have "?topo ! j \<in> set nodes" using sets nth_mem [OF that(2)] by simp
    then have "a \<in> set (dn_depends_on (?topo ! j))" using that(1) same by (auto simp: dagEdges_def)
    then show ?thesis using topologicalOrder_spec(2) [OF valid that(2)] by blast
  qed
  have "a \<in> dn_node_id ` set (take j ?topo)" if "(a, b) \<in> (dagEdges nodes)\<^sup>+" "b = dn_node_id (?topo ! j)" "j < length ?topo" for a b j
    using that
  proof (induction arbitrary: j rule: trancl_induct)
    case (base b)
    then show ?case using edge by simp
  next
    case (step b c)
    then obtain x where x: "x \<in> set (take j ?topo)" "b = dn_node_id x" using edge [of b j] by auto
    then obtain l where l: "l < j" "x = ?topo ! l" using step.prems(2) by (auto simp: in_set_conv_nth)
    have "a \<in> dn_node_id ` set (take l ?topo)" using step.IH [of l] l x step.prems(2) by simp
    moreover have "set (take l ?topo) \<subseteq> set (take j ?topo)" by (rule set_take_subset_set_take) (use l(1) in simp)
    ultimately show ?case by blast
  qed
  then obtain x where x: "x \<in> set (take i ?topo)" "dn_node_id m = dn_node_id x" using path assms(4) by blast
  then have "x \<in> set nodes" using sets by (metis in_set_takeD)
  then show ?thesis using same [OF assms(3) _ x(2)] x(1) by simp
qed

section \<open>Runs that complete\<close>

text \<open>Runners that commit exactly the bindings their node declares.\<close>

definition conforming :: "dag_runner_registry \<Rightarrow> operation_dag_node list \<Rightarrow> bool" where
  "conforming runners nodes \<longleftrightarrow> (\<forall>node \<in> set nodes. \<exists>f. resolveRunner runners node = Inr f \<and>
     (\<forall>ctx. dc_node ctx = node \<longrightarrow> (\<exists>p. f ctx = node_committed p \<and> fst ` set (orList p) = set (dn_produces node))))"

lemma wiringDigest_total: "nfcAscii H \<Longrightarrow> \<exists>d. wiringDigest H node = Inr d"
proof -
  assume H: "nfcAscii H"
  have nfc: "h_nfc H ''node_id'' = ''node_id''" "h_nfc H ''node_kind'' = ''node_kind''" "h_nfc H ''capability_id'' = ''capability_id''"
    "h_nfc H ''depends_on'' = ''depends_on''" "h_nfc H ''consumes'' = ''consumes''" "h_nfc H ''produces'' = ''produces''"
    "h_nfc H ''subgraph'' = ''subgraph''"
    using H by (simp_all add: nfcAscii_def)
  have strs: "list_all id (map (wellKeyed H) (map JStr xs))" for xs by (simp add: list_all_iff)
  show ?thesis
    by (cases "dn_capability_id node"; cases "dn_subgraph node")
      (simp_all add: wiringDigest_def contentDigest_total optionalField_def nfc strs list_all_iff)
qed

lemma checkpointEntry_total:
  assumes "nfcAscii H"
  shows "\<exists>e. checkpointEntry H newId request node n inputs outputs = Inr e"
proof -
  have nfc: "h_nfc H ''operationId'' = ''operationId''" "h_nfc H ''nodeId'' = ''nodeId''" "h_nfc H ''seq'' = ''seq''"
    using assms by (simp_all add: nfcAscii_def)
  have "\<exists>c. checkpointId H newId op nodeId seq = Inr c" for op nodeId seq
    by (cases newId) (simp_all add: checkpointId_def rbind_Inr_iff contentDigest_total nfc)
  then show ?thesis using wiringDigest_total [OF assms, of node] by (auto simp: checkpointEntry_def rbind_Inr_iff)
qed

lemma resolveInputs_total: "\<forall>k \<in> set ks. jm_get p k \<noteq> None \<Longrightarrow> \<exists>inputs. resolveInputs p ks acc = Some inputs"
  by (induction ks arbitrary: acc) auto

lemma collectOutputs_total:
  assumes "fst ` set bindings = set (dn_produces node)"
  shows "\<exists>outputs. collectOutputs node bindings = Inr outputs"
proof -
  have "jm_get (foldl (\<lambda>p b. jm_set (fst b) (snd b) p) P bindings) k \<noteq> None" if "k \<in> fst ` set bindings \<or> jm_get P k \<noteq> None" for P :: "(string, string) jmap" and k
    using that by (induction bindings arbitrary: P) (auto simp: update_conv')
  then have "list_all (\<lambda>kind. jm_get (foldl (\<lambda>p b. jm_set (fst b) (snd b) p) [] bindings) kind \<noteq> None) (dn_produces node)"
    using assms unfolding list_all_iff by blast
  moreover have "list_all (\<lambda>b. List.member (dn_produces node) (fst b)) bindings" using assms by (auto simp: list_all_iff)
  ultimately show ?thesis by (simp add: collectOutputs_def)
qed

lemma conforming_step:
  assumes "nfcAscii H" "conforming runners nodes" "node \<in> set nodes" "\<forall>k \<in> set (dn_consumes node). jm_get (rs_produced s) k \<noteq> None"
  shows "\<exists>t es. nodeStep H runners newId request node s = step_commit t es None \<and> rs_executed t = rs_executed s @ [dn_node_id node]
     \<and> rs_replayed t = rs_replayed s \<and> (\<forall>k. jm_get (rs_produced s) k \<noteq> None \<or> k \<in> set (dn_produces node) \<longrightarrow> jm_get (rs_produced t) k \<noteq> None)"
proof -
  obtain inputs where i: "resolveInputs (rs_produced s) (dn_consumes node) [] = Some inputs" using resolveInputs_total [OF assms(4)] by blast
  let ?ctx = "\<lparr>dc_operation_id = dq_operation_id request, dc_plan_digest = dq_plan_digest request, dc_node = node, dc_inputs = canonicalDigests inputs\<rparr>"
  obtain f p where f: "resolveRunner runners node = Inr f" "f ?ctx = node_committed p" "fst ` set (orList p) = set (dn_produces node)"
    using assms(2,3) unfolding conforming_def by (metis dag_node_context.select_convs(3))
  have run: "runNode runners request node (rs_produced s) = Inr (inputs, node_committed p)" using i f(1,2) by (simp add: runNode_def)
  obtain outputs where o: "collectOutputs node (orList p) = Inr outputs" using collectOutputs_total [OF f(3)] by blast
  obtain e where e: "checkpointEntry H newId request node (rs_journal_index s + 1) inputs outputs = Inr e" using checkpointEntry_total [OF assms(1)] by blast
  have "jm_get (foldl (\<lambda>p b. jm_set (fst b) (snd b) p) (rs_produced s) outputs) k \<noteq> None"
    if "jm_get (rs_produced s) k \<noteq> None \<or> k \<in> set (dn_produces node)" for k
  proof -
    have "map_of outputs k = None \<longleftrightarrow> k \<notin> set (dn_produces node)" using collectOutputs_Inr(2) [OF o] by (simp add: map_of_eq_None_iff)
    then show ?thesis using that unfolding get_foldl_sets [OF collectOutputs_Inr(1) [OF o]] by (cases "map_of outputs k") simp_all
  qed
  then show ?thesis
    unfolding nodeStep_def run by (simp add: Let_def stopBefore_def malformedPlan_def resultBindings_def o e [simplified] stopAfter_def recordOutputs_def)
qed

lemma conforming_completes:
  assumes "nfcAscii H" "conforming runners nodes" "set rest \<subseteq> set nodes"
    and "\<forall>i < length rest. \<forall>k \<in> set (dn_consumes (rest ! i)). jm_get (rs_produced s) k \<noteq> None \<or> (\<exists>m \<in> set (take i rest). k \<in> set (dn_produces m))"
  shows "\<exists>t. snd (executeNodes H (journalConfig runners newId) request rest s J)
     = Inr (run_completed (dq_operation_id request) (rs_executed s @ map dn_node_id rest) (rs_replayed s), t)"
  using assms(3,4)
proof (induction rest arbitrary: s J)
  case (Cons node rest)
  have "\<forall>k \<in> set (dn_consumes node). jm_get (rs_produced s) k \<noteq> None" using Cons.prems(2) by (auto dest: spec [of _ 0])
  then obtain t es where t: "nodeStep H runners newId request node s = step_commit t es None" "rs_executed t = rs_executed s @ [dn_node_id node]"
    "rs_replayed t = rs_replayed s" "\<forall>k. jm_get (rs_produced s) k \<noteq> None \<or> k \<in> set (dn_produces node) \<longrightarrow> jm_get (rs_produced t) k \<noteq> None"
    using conforming_step [OF assms(1,2), of node s newId request] Cons.prems(1) by auto
  have "jm_get (rs_produced t) k \<noteq> None \<or> (\<exists>m \<in> set (take i rest). k \<in> set (dn_produces m))"
    if "i < length rest" "k \<in> set (dn_consumes (rest ! i))" for i k
    using Cons.prems(2) [rule_format, of "Suc i" k] that t(4) by auto
  then obtain u where "snd (executeNodes H (journalConfig runners newId) request rest t (J @ es))
      = Inr (run_completed (dq_operation_id request) (rs_executed t @ map dn_node_id rest) (rs_replayed t), u)"
    using Cons.IH [of t "J @ es"] Cons.prems(1) by auto
  then show ?case by (simp add: exec_Cons t(1-3))
qed simp

lemma run_conforming:
  assumes "nfcAscii H" "conforming runners (dq_nodes request)" "validateOperationDag (dq_nodes request) = Inr ()" "inputsUpstream (dq_nodes request)"
  shows "\<exists>t. snd (runDag H (journalConfig runners newId) request [])
     = Inr (run_completed (dq_operation_id request) (map dn_node_id (topologicalOrder (dq_nodes request))) [], t)"
proof -
  let ?topo = "topologicalOrder (dq_nodes request)"
  have sets: "set ?topo = set (dq_nodes request)" using topologicalOrder_spec(1) [OF assms(3)] by (metis set_mset_mset)
  have up: "\<exists>m \<in> set (take i ?topo). k \<in> set (dn_produces m)" if i: "i < length ?topo" "k \<in> set (dn_consumes (?topo ! i))" for i k
  proof -
    have "?topo ! i \<in> set (dq_nodes request)" using sets nth_mem [OF i(1)] by simp
    then obtain m where m: "m \<in> set (dq_nodes request)" "k \<in> set (dn_produces m)" "(dn_node_id m, dn_node_id (?topo ! i)) \<in> (dagEdges (dq_nodes request))\<^sup>+"
      using assms(4) i(2) unfolding inputsUpstream_def by blast
    then show ?thesis using ancestors_earlier [OF assms(3) m(3) m(1) i(1)] by blast
  qed
  have start: "replayNodes H [] ?topo startState = Inr (?topo, startState)"
    by (cases ?topo) (auto simp: entryMatches_def split: option.split)
  have "\<exists>t. snd (executeNodes H (journalConfig runners newId) request ?topo startState [])
      = Inr (run_completed (dq_operation_id request) (rs_executed startState @ map dn_node_id ?topo) (rs_replayed startState), t)"
    by (rule conforming_completes [OF assms(1,2)]) (use sets up in auto)
  then show ?thesis by (simp add: runDag_def assms(3) journalConfig_def journalStore_def start) (simp add: startState_def)
qed

section \<open>The built DAG\<close>

fun chained :: "operation_dag_node list \<Rightarrow> bool" where
  "chained (m # n # nodes) \<longleftrightarrow> dn_node_id m \<in> set (dn_depends_on n) \<and> chained (n # nodes)"
| "chained _ \<longleftrightarrow> True"

fun fed :: "string set \<Rightarrow> operation_dag_node list \<Rightarrow> bool" where
  "fed available [] \<longleftrightarrow> True"
| "fed available (n # nodes) \<longleftrightarrow> set (dn_consumes n) \<subseteq> available \<and> fed (available \<union> set (dn_produces n)) nodes"

lemma chained_path:
  "chained (m # nodes) \<Longrightarrow> set (m # nodes) \<subseteq> set all \<Longrightarrow> n \<in> set nodes \<Longrightarrow> (dn_node_id m, dn_node_id n) \<in> (dagEdges all)\<^sup>+"
proof (induction nodes arbitrary: m)
  case (Cons x nodes)
  have e: "(dn_node_id m, dn_node_id x) \<in> dagEdges all" using Cons.prems by (auto simp: dagEdges_def)
  show ?case
  proof (cases "n = x")
    case False
    then have "(dn_node_id x, dn_node_id n) \<in> (dagEdges all)\<^sup>+" using Cons by auto
    then show ?thesis using e by (rule trancl_into_trancl2 [rotated])
  qed (use e in auto)
qed simp

lemma fed_upstream:
  assumes "chained nodes" "set nodes \<subseteq> set all" "fed available nodes" "n \<in> set nodes" "k \<in> set (dn_consumes n)"
  shows "k \<in> available \<or> (\<exists>m \<in> set all. k \<in> set (dn_produces m) \<and> (dn_node_id m, dn_node_id n) \<in> (dagEdges all)\<^sup>+)"
  using assms
proof (induction nodes arbitrary: available)
  case (Cons x nodes)
  show ?case
  proof (cases "n \<in> set nodes")
    case True
    have "chained nodes" using Cons.prems(1) by (cases nodes) auto
    then have "k \<in> available \<union> set (dn_produces x) \<or> (\<exists>m \<in> set all. k \<in> set (dn_produces m) \<and> (dn_node_id m, dn_node_id n) \<in> (dagEdges all)\<^sup>+)"
      using Cons.IH [of "available \<union> set (dn_produces x)"] Cons.prems True by simp
    then show ?thesis using chained_path [OF Cons.prems(1,2) True] Cons.prems(2) by auto
  qed (use Cons.prems in auto)
qed simp

lemma dagNodes_upstream:
  assumes "validateOperationDag (dagNodes active) = Inr ()"
  shows "inputsUpstream (dagNodes active)"
proof -
  have c: "design_governance \<in> set active \<longrightarrow> impact_analysis \<in> set active" "strict_tdd \<in> set active \<longrightarrow> design_governance \<in> set active"
    using assms unfolding dagNodes_valid by (auto split: if_splits)
  have "chained (dagNodes active) \<and> fed {} (dagNodes active)"
    using c
    by (cases "impact_analysis \<in> set active"; cases "design_governance \<in> set active"; cases "strict_tdd \<in> set active";
        cases "independent_evaluation \<in> set active"; cases "advanced_audit \<in> set active"; cases "parallel_task_execution \<in> set active")
      (simp_all add: dagNodes_def whenActive_def planNode_def executeNode_def snapshotNode_def kernelNode_def dagModule_def)
  then show ?thesis unfolding inputsUpstream_def using fed_upstream [of "dagNodes active" "dagNodes active" "{}"] by blast
qed

section \<open>Claims\<close>

text \<open>
  C33. A run over a built and validated DAG, with runners that commit exactly the bindings their nodes declare and
  no checkpoint yet, completes: it executes every node exactly once, each after the nodes it depends on.
\<close>
theorem built_dag_run_completes:
  assumes "nfcAscii H" "buildOperationDag active protocolVersion = Inr (dq_nodes request)" "validateOperationDag (dq_nodes request) = Inr ()"
    and "conforming runners (dq_nodes request)" "memoryLoad store (dq_operation_id request) = []"
  shows "\<exists>order state. snd (runDag H (memoryConfig runners newId) request store)
       = Inr (run_completed (dq_operation_id request) (map dn_node_id order) [], state)
     \<and> mset order = mset (dq_nodes request)
     \<and> (\<forall>i < length order. set (dn_depends_on (order ! i)) \<subseteq> dn_node_id ` set (take i order))"
proof -
  have "inputsUpstream (dq_nodes request)" using dagNodes_upstream build_nodes [OF assms(2)] assms(3) by simp
  then obtain t where "snd (runDag H (journalConfig runners newId) request [])
      = Inr (run_completed (dq_operation_id request) (map dn_node_id (topologicalOrder (dq_nodes request))) [], t)"
    using run_conforming [OF assms(1,4,3)] by blast
  moreover have "snd (runDag H (memoryConfig runners newId) request store) = snd (runDag H (journalConfig runners newId) request [])"
    using arg_cong [OF memory_run [of request H runners newId store], of snd] assms(5) by simp
  ultimately show ?thesis using topologicalOrder_spec [OF assms(3)] by auto
qed

lemma attempts_prefix:
  assumes "steady later" "\<forall>node \<in> set (dq_nodes request). dn_checkpoint node" "\<forall>earlier \<in> set attempts. repeats earlier later"
    and "runDag H (journalConfig later newId) request [] = (E, out)"
    and "prefix (memoryLoad journals (dq_operation_id request)) E"
  shows "prefix (memoryLoad (attempted H InMemoryDagCheckpointStore newId request attempts journals) (dq_operation_id request)) E"
  using assms(3,5)
proof (induction attempts arbitrary: journals)
  case (Cons earlier attempts)
  let ?next = "fst (runDag H (memoryConfig earlier newId) request journals)"
  have "memoryLoad ?next (dq_operation_id request)
      = fst (runDag H (journalConfig earlier newId) request (memoryLoad journals (dq_operation_id request)))"
    using arg_cong [OF memory_run [of request H earlier newId journals], of fst] by simp
  then have "prefix (memoryLoad ?next (dq_operation_id request)) E"
    using run_from_prefix(1) [OF assms(1,2) assms(4) Cons.prems(2)] Cons.prems(1) by simp
  then show ?case using Cons.IH [of ?next] Cons.prems(1) by (simp add: attempted_def memoryConfig_def)
qed (simp add: attempted_def)

text \<open>
  C13. Crash and resume: after any number of attempts that were cut short at any node, by an exception, a pause, a
  pending approval, a block or a rejected output, a run with the final runners ends with the journal of a run that
  was never interrupted, and with its outcome (the nodes it replayed followed by the nodes it executed are the
  nodes that run executed). The runners of a node must give the same outputs on every attempt that commits it.
\<close>
theorem dag_resume_equivalent:
  assumes "steady later" "\<forall>node \<in> set (dq_nodes request). dn_checkpoint node" "\<forall>earlier \<in> set attempts. repeats earlier later"
  shows "let (interrupted, out) = runDag H (memoryConfig later newId) request (attempted H InMemoryDagCheckpointStore newId request attempts []);
        (uninterrupted, expected) = runDag H (memoryConfig later newId) request []
      in memoryLoad interrupted (dq_operation_id request) = memoryLoad uninterrupted (dq_operation_id request) \<and> normRun out = normRun expected"
proof -
  let ?op = "dq_operation_id request" and ?store = "attempted H InMemoryDagCheckpointStore newId request attempts []"
  obtain E out where fresh: "runDag H (journalConfig later newId) request [] = (E, out)" by (cases "runDag H (journalConfig later newId) request []")
  have empty: "memoryLoad [] ?op = []" by (simp add: memoryLoad_def orList_def)
  have "prefix (memoryLoad ?store ?op) E" by (rule attempts_prefix [OF assms fresh]) (simp add: empty)
  then have "fst (runDag H (journalConfig later newId) request (memoryLoad ?store ?op)) = E"
    "normRun (snd (runDag H (journalConfig later newId) request (memoryLoad ?store ?op))) = normRun out"
    using run_from_prefix(2,3) [OF assms(1,2) fresh] by blast+
  moreover note arg_cong [OF memory_run [of request H later newId ?store], of fst] arg_cong [OF memory_run [of request H later newId ?store], of snd]
    arg_cong [OF memory_run [of request H later newId "[]"], of fst] arg_cong [OF memory_run [of request H later newId "[]"], of snd]
  ultimately show ?thesis by (simp add: empty fresh case_prod_beta)
qed

section \<open>Examples\<close>

definition exampleCommit :: dag_node_runner where
  "exampleCommit ctx = node_committed (Some (map (\<lambda>kind. (kind, dn_node_id (dc_node ctx))) (dn_produces (dc_node ctx))))"

definition exampleRunners :: dag_runner_registry where
  "exampleRunners = \<lparr>rr_kernel = (\<lambda>_. Some exampleCommit), rr_modules = (\<lambda>_. Some exampleCommit)\<rparr>"

text \<open>The same runners, with a verification that crashes.\<close>

definition crashingRunners :: dag_runner_registry where
  "crashingRunners = exampleRunners\<lparr>rr_kernel := \<lambda>nodeId. Some (if nodeId = ''verify'' then (\<lambda>_. node_threw ''killed'') else exampleCommit)\<rparr>"

definition exampleRequest :: dag_run_request where
  "exampleRequest = \<lparr>dq_operation_id = ''op'', dq_plan_digest = ''plan'', dq_nodes = dagNodes [impact_analysis]\<rparr>"

lemma example_resolve: "resolveRunner exampleRunners node = Inr f \<Longrightarrow> f = exampleCommit"
  by (auto simp: resolveRunner_def exampleRunners_def split: dag_node_kind.splits option.splits)

theorem built_dag_run_completes_witness:
  "\<exists>order state. snd (runDag exampleHost (memoryConfig exampleRunners None) exampleRequest [])
       = Inr (run_completed ''op'' (map dn_node_id order) [], state) \<and> mset order = mset (dagNodes [impact_analysis])
     \<and> (\<forall>i < length order. set (dn_depends_on (order ! i)) \<subseteq> dn_node_id ` set (take i order))"
proof -
  have "capabilityModuleDefinitionsForProtocol ''1.1.0'' = Inr CAPABILITY_MODULE_DEFINITIONS" by code_simp
  then have built: "buildOperationDag [impact_analysis] ''1.1.0'' = Inr (dq_nodes exampleRequest)"
    by (simp add: exampleRequest_def build_total)
  have "conforming exampleRunners (dagNodes [impact_analysis])" unfolding conforming_def dagNodes_all
    by (simp add: exampleRunners_def resolveRunner_def kernelNode_def dagModule_def planNode_def executeNode_def snapshotNode_def
        exampleCommit_def orList_def image_image whenActive_def)
  then show ?thesis
    using built_dag_run_completes [OF _ built, of exampleHost exampleRunners "[]" None]
    by (simp add: exampleRequest_def nfcAscii_def dagNodes_valid memoryLoad_def orList_def)
qed

theorem dag_resume_equivalent_witness:
  "let (interrupted, out) = runDag exampleHost (memoryConfig exampleRunners None) exampleRequest
          (attempted exampleHost InMemoryDagCheckpointStore None exampleRequest [crashingRunners, crashingRunners] []);
        (uninterrupted, expected) = runDag exampleHost (memoryConfig exampleRunners None) exampleRequest []
      in memoryLoad interrupted ''op'' = memoryLoad uninterrupted ''op'' \<and> normRun out = normRun expected"
proof -
  have steady: "steady exampleRunners" by (auto simp: steady_def exampleCommit_def dest!: example_resolve)
  have "repeats crashingRunners exampleRunners"
    by (auto simp: repeats_def crashingRunners_def exampleRunners_def resolveRunner_def stopBefore_def exampleCommit_def resultBindings_def
        split: dag_node_kind.splits option.splits if_splits)
  moreover have "\<forall>node \<in> set (dq_nodes exampleRequest). dn_checkpoint node"
    unfolding exampleRequest_def dag_run_request.simps dagNodes_all
    by (simp add: kernelNode_def dagModule_def planNode_def executeNode_def snapshotNode_def)
  ultimately show ?thesis
    using dag_resume_equivalent [OF steady, of exampleRequest "[crashingRunners, crashingRunners]" exampleHost None]
    by (simp add: exampleRequest_def)
qed

end
