(* ===== verification/Policy_Ceilings.thy ===== *)
theory Policy_Ceilings
  imports Policy_Strict
begin

text \<open>
  What the scheduler reads of the merged policy (\<open>resolveSchedulerCeilings\<close>, \<^verbatim>\<open>runtime/src/policy/evaluator.ts\<close>): the
  resolved ceilings are positive and below the ceiling of every layer.
\<close>

definition declaresCeiling :: "policy_layer_input list \<Rightarrow> string \<Rightarrow> rat \<Rightarrow> bool" where
  "declaresCeiling layers path n \<longleftrightarrow>
     list_ex (\<lambda>layer. list_ex (\<lambda>field. pf_path field = path \<and> pf_merge_operator field = ''hard_ceiling''
       \<and> pf_value field = JNum n) (pl_fields layer)) layers"

lemma ceilingValue_declared:
  assumes "mergePolicyLayers H layers = Inr m" "mp_conflicts m = []" "declaresCeiling layers path n"
  shows "\<exists>k. ceilingValue (mp_effective m) path = ceiling_ok k \<and> k \<le> n"
proof -
  obtain layer field where l: "layer \<in> set layers" "field \<in> set (pl_fields layer)" "pf_path field = path"
    "pf_merge_operator field = ''hard_ceiling''" "pf_value field = JNum n"
    using assms(3) by (auto simp: declaresCeiling_def list_ex_iff)
  obtain f where "fieldAt (mp_effective m) path = Some f" "stricterValue ''hard_ceiling'' path (ef_value f) (JNum n)"
    using effective_strict [OF assms(1,2) l(1,2)] l(3-5) by auto
  then show ?thesis by (auto simp: ceilingValue_def stricterValue_def)
qed

text \<open>The value one step of the scan records for its key.\<close>

definition scannedCeiling :: "effective_policy \<Rightarrow> string \<times> string \<Rightarrow> rat option" where
  "scannedCeiling effective paths =
     (case ceilingValue effective (fst paths) of
        ceiling_ok n \<Rightarrow> if 0 < n then Some n else None
      | ceiling_invalid _ \<Rightarrow> None
      | ceiling_missing \<Rightarrow> (case ceilingValue effective (snd paths) of ceiling_ok n \<Rightarrow> if 0 < n then Some n else None | _ \<Rightarrow> None))"

lemma iteration_key: "length ''budgets.iteration.'' = 18"
  by simp

lemma scanCeiling_parts:
  "cg_iteration (scanCeiling H effective sc paths) = (case scannedCeiling effective paths of
     None \<Rightarrow> cg_iteration sc | Some n \<Rightarrow> jm_set (drop 18 (fst paths)) n (cg_iteration sc))"
  "cg_max_concurrency (scanCeiling H effective sc paths) = cg_max_concurrency sc"
  "cg_violations (scanCeiling H effective sc paths) = [] \<longleftrightarrow> cg_violations sc = [] \<and>
     (case ceilingValue effective (fst paths) of ceiling_ok n \<Rightarrow> 0 < n | ceiling_invalid _ \<Rightarrow> False | ceiling_missing \<Rightarrow> True)"
proof -
  obtain path fallback where p: "paths = (path, fallback)" by (cases paths)
  show "cg_iteration (scanCeiling H effective sc paths) = (case scannedCeiling effective paths of
     None \<Rightarrow> cg_iteration sc | Some n \<Rightarrow> jm_set (drop 18 (fst paths)) n (cg_iteration sc))"
    unfolding p scanCeiling_def scannedCeiling_def Let_def iteration_key prod.case fst_conv snd_conv
    by (cases "ceilingValue effective path"; cases "ceilingValue effective fallback") simp_all
  show "cg_max_concurrency (scanCeiling H effective sc paths) = cg_max_concurrency sc"
    unfolding p scanCeiling_def Let_def prod.case
    by (cases "ceilingValue effective path"; cases "ceilingValue effective fallback") simp_all
  show "cg_violations (scanCeiling H effective sc paths) = [] \<longleftrightarrow> cg_violations sc = [] \<and>
     (case ceilingValue effective (fst paths) of ceiling_ok n \<Rightarrow> 0 < n | ceiling_invalid _ \<Rightarrow> False | ceiling_missing \<Rightarrow> True)"
    unfolding p scanCeiling_def Let_def prod.case fst_conv
    by (cases "ceilingValue effective path"; cases "ceilingValue effective fallback") auto
qed

lemma foldl_scanCeiling:
  "cg_iteration (foldl (scanCeiling H effective) sc ps) = foldl (\<lambda>iter paths. case scannedCeiling effective paths of None \<Rightarrow> iter
     | Some n \<Rightarrow> jm_set (drop 18 (fst paths)) n iter) (cg_iteration sc) ps"
  by (induction ps arbitrary: sc) (simp_all add: scanCeiling_parts)

lemma scanConcurrency_parts:
  "cg_iteration (scanConcurrency H effective) = []"
  "cg_violations (scanConcurrency H effective) = [] \<Longrightarrow>
     (case ceilingValue effective ''scheduler.max_concurrency'' of
        ceiling_ok n \<Rightarrow> 0 < n \<and> isInteger n \<and> cg_max_concurrency (scanConcurrency H effective) = n
      | ceiling_invalid _ \<Rightarrow> False
      | ceiling_missing \<Rightarrow> cg_max_concurrency (scanConcurrency H effective) = 2)"
  by (auto simp: scanConcurrency_def Let_def PROFILE_DEFAULT_MAX_CONCURRENCY_def split: ceiling_value.splits if_splits)

definition iterationPaths :: "string list" where
  "iterationPaths = [''budgets.iteration.max_steps'', ''budgets.iteration.max_tokens'', ''budgets.iteration.max_duration_ms'']"

lemma resolved_parts:
  assumes "resolveSchedulerCeilings H effective = ceilings_resolved c reasons"
  shows "case ceilingValue effective ''scheduler.max_concurrency'' of
        ceiling_ok n \<Rightarrow> 0 < n \<and> isInteger n \<and> sl_max_concurrency c = n
      | ceiling_invalid _ \<Rightarrow> False
      | ceiling_missing \<Rightarrow> sl_max_concurrency c = 2"
    "sl_iteration c = foldl (\<lambda>iter paths. case scannedCeiling effective paths of None \<Rightarrow> iter
       | Some n \<Rightarrow> jm_set (drop 18 (fst paths)) n iter) [] LOOP_CEILING_FALLBACKS"
    "\<forall>path \<in> set iterationPaths. case ceilingValue effective path of ceiling_ok n \<Rightarrow> 0 < n | ceiling_invalid _ \<Rightarrow> False | ceiling_missing \<Rightarrow> True"
proof -
  let ?sc = "foldl (scanCeiling H effective) (scanConcurrency H effective) LOOP_CEILING_FALLBACKS"
  have v: "cg_violations ?sc = []" and c: "c = \<lparr>sl_max_concurrency = cg_max_concurrency ?sc, sl_iteration = cg_iteration ?sc\<rparr>"
    using assms by (simp_all add: resolveSchedulerCeilings_def Let_def split: if_splits)
  from v have v0: "cg_violations (scanConcurrency H effective) = []"
    and "\<forall>path \<in> set iterationPaths. case ceilingValue effective path of ceiling_ok n \<Rightarrow> 0 < n | ceiling_invalid _ \<Rightarrow> False | ceiling_missing \<Rightarrow> True"
    by (simp_all add: LOOP_CEILING_FALLBACKS_def iterationPaths_def scanCeiling_parts)
  then show "\<forall>path \<in> set iterationPaths. case ceilingValue effective path of ceiling_ok n \<Rightarrow> 0 < n | ceiling_invalid _ \<Rightarrow> False | ceiling_missing \<Rightarrow> True"
    by blast
  show "case ceilingValue effective ''scheduler.max_concurrency'' of
        ceiling_ok n \<Rightarrow> 0 < n \<and> isInteger n \<and> sl_max_concurrency c = n
      | ceiling_invalid _ \<Rightarrow> False
      | ceiling_missing \<Rightarrow> sl_max_concurrency c = 2"
  proof -
    have "sl_max_concurrency c = cg_max_concurrency (scanConcurrency H effective)"
      by (simp add: c LOOP_CEILING_FALLBACKS_def scanCeiling_parts)
    then show ?thesis using scanConcurrency_parts(2) [OF v0] by (simp split: ceiling_value.splits)
  qed
  show "sl_iteration c = foldl (\<lambda>iter paths. case scannedCeiling effective paths of None \<Rightarrow> iter
       | Some n \<Rightarrow> jm_set (drop 18 (fst paths)) n iter) [] LOOP_CEILING_FALLBACKS"
    by (simp add: c foldl_scanCeiling scanConcurrency_parts)
qed

lemma scannedCeiling_positive: "scannedCeiling effective paths = Some n \<Longrightarrow> 0 < n"
  by (auto simp: scannedCeiling_def split: ceiling_value.splits if_splits)

text \<open>
  The ceilings the scheduler works with are bounded by every policy layer: when the merged policy resolves,
  the concurrency is a positive integer, at most each declared ceiling and 2 when none is declared; a
  declared iteration ceiling is present, positive and at most each declared value; every recorded ceiling is
  positive.
\<close>
theorem resolveSchedulerCeilings_bounds:
  assumes m: "mergePolicyLayers H layers = Inr m" "mp_conflicts m = []"
    and c: "resolveSchedulerCeilings H (mp_effective m) = ceilings_resolved c reasons"
  shows "0 < sl_max_concurrency c \<and> isInteger (sl_max_concurrency c)
    \<and> (\<forall>n. declaresCeiling layers ''scheduler.max_concurrency'' n \<longrightarrow> sl_max_concurrency c \<le> n)
    \<and> (\<forall>key n. jm_get (sl_iteration c) key = Some n \<longrightarrow> 0 < n)
    \<and> (\<forall>path \<in> set iterationPaths. \<forall>n. declaresCeiling layers path n \<longrightarrow>
         (\<exists>k. jm_get (sl_iteration c) (drop 18 path) = Some k \<and> 0 < k \<and> k \<le> n))"
proof -
  note parts = resolved_parts [OF c] and declared = ceilingValue_declared [OF m]
  have conc: "0 < sl_max_concurrency c \<and> isInteger (sl_max_concurrency c)"
    using parts(1) by (auto split: ceiling_value.splits)
  have most: "sl_max_concurrency c \<le> n" if "declaresCeiling layers ''scheduler.max_concurrency'' n" for n
    using parts(1) declared [OF that] by auto
  have iter: "0 < n" if "jm_get (sl_iteration c) key = Some n" for key n
    using that unfolding parts(2)
    by (auto simp: LOOP_CEILING_FALLBACKS_def update_conv' split: option.splits if_splits dest!: scannedCeiling_positive
      scannedCeiling_positive [OF sym])
  have "\<exists>k. jm_get (sl_iteration c) (drop 18 path) = Some k \<and> 0 < k \<and> k \<le> n"
    if p: "path \<in> set iterationPaths" and d: "declaresCeiling layers path n" for path n
  proof -
    obtain k where k: "ceilingValue (mp_effective m) path = ceiling_ok k" "k \<le> n" using declared [OF d] by blast
    then have pos: "0 < k" using parts(3) p by fastforce
    then have "scannedCeiling (mp_effective m) (path, f) = Some k" for f using k by (simp add: scannedCeiling_def)
    then have "jm_get (sl_iteration c) (drop 18 path) = Some k" using p unfolding parts(2)
      by (auto simp: LOOP_CEILING_FALLBACKS_def iterationPaths_def update_conv' split: option.splits)
    then show ?thesis using pos k(2) by blast
  qed
  then show ?thesis using conc most iter by blast
qed

end
