(* ===== verification/Policy_Evaluator.thy ===== *)
theory Policy_Evaluator
  imports Policy_Grant Plan_Validator Lease_Fencing
begin

text \<open>
  The policy decision on one action (\<open>decideAction\<close> of \<^verbatim>\<open>runtime/src/policy/evaluator.ts\<close>, \<open>buildDecision\<close> of
  \<^verbatim>\<open>decision.ts\<close>) and the file-system boundary of \<^verbatim>\<open>path-boundary.ts\<close>. The theorems: what an allowed action
  satisfies with respect to every layer of the policy and to its grant, that an approval never lifts a
  denial, and that a grant issued under the policy implies its allow sets.
\<close>

section \<open>Decision records\<close>

record traced_decision = policy_decision +
  td_layers :: "policy_layer_ref list"
  td_field_traces :: "effective_policy_field list"

fun outcomeText :: "decision_outcome \<Rightarrow> string" where
  "outcomeText allow = ''allow''" | "outcomeText deny = ''deny''"
| "outcomeText requires_approval = ''requires_approval''" | "outcomeText block = ''block''"

definition fieldTraceJson :: "effective_policy_field \<Rightarrow> json" where
  "fieldTraceJson f = JObj [(''path'', JStr (ef_path f)), (''merge_operator'', JStr (ef_merge_operator f)),
     (''value'', ef_value f), (''reason'', JStr (ef_reason f)), (''sources'', JArr (map layerRefJson (ef_sources f)))]"

definition buildDecision :: "host \<Rightarrow> decision_outcome \<Rightarrow> string list \<Rightarrow> string \<Rightarrow> effective_policy \<Rightarrow> string option \<Rightarrow> traced_decision result" where
  "buildDecision H outcome reasons digest effective approval =
     rbind (contentDigest H (JObj [(''outcome'', JStr (outcomeText outcome)), (''reasons'', stringsJson reasons),
        (''action_digest'', JStr digest), (''effective_policy_digest'', JStr (ep_digest effective)),
        (''layers'', JArr (map layerRefJson (ep_layers effective))),
        (''field_traces'', JArr (map fieldTraceJson (ep_fields effective))),
        (''approval_digest'', orNull JStr approval)])) (\<lambda>d.
     Inr \<lparr>pd_outcome = outcome, pd_reasons = reasons, pd_action_digest = digest,
       pd_effective_policy_digest = ep_digest effective, pd_approval_digest = approval, pd_digest = d,
       td_layers = ep_layers effective, td_field_traces = ep_fields effective\<rparr>)"

section \<open>Reasons for a denial\<close>

definition isEscalation :: "policy_action \<Rightarrow> bool" where
  "isEscalation action \<longleftrightarrow> List.member ESCALATION_ACTION_KINDS (pa_kind action)"

text \<open>\<^verbatim>\<open>TRAJECTORY_STRENGTH.indexOf\<close>, minus one when absent.\<close>

definition trajectoryRank :: "string \<Rightarrow> int" where
  "trajectoryRank visibility =
     (if List.member TRAJECTORY_STRENGTH visibility then int (orderIndex TRAJECTORY_STRENGTH visibility) else -1)"

definition riskThreshold :: "string \<Rightarrow> policy_risk option" where
  "riskThreshold entry =
     (if startsWith entry ''risk:'' then find (\<lambda>risk. riskText risk = drop 5 entry) POLICY_RISKS else None)"

fun firstReason :: "string option list \<Rightarrow> string option" where
  "firstReason [] = None"
| "firstReason (r # rs) = (case r of None \<Rightarrow> firstReason rs | Some reason \<Rightarrow> Some reason)"

definition reasonWhen :: "bool \<Rightarrow> string \<Rightarrow> string option" where
  "reasonWhen c reason = (if c then Some reason else None)"

definition isUnprivileged :: "policy_action \<Rightarrow> bool" where
  "isUnprivileged action \<longleftrightarrow> pa_actor_kind action = actor_agent \<or> pa_actor_kind action = actor_adapter"

definition isPathAction :: "policy_action \<Rightarrow> bool" where
  "isPathAction action \<longleftrightarrow> pa_kind action = read_path \<or> pa_kind action = write_path"

definition escalationReasons :: "policy_action \<Rightarrow> string option list" where
  "escalationReasons action =
     (let kind = actionKindText (pa_kind action) in
      [reasonWhen (pa_origin action = from_prompt \<and> isEscalation action)
         (''denied: untrusted context (tool output, retrieved documents, repository content or provider output) can never request '' @ kind @
          ''; prompts cannot modify policy, register tools, grant paths, approve or accept evidence''),
       reasonWhen (pa_origin action = from_prompt \<and> pa_approval_digest action \<noteq> None
           \<and> List.member SCHEDULER_POLICY_ACTION_KINDS (pa_kind action))
         (''denied: prompt-origin input can never carry approval authority for '' @ kind @
          ''; only a control-plane approval bound to the exact action satisfies requires-approval''),
       reasonWhen (isEscalation action \<and> isUnprivileged action)
         (''denied: '' @ actorKindText (pa_actor_kind action) @ '' identity never authorizes '' @ kind @
          ''; only the harness control plane or a human may decide escalation actions'')])"

definition denySetReasons :: "host \<Rightarrow> effective_policy \<Rightarrow> policy_action \<Rightarrow> string option list" where
  "denySetReasons H effective action =
     (case pa_resource action of
        None \<Rightarrow> []
      | Some resource \<Rightarrow>
          [reasonWhen (isPathAction action \<and> tryNormalizeRepoRelativePath H resource = None)
             (''denied: path '' @ quoted resource @
              '' is not a legal repository-relative path (traversal, absolute or reserved segments are never authorized)''),
           reasonWhen (isPathAction action \<and> isPathWithinScopes H (orList (policyStrings effective ''paths.deny'')) resource)
             (''denied: path '' @ quoted resource @ '' matches the explicit policy deny set''),
           reasonWhen (List.member (orList (policyStrings effective ''resources.deny'')) resource)
             (''denied: resource '' @ quoted resource @ '' is in the explicit policy deny set''),
           reasonWhen (pa_kind action = invoke_tool \<and> List.member (orList (policyStrings effective ''capabilities.deny'')) resource)
             (''denied: capability '' @ quoted resource @ '' is in the explicit policy deny set'')])"

definition grantReasons :: "host \<Rightarrow> effective_policy \<Rightarrow> policy_action \<Rightarrow> capability_grant option \<Rightarrow> string option list" where
  "grantReasons H effective action grant =
     (case grant of
        None \<Rightarrow> []
      | Some g \<Rightarrow>
          if isEscalation action then []
          else [map_option (\<lambda>r. ''denied: '' @ r) (grantDenialReason H g action),
            reasonWhen (cg_effective_policy_digest g \<noteq> ep_digest effective)
              (''denied: the grant binds a different effective policy digest; '' @
               ''policy changed after the grant was issued, so the grant is stale'')])"

definition outsideAllow :: "(string list \<Rightarrow> string \<Rightarrow> bool) \<Rightarrow> string list option \<Rightarrow> string option \<Rightarrow> bool" where
  "outsideAllow covers allowed x \<longleftrightarrow>
     (case (allowed, x) of (Some a, Some v) \<Rightarrow> \<not> covers a v | _ \<Rightarrow> False)"

definition allowSetReasons :: "host \<Rightarrow> effective_policy \<Rightarrow> policy_action \<Rightarrow> string option list" where
  "allowSetReasons H effective action =
     (let resource = pa_resource action; allowed = policyStrings effective in
      [reasonWhen (pa_kind action = read_path \<and> outsideAllow (isPathWithinScopes H) (allowed ''paths.read.allow'') resource)
         (''denied: read path '' @ resourceText resource @ '' is outside the effective policy allow set''),
       reasonWhen (pa_kind action = write_path \<and> outsideAllow (isPathWithinScopes H) (allowed ''paths.write.allow'') resource)
         (''denied: write path '' @ resourceText resource @ '' is outside the effective policy allow set''),
       reasonWhen (pa_kind action = invoke_tool \<and> outsideAllow List.member (allowed ''resources.allow'') resource)
         (''denied: resource '' @ resourceText resource @ '' is outside the effective policy allow set''),
       reasonWhen (outsideAllow List.member (allowed ''phases.allow'') (Some (pa_phase action)))
         (''denied: phase '' @ quoted (pa_phase action) @ '' is outside the effective policy allow set'')])"

definition missingTrajectory :: "adapter_control_profile option \<Rightarrow> string" where
  "missingTrajectory profile =
     (case profile of
        None \<Rightarrow> ''declares no control profile''
      | Some p \<Rightarrow> ''only provides '' @ trajectoryText (cp_trajectory_visibility p))"

definition weakTrajectory :: "adapter_control_profile option \<Rightarrow> string \<Rightarrow> bool" where
  "weakTrajectory profile required \<longleftrightarrow>
     (case profile of
        None \<Rightarrow> True
      | Some p \<Rightarrow> trajectoryRank (trajectoryText (cp_trajectory_visibility p)) < trajectoryRank required)"

definition controlReasons :: "effective_policy \<Rightarrow> policy_action \<Rightarrow> string option list" where
  "controlReasons effective action =
     (if isUnprivileged action
      then [(case policyString effective ''controls.trajectory'' of
               None \<Rightarrow> None
             | Some required \<Rightarrow> reasonWhen (weakTrajectory (pa_control_profile action) required)
                 (''denied: policy requires '' @ required @ '' trajectory evidence but the adapter '' @ missingTrajectory (pa_control_profile action))),
            reasonWhen (policyString effective ''controls.side_effect_interception'' = Some ''required''
                \<and> \<not> (case pa_control_profile action of None \<Rightarrow> False | Some p \<Rightarrow> cp_side_effect_interception p))
              ''denied: policy requires side-effect interception but the adapter control profile cannot provide it'']
      else [])"

definition denialReason :: "host \<Rightarrow> effective_policy \<Rightarrow> policy_action \<Rightarrow> capability_grant option \<Rightarrow> string option" where
  "denialReason H effective action grant =
     firstReason (escalationReasons action @ denySetReasons H effective action @ grantReasons H effective action grant @
       allowSetReasons H effective action @ controlReasons effective action)"

section \<open>The decision\<close>

definition requiresApproval :: "effective_policy \<Rightarrow> policy_action \<Rightarrow> bool" where
  "requiresApproval effective action \<longleftrightarrow>
     (let required = orList (policyStrings effective ''approvals.required'') in
      List.member required (actionKindText (pa_kind action))
      \<or> list_ex (\<lambda>entry. case riskThreshold entry of None \<Rightarrow> False
           | Some threshold \<Rightarrow> policyRiskRank threshold \<le> policyRiskRank (pa_risk action)) required)"

definition usableApproval :: "policy_action \<Rightarrow> capability_grant option \<Rightarrow> string option" where
  "usableApproval action grant =
     (case pa_approval_digest action of
        None \<Rightarrow> None
      | Some approval \<Rightarrow>
          if (case grant of None \<Rightarrow> True | Some g \<Rightarrow> List.member (cg_approval_digests g) approval) then Some approval else None)"

definition decideMerged :: "host \<Rightarrow> merged_policy \<Rightarrow> policy_action \<Rightarrow> capability_grant option
    \<Rightarrow> decision_outcome \<times> string list \<times> string option" where
  "decideMerged H merged action grant =
     (let effective = mp_effective merged;
          what = actionKindText (pa_kind action) @ '' at '' @ riskText (pa_risk action) @ '' risk''
      in
      if mp_conflicts merged \<noteq> []
      then (block, mp_conflicts merged @ [''blocked: policy conflicts are never resolved by silent source-priority override''], None)
      else case denialReason H effective action grant of
        Some reason \<Rightarrow> (deny, [reason], None)
      | None \<Rightarrow>
          if requiresApproval effective action
          then (case usableApproval action grant of
              Some approval \<Rightarrow> (allow, [''allowed: approval '' @ approval @ '' satisfies the requires-approval rule for '' @ what], Some approval)
            | None \<Rightarrow> (requires_approval, [''requires-approval: '' @ what @ '' requires an explicit approval under the effective policy''], None))
          else (allow, [''allowed: effective policy permits '' @ what], None))"

definition decideAction :: "host \<Rightarrow> policy_layer_input list \<Rightarrow> policy_action \<Rightarrow> capability_grant option \<Rightarrow> traced_decision result" where
  "decideAction H layers action grant =
     rbind (mergePolicyLayers H layers) (\<lambda>merged.
     case decideMerged H merged action grant of (outcome, reasons, approval) \<Rightarrow>
     rbind (actionDigest H action) (\<lambda>digest.
     buildDecision H outcome reasons digest (mp_effective merged) approval))"

section \<open>The repository boundary\<close>

definition assertWithinRepositoryBoundary :: "host \<Rightarrow> file_system \<Rightarrow> string \<Rightarrow> string \<Rightarrow> string result" where
  "assertWithinRepositoryBoundary H fs repositoryRoot candidatePath =
     rbind (normalizeRepoRelativePath H candidatePath) (\<lambda>relative.
     case fs_realpath fs repositoryRoot of
       None \<Rightarrow> Inl (PolicyError boundary_violation)
     | Some rootReal \<Rightarrow>
         let candidateAbsolute = resolvePath rootReal relative in
         (case existingAncestor fs candidateAbsolute of
            None \<Rightarrow> Inl (PolicyError boundary_violation)
          | Some probe \<Rightarrow>
              (case fs_realpath fs probe of
                 None \<Rightarrow> Inl SystemError
               | Some probeReal \<Rightarrow>
                   if probeReal \<noteq> rootReal \<and> \<not> startsWith probeReal (rootReal @ ''/'')
                   then Inl (PolicyError boundary_violation)
                   else Inr candidateAbsolute)))"

section \<open>Reading the merged layers\<close>

text \<open>Some layer declares these strings for the path, under the operator.\<close>

definition declares :: "policy_layer_input list \<Rightarrow> string \<Rightarrow> string \<Rightarrow> string list \<Rightarrow> bool" where
  "declares layers path operator ss \<longleftrightarrow>
     list_ex (\<lambda>layer. list_ex (\<lambda>field. pf_path field = path \<and> pf_merge_operator field = operator
       \<and> pf_value field = stringsJson ss) (pl_fields layer)) layers"

lemma jsonStrings_stringsJson [simp]: "jsonStrings (stringsJson ss) = Some ss"
proof -
  have "mapR (\<lambda>item. case item of JStr s \<Rightarrow> Inr s | _ \<Rightarrow> Inl ()) (map JStr ss) = Inr ss" by (induction ss) auto
  then show ?thesis by (simp add: jsonStrings_def stringsJson_def)
qed

lemma declares_union:
  assumes "mergePolicyLayers H layers = Inr m" "mp_conflicts m = []" "declares layers path operator ss"
    "operator = ''deny_union'' \<or> operator = ''approval_union''"
  shows "set ss \<subseteq> set (orList (policyStrings (mp_effective m) path))"
proof -
  obtain layer field where l: "layer \<in> set layers" "field \<in> set (pl_fields layer)" "pf_path field = path"
    "pf_merge_operator field = operator" "pf_value field = stringsJson ss"
    using assms(3) by (auto simp: declares_def list_ex_iff)
  obtain f where "fieldAt (mp_effective m) path = Some f" "stricterValue operator path (ef_value f) (stringsJson ss)"
    using effective_strict [OF assms(1,2) l(1,2)] l(3-5) by auto
  then obtain a where "fieldAt (mp_effective m) path = Some f" "ef_value f = stringsJson a" "set ss \<subseteq> set a"
    using assms(4) by (auto simp: stricterValue_def dest!: injD [OF inj_stringsJson])
  then show ?thesis by (simp add: policyStrings_def orList_def)
qed

lemma declares_intersection:
  assumes "mergePolicyLayers H layers = Inr m" "mp_conflicts m = []" "declares layers path ''allow_intersection'' ss"
  shows "\<exists>a. policyStrings (mp_effective m) path = Some a \<and> set a \<subseteq> set ss"
proof -
  obtain layer field where l: "layer \<in> set layers" "field \<in> set (pl_fields layer)" "pf_path field = path"
    "pf_merge_operator field = ''allow_intersection''" "pf_value field = stringsJson ss"
    using assms(3) by (auto simp: declares_def list_ex_iff)
  obtain f where "fieldAt (mp_effective m) path = Some f" "stricterValue ''allow_intersection'' path (ef_value f) (stringsJson ss)"
    using effective_strict [OF assms(1,2) l(1,2)] l(3-5) by auto
  then show ?thesis by (auto simp: policyStrings_def stricterValue_def dest!: injD [OF inj_stringsJson])
qed

section \<open>What an allowed action satisfies\<close>

lemma firstReason_None: "firstReason rs = None \<longleftrightarrow> (\<forall>r \<in> set rs. r = None)"
  by (induction rs) (auto split: option.splits)

lemma reasonWhen_None [simp]: "reasonWhen c r = None \<longleftrightarrow> \<not> c"
  by (simp add: reasonWhen_def)

lemma denialReason_None:
  "denialReason H effective action grant = None \<longleftrightarrow>
     (\<forall>r \<in> set (escalationReasons action). r = None) \<and> (\<forall>r \<in> set (denySetReasons H effective action). r = None)
     \<and> (\<forall>r \<in> set (grantReasons H effective action grant). r = None) \<and> (\<forall>r \<in> set (allowSetReasons H effective action). r = None)
     \<and> (\<forall>r \<in> set (controlReasons effective action). r = None)"
  by (auto simp: denialReason_def firstReason_None)

lemma decideAction_Inr:
  assumes "decideAction H layers action grant = Inr d"
  obtains m where "mergePolicyLayers H layers = Inr m"
    "decideMerged H m action grant = (pd_outcome d, pd_reasons d, pd_approval_digest d)"
    "pd_effective_policy_digest d = ep_digest (mp_effective m)" "actionDigest H action = Inr (pd_action_digest d)"
proof -
  obtain m where m: "mergePolicyLayers H layers = Inr m"
    and r: "(case decideMerged H m action grant of (outcome, reasons, approval) \<Rightarrow> rbind (actionDigest H action) (\<lambda>digest.
       buildDecision H outcome reasons digest (mp_effective m) approval)) = Inr d"
    using assms unfolding decideAction_def rbind_Inr_iff by blast
  obtain outcome reasons approval where o: "decideMerged H m action grant = (outcome, reasons, approval)" by (rule prod_cases3)
  show thesis by (rule that [of m]) (use m r in \<open>auto simp: o buildDecision_def rbind_Inr_iff\<close>)
qed

lemma decideMerged_outcome:
  "fst (decideMerged H m action grant) =
     (if mp_conflicts m \<noteq> [] then block else if denialReason H (mp_effective m) action grant \<noteq> None then deny
      else if requiresApproval (mp_effective m) action \<and> usableApproval action grant = None then requires_approval else allow)"
  "snd (snd (decideMerged H m action grant)) =
     (if mp_conflicts m = [] \<and> denialReason H (mp_effective m) action grant = None \<and> requiresApproval (mp_effective m) action
      then usableApproval action grant else None)"
  by (simp_all add: decideMerged_def Let_def split: option.split)

lemma decided:
  assumes "decideAction H layers action grant = Inr d"
  obtains m where "mergePolicyLayers H layers = Inr m"
    "pd_outcome d = (if mp_conflicts m \<noteq> [] then block else if denialReason H (mp_effective m) action grant \<noteq> None then deny
      else if requiresApproval (mp_effective m) action \<and> usableApproval action grant = None then requires_approval else allow)"
    "pd_approval_digest d = (if mp_conflicts m = [] \<and> denialReason H (mp_effective m) action grant = None
      \<and> requiresApproval (mp_effective m) action then usableApproval action grant else None)"
proof -
  obtain m where m: "mergePolicyLayers H layers = Inr m"
    "decideMerged H m action grant = (pd_outcome d, pd_reasons d, pd_approval_digest d)"
    using assms by (rule decideAction_Inr)
  show thesis by (rule that [of m]) (use m decideMerged_outcome [of H m action grant] in simp_all)
qed

lemma allowed_merge:
  assumes "decideAction H layers action grant = Inr d" "pd_outcome d = allow"
  obtains m where "mergePolicyLayers H layers = Inr m" "mp_conflicts m = []" "denialReason H (mp_effective m) action grant = None"
    "pd_approval_digest d = (if requiresApproval (mp_effective m) action then usableApproval action grant else None)"
    "requiresApproval (mp_effective m) action \<longrightarrow> pd_approval_digest d \<noteq> None"
    "pd_effective_policy_digest d = ep_digest (mp_effective m)"
proof -
  obtain m where m: "mergePolicyLayers H layers = Inr m" "pd_effective_policy_digest d = ep_digest (mp_effective m)"
    "decideMerged H m action grant = (pd_outcome d, pd_reasons d, pd_approval_digest d)"
    using assms(1) by (rule decideAction_Inr)
  show thesis
    by (rule that [of m]) (use m assms(2) decideMerged_outcome [of H m action grant] in \<open>auto split: if_splits\<close>)
qed

lemma permitted_sets:
  assumes "denialReason H effective action grant = None" "pa_resource action = Some r"
  shows "isPathAction action \<longrightarrow> tryNormalizeRepoRelativePath H r \<noteq> None
        \<and> \<not> isPathWithinScopes H (orList (policyStrings effective ''paths.deny'')) r"
    "r \<notin> set (orList (policyStrings effective ''resources.deny''))"
    "pa_kind action = invoke_tool \<longrightarrow> r \<notin> set (orList (policyStrings effective ''capabilities.deny''))"
    "pa_kind action = read_path \<longrightarrow> \<not> outsideAllow (isPathWithinScopes H) (policyStrings effective ''paths.read.allow'') (Some r)"
    "pa_kind action = write_path \<longrightarrow> \<not> outsideAllow (isPathWithinScopes H) (policyStrings effective ''paths.write.allow'') (Some r)"
    "pa_kind action = invoke_tool \<longrightarrow> \<not> outsideAllow List.member (policyStrings effective ''resources.allow'') (Some r)"
  using assms by (simp_all add: denialReason_None denySetReasons_def allowSetReasons_def Let_def)

lemma permitted_phase:
  "denialReason H effective action grant = None \<Longrightarrow> \<not> outsideAllow List.member (policyStrings effective ''phases.allow'') (Some (pa_phase action))"
  by (simp add: denialReason_None allowSetReasons_def Let_def)

text \<open>An action that names no resource is checked against no deny set and, of the allow sets, against the phases only.\<close>

lemma resourceless_unchecked:
  assumes "pa_resource action = None"
  shows "denySetReasons H effective action = []"
    "(\<forall>r \<in> set (allowSetReasons H effective action). r = None) \<longleftrightarrow>
       \<not> outsideAllow List.member (policyStrings effective ''phases.allow'') (Some (pa_phase action))"
  using assms by (simp_all add: denySetReasons_def allowSetReasons_def Let_def outsideAllow_def split: option.splits)

text \<open>
  C6. An allowed action respects the path, resource and phase sets of every layer. Its phase is in every phase set that any
  layer allows. When it names a resource, the resource is in no resource deny set; a path it reads or writes is a
  legal repository path, outside every denied scope and inside every scope set that a layer allows for reading or
  writing; a tool it invokes is in no capability deny set and in every allowed resource set. An action that names no
  resource is only checked for its phase (\<open>resourceless_unchecked\<close>), and the allowed capabilities of a layer bound
  grants, not actions.
\<close>
theorem decideAction_respects_layers:
  assumes d: "decideAction H layers action grant = Inr d" "pd_outcome d = allow"
  shows "(\<forall>ss. declares layers ''phases.allow'' ''allow_intersection'' ss \<longrightarrow> pa_phase action \<in> set ss)
     \<and> (\<forall>r. pa_resource action = Some r \<longrightarrow>
        (\<forall>ss. declares layers ''resources.deny'' ''deny_union'' ss \<longrightarrow> r \<notin> set ss)
        \<and> (\<forall>ss. isPathAction action \<longrightarrow> declares layers ''paths.deny'' ''deny_union'' ss \<longrightarrow> \<not> isPathWithinScopes H ss r)
        \<and> (isPathAction action \<longrightarrow> tryNormalizeRepoRelativePath H r \<noteq> None)
        \<and> (\<forall>ss. pa_kind action = read_path \<longrightarrow> declares layers ''paths.read.allow'' ''allow_intersection'' ss \<longrightarrow> isPathWithinScopes H ss r)
        \<and> (\<forall>ss. pa_kind action = write_path \<longrightarrow> declares layers ''paths.write.allow'' ''allow_intersection'' ss \<longrightarrow> isPathWithinScopes H ss r)
        \<and> (\<forall>ss. pa_kind action = invoke_tool \<longrightarrow> declares layers ''capabilities.deny'' ''deny_union'' ss \<longrightarrow> r \<notin> set ss)
        \<and> (\<forall>ss. pa_kind action = invoke_tool \<longrightarrow> declares layers ''resources.allow'' ''allow_intersection'' ss \<longrightarrow> r \<in> set ss))"
proof -
  obtain m where m: "mergePolicyLayers H layers = Inr m" "mp_conflicts m = []"
    and n: "denialReason H (mp_effective m) action grant = None"
    using allowed_merge [OF d] by blast
  note union = declares_union [OF m] and inter = declares_intersection [OF m] and permitted = permitted_sets [OF n]
  have paths: "isPathWithinScopes H ss r" if "\<not> outsideAllow (isPathWithinScopes H) (policyStrings (mp_effective m) path) (Some r)"
    "declares layers path ''allow_intersection'' ss" for path ss r
    using that(1) inter [OF that(2)] isPathWithinScopes_mono by (auto simp: outsideAllow_def)
  have members: "x \<in> set ss" if "\<not> outsideAllow List.member (policyStrings (mp_effective m) path) (Some x)"
    "declares layers path ''allow_intersection'' ss" for path ss x
    using that(1) inter [OF that(2)] by (auto simp: outsideAllow_def)
  have denied: "\<not> isPathWithinScopes H ss r" if "pa_resource action = Some r" "isPathAction action" "declares layers ''paths.deny'' ''deny_union'' ss" for r ss
    using permitted(1) [OF that(1)] that(2) union [OF that(3)] isPathWithinScopes_mono by blast
  have resources: "r \<notin> set ss" if "pa_resource action = Some r" "declares layers ''resources.deny'' ''deny_union'' ss" for r ss
    using permitted(2) [OF that(1)] union [OF that(2)] by blast
  have capabilities: "r \<notin> set ss"
    if "pa_resource action = Some r" "pa_kind action = invoke_tool" "declares layers ''capabilities.deny'' ''deny_union'' ss" for r ss
    using permitted(3) [OF that(1)] that(2) union [OF that(3)] by blast
  show ?thesis using permitted permitted_phase [OF n] denied resources capabilities by (intro conjI allI impI) (simp_all add: paths members)
qed

text \<open>
  C7. Authority of an allowed action: an escalation is decided only by the harness or a human and never from a
  prompt; an action under a grant is inside the grant, and the grant binds the policy of the decision; an
  action for which any layer requires an approval, by kind or by risk, carries one, which the grant lists.
\<close>
theorem decideAction_authority:
  assumes d: "decideAction H layers action grant = Inr d" "pd_outcome d = allow"
  shows "(isEscalation action \<longrightarrow> pa_origin action = control_plane \<and> pa_actor_kind action \<in> {actor_harness, actor_human})
     \<and> (\<forall>g. grant = Some g \<longrightarrow> \<not> isEscalation action \<longrightarrow>
          grantDenialReason H g action = None \<and> cg_effective_policy_digest g = pd_effective_policy_digest d)
     \<and> (\<forall>ss e. declares layers ''approvals.required'' ''approval_union'' ss \<longrightarrow> e \<in> set ss \<longrightarrow>
          e = actionKindText (pa_kind action) \<or> (\<exists>t. riskThreshold e = Some t \<and> policyRiskRank t \<le> policyRiskRank (pa_risk action)) \<longrightarrow>
          (\<exists>approval. pd_approval_digest d = Some approval \<and> pa_approval_digest action = Some approval
             \<and> (\<forall>g. grant = Some g \<longrightarrow> approval \<in> set (cg_approval_digests g))))"
proof -
  obtain m where m: "mergePolicyLayers H layers = Inr m" "mp_conflicts m = []"
    and n: "denialReason H (mp_effective m) action grant = None"
    and a: "requiresApproval (mp_effective m) action \<longrightarrow> pd_approval_digest d \<noteq> None"
      "pd_approval_digest d = (if requiresApproval (mp_effective m) action then usableApproval action grant else None)"
      "pd_effective_policy_digest d = ep_digest (mp_effective m)"
    using allowed_merge [OF d] by blast
  have escalation: "isEscalation action \<longrightarrow> pa_origin action = control_plane \<and> pa_actor_kind action \<in> {actor_harness, actor_human}"
    using n by (cases "pa_origin action"; cases "pa_actor_kind action")
      (simp_all add: denialReason_None escalationReasons_def isUnprivileged_def Let_def)
  have inside: "grantDenialReason H g action = None \<and> cg_effective_policy_digest g = pd_effective_policy_digest d"
    if "grant = Some g" "\<not> isEscalation action" for g
    using n that a(3) by (simp add: denialReason_None grantReasons_def)
  have required: "requiresApproval (mp_effective m) action"
    if ss: "declares layers ''approvals.required'' ''approval_union'' ss" and e: "e \<in> set ss"
      "e = actionKindText (pa_kind action) \<or> (\<exists>t. riskThreshold e = Some t \<and> policyRiskRank t \<le> policyRiskRank (pa_risk action))" for ss e
  proof -
    have "e \<in> set (orList (policyStrings (mp_effective m) ''approvals.required''))" using declares_union [OF m ss] e(1) by blast
    then show ?thesis using e(2) by (auto simp: requiresApproval_def Let_def list_ex_iff intro!: bexI [of _ e])
  qed
  have approval: "\<exists>approval. pd_approval_digest d = Some approval \<and> pa_approval_digest action = Some approval
      \<and> (\<forall>g. grant = Some g \<longrightarrow> approval \<in> set (cg_approval_digests g))" if "requiresApproval (mp_effective m) action"
    using a(1,2) that by (auto simp: usableApproval_def split: option.splits if_splits)
  have inside_all: "\<forall>g. grant = Some g \<longrightarrow> \<not> isEscalation action \<longrightarrow>
      grantDenialReason H g action = None \<and> cg_effective_policy_digest g = pd_effective_policy_digest d"
    using inside by simp
  show ?thesis by (intro conjI escalation inside_all allI impI) (rule approval, rule required; assumption)
qed

lemma approval_irrelevant:
  "denySetReasons H effective (action\<lparr>pa_approval_digest := approval\<rparr>) = denySetReasons H effective action"
  "allowSetReasons H effective (action\<lparr>pa_approval_digest := approval\<rparr>) = allowSetReasons H effective action"
  "controlReasons effective (action\<lparr>pa_approval_digest := approval\<rparr>) = controlReasons effective action"
  "grantReasons H effective (action\<lparr>pa_approval_digest := approval\<rparr>) grant = grantReasons H effective action grant"
proof -
  have o: "outsideBound (action\<lparr>pa_approval_digest := approval\<rparr>) = outsideBound action"
    by (simp add: outsideBound_def fun_eq_iff)
  have t: "toolDenialReason H tools (action\<lparr>pa_approval_digest := approval\<rparr>) = toolDenialReason H tools action" for tools
    by (simp add: toolDenialReason_def fun_eq_iff o split: option.split)
  have g: "grantDenialReason H g (action\<lparr>pa_approval_digest := approval\<rparr>) = grantDenialReason H g action" for g :: capability_grant
    by (cases "pa_kind action"; cases "pa_resource action") (simp_all add: grantDenialReason_def Let_def t)
  show "grantReasons H effective (action\<lparr>pa_approval_digest := approval\<rparr>) grant = grantReasons H effective action grant"
    by (cases grant) (simp_all add: grantReasons_def g isEscalation_def)
qed (simp_all add: denySetReasons_def allowSetReasons_def controlReasons_def isPathAction_def isUnprivileged_def split: option.split)

lemma denialReason_approval:
  assumes "denialReason H effective (action\<lparr>pa_approval_digest := None\<rparr>) grant \<noteq> None"
  shows "denialReason H effective (action\<lparr>pa_approval_digest := approval\<rparr>) grant \<noteq> None"
  using assms by (auto simp: denialReason_None approval_irrelevant escalationReasons_def Let_def isEscalation_def isUnprivileged_def)

text \<open>
  An approval can satisfy a requirement but never lift a denial: an action that is denied or blocked
  without an approval has the same outcome whatever approval is attached to it.
\<close>
theorem decideAction_approval_cannot_lift:
  assumes "decideAction H layers (action\<lparr>pa_approval_digest := None\<rparr>) grant = Inr d" "pd_outcome d = deny \<or> pd_outcome d = block"
    "decideAction H layers (action\<lparr>pa_approval_digest := approval\<rparr>) grant = Inr d'"
  shows "pd_outcome d' = pd_outcome d"
proof -
  let ?a = "action\<lparr>pa_approval_digest := None\<rparr>" and ?b = "action\<lparr>pa_approval_digest := approval\<rparr>"
  obtain m where m: "mergePolicyLayers H layers = Inr m"
    "pd_outcome d = (if mp_conflicts m \<noteq> [] then block else if denialReason H (mp_effective m) ?a grant \<noteq> None then deny
      else if requiresApproval (mp_effective m) ?a \<and> usableApproval ?a grant = None then requires_approval else allow)"
    using assms(1) by (rule decided)
  obtain m' where m': "mergePolicyLayers H layers = Inr m'"
    "pd_outcome d' = (if mp_conflicts m' \<noteq> [] then block else if denialReason H (mp_effective m') ?b grant \<noteq> None then deny
      else if requiresApproval (mp_effective m') ?b \<and> usableApproval ?b grant = None then requires_approval else allow)"
    using assms(3) by (rule decided)
  have "m' = m" using m(1) m'(1) by simp
  then show ?thesis using m(2) m'(2) assms(2) denialReason_approval [of H "mp_effective m" action grant approval] by (auto split: if_splits)
qed

lemma grantTaskLease_policy:
  assumes "grantTaskLease H input = Inr r"
  shows "lr_policy_digest r = pd_effective_policy_digest (gi_decision input)"
proof -
  from assms obtain draft where built: "buildTaskLeaseRecord H draft = Inr r"
    and draft: "lr_policy_digest draft = pd_effective_policy_digest (gi_decision input)"
    by (cases "jm_get (latest_by_task (gi_chain input)) (gi_task_id input)")
      (auto simp: grantTaskLease_def rbind_Inr_iff Let_def split: if_splits)
  show ?thesis using draft by (subst buildTaskLeaseRecord_Inr(3) [OF built]; simp)
qed

text \<open>
  C30. A task lease is granted only on an allowed action: the lease binds the digest of the action that was
  decided and the digest of the effective policy, and it records no approval, since a decision that
  an approval satisfied is an allow and a decision that requires one carries none.
\<close>
theorem lease_from_decision:
  assumes "decideAction H layers action grant = Inr d" "gi_decision input = policy_decision.truncate d"
    "grantTaskLease H input = Inr lease"
  shows "pd_outcome d = allow \<and> actionDigest H action = Inr (gi_expected_action_digest input)
     \<and> lr_policy_digest lease = pd_effective_policy_digest d \<and> lr_approval_digests lease = []"
proof -
  have lease: "grantApprovals (gi_decision input) = Inr (lr_approval_digests lease)"
    "pd_action_digest (gi_decision input) = gi_expected_action_digest input"
    "lr_policy_digest lease = pd_effective_policy_digest (gi_decision input)"
    using grantTaskLease_Inr(15,16) [OF assms(3)] grantTaskLease_policy [OF assms(3)] by auto
  have t: "pd_outcome (gi_decision input) = pd_outcome d" "pd_approval_digest (gi_decision input) = pd_approval_digest d"
    "pd_action_digest (gi_decision input) = pd_action_digest d"
    "pd_effective_policy_digest (gi_decision input) = pd_effective_policy_digest d"
    using assms(2) by (simp_all add: policy_decision.defs)
  have digest: "actionDigest H action = Inr (pd_action_digest d)" using assms(1) by (rule decideAction_Inr)
  have none: "pd_outcome d \<noteq> requires_approval \<or> pd_approval_digest d = None"
    using assms(1) by (rule decided) (auto split: if_splits)
  show ?thesis using lease t digest none
    by (cases "pd_outcome d") (auto simp: grantApprovals_def split: option.splits)
qed

section \<open>Grants and the allow sets\<close>

lemma tryNormalize_normalized:
  assumes "normalizeRepoRelativePath H p = Inr q" "h_nfc H q = q"
  shows "tryNormalizeRepoRelativePath H q = Some q"
  using assms canonicalPath_normalize [OF normalizeLocatorPath_canonical]
  by (auto simp: normalizeRepoRelativePath_def tryNormalizeRepoRelativePath_def split: sum.splits)

lemma isPathWithinScopes_trans:
  assumes "isPathWithinScopes H scopes path" "\<forall>q \<in> set scopes. tryNormalizeRepoRelativePath H q = Some q \<and> isPathWithinScopes H allowed q"
  shows "isPathWithinScopes H allowed path"
proof -
  obtain target q where t: "tryNormalizeRepoRelativePath H path = Some target" "q \<in> set scopes"
    "target = q \<or> startsWith target (q @ ''/'')"
    using assms by (fastforce simp: isPathWithinScopes_def list_ex_iff split: option.splits)
  obtain scope n where s: "scope \<in> set allowed" "tryNormalizeRepoRelativePath H scope = Some n" "q = n \<or> startsWith q (n @ ''/'')"
    using assms(2) t(2) by (fastforce simp: isPathWithinScopes_def list_ex_iff split: option.splits)
  have "target = n \<or> startsWith target (n @ ''/'')" using t(3) s(3) by (auto simp: startsWith_iff)
  then show ?thesis using t(1) s(1,2) by (auto simp: isPathWithinScopes_def list_ex_iff intro!: bexI [of _ scope])
qed

text \<open>Normalised paths are stable under NFC: neither separator composes with a following character.\<close>

definition nfcStable :: "host \<Rightarrow> bool" where
  "nfcStable H \<longleftrightarrow> (\<forall>p q. normalizeLocatorPath H p = Inr q \<longrightarrow> h_nfc H q = q)"

lemma nfcStable_normalized: "nfcStable H \<Longrightarrow> normalizeRepoRelativePath H p = Inr q \<Longrightarrow> tryNormalizeRepoRelativePath H q = Some q"
  by (rule tryNormalize_normalized) (auto simp: nfcStable_def normalizeRepoRelativePath_def split: sum.splits)

lemma issueGrant_Inr:
  assumes "issueGrant H request effective = Inr g" "nfcStable H"
  shows "\<forall>p \<in> set (cg_read_paths g). tryNormalizeRepoRelativePath H p = Some p \<and> withinAllow H (policyStrings effective ''paths.read.allow'') p"
    "\<forall>p \<in> set (cg_write_paths g). tryNormalizeRepoRelativePath H p = Some p \<and> withinAllow H (policyStrings effective ''paths.write.allow'') p
       \<and> \<not> isPathWithinScopes H (orList (policyStrings effective ''paths.deny'')) p"
    "\<forall>a. policyStrings effective ''resources.allow'' = Some a \<longrightarrow> gt_name ` set (cg_tools g) \<subseteq> set a"
    "\<forall>a. policyStrings effective ''phases.allow'' = Some a \<longrightarrow> cg_phase g \<in> set a"
    "\<forall>a. policyStrings effective ''capabilities.allow'' = Some a \<longrightarrow> set (cg_capabilities g) \<subseteq> set a"
    "set (cg_capabilities g) \<inter> set (orList (policyStrings effective ''capabilities.deny'')) = {}"
    "cg_budget g = issuedBudget effective (gq_budget request)"
proof -
  let ?caps = "sortedUnique (gq_capabilities request)" and ?tools = "sort_key gt_name (orList (gq_tools request))"
  obtain reads writes where caps: "assertSubsetOf (policyStrings effective ''capabilities.allow'') ?caps = Inr ()"
      "list_all (\<lambda>c. \<not> List.member (orList (policyStrings effective ''capabilities.deny'')) c) ?caps"
    and paths: "mapR (normalizeRepoRelativePath H) (gq_read_paths request) = Inr reads"
      "mapR (normalizeRepoRelativePath H) (gq_write_paths request) = Inr writes"
      "list_all (withinAllow H (policyStrings effective ''paths.read.allow'')) (sortedUnique reads)"
      "list_all (\<lambda>path. withinAllow H (policyStrings effective ''paths.write.allow'') path
          \<and> \<not> isPathWithinScopes H (orList (policyStrings effective ''paths.deny'')) path) (sortedUnique writes)"
    and tools: "assertSubsetOf (policyStrings effective ''resources.allow'') (map gt_name ?tools) = Inr ()"
      "assertSubsetOf (policyStrings effective ''phases.allow'') [gq_phase request] = Inr ()"
    and g: "cg_read_paths g = sortedUnique reads" "cg_write_paths g = sortedUnique writes" "cg_capabilities g = ?caps"
      "cg_tools g = ?tools" "cg_phase g = gq_phase request" "cg_budget g = issuedBudget effective (gq_budget request)"
    using assms(1) by (auto simp: issueGrant_def Let_def rbind_Inr_iff sealGrant_Inr)
  have normal: "tryNormalizeRepoRelativePath H p = Some p"
    if "mapR (normalizeRepoRelativePath H) ps = Inr qs" "p \<in> set qs" for ps qs p
    using mapR_Inr_source [OF that] nfcStable_normalized [OF assms(2)] by blast
  show "\<forall>p \<in> set (cg_read_paths g). tryNormalizeRepoRelativePath H p = Some p \<and> withinAllow H (policyStrings effective ''paths.read.allow'') p"
    using paths(1,3) normal by (auto simp: g list_all_iff)
  show "\<forall>p \<in> set (cg_write_paths g). tryNormalizeRepoRelativePath H p = Some p \<and> withinAllow H (policyStrings effective ''paths.write.allow'') p
       \<and> \<not> isPathWithinScopes H (orList (policyStrings effective ''paths.deny'')) p"
    using paths(2,4) normal by (auto simp: g list_all_iff)
  have subset: "set xs \<subseteq> set a" if "assertSubsetOf (Some a) xs = Inr ()" for a xs
    using that by (auto simp: assertSubsetOf_def assertSubset_def list_all_iff)
  show "\<forall>a. policyStrings effective ''resources.allow'' = Some a \<longrightarrow> gt_name ` set (cg_tools g) \<subseteq> set a"
    "\<forall>a. policyStrings effective ''phases.allow'' = Some a \<longrightarrow> cg_phase g \<in> set a"
    "\<forall>a. policyStrings effective ''capabilities.allow'' = Some a \<longrightarrow> set (cg_capabilities g) \<subseteq> set a"
    using subset tools caps(1) by (fastforce simp: g)+
  show "set (cg_capabilities g) \<inter> set (orList (policyStrings effective ''capabilities.deny'')) = {}"
    using caps(2) by (auto simp: g list_all_iff)
  show "cg_budget g = issuedBudget effective (gq_budget request)" by (rule g)
qed

text \<open>
  C31. A grant never reaches beyond the policy it is issued under: every action inside the grant passes the path, resource
  and phase allow sets of that policy, its capabilities are among the allowed ones where the policy allows
  some and avoid the denied ones, no path it may write is under a denied scope, and its budget is within the
  ceilings and the request.
\<close>
theorem issueGrant_within_policy:
  assumes "issueGrant H request effective = Inr g" "nfcStable H"
  shows "(\<forall>action. grantDenialReason H g action = None \<longrightarrow> (\<forall>r \<in> set (allowSetReasons H effective action). r = None))
     \<and> (\<forall>a. policyStrings effective ''capabilities.allow'' = Some a \<longrightarrow> set (cg_capabilities g) \<subseteq> set a)
     \<and> set (cg_capabilities g) \<inter> set (orList (policyStrings effective ''capabilities.deny'')) = {}
     \<and> (\<forall>p \<in> set (cg_write_paths g). \<not> isPathWithinScopes H (orList (policyStrings effective ''paths.deny'')) p)
     \<and> (\<forall>n. policyNumber effective ''budgets.max_steps'' = Some n \<longrightarrow> gb_steps (cg_budget g) \<le> n)
     \<and> (\<forall>n. policyNumber effective ''budgets.max_tokens'' = Some n \<longrightarrow> gb_tokens (cg_budget g) \<le> n)
     \<and> gb_steps (cg_budget g) \<le> gb_steps (gq_budget request) \<and> gb_tokens (cg_budget g) \<le> gb_tokens (gq_budget request)"
proof -
  note i = issueGrant_Inr [OF assms]
  have within: "\<not> outsideAllow (isPathWithinScopes H) allowed (pa_resource action)"
    if "resourceIn (isPathWithinScopes H scopes) (pa_resource action)"
      "\<forall>p \<in> set scopes. tryNormalizeRepoRelativePath H p = Some p \<and> withinAllow H allowed p" for allowed scopes action
    using that isPathWithinScopes_trans [of H scopes "the (pa_resource action)"]
    by (auto simp: outsideAllow_def resourceIn_def withinAllow_def split: option.splits)
  have "\<forall>r \<in> set (allowSetReasons H effective action). r = None" if a: "grantDenialReason H g action = None" for action
  proof -
    have p: "pa_phase action = cg_phase g" using a by (simp add: grantDenialReason_None)
    have "\<not> outsideAllow List.member (policyStrings effective ''phases.allow'') (Some (pa_phase action))"
      using i(4) p by (auto simp: outsideAllow_def split: option.splits)
    moreover have "pa_kind action = read_path \<Longrightarrow> \<not> outsideAllow (isPathWithinScopes H) (policyStrings effective ''paths.read.allow'') (pa_resource action)"
      using a i(1) by (intro within [of "cg_read_paths g"]) (auto simp: grantDenialReason_None)
    moreover have "pa_kind action = write_path \<Longrightarrow> \<not> outsideAllow (isPathWithinScopes H) (policyStrings effective ''paths.write.allow'') (pa_resource action)"
      using a i(2) by (intro within [of "cg_write_paths g"]) (auto simp: grantDenialReason_None)
    moreover have "pa_kind action = invoke_tool \<Longrightarrow> \<not> outsideAllow List.member (policyStrings effective ''resources.allow'') (pa_resource action)"
      using a i(3) by (auto simp: grantDenialReason_None resourceIn_def toolDenialReason_None outsideAllow_def dest!: findTool_Some split: option.splits)
    ultimately show ?thesis by (simp add: allowSetReasons_def Let_def)
  qed
  moreover have "clampBudget c b \<le> b" "c = Some n \<longrightarrow> clampBudget c b \<le> n" for c b n by (auto simp: clampBudget_def split: option.splits)
  ultimately show ?thesis using i(2,5,6,7) by (simp add: issuedBudget_def)
qed

end
