(* ===== verification/Policy_Examples.thy ===== *)
theory Policy_Examples
  imports Policy_Evaluator Policy_Ceilings Lease_Examples
begin

text \<open>
  A small policy, a grant issued under it and actions decided by it: the concrete instances of the policy
  theorems, and the narrowing that loses a parameter bound.
\<close>

section \<open>A policy and its decisions\<close>

definition decisionLayers :: "policy_layer_input list" where
  "decisionLayers =
     [\<lparr>plr_layer = ''project'', plr_revision = 1, plr_digest = ''p'', pl_fields =
        [\<lparr>pf_path = ''paths.deny'', pf_merge_operator = ''deny_union'', pf_value = stringsJson [''secrets'']\<rparr>,
         \<lparr>pf_path = ''approvals.required'', pf_merge_operator = ''approval_union'', pf_value = stringsJson [''risk:high'']\<rparr>,
         \<lparr>pf_path = ''scheduler.max_concurrency'', pf_merge_operator = ''hard_ceiling'', pf_value = JNum 4\<rparr>]\<rparr>]"

definition decisionFields :: "effective_policy_field list" where
  "decisionFields =
     [\<lparr>ef_path = ''approvals.required'', ef_merge_operator = ''approval_union'', ef_value = stringsJson [''risk:high''],
       ef_reason = ''approval_union:project[risk:high] = [risk:high]'', ef_sources = map layerRef decisionLayers\<rparr>,
      \<lparr>ef_path = ''paths.deny'', ef_merge_operator = ''deny_union'', ef_value = stringsJson [''secrets''],
       ef_reason = ''deny_union:project[secrets] = [secrets]'', ef_sources = map layerRef decisionLayers\<rparr>,
      \<lparr>ef_path = ''scheduler.max_concurrency'', ef_merge_operator = ''hard_ceiling'', ef_value = JNum 4,
       ef_reason = ''hard_ceiling:min('' @ exampleNumber 4 @ '')='' @ exampleNumber 4, ef_sources = map layerRef decisionLayers\<rparr>]"

definition decisionMerged :: "string \<Rightarrow> merged_policy" where
  "decisionMerged d =
     \<lparr>mp_effective = \<lparr>ep_fields = decisionFields, ep_layers = map layerRef decisionLayers, ep_digest = d\<rparr>, mp_conflicts = []\<rparr>"

lemma decision_merge: "\<exists>d. mergePolicyLayers exampleHost decisionLayers = Inr (decisionMerged d) \<and> digestPattern d"
proof -
  have o: "orderLayers decisionLayers = Inr decisionLayers" by code_simp
  have r: "mapR (\<lambda>path. mergeGroup exampleHost path (map snd (the (jm_get (byPath decisionLayers) path))))
      (sort (map fst (byPath decisionLayers))) = Inr (map Inr decisionFields)" by code_simp
  have c: "concat (map operatorConflicts decisionLayers) = []" by code_simp
  have f: "foldl addMerged ([], []) (map Inr decisionFields) = (decisionFields, [])"
    by (simp add: decisionFields_def addMerged_simps)
  have "wellKeyed exampleHost (effectiveJson (map layerRef decisionLayers) decisionFields)"
    by (auto simp: effectiveJson_def layerRefJson_def decisionFields_def stringsJson_def list_all_iff)
  then obtain d where d: "contentDigest exampleHost (effectiveJson (map layerRef decisionLayers) decisionFields) = Inr d" "digestPattern d"
    using contentDigest_example by blast
  show ?thesis unfolding mergePolicyLayers_def o rbind_simps Let_def r c f prod.case d(1) using d(2) by (simp add: decisionMerged_def)
qed

definition writeAction :: "policy_risk \<Rightarrow> string option \<Rightarrow> string \<Rightarrow> policy_action" where
  "writeAction risk approval path =
     \<lparr>pa_kind = write_path, pa_actor = ''agent-1'', pa_actor_kind = actor_agent, pa_origin = control_plane, pa_phase = ''build'',
      pa_resource = Some path, pa_parameters = [], pa_risk = risk, pa_approval_digest = approval, pa_control_profile = None\<rparr>"

definition writeRequest :: grant_request where
  "writeRequest = \<lparr>gq_grant_id = ''g'', gq_task_id = ''t'', gq_capabilities = [], gq_read_paths = [], gq_write_paths = [''src''],
     gq_state_fields = None, gq_tools = None, gq_phase = ''build'', gq_budget = \<lparr>gb_steps = 5, gb_tokens = 9\<rparr>,
     gq_approval_digests = Some [''a1'']\<rparr>"

definition writeTerms :: "string \<Rightarrow> grant_terms" where
  "writeTerms d = \<lparr>cg_grant_id = ''g'', cg_task_id = ''t'', cg_capabilities = [], cg_read_paths = [], cg_write_paths = [''src''],
     cg_state_fields = [], cg_tools = [], cg_phase = ''build'', cg_budget = \<lparr>gb_steps = 5, gb_tokens = 9\<rparr>,
     cg_approval_digests = [''a1''], cg_effective_policy_digest = d\<rparr>"

lemma grantDigest_example:
  assumes "\<forall>tool \<in> set (cg_tools g). \<forall>bounds. gt_parameter_bounds tool = Some bounds \<longrightarrow>
     distinct (map fst bounds) \<and> (\<forall>b \<in> set bounds. \<forall>v \<in> set (snd b). wellKeyed exampleHost v)"
  shows "\<exists>d. sealGrant exampleHost g = Inr (grant_terms.extend g (capability_grant.fields d))"
proof -
  have "wellKeyed exampleHost (grantedToolJson tool)" if "tool \<in> set (cg_tools g)" for tool
    using that assms by (cases "gt_parameter_bounds tool") (auto simp: grantedToolJson_def optionalField_def list_all_iff comp_def)
  then have "wellKeyed exampleHost (JObj (grantEntries g))"
    by (auto simp: grantEntries_def grantBudgetJson_def stringsJson_def list_all_iff)
  then show ?thesis using contentDigest_example unfolding sealGrant_def grantDigest_def by fastforce
qed

lemma write_grant:
  "\<exists>d'. issueGrant exampleHost writeRequest (mp_effective (decisionMerged d)) = Inr (grant_terms.extend (writeTerms d) (capability_grant.fields d'))"
proof -
  have "issueGrant exampleHost writeRequest (mp_effective (decisionMerged d)) = sealGrant exampleHost (writeTerms d)" by code_simp
  then show ?thesis using grantDigest_example [of "writeTerms d"] by (simp add: writeTerms_def)
qed

lemma decided_example:
  assumes "mergePolicyLayers exampleHost decisionLayers = Inr (decisionMerged dg)" "wellKeyed exampleHost (actionJson action)"
  shows "\<exists>d. decideAction exampleHost decisionLayers action grant = Inr d
    \<and> decideMerged exampleHost (decisionMerged dg) action grant = (pd_outcome d, pd_reasons d, pd_approval_digest d)
    \<and> pd_effective_policy_digest d = dg"
proof -
  obtain a where a: "actionDigest exampleHost action = Inr a" using contentDigest_example [OF assms(2)] by (auto simp: actionDigest_def)
  obtain outcome reasons approval where o: "decideMerged exampleHost (decisionMerged dg) action grant = (outcome, reasons, approval)" by (rule prod_cases3)
  let ?j = "JObj [(''outcome'', JStr (outcomeText outcome)), (''reasons'', stringsJson reasons),
        (''action_digest'', JStr a), (''effective_policy_digest'', JStr dg),
        (''layers'', JArr (map layerRefJson (map layerRef decisionLayers))),
        (''field_traces'', JArr (map fieldTraceJson decisionFields)),
        (''approval_digest'', orNull JStr approval)]"
  have "wellKeyed exampleHost ?j"
    by (cases approval) (auto simp: stringsJson_def layerRefJson_def fieldTraceJson_def decisionFields_def decisionLayers_def orNull_def list_all_iff)
  then obtain d where "contentDigest exampleHost ?j = Inr d" using contentDigest_example by blast
  then show ?thesis using assms(1) a o by (auto simp: decideAction_def buildDecision_def decisionMerged_def)
qed

lemma write_keyed: "wellKeyed exampleHost (actionJson (writeAction risk approval path))"
  by (cases approval) (auto simp: writeAction_def actionJson_def orNull_def list_all_iff)

lemma write_decided:
  "decideMerged exampleHost (decisionMerged d) (writeAction high (Some ''a1'') ''src/a'') (Some (grant_terms.extend (writeTerms d) (capability_grant.fields e)))
    = (allow, [''allowed: approval a1 satisfies the requires-approval rule for write_path at high risk''], Some ''a1'')"
  by code_simp

lemma write_allowed:
  obtains g d where "decideAction exampleHost decisionLayers (writeAction high (Some ''a1'') ''src/a'') (Some g) = Inr d"
    "pd_outcome d = allow" "pd_approval_digest d = Some ''a1''" "digestPattern (pd_effective_policy_digest d)"
proof -
  obtain dg where dg: "mergePolicyLayers exampleHost decisionLayers = Inr (decisionMerged dg)" "digestPattern dg" using decision_merge by blast
  show thesis
    using decided_example [OF dg(1) write_keyed, of high "Some ''a1''" "''src/a''" "Some (grant_terms.extend (writeTerms dg) (capability_grant.fields []))"]
      dg(2) that by (auto simp: write_decided)
qed

section \<open>The theorems on the example\<close>

theorem decideAction_respects_layers_witness:
  "\<exists>g d. decideAction exampleHost decisionLayers (writeAction high (Some ''a1'') ''src/a'') (Some g) = Inr d
     \<and> pd_outcome d = allow \<and> \<not> isPathWithinScopes exampleHost [''secrets''] ''src/a''"
proof -
  obtain g d where d: "decideAction exampleHost decisionLayers (writeAction high (Some ''a1'') ''src/a'') (Some g) = Inr d" "pd_outcome d = allow"
    by (rule write_allowed)
  have "isPathAction (writeAction high (Some ''a1'') ''src/a'')" "declares decisionLayers ''paths.deny'' ''deny_union'' [''secrets'']"
    "pa_resource (writeAction high (Some ''a1'') ''src/a'') = Some ''src/a''"
    by (simp_all add: isPathAction_def writeAction_def declares_def decisionLayers_def)
  then show ?thesis using decideAction_respects_layers [OF d] d by blast
qed

theorem decideAction_authority_witness:
  "\<exists>g d. decideAction exampleHost decisionLayers (writeAction high (Some ''a1'') ''src/a'') (Some g) = Inr d
     \<and> grantDenialReason exampleHost g (writeAction high (Some ''a1'') ''src/a'') = None \<and> ''a1'' \<in> set (cg_approval_digests g)"
proof -
  obtain g d where d: "decideAction exampleHost decisionLayers (writeAction high (Some ''a1'') ''src/a'') (Some g) = Inr d" "pd_outcome d = allow"
    by (rule write_allowed)
  have a: "\<not> isEscalation (writeAction high (Some ''a1'') ''src/a'')" "declares decisionLayers ''approvals.required'' ''approval_union'' [''risk:high'']"
    "riskThreshold ''risk:high'' = Some high" "pa_risk (writeAction high (Some ''a1'') ''src/a'') = high"
    "pa_approval_digest (writeAction high (Some ''a1'') ''src/a'') = Some ''a1''"
    by code_simp+
  have "grantDenialReason exampleHost g (writeAction high (Some ''a1'') ''src/a'') = None"
    using decideAction_authority [OF d] a(1) by blast
  moreover have "''a1'' \<in> set (cg_approval_digests g)"
    using decideAction_authority [OF d, THEN conjunct2, THEN conjunct2, rule_format, OF a(2), of "''risk:high''"] a(3-5) by simp
  ultimately show ?thesis using d by blast
qed

theorem decideAction_approval_cannot_lift_witness:
  "\<exists>d. decideAction exampleHost decisionLayers (writeAction low (Some ''a1'') ''secrets/x'') None = Inr d \<and> pd_outcome d = deny"
proof -
  obtain dg where dg: "mergePolicyLayers exampleHost decisionLayers = Inr (decisionMerged dg)" using decision_merge by blast
  have m: "fst (decideMerged exampleHost (decisionMerged dg) (writeAction low None ''secrets/x'') None) = deny" by code_simp
  obtain d where d: "decideAction exampleHost decisionLayers (writeAction low None ''secrets/x'') None = Inr d" "pd_outcome d = deny"
    using decided_example [OF dg write_keyed, of low None "''secrets/x''" None] m by auto
  obtain d' where d': "decideAction exampleHost decisionLayers (writeAction low (Some ''a1'') ''secrets/x'') None = Inr d'"
    using decided_example [OF dg write_keyed, of low "Some ''a1''" "''secrets/x''" None] by auto
  have "pd_outcome d' = pd_outcome d"
    by (rule decideAction_approval_cannot_lift [of exampleHost decisionLayers "writeAction low None ''secrets/x''" None d "Some ''a1''"])
      (use d d' in \<open>simp_all add: writeAction_def\<close>)
  then show ?thesis using d' d(2) by simp
qed

theorem issueGrant_within_policy_witness:
  "\<exists>g. issueGrant exampleHost writeRequest (mp_effective (decisionMerged ''d'')) = Inr g
     \<and> (\<forall>r \<in> set (allowSetReasons exampleHost (mp_effective (decisionMerged ''d'')) (writeAction low None ''src/a'')). r = None)"
proof -
  obtain d' where g: "issueGrant exampleHost writeRequest (mp_effective (decisionMerged ''d''))
      = Inr (grant_terms.extend (writeTerms ''d'') (capability_grant.fields d'))" using write_grant by blast
  moreover have "nfcStable exampleHost" by (simp add: nfcStable_def)
  moreover have "grantDenialReason exampleHost (grant_terms.extend (writeTerms ''d'') (capability_grant.fields d')) (writeAction low None ''src/a'') = None"
    by code_simp
  ultimately show ?thesis using issueGrant_within_policy [OF g] by blast
qed

theorem resolveSchedulerCeilings_bounds_witness:
  "\<exists>m c reasons. mergePolicyLayers exampleHost decisionLayers = Inr m
     \<and> resolveSchedulerCeilings exampleHost (mp_effective m) = ceilings_resolved c reasons \<and> sl_max_concurrency c \<le> 4"
proof -
  obtain dg where dg: "mergePolicyLayers exampleHost decisionLayers = Inr (decisionMerged dg)" using decision_merge by blast
  have "\<exists>c reasons. resolveSchedulerCeilings exampleHost (mp_effective (decisionMerged dg)) = ceilings_resolved c reasons"
    by (simp add: resolveSchedulerCeilings_def Let_def LOOP_CEILING_FALLBACKS_def scanCeiling_def scanConcurrency_def ceilingValue_def
        fieldAt_def decisionMerged_def decisionFields_def)
  then obtain c reasons where c: "resolveSchedulerCeilings exampleHost (mp_effective (decisionMerged dg)) = ceilings_resolved c reasons"
    by blast
  have "declaresCeiling decisionLayers ''scheduler.max_concurrency'' 4" by (simp add: declaresCeiling_def decisionLayers_def)
  then show ?thesis using resolveSchedulerCeilings_bounds [OF dg _ c] dg c by (auto simp: decisionMerged_def)
qed

section \<open>Narrowing\<close>

definition deployGrant :: capability_grant where
  "deployGrant = \<lparr>cg_grant_id = ''g'', cg_task_id = ''t'', cg_capabilities = [''deploy''], cg_read_paths = [], cg_write_paths = [],
     cg_state_fields = [], cg_tools = [\<lparr>gt_name = ''deploy'', gt_parameter_bounds = Some [(''target'', [JStr ''staging''])]\<rparr>],
     cg_phase = ''build'', cg_budget = \<lparr>gb_steps = 5, gb_tokens = 9\<rparr>, cg_approval_digests = [], cg_effective_policy_digest = [],
     cg_digest = []\<rparr>"

definition narrowTools :: "granted_tool list \<Rightarrow> grant_narrowing" where
  "narrowTools tools = \<lparr>gn_capabilities = None, gn_read_paths = None, gn_write_paths = None, gn_state_fields = None,
     gn_tools = Some tools, gn_budget = None\<rparr>"

definition deployAction :: policy_action where
  "deployAction = \<lparr>pa_kind = invoke_tool, pa_actor = ''agent-1'', pa_actor_kind = actor_agent, pa_origin = control_plane, pa_phase = ''build'',
      pa_resource = Some ''deploy'', pa_parameters = [(''target'', JStr ''production'')], pa_risk = low, pa_approval_digest = None,
      pa_control_profile = None\<rparr>"

lemma narrow_example:
  assumes "tool \<in> {\<lparr>gt_name = ''deploy'', gt_parameter_bounds = None\<rparr>, \<lparr>gt_name = ''deploy'', gt_parameter_bounds = Some [(''target'', [])]\<rparr>}"
  shows "\<exists>g'. narrowGrant exampleHost deployGrant (narrowTools [tool]) = Inr g' \<and> cg_tools g' = [tool] \<and> cg_phase g' = ''build''"
proof -
  let ?g = "grant_terms.truncate deployGrant\<lparr>cg_tools := [tool]\<rparr>"
  have "narrowGrant exampleHost deployGrant (narrowTools [tool]) = sealGrant exampleHost ?g"
    using assms by (auto simp: narrowGrant_def narrowTools_def narrowOptional_def assertToolNarrowing_def deployGrant_def Let_def
        checkNarrowedTool_def findTool_def orList_def checkToolBound_def grant_terms.defs)
  then show ?thesis using grantDigest_example [of ?g] assms by (auto simp: deployGrant_def grant_terms.defs)
qed

text \<open>
  Narrowing can lose a parameter bound: a narrowed tool that omits the bounds of the granted tool is
  accepted, and the new grant permits an invocation that the grant it narrows denies.
\<close>
theorem narrowGrant_drops_bounds:
  "\<exists>g'. narrowGrant exampleHost deployGrant (narrowTools [\<lparr>gt_name = ''deploy'', gt_parameter_bounds = None\<rparr>]) = Inr g'
     \<and> grantDenialReason exampleHost deployGrant deployAction \<noteq> None \<and> grantDenialReason exampleHost g' deployAction = None"
proof -
  obtain g' where g': "narrowGrant exampleHost deployGrant (narrowTools [\<lparr>gt_name = ''deploy'', gt_parameter_bounds = None\<rparr>]) = Inr g'"
    "cg_tools g' = [\<lparr>gt_name = ''deploy'', gt_parameter_bounds = None\<rparr>]" "cg_phase g' = ''build''"
    using narrow_example by blast
  have "grantDenialReason exampleHost g' deployAction = None"
    using g'(2,3) by (simp add: grantDenialReason_None deployAction_def resourceIn_def toolDenialReason_None findTool_def orList_def)
  moreover have "grantDenialReason exampleHost deployGrant deployAction \<noteq> None" by code_simp
  ultimately show ?thesis using g'(1) by blast
qed

theorem narrowGrant_shrinks_witness:
  "\<exists>g'. narrowGrant exampleHost deployGrant (narrowTools [\<lparr>gt_name = ''deploy'', gt_parameter_bounds = Some [(''target'', [])]\<rparr>]) = Inr g'
     \<and> set (cg_capabilities g') \<subseteq> {''deploy''} \<and> grantDenialReason exampleHost g' deployAction \<noteq> None"
proof -
  obtain g' where g': "narrowGrant exampleHost deployGrant (narrowTools [\<lparr>gt_name = ''deploy'', gt_parameter_bounds = Some [(''target'', [])]\<rparr>]) = Inr g'"
    using narrow_example by blast
  have keys: "\<forall>tool \<in> set (cg_tools deployGrant). distinct (boundKeys tool)" by (simp add: deployGrant_def boundKeys_def orList_def)
  have keeps: "\<forall>tools. gn_tools (narrowTools [\<lparr>gt_name = ''deploy'', gt_parameter_bounds = Some [(''target'', [])]\<rparr>]) = Some tools \<longrightarrow>
      keepsBounds (cg_tools deployGrant) tools"
    by (simp add: narrowTools_def keepsBounds_def findTool_def deployGrant_def boundKeys_def orList_def)
  have d: "grantDenialReason exampleHost deployGrant deployAction \<noteq> None" "set (cg_capabilities deployGrant) = {''deploy''}"
    by (code_simp, simp add: deployGrant_def)
  have "set (cg_capabilities g') \<subseteq> {''deploy''}" "grantDenialReason exampleHost g' deployAction = None \<longrightarrow> grantDenialReason exampleHost deployGrant deployAction = None"
    using narrowGrant_shrinks [OF g' keys keeps] unfolding d(2) by simp_all
  then show ?thesis using g' d(1) by blast
qed

section \<open>A lease on an approved action\<close>

definition decidedInput :: "traced_decision \<Rightarrow> grant_task_lease_input" where
  "decidedInput d = (exampleGrant \<lparr>latest_by_task = [], chain_records = []\<rparr> ''cmd_a'' None)
     \<lparr>gi_decision := policy_decision.truncate d, gi_expected_action_digest := pd_action_digest d\<rparr>"

lemma decided_lease:
  assumes "pd_outcome d = allow" "digestPattern (pd_effective_policy_digest d)"
  shows "\<exists>lease. grantTaskLease exampleHost (decidedInput d) = Inr lease"
proof -
  let ?r = "(exampleLease firstLeaseId (leaseRecordIdOf firstLeaseId granted ''cmd_a'') 1 None ''cmd_a'')
     \<lparr>lr_policy_digest := pd_effective_policy_digest d\<rparr>"
  have built: "buildTaskLeaseRecord exampleHost (?r\<lparr>lr_protocol_version := [], lr_record_kind := [], lr_record_digest := []\<rparr>)
      = Inr (sealed ?r)"
  proof (rule build_sealed)
    show "leaseSemantics exampleHost (sealed ?r)"
      using exampleSchemas leaseRecordIdOf(2) contentDigest_lease(2) [of ?r] assms(2)
      by (simp add: leaseSemantics_def TaskLeaseRecordSchema_def leaseBudgetSchema_def exampleLease_def sealed_def)
  qed (simp_all add: exampleLease_def)
  have "grantTaskLease exampleHost (decidedInput d)
      = buildTaskLeaseRecord exampleHost (?r\<lparr>lr_protocol_version := [], lr_record_kind := [], lr_record_digest := []\<rparr>)"
    using assms(1) by (simp add: decidedInput_def policy_decision.defs grantTaskLease_def exampleGrant_def grantApprovals_def
        checkRetry_def exampleIds leaseRecordIdOf(1) nextFencingToken_def exampleLease_def)
  then show ?thesis using built by simp
qed

theorem lease_from_decision_witness:
  "\<exists>g d lease. decideAction exampleHost decisionLayers (writeAction high (Some ''a1'') ''src/a'') (Some g) = Inr d
     \<and> pd_approval_digest d = Some ''a1'' \<and> grantTaskLease exampleHost (decidedInput d) = Inr lease \<and> lr_approval_digests lease = []"
proof -
  obtain g d where d: "decideAction exampleHost decisionLayers (writeAction high (Some ''a1'') ''src/a'') (Some g) = Inr d"
    "pd_outcome d = allow" "pd_approval_digest d = Some ''a1''" "digestPattern (pd_effective_policy_digest d)"
    by (rule write_allowed)
  then obtain lease where l: "grantTaskLease exampleHost (decidedInput d) = Inr lease" using decided_lease by blast
  have "lr_approval_digests lease = []"
    using lease_from_decision [OF d(1) _ l] by (simp add: decidedInput_def)
  then show ?thesis using d l by blast
qed

section \<open>A deny scope that does not normalise\<close>

text \<open>A scope with a trailing slash has an empty segment, is no legal path, and covers nothing.\<close>

theorem trailing_slash_scope_ignored:
  "isPathWithinScopes exampleHost [''secrets''] ''secrets/x'' \<and> \<not> isPathWithinScopes exampleHost [''secrets/''] ''secrets/x''"
  by code_simp

end
