(* ===== verification/Loop_Policy.thy ===== *)
theory Loop_Policy
  imports Policy_Ceilings Policy_Grant Policy_Examples
begin

text \<open>
  The policy of a managed loop (\<^verbatim>\<open>runtime/src/loop/policy.ts\<close>): ceilings and termination rules resolved from the
  merged policy and the overrides of one run. The lemmas: a resolved policy passes the structural check and
  stays below the installation ceilings of every layer; without an authorization no override raises a
  ceiling or weakens a termination rule.
\<close>

section \<open>Policies\<close>

datatype budget_ceiling_mode = ceiling_hard | ceiling_soft

fun ceilingModeText :: "budget_ceiling_mode \<Rightarrow> string" where
  "ceilingModeText ceiling_hard = ''hard''" | "ceilingModeText ceiling_soft = ''soft''"

record repeat_detection_policy =
  rd_window :: rat
  rd_identical_action_limit :: rat

record termination_policy =
  tp_require_structured_signal :: bool
  tp_require_external_verification :: bool
  tp_budget_ceiling :: budget_ceiling_mode

record loop_policy =
  lp_max_steps :: rat
  lp_max_tokens :: rat
  lp_max_duration_ms :: rat
  lp_max_tool_retries :: rat
  lp_repeat_detection :: repeat_detection_policy
  lp_termination :: termination_policy
  lp_effective_policy_digest :: string
  lp_digest :: string

datatype budget_field = max_steps | max_tokens | max_duration_ms | max_tool_retries

fun budgetFieldText :: "budget_field \<Rightarrow> string" where
  "budgetFieldText max_steps = ''max_steps''"
| "budgetFieldText max_tokens = ''max_tokens''"
| "budgetFieldText max_duration_ms = ''max_duration_ms''"
| "budgetFieldText max_tool_retries = ''max_tool_retries''"

fun loopDefault :: "budget_field \<Rightarrow> rat" where
  "loopDefault max_steps = 30"
| "loopDefault max_tokens = 120000"
| "loopDefault max_duration_ms = 2700000"
| "loopDefault max_tool_retries = 2"

definition terminationDefault :: termination_policy where
  "terminationDefault = \<lparr>tp_require_structured_signal = True, tp_require_external_verification = True, tp_budget_ceiling = ceiling_hard\<rparr>"

definition repeatDefault :: repeat_detection_policy where
  "repeatDefault = \<lparr>rd_window = 6, rd_identical_action_limit = 2\<rparr>"

record termination_overrides =
  to_require_structured_signal :: "bool option"
  to_require_external_verification :: "bool option"
  to_budget_ceiling :: "budget_ceiling_mode option"

record loop_policy_request =
  lq_overrides :: "budget_field \<Rightarrow> rat option"
  lq_termination :: "termination_overrides option"
  lq_authorization_digest :: "string option"

section \<open>Resolution\<close>

definition policyBoolean :: "effective_policy \<Rightarrow> string \<Rightarrow> bool option" where
  "policyBoolean effective path =
     (case fieldAt effective path of None \<Rightarrow> None
      | Some field \<Rightarrow> (case ef_value field of JBool b \<Rightarrow> Some b | _ \<Rightarrow> None))"

definition positiveInteger :: "rat \<Rightarrow> bool" where
  "positiveInteger v \<longleftrightarrow> isInteger v \<and> 0 \<le> v"

definition atLeast :: "rat \<Rightarrow> rat \<Rightarrow> bool" where
  "atLeast least v \<longleftrightarrow> isInteger v \<and> least \<le> v"

definition isLoopPolicy :: "loop_policy \<Rightarrow> bool" where
  "isLoopPolicy policy \<longleftrightarrow>
     atLeast 1 (lp_max_steps policy) \<and> atLeast 1 (lp_max_tokens policy) \<and> atLeast 1 (lp_max_duration_ms policy)
     \<and> positiveInteger (lp_max_tool_retries policy)
     \<and> atLeast 1 (rd_window (lp_repeat_detection policy)) \<and> atLeast 2 (rd_identical_action_limit (lp_repeat_detection policy))
     \<and> digestPattern (lp_effective_policy_digest policy) \<and> digestPattern (lp_digest policy)"

definition assertLoopPolicy :: "loop_policy \<Rightarrow> unit result" where
  "assertLoopPolicy policy = rguard (isLoopPolicy policy) (LoopError invalid_loop_policy)"

definition numberOr :: "effective_policy \<Rightarrow> string \<Rightarrow> rat \<Rightarrow> rat" where
  "numberOr effective path fallback = (case policyNumber effective path of None \<Rightarrow> fallback | Some n \<Rightarrow> n)"

definition clampCeiling :: "effective_policy \<Rightarrow> budget_field \<Rightarrow> rat \<Rightarrow> rat" where
  "clampCeiling effective name v =
     (case policyNumber effective (''loop.ceiling.'' @ budgetFieldText name) of
        Some c \<Rightarrow> if c < v then c else v
      | None \<Rightarrow> v)"

definition resolveBudget :: "effective_policy \<Rightarrow> budget_field \<Rightarrow> rat \<Rightarrow> rat option \<Rightarrow> bool \<Rightarrow> rat result" where
  "resolveBudget effective name fallback override authorized =
     (let declared = numberOr effective (''loop.'' @ budgetFieldText name) fallback;
          least = (if name = max_tool_retries then 0 else 1)
      in case override of
           None \<Rightarrow> Inr (clampCeiling effective name declared)
         | Some v \<Rightarrow>
             if \<not> positiveInteger v \<or> v < least then Inl (LoopError invalid_loop_policy)
             else if declared < v \<and> \<not> authorized then Inl (PolicyError policy_capability_expansion)
             else Inr (clampCeiling effective name v))"

definition baseTermination :: "effective_policy \<Rightarrow> termination_policy" where
  "baseTermination effective =
     \<lparr>tp_require_structured_signal = (case policyBoolean effective ''loop.termination.require_structured_signal'' of
          None \<Rightarrow> tp_require_structured_signal terminationDefault | Some b \<Rightarrow> b),
      tp_require_external_verification = (case policyBoolean effective ''loop.termination.require_external_verification'' of
          None \<Rightarrow> tp_require_external_verification terminationDefault | Some b \<Rightarrow> b),
      tp_budget_ceiling = (if policyString effective ''loop.termination.budget_ceiling'' = Some ''soft'' then ceiling_soft else ceiling_hard)\<rparr>"

definition weakenedTermination :: "termination_policy \<Rightarrow> termination_policy \<Rightarrow> bool" where
  "weakenedTermination base changed \<longleftrightarrow>
     (tp_require_structured_signal base \<and> \<not> tp_require_structured_signal changed)
     \<or> (tp_require_external_verification base \<and> \<not> tp_require_external_verification changed)
     \<or> (tp_budget_ceiling base = ceiling_hard \<and> tp_budget_ceiling changed = ceiling_soft)"

definition overrideOr :: "'a option \<Rightarrow> 'a \<Rightarrow> 'a" where
  "overrideOr override base = (case override of None \<Rightarrow> base | Some v \<Rightarrow> v)"

definition resolveTermination :: "effective_policy \<Rightarrow> termination_overrides option \<Rightarrow> bool \<Rightarrow> termination_policy result" where
  "resolveTermination effective overrides authorized =
     (let base = baseTermination effective in
      case overrides of
        None \<Rightarrow> Inr base
      | Some ov \<Rightarrow>
          let changed = \<lparr>tp_require_structured_signal = overrideOr (to_require_structured_signal ov) (tp_require_structured_signal base),
                tp_require_external_verification = overrideOr (to_require_external_verification ov) (tp_require_external_verification base),
                tp_budget_ceiling = overrideOr (to_budget_ceiling ov) (tp_budget_ceiling base)\<rparr>
          in if weakenedTermination base changed \<and> \<not> authorized then Inl (PolicyError policy_capability_expansion) else Inr changed)"

definition loopPolicyJson :: "loop_policy \<Rightarrow> json" where
  "loopPolicyJson p = JObj
     [(''max_steps'', JNum (lp_max_steps p)), (''max_tokens'', JNum (lp_max_tokens p)), (''max_duration_ms'', JNum (lp_max_duration_ms p)),
      (''max_tool_retries'', JNum (lp_max_tool_retries p)),
      (''repeat_detection'', JObj [(''window'', JNum (rd_window (lp_repeat_detection p))),
         (''identical_action_limit'', JNum (rd_identical_action_limit (lp_repeat_detection p)))]),
      (''termination'', JObj [(''require_structured_signal'', JBool (tp_require_structured_signal (lp_termination p))),
         (''require_external_verification'', JBool (tp_require_external_verification (lp_termination p))),
         (''budget_ceiling'', JStr (ceilingModeText (tp_budget_ceiling (lp_termination p))))]),
      (''effective_policy_digest'', JStr (lp_effective_policy_digest p))]"

definition resolveLoopPolicy :: "host \<Rightarrow> effective_policy \<Rightarrow> loop_policy_request \<Rightarrow> loop_policy result" where
  "resolveLoopPolicy H effective request =
     (let authorized = lq_authorization_digest request \<noteq> None;
          budget = (\<lambda>name. resolveBudget effective name (loopDefault name) (lq_overrides request name) authorized)
      in
      rbind (budget max_steps) (\<lambda>steps.
      rbind (budget max_tokens) (\<lambda>tokens.
      rbind (budget max_duration_ms) (\<lambda>duration.
      rbind (budget max_tool_retries) (\<lambda>retries.
      rbind (resolveTermination effective (lq_termination request) authorized) (\<lambda>termination.
      let parts = \<lparr>lp_max_steps = steps, lp_max_tokens = tokens, lp_max_duration_ms = duration, lp_max_tool_retries = retries,
            lp_repeat_detection =
              \<lparr>rd_window = numberOr effective ''loop.repeat_detection.window'' (rd_window repeatDefault),
               rd_identical_action_limit = numberOr effective ''loop.repeat_detection.identical_action_limit'' (rd_identical_action_limit repeatDefault)\<rparr>,
            lp_termination = termination, lp_effective_policy_digest = ep_digest effective, lp_digest = replicate 64 CHR ''0''\<rparr>
      in if \<not> isLoopPolicy parts then Inl (LoopError invalid_loop_policy)
         else rbind (contentDigest H (loopPolicyJson parts)) (\<lambda>d. Inr (parts\<lparr>lp_digest := d\<rparr>))))))))"

section \<open>What a resolved policy promises\<close>

fun loopBudget :: "loop_policy \<Rightarrow> budget_field \<Rightarrow> rat" where
  "loopBudget p max_steps = lp_max_steps p"
| "loopBudget p max_tokens = lp_max_tokens p"
| "loopBudget p max_duration_ms = lp_max_duration_ms p"
| "loopBudget p max_tool_retries = lp_max_tool_retries p"

lemma resolved_loop_parts:
  assumes "resolveLoopPolicy H effective request = Inr p"
  shows "resolveBudget effective name (loopDefault name) (lq_overrides request name) (lq_authorization_digest request \<noteq> None) = Inr (loopBudget p name)"
    "resolveTermination effective (lq_termination request) (lq_authorization_digest request \<noteq> None) = Inr (lp_termination p)"
    "\<exists>d. isLoopPolicy (p\<lparr>lp_digest := replicate 64 CHR ''0''\<rparr>) \<and> contentDigest H (loopPolicyJson p) = Inr d \<and> lp_digest p = d"
proof -
  show "resolveTermination effective (lq_termination request) (lq_authorization_digest request \<noteq> None) = Inr (lp_termination p)"
    "\<exists>d. isLoopPolicy (p\<lparr>lp_digest := replicate 64 CHR ''0''\<rparr>) \<and> contentDigest H (loopPolicyJson p) = Inr d \<and> lp_digest p = d"
    using assms by (auto simp: resolveLoopPolicy_def Let_def rbind_Inr_iff loopPolicyJson_def split: if_splits)
  show "resolveBudget effective name (loopDefault name) (lq_overrides request name) (lq_authorization_digest request \<noteq> None) = Inr (loopBudget p name)"
    using assms by (cases name) (auto simp: resolveLoopPolicy_def Let_def rbind_Inr_iff split: if_splits)
qed

lemma resolveBudget_ceiling:
  "resolveBudget effective name fallback override authorized = Inr v \<Longrightarrow>
     policyNumber effective (''loop.ceiling.'' @ budgetFieldText name) = Some c \<Longrightarrow> v \<le> c"
  by (auto simp: resolveBudget_def clampCeiling_def Let_def simp del: append.simps split: option.splits if_splits)

lemma resolveBudget_declared:
  "resolveBudget effective name fallback override False = Inr v \<Longrightarrow> v \<le> numberOr effective (''loop.'' @ budgetFieldText name) fallback"
  by (auto simp: resolveBudget_def clampCeiling_def Let_def simp del: append.simps split: option.splits if_splits)

lemma resolveTermination_kept:
  "resolveTermination effective overrides False = Inr t \<Longrightarrow> \<not> weakenedTermination (baseTermination effective) t"
  by (auto simp: resolveTermination_def Let_def weakenedTermination_def split: option.splits if_splits)

lemma policyNumber_declared:
  assumes "mergePolicyLayers H layers = Inr m" "mp_conflicts m = []" "declaresCeiling layers path n"
  shows "\<exists>k. policyNumber (mp_effective m) path = Some k \<and> k \<le> n"
  using ceilingValue_declared [OF assms] by (auto simp: ceilingValue_def policyNumber_def split: option.splits json.splits)

lemma resolved_loop_valid:
  assumes "resolveLoopPolicy H effective request = Inr p" "\<forall>s. digestPattern (h_sha256 H s)"
  shows "isLoopPolicy p"
proof -
  obtain d where d: "isLoopPolicy (p\<lparr>lp_digest := replicate 64 CHR ''0''\<rparr>)" "contentDigest H (loopPolicyJson p) = Inr d" "lp_digest p = d"
    using resolved_loop_parts(3) [OF assms(1)] by blast
  have "digestPattern d" using d(2) assms(2) by (auto simp: contentDigest_def rbind_Inr_iff)
  then show ?thesis using d(1,3) by (simp add: isLoopPolicy_def)
qed

text \<open>
  C38. The policy a managed loop runs under obeys every layer: it passes the structural check, each of its ceilings
  is at most the installation ceiling any layer declares, and without an authorization no override raises a
  ceiling above what any layer (or else the built-in default) allows, nor weakens a termination rule.
\<close>
theorem resolveLoopPolicy_bounds:
  assumes "mergePolicyLayers H layers = Inr m" "mp_conflicts m = []" "\<forall>s. digestPattern (h_sha256 H s)"
    and "resolveLoopPolicy H (mp_effective m) request = Inr p"
  shows "isLoopPolicy p \<and> (\<forall>name n. declaresCeiling layers (''loop.ceiling.'' @ budgetFieldText name) n \<longrightarrow> loopBudget p name \<le> n)
     \<and> (lq_authorization_digest request = None \<longrightarrow>
         (\<forall>name n. declaresCeiling layers (''loop.'' @ budgetFieldText name) n \<longrightarrow> loopBudget p name \<le> n)
         \<and> (\<forall>name. policyNumber (mp_effective m) (''loop.'' @ budgetFieldText name) = None \<longrightarrow> loopBudget p name \<le> loopDefault name)
         \<and> \<not> weakenedTermination (baseTermination (mp_effective m)) (lp_termination p))"
proof -
  have below: "loopBudget p name \<le> n" if "declaresCeiling layers (''loop.ceiling.'' @ budgetFieldText name) n" for name n
    using resolveBudget_ceiling [OF resolved_loop_parts(1) [OF assms(4)], of name] policyNumber_declared [OF assms(1,2) that] by force
  have unraised: "loopBudget p name \<le> numberOr (mp_effective m) (''loop.'' @ budgetFieldText name) (loopDefault name)"
    if "lq_authorization_digest request = None" for name
    using resolveBudget_declared [of "mp_effective m" name] resolved_loop_parts(1) [OF assms(4), of name] that by simp
  have declared: "loopBudget p name \<le> n" if "lq_authorization_digest request = None" "declaresCeiling layers (''loop.'' @ budgetFieldText name) n" for name n
    using unraised [OF that(1), of name] policyNumber_declared [OF assms(1,2) that(2)] by (auto simp: numberOr_def simp del: append.simps)
  have default: "loopBudget p name \<le> loopDefault name"
    if "lq_authorization_digest request = None" "policyNumber (mp_effective m) (''loop.'' @ budgetFieldText name) = None" for name
    using unraised [OF that(1), of name] that(2) by (simp add: numberOr_def del: append.simps)
  have "\<not> weakenedTermination (baseTermination (mp_effective m)) (lp_termination p)" if "lq_authorization_digest request = None"
    using resolveTermination_kept resolved_loop_parts(2) [OF assms(4)] that by simp
  then show ?thesis using resolved_loop_valid [OF assms(4,3)] below declared default by blast
qed

section \<open>Example\<close>

definition lowerRequest :: loop_policy_request where
  "lowerRequest = \<lparr>lq_overrides = (\<lambda>name. if name = max_steps then Some 5 else None), lq_termination = None, lq_authorization_digest = None\<rparr>"

lemma lower_resolves: "\<exists>p. resolveLoopPolicy exampleHost (mp_effective (decisionMerged d)) lowerRequest = Inr p \<and> lp_max_steps p = 5" if "digestPattern d"
proof -
  have none: "policyNumber (mp_effective (decisionMerged d)) path = None" if "path \<noteq> ''scheduler.max_concurrency''" for path
    using that by (auto simp: policyNumber_def fieldAt_def decisionMerged_def decisionFields_def stringsJson_def)
  have budget: "resolveBudget (mp_effective (decisionMerged d)) name (loopDefault name) (lq_overrides lowerRequest name) False
      = Inr (if name = max_steps then 5 else loopDefault name)" for name
    by (cases name) (simp_all add: resolveBudget_def numberOr_def clampCeiling_def none lowerRequest_def positiveInteger_def)
  have zeros: "digestPattern (replicate 64 CHR ''0'')" by code_simp
  let ?parts = "\<lparr>lp_max_steps = 5, lp_max_tokens = 120000, lp_max_duration_ms = 2700000, lp_max_tool_retries = 2,
    lp_repeat_detection = \<lparr>rd_window = rd_window repeatDefault, rd_identical_action_limit = rd_identical_action_limit repeatDefault\<rparr>,
    lp_termination = baseTermination (mp_effective (decisionMerged d)),
    lp_effective_policy_digest = d, lp_digest = replicate 64 CHR ''0''\<rparr>"
  have valid: "isLoopPolicy ?parts" using that zeros by (simp add: isLoopPolicy_def atLeast_def positiveInteger_def repeatDefault_def)
  have "wellKeyed exampleHost (loopPolicyJson ?parts)" by (simp add: loopPolicyJson_def)
  then obtain e where "contentDigest exampleHost (loopPolicyJson ?parts) = Inr e" using contentDigest_total by metis
  moreover have "lq_authorization_digest lowerRequest = None" "lq_termination lowerRequest = None" "ep_digest (mp_effective (decisionMerged d)) = d"
    by (simp_all add: lowerRequest_def decisionMerged_def)
  moreover have "numberOr (mp_effective (decisionMerged d)) ''loop.repeat_detection.window'' x = x"
    "numberOr (mp_effective (decisionMerged d)) ''loop.repeat_detection.identical_action_limit'' x = x" for x
    by (simp_all add: numberOr_def none)
  ultimately have "resolveLoopPolicy exampleHost (mp_effective (decisionMerged d)) lowerRequest = Inr (?parts\<lparr>lp_digest := e\<rparr>)"
    using budget [of max_steps] budget [of max_tokens] budget [of max_duration_ms] budget [of max_tool_retries] valid
    by (simp add: resolveLoopPolicy_def Let_def resolveTermination_def)
  then show ?thesis by simp
qed

theorem resolveLoopPolicy_bounds_witness:
  "\<exists>p. isLoopPolicy p \<and> lp_max_steps p = 5 \<and> loopBudget p max_tokens \<le> 120000"
proof -
  obtain d where d: "mergePolicyLayers exampleHost decisionLayers = Inr (decisionMerged d)" "digestPattern d" using decision_merge by blast
  obtain p where p: "resolveLoopPolicy exampleHost (mp_effective (decisionMerged d)) lowerRequest = Inr p" "lp_max_steps p = 5"
    using lower_resolves [OF d(2)] by blast
  have "mp_conflicts (decisionMerged d) = []" by (simp add: decisionMerged_def)
  moreover have "policyNumber (mp_effective (decisionMerged d)) (''loop.'' @ budgetFieldText max_tokens) = None"
    by (simp add: policyNumber_def fieldAt_def decisionMerged_def decisionFields_def stringsJson_def)
  moreover have "lq_authorization_digest lowerRequest = None" by (simp add: lowerRequest_def)
  moreover have "\<forall>s. digestPattern (h_sha256 exampleHost s)" by (simp add: digestPattern_example)
  ultimately have "isLoopPolicy p \<and> loopBudget p max_tokens \<le> loopDefault max_tokens"
    using resolveLoopPolicy_bounds [OF d(1) _ _ p(1)] by blast
  then show ?thesis using p(2) by auto
qed

end
