(* ===== verification/Loop_Outcome.thy ===== *)
theory Loop_Outcome
  imports Loop_Policy Run_Outcome
begin

text \<open>
  How a managed run ends (\<^verbatim>\<open>runtime/src/loop/outcome.ts\<close>) and the detector of stagnation
  (\<^verbatim>\<open>runtime/src/loop/repeat-detector.ts\<close>). The lemmas: the phase machine reaches one terminal decision, a success
  only through verification; the sliding window of the detector counts exactly the last observations of the
  whole history, and a window shorter than the limit never trips.
\<close>

section \<open>Decisions\<close>

record terminal_decision =
  td_outcome :: run_outcome
  td_termination_reason :: termination_reason
  td_detail :: string

definition decision :: "run_outcome \<Rightarrow> termination_reason \<Rightarrow> string \<Rightarrow> terminal_decision" where
  "decision out why detail = \<lparr>td_outcome = out, td_termination_reason = why, td_detail = detail\<rparr>"

definition completionDecision :: "bool \<Rightarrow> terminal_decision" where
  "completionDecision verified =
     (if verified then decision run_success ended_completion ''completion signal verified against current mandatory evidence''
      else decision run_failure ended_gate_failure ''completion signal could not be verified against current mandatory evidence'')"

definition budgetCeilingDecision :: "string \<Rightarrow> terminal_decision" where
  "budgetCeilingDecision kind = decision run_partial ended_budget_ceiling (''loop '' @ kind @ '' ceiling reached'')"

definition repeatDetectionDecision :: "string \<Rightarrow> terminal_decision" where
  "repeatDetectionDecision fingerprint =
     decision run_partial ended_repeat_detection (''repeated action without state or evidence progress (fingerprint '' @ fingerprint @ '')'')"

definition timeoutDecision :: terminal_decision where
  "timeoutDecision = decision run_partial ended_timeout ''loop duration ceiling reached''"

definition adapterFailureDecision :: "string \<Rightarrow> terminal_decision" where
  "adapterFailureDecision detail = decision run_failure ended_adapter_failure detail"

definition cancellationDecision :: terminal_decision where
  "cancellationDecision = decision run_handoff ended_user_cancellation ''run cancelled by the user''"

lemmas decision_defs = completionDecision_def budgetCeilingDecision_def repeatDetectionDecision_def timeoutDecision_def
  adapterFailureDecision_def cancellationDecision_def decision_def

section \<open>The phase machine\<close>

datatype loop_run_phase = phase_running | phase_verifying | phase_terminated

record loop_phase_machine =
  pm_phase :: loop_run_phase
  pm_terminal :: "terminal_decision option"

definition newPhaseMachine :: loop_phase_machine where
  "newPhaseMachine = \<lparr>pm_phase = phase_running, pm_terminal = None\<rparr>"

definition signalCompletion :: "loop_phase_machine \<Rightarrow> loop_phase_machine result" where
  "signalCompletion machine =
     (if pm_phase machine \<noteq> phase_running then Inl (LoopError invalid_loop_phase) else Inr (machine\<lparr>pm_phase := phase_verifying\<rparr>))"

definition terminateInternal :: "terminal_decision \<Rightarrow> loop_phase_machine \<Rightarrow> loop_phase_machine result" where
  "terminateInternal d machine =
     (if pm_phase machine = phase_terminated then Inl (LoopError loop_already_terminated)
      else Inr \<lparr>pm_phase = phase_terminated, pm_terminal = Some d\<rparr>)"

definition verifyEvidence :: "bool \<Rightarrow> loop_phase_machine \<Rightarrow> loop_phase_machine result" where
  "verifyEvidence evidenceCurrent machine =
     (if pm_phase machine \<noteq> phase_verifying then Inl (LoopError invalid_loop_phase)
      else terminateInternal (completionDecision evidenceCurrent) machine)"

definition terminateRun :: "terminal_decision \<Rightarrow> loop_phase_machine \<Rightarrow> loop_phase_machine result" where
  "terminateRun d machine =
     (if td_outcome d = run_success then Inl (LoopError invalid_loop_phase) else terminateInternal d machine)"

inductive phase_step :: "loop_phase_machine \<Rightarrow> loop_phase_machine \<Rightarrow> bool" where
  signal: "signalCompletion m = Inr m' \<Longrightarrow> phase_step m m'"
| verified: "verifyEvidence current m = Inr m' \<Longrightarrow> phase_step m m'"
| terminated: "terminateRun d m = Inr m' \<Longrightarrow> phase_step m m'"

inductive_cases phase_stepE: "phase_step m m'"

inductive phase_reachable :: "loop_phase_machine \<Rightarrow> bool" where
  start: "phase_reachable newPhaseMachine"
| step: "phase_reachable m \<Longrightarrow> phase_step m m' \<Longrightarrow> phase_reachable m'"

lemma phase_invariant:
  assumes "phase_reachable m"
  shows "(pm_terminal m \<noteq> None \<longleftrightarrow> pm_phase m = phase_terminated)
     \<and> (\<forall>d. pm_terminal m = Some d \<longrightarrow> td_outcome d = run_success \<longrightarrow> d = completionDecision True)"
  using assms
  by (induction rule: phase_reachable.induct)
    (auto simp: newPhaseMachine_def signalCompletion_def verifyEvidence_def terminateRun_def terminateInternal_def completionDecision_def decision_def
      elim!: phase_stepE split: if_splits)

lemma terminated_stuck: "pm_phase m = phase_terminated \<Longrightarrow> \<not> phase_step m m'"
  by (auto simp: signalCompletion_def verifyEvidence_def terminateRun_def terminateInternal_def elim!: phase_stepE split: if_splits)

text \<open>
  Exactly one terminal decision: a reachable phase machine holds a decision exactly when it is terminated, a
  terminated machine refuses every further transition, and a success can only be the decision of the
  verification of the mandatory evidence.
\<close>
theorem loop_single_terminal:
  assumes "phase_reachable m"
  shows "(pm_terminal m \<noteq> None \<longleftrightarrow> pm_phase m = phase_terminated) \<and> (pm_phase m = phase_terminated \<longrightarrow> \<not> (\<exists>m'. phase_step m m'))
     \<and> (\<forall>d. pm_terminal m = Some d \<longrightarrow> td_outcome d = run_success \<longrightarrow> d = completionDecision True)"
  using phase_invariant [OF assms] terminated_stuck by blast

theorem loop_single_terminal_witness:
  "\<exists>m. phase_reachable m \<and> pm_terminal m = Some (completionDecision True) \<and> \<not> (\<exists>m'. phase_step m m')"
proof -
  let ?v = "\<lparr>pm_phase = phase_verifying, pm_terminal = None\<rparr>" and ?t = "\<lparr>pm_phase = phase_terminated, pm_terminal = Some (completionDecision True)\<rparr>"
  have "phase_step newPhaseMachine ?v" by (rule phase_step.signal) (simp add: signalCompletion_def newPhaseMachine_def)
  moreover have "phase_step ?v ?t" by (rule phase_step.verified [of True]) (simp add: verifyEvidence_def terminateInternal_def)
  ultimately have "phase_reachable ?t" by (meson phase_reachable.intros)
  then show ?thesis using loop_single_terminal [of ?t] by auto
qed

section \<open>Repeat detection\<close>

record normalized_tool_call =
  tc_tool :: string
  tc_parameters :: "(string \<times> json) list"
  tc_resource :: "string option"

definition actionFingerprint :: "host \<Rightarrow> normalized_tool_call \<Rightarrow> string result" where
  "actionFingerprint H call = contentDigest H (JObj
     [(''tool'', JStr (tc_tool call)), (''parameters'', JObj (tc_parameters call)),
      (''resource'', case tc_resource call of None \<Rightarrow> JNull | Some r \<Rightarrow> JStr r)])"

record repeat_observation =
  ro_fingerprint :: string
  ro_state_digest :: string
  ro_evidence_digest :: string

record repeat_detector =
  rdt_window :: rat
  rdt_limit :: rat
  rdt_observations :: "repeat_observation list"

record repeat_detection_result =
  rr_repeated :: bool
  rr_occurrences :: nat
  rr_fingerprint :: "string option"

definition newRepeatDetector :: "repeat_detection_policy \<Rightarrow> repeat_detector" where
  "newRepeatDetector policy = \<lparr>rdt_window = rd_window policy, rdt_limit = rd_identical_action_limit policy, rdt_observations = []\<rparr>"

text \<open>The last elements of a list that fit into the window; a window that is no integer cannot pass the policy check.\<close>

definition lastWindow :: "rat \<Rightarrow> 'a list \<Rightarrow> 'a list" where
  "lastWindow window xs = (if window < of_nat (length xs) then drop (length xs - nat \<lfloor>window\<rfloor>) xs else xs)"

definition observe :: "repeat_observation \<Rightarrow> repeat_detector \<Rightarrow> repeat_detection_result \<times> repeat_detector" where
  "observe observation detector =
     (let observations = lastWindow (rdt_window detector) (rdt_observations detector @ [observation]);
          occurrences = length (filter (\<lambda>candidate. candidate = observation) observations);
          repeated = (rdt_limit detector \<le> of_nat occurrences)
      in (\<lparr>rr_repeated = repeated, rr_occurrences = occurrences,
           rr_fingerprint = (if repeated then Some (ro_fingerprint observation) else None)\<rparr>,
          detector\<lparr>rdt_observations := observations\<rparr>))"

text \<open>A detector that has seen a history.\<close>

definition fedDetector :: "repeat_detection_policy \<Rightarrow> repeat_observation list \<Rightarrow> repeat_detector" where
  "fedDetector policy history = foldl (\<lambda>d o'. snd (observe o' d)) (newRepeatDetector policy) history"

lemma lastWindow_nat:
  assumes "isInteger window" "0 \<le> window"
  shows "lastWindow window xs = drop (length xs - nat \<lfloor>window\<rfloor>) xs"
proof -
  have "window < of_nat (length xs) \<longleftrightarrow> nat \<lfloor>window\<rfloor> < length xs"
    using assms by (metis floor_less_iff isInteger_def nat_less_iff of_int_of_nat_eq zero_le_floor)
  then show ?thesis by (simp add: lastWindow_def)
qed

lemma lastWindow_snoc:
  assumes "isInteger window" "1 \<le> window"
  shows "lastWindow window (lastWindow window xs @ [x]) = lastWindow window (xs @ [x])"
proof -
  let ?w = "nat \<lfloor>window\<rfloor>"
  have w: "1 \<le> ?w" using assms(2) by linarith
  have last: "lastWindow window ys = drop (length ys - ?w) ys" for ys :: "'a list" using assms by (simp add: lastWindow_nat)
  show ?thesis
  proof (cases "length xs \<le> ?w")
    case False
    then have "length xs + 1 - ?w = Suc (length xs - ?w)" "?w + 1 - ?w = 1" by simp_all
    then show ?thesis using False w by (simp add: last min_def drop_Suc tl_drop tl_append split: list.split)
  qed (simp add: last)
qed

lemma fedDetector_window:
  assumes "isInteger (rd_window policy)" "1 \<le> rd_window policy"
  shows "rdt_observations (fedDetector policy history) = lastWindow (rd_window policy) history"
    "rdt_window (fedDetector policy history) = rd_window policy" "rdt_limit (fedDetector policy history) = rd_identical_action_limit policy"
proof (induction history rule: rev_induct)
  case Nil
  show "rdt_observations (fedDetector policy []) = lastWindow (rd_window policy) []"
    "rdt_window (fedDetector policy []) = rd_window policy" "rdt_limit (fedDetector policy []) = rd_identical_action_limit policy"
    by (simp_all add: fedDetector_def newRepeatDetector_def lastWindow_def)
next
  case (snoc x history)
  show "rdt_observations (fedDetector policy (history @ [x])) = lastWindow (rd_window policy) (history @ [x])"
    "rdt_window (fedDetector policy (history @ [x])) = rd_window policy"
    "rdt_limit (fedDetector policy (history @ [x])) = rd_identical_action_limit policy"
    using snoc lastWindow_snoc [OF assms] by (simp_all add: fedDetector_def observe_def Let_def)
qed

lemma observe_exact:
  assumes "isInteger (rd_window policy)" "1 \<le> rd_window policy"
  shows "rr_repeated (fst (observe x (fedDetector policy history))) \<longleftrightarrow>
     rd_identical_action_limit policy \<le> of_nat (length (filter (\<lambda>y. y = x) (lastWindow (rd_window policy) (history @ [x]))))"
  by (simp add: observe_def Let_def fedDetector_window [OF assms] lastWindow_snoc [OF assms])

lemma lastWindow_length: "isInteger window \<Longrightarrow> 0 \<le> window \<Longrightarrow> length (lastWindow window xs) \<le> nat \<lfloor>window\<rfloor>"
  by (simp add: lastWindow_nat)

text \<open>
  C37. The detector implements its specification on the whole history: after any sequence of observations the next
  one is reported as repeated exactly when it occurs, with the same state and evidence, at least limit times
  among the last window observations. In particular a window shorter than the limit never reports.
\<close>
theorem repeat_detector_exact:
  assumes "isInteger (rd_window policy)" "1 \<le> rd_window policy"
  shows "(rr_repeated (fst (observe x (fedDetector policy history))) \<longleftrightarrow>
       rd_identical_action_limit policy \<le> of_nat (length (filter (\<lambda>y. y = x) (lastWindow (rd_window policy) (history @ [x])))))
     \<and> (rd_window policy < rd_identical_action_limit policy \<longrightarrow> \<not> rr_repeated (fst (observe x (fedDetector policy history))))"
proof -
  let ?last = "lastWindow (rd_window policy) (history @ [x])"
  have "length (filter (\<lambda>y. y = x) ?last) \<le> nat \<lfloor>rd_window policy\<rfloor>"
    using lastWindow_length [of "rd_window policy" "history @ [x]"] assms by (meson le_trans length_filter_le order_trans zero_le_one)
  then have "of_nat (length (filter (\<lambda>y. y = x) ?last)) \<le> rd_window policy" using assms by linarith
  then show ?thesis unfolding observe_exact [OF assms] by linarith
qed

theorem repeat_detector_exact_witness:
  "rr_repeated (fst (observe \<lparr>ro_fingerprint = ''f'', ro_state_digest = ''s'', ro_evidence_digest = ''e''\<rparr>
     (fedDetector repeatDefault [\<lparr>ro_fingerprint = ''f'', ro_state_digest = ''s'', ro_evidence_digest = ''e''\<rparr>])))"
  using repeat_detector_exact [of repeatDefault "\<lparr>ro_fingerprint = ''f'', ro_state_digest = ''s'', ro_evidence_digest = ''e''\<rparr>"
      "[\<lparr>ro_fingerprint = ''f'', ro_state_digest = ''s'', ro_evidence_digest = ''e''\<rparr>]"]
  by (simp add: repeatDefault_def lastWindow_def)

end
