(* ===== verification/Task_Envelope.thy ===== *)
theory Task_Envelope
  imports Loop_Policy
begin

text \<open>
  The contract of one managed run (\<^verbatim>\<open>runtime/src/loop/task-envelope.ts\<close>): its fields, the structural check, the
  digest and the builder. The lemma: a built envelope passes the check and is its own normal form, so building it
  again, from a stored copy, gives the same envelope under the same digest.
\<close>

datatype external_side_effect_policy = side_effect_forbidden | side_effect_approval_required | side_effect_allowed

fun sideEffectText :: "external_side_effect_policy \<Rightarrow> string" where
  "sideEffectText side_effect_forbidden = ''forbidden''"
| "sideEffectText side_effect_approval_required = ''approval_required''"
| "sideEffectText side_effect_allowed = ''allowed''"

datatype stale_input_behavior = stale_block | stale_recompile

fun staleInputText :: "stale_input_behavior \<Rightarrow> string" where
  "staleInputText stale_block = ''block''" | "staleInputText stale_recompile = ''recompile''"

record task_envelope =
  te_task_id :: string
  te_plan_id :: string
  te_iteration_id :: string
  te_repository_id :: string
  te_baseline_id :: string
  te_objective :: string
  te_expected_output :: string
  te_acceptance_criteria :: "string list"
  te_dependency_task_ids :: "string list"
  te_required_gate_ids :: "string list"
  te_input_node_revisions :: "(string \<times> rat) list"
  te_context_bundle_id :: string
  te_context_bundle_digest :: string
  te_protected_context_fields :: "string list"
  te_allowed_read_paths :: "string list"
  te_proposed_write_paths :: "string list"
  te_state_read_fields :: "string list"
  te_state_proposal_fields :: "string list"
  te_tools :: "granted_tool list"
  te_risk :: policy_risk
  te_required_approval_digests :: "string list"
  te_external_side_effect :: external_side_effect_policy
  te_idempotency_scope :: string
  te_loop_policy :: loop_policy
  te_baseline_commit :: string
  te_input_digest :: string
  te_stale_input_behavior :: stale_input_behavior
  te_digest :: string

definition isNonEmptyString :: "string \<Rightarrow> bool" where
  "isNonEmptyString s \<longleftrightarrow> s \<noteq> []"

definition isStringArray :: "string list \<Rightarrow> bool" where
  "isStringArray xs \<longleftrightarrow> list_all isNonEmptyString xs"

definition isGrantedToolArray :: "granted_tool list \<Rightarrow> bool" where
  "isGrantedToolArray tools \<longleftrightarrow> list_all (\<lambda>tool. isNonEmptyString (gt_name tool)) tools"

definition isNodeRevisionMap :: "(string \<times> rat) list \<Rightarrow> bool" where
  "isNodeRevisionMap revisions \<longleftrightarrow> list_all (\<lambda>(_, revision). isInteger revision \<and> 0 \<le> revision) revisions"

definition isTaskEnvelope :: "task_envelope \<Rightarrow> bool" where
  "isTaskEnvelope e \<longleftrightarrow>
     list_all isNonEmptyString [te_task_id e, te_plan_id e, te_iteration_id e, te_repository_id e, te_baseline_id e, te_objective e, te_expected_output e]
     \<and> list_all isStringArray [te_acceptance_criteria e, te_dependency_task_ids e, te_required_gate_ids e]
     \<and> isNodeRevisionMap (te_input_node_revisions e) \<and> isNonEmptyString (te_context_bundle_id e) \<and> digestPattern (te_context_bundle_digest e)
     \<and> list_all isStringArray [te_protected_context_fields e, te_allowed_read_paths e, te_proposed_write_paths e, te_state_read_fields e, te_state_proposal_fields e]
     \<and> isGrantedToolArray (te_tools e) \<and> list_all digestPattern (te_required_approval_digests e)
     \<and> isNonEmptyString (te_idempotency_scope e) \<and> isLoopPolicy (te_loop_policy e) \<and> isNonEmptyString (te_baseline_commit e)
     \<and> digestPattern (te_input_digest e) \<and> digestPattern (te_digest e)"

definition sealedLoopPolicyJson :: "loop_policy \<Rightarrow> json" where
  "sealedLoopPolicyJson p = (case loopPolicyJson p of JObj es \<Rightarrow> JObj (es @ [(''digest'', JStr (lp_digest p))]) | v \<Rightarrow> v)"

definition envelopeEntries :: "task_envelope \<Rightarrow> (string \<times> json) list" where
  "envelopeEntries e =
     [(''task_id'', JStr (te_task_id e)), (''plan_id'', JStr (te_plan_id e)), (''iteration_id'', JStr (te_iteration_id e)),
      (''repository_id'', JStr (te_repository_id e)), (''baseline_id'', JStr (te_baseline_id e)), (''objective'', JStr (te_objective e)),
      (''expected_output'', JStr (te_expected_output e)), (''acceptance_criteria'', stringsJson (te_acceptance_criteria e)),
      (''dependency_task_ids'', stringsJson (te_dependency_task_ids e)), (''required_gate_ids'', stringsJson (te_required_gate_ids e)),
      (''input_node_revisions'', JObj (map (map_prod id JNum) (te_input_node_revisions e))),
      (''context_bundle_id'', JStr (te_context_bundle_id e)), (''context_bundle_digest'', JStr (te_context_bundle_digest e)),
      (''protected_context_fields'', stringsJson (te_protected_context_fields e)), (''allowed_read_paths'', stringsJson (te_allowed_read_paths e)),
      (''proposed_write_paths'', stringsJson (te_proposed_write_paths e)), (''state_read_fields'', stringsJson (te_state_read_fields e)),
      (''state_proposal_fields'', stringsJson (te_state_proposal_fields e)), (''tools'', JArr (map grantedToolJson (te_tools e))),
      (''risk'', JStr (riskText (te_risk e))), (''required_approval_digests'', stringsJson (te_required_approval_digests e)),
      (''external_side_effect'', JStr (sideEffectText (te_external_side_effect e))), (''idempotency_scope'', JStr (te_idempotency_scope e)),
      (''loop_policy'', sealedLoopPolicyJson (te_loop_policy e)), (''baseline_commit'', JStr (te_baseline_commit e)),
      (''input_digest'', JStr (te_input_digest e)), (''stale_input_behavior'', JStr (staleInputText (te_stale_input_behavior e)))]"

definition envelopeDigest :: "host \<Rightarrow> task_envelope \<Rightarrow> string result" where
  "envelopeDigest H spec = contentDigest H (JObj (envelopeEntries spec))"

definition buildTaskEnvelope :: "host \<Rightarrow> task_envelope \<Rightarrow> task_envelope result" where
  "buildTaskEnvelope H spec =
     rbind (mapR (normalizeRepoRelativePath H) (te_allowed_read_paths spec)) (\<lambda>reads.
     rbind (mapR (normalizeRepoRelativePath H) (te_proposed_write_paths spec)) (\<lambda>writes.
     let normalized = spec\<lparr>te_allowed_read_paths := sort (dedupe reads), te_proposed_write_paths := sort (dedupe writes),
           te_tools := sort_key gt_name (te_tools spec)\<rparr>
     in rbind (envelopeDigest H normalized) (\<lambda>d.
        if isTaskEnvelope (normalized\<lparr>te_digest := d\<rparr>) then Inr (normalized\<lparr>te_digest := d\<rparr>)
        else Inl (LoopError invalid_task_envelope))))"

lemma buildTaskEnvelope_idempotent:
  assumes "nfcStable H" "buildTaskEnvelope H spec = Inr e"
  shows "isTaskEnvelope e \<and> buildTaskEnvelope H e = Inr e"
proof -
  obtain reads writes d where paths: "mapR (normalizeRepoRelativePath H) (te_allowed_read_paths spec) = Inr reads"
      "mapR (normalizeRepoRelativePath H) (te_proposed_write_paths spec) = Inr writes"
    and d: "envelopeDigest H (spec\<lparr>te_allowed_read_paths := sort (dedupe reads), te_proposed_write_paths := sort (dedupe writes),
        te_tools := sort_key gt_name (te_tools spec)\<rparr>) = Inr d"
    and e: "e = spec\<lparr>te_allowed_read_paths := sort (dedupe reads), te_proposed_write_paths := sort (dedupe writes),
        te_tools := sort_key gt_name (te_tools spec), te_digest := d\<rparr>" "isTaskEnvelope e"
    using assms(2) by (auto simp: buildTaskEnvelope_def Let_def rbind_Inr_iff split: if_splits)
  have canonical: "mapR (normalizeRepoRelativePath H) (sort (dedupe ys)) = Inr (sort (dedupe ys))"
    if built: "mapR (normalizeRepoRelativePath H) xs = Inr ys" for xs ys
  proof -
    have "normalizeRepoRelativePath H y = Inr y" if y: "y \<in> set ys" for y
    proof -
      obtain x where "normalizeRepoRelativePath H x = Inr y" using mapR_Inr_source [OF built y] by blast
      from nfcStable_normalized [OF assms(1) this] show ?thesis by (simp add: tryNormalizeRepoRelativePath_def split: sum.splits)
    qed
    then show ?thesis using mapR_total [of "sort (dedupe ys)" "normalizeRepoRelativePath H" id] by simp
  qed
  have "envelopeDigest H e = Inr d" using d by (simp add: e(1) envelopeDigest_def envelopeEntries_def)
  moreover have "te_allowed_read_paths e = sort (dedupe reads)" "te_proposed_write_paths e = sort (dedupe writes)" by (simp_all add: e(1))
  moreover have "e\<lparr>te_allowed_read_paths := sort (dedupe reads), te_proposed_write_paths := sort (dedupe writes),
      te_tools := sort_key gt_name (te_tools e)\<rparr> = e" "e\<lparr>te_digest := d\<rparr> = e"
    by (simp_all add: e(1) sort_key_id_if_sorted)
  ultimately show ?thesis using e(2) canonical [OF paths(1)] canonical [OF paths(2)]
    by (simp add: buildTaskEnvelope_def Let_def sorted_sort_id)
qed

end
