(* ===== verification/Tool_Secrets.thy ===== *)
theory Tool_Secrets
  imports Policy_Grant
begin

text \<open>
  References to secrets in the environment (\<^verbatim>\<open>runtime/src/secrets/environment-reference.ts\<close>): where a parameter tree
  holds references, how declared ones are resolved, and how resolved values are redacted. The lemmas: a
  redacted value holds no secret in any of its strings, a value without secrets is untouched, and every
  value in a resolved tree comes from a declared reference.
\<close>

section \<open>References\<close>

datatype secret_error_kind = invalid_secret_reference | undeclared_secret_parameter | unresolved_secret | secret_leak

definition SECRET_REFERENCE_KEY :: string where
  "SECRET_REFERENCE_KEY = ''$env''"

definition REDACTED_SECRET :: string where
  "REDACTED_SECRET = ''[redacted:secret]''"

definition secretNamePattern :: "string \<Rightarrow> bool" where
  "secretNamePattern s \<longleftrightarrow>
     (case s of [] \<Rightarrow> False
      | c # cs \<Rightarrow> isUpper c \<and> length cs \<le> 127 \<and> list_all (\<lambda>d. isUpper d \<or> isDigit d \<or> d = CHR ''_'') cs)"

text \<open>The name, when a value is exactly one reference.\<close>

fun secretReference :: "json \<Rightarrow> string option" where
  "secretReference (JObj [(key, JStr name)]) = (if key = SECRET_REFERENCE_KEY \<and> secretNamePattern name then Some name else None)"
| "secretReference v = None"

definition isSecretReference :: "json \<Rightarrow> bool" where
  "isSecretReference v \<longleftrightarrow> secretReference v \<noteq> None"

record reference_site =
  rs_path :: string
  rs_name :: string

fun collectReferences :: "host \<Rightarrow> json \<Rightarrow> string \<Rightarrow> reference_site list"
  and collectItems :: "host \<Rightarrow> nat \<Rightarrow> json list \<Rightarrow> string \<Rightarrow> reference_site list"
  and collectEntries :: "host \<Rightarrow> (string \<times> json) list \<Rightarrow> string \<Rightarrow> reference_site list" where
  "collectReferences H (JObj es) path =
     (case secretReference (JObj es) of
        Some name \<Rightarrow> [\<lparr>rs_path = path, rs_name = name\<rparr>]
      | None \<Rightarrow> collectEntries H es path)"
| "collectReferences H (JArr vs) path = collectItems H 0 vs path"
| "collectReferences H v path = []"
| "collectItems H i [] path = []"
| "collectItems H i (v # vs) path = collectReferences H v (path @ ''['' @ h_number H (of_nat i) @ '']'') @ collectItems H (Suc i) vs path"
| "collectEntries H [] path = []"
| "collectEntries H ((key, v) # es) path = collectReferences H v (path @ ''.'' @ key) @ collectEntries H es path"

definition findSecretReferences :: "host \<Rightarrow> (string \<times> json) list \<Rightarrow> reference_site list" where
  "findSecretReferences H parameters = collectReferences H (JObj parameters) []"

section \<open>Resolution\<close>

record resolved_secrets =
  sv_parameters :: json
  sv_values :: "(string, string) jmap"

text \<open>\<^verbatim>\<open>path.replace(/^\./u, "").split(/[.[]/u)[0]\<close>.\<close>

definition topLevelOf :: "string \<Rightarrow> string" where
  "topLevelOf path =
     takeWhile (\<lambda>c. c \<noteq> CHR ''.'' \<and> c \<noteq> CHR ''['') (case path of [] \<Rightarrow> [] | c # cs \<Rightarrow> if c = CHR ''.'' then cs else c # cs)"

definition resolveSite :: "string list \<Rightarrow> (string \<Rightarrow> string option) \<Rightarrow> (string, string) jmap \<Rightarrow> reference_site \<Rightarrow> secret_error_kind + (string, string) jmap" where
  "resolveSite declared env found site =
     (if \<not> List.member declared (topLevelOf (rs_path site)) then Inl undeclared_secret_parameter
      else case env (rs_name site) of
        None \<Rightarrow> Inl unresolved_secret
      | Some v \<Rightarrow> if v = [] then Inl unresolved_secret else Inr (jm_set (rs_name site) v found))"

fun resolveValue :: "(string, string) jmap \<Rightarrow> json \<Rightarrow> secret_error_kind + json"
  and resolveItems :: "(string, string) jmap \<Rightarrow> json list \<Rightarrow> secret_error_kind + json list"
  and resolveEntries :: "(string, string) jmap \<Rightarrow> (string \<times> json) list \<Rightarrow> secret_error_kind + (string \<times> json) list" where
  "resolveValue found (JObj es) =
     (case secretReference (JObj es) of
        Some name \<Rightarrow> (case jm_get found name of None \<Rightarrow> Inl invalid_secret_reference | Some v \<Rightarrow> Inr (JStr v))
      | None \<Rightarrow> rbind (resolveEntries found es) (\<lambda>es'. Inr (JObj es')))"
| "resolveValue found (JArr vs) = rbind (resolveItems found vs) (\<lambda>vs'. Inr (JArr vs'))"
| "resolveValue found v = Inr v"
| "resolveItems found [] = Inr []"
| "resolveItems found (v # vs) = rbind (resolveValue found v) (\<lambda>v'. rbind (resolveItems found vs) (\<lambda>vs'. Inr (v' # vs')))"
| "resolveEntries found [] = Inr []"
| "resolveEntries found ((key, v) # es) = rbind (resolveValue found v) (\<lambda>v'. rbind (resolveEntries found es) (\<lambda>es'. Inr ((key, v') # es')))"

definition resolveSecretParameters :: "host \<Rightarrow> (string \<times> json) list \<Rightarrow> string list \<Rightarrow> (string \<Rightarrow> string option) \<Rightarrow> secret_error_kind + resolved_secrets" where
  "resolveSecretParameters H parameters declared env =
     rbind (foldR (resolveSite declared env) [] (findSecretReferences H parameters)) (\<lambda>found.
     rbind (resolveValue found (JObj parameters)) (\<lambda>resolved.
     Inr \<lparr>sv_parameters = resolved, sv_values = found\<rparr>))"

section \<open>Redaction\<close>

fun stringIncludes :: "string \<Rightarrow> string \<Rightarrow> bool" where
  "stringIncludes [] t = (t = [])"
| "stringIncludes (c # s) t = (startsWith (c # s) t \<or> stringIncludes s t)"

fun containsSecret :: "json \<Rightarrow> (string, string) jmap \<Rightarrow> bool" where
  "containsSecret (JStr s) secrets = list_ex (\<lambda>secret. stringIncludes s (snd secret)) secrets"
| "containsSecret (JArr vs) secrets = list_ex (\<lambda>v. containsSecret v secrets) vs"
| "containsSecret (JObj es) secrets = list_ex (\<lambda>e. containsSecret (snd e) secrets) es"
| "containsSecret v secrets = False"

fun redactValue :: "json \<Rightarrow> (string, string) jmap \<Rightarrow> json" where
  "redactValue (JStr s) secrets = JStr (if containsSecret (JStr s) secrets then REDACTED_SECRET else s)"
| "redactValue (JArr vs) secrets = JArr (map (\<lambda>v. redactValue v secrets) vs)"
| "redactValue (JObj es) secrets = JObj (map (\<lambda>(key, v). (key, redactValue v secrets)) es)"
| "redactValue v secrets = v"

definition redactSecretValues :: "json \<Rightarrow> (string, string) jmap \<Rightarrow> json" where
  "redactSecretValues v secrets = (if secrets = [] then v else redactValue v secrets)"

definition assertNoSecretValues :: "json \<Rightarrow> (string, string) jmap \<Rightarrow> secret_error_kind + unit" where
  "assertNoSecretValues v secrets = rguard (\<not> containsSecret v secrets) secret_leak"

lemma containsSecret_none [simp]: "\<not> containsSecret v []"
  by (induction v) (auto simp: list_ex_iff)

lemma redactValue_clean:
  assumes "\<forall>secret \<in> set secrets. \<not> stringIncludes REDACTED_SECRET (snd secret)"
  shows "\<not> containsSecret (redactValue v secrets) secrets"
proof (induction v)
  case (JStr s)
  then show ?case using assms by (auto simp: list_ex_iff)
next
  case (JObj es)
  then show ?case by (fastforce simp: list_ex_iff)
qed (auto simp: list_ex_iff)

lemma redactValue_untouched: "\<not> containsSecret v secrets \<Longrightarrow> redactValue v secrets = v"
proof (induction v)
  case (JObj es)
  then show ?case by (fastforce simp: list_ex_iff intro!: map_idI)
qed (auto simp: list_ex_iff intro: map_idI)

lemma redact_clean:
  "\<forall>secret \<in> set secrets. \<not> stringIncludes REDACTED_SECRET (snd secret) \<Longrightarrow> assertNoSecretValues (redactSecretValues v secrets) secrets = Inr ()"
  using redactValue_clean [of secrets v] by (auto simp: redactSecretValues_def assertNoSecretValues_def rguard_def)

lemma redact_untouched: "\<not> containsSecret v secrets \<Longrightarrow> redactSecretValues v secrets = v"
  by (simp add: redactSecretValues_def redactValue_untouched)

text \<open>Keys are not strings of the value: a secret in a key survives.\<close>

lemma redact_keeps_keys:
  "redactSecretValues (JObj [(''hunter2'', JNull)]) [(''TOKEN'', ''hunter2'')] = JObj [(''hunter2'', JNull)]"
  by (simp add: redactSecretValues_def)

text \<open>
  An account of redaction that does not use the detector of the code: the string values inside a JSON value, and a
  secret as a contiguous part of one of them.
\<close>

fun stringValues :: "json \<Rightarrow> string list" where
  "stringValues (JStr s) = [s]"
| "stringValues (JArr vs) = concat (map stringValues vs)"
| "stringValues (JObj es) = concat (map (\<lambda>e. stringValues (snd e)) es)"
| "stringValues v = []"

lemma stringIncludes_iff: "stringIncludes s t \<longleftrightarrow> (\<exists>a b. s = a @ t @ b)"
proof (induction s)
  case (Cons c s)
  show ?case
  proof
    assume "stringIncludes (c # s) t"
    then show "\<exists>a b. c # s = a @ t @ b" using Cons by (metis append_Cons append_Nil startsWith_iff stringIncludes.simps(2))
  next
    assume "\<exists>a b. c # s = a @ t @ b"
    then obtain a b where ab: "c # s = a @ t @ b" by blast
    then have "startsWith (c # s) t \<or> (\<exists>a'. s = a' @ t @ b)" by (cases a) (auto simp: startsWith_iff)
    then show "stringIncludes (c # s) t" using Cons by auto
  qed
qed auto

lemma containsSecret_iff:
  "containsSecret v secrets \<longleftrightarrow> (\<exists>t \<in> set (stringValues v). \<exists>secret \<in> set secrets. \<exists>a b. t = a @ snd secret @ b)"
proof (induction v)
  case (JObj es)
  have "containsSecret (snd e) secrets \<longleftrightarrow> (\<exists>t \<in> set (stringValues (snd e)). \<exists>secret \<in> set secrets. \<exists>a b. t = a @ snd secret @ b)"
    if "e \<in> set es" for e by (rule JObj [OF that]) (cases e, simp)
  then show ?case by (auto simp: list_ex_iff)
qed (auto simp: list_ex_iff stringIncludes_iff)

section \<open>What resolution admits\<close>

lemma resolveSite_Inr:
  "resolveSite declared env found site = Inr found' \<longleftrightarrow>
     List.member declared (topLevelOf (rs_path site)) \<and> (\<exists>v. env (rs_name site) = Some v \<and> v \<noteq> [] \<and> found' = jm_set (rs_name site) v found)"
  by (auto simp: resolveSite_def split: option.splits)

lemma resolveSites:
  assumes "foldR (resolveSite declared env) found sites = Inr found'"
  shows "\<forall>site \<in> set sites. List.member declared (topLevelOf (rs_path site))"
    "\<forall>name. jm_get found' name = (if name \<in> rs_name ` set sites then env name else jm_get found name)"
    "\<forall>site \<in> set sites. \<exists>v. env (rs_name site) = Some v \<and> v \<noteq> []"
proof -
  have "(\<forall>site \<in> set sites. List.member declared (topLevelOf (rs_path site)) \<and> (\<exists>v. env (rs_name site) = Some v \<and> v \<noteq> []))
     \<and> (\<forall>name. jm_get found' name = (if name \<in> rs_name ` set sites then env name else jm_get found name))"
    using assms
  proof (induction sites arbitrary: found)
    case (Cons site sites)
    obtain v where v: "List.member declared (topLevelOf (rs_path site))" "env (rs_name site) = Some v" "v \<noteq> []"
      and rest: "foldR (resolveSite declared env) (jm_set (rs_name site) v found) sites = Inr found'"
      using Cons.prems by (auto simp: rbind_Inr_iff resolveSite_Inr)
    show ?case using Cons.IH [OF rest] v by auto
  qed simp
  then show "\<forall>site \<in> set sites. List.member declared (topLevelOf (rs_path site))"
    "\<forall>name. jm_get found' name = (if name \<in> rs_name ` set sites then env name else jm_get found name)"
    "\<forall>site \<in> set sites. \<exists>v. env (rs_name site) = Some v \<and> v \<noteq> []" by blast+
qed

lemma resolve_total:
  "rs_name ` set (collectReferences H v path) \<subseteq> dom (jm_get found) \<Longrightarrow> \<exists>v'. resolveValue found v = Inr v'"
  "rs_name ` set (collectItems H i vs path) \<subseteq> dom (jm_get found) \<Longrightarrow> \<exists>vs'. resolveItems found vs = Inr vs'"
  "rs_name ` set (collectEntries H es path) \<subseteq> dom (jm_get found) \<Longrightarrow> \<exists>es'. resolveEntries found es = Inr es' \<and> map fst es' = map fst es"
proof (induction H v path and H i vs path and H es path rule: collectReferences_collectItems_collectEntries.induct)
  case (1 H es path)
  then show ?case by (auto split: option.splits)
qed (auto simp: image_Un split: option.splits)

text \<open>
  Resolution succeeds exactly when every reference sits under a declared parameter (by the path text) and names a
  non-empty variable, and it then knows exactly the referenced values.
\<close>
lemma resolveSecretParameters_exact:
  "(\<exists>r. resolveSecretParameters H parameters declared env = Inr r) \<longleftrightarrow>
     (\<forall>site \<in> set (findSecretReferences H parameters). List.member declared (topLevelOf (rs_path site))
        \<and> (\<exists>v. env (rs_name site) = Some v \<and> v \<noteq> []))" (is "?ok \<longleftrightarrow> ?sites")
proof
  assume ?ok
  then show ?sites using resolveSites [of declared env "[]" "findSecretReferences H parameters"]
    by (auto simp: resolveSecretParameters_def rbind_Inr_iff)
next
  assume s: ?sites
  have "\<exists>found'. foldR (resolveSite declared env) found sites = Inr found'" if "set sites \<subseteq> set (findSecretReferences H parameters)" for sites found
    using that
  proof (induction sites arbitrary: found)
    case (Cons site sites)
    then obtain v where "resolveSite declared env found site = Inr (jm_set (rs_name site) v found)"
      using s by (fastforce simp: resolveSite_def)
    then show ?case using Cons by simp
  qed simp
  then obtain found where f: "foldR (resolveSite declared env) [] (findSecretReferences H parameters) = Inr found" by blast
  have "rs_name ` set (collectReferences H (JObj parameters) []) \<subseteq> dom (jm_get found)"
    using resolveSites(2,3) [OF f] by (fastforce simp: findSecretReferences_def)
  from resolve_total(1) [OF this] obtain v' where "resolveValue found (JObj parameters) = Inr v'" by blast
  then show ?ok using f by (simp add: resolveSecretParameters_def del: resolveValue.simps)
qed

text \<open>The known secrets are the values of the referenced variables, no more and no less.\<close>

lemma resolved_values:
  assumes "resolveSecretParameters H parameters declared env = Inr secrets"
  shows "\<forall>site \<in> set (findSecretReferences H parameters). \<forall>v. env (rs_name site) = Some v \<longrightarrow> (rs_name site, v) \<in> set (sv_values secrets)"
    "\<forall>(name, v) \<in> set (sv_values secrets). \<exists>site \<in> set (findSecretReferences H parameters). rs_name site = name \<and> env name = Some v"
proof -
  let ?sites = "findSecretReferences H parameters"
  have f: "foldR (resolveSite declared env) [] ?sites = Inr (sv_values secrets)"
    using assms by (auto simp: resolveSecretParameters_def rbind_Inr_iff)
  have get: "jm_get (sv_values secrets) name = (if name \<in> rs_name ` set ?sites then env name else None)" for name
    using resolveSites(2) [OF f] by simp
  have "distinct (map fst found')" if "foldR (resolveSite declared env) found sites = Inr found'" "distinct (map fst found)" for found found' sites
    using that
  proof (induction sites arbitrary: found)
    case (Cons site sites)
    then show ?case by (auto simp: rbind_Inr_iff resolveSite_Inr distinct_update)
  qed simp
  then have d: "distinct (map fst (sv_values secrets))" using f by fastforce
  show "\<forall>site \<in> set ?sites. \<forall>v. env (rs_name site) = Some v \<longrightarrow> (rs_name site, v) \<in> set (sv_values secrets)"
    using get by (auto intro!: map_of_SomeD)
  have "env name = Some v \<and> name \<in> rs_name ` set ?sites" if "(name, v) \<in> set (sv_values secrets)" for name v
    using map_of_is_SomeI [OF d that] get [of name] by (auto split: if_splits)
  then show "\<forall>(name, v) \<in> set (sv_values secrets). \<exists>site \<in> set ?sites. rs_name site = name \<and> env name = Some v" by fastforce
qed

text \<open>The path text is ambiguous: a parameter whose name holds a dot counts as declared with its first part.\<close>

lemma dotted_parameter_admitted:
  "\<exists>r. resolveSecretParameters exampleHost [(''token.other'', JObj [(''$env'', JStr ''KEY'')])] [''token''] (\<lambda>_. Some ''hunter2'') = Inr r"
proof -
  let ?ref = "JObj [(''$env'', JStr ''KEY'')]"
  have "secretReference ?ref = Some ''KEY''"
    by (simp add: SECRET_REFERENCE_KEY_def secretNamePattern_def char_class_defs less_eq_char_def)
  then have "findSecretReferences exampleHost [(''token.other'', ?ref)] = [\<lparr>rs_path = ''.token.other'', rs_name = ''KEY''\<rparr>]"
    by (simp add: findSecretReferences_def del: secretReference.simps(1))
  moreover have "topLevelOf ''.token.other'' = ''token''" by (simp add: topLevelOf_def)
  ultimately show ?thesis by (simp add: resolveSecretParameters_exact)
qed

end
