(* ===== verification/Tool_Definition.thy ===== *)
theory Tool_Definition
  imports Tool_Secrets
begin

text \<open>
  Tool descriptors (\<^verbatim>\<open>runtime/src/tools/definition.ts\<close>). A raw descriptor is a JSON value; an absent field is
  \<open>None\<close>. Version numbers are naturals (the source reads them as doubles, which agree below \<open>2 ^ 53\<close>). The
  lemmas: a normalised descriptor is well formed, and versions are totally ordered.
\<close>

section \<open>Errors\<close>

datatype tool_error_kind =
    tool_invalid_definition | tool_unknown_tool | tool_invalid_input | tool_invalid_output | tool_phase_not_allowed
  | tool_resource_not_allowed | tool_parameter_out_of_bounds | tool_grant_violation | tool_approval_required | tool_approval_invalid
  | tool_quota_exceeded | tool_idempotency_key_required | tool_invalid_intent_transition | tool_reconciliation_required
  | tool_timeout | tool_failed | tool_uncertain_result

text \<open>What an operation on tools throws: a tool error, a secret error, or an error of the code it calls.\<close>

datatype tool_throw = ToolError tool_error_kind | SecretError secret_error_kind | OtherError harness_error

definition fromHarness :: "'a result \<Rightarrow> tool_throw + 'a" where
  "fromHarness r = (case r of Inl e \<Rightarrow> Inl (OtherError e) | Inr x \<Rightarrow> Inr x)"

definition fromSecrets :: "secret_error_kind + 'a \<Rightarrow> tool_throw + 'a" where
  "fromSecrets r = (case r of Inl e \<Rightarrow> Inl (SecretError e) | Inr x \<Rightarrow> Inr x)"

lemma lifted_Inr [simp]: "fromHarness r = Inr x \<longleftrightarrow> r = Inr x" "fromSecrets q = Inr y \<longleftrightarrow> q = Inr y"
  by (auto simp: fromHarness_def fromSecrets_def split: sum.splits)

section \<open>Descriptors\<close>

datatype side_effect_class = effect_none | effect_repository | effect_external

fun sideEffectClassText :: "side_effect_class \<Rightarrow> string" where
  "sideEffectClassText effect_none = ''none''" | "sideEffectClassText effect_repository = ''repository''" | "sideEffectClassText effect_external = ''external''"

datatype retry_class = retry_none | retry_idempotent_only

fun retryClassText :: "retry_class \<Rightarrow> string" where
  "retryClassText retry_none = ''none''" | "retryClassText retry_idempotent_only = ''idempotent_only''"

datatype reconciliation_mode = reconcile_provider | reconcile_manual

fun reconciliationText :: "reconciliation_mode \<Rightarrow> string" where
  "reconciliationText reconcile_provider = ''provider''" | "reconciliationText reconcile_manual = ''manual''"

record tool_definition =
  df_name :: string
  df_version :: string
  df_description :: string
  df_input_schema :: json
  df_output_schema :: json
  df_allowed_phases :: "string list"
  df_resource_patterns :: "string list"
  df_parameter_bounds :: "(string \<times> json list) list"
  df_risk :: policy_risk
  df_side_effect_class :: side_effect_class
  df_requires_approval :: bool
  df_redacted_output_fields :: "string list"
  df_secret_parameters :: "string list"
  df_timeout_ms :: rat
  df_retry_class :: retry_class
  df_max_retries :: rat
  df_max_invocations_per_run :: rat
  df_idempotent :: bool
  df_reconciliation :: reconciliation_mode
  df_digest :: string

section \<open>Patterns\<close>

definition toolNamePattern :: "string \<Rightarrow> bool" where
  "toolNamePattern s \<longleftrightarrow>
     (case s of [] \<Rightarrow> False
      | c # cs \<Rightarrow> (isLower c \<or> isDigit c) \<and> length cs \<le> 127
          \<and> list_all (\<lambda>d. isLower d \<or> isDigit d \<or> d = CHR ''.'' \<or> d = CHR ''_'' \<or> d = CHR ''-'') cs)"

definition secretParameterPattern :: "string \<Rightarrow> bool" where
  "secretParameterPattern s \<longleftrightarrow>
     (case s of [] \<Rightarrow> False | c # cs \<Rightarrow> isAlpha c \<and> length cs \<le> 127 \<and> list_all (\<lambda>d. isAlpha d \<or> isDigit d \<or> d = CHR ''_'') cs)"

text \<open>\<^verbatim>\<open>0|[1-9][0-9]*\<close> and the optional tags \<^verbatim>\<open>-[0-9A-Za-z.-]+\<close>, \<^verbatim>\<open>+[0-9A-Za-z.-]+\<close>; a tag never holds a plus sign.\<close>

definition versionNumber :: "string \<Rightarrow> bool" where
  "versionNumber s \<longleftrightarrow> s = ''0'' \<or> (s \<noteq> [] \<and> list_all isDigit s \<and> hd s \<noteq> CHR ''0'')"

definition versionTag :: "string option \<Rightarrow> bool" where
  "versionTag tag \<longleftrightarrow>
     (case tag of None \<Rightarrow> True
      | Some s \<Rightarrow> s \<noteq> [] \<and> list_all (\<lambda>d. isAlpha d \<or> isDigit d \<or> d = CHR ''.'' \<or> d = CHR ''-'') s)"

definition toolVersionPattern :: "string \<Rightarrow> bool" where
  "toolVersionPattern s \<longleftrightarrow>
     (case cutAt CHR ''+'' s of (body, build) \<Rightarrow>
      case cutAt CHR ''-'' body of (triple, pre) \<Rightarrow>
        length (splitOn CHR ''.'' triple) = 3 \<and> list_all versionNumber (splitOn CHR ''.'' triple) \<and> versionTag pre \<and> versionTag build)"

section \<open>Normalisation\<close>

abbreviation invalidTool :: "tool_throw + 'a" where
  "invalidTool \<equiv> Inl (ToolError tool_invalid_definition)"

definition readChoice :: "('a \<Rightarrow> string) \<Rightarrow> 'a list \<Rightarrow> json option \<Rightarrow> tool_throw + 'a" where
  "readChoice text allowed v =
     (case v of
        Some (JStr s) \<Rightarrow> (case find (\<lambda>x. text x = s) allowed of Some x \<Rightarrow> Inr x | None \<Rightarrow> invalidTool)
      | _ \<Rightarrow> invalidTool)"

fun emptyEntry :: "json \<Rightarrow> bool" where
  "emptyEntry (JStr s) = (s = [])" | "emptyEntry v = True"

fun entryText :: "json \<Rightarrow> string" where
  "entryText (JStr s) = s" | "entryText v = []"

definition readStringArray :: "bool \<Rightarrow> json option \<Rightarrow> tool_throw + string list" where
  "readStringArray allowEmpty v =
     (case v of
        Some (JArr vs) \<Rightarrow>
          if list_ex emptyEntry vs then invalidTool
          else if \<not> allowEmpty \<and> vs = [] then invalidTool
          else Inr (sort (dedupe (map entryText vs)))
      | _ \<Rightarrow> invalidTool)"

definition readPositiveInteger :: "bool \<Rightarrow> json option \<Rightarrow> tool_throw + rat" where
  "readPositiveInteger allowZero v =
     (case v of
        Some (JNum n) \<Rightarrow> if isInteger n \<and> (if allowZero then 0 else 1) \<le> n then Inr n else invalidTool
      | _ \<Rightarrow> invalidTool)"

definition readSchema :: "json option \<Rightarrow> tool_throw + json" where
  "readSchema v = (case v of Some (JObj es) \<Rightarrow> Inr (JObj es) | _ \<Rightarrow> invalidTool)"

fun readBound :: "string \<times> json \<Rightarrow> tool_throw + (string \<times> json list)" where
  "readBound (key, JArr items) = (if items = [] \<or> \<not> list_all isScalar items then invalidTool else Inr (key, items))"
| "readBound (key, v) = invalidTool"

definition readParameterBounds :: "json option \<Rightarrow> tool_throw + (string \<times> json list) list" where
  "readParameterBounds v =
     (case v of None \<Rightarrow> Inr [] | Some (JObj es) \<Rightarrow> mapR readBound es | _ \<Rightarrow> invalidTool)"

text \<open>\<^verbatim>\<open>value ?? fallback\<close> on a field.\<close>

definition fieldOr :: "json \<Rightarrow> json option \<Rightarrow> json option" where
  "fieldOr fallback v = (case v of None \<Rightarrow> Some fallback | Some JNull \<Rightarrow> Some fallback | Some w \<Rightarrow> Some w)"

definition definitionEntries :: "tool_definition \<Rightarrow> (string \<times> json) list" where
  "definitionEntries d =
     [(''name'', JStr (df_name d)), (''version'', JStr (df_version d)), (''description'', JStr (df_description d)),
      (''input_schema'', df_input_schema d), (''output_schema'', df_output_schema d), (''allowed_phases'', stringsJson (df_allowed_phases d)),
      (''resource_patterns'', stringsJson (df_resource_patterns d)),
      (''parameter_bounds'', JObj (map (\<lambda>b. (fst b, JArr (snd b))) (df_parameter_bounds d))), (''risk'', JStr (riskText (df_risk d))),
      (''side_effect_class'', JStr (sideEffectClassText (df_side_effect_class d))), (''requires_approval'', JBool (df_requires_approval d)),
      (''redacted_output_fields'', stringsJson (df_redacted_output_fields d)), (''secret_parameters'', stringsJson (df_secret_parameters d)),
      (''timeout_ms'', JNum (df_timeout_ms d)), (''retry_class'', JStr (retryClassText (df_retry_class d))), (''max_retries'', JNum (df_max_retries d)),
      (''max_invocations_per_run'', JNum (df_max_invocations_per_run d)), (''idempotent'', JBool (df_idempotent d)),
      (''reconciliation'', JStr (reconciliationText (df_reconciliation d)))]"

text \<open>The checks of the name, the version and the description, and of the retry rules.\<close>

definition readNamed :: "(string \<Rightarrow> bool) \<Rightarrow> json option \<Rightarrow> tool_throw + string" where
  "readNamed ok v = (case v of Some (JStr s) \<Rightarrow> if ok s then Inr s else invalidTool | _ \<Rightarrow> invalidTool)"

definition normalizeToolDefinition :: "host \<Rightarrow> json \<Rightarrow> tool_throw + tool_definition" where
  "normalizeToolDefinition H raw =
     (case raw of JObj es \<Rightarrow>
        let field = map_of es in
        rbind (readNamed toolNamePattern (field ''name'')) (\<lambda>name.
        rbind (readNamed toolVersionPattern (field ''version'')) (\<lambda>version.
        rbind (readNamed (\<lambda>s. trim s \<noteq> []) (field ''description'')) (\<lambda>description.
        rbind (readChoice riskText POLICY_RISKS (field ''risk'')) (\<lambda>risk.
        rbind (readChoice sideEffectClassText [effect_none, effect_repository, effect_external] (field ''side_effect_class'')) (\<lambda>effect.
        rbind (readChoice retryClassText [retry_none, retry_idempotent_only] (field ''retry_class'')) (\<lambda>retry.
        rbind (readChoice reconciliationText [reconcile_provider, reconcile_manual] (field ''reconciliation'')) (\<lambda>reconciliation.
        let idempotent = (field ''idempotent'' = Some (JBool True)) in
        rbind (readPositiveInteger True (fieldOr (JNum 0) (field ''max_retries''))) (\<lambda>retries.
        if retry = retry_none \<and> retries \<noteq> 0 \<or> retry = retry_idempotent_only \<and> \<not> idempotent then invalidTool
        else
        rbind (readStringArray True (fieldOr (JArr []) (field ''secret_parameters''))) (\<lambda>secrets.
        if \<not> list_all secretParameterPattern secrets then invalidTool
        else
        rbind (readSchema (field ''input_schema'')) (\<lambda>input.
        rbind (readSchema (field ''output_schema'')) (\<lambda>out.
        rbind (readStringArray False (field ''allowed_phases'')) (\<lambda>phases.
        rbind (readStringArray True (fieldOr (JArr []) (field ''resource_patterns''))) (\<lambda>patterns.
        rbind (readParameterBounds (field ''parameter_bounds'')) (\<lambda>bounds.
        rbind (readStringArray True (fieldOr (JArr []) (field ''redacted_output_fields''))) (\<lambda>redacted.
        rbind (readPositiveInteger False (field ''timeout_ms'')) (\<lambda>timeout.
        rbind (readPositiveInteger False (field ''max_invocations_per_run'')) (\<lambda>quota.
        let d = \<lparr>df_name = name, df_version = version, df_description = description, df_input_schema = input, df_output_schema = out,
              df_allowed_phases = phases, df_resource_patterns = patterns, df_parameter_bounds = bounds, df_risk = risk,
              df_side_effect_class = effect, df_requires_approval = (field ''requires_approval'' = Some (JBool True)),
              df_redacted_output_fields = redacted, df_secret_parameters = secrets, df_timeout_ms = timeout, df_retry_class = retry,
              df_max_retries = retries, df_max_invocations_per_run = quota, df_idempotent = idempotent, df_reconciliation = reconciliation,
              df_digest = []\<rparr>
        in rbind (fromHarness (contentDigest H (JObj (definitionEntries d)))) (\<lambda>digest.
           Inr (d\<lparr>df_digest := digest\<rparr>)))))))))))))))))))
      | _ \<Rightarrow> invalidTool)"

section \<open>Well-formed descriptors\<close>

definition canonicalStrings :: "string list \<Rightarrow> bool" where
  "canonicalStrings xs \<longleftrightarrow> sorted xs \<and> distinct xs \<and> [] \<notin> set xs"

definition toolDefinitionOk :: "tool_definition \<Rightarrow> bool" where
  "toolDefinitionOk d \<longleftrightarrow> toolNamePattern (df_name d) \<and> toolVersionPattern (df_version d)
     \<and> canonicalStrings (df_allowed_phases d) \<and> df_allowed_phases d \<noteq> [] \<and> canonicalStrings (df_resource_patterns d)
     \<and> canonicalStrings (df_redacted_output_fields d) \<and> canonicalStrings (df_secret_parameters d) \<and> list_all secretParameterPattern (df_secret_parameters d)
     \<and> list_all (\<lambda>b. snd b \<noteq> [] \<and> list_all isScalar (snd b)) (df_parameter_bounds d)
     \<and> isInteger (df_timeout_ms d) \<and> 1 \<le> df_timeout_ms d \<and> isInteger (df_max_retries d) \<and> 0 \<le> df_max_retries d
     \<and> isInteger (df_max_invocations_per_run d) \<and> 1 \<le> df_max_invocations_per_run d
     \<and> (df_retry_class d = retry_none \<longrightarrow> df_max_retries d = 0) \<and> (df_retry_class d = retry_idempotent_only \<longrightarrow> df_idempotent d)"

lemma readStringArray_Inr:
  assumes "readStringArray allowEmpty v = Inr xs"
  shows "canonicalStrings xs" "\<not> allowEmpty \<Longrightarrow> xs \<noteq> []"
proof -
  obtain vs where v: "v = Some (JArr vs)" "\<not> list_ex emptyEntry vs" "allowEmpty \<or> vs \<noteq> []"
    and xs: "xs = sort (dedupe (map entryText vs))"
    using assms by (auto simp: readStringArray_def split: option.splits json.splits if_splits)
  have "entryText entry \<noteq> []" if "entry \<in> set vs" for entry
    using v(2) that by (cases entry) (auto simp: list_ex_iff)
  then show "canonicalStrings xs" by (force simp: xs canonicalStrings_def)
  have "set xs = entryText ` set vs" by (simp add: xs)
  then show "xs \<noteq> []" if "\<not> allowEmpty" using v(3) that by auto
qed

lemma readPositiveInteger_Inr:
  "readPositiveInteger allowZero v = Inr n \<Longrightarrow> isInteger n"
  "readPositiveInteger True v = Inr n \<Longrightarrow> 0 \<le> n"
  "readPositiveInteger False v = Inr n \<Longrightarrow> 1 \<le> n"
  by (auto simp: readPositiveInteger_def split: option.splits json.splits if_splits)

lemma readNamed_Inr: "readNamed ok v = Inr s \<Longrightarrow> ok s"
  by (auto simp: readNamed_def split: option.splits json.splits if_splits)

lemma readBound_Inr: "readBound e = Inr b \<Longrightarrow> snd b \<noteq> [] \<and> list_all isScalar (snd b)"
  by (cases e rule: readBound.cases) (auto split: if_splits)

lemma readParameterBounds_Inr: "readParameterBounds v = Inr bounds \<Longrightarrow> list_all (\<lambda>b. snd b \<noteq> [] \<and> list_all isScalar (snd b)) bounds"
  unfolding readParameterBounds_def list_all_iff
  by (fastforce split: option.splits json.splits dest: mapR_Inr_source readBound_Inr simp: list_all_iff)

lemma refused_Inr: "(if c then Inl e else r) = Inr x \<longleftrightarrow> \<not> c \<and> r = Inr x"
  by simp

lemma normalizeToolDefinition_ok:
  assumes "normalizeToolDefinition H raw = Inr d"
  shows "toolDefinitionOk d"
proof (cases raw)
  case (JObj es)
  show ?thesis
    using assms unfolding normalizeToolDefinition_def Let_def JObj
    by (clarsimp simp: rbind_Inr_iff refused_Inr)
      (simp add: toolDefinitionOk_def readNamed_Inr readStringArray_Inr readPositiveInteger_Inr readParameterBounds_Inr)
qed (use assms in \<open>simp_all add: normalizeToolDefinition_def\<close>)

section \<open>Versions\<close>

definition digitValue :: "char \<Rightarrow> nat" where
  "digitValue c = of_char c - 48"

text \<open>\<^verbatim>\<open>Number.parseInt(part, 10)\<close> on a part of a version.\<close>

definition parsePart :: "string \<Rightarrow> nat" where
  "parsePart s = foldl (\<lambda>n c. 10 * n + digitValue c) 0 (takeWhile isDigit s)"

definition versionParts :: "string \<Rightarrow> nat list" where
  "versionParts version = map parsePart (splitOn CHR ''.'' (fst (cutAt CHR ''-'' (fst (cutAt CHR ''+'' version)))))"

definition partAt :: "nat \<Rightarrow> string \<Rightarrow> int" where
  "partAt i version = (if i < length (versionParts version) then int (versionParts version ! i) else 0)"

definition compareParts :: "nat \<Rightarrow> string \<Rightarrow> string \<Rightarrow> int" where
  "compareParts i left right = partAt i left - partAt i right"

definition compareToolVersions :: "string \<Rightarrow> string \<Rightarrow> int" where
  "compareToolVersions = orElse (compareParts 0) (orElse (compareParts 1) (orElse (compareParts 2) codeUnitCompare))"

lemma consistent_parts: "consistent_comparator (compareParts i)"
  using consistent_key [OF consistent_difference, of "partAt i"] by (simp add: compareParts_def [abs_def])

interpretation versions: consistent_comparator compareToolVersions
  unfolding compareToolVersions_def
  by (intro consistent_orElse consistent_parts code_unit.consistent_comparator_axioms)

lemma compareToolVersions_separates: "compareToolVersions x y = 0 \<longleftrightarrow> x = y"
  by (auto simp: compareToolVersions_def orElse_def codeUnitCompare_def compareParts_def split: if_splits)

text \<open>A pre-release counts as newer than its release.\<close>

lemma prerelease_newer: "compareToolVersions ''1.0.0'' ''1.0.0-rc'' < 0"
  by code_simp

text \<open>A resource matches exactly, or by the prefix before a final star.\<close>

definition resourceMatchesPattern :: "string \<Rightarrow> string \<Rightarrow> bool" where
  "resourceMatchesPattern resource pattern =
     (if pattern \<noteq> [] \<and> last pattern = CHR ''*'' then startsWith resource (butlast pattern) else pattern = resource)"

definition resourceMatchesPatterns :: "string list \<Rightarrow> string \<Rightarrow> bool" where
  "resourceMatchesPatterns patterns resource \<longleftrightarrow> list_ex (resourceMatchesPattern resource) patterns"

end
