(* ===== verification/Tool_Registry.thy ===== *)
theory Tool_Registry
  imports Tool_Definition
begin

text \<open>
  The tool registry (\<^verbatim>\<open>runtime/src/tools/registry.ts\<close>): versioned descriptors with their validators and handlers, and
  the quota of each tool. Compiling a JSON schema is a parameter (\<open>None\<close> when it throws), a handler is a function on
  the state of the world. The lemmas: a registered descriptor never changes, a lookup without a version gives
  the highest one, and a tool is never admitted more often than its quota.
\<close>

datatype handler_outcome = handler_returned json | handler_threw string | handler_timed_out

type_synonym 'w tool_handler = "json \<Rightarrow> string option \<Rightarrow> 'w \<Rightarrow> handler_outcome \<times> 'w"

type_synonym schema_validator = "json \<Rightarrow> bool"

type_synonym schema_compiler = "json \<Rightarrow> schema_validator option"

record 'w registered_tool =
  rt_definition :: tool_definition
  rt_handler :: "'w tool_handler"
  rt_validateInput :: schema_validator
  rt_validateOutput :: schema_validator

record 'w tool_registry =
  tr_tools :: "(string, (string, 'w registered_tool) jmap) jmap"
  tr_invocations :: "(string, nat) jmap"

definition emptyRegistry :: "'w tool_registry" where
  "emptyRegistry = \<lparr>tr_tools = [], tr_invocations = []\<rparr>"

definition keyOf :: "string \<Rightarrow> string \<Rightarrow> string" where
  "keyOf name version = name @ ''@'' @ version"

definition toolKey :: "tool_definition \<Rightarrow> string" where
  "toolKey d = keyOf (df_name d) (df_version d)"

definition versionsOf :: "'w tool_registry \<Rightarrow> string \<Rightarrow> (string, 'w registered_tool) jmap" where
  "versionsOf registry name = (case jm_get (tr_tools registry) name of None \<Rightarrow> [] | Some versions \<Rightarrow> versions)"

definition registerTool :: "host \<Rightarrow> schema_compiler \<Rightarrow> 'w tool_registry \<Rightarrow> json \<Rightarrow> 'w tool_handler
    \<Rightarrow> tool_throw + (tool_definition \<times> 'w tool_registry)" where
  "registerTool H compile registry raw handler =
     rbind (normalizeToolDefinition H raw) (\<lambda>d.
     case (compile (df_input_schema d), compile (df_output_schema d)) of
       (Some validateInput, Some validateOutput) \<Rightarrow>
         let entry = \<lparr>rt_definition = d, rt_handler = handler, rt_validateInput = validateInput, rt_validateOutput = validateOutput\<rparr>;
             versions = versionsOf registry (df_name d)
         in (case jm_get versions (df_version d) of
               Some existing \<Rightarrow>
                 if df_digest (rt_definition existing) \<noteq> df_digest d then invalidTool
                 else Inr (rt_definition existing, registry)
             | None \<Rightarrow> Inr (d, registry\<lparr>tr_tools := jm_set (df_name d) (jm_set (df_version d) entry versions) (tr_tools registry)\<rparr>))
     | _ \<Rightarrow> invalidTool)"

definition getTool :: "'w tool_registry \<Rightarrow> string \<Rightarrow> string option \<Rightarrow> 'w registered_tool option" where
  "getTool registry name version =
     (case jm_get (tr_tools registry) name of
        None \<Rightarrow> None
      | Some versions \<Rightarrow>
          (case version of
             Some v \<Rightarrow> jm_get versions v
           | None \<Rightarrow>
               let ordered = sort_by compareToolVersions (map fst versions) in
               if ordered = [] then None else jm_get versions (last ordered)))"

definition compareDefinitions :: "tool_definition \<Rightarrow> tool_definition \<Rightarrow> int" where
  "compareDefinitions left right =
     (if df_name left = df_name right then compareToolVersions (df_version left) (df_version right)
      else if df_name left < df_name right then -1 else 1)"

definition listTools :: "'w tool_registry \<Rightarrow> tool_definition list" where
  "listTools registry = sort_by compareDefinitions (map rt_definition (concat (map (\<lambda>versions. map snd (snd versions)) (tr_tools registry))))"

definition invocationsOf :: "'w tool_registry \<Rightarrow> tool_definition \<Rightarrow> nat" where
  "invocationsOf registry d = (case jm_get (tr_invocations registry) (toolKey d) of None \<Rightarrow> 0 | Some n \<Rightarrow> n)"

definition quotaRemaining :: "'w tool_registry \<Rightarrow> tool_definition \<Rightarrow> rat" where
  "quotaRemaining registry d = df_max_invocations_per_run d - of_nat (invocationsOf registry d)"

definition consumeQuota :: "'w tool_registry \<Rightarrow> tool_definition \<Rightarrow> tool_throw + 'w tool_registry" where
  "consumeQuota registry d =
     (if quotaRemaining registry d \<le> 0 then Inl (ToolError tool_quota_exceeded)
      else Inr (registry\<lparr>tr_invocations := jm_set (toolKey d) (invocationsOf registry d + 1) (tr_invocations registry)\<rparr>))"

record tool_invocation_summary =
  is_tool :: string
  is_version :: string
  is_invocations :: nat
  is_quota :: rat

definition invocationSummaries :: "'w tool_registry \<Rightarrow> tool_invocation_summary list" where
  "invocationSummaries registry = map (\<lambda>d. \<lparr>is_tool = df_name d, is_version = df_version d,
     is_invocations = invocationsOf registry d, is_quota = df_max_invocations_per_run d\<rparr>) (listTools registry)"

section \<open>Lookup\<close>

lemma compareDefinitions_chain: "compareDefinitions =
    orElse (\<lambda>x y. codeUnitCompare (df_name x) (df_name y)) (\<lambda>x y. compareToolVersions (df_version x) (df_version y))"
  by (auto simp: fun_eq_iff compareDefinitions_def orElse_def codeUnitCompare_def)

interpretation definitions: consistent_comparator compareDefinitions
  unfolding compareDefinitions_chain
  by (rule consistent_orElse [OF consistent_key [OF code_unit.consistent_comparator_axioms] consistent_key [OF versions.consistent_comparator_axioms]])

lemma last_sort_by:
  assumes "xs \<noteq> []"
  shows "last (sort_by compareToolVersions xs) \<in> set xs" "x \<in> set xs \<Longrightarrow> compareToolVersions x (last (sort_by compareToolVersions xs)) \<le> 0"
proof -
  let ?ys = "sort_by compareToolVersions xs"
  have "mset ?ys = mset xs" by simp
  then have s: "set ?ys = set xs" "?ys \<noteq> []" using assms by (metis set_mset_mset, metis mset_zero_iff_right)
  show "last ?ys \<in> set xs" using s by (metis last_in_set)
  show "compareToolVersions x (last ?ys) \<le> 0" if "x \<in> set xs"
  proof (cases "x = last ?ys")
    case True
    then show ?thesis using versions.cmp_total by blast
  next
    case False
    have "?ys = butlast ?ys @ [last ?ys]" using s(2) by simp
    moreover have "x \<in> set (butlast ?ys)" using that s False by (metis in_set_butlast_appendI append_butlast_last_id rotate1.simps(2) set_ConsD set_rotate1)
    ultimately show ?thesis using versions.sorted_sort_by [of xs] by (metis (no_types, lifting) list.set_intros(1) sorted_wrt_append)
  qed
qed

text \<open>A lookup without a version gives a registered version that no registered version exceeds.\<close>

lemma getTool_highest:
  assumes "jm_get (tr_tools registry) name = Some versions" "versions \<noteq> []"
  shows "\<exists>v entry. getTool registry name None = Some entry \<and> jm_get versions v = Some entry
     \<and> (\<forall>u \<in> fst ` set versions. compareToolVersions u v \<le> 0)"
proof -
  let ?v = "last (sort_by compareToolVersions (map fst versions))"
  have ne: "map fst versions \<noteq> []" using assms(2) by simp
  have "?v \<in> fst ` set versions" using last_sort_by(1) [OF ne] by simp
  then obtain entry where e: "jm_get versions ?v = Some entry" by (metis map_of_eq_None_iff option.exhaust)
  have "sort_by compareToolVersions (map fst versions) \<noteq> []" using ne by (metis mset_sort_by mset_zero_iff_right)
  then have "getTool registry name None = Some entry" using assms(1) e by (simp add: getTool_def Let_def)
  then show ?thesis using e last_sort_by(2) [OF ne] by auto
qed

lemma getTool_version: "getTool registry name (Some v) = jm_get (versionsOf registry name) v"
  by (simp add: getTool_def versionsOf_def split: option.split)

lemma versionsOf_set [simp]: "versionsOf (registry\<lparr>tr_tools := jm_set n vs (tr_tools registry)\<rparr>) name = (if name = n then vs else versionsOf registry name)"
  by (simp add: versionsOf_def)

text \<open>Registration keeps every lookup by version.\<close>

lemma registerTool_keeps:
  assumes "registerTool H compile registry raw handler = Inr (d, registry')" "getTool registry name (Some v) = Some entry"
  shows "getTool registry' name (Some v) = Some entry"
proof -
  obtain f validateInput validateOutput where f: "normalizeToolDefinition H raw = Inr f"
      "compile (df_input_schema f) = Some validateInput" "compile (df_output_schema f) = Some validateOutput"
    using assms(1) by (auto simp: registerTool_def rbind_Inr_iff split: option.splits)
  have "registry' = registry \<or> (\<exists>(d :: tool_definition) e. jm_get (versionsOf registry (df_name d)) (df_version d) = None
      \<and> registry' = registry\<lparr>tr_tools := jm_set (df_name d) (jm_set (df_version d) e (versionsOf registry (df_name d))) (tr_tools registry)\<rparr>)"
  proof (cases "jm_get (versionsOf registry (df_name f)) (df_version f)")
    case None
    then have "registry' = registry\<lparr>tr_tools := jm_set (df_name f) (jm_set (df_version f)
        \<lparr>rt_definition = f, rt_handler = handler, rt_validateInput = validateInput, rt_validateOutput = validateOutput\<rparr>
        (versionsOf registry (df_name f))) (tr_tools registry)\<rparr>"
      using assms(1) f by (auto simp: registerTool_def Let_def)
    then show ?thesis using None by blast
  next
    case (Some existing)
    then show ?thesis using assms(1) f by (auto simp: registerTool_def Let_def split: if_splits)
  qed
  then show ?thesis using assms(2) by (auto simp: getTool_version)
qed

section \<open>Quotas\<close>

definition quotaKept :: "'w tool_registry \<Rightarrow> tool_definition \<Rightarrow> bool" where
  "quotaKept registry d \<longleftrightarrow> of_nat (invocationsOf registry d) \<le> df_max_invocations_per_run d"

lemma consumeQuota_Inr:
  assumes "consumeQuota registry d = Inr registry'"
  shows "tr_tools registry' = tr_tools registry" "invocationsOf registry' d = invocationsOf registry d + 1"
    "toolKey e \<noteq> toolKey d \<Longrightarrow> invocationsOf registry' e = invocationsOf registry e"
    "of_nat (invocationsOf registry d) < df_max_invocations_per_run d"
  using assms by (auto simp: consumeQuota_def invocationsOf_def quotaRemaining_def split: if_splits)

lemma consumeQuota_kept:
  assumes "consumeQuota registry d = Inr registry'" "isInteger (df_max_invocations_per_run d)"
  shows "quotaKept registry' d"
proof -
  obtain k where k: "df_max_invocations_per_run d = of_int k" using assms(2) unfolding isInteger_def by metis
  have "rat_of_int (int (invocationsOf registry d)) < of_int k" using consumeQuota_Inr(4) [OF assms(1)] k by simp
  then have "int (invocationsOf registry d) + 1 \<le> k" by (metis of_int_less_iff zless_imp_add1_zle)
  then have "rat_of_int (int (invocationsOf registry d) + 1) \<le> of_int k" by (simp only: of_int_le_iff)
  then show ?thesis using k consumeQuota_Inr(2) [OF assms(1)] by (simp add: quotaKept_def)
qed

end
