(* ===== verification/Tool_Intent.thy ===== *)
theory Tool_Intent
  imports Tool_Registry Working_State
begin

text \<open>
  The journal of external action intents (\<^verbatim>\<open>runtime/src/tools/action-intent.ts\<close>) and the reconciliation of unresolved
  ones (\<^verbatim>\<open>runtime/src/tools/reconciliation.ts\<close>). The lemmas: what each operation does to a lookup, that a completed
  intent is never reopened, and that only a proof of the provider allows a retry.
\<close>

section \<open>The journal\<close>

record action_intent_record =
  ai_intent_id :: string
  ai_tool :: string
  ai_request_digest :: string
  ai_resource :: "string option"
  ai_approval_digest :: "string option"
  ai_idempotency_key :: string
  ai_status :: external_action_status
  ai_result_digest :: "string option"

record open_intent_input =
  oi_intent_id :: string
  oi_tool :: string
  oi_request_digest :: string
  oi_resource :: "string option"
  oi_approval_digest :: "string option"
  oi_idempotency_key :: string

definition requestDigest :: "host \<Rightarrow> string \<Rightarrow> (string \<times> json) list \<Rightarrow> string option \<Rightarrow> string result" where
  "requestDigest H tool parameters resource = contentDigest H (JObj
     [(''tool'', JStr tool), (''parameters'', JObj parameters), (''resource'', orNull JStr resource)])"

definition transition :: "action_intent_record \<Rightarrow> external_action_status \<Rightarrow> string option \<Rightarrow> tool_throw + action_intent_record" where
  "transition intent status resultDigest =
     (if ai_status intent = action_pending \<and> (status = action_completed \<or> status = action_uncertain)
         \<or> ai_status intent = action_uncertain \<and> status = action_completed
      then Inr (intent\<lparr>ai_status := status, ai_result_digest := resultDigest\<rparr>)
      else Inl (ToolError tool_invalid_intent_transition))"

record intent_journal =
  ij_intents :: "(string, action_intent_record) jmap"
  ij_outputs :: "(string, json) jmap"

definition emptyJournal :: intent_journal where
  "emptyJournal = \<lparr>ij_intents = [], ij_outputs = []\<rparr>"

definition replaceIntent :: "intent_journal \<Rightarrow> action_intent_record \<Rightarrow> intent_journal" where
  "replaceIntent journal intent = journal\<lparr>ij_intents := jm_set (ai_intent_id intent) intent (ij_intents journal)\<rparr>"

definition restoreJournal :: "action_intent_record list \<Rightarrow> intent_journal" where
  "restoreJournal records = foldl replaceIntent emptyJournal records"

definition openIntent :: "intent_journal \<Rightarrow> open_intent_input \<Rightarrow> tool_throw + (action_intent_record \<times> intent_journal)" where
  "openIntent journal input =
     (if jm_get (ij_intents journal) (oi_intent_id input) \<noteq> None then Inl (ToolError tool_invalid_intent_transition)
      else let intent = \<lparr>ai_intent_id = oi_intent_id input, ai_tool = oi_tool input, ai_request_digest = oi_request_digest input,
               ai_resource = oi_resource input, ai_approval_digest = oi_approval_digest input,
               ai_idempotency_key = oi_idempotency_key input, ai_status = action_pending, ai_result_digest = None\<rparr>
           in Inr (intent, replaceIntent journal intent))"

definition moveIntent :: "intent_journal \<Rightarrow> action_intent_record \<Rightarrow> external_action_status \<Rightarrow> string option
    \<Rightarrow> tool_throw + (action_intent_record \<times> intent_journal)" where
  "moveIntent journal intent status resultDigest =
     rbind (transition intent status resultDigest) (\<lambda>moved. Inr (moved, replaceIntent journal moved))"

definition completeIntent :: "intent_journal \<Rightarrow> action_intent_record \<Rightarrow> string \<Rightarrow> tool_throw + (action_intent_record \<times> intent_journal)" where
  "completeIntent journal intent resultDigest = moveIntent journal intent action_completed (Some resultDigest)"

definition markUncertain :: "intent_journal \<Rightarrow> action_intent_record \<Rightarrow> tool_throw + (action_intent_record \<times> intent_journal)" where
  "markUncertain journal intent = moveIntent journal intent action_uncertain None"

definition markReconciledApplied :: "intent_journal \<Rightarrow> action_intent_record \<Rightarrow> tool_throw + (action_intent_record \<times> intent_journal)" where
  "markReconciledApplied journal intent = moveIntent journal intent action_completed None"

definition rememberOutput :: "intent_journal \<Rightarrow> string \<Rightarrow> json \<Rightarrow> intent_journal" where
  "rememberOutput journal intentId out = journal\<lparr>ij_outputs := jm_set intentId out (ij_outputs journal)\<rparr>"

definition outputOf :: "intent_journal \<Rightarrow> string \<Rightarrow> json option" where
  "outputOf journal intentId = jm_get (ij_outputs journal) intentId"

definition releaseForRetry :: "intent_journal \<Rightarrow> action_intent_record \<Rightarrow> tool_throw + intent_journal" where
  "releaseForRetry journal intent =
     (if ai_status intent = action_completed then Inl (ToolError tool_invalid_intent_transition)
      else Inr \<lparr>ij_intents = jm_del (ai_intent_id intent) (ij_intents journal), ij_outputs = jm_del (ai_intent_id intent) (ij_outputs journal)\<rparr>)"

definition getIntent :: "intent_journal \<Rightarrow> string \<Rightarrow> action_intent_record option" where
  "getIntent journal intentId = jm_get (ij_intents journal) intentId"

definition allIntents :: "intent_journal \<Rightarrow> action_intent_record list" where
  "allIntents journal = sort_key ai_intent_id (map snd (ij_intents journal))"

definition findByIdempotencyKey :: "intent_journal \<Rightarrow> string \<Rightarrow> string \<Rightarrow> action_intent_record option" where
  "findByIdempotencyKey journal tool key = find (\<lambda>intent. ai_tool intent = tool \<and> ai_idempotency_key intent = key) (allIntents journal)"

definition unresolvedIntents :: "intent_journal \<Rightarrow> action_intent_record list" where
  "unresolvedIntents journal = filter (\<lambda>intent. ai_status intent \<noteq> action_completed) (allIntents journal)"

definition workingStateIntents :: "intent_journal \<Rightarrow> external_action_intent list" where
  "workingStateIntents journal = map (\<lambda>intent. \<lparr>ei_intent_id = ai_intent_id intent, ei_tool = ai_tool intent,
     ei_request_digest = ai_request_digest intent, ei_idempotency_key = ai_idempotency_key intent, ei_status = ai_status intent\<rparr>) (allIntents journal)"

section \<open>Reconciliation\<close>

datatype probe_outcome = probe_applied | probe_not_applied | probe_unknown

datatype reconciliation_decision_kind = reuse_result | retry_allowed | manual_required

record reconciliation_decision =
  rc_intent_id :: string
  rc_tool :: string
  rc_idempotency_key :: string
  rc_decision :: reconciliation_decision_kind
  rc_reason :: string

definition decide :: "action_intent_record \<Rightarrow> reconciliation_decision_kind \<Rightarrow> string \<Rightarrow> reconciliation_decision" where
  "decide intent kind reason = \<lparr>rc_intent_id = ai_intent_id intent, rc_tool = ai_tool intent,
     rc_idempotency_key = ai_idempotency_key intent, rc_decision = kind, rc_reason = reason\<rparr>"

type_synonym 'w reconciliation_probe = "action_intent_record \<Rightarrow> 'w \<Rightarrow> (tool_throw + probe_outcome) \<times> 'w"

text \<open>\<^verbatim>\<open>intent.tool.split("@")\<close>: the name and, when there is one, the version.\<close>

definition intentTool :: "action_intent_record \<Rightarrow> string \<times> string option" where
  "intentTool intent = (case splitOn CHR ''@'' (ai_tool intent) of
     [] \<Rightarrow> ([], None) | [name] \<Rightarrow> (name, None) | name # version # _ \<Rightarrow> (name, Some version))"

definition reconcileIntent :: "action_intent_record \<Rightarrow> 'w tool_registry \<Rightarrow> 'w reconciliation_probe option \<Rightarrow> 'w
    \<Rightarrow> (tool_throw + reconciliation_decision) \<times> 'w" where
  "reconcileIntent intent registry probe w =
     (case getTool registry (fst (intentTool intent)) (snd (intentTool intent)) of
        None \<Rightarrow> (Inr (decide intent manual_required
          (''tool '' @ ai_tool intent @ '' is no longer registered; the intent cannot be reconciled automatically'')), w)
      | Some entry \<Rightarrow>
          if df_reconciliation (rt_definition entry) = reconcile_manual then
            (Inr (decide intent manual_required (''tool '' @ ai_tool intent @ '' declares manual reconciliation; human review is required'')), w)
          else case probe of
            None \<Rightarrow> (Inr (decide intent manual_required
              (''tool '' @ ai_tool intent @ '' offers no reconciliation probe; an uncertain external result is never retried blindly'')), w)
          | Some ask \<Rightarrow>
              (case ask intent w of
                 (Inl e, w') \<Rightarrow> (Inl e, w')
               | (Inr probe_applied, w') \<Rightarrow> (Inr (decide intent reuse_result (''provider proves the effect of intent '' @ ai_intent_id intent
                     @ '' applied; the side effect is reused, not replayed'')), w')
               | (Inr probe_not_applied, w') \<Rightarrow> (Inr (decide intent retry_allowed (''provider proves the effect of intent '' @ ai_intent_id intent
                     @ '' was not applied; retrying the idempotency key is safe'')), w')
               | (Inr probe_unknown, w') \<Rightarrow> (Inr (decide intent manual_required (''provider cannot prove the outcome of intent ''
                     @ ai_intent_id intent @ ''; human review is required'')), w')))"

fun reconcileIntents :: "action_intent_record list \<Rightarrow> 'w tool_registry \<Rightarrow> 'w reconciliation_probe option \<Rightarrow> 'w
    \<Rightarrow> (tool_throw + reconciliation_decision list) \<times> 'w" where
  "reconcileIntents [] registry probe w = (Inr [], w)"
| "reconcileIntents (intent # intents) registry probe w =
     (case reconcileIntent intent registry probe w of
        (Inl e, w') \<Rightarrow> (Inl e, w')
      | (Inr d, w') \<Rightarrow>
          (case reconcileIntents intents registry probe w' of
             (Inl e, w'') \<Rightarrow> (Inl e, w'')
           | (Inr ds, w'') \<Rightarrow> (Inr (d # ds), w'')))"

definition reconcileJournal :: "intent_journal \<Rightarrow> 'w tool_registry \<Rightarrow> 'w reconciliation_probe option \<Rightarrow> 'w
    \<Rightarrow> (tool_throw + reconciliation_decision list) \<times> 'w" where
  "reconcileJournal journal registry probe w = reconcileIntents (unresolvedIntents journal) registry probe w"

section \<open>What the operations do\<close>

text \<open>A journal is keyed by the ids of its intents.\<close>

definition keyedJournal :: "intent_journal \<Rightarrow> bool" where
  "keyedJournal journal \<longleftrightarrow> distinct (map fst (ij_intents journal)) \<and> (\<forall>(id', intent) \<in> set (ij_intents journal). ai_intent_id intent = id')"

lemma keyed_get: "keyedJournal journal \<Longrightarrow> getIntent journal id' = Some intent \<Longrightarrow> ai_intent_id intent = id'"
  by (auto simp: keyedJournal_def getIntent_def dest!: map_of_SomeD)

lemma set_allIntents: "set (allIntents journal) = snd ` set (ij_intents journal)"
  by (simp add: allIntents_def)

lemma keyed_member: "keyedJournal journal \<Longrightarrow> intent \<in> set (allIntents journal) \<longleftrightarrow> getIntent journal (ai_intent_id intent) = Some intent"
  by (force simp: keyedJournal_def getIntent_def set_allIntents image_iff dest: map_of_SomeD)

lemma set_update: "set (jm_set k v M) \<subseteq> insert (k, v) (set M)"
  by (induction M) auto

lemma set_delete: "set (jm_del k M) \<subseteq> set M"
  by (auto simp: AList.delete_eq)

lemma keyed_replace: "keyedJournal journal \<Longrightarrow> keyedJournal (replaceIntent journal intent)"
  using set_update [of "ai_intent_id intent" intent "ij_intents journal"] by (auto simp: keyedJournal_def replaceIntent_def distinct_update)

lemma get_replace [simp]:
  "getIntent (replaceIntent journal intent) id' = (if id' = ai_intent_id intent then Some intent else getIntent journal id')"
  by (simp add: getIntent_def replaceIntent_def)

lemma openIntent_Inr:
  assumes "openIntent journal input = Inr (intent, journal')"
  shows "getIntent journal (oi_intent_id input) = None" "journal' = replaceIntent journal intent" "ai_intent_id intent = oi_intent_id input"
    "ai_tool intent = oi_tool input" "ai_idempotency_key intent = oi_idempotency_key input" "ai_status intent = action_pending"
  using assms by (auto simp: openIntent_def Let_def getIntent_def split: if_splits)

lemma moveIntent_Inr:
  assumes "moveIntent journal intent status digest = Inr (moved, journal')"
  shows "journal' = replaceIntent journal moved" "moved = intent\<lparr>ai_status := status, ai_result_digest := digest\<rparr>" "ai_status intent \<noteq> action_completed"
  using assms by (auto simp: moveIntent_def rbind_Inr_iff transition_def split: if_splits)

lemma releaseForRetry_Inr:
  assumes "releaseForRetry journal intent = Inr journal'"
  shows "ai_status intent \<noteq> action_completed" "getIntent journal' id' = (if id' = ai_intent_id intent then None else getIntent journal id')"
    "keyedJournal journal \<Longrightarrow> keyedJournal journal'"
proof -
  have j: "ai_status intent \<noteq> action_completed" "ij_intents journal' = jm_del (ai_intent_id intent) (ij_intents journal)"
    using assms by (auto simp: releaseForRetry_def split: if_splits)
  show "ai_status intent \<noteq> action_completed" "getIntent journal' id' = (if id' = ai_intent_id intent then None else getIntent journal id')"
    using j by (simp_all add: getIntent_def)
  show "keyedJournal journal'" if "keyedJournal journal"
    using that j(2) set_delete [of "ai_intent_id intent" "ij_intents journal"] by (auto simp: keyedJournal_def distinct_delete)
qed

lemma find_key_Some:
  assumes "keyedJournal journal" "findByIdempotencyKey journal tool key = Some intent"
  shows "getIntent journal (ai_intent_id intent) = Some intent" "ai_tool intent = tool" "ai_idempotency_key intent = key"
  using assms(2) keyed_member [OF assms(1)] by (auto simp: findByIdempotencyKey_def find_Some_iff) (metis nth_mem)

lemma find_key_None:
  assumes "keyedJournal journal" "findByIdempotencyKey journal tool key = None" "getIntent journal id' = Some intent"
  shows "ai_tool intent \<noteq> tool \<or> ai_idempotency_key intent \<noteq> key"
proof -
  have "intent \<in> set (allIntents journal)" using keyed_member [OF assms(1), of intent] keyed_get [OF assms(1,3)] assms(3) by simp
  then show ?thesis using assms(2) by (auto simp: findByIdempotencyKey_def find_None_iff)
qed

text \<open>Restoring from the listed intents gives every lookup back; the cached outputs are gone.\<close>

lemma restore_get:
  assumes "keyedJournal journal"
  shows "getIntent (restoreJournal (allIntents journal)) id' = getIntent journal id'" "keyedJournal (restoreJournal (allIntents journal))"
proof -
  have fold: "keyedJournal (foldl replaceIntent J rs) \<and> (distinct (map ai_intent_id rs) \<longrightarrow>
      (\<forall>i. getIntent (foldl replaceIntent J rs) i = (case find (\<lambda>r. ai_intent_id r = i) rs of Some r \<Rightarrow> Some r | None \<Rightarrow> getIntent J i)))"
    if "keyedJournal J" for J rs
    using that
  proof (induction rs arbitrary: J)
    case (Cons r rs)
    have "find (\<lambda>x. ai_intent_id x = ai_intent_id r) rs = None" if "distinct (map ai_intent_id (r # rs))"
      using that by (simp add: find_None_iff image_iff) metis
    then show ?case using Cons.IH [OF keyed_replace [OF Cons.prems]] by (auto split: option.splits)
  qed simp
  have "keyedJournal emptyJournal" by (simp add: keyedJournal_def emptyJournal_def)
  note f = fold [OF this, of "allIntents journal"]
  then show "keyedJournal (restoreJournal (allIntents journal))" by (simp add: restoreJournal_def)
  have ids: "map ai_intent_id (map snd (ij_intents journal)) = map fst (ij_intents journal)" using assms by (auto simp: keyedJournal_def)
  have d: "distinct (map ai_intent_id (allIntents journal))"
  proof -
    have "mset (map ai_intent_id (allIntents journal)) = mset (map fst (ij_intents journal))" by (simp add: allIntents_def multiset.map_comp flip: ids)
    then show ?thesis using assms by (metis keyedJournal_def mset_eq_imp_distinct_iff)
  qed
  show "getIntent (restoreJournal (allIntents journal)) id' = getIntent journal id'"
  proof (cases "getIntent journal id'")
    case None
    then have "find (\<lambda>r. ai_intent_id r = id') (allIntents journal) = None" using keyed_member [OF assms] by (auto simp: find_None_iff)
    then show ?thesis using f d None by (simp add: restoreJournal_def getIntent_def emptyJournal_def)
  next
    case (Some r)
    have r: "r \<in> set (allIntents journal)" "ai_intent_id r = id'" using Some keyed_member [OF assms, of r] keyed_get [OF assms Some] by simp_all
    have "find (\<lambda>x. ai_intent_id x = id') (allIntents journal) = Some r"
    proof (cases "find (\<lambda>x. ai_intent_id x = id') (allIntents journal)")
      case None
      then show ?thesis using r by (auto simp: find_None_iff)
    next
      case (Some x)
      then have "x \<in> set (allIntents journal)" "ai_intent_id x = id'" by (auto simp: find_Some_iff)
      then have "x = r" using keyed_member [OF assms] \<open>getIntent journal id' = Some r\<close> by auto
      then show ?thesis using Some by simp
    qed
    then show ?thesis using f d Some by (simp add: restoreJournal_def)
  qed
qed

text \<open>Restoring any list of records: a lookup finds one of them under its id, and every id of the list is known.\<close>

lemma restore_known:
  shows "keyedJournal (restoreJournal records)"
    and "getIntent (restoreJournal records) x = Some i \<Longrightarrow> i \<in> set records"
    and "\<exists>r \<in> set records. ai_intent_id r = x \<Longrightarrow> getIntent (restoreJournal records) x \<noteq> None"
proof -
  have *: "keyedJournal (restoreJournal records) \<and> (\<forall>x i. getIntent (restoreJournal records) x = Some i \<longrightarrow> i \<in> set records)
    \<and> (\<forall>r \<in> set records. getIntent (restoreJournal records) (ai_intent_id r) \<noteq> None)"
  proof (induction records rule: rev_induct)
    case Nil
    show ?case by (simp add: restoreJournal_def emptyJournal_def keyedJournal_def getIntent_def)
  next
    case (snoc r rs)
    have "restoreJournal (rs @ [r]) = replaceIntent (restoreJournal rs) r" by (simp add: restoreJournal_def)
    then show ?case using snoc keyed_replace by auto
  qed
  then show "keyedJournal (restoreJournal records)" "getIntent (restoreJournal records) x = Some i \<Longrightarrow> i \<in> set records"
    "\<exists>r \<in> set records. ai_intent_id r = x \<Longrightarrow> getIntent (restoreJournal records) x \<noteq> None" by blast+
qed

text \<open>Only a probe that proves the effect absent allows a retry.\<close>

lemma reconcileIntent_retry:
  assumes "reconcileIntent intent registry probe w = (Inr d, w')" "rc_decision d = retry_allowed"
  shows "\<exists>ask. probe = Some ask \<and> ask intent w = (Inr probe_not_applied, w')"
  using assms by (auto simp: reconcileIntent_def decide_def split: option.splits if_splits prod.splits sum.splits probe_outcome.splits)

text \<open>Only a probe that proves the effect present closes an intent as applied.\<close>

lemma reconcileIntent_reuse:
  assumes "reconcileIntent intent registry probe w = (Inr d, w')" "rc_decision d = reuse_result"
  shows "\<exists>ask. probe = Some ask \<and> ask intent w = (Inr probe_applied, w')"
  using assms by (auto simp: reconcileIntent_def decide_def split: option.splits if_splits prod.splits sum.splits probe_outcome.splits)

end
