(* ===== verification/Tool_Invocation.thy ===== *)
theory Tool_Invocation
  imports Tool_Intent
begin

text \<open>
  The invocation of a tool (\<^verbatim>\<open>runtime/src/tools/invocation.ts\<close>): everything before the first call of the handler runs
  without interruption (\<open>prepareInvocation\<close>), each outcome of the handler is settled in one go (\<open>settleAttempt\<close>), and
  \<open>invokeTool\<close> joins them. A handler returns a JSON value, throws or times out; one that returns nothing returns
  \<open>JNull\<close>. Live observations and the heartbeat are telemetry and are left out, the assignment of
  \<^verbatim>\<open>__proto__\<close> too. The lemmas: a rejected call leaves the journal and the world alone, an external handler is called
  once, and a returned output holds no secret.
\<close>

section \<open>Requests and evidence\<close>

record tool_invocation_request =
  iv_intent_id :: string
  iv_tool :: string
  iv_version :: "string option"
  iv_phase :: string
  iv_resource :: "string option"
  iv_parameters :: "(string \<times> json) list"
  iv_approval_digest :: "string option"
  iv_idempotency_key :: "string option"

record tool_invocation_context =
  ic_grant :: "capability_grant option"
  ic_validateApproval :: "(string \<Rightarrow> string \<Rightarrow> bool) option"
  ic_env :: "string \<Rightarrow> string option"

record tool_invocation_evidence =
  tv_tool :: string
  tv_request_digest :: string
  tv_output :: json
  tv_output_digest :: string
  tv_attempts :: nat
  tv_redacted :: bool
  tv_replayed :: bool
  tv_intent :: "action_intent_record option"

section \<open>Checks before the call\<close>

abbreviation refuse :: "tool_error_kind \<Rightarrow> tool_throw + 'a" where
  "refuse kind \<equiv> Inl (ToolError kind)"

definition requireEntry :: "'w tool_registry \<Rightarrow> tool_invocation_request \<Rightarrow> tool_throw + 'w registered_tool" where
  "requireEntry registry request =
     (case getTool registry (iv_tool request) (iv_version request) of None \<Rightarrow> refuse tool_unknown_tool | Some entry \<Rightarrow> Inr entry)"

definition checkPhase :: "tool_definition \<Rightarrow> string \<Rightarrow> tool_throw + unit" where
  "checkPhase d phase = rguard (List.member (df_allowed_phases d) phase) (ToolError tool_phase_not_allowed)"

definition checkResource :: "tool_definition \<Rightarrow> string option \<Rightarrow> tool_throw + unit" where
  "checkResource d resource =
     rguard (if df_resource_patterns d = [] then resource = None
             else (case resource of None \<Rightarrow> False | Some r \<Rightarrow> resourceMatchesPatterns (df_resource_patterns d) r))
       (ToolError tool_resource_not_allowed)"

definition fieldValue :: "json \<Rightarrow> string \<Rightarrow> json option" where
  "fieldValue v key = (case v of JObj es \<Rightarrow> map_of es key | _ \<Rightarrow> None)"

definition checkParameterBounds :: "tool_definition \<Rightarrow> json \<Rightarrow> tool_throw + unit" where
  "checkParameterBounds d parameters =
     rguard (list_all (\<lambda>bound. case fieldValue parameters (fst bound) of
                None \<Rightarrow> True | Some v \<Rightarrow> isScalar v \<longrightarrow> List.member (snd bound) v) (df_parameter_bounds d))
       (ToolError tool_parameter_out_of_bounds)"

definition toolAction :: "tool_definition \<Rightarrow> tool_invocation_request \<Rightarrow> policy_action" where
  "toolAction d request = \<lparr>pa_kind = invoke_tool, pa_actor = ''harness'', pa_actor_kind = actor_harness, pa_origin = control_plane,
     pa_phase = iv_phase request, pa_resource = Some (df_name d), pa_parameters = iv_parameters request, pa_risk = df_risk d,
     pa_approval_digest = None, pa_control_profile = None\<rparr>"

definition checkGrant :: "host \<Rightarrow> tool_definition \<Rightarrow> tool_invocation_request \<Rightarrow> capability_grant option \<Rightarrow> tool_throw + unit" where
  "checkGrant H d request grant =
     rguard (case grant of None \<Rightarrow> True | Some g \<Rightarrow> grantDenialReason H g (toolAction d request) = None) (ToolError tool_grant_violation)"

definition checkApproval :: "tool_definition \<Rightarrow> tool_invocation_request \<Rightarrow> string \<Rightarrow> tool_invocation_context \<Rightarrow> tool_throw + unit" where
  "checkApproval d request digest ctx =
     (if \<not> df_requires_approval d then Inr ()
      else case iv_approval_digest request of
        None \<Rightarrow> refuse tool_approval_required
      | Some approval \<Rightarrow>
          rguard (case ic_validateApproval ctx of None \<Rightarrow> False
                  | Some valid \<Rightarrow> valid approval digest
                      \<and> (case ic_grant ctx of None \<Rightarrow> True | Some g \<Rightarrow> List.member (cg_approval_digests g) approval))
            (ToolError tool_approval_invalid))"

record 'w admitted =
  ad_entry :: "'w registered_tool"
  ad_secrets :: resolved_secrets
  ad_digest :: string

definition admitRequest :: "host \<Rightarrow> 'w tool_registry \<Rightarrow> tool_invocation_request \<Rightarrow> tool_invocation_context \<Rightarrow> tool_throw + 'w admitted" where
  "admitRequest H registry request ctx =
     rbind (requireEntry registry request) (\<lambda>entry.
     let d = rt_definition entry in
     rbind (fromSecrets (resolveSecretParameters H (iv_parameters request) (df_secret_parameters d) (ic_env ctx))) (\<lambda>secrets.
     rbind (fromHarness (requestDigest H (toolKey d) (iv_parameters request) (iv_resource request))) (\<lambda>digest.
     rbind (rguard (rt_validateInput entry (sv_parameters secrets)) (ToolError tool_invalid_input)) (\<lambda>_.
     rbind (checkPhase d (iv_phase request)) (\<lambda>_.
     rbind (checkResource d (iv_resource request)) (\<lambda>_.
     rbind (checkParameterBounds d (sv_parameters secrets)) (\<lambda>_.
     rbind (checkGrant H d request (ic_grant ctx)) (\<lambda>_.
     rbind (checkApproval d request digest ctx) (\<lambda>_.
     Inr \<lparr>ad_entry = entry, ad_secrets = secrets, ad_digest = digest\<rparr>)))))))))"

section \<open>Outputs\<close>

definition redactField :: "(string \<times> json) list \<times> bool \<Rightarrow> string \<Rightarrow> (string \<times> json) list \<times> bool" where
  "redactField clone field =
     (if List.member (map fst (fst clone)) field \<or> List.member objectPrototypeKeys field
      then (jm_set field (JStr ''[redacted]'') (fst clone), True) else clone)"

text \<open>\<^verbatim>\<open>scrubbed !== redacted\<close>: redaction rebuilds every array and object as soon as there is a secret.\<close>

definition scrubChanges :: "json \<Rightarrow> (string, string) jmap \<Rightarrow> bool" where
  "scrubChanges v secrets \<longleftrightarrow> secrets \<noteq> [] \<and>
     (case v of JArr _ \<Rightarrow> True | JObj _ \<Rightarrow> True | JStr s \<Rightarrow> redactSecretValues v secrets \<noteq> v | _ \<Rightarrow> False)"

definition redactOutput :: "tool_definition \<Rightarrow> json \<Rightarrow> (string, string) jmap \<Rightarrow> json \<times> bool" where
  "redactOutput d out secrets =
     (let (redacted, changed) = (case out of
            JObj es \<Rightarrow> (case foldl redactField (es, False) (df_redacted_output_fields d) of (es', changed) \<Rightarrow> (JObj es', changed))
          | v \<Rightarrow> (v, False))
      in (redactSecretValues redacted secrets, changed \<or> scrubChanges redacted secrets))"

definition evidenceOf :: "host \<Rightarrow> tool_definition \<Rightarrow> string \<Rightarrow> json \<Rightarrow> nat \<Rightarrow> bool \<Rightarrow> bool \<Rightarrow> action_intent_record option
    \<Rightarrow> tool_throw + tool_invocation_evidence" where
  "evidenceOf H d digest out attempts redacted replayed intent =
     rbind (fromHarness (contentDigest H out)) (\<lambda>output_digest.
     Inr \<lparr>tv_tool = toolKey d, tv_request_digest = digest, tv_output = out, tv_output_digest = output_digest, tv_attempts = attempts,
          tv_redacted = redacted, tv_replayed = replayed, tv_intent = intent\<rparr>)"

section \<open>Before the handler\<close>

record 'w pending_call =
  pc_entry :: "'w registered_tool"
  pc_request :: tool_invocation_request
  pc_secrets :: resolved_secrets
  pc_digest :: string
  pc_intent :: "action_intent_record option"

datatype 'w prepared = prepared_replay tool_invocation_evidence | prepared_call "'w pending_call"

definition isExternal :: "tool_definition \<Rightarrow> bool" where
  "isExternal d \<longleftrightarrow> df_side_effect_class d = effect_external"

text \<open>The external part: the key and the journal, a completed intent to replay, or an unresolved one that stops the call.\<close>

definition externalGate :: "host \<Rightarrow> tool_definition \<Rightarrow> tool_invocation_request \<Rightarrow> string \<Rightarrow> intent_journal option
    \<Rightarrow> tool_throw + (tool_invocation_evidence + (string \<times> intent_journal) option)" where
  "externalGate H d request digest journal =
     (if \<not> isExternal d then Inr (Inr None)
      else case iv_idempotency_key request of
        None \<Rightarrow> refuse tool_idempotency_key_required
      | Some key \<Rightarrow>
          if key = [] then refuse tool_idempotency_key_required
          else case journal of
            None \<Rightarrow> refuse tool_idempotency_key_required
          | Some j \<Rightarrow>
              (case findByIdempotencyKey j (toolKey d) key of
                 None \<Rightarrow> Inr (Inr (Some (key, j)))
               | Some existing \<Rightarrow>
                   if ai_status existing = action_completed then
                     rbind (evidenceOf H d digest (case outputOf j (ai_intent_id existing) of None \<Rightarrow> JNull | Some v \<Rightarrow> v) 0 False True (Some existing))
                       (\<lambda>evidence. Inr (Inl evidence))
                   else refuse tool_reconciliation_required))"

definition intentInput :: "tool_definition \<Rightarrow> tool_invocation_request \<Rightarrow> string \<Rightarrow> string \<Rightarrow> open_intent_input" where
  "intentInput d request digest key = \<lparr>oi_intent_id = iv_intent_id request, oi_tool = toolKey d, oi_request_digest = digest,
     oi_resource = iv_resource request, oi_approval_digest = iv_approval_digest request, oi_idempotency_key = key\<rparr>"

definition prepareInvocation :: "host \<Rightarrow> 'w tool_registry \<Rightarrow> tool_invocation_request \<Rightarrow> tool_invocation_context \<Rightarrow> intent_journal option
    \<Rightarrow> (tool_throw + 'w prepared) \<times> 'w tool_registry \<times> intent_journal option" where
  "prepareInvocation H registry request ctx journal =
     (case admitRequest H registry request ctx of
        Inl e \<Rightarrow> (Inl e, registry, journal)
      | Inr admitted \<Rightarrow>
          let d = rt_definition (ad_entry admitted) in
          (case externalGate H d request (ad_digest admitted) journal of
             Inl e \<Rightarrow> (Inl e, registry, journal)
           | Inr (Inl evidence) \<Rightarrow> (Inr (prepared_replay evidence), registry, journal)
           | Inr (Inr gate) \<Rightarrow>
               (case consumeQuota registry d of
                  Inl e \<Rightarrow> (Inl e, registry, journal)
                | Inr registry' \<Rightarrow>
                    let call = \<lparr>pc_entry = ad_entry admitted, pc_request = request, pc_secrets = ad_secrets admitted,
                          pc_digest = ad_digest admitted, pc_intent = None\<rparr>
                    in (case gate of
                          None \<Rightarrow> (Inr (prepared_call call), registry', journal)
                        | Some (key, j) \<Rightarrow>
                            (case openIntent j (intentInput d request (ad_digest admitted) key) of
                               Inl e \<Rightarrow> (Inl e, registry', journal)
                             | Inr (intent, j') \<Rightarrow> (Inr (prepared_call (call\<lparr>pc_intent := Some intent\<rparr>)), registry', Some j'))))))"

section \<open>After the handler\<close>

definition maxAttempts :: "tool_definition \<Rightarrow> rat" where
  "maxAttempts d = (if df_retry_class d \<noteq> retry_none then 1 + df_max_retries d else 1)"

definition mayRetry :: "tool_definition \<Rightarrow> nat \<Rightarrow> bool" where
  "mayRetry d attempts \<longleftrightarrow> df_retry_class d \<noteq> retry_none \<and> of_nat attempts < maxAttempts d"

type_synonym settled_attempt = "(tool_throw + tool_invocation_evidence) option \<times> intent_journal option"

text \<open>The \<^verbatim>\<open>catch\<close> of an attempt; \<open>None\<close> continues the loop.\<close>

definition failAttempt :: "tool_definition \<Rightarrow> action_intent_record option \<Rightarrow> nat \<Rightarrow> bool \<Rightarrow> intent_journal option \<Rightarrow> settled_attempt" where
  "failAttempt d intent attempts timedOut journal =
     (if isExternal d then
        (case (intent, journal) of
           (Some i, Some j) \<Rightarrow>
             (case markUncertain j i of
                Inl e \<Rightarrow> (Some (Inl e), journal)
              | Inr (_, j') \<Rightarrow> (Some (refuse tool_uncertain_result), Some j'))
         | _ \<Rightarrow> (Some (refuse tool_uncertain_result), journal))
      else if mayRetry d attempts then (None, journal)
      else (Some (refuse (if timedOut then tool_timeout else tool_failed)), journal))"

text \<open>Completing the intent of a call that has one, with the digest of a value.\<close>

definition closeIntent :: "host \<Rightarrow> action_intent_record option \<Rightarrow> json \<Rightarrow> intent_journal option
    \<Rightarrow> tool_throw + (action_intent_record option \<times> intent_journal option)" where
  "closeIntent H intent v journal =
     (case (intent, journal) of
        (Some i, Some j) \<Rightarrow>
          rbind (fromHarness (contentDigest H v)) (\<lambda>digest.
          rbind (completeIntent j i digest) (\<lambda>(done_intent, j'). Inr (Some done_intent, Some j')))
      | _ \<Rightarrow> Inr (None, journal))"

definition rememberClosed :: "action_intent_record option \<Rightarrow> json \<Rightarrow> intent_journal option \<Rightarrow> intent_journal option" where
  "rememberClosed done_intent out journal =
     (case (done_intent, journal) of (Some i, Some j) \<Rightarrow> Some (rememberOutput j (ai_intent_id i) out) | _ \<Rightarrow> journal)"

definition settleAttempt :: "host \<Rightarrow> 'w pending_call \<Rightarrow> nat \<Rightarrow> handler_outcome \<Rightarrow> intent_journal option \<Rightarrow> settled_attempt" where
  "settleAttempt H call attempts result journal =
     (let d = rt_definition (pc_entry call); intent = pc_intent call in
      case result of
        handler_timed_out \<Rightarrow> failAttempt d intent attempts True journal
      | handler_threw _ \<Rightarrow> failAttempt d intent attempts False journal
      | handler_returned raw \<Rightarrow>
          if \<not> rt_validateOutput (pc_entry call) raw then
            (case closeIntent H intent raw journal of
               Inl _ \<Rightarrow> failAttempt d intent attempts False journal
             | Inr (_, journal') \<Rightarrow> (Some (refuse tool_invalid_output), journal'))
          else
            (case redactOutput d raw (sv_values (pc_secrets call)) of (redacted, wasRedacted) \<Rightarrow>
             case closeIntent H intent redacted journal of
               Inl _ \<Rightarrow> failAttempt d intent attempts False journal
             | Inr (done_intent, journal') \<Rightarrow>
                 let journal'' = rememberClosed done_intent redacted journal' in
                 (case evidenceOf H d (pc_digest call) redacted attempts wasRedacted False done_intent of
                    Inl _ \<Rightarrow> failAttempt d intent attempts False journal''
                  | Inr evidence \<Rightarrow> (Some (Inr evidence), journal''))))"

section \<open>The invocation\<close>

lemma fail_retry: "failAttempt d intent attempts timedOut journal = (None, journal') \<Longrightarrow> mayRetry d attempts \<and> \<not> isExternal d \<and> journal' = journal"
  by (auto simp: failAttempt_def split: if_splits option.splits sum.splits prod.splits)

lemma settle_retry:
  assumes "settleAttempt H call attempts result journal = (None, journal')"
  shows "mayRetry (rt_definition (pc_entry call)) attempts \<and> \<not> isExternal (rt_definition (pc_entry call))"
  using assms by (auto simp: settleAttempt_def Let_def split: handler_outcome.splits if_splits sum.splits prod.splits dest: fail_retry)

function runAttempts :: "host \<Rightarrow> 'w pending_call \<Rightarrow> nat \<Rightarrow> intent_journal option \<Rightarrow> 'w
    \<Rightarrow> (tool_throw + tool_invocation_evidence) \<times> intent_journal option \<times> 'w" where
  "runAttempts H call attempts journal w =
     (case rt_handler (pc_entry call) (sv_parameters (pc_secrets call)) (iv_resource (pc_request call)) w of (result, w') \<Rightarrow>
      case settleAttempt H call (attempts + 1) result journal of
        (Some r, journal') \<Rightarrow> (r, journal', w')
      | (None, journal') \<Rightarrow> runAttempts H call (attempts + 1) journal' w')"
  by pat_completeness auto
termination
proof (relation "measure (\<lambda>(H, call, attempts, journal, w). nat \<lceil>maxAttempts (rt_definition (pc_entry call))\<rceil> - attempts)", goal_cases)
  case (2 H call attempts journal w result w' r journal')
  then have "mayRetry (rt_definition (pc_entry call)) (attempts + 1)" using settle_retry [of H call "attempts + 1" result journal journal'] by auto
  then have "rat_of_nat (attempts + 1) < maxAttempts (rt_definition (pc_entry call))" by (simp add: mayRetry_def)
  then have "attempts < nat \<lceil>maxAttempts (rt_definition (pc_entry call))\<rceil>" by linarith
  then show ?case by simp
qed simp

declare runAttempts.simps [simp del]

definition invokeTool :: "host \<Rightarrow> 'w tool_registry \<Rightarrow> tool_invocation_request \<Rightarrow> tool_invocation_context \<Rightarrow> intent_journal option \<Rightarrow> 'w
    \<Rightarrow> (tool_throw + tool_invocation_evidence) \<times> 'w tool_registry \<times> intent_journal option \<times> 'w" where
  "invokeTool H registry request ctx journal w =
     (case prepareInvocation H registry request ctx journal of
        (Inl e, registry', journal') \<Rightarrow> (Inl e, registry', journal', w)
      | (Inr (prepared_replay evidence), registry', journal') \<Rightarrow> (Inr evidence, registry', journal', w)
      | (Inr (prepared_call call), registry', journal') \<Rightarrow>
          (case runAttempts H call 0 journal' w of (r, journal'', w') \<Rightarrow> (r, registry', journal'', w')))"

end
