(* ===== verification/Loop_Controller.thy ===== *)
theory Loop_Controller
  imports Loop_Outcome Task_Envelope Tool_Invocation
begin

text \<open>
  The managed loop controller (\<^verbatim>\<open>runtime/src/loop/controller.ts\<close>). The clock, the token meter, the model, the tools,
  the verification and the cancellation flag are parameters: each takes the state of the outside world and
  returns its answer with the next state, so every run of the loop is one run of these functions. The clock,
  the meter and the flag answer; the model, the tools and the verification may throw. Values are immutable,
  so freezing has no counterpart, and the progress callback sees the recorded events. The message of a typed
  error is a parameter too.
\<close>

section \<open>Ports\<close>

datatype thrown = threw_tool_error tool_error_kind string | threw_other string

record partial_output =
  po_summary :: string
  po_evidence_ids :: "string list"

record model_proposal = working_state_proposal +
  mo_unknown_keys :: "string list"

datatype model_step_outcome =
    step_work "normalized_tool_call list option" "model_proposal option" "partial_output option"
  | step_complete "model_proposal option"

record loop_step_remaining =
  rem_steps :: rat
  rem_tokens :: rat
  rem_duration_ms :: rat

record loop_step_input =
  si_step :: nat
  si_envelope :: task_envelope
  si_state :: working_state
  si_grant :: capability_grant
  si_remaining :: loop_step_remaining

datatype loop_event_kind =
    event_step_started | event_tool_call string | event_tool_retried string nat | event_proposal_applied | event_grant_narrowed string
  | event_completion_signaled | event_terminated termination_reason

type_synonym loop_progress_event = "nat \<times> loop_event_kind"

record 'w loop_ports =
  lo_clock :: "'w \<Rightarrow> rat \<times> 'w"
  lo_usedTokens :: "'w \<Rightarrow> rat \<times> 'w"
  lo_step :: "loop_step_input \<Rightarrow> 'w \<Rightarrow> (string + model_step_outcome) \<times> 'w"
  lo_invokeTool :: "normalized_tool_call \<Rightarrow> capability_grant \<Rightarrow> 'w \<Rightarrow> (thrown + tool_invocation_evidence) \<times> 'w"
  lo_verify :: "'w \<Rightarrow> (string + bool) \<times> 'w"
  lo_isCancelled :: "'w \<Rightarrow> bool \<times> 'w"
  lo_message :: "harness_error \<Rightarrow> string"

record loop_state =
  ls_state :: working_state
  ls_grant :: capability_grant
  ls_used_steps :: nat
  ls_evidence :: "tool_invocation_evidence list"
  ls_evidence_digests :: "string list"
  ls_partial_outputs :: "partial_output list"
  ls_events :: "loop_progress_event list"
  ls_detector :: repeat_detector

record managed_loop_result =
  ml_decision :: terminal_decision
  ml_steps_executed :: nat
  ml_tokens_used :: rat
  ml_duration_ms :: rat
  ml_state :: working_state
  ml_grant :: capability_grant
  ml_evidence :: "tool_invocation_evidence list"
  ml_partial_outputs :: "partial_output list"
  ml_events :: "loop_progress_event list"

section \<open>Model proposals\<close>

text \<open>The keys a proposal carries that a model may not set.\<close>

definition forbiddenKeys :: "model_proposal \<Rightarrow> string list" where
  "forbiddenKeys p = mo_unknown_keys p @
     (if wp_set_requirement_baseline_digest p \<noteq> None then [''set_requirement_baseline_digest''] else []) @
     (if wp_set_context_bundle_digests p \<noteq> None then [''set_context_bundle_digests''] else []) @
     (if wp_budget_use p \<noteq> None then [''budget_use''] else [])"

definition applyModelProposal :: "host \<Rightarrow> working_state \<Rightarrow> model_proposal option \<Rightarrow> working_state result" where
  "applyModelProposal H state proposal =
     (case proposal of
        None \<Rightarrow> Inr state
      | Some p \<Rightarrow>
          if forbiddenKeys p \<noteq> [] then Inl (LoopError invalid_step_result)
          else applyWorkingStateProposal H state (working_state_proposal.truncate p))"

definition progressStateDigest :: "host \<Rightarrow> working_state \<Rightarrow> string result" where
  "progressStateDigest H state = contentDigest H (JObj (semanticEntries state))"

definition meteredUse :: "rat \<Rightarrow> working_state_proposal" where
  "meteredUse tokens = emptyProposal\<lparr>wp_budget_use := Some (Some 1, Some tokens)\<rparr>"

section \<open>Tool calls\<close>

definition emit :: "loop_event_kind \<Rightarrow> loop_state \<Rightarrow> loop_state" where
  "emit kind s = s\<lparr>ls_events := ls_events s @ [(ls_used_steps s, kind)]\<rparr>"

definition retryable :: "thrown \<Rightarrow> bool" where
  "retryable e \<longleftrightarrow> (case e of threw_tool_error kind _ \<Rightarrow> kind = tool_timeout \<or> kind = tool_failed | threw_other _ \<Rightarrow> False)"

function invokeWithRetry :: "'w loop_ports \<Rightarrow> rat \<Rightarrow> normalized_tool_call \<Rightarrow> nat \<Rightarrow> loop_state \<Rightarrow> 'w
    \<Rightarrow> (thrown + tool_invocation_evidence) \<times> loop_state \<times> 'w" where
  "invokeWithRetry ports retries call failures s w =
     (let attempts = failures + 1 in
      case lo_invokeTool ports call (ls_grant s) w of
        (Inr output, w') \<Rightarrow> (Inr output, emit (event_tool_call (tc_tool call)) s, w')
      | (Inl e, w') \<Rightarrow>
          if retryable e \<and> of_nat attempts \<le> retries
          then invokeWithRetry ports retries call attempts (emit (event_tool_retried (tc_tool call) attempts) s) w'
          else (Inl e, s, w'))"
  by pat_completeness auto
termination
proof (relation "measure (\<lambda>(ports, retries, call, failures, s, w). nat \<lceil>retries\<rceil> - failures)", goal_cases)
  case (2 ports retries call failures s w attempts x w' e)
  then have "rat_of_nat (failures + 1) \<le> retries" by simp
  then have "failures < nat \<lceil>retries\<rceil>" by linarith
  then show ?case using 2 by auto
qed simp

declare invokeWithRetry.simps [simp del]

definition toolFailureDecision :: "thrown \<Rightarrow> terminal_decision" where
  "toolFailureDecision e =
     (case e of
        threw_tool_error tool_timeout _ \<Rightarrow> timeoutDecision
      | threw_tool_error tool_failed message \<Rightarrow> adapterFailureDecision (''tool call failed: '' @ message)
      | threw_tool_error tool_uncertain_result message \<Rightarrow>
          decision run_partial ended_adapter_failure (''external action left uncertain and must be reconciled before retry: '' @ message)
      | threw_tool_error _ message \<Rightarrow> decision run_correct_block ended_policy_denial message
      | threw_other message \<Rightarrow> adapterFailureDecision message)"

text \<open>How a throw inside the work of a step ends the run: a budget ceiling of the working state, a rejected proposal,
  a tool failure, or another error.\<close>

datatype work_failure = failed_error harness_error | failed_tool thrown | failed_repeat string

definition workFailureDecision :: "'w loop_ports \<Rightarrow> work_failure \<Rightarrow> terminal_decision" where
  "workFailureDecision ports failure =
     (case failure of
        failed_error e \<Rightarrow>
          if e = WorkingStateError budget_ceiling then decision run_partial ended_budget_ceiling (lo_message ports e)
          else adapterFailureDecision (lo_message ports e)
      | failed_tool e \<Rightarrow> toolFailureDecision e
      | failed_repeat fingerprint \<Rightarrow> repeatDetectionDecision fingerprint)"

definition callObservation :: "host \<Rightarrow> normalized_tool_call \<Rightarrow> working_state \<Rightarrow> string list \<Rightarrow> repeat_observation result" where
  "callObservation H call state evidenceDigests =
     rbind (actionFingerprint H call) (\<lambda>fingerprint.
     rbind (progressStateDigest H state) (\<lambda>state_digest.
     rbind (contentDigest H (stringsJson (sort evidenceDigests))) (\<lambda>evidence_digest.
     Inr \<lparr>ro_fingerprint = fingerprint, ro_state_digest = state_digest, ro_evidence_digest = evidence_digest\<rparr>)))"

definition observeCall :: "host \<Rightarrow> normalized_tool_call \<Rightarrow> tool_invocation_evidence \<Rightarrow> loop_state \<Rightarrow> (work_failure + unit) \<times> loop_state" where
  "observeCall H call output s =
     (let s' = s\<lparr>ls_evidence := ls_evidence s @ [output], ls_evidence_digests := dedupe (ls_evidence_digests s @ [tv_output_digest output])\<rparr> in
      case callObservation H call (ls_state s') (ls_evidence_digests s') of
        Inl e \<Rightarrow> (Inl (failed_error e), s')
      | Inr observation \<Rightarrow>
          (case observe observation (ls_detector s') of (result, detector) \<Rightarrow>
             (if rr_repeated result then Inl (failed_repeat (case rr_fingerprint result of None \<Rightarrow> [] | Some f \<Rightarrow> f)) else Inr (),
              s'\<lparr>ls_detector := detector\<rparr>)))"

fun runToolCalls :: "host \<Rightarrow> 'w loop_ports \<Rightarrow> rat \<Rightarrow> normalized_tool_call list \<Rightarrow> loop_state \<Rightarrow> 'w
    \<Rightarrow> (work_failure + unit) \<times> loop_state \<times> 'w" where
  "runToolCalls H ports retries [] s w = (Inr (), s, w)"
| "runToolCalls H ports retries (call # calls) s w =
     (case invokeWithRetry ports retries call 0 s w of
        (Inl e, s', w') \<Rightarrow> (Inl (failed_tool e), s', w')
      | (Inr output, s', w') \<Rightarrow>
          (case observeCall H call output s' of
             (Inl failure, s'') \<Rightarrow> (Inl failure, s'', w')
           | (Inr _, s'') \<Rightarrow> runToolCalls H ports retries calls s'' w'))"

text \<open>The proposal and the metered use of a step.\<close>

definition accountStep :: "host \<Rightarrow> 'w loop_ports \<Rightarrow> rat \<Rightarrow> model_proposal option \<Rightarrow> partial_output option \<Rightarrow> loop_state \<Rightarrow> 'w
    \<Rightarrow> (work_failure + unit) \<times> loop_state \<times> 'w" where
  "accountStep H ports tokensBeforeStep proposal output s w =
     (case applyModelProposal H (ls_state s) proposal of
        Inl e \<Rightarrow> (Inl (failed_error e), s, w)
      | Inr state \<Rightarrow>
          let s' = emit event_proposal_applied (s\<lparr>ls_state := state,
                ls_partial_outputs := ls_partial_outputs s @ (case output of None \<Rightarrow> [] | Some p \<Rightarrow> [p])\<rparr>)
          in case lo_usedTokens ports w of (tokens, w') \<Rightarrow>
             (case applyWorkingStateProposal H (ls_state s') (meteredUse (tokens - tokensBeforeStep)) of
                Inl e \<Rightarrow> (Inl (failed_error e), s', w')
              | Inr metered \<Rightarrow> (Inr (), s'\<lparr>ls_state := metered\<rparr>, w')))"

definition narrowStep :: "host \<Rightarrow> loop_policy \<Rightarrow> rat \<Rightarrow> loop_state \<Rightarrow> loop_state result" where
  "narrowStep H policy spent s =
     (let grant = ls_grant s;
          budget = \<lparr>gb_steps = min (gb_steps (cg_budget grant)) (max 0 (lp_max_steps policy - of_nat (ls_used_steps s))),
                    gb_tokens = min (gb_tokens (cg_budget grant)) (max 0 (lp_max_tokens policy - spent))\<rparr>
      in rbind (narrowGrant H grant \<lparr>gn_capabilities = None, gn_read_paths = None, gn_write_paths = None, gn_state_fields = None,
                  gn_tools = None, gn_budget = Some budget\<rparr>) (\<lambda>narrowed.
         Inr (if cg_digest narrowed \<noteq> cg_digest grant then emit (event_grant_narrowed (cg_digest narrowed)) (s\<lparr>ls_grant := narrowed\<rparr>) else s)))"

section \<open>The loop\<close>

record loop_run =
  lr_start_ms :: rat
  lr_tokens_at_start :: rat

definition loopResult :: "'w loop_ports \<Rightarrow> loop_run \<Rightarrow> terminal_decision \<Rightarrow> loop_state \<Rightarrow> 'w \<Rightarrow> managed_loop_result \<times> 'w" where
  "loopResult ports run d s w =
     (case lo_usedTokens ports w of (tokens, w1) \<Rightarrow>
      case lo_clock ports w1 of (now, w2) \<Rightarrow>
        (\<lparr>ml_decision = d, ml_steps_executed = ls_used_steps s, ml_tokens_used = tokens - lr_tokens_at_start run,
          ml_duration_ms = now - lr_start_ms run, ml_state = ls_state s, ml_grant = ls_grant s, ml_evidence = ls_evidence s,
          ml_partial_outputs = ls_partial_outputs s, ml_events = ls_events s\<rparr>, w2))"

text \<open>\<^verbatim>\<open>finish\<close> emits the terminal event and builds the result; the completion path does the same after the phase
  machine has verified the evidence. The machine accepts each of these transitions (lemma \<open>finish_machine\<close>).\<close>

definition finish :: "'w loop_ports \<Rightarrow> loop_run \<Rightarrow> terminal_decision \<Rightarrow> loop_state \<Rightarrow> 'w \<Rightarrow> managed_loop_result \<times> 'w" where
  "finish ports run d s w = loopResult ports run d (emit (event_terminated (td_termination_reason d)) s) w"

text \<open>The ceilings, in the order the loop reads them: steps, tokens, duration.\<close>

definition ceilingReached :: "'w loop_ports \<Rightarrow> loop_policy \<Rightarrow> loop_run \<Rightarrow> loop_state \<Rightarrow> 'w \<Rightarrow> terminal_decision option \<times> 'w" where
  "ceilingReached ports policy run s w =
     (if lp_max_steps policy \<le> of_nat (ls_used_steps s) then (Some (budgetCeilingDecision ''steps''), w)
      else case lo_usedTokens ports w of (tokens, w1) \<Rightarrow>
        if lp_max_tokens policy \<le> tokens - lr_tokens_at_start run then (Some (budgetCeilingDecision ''tokens''), w1)
        else case lo_clock ports w1 of (now, w2) \<Rightarrow>
          if lp_max_duration_ms policy \<le> now - lr_start_ms run then (Some timeoutDecision, w2) else (None, w2))"

datatype 'w loop_control = loop_done "managed_loop_result \<times> 'w" | loop_again loop_state 'w

definition completeRun :: "host \<Rightarrow> task_envelope \<Rightarrow> 'w loop_ports \<Rightarrow> loop_run \<Rightarrow> model_proposal option \<Rightarrow> loop_state \<Rightarrow> 'w
    \<Rightarrow> managed_loop_result \<times> 'w" where
  "completeRun H envelope ports run proposal s w =
     (case applyModelProposal H (ls_state s) proposal of
        Inl e \<Rightarrow> finish ports run (adapterFailureDecision (lo_message ports e)) s w
      | Inr state \<Rightarrow>
          let s' = emit event_completion_signaled (s\<lparr>ls_state := state\<rparr>) in
          if tp_require_external_verification (lp_termination (te_loop_policy envelope))
          then (case lo_verify ports w of
                  (Inl message, w') \<Rightarrow> finish ports run (adapterFailureDecision (''loop aborted: '' @ message)) s' w'
                | (Inr verified, w') \<Rightarrow> finish ports run (completionDecision verified) s' w')
          else finish ports run (completionDecision True) s' w)"

definition workStep :: "host \<Rightarrow> task_envelope \<Rightarrow> 'w loop_ports \<Rightarrow> loop_run \<Rightarrow> rat \<Rightarrow> normalized_tool_call list option \<Rightarrow> model_proposal option
    \<Rightarrow> partial_output option \<Rightarrow> loop_state \<Rightarrow> 'w \<Rightarrow> 'w loop_control" where
  "workStep H envelope ports run tokensBeforeStep calls proposal output s w =
     (let policy = te_loop_policy envelope in
      case runToolCalls H ports (lp_max_tool_retries policy) (orList calls) s w of
        (Inl failure, s1, w1) \<Rightarrow> loop_done (finish ports run (workFailureDecision ports failure) s1 w1)
      | (Inr _, s1, w1) \<Rightarrow>
          (case accountStep H ports tokensBeforeStep proposal output s1 w1 of
             (Inl failure, s2, w2) \<Rightarrow> loop_done (finish ports run (workFailureDecision ports failure) s2 w2)
           | (Inr _, s2, w2) \<Rightarrow>
               (case lo_usedTokens ports w2 of (tokens, w3) \<Rightarrow>
                case narrowStep H policy (tokens - lr_tokens_at_start run) s2 of
                  Inl e \<Rightarrow> loop_done (finish ports run (adapterFailureDecision (''loop aborted: '' @ lo_message ports e)) s2 w3)
                | Inr s3 \<Rightarrow>
                    if tp_budget_ceiling (lp_termination policy) = ceiling_hard then loop_again s3 w3
                    else case ceilingReached ports policy run s3 w3 of
                      (Some d, w4) \<Rightarrow> loop_done (finish ports run d s3 w4)
                    | (None, w4) \<Rightarrow> loop_again s3 w4)))"

definition takeStep :: "host \<Rightarrow> task_envelope \<Rightarrow> 'w loop_ports \<Rightarrow> loop_run \<Rightarrow> loop_state \<Rightarrow> 'w \<Rightarrow> 'w loop_control" where
  "takeStep H envelope ports run s w =
     (let policy = te_loop_policy envelope; used = ls_used_steps s + 1 in
      case lo_usedTokens ports w of (tokensBeforeStep, w1) \<Rightarrow>
      let s1 = emit event_step_started (s\<lparr>ls_used_steps := used\<rparr>) in
      case lo_clock ports w1 of (now, w2) \<Rightarrow>
      case lo_step ports \<lparr>si_step = used, si_envelope = envelope, si_state = ls_state s1, si_grant = ls_grant s1,
             si_remaining = \<lparr>rem_steps = max 0 (lp_max_steps policy - of_nat used),
               rem_tokens = max 0 (lp_max_tokens policy - (tokensBeforeStep - lr_tokens_at_start run)),
               rem_duration_ms = max 0 (lp_max_duration_ms policy - (now - lr_start_ms run))\<rparr>\<rparr> w2 of
        (Inl message, w3) \<Rightarrow> loop_done (finish ports run (adapterFailureDecision (''model step failed: '' @ message)) s1 w3)
      | (Inr (step_complete proposal), w3) \<Rightarrow> loop_done (completeRun H envelope ports run proposal s1 w3)
      | (Inr (step_work calls proposal output), w3) \<Rightarrow> workStep H envelope ports run tokensBeforeStep calls proposal output s1 w3)"

definition loopIteration :: "host \<Rightarrow> task_envelope \<Rightarrow> 'w loop_ports \<Rightarrow> loop_run \<Rightarrow> loop_state \<Rightarrow> 'w \<Rightarrow> 'w loop_control" where
  "loopIteration H envelope ports run s w =
     (let policy = te_loop_policy envelope in
      case lo_isCancelled ports w of
        (True, w1) \<Rightarrow> loop_done (finish ports run cancellationDecision s w1)
      | (False, w1) \<Rightarrow>
          if tp_budget_ceiling (lp_termination policy) = ceiling_hard
          then (case ceilingReached ports policy run s w1 of
                  (Some d, w2) \<Rightarrow> loop_done (finish ports run d s w2)
                | (None, w2) \<Rightarrow> takeStep H envelope ports run s w2)
          else takeStep H envelope ports run s w1)"

lemma finish_machine:
  "td_outcome d \<noteq> run_success \<Longrightarrow> terminateRun d newPhaseMachine = Inr \<lparr>pm_phase = phase_terminated, pm_terminal = Some d\<rparr>"
  "rbind (signalCompletion newPhaseMachine) (verifyEvidence verified) = Inr \<lparr>pm_phase = phase_terminated, pm_terminal = Some (completionDecision verified)\<rparr>"
  "td_outcome d \<noteq> run_success \<Longrightarrow> rbind (signalCompletion newPhaseMachine) (terminateRun d) = Inr \<lparr>pm_phase = phase_terminated, pm_terminal = Some d\<rparr>"
  by (simp_all add: terminateRun_def terminateInternal_def newPhaseMachine_def signalCompletion_def verifyEvidence_def)

section \<open>What each part of a step changes\<close>

definition quiet :: "loop_progress_event list \<Rightarrow> bool" where
  "quiet evs \<longleftrightarrow> list_all (\<lambda>e. case snd e of event_terminated _ \<Rightarrow> False | event_step_started \<Rightarrow> False | _ \<Rightarrow> True) evs"

lemma emit_simps [simp]:
  "ls_state (emit k s) = ls_state s" "ls_grant (emit k s) = ls_grant s" "ls_used_steps (emit k s) = ls_used_steps s"
  "ls_evidence (emit k s) = ls_evidence s" "ls_evidence_digests (emit k s) = ls_evidence_digests s"
  "ls_partial_outputs (emit k s) = ls_partial_outputs s" "ls_detector (emit k s) = ls_detector s"
  "ls_events (emit k s) = ls_events s @ [(ls_used_steps s, k)]"
  by (simp_all add: emit_def)

lemma quiet_simps [simp]: "quiet []" "quiet (xs @ ys) \<longleftrightarrow> quiet xs \<and> quiet ys"
  by (simp_all add: quiet_def)

text \<open>Same step count, same grant, same working state, and only events that neither start a step nor end the run.\<close>

definition working :: "loop_state \<Rightarrow> loop_state \<Rightarrow> bool" where
  "working s s' \<longleftrightarrow> ls_used_steps s' = ls_used_steps s \<and> ls_grant s' = ls_grant s \<and> (\<exists>evs. ls_events s' = ls_events s @ evs \<and> quiet evs)"

lemma working_refl: "working s s"
  by (auto simp: working_def intro: exI [of _ "[]"])

lemma working_trans: "working s t \<Longrightarrow> working t u \<Longrightarrow> working s u"
  by (auto simp: working_def)

lemma working_emit: "working s t \<Longrightarrow> quiet [(0, k)] \<Longrightarrow> working s (emit k t)"
  by (auto simp: working_def quiet_def)

lemma invoke_frame:
  "working s (fst (snd (invokeWithRetry ports retries call n s w))) \<and> ls_state (fst (snd (invokeWithRetry ports retries call n s w))) = ls_state s"
proof (induction ports retries call n s w rule: invokeWithRetry.induct)
  case (1 ports retries call failures s w)
  show ?case
  proof (cases "lo_invokeTool ports call (ls_grant s) w")
    case (Pair r w')
    show ?thesis
    proof (cases r)
      case (Inl e)
      note ih = "1.IH" [OF refl Pair [symmetric] Inl]
      have "working s (emit k s) " if "quiet [(0, k)]" for k using that by (rule working_emit [OF working_refl])
      then show ?thesis using ih working_trans [of s "emit (event_tool_retried (tc_tool call) (failures + 1)) s"]
        by (subst (1 2) invokeWithRetry.simps) (auto simp: Pair Inl Let_def quiet_def working_refl)
    next
      case (Inr out)
      then show ?thesis by (subst (1 2) invokeWithRetry.simps) (auto simp: Pair Let_def quiet_def intro!: working_emit working_refl)
    qed
  qed
qed

lemma observe_frame: "working s (snd (observeCall H call output s)) \<and> ls_state (snd (observeCall H call output s)) = ls_state s"
  by (simp add: observeCall_def Let_def working_def split: sum.split prod.split)

lemma calls_frame: "runToolCalls H ports retries calls s w = (r, s', w') \<Longrightarrow> working s s' \<and> ls_state s' = ls_state s"
proof (induction calls arbitrary: s w)
  case Nil
  then show ?case by (simp add: working_refl)
next
  case (Cons call calls)
  obtain a t v where i: "invokeWithRetry ports retries call 0 s w = (a, t, v)" by (cases "invokeWithRetry ports retries call 0 s w")
  have it: "working s t" "ls_state t = ls_state s" using invoke_frame [of s ports retries call 0 w] i by simp_all
  show ?case
  proof (cases a)
    case (Inl e)
    then show ?thesis using Cons.prems i it by simp
  next
    case (Inr out)
    obtain b u where o: "observeCall H call out t = (b, u)" by (cases "observeCall H call out t")
    have ou: "working t u" "ls_state u = ls_state t" using observe_frame [of t H call out] o by simp_all
    show ?thesis
    proof (cases b)
      case (Inl failure)
      then show ?thesis using Cons.prems i Inr o it ou working_trans by auto
    next
      case (Inr x)
      then have "runToolCalls H ports retries calls u v = (r, s', w')" using Cons.prems i \<open>a = Inr out\<close> o by simp
      from Cons.IH [OF this] show ?thesis using it ou working_trans by metis
    qed
  qed
qed

text \<open>What a model can never change of a working state.\<close>

definition shielded :: "working_state \<Rightarrow> working_state \<Rightarrow> bool" where
  "shielded s s' \<longleftrightarrow> ws_goal s' = ws_goal s \<and> ws_baseline_commit s' = ws_baseline_commit s
     \<and> ws_requirement_baseline_digest s' = ws_requirement_baseline_digest s \<and> ws_policy_digest s' = ws_policy_digest s
     \<and> ws_previous_checkpoint_id s' = ws_previous_checkpoint_id s \<and> ws_context_bundle_digests s' = ws_context_bundle_digests s
     \<and> wb_ceiling_steps (ws_budget s') = wb_ceiling_steps (ws_budget s) \<and> wb_ceiling_tokens (ws_budget s') = wb_ceiling_tokens (ws_budget s)
     \<and> set (ws_completed_task_ids s) \<subseteq> set (ws_completed_task_ids s')"

lemma shielded_refl: "shielded s s"
  by (simp add: shielded_def)

lemma shielded_trans: "shielded s t \<Longrightarrow> shielded t u \<Longrightarrow> shielded s u"
  by (auto simp: shielded_def)

lemma apply_shielded:
  assumes "applyWorkingStateProposal H s p = Inr s'" "wp_set_requirement_baseline_digest p = None" "wp_set_context_bundle_digests p = None"
  shows "shielded s s'"
  using apply_Inr [OF assms(1)] assms(2,3) by (auto simp: shielded_def proposedBudget_def proposedCompleted_def)

lemma model_proposal_frame:
  assumes "applyModelProposal H s p = Inr s'"
  shows "shielded s s'" "ws_budget s' = ws_budget s"
proof -
  have "shielded s s' \<and> ws_budget s' = ws_budget s"
  proof (cases p)
    case (Some q)
    have q: "wp_set_requirement_baseline_digest q = None" "wp_set_context_bundle_digests q = None" "wp_budget_use q = None"
      using assms Some by (simp_all add: applyModelProposal_def forbiddenKeys_def del: not_None_eq split: if_splits)
    have "applyWorkingStateProposal H s (working_state_proposal.truncate q) = Inr s'" using assms Some by (simp add: applyModelProposal_def split: if_splits)
    then show ?thesis using apply_shielded apply_same_budget q by (simp add: working_state_proposal.defs)
  qed (use assms in \<open>simp add: applyModelProposal_def shielded_refl\<close>)
  then show "shielded s s'" "ws_budget s' = ws_budget s" by simp_all
qed

end
