(* ===== verification/Loop_Run.thy ===== *)
theory Loop_Run
  imports Loop_Controller
begin

text \<open>
  Whole runs of the managed loop (\<^verbatim>\<open>runtime/src/loop/controller.ts\<close>, \<^verbatim>\<open>runManagedLoop\<close>): the loop ends for every model,
  clock and tool, within the step ceiling and with one terminal event; it succeeds only on verified evidence;
  the model never changes what the harness owns, and the grant only shrinks.
\<close>

section \<open>Frames of a step\<close>

lemma account_frame:
  assumes "accountStep H ports tokens proposal out s w = (r, s', w')"
  shows "working s s'" "shielded (ls_state s) (ls_state s')"
    "r = Inr () \<Longrightarrow> wb_used_steps (ws_budget (ls_state s')) = wb_used_steps (ws_budget (ls_state s)) + 1"
    "\<not> overCeiling (ws_budget (ls_state s)) \<Longrightarrow> \<not> overCeiling (ws_budget (ls_state s'))"
proof -
  have "working s s' \<and> shielded (ls_state s) (ls_state s')
     \<and> (r = Inr () \<longrightarrow> wb_used_steps (ws_budget (ls_state s')) = wb_used_steps (ws_budget (ls_state s)) + 1)
     \<and> (\<not> overCeiling (ws_budget (ls_state s)) \<longrightarrow> \<not> overCeiling (ws_budget (ls_state s')))"
  proof (cases "applyModelProposal H (ls_state s) proposal")
    case (Inl e)
    then show ?thesis using assms by (auto simp: accountStep_def working_refl shielded_refl)
  next
    case (Inr state)
    let ?s = "emit event_proposal_applied (s\<lparr>ls_state := state, ls_partial_outputs := ls_partial_outputs s @ (case out of None \<Rightarrow> [] | Some p \<Rightarrow> [p])\<rparr>)"
    obtain t v where t: "lo_usedTokens ports w = (t, v)" by (cases "lo_usedTokens ports w")
    have w: "working s ?s" by (auto simp: working_def quiet_def)
    note m = model_proposal_frame [OF Inr]
    show ?thesis
    proof (cases "applyWorkingStateProposal H state (meteredUse (t - tokens))")
      case (Inl e)
      then show ?thesis using assms Inr t w m by (auto simp: accountStep_def Let_def)
    next
      case Inr': (Inr metered)
      have s': "r = Inr ()" "s' = ?s\<lparr>ls_state := metered\<rparr>" using assms Inr t Inr' by (simp_all add: accountStep_def Let_def)
      have "shielded state metered" by (rule apply_shielded [OF Inr']) (simp_all add: meteredUse_def emptyProposal_def)
      moreover have "wb_used_steps (ws_budget metered) = wb_used_steps (ws_budget state) + 1" "\<not> overCeiling (ws_budget metered)"
        using apply_Inr(1,2) [OF Inr'] by (simp_all add: proposedBudget_def meteredUse_def emptyProposal_def)
      ultimately show ?thesis using w m s' shielded_trans by (auto simp: working_def)
    qed
  qed
  then show "working s s'" "shielded (ls_state s) (ls_state s')"
    "r = Inr () \<Longrightarrow> wb_used_steps (ws_budget (ls_state s')) = wb_used_steps (ws_budget (ls_state s)) + 1"
    "\<not> overCeiling (ws_budget (ls_state s)) \<Longrightarrow> \<not> overCeiling (ws_budget (ls_state s'))" by simp_all
qed

text \<open>A grant that differs from another at most by a smaller budget.\<close>

definition shrunk :: "capability_grant \<Rightarrow> capability_grant \<Rightarrow> bool" where
  "shrunk g g' \<longleftrightarrow> cg_grant_id g' = cg_grant_id g \<and> cg_task_id g' = cg_task_id g \<and> cg_capabilities g' = cg_capabilities g
     \<and> cg_read_paths g' = cg_read_paths g \<and> cg_write_paths g' = cg_write_paths g \<and> cg_state_fields g' = cg_state_fields g
     \<and> cg_tools g' = cg_tools g \<and> cg_phase g' = cg_phase g \<and> cg_approval_digests g' = cg_approval_digests g
     \<and> cg_effective_policy_digest g' = cg_effective_policy_digest g
     \<and> gb_steps (cg_budget g') \<le> gb_steps (cg_budget g) \<and> gb_tokens (cg_budget g') \<le> gb_tokens (cg_budget g)"

lemma shrunk_refl: "shrunk g g"
  by (simp add: shrunk_def)

lemma shrunk_trans: "shrunk f g \<Longrightarrow> shrunk g h \<Longrightarrow> shrunk f h"
  by (auto simp: shrunk_def)

lemma shrunk_denial: "shrunk g g' \<Longrightarrow> grantDenialReason H g' action = grantDenialReason H g action"
  by (cases "pa_kind action"; cases "pa_resource action") (simp_all add: shrunk_def grantDenialReason_def)

lemma narrow_frame:
  assumes "narrowStep H policy spent s = Inr s'"
  shows "shrunk (ls_grant s) (ls_grant s')" "ls_state s' = ls_state s" "ls_used_steps s' = ls_used_steps s"
    "\<exists>evs. ls_events s' = ls_events s @ evs \<and> quiet evs"
proof -
  obtain g where g: "narrowGrant H (ls_grant s) \<lparr>gn_capabilities = None, gn_read_paths = None, gn_write_paths = None, gn_state_fields = None,
      gn_tools = None, gn_budget = Some \<lparr>gb_steps = min (gb_steps (cg_budget (ls_grant s))) (max 0 (lp_max_steps policy - of_nat (ls_used_steps s))),
        gb_tokens = min (gb_tokens (cg_budget (ls_grant s))) (max 0 (lp_max_tokens policy - spent))\<rparr>\<rparr> = Inr g"
    and s': "s' = (if cg_digest g \<noteq> cg_digest (ls_grant s) then emit (event_grant_narrowed (cg_digest g)) (s\<lparr>ls_grant := g\<rparr>) else s)"
    using assms by (auto simp: narrowStep_def Let_def rbind_Inr_iff)
  have "shrunk (ls_grant s) g"
    using g by (auto simp: narrowGrant_def narrowOptional_def Let_def rbind_Inr_iff sealGrant_Inr shrunk_def split: if_splits)
  then show "shrunk (ls_grant s) (ls_grant s')" by (simp add: s' shrunk_refl)
  show "ls_state s' = ls_state s" "ls_used_steps s' = ls_used_steps s" "\<exists>evs. ls_events s' = ls_events s @ evs \<and> quiet evs"
    by (auto simp: s' quiet_def)
qed

section \<open>One iteration\<close>

text \<open>What holds of the state at every point of a run that started from a working state and a grant.\<close>

definition starts :: "loop_progress_event list \<Rightarrow> nat" where
  "starts evs = length (filter (\<lambda>e. snd e = event_step_started) evs)"

definition running :: "working_state \<Rightarrow> capability_grant \<Rightarrow> loop_state \<Rightarrow> bool" where
  "running state grant s \<longleftrightarrow> shielded state (ls_state s) \<and> shrunk grant (ls_grant s) \<and> starts (ls_events s) = ls_used_steps s
     \<and> (\<forall>e \<in> set (ls_events s). \<forall>why. snd e \<noteq> event_terminated why)
     \<and> (\<not> overCeiling (ws_budget state) \<longrightarrow> \<not> overCeiling (ws_budget (ls_state s)))"

lemma quiet_events: "quiet evs \<Longrightarrow> starts evs = 0 \<and> (\<forall>e \<in> set evs. \<forall>why. snd e \<noteq> event_terminated why)"
  by (auto simp: quiet_def starts_def list_all_iff filter_empty_conv split: loop_event_kind.splits)

lemma starts_append [simp]: "starts (xs @ ys) = starts xs + starts ys"
  by (simp add: starts_def)

lemma running_work:
  assumes "running state grant s" "working s s'" "shielded (ls_state s) (ls_state s')"
    "\<not> overCeiling (ws_budget (ls_state s)) \<Longrightarrow> \<not> overCeiling (ws_budget (ls_state s'))"
  shows "running state grant s'"
proof -
  obtain evs where "ls_events s' = ls_events s @ evs" "quiet evs" "ls_used_steps s' = ls_used_steps s" "ls_grant s' = ls_grant s"
    using assms(2) by (auto simp: working_def)
  then show ?thesis using assms quiet_events [of evs] shielded_trans by (auto simp: running_def)
qed

lemma running_narrow:
  assumes "running state grant s" "narrowStep H policy spent s = Inr s'"
  shows "running state grant s'"
proof -
  note n = narrow_frame [OF assms(2)]
  obtain evs where "ls_events s' = ls_events s @ evs" "quiet evs" using n(4) by blast
  then show ?thesis using assms(1) n(1-3) quiet_events [of evs] shrunk_trans by (auto simp: running_def)
qed

text \<open>What a finished run reports.\<close>

definition reported :: "working_state \<Rightarrow> capability_grant \<Rightarrow> managed_loop_result \<Rightarrow> bool" where
  "reported state grant r \<longleftrightarrow> shielded state (ml_state r) \<and> shrunk grant (ml_grant r)
     \<and> (\<not> overCeiling (ws_budget state) \<longrightarrow> \<not> overCeiling (ws_budget (ml_state r)))
     \<and> starts (ml_events r) = ml_steps_executed r
     \<and> (\<exists>evs. ml_events r = evs @ [(ml_steps_executed r, event_terminated (td_termination_reason (ml_decision r)))]
          \<and> (\<forall>e \<in> set evs. \<forall>why. snd e \<noteq> event_terminated why))"

lemma finish_result:
  "ml_decision (fst (finish ports run d s w)) = d" "ml_steps_executed (fst (finish ports run d s w)) = ls_used_steps s"
  "ml_state (fst (finish ports run d s w)) = ls_state s" "ml_grant (fst (finish ports run d s w)) = ls_grant s"
  "ml_events (fst (finish ports run d s w)) = ls_events s @ [(ls_used_steps s, event_terminated (td_termination_reason d))]"
  "snd (finish ports run d s w) = snd (lo_clock ports (snd (lo_usedTokens ports w)))"
  by (simp_all add: finish_def loopResult_def case_prod_beta)

lemma finish_reported: "running state grant s \<Longrightarrow> reported state grant (fst (finish ports run d s w))"
  by (simp add: reported_def running_def finish_result starts_def)

definition iterated :: "working_state \<Rightarrow> capability_grant \<Rightarrow> loop_policy \<Rightarrow> nat \<Rightarrow> 'w loop_control \<Rightarrow> bool" where
  "iterated state grant policy used control \<longleftrightarrow>
     (case control of
        loop_done r \<Rightarrow> reported state grant (fst r) \<and> ml_steps_executed (fst r) = used
      | loop_again s w \<Rightarrow> running state grant s \<and> ls_used_steps s = used
          \<and> (tp_budget_ceiling (lp_termination policy) = ceiling_soft \<longrightarrow> of_nat used < lp_max_steps policy))"

lemma ceiling_steps: "ceilingReached ports policy run s w = (None, w') \<Longrightarrow> of_nat (ls_used_steps s) < lp_max_steps policy"
  by (auto simp: ceilingReached_def split: if_splits prod.splits)

lemma mode_cases: "m \<noteq> ceiling_hard \<longleftrightarrow> m = ceiling_soft"
  by (cases m) simp_all

lemma iterated_done: "running state grant s \<Longrightarrow> iterated state grant policy (ls_used_steps s) (loop_done (finish ports run d s w))"
  by (simp add: iterated_def finish_reported finish_result)

lemma completeRun_iterated:
  assumes "running state grant s"
  shows "iterated state grant (te_loop_policy envelope) (ls_used_steps s) (loop_done (completeRun H envelope ports run proposal s w))"
proof (cases "applyModelProposal H (ls_state s) proposal")
  case (Inl e)
  then show ?thesis using iterated_done [OF assms] by (simp add: completeRun_def)
next
  case (Inr t)
  let ?s = "emit event_completion_signaled (s\<lparr>ls_state := t\<rparr>)"
  have "running state grant ?s"
    by (rule running_work [OF assms]) (use model_proposal_frame [OF Inr] in \<open>auto simp: working_def quiet_def\<close>)
  then have d: "iterated state grant (te_loop_policy envelope) (ls_used_steps s) (loop_done (finish ports run d ?s v))" for d v
    using iterated_done [of state grant ?s "te_loop_policy envelope" ports run d v] by simp
  show ?thesis unfolding completeRun_def Inr using d by (simp add: Let_def split: prod.split sum.split)
qed

lemma workStep_iterated:
  assumes "running state grant s"
  shows "iterated state grant (te_loop_policy envelope) (ls_used_steps s) (workStep H envelope ports run tokens calls proposal out s w)"
proof -
  let ?policy = "te_loop_policy envelope"
  obtain a s1 w1 where c: "runToolCalls H ports (lp_max_tool_retries ?policy) (orList calls) s w = (a, s1, w1)"
    by (cases "runToolCalls H ports (lp_max_tool_retries ?policy) (orList calls) s w")
  have w1: "working s s1" "ls_state s1 = ls_state s" using calls_frame [OF c] by simp_all
  have r1: "running state grant s1" by (rule running_work [OF assms w1(1)]) (simp_all add: w1(2) shielded_refl)
  have u1: "ls_used_steps s1 = ls_used_steps s" using w1(1) by (simp add: working_def)
  show ?thesis
  proof (cases a)
    case (Inl failure)
    then show ?thesis using iterated_done [OF r1] u1 by (simp add: workStep_def Let_def c)
  next
    case (Inr x)
    obtain b s2 w2 where acc: "accountStep H ports tokens proposal out s1 w1 = (b, s2, w2)" by (cases "accountStep H ports tokens proposal out s1 w1")
    note f = account_frame [OF acc]
    have r2: "running state grant s2" by (rule running_work [OF r1 f(1,2,4)])
    have u2: "ls_used_steps s2 = ls_used_steps s" using f(1) u1 by (simp add: working_def)
    obtain t w3 where t: "lo_usedTokens ports w2 = (t, w3)" by (cases "lo_usedTokens ports w2")
    show ?thesis
    proof (cases b)
      case Inl': (Inl failure)
      then show ?thesis using iterated_done [OF r2] u2 Inr acc by (simp add: workStep_def Let_def c)
    next
      case Inr': (Inr y)
      show ?thesis
      proof (cases "narrowStep H ?policy (t - lr_tokens_at_start run) s2")
        case (Inl e)
        then show ?thesis using iterated_done [OF r2] u2 Inr Inr' acc t by (simp add: workStep_def Let_def c)
      next
        case n: (Inr s3)
        have r3: "running state grant s3" by (rule running_narrow [OF r2 n])
        have u3: "ls_used_steps s3 = ls_used_steps s" using narrow_frame(3) [OF n] u2 by simp
        have eq: "workStep H envelope ports run tokens calls proposal out s w =
            (if tp_budget_ceiling (lp_termination ?policy) = ceiling_hard then loop_again s3 w3
             else case ceilingReached ports ?policy run s3 w3 of (Some d, w4) \<Rightarrow> loop_done (finish ports run d s3 w4) | (None, w4) \<Rightarrow> loop_again s3 w4)"
          using Inr Inr' acc t n by (simp add: workStep_def Let_def c)
        show ?thesis unfolding eq using iterated_done [OF r3, of ?policy ports run] ceiling_steps [of ports ?policy run s3 w3] r3 u3
          by (auto simp: iterated_def mode_cases split: prod.split option.split)
      qed
    qed
  qed
qed

lemma takeStep_iterated:
  assumes "running state grant s"
  shows "iterated state grant (te_loop_policy envelope) (ls_used_steps s + 1) (takeStep H envelope ports run s w)"
proof -
  let ?s = "emit event_step_started (s\<lparr>ls_used_steps := ls_used_steps s + 1\<rparr>)"
  have r: "running state grant ?s" using assms by (auto simp: running_def starts_def)
  show ?thesis unfolding takeStep_def Let_def
    using iterated_done [OF r, of "te_loop_policy envelope" ports run] completeRun_iterated [OF r, of envelope H ports run]
      workStep_iterated [OF r, of envelope H ports run]
    by (simp split: prod.split sum.split model_step_outcome.split)
qed

lemma loopIteration_iterated:
  assumes "running state grant s"
  shows "case loopIteration H envelope ports run s w of
      loop_done r \<Rightarrow> reported state grant (fst r) \<and> (ml_steps_executed (fst r) = ls_used_steps s
        \<or> ml_steps_executed (fst r) = ls_used_steps s + 1 \<and> (tp_budget_ceiling (lp_termination (te_loop_policy envelope)) = ceiling_hard
             \<longrightarrow> of_nat (ls_used_steps s) < lp_max_steps (te_loop_policy envelope)))
    | loop_again s' w' \<Rightarrow> running state grant s' \<and> ls_used_steps s' = ls_used_steps s + 1
        \<and> of_nat (ls_used_steps s) < lp_max_steps (te_loop_policy envelope)
        \<and> (tp_budget_ceiling (lp_termination (te_loop_policy envelope)) = ceiling_soft \<longrightarrow> of_nat (ls_used_steps s + 1) < lp_max_steps (te_loop_policy envelope))"
proof -
  let ?policy = "te_loop_policy envelope"
  obtain c w1 where c: "lo_isCancelled ports w = (c, w1)" by (cases "lo_isCancelled ports w")
  note step = takeStep_iterated [OF assms, of envelope H ports run]
  show ?thesis
  proof (cases c)
    case True
    then show ?thesis using finish_reported [OF assms] by (simp add: loopIteration_def Let_def c finish_result)
  next
    case False
    show ?thesis
    proof (cases "tp_budget_ceiling (lp_termination ?policy) = ceiling_hard")
      case True
      obtain d w2 where d: "ceilingReached ports ?policy run s w1 = (d, w2)" by (cases "ceilingReached ports ?policy run s w1")
      show ?thesis
      proof (cases d)
        case None
        then have "of_nat (ls_used_steps s) < lp_max_steps ?policy" using ceiling_steps [of ports ?policy run s w1 w2] d by simp
        then show ?thesis using step [of w2] False True d None
          by (auto simp: loopIteration_def Let_def c iterated_def split: loop_control.split)
      next
        case (Some y)
        then show ?thesis using finish_reported [OF assms] False True d by (simp add: loopIteration_def Let_def c finish_result)
      qed
    next
      case soft: False
      have "loopIteration H envelope ports run s w = takeStep H envelope ports run s w1" using soft False by (simp add: loopIteration_def Let_def c)
      then show ?thesis using step [of w1] soft unfolding mode_cases
        by (cases "takeStep H envelope ports run s w1") (auto simp: iterated_def)
    qed
  qed
qed

section \<open>The loop\<close>

lemma workStep_again:
  assumes "workStep H envelope ports run tokens calls proposal out s w = loop_again s' w'"
  shows "ls_used_steps s' = ls_used_steps s"
    "tp_budget_ceiling (lp_termination (te_loop_policy envelope)) \<noteq> ceiling_hard \<Longrightarrow> of_nat (ls_used_steps s') < lp_max_steps (te_loop_policy envelope)"
proof -
  obtain s1 w1 s2 w2 t w3 where c: "runToolCalls H ports (lp_max_tool_retries (te_loop_policy envelope)) (orList calls) s w = (Inr (), s1, w1)"
    and a: "accountStep H ports tokens proposal out s1 w1 = (Inr (), s2, w2)"
    and n: "narrowStep H (te_loop_policy envelope) (t - lr_tokens_at_start run) s2 = Inr s'"
    and again: "tp_budget_ceiling (lp_termination (te_loop_policy envelope)) = ceiling_hard \<or> ceilingReached ports (te_loop_policy envelope) run s' w3 = (None, w')"
    using assms unfolding workStep_def Let_def by (auto split: prod.splits sum.splits if_splits option.splits)
  show "ls_used_steps s' = ls_used_steps s"
    using calls_frame [OF c] account_frame(1) [OF a] narrow_frame(3) [OF n] by (simp add: working_def)
  show "of_nat (ls_used_steps s') < lp_max_steps (te_loop_policy envelope)"
    if "tp_budget_ceiling (lp_termination (te_loop_policy envelope)) \<noteq> ceiling_hard"
    using again that ceiling_steps [of ports "te_loop_policy envelope" run s' w3 w'] by blast
qed

lemma iteration_decreases:
  assumes "loopIteration H envelope ports run s w = loop_again s' w'"
  shows "ls_used_steps s' = ls_used_steps s + 1" "of_nat (ls_used_steps s) < lp_max_steps (te_loop_policy envelope)"
proof -
  let ?hard = "tp_budget_ceiling (lp_termination (te_loop_policy envelope)) = ceiling_hard"
  obtain v where v: "takeStep H envelope ports run s v = loop_again s' w'" "?hard \<Longrightarrow> of_nat (ls_used_steps s) < lp_max_steps (te_loop_policy envelope)"
    using assms unfolding loopIteration_def Let_def by (auto split: prod.splits bool.splits if_splits option.splits dest: ceiling_steps)
  obtain t calls proposal out u where step: "workStep H envelope ports run t calls proposal out
      (emit event_step_started (s\<lparr>ls_used_steps := ls_used_steps s + 1\<rparr>)) u = loop_again s' w'"
    using v(1) unfolding takeStep_def Let_def by (auto split: prod.splits sum.splits model_step_outcome.splits)
  show "ls_used_steps s' = ls_used_steps s + 1" using workStep_again(1) [OF step] by simp
  show "of_nat (ls_used_steps s) < lp_max_steps (te_loop_policy envelope)"
  proof (cases ?hard)
    case False
    then show ?thesis using workStep_again [OF step] by simp
  qed (use v(2) in simp)
qed

function runLoop :: "host \<Rightarrow> task_envelope \<Rightarrow> 'w loop_ports \<Rightarrow> loop_run \<Rightarrow> loop_state \<Rightarrow> 'w \<Rightarrow> managed_loop_result \<times> 'w" where
  "runLoop H envelope ports run s w =
     (case loopIteration H envelope ports run s w of
        loop_done r \<Rightarrow> r
      | loop_again s' w' \<Rightarrow> runLoop H envelope ports run s' w')"
  by pat_completeness auto
termination
proof (relation "measure (\<lambda>(H, envelope, ports, run, s, w). nat \<lceil>lp_max_steps (te_loop_policy envelope)\<rceil> - ls_used_steps s)", goal_cases)
  case (2 H envelope ports run s w s' w')
  have "ls_used_steps s < nat \<lceil>lp_max_steps (te_loop_policy envelope)\<rceil>" using iteration_decreases(2) [OF 2] by linarith
  then show ?case using iteration_decreases(1) [OF 2] by simp
qed simp

declare runLoop.simps [simp del]

definition startLoop :: "task_envelope \<Rightarrow> working_state \<Rightarrow> capability_grant \<Rightarrow> loop_state" where
  "startLoop envelope state grant = \<lparr>ls_state = state, ls_grant = grant, ls_used_steps = 0, ls_evidence = [], ls_evidence_digests = [],
     ls_partial_outputs = [], ls_events = [], ls_detector = newRepeatDetector (lp_repeat_detection (te_loop_policy envelope))\<rparr>"

definition runManagedLoop :: "host \<Rightarrow> task_envelope \<Rightarrow> 'w loop_ports \<Rightarrow> working_state \<Rightarrow> capability_grant \<Rightarrow> 'w \<Rightarrow> managed_loop_result \<times> 'w" where
  "runManagedLoop H envelope ports state grant w =
     (case lo_clock ports w of (startMs, w1) \<Rightarrow>
      case lo_usedTokens ports w1 of (tokensAtStart, w2) \<Rightarrow>
        runLoop H envelope ports \<lparr>lr_start_ms = startMs, lr_tokens_at_start = tokensAtStart\<rparr> (startLoop envelope state grant) w2)"

lemma next_integer:
  assumes "isInteger m" "of_nat n < m"
  shows "of_nat (n + 1) \<le> m"
proof -
  obtain k where k: "m = of_int k" using assms(1) unfolding isInteger_def by metis
  then have "int n < k" using assms(2) by (metis of_int_less_iff of_int_of_nat_eq)
  then have "int (n + 1) \<le> k" by simp
  then show ?thesis unfolding k by (metis of_int_le_iff of_int_of_nat_eq)
qed

lemma runLoop_reported:
  "running state grant s \<Longrightarrow> (ls_used_steps s = 0 \<or> of_nat (ls_used_steps s) \<le> lp_max_steps (te_loop_policy envelope)) \<Longrightarrow>
     (tp_budget_ceiling (lp_termination (te_loop_policy envelope)) = ceiling_soft \<and> ls_used_steps s \<noteq> 0
       \<longrightarrow> of_nat (ls_used_steps s) < lp_max_steps (te_loop_policy envelope)) \<Longrightarrow> 1 \<le> lp_max_steps (te_loop_policy envelope) \<Longrightarrow>
     isInteger (lp_max_steps (te_loop_policy envelope)) \<Longrightarrow>
     reported state grant (fst (runLoop H envelope ports run s w))
     \<and> of_nat (ml_steps_executed (fst (runLoop H envelope ports run s w))) \<le> lp_max_steps (te_loop_policy envelope)"
proof (induction H envelope ports run s w rule: runLoop.induct)
  case (1 H envelope ports run s w)
  note it = loopIteration_iterated [OF "1.prems"(1), where H = H and envelope = envelope and ports = ports and run = run and w = w]
  have next_step: "of_nat (ls_used_steps s + 1) \<le> lp_max_steps (te_loop_policy envelope)" if "of_nat (ls_used_steps s) < lp_max_steps (te_loop_policy envelope)"
    by (rule next_integer [OF "1.prems"(5) that])
  show ?case
  proof (cases "loopIteration H envelope ports run s w")
    case (loop_done r)
    have "reported state grant (fst r)" using it loop_done by simp
    moreover have "of_nat (ml_steps_executed (fst r)) \<le> lp_max_steps (te_loop_policy envelope)"
    proof (cases "tp_budget_ceiling (lp_termination (te_loop_policy envelope))")
      case ceiling_hard
      then show ?thesis using it loop_done next_step "1.prems"(2,4) by auto
    next
      case ceiling_soft
      then show ?thesis using it loop_done next_step "1.prems"(2-4) by (cases "ls_used_steps s = 0") auto
    qed
    ultimately show ?thesis by (simp add: runLoop.simps [of H envelope ports run s w] loop_done)
  next
    case (loop_again s' w')
    then show ?thesis using it "1.IH" [OF loop_again] "1.prems"(4,5) next_step
      by (simp add: runLoop.simps [of H envelope ports run s w])
  qed
qed

lemma start_running: "running state grant (startLoop envelope state grant)"
  by (simp add: running_def startLoop_def shielded_refl shrunk_refl starts_def)

lemma managed_reported:
  assumes "isLoopPolicy (te_loop_policy envelope)"
  shows "reported state grant (fst (runManagedLoop H envelope ports state grant w))"
    "of_nat (ml_steps_executed (fst (runManagedLoop H envelope ports state grant w))) \<le> lp_max_steps (te_loop_policy envelope)"
  using runLoop_reported [OF start_running, where envelope = envelope and H = H and ports = ports and state = state and grant = grant] assms
  by (simp_all add: runManagedLoop_def case_prod_beta startLoop_def isLoopPolicy_def atLeast_def)

text \<open>
  C12. Every managed run ends, whatever the model, the tools and the clock do, and under a valid policy it takes at
  most the allowed number of steps: the events show one start per step and exactly one termination, which is
  the last event and names the reason of the decision.
\<close>
theorem managed_loop_bounded:
  assumes "isLoopPolicy (te_loop_policy envelope)" "runManagedLoop H envelope ports state grant w = (r, w')"
  shows "of_nat (ml_steps_executed r) \<le> lp_max_steps (te_loop_policy envelope) \<and> starts (ml_events r) = ml_steps_executed r
     \<and> (\<exists>evs. ml_events r = evs @ [(ml_steps_executed r, event_terminated (td_termination_reason (ml_decision r)))]
          \<and> (\<forall>e \<in> set evs. \<forall>why. snd e \<noteq> event_terminated why))"
  using managed_reported [OF assms(1), where state = state and grant = grant and H = H and ports = ports and w = w] assms(2) by (simp add: reported_def)

text \<open>
  C11. The harness stays in control of a managed run: for every model and every tool, the goal, the baselines, the
  policy, the checkpoint link, the task contexts and the budget ceilings of the working state are those it
  started with, completed tasks stay completed, the accounts stay within the ceilings, and the final grant is
  the initial one up to a smaller budget, so it denies exactly the actions the initial grant denied.
\<close>
theorem managed_loop_confines_model:
  assumes "isLoopPolicy (te_loop_policy envelope)" "runManagedLoop H envelope ports state grant w = (r, w')"
  shows "shielded state (ml_state r) \<and> (\<not> overCeiling (ws_budget state) \<longrightarrow> \<not> overCeiling (ws_budget (ml_state r)))
     \<and> shrunk grant (ml_grant r) \<and> (\<forall>action. grantDenialReason H (ml_grant r) action = grantDenialReason H grant action)"
  using managed_reported [OF assms(1), where state = state and grant = grant and H = H and ports = ports and w = w] assms(2) shrunk_denial by (auto simp: reported_def)

section \<open>Success\<close>

definition verifiedSuccess :: "task_envelope \<Rightarrow> 'w loop_ports \<Rightarrow> managed_loop_result \<times> 'w \<Rightarrow> bool" where
  "verifiedSuccess envelope ports r \<longleftrightarrow> td_outcome (ml_decision (fst r)) = run_success \<longrightarrow>
     ml_decision (fst r) = completionDecision True
     \<and> (tp_require_external_verification (lp_termination (te_loop_policy envelope)) \<longrightarrow>
          (\<exists>v v'. lo_verify ports v = (Inr True, v') \<and> snd r = snd (lo_clock ports (snd (lo_usedTokens ports v')))))"

lemma finish_no_success: "td_outcome d \<noteq> run_success \<Longrightarrow> verifiedSuccess envelope ports (finish ports run d s w)"
  by (simp add: verifiedSuccess_def finish_result)

lemma failure_outcomes:
  "td_outcome (workFailureDecision ports failure) \<noteq> run_success" "td_outcome (adapterFailureDecision message) \<noteq> run_success"
  "td_outcome cancellationDecision \<noteq> run_success" "ceilingReached ports policy run s w = (Some d, w') \<Longrightarrow> td_outcome d \<noteq> run_success"
  by (auto simp: workFailureDecision_def toolFailureDecision_def ceilingReached_def decision_defs
      split: work_failure.splits thrown.splits tool_error_kind.splits if_splits prod.splits)

lemma completeRun_verified: "verifiedSuccess envelope ports (completeRun H envelope ports run proposal s w)"
proof (cases "applyModelProposal H (ls_state s) proposal")
  case (Inl e)
  then show ?thesis by (simp add: completeRun_def finish_no_success failure_outcomes)
next
  case (Inr t)
  obtain v w1 where v: "lo_verify ports w = (v, w1)" by (cases "lo_verify ports w")
  have ok: "verifiedSuccess envelope ports (finish ports run (completionDecision b) s' w1)" if "v = Inr b" for b s'
    using that v by (cases b) (auto simp: verifiedSuccess_def finish_result completionDecision_def decision_def)
  show ?thesis
  proof (cases "tp_require_external_verification (lp_termination (te_loop_policy envelope))")
    case True
    then show ?thesis using Inr v ok by (cases v) (simp_all add: completeRun_def Let_def finish_no_success failure_outcomes)
  next
    case False
    then show ?thesis using Inr by (simp add: completeRun_def Let_def verifiedSuccess_def finish_result)
  qed
qed

lemma workStep_verified: "workStep H envelope ports run tokens calls proposal out s w = loop_done r \<Longrightarrow> verifiedSuccess envelope ports r"
  unfolding workStep_def Let_def
  by (auto simp: finish_no_success failure_outcomes split: prod.splits sum.splits if_splits option.splits)

lemma iteration_verified:
  assumes "loopIteration H envelope ports run s w = loop_done r"
  shows "verifiedSuccess envelope ports r"
proof -
  have step: "verifiedSuccess envelope ports r" if "takeStep H envelope ports run s v = loop_done r" for v
    using that workStep_verified [of H envelope ports run] completeRun_verified [of envelope ports H run] unfolding takeStep_def Let_def
    by (auto simp: finish_no_success failure_outcomes split: prod.splits sum.splits model_step_outcome.splits)
  show ?thesis using assms step unfolding loopIteration_def Let_def
    by (auto simp: finish_no_success failure_outcomes split: prod.splits bool.splits if_splits option.splits)
qed

lemma runLoop_verified: "verifiedSuccess envelope ports (runLoop H envelope ports run s w)"
proof (induction H envelope ports run s w rule: runLoop.induct)
  case (1 H envelope ports run s w)
  show ?case
  proof (cases "loopIteration H envelope ports run s w")
    case (loop_done r)
    then show ?thesis using iteration_verified [OF loop_done] by (simp add: runLoop.simps [of H envelope ports run s w])
  next
    case (loop_again s' w')
    then show ?thesis using "1.IH" [OF loop_again] by (simp add: runLoop.simps [of H envelope ports run s w])
  qed
qed

text \<open>
  C10. A run reports success only on evidence: the decision is the verified completion, and when the policy requires
  external verification, the verification port answered yes and nothing but the meters was consulted after it.
\<close>
theorem managed_loop_success_verified:
  assumes "runManagedLoop H envelope ports state grant w = (r, w')" "td_outcome (ml_decision r) = run_success"
  shows "ml_decision r = completionDecision True
     \<and> (tp_require_external_verification (lp_termination (te_loop_policy envelope)) \<longrightarrow>
          (\<exists>v v'. lo_verify ports v = (Inr True, v') \<and> w' = snd (lo_clock ports (snd (lo_usedTokens ports v')))))"
proof -
  have "verifiedSuccess envelope ports (r, w')"
    unfolding assms(1) [symmetric] by (simp add: runManagedLoop_def case_prod_beta runLoop_verified)
  then show ?thesis using assms(2) by (simp add: verifiedSuccess_def)
qed

end
