(* ===== verification/Loop_Stagnation.thy ===== *)
theory Loop_Stagnation
  imports Loop_Run
begin

text \<open>
  Progress of the managed loop: metering a step settles the working state, so a model that repeats one tool call
  with nothing new to show is stopped by the repeat detector soon after its limit.
\<close>

section \<open>Metering settles the working state\<close>

lemma uniqueBy_keys: "distinct (map key (uniqueBy key seen xs)) \<and> key ` set (uniqueBy key seen xs) \<inter> set seen = {}"
proof (induction xs arbitrary: seen)
  case (Cons x xs)
  show ?case using Cons.IH [of seen] Cons.IH [of "key x # seen"] by auto
qed simp

lemma uniqueBy_id: "distinct (map key xs) \<Longrightarrow> key ` set xs \<inter> set seen = {} \<Longrightarrow> uniqueBy key seen xs = xs"
  by (induction xs arbitrary: seen) auto

lemma uniqueBy_again: "uniqueBy key [] (uniqueBy key [] xs) = uniqueBy key [] xs"
  using uniqueBy_keys [of key "[]" xs] by (simp add: uniqueBy_id)

abbreviation putIntents :: "(string, external_action_intent) jmap \<Rightarrow> external_action_intent list \<Rightarrow> (string, external_action_intent) jmap" where
  "putIntents M xs \<equiv> foldl (\<lambda>intents intent. jm_set (ei_intent_id intent) intent intents) M xs"

lemma putIntents_distinct:
  "distinct (map ei_intent_id xs) \<Longrightarrow> ei_intent_id ` set xs \<inter> fst ` set M = {} \<Longrightarrow>
     putIntents M xs = M @ map (\<lambda>x. (ei_intent_id x, x)) xs"
  by (induction xs arbitrary: M) (auto simp: update_absent image_iff)

lemma putIntents_keys:
  "distinct (map fst M) \<Longrightarrow> \<forall>(k, v) \<in> set M. k = ei_intent_id v \<Longrightarrow>
     distinct (map fst (putIntents M xs)) \<and> (\<forall>(k, v) \<in> set (putIntents M xs). k = ei_intent_id v)"
proof (induction xs arbitrary: M)
  case (Cons x xs)
  have "\<forall>(k, v) \<in> set (jm_set (ei_intent_id x) x M). k = ei_intent_id v" using Cons.prems(2) by (induction M) auto
  then show ?case using Cons.IH [of "jm_set (ei_intent_id x) x M"] Cons.prems(1) by (simp add: distinct_update)
qed simp

lemma putIntents_again: "map snd (putIntents [] (map snd (putIntents [] xs))) = map snd (putIntents [] xs)"
proof -
  have k: "distinct (map fst (putIntents [] xs))" "\<forall>(k, v) \<in> set (putIntents [] xs). k = ei_intent_id v" using putIntents_keys [of "[]" xs] by simp_all
  have "map ei_intent_id (map snd (putIntents [] xs)) = map fst (putIntents [] xs)" using k(2) by auto
  then have "distinct (map ei_intent_id (map snd (putIntents [] xs)))" using k(1) by metis
  from putIntents_distinct [OF this, of "[]"] show ?thesis by (simp add: comp_def)
qed

lemma identifiable_none: "identifiable noReconciliation"
  by (simp add: identifiable_def noReconciliation_def orList_def)

lemma distinct_liveMessages:
  assumes "identifiable input"
  shows "distinct (liveBlockerMessages H messages input)"
proof -
  have "inj_on lb_message (set (map snd (liveMap H (map (parseLegacyBlocker H) messages) input)))"
  proof (rule inj_onI)
    fix x y
    assume m: "x \<in> set (map snd (liveMap H (map (parseLegacyBlocker H) messages) input))"
      "y \<in> set (map snd (liveMap H (map (parseLegacyBlocker H) messages) input))" "lb_message x = lb_message y"
    show "x = y" by (metis live_parses [OF assms m(1)] live_parses [OF assms m(2)] m(3))
  qed
  then show ?thesis using distinct_live by (simp add: liveBlockerMessages_def reconcile_liveMap distinct_map)
qed

text \<open>A state that an application without changes leaves alone.\<close>

definition settledState :: "host \<Rightarrow> working_state \<Rightarrow> bool" where
  "settledState H s \<longleftrightarrow> uniqueFacts (ws_confirmed_facts s) = ws_confirmed_facts s \<and> uniqueHypotheses (ws_rejected_hypotheses s) = ws_rejected_hypotheses s
     \<and> distinct (ws_open_questions s) \<and> distinct (ws_blockers s) \<and> liveBlockerMessages H (ws_blockers s) noReconciliation = ws_blockers s
     \<and> distinct (ws_completed_task_ids s) \<and> distinct (ws_pending_task_ids s) \<and> set (ws_pending_task_ids s) \<inter> set (ws_completed_task_ids s) = {}
     \<and> distinct (ws_capability_grants s) \<and> distinct (ws_approval_digests s) \<and> distinct (ws_input_digests s)
     \<and> map snd (putIntents [] (ws_external_action_intents s)) = ws_external_action_intents s"

lemma metered_state:
  assumes "applyWorkingStateProposal H s (meteredUse t) = Inr s'"
  shows "s' = s\<lparr>ws_confirmed_facts := uniqueFacts (ws_confirmed_facts s), ws_rejected_hypotheses := uniqueHypotheses (ws_rejected_hypotheses s),
     ws_open_questions := dedupe (ws_open_questions s), ws_blockers := liveBlockerMessages H (dedupe (ws_blockers s)) noReconciliation,
     ws_completed_task_ids := dedupe (ws_completed_task_ids s),
     ws_pending_task_ids := dedupe (filter (\<lambda>x. x \<notin> set (ws_completed_task_ids s)) (ws_pending_task_ids s)),
     ws_budget := proposedBudget s (meteredUse t), ws_capability_grants := dedupe (ws_capability_grants s),
     ws_approval_digests := dedupe (ws_approval_digests s), ws_input_digests := dedupe (ws_input_digests s),
     ws_external_action_intents := map snd (putIntents [] (ws_external_action_intents s))\<rparr>"
  using assms unfolding applyWorkingStateProposal_def
  by (simp split: if_splits)
    (simp add: meteredUse_def emptyProposal_def orList_def proposedBlockers_def proposedCompleted_def proposedPending_def proposedIntents_def uniqueStrings_def)

lemma metered_settles: "applyWorkingStateProposal H s (meteredUse t) = Inr s' \<Longrightarrow> settledState H s'"
  using distinct_liveMessages [OF identifiable_none] reconcile_idempotent [OF identifiable_none] putIntents_again
  by (auto dest!: metered_state simp: settledState_def uniqueFacts_def uniqueHypotheses_def uniqueBy_again)

lemma metered_settled:
  assumes "applyWorkingStateProposal H s (meteredUse t) = Inr s'" "settledState H s"
  shows "s' = s\<lparr>ws_budget := ws_budget s'\<rparr>"
proof -
  have "filter (\<lambda>x. x \<notin> set (ws_completed_task_ids s)) (ws_pending_task_ids s) = ws_pending_task_ids s"
    using assms(2) by (auto simp: settledState_def intro!: filter_True)
  then show ?thesis using metered_state [OF assms(1)] assms(2) by (simp add: settledState_def)
qed

section \<open>A model that repeats itself\<close>

text \<open>The model asks for the same call in every step and proposes nothing; the call always succeeds with the same output digest.\<close>

definition stagnant :: "'w loop_ports \<Rightarrow> normalized_tool_call \<Rightarrow> string \<Rightarrow> bool" where
  "stagnant ports call d \<longleftrightarrow> (\<forall>i w. fst (lo_step ports i w) = Inr (step_work (Some [call]) None None))
     \<and> (\<forall>g w. \<exists>out. fst (lo_invokeTool ports call g w) = Inr out \<and> tv_output_digest out = d)"

lemma stagnant_work:
  assumes "stagnant ports call d" "workStep H envelope ports run tokens (Some [call]) None None s w = loop_again s' w'"
  shows "\<exists>x t. callObservation H call (ls_state s) (dedupe (ls_evidence_digests s @ [d])) = Inr x \<and> \<not> rr_repeated (fst (observe x (ls_detector s)))
     \<and> ls_detector s' = snd (observe x (ls_detector s)) \<and> ls_evidence_digests s' = dedupe (ls_evidence_digests s @ [d])
     \<and> applyWorkingStateProposal H (ls_state s) (meteredUse t) = Inr (ls_state s')"
proof -
  obtain out v where i: "lo_invokeTool ports call (ls_grant s) w = (Inr out, v)" "tv_output_digest out = d"
    using assms(1) unfolding stagnant_def by (metis prod.collapse)
  have invoke: "invokeWithRetry ports retries call 0 s w = (Inr out, emit (event_tool_call (tc_tool call)) s, v)" for retries
    by (simp add: invokeWithRetry.simps [of ports retries call 0 s w] i(1))
  have "\<exists>x. callObservation H call (ls_state s) (dedupe (ls_evidence_digests s @ [d])) = Inr x \<and> \<not> rr_repeated (fst (observe x (ls_detector s)))"
  proof (rule ccontr)
    assume none: "\<not> ?thesis"
    have "\<exists>failure s1. runToolCalls H ports retries [call] s w = (Inl failure, s1, v)" for retries
      using none i(2) by (cases "callObservation H call (ls_state s) (dedupe (ls_evidence_digests s @ [d]))")
        (simp_all add: invoke observeCall_def case_prod_beta)
    then obtain failure s1 where "runToolCalls H ports (lp_max_tool_retries (te_loop_policy envelope)) [call] s w = (Inl failure, s1, v)" by blast
    then show False using assms(2) by (simp add: workStep_def orList_def)
  qed
  then obtain x where x: "callObservation H call (ls_state s) (dedupe (ls_evidence_digests s @ [d])) = Inr x" "\<not> rr_repeated (fst (observe x (ls_detector s)))"
    by blast
  let ?s1 = "snd (observeCall H call out (emit (event_tool_call (tc_tool call)) s))"
  have s1: "ls_detector ?s1 = snd (observe x (ls_detector s))" "ls_evidence_digests ?s1 = dedupe (ls_evidence_digests s @ [d])" "ls_state ?s1 = ls_state s"
    using x i(2) by (simp_all add: observeCall_def case_prod_beta)
  have "runToolCalls H ports retries [call] s w = (Inr (), ?s1, v)" for retries
    using x i(2) by (simp add: invoke observeCall_def case_prod_beta)
  then obtain s2 w2 t where a: "accountStep H ports tokens None None ?s1 v = (Inr (), s2, w2)" and n: "narrowStep H (te_loop_policy envelope) t s2 = Inr s'"
    using assms(2) unfolding workStep_def Let_def by (auto simp: orList_def split: prod.splits sum.splits if_splits option.splits)
  have kept: "ls_detector s' = ls_detector s2" "ls_evidence_digests s' = ls_evidence_digests s2" "ls_state s' = ls_state s2"
    using n by (auto simp: narrowStep_def Let_def rbind_Inr_iff)
  have "ls_detector s2 = ls_detector ?s1 \<and> ls_evidence_digests s2 = ls_evidence_digests ?s1
      \<and> (\<exists>t. applyWorkingStateProposal H (ls_state ?s1) (meteredUse t) = Inr (ls_state s2))"
    using a by (auto simp: accountStep_def applyModelProposal_def Let_def split: prod.splits sum.splits)
  then show ?thesis using x s1 kept by auto
qed

lemma repeated_count:
  assumes "\<forall>y \<in> set (tl l). y = x" "length l = Suc n"
  shows "min m n \<le> length (filter (\<lambda>y. y = x) (drop (Suc n - m) l))"
proof (cases "m \<le> n")
  case True
  then have "drop (Suc n - m) l = drop (n - m) (tl l)" by (simp add: drop_Suc Suc_diff_le)
  moreover have "filter (\<lambda>y. y = x) (drop (n - m) (tl l)) = drop (n - m) (tl l)" using assms(1) by (auto intro!: filter_True dest: in_set_dropD)
  ultimately show ?thesis using assms(2) True by simp
next
  case False
  then have "Suc n - m = 0" by simp
  obtain a l' where l: "l = a # l'" using assms(2) by (cases l) auto
  have "filter (\<lambda>y. y = x) l' = l'" using assms(1) l by (auto intro!: filter_True)
  then show ?thesis using assms(2) l False \<open>Suc n - m = 0\<close> by simp
qed

text \<open>The detector of a stagnating run has seen one observation, and then only the same one.\<close>

definition stalled :: "host \<Rightarrow> normalized_tool_call \<Rightarrow> string \<Rightarrow> repeat_detection_policy \<Rightarrow> loop_state \<Rightarrow> bool" where
  "stalled H call d policy s \<longleftrightarrow> (\<exists>h. ls_detector s = fedDetector policy h \<and> length h = ls_used_steps s
     \<and> of_nat (ls_used_steps s) \<le> rd_identical_action_limit policy
     \<and> (ls_used_steps s = 0 \<longrightarrow> ls_evidence_digests s = [])
     \<and> (ls_used_steps s \<noteq> 0 \<longrightarrow> ls_evidence_digests s = [d] \<and> settledState H (ls_state s)
          \<and> (\<forall>x \<in> set (tl h). callObservation H call (ls_state s) [d] = Inr x)))"

lemma semantic_budget [simp]: "semanticEntries (s\<lparr>ws_budget := b\<rparr>) = semanticEntries s"
  by (simp add: semanticEntries_def)

lemma stalled_step:
  assumes "stagnant ports call d" "stalled H call d (lp_repeat_detection (te_loop_policy envelope)) s" "isLoopPolicy (te_loop_policy envelope)"
    and "rd_identical_action_limit (lp_repeat_detection (te_loop_policy envelope)) \<le> rd_window (lp_repeat_detection (te_loop_policy envelope))"
    and "workStep H envelope ports run tokens (Some [call]) None None (emit event_step_started (s\<lparr>ls_used_steps := ls_used_steps s + 1\<rparr>)) w = loop_again s' w'"
  shows "stalled H call d (lp_repeat_detection (te_loop_policy envelope)) s'"
proof -
  let ?policy = "lp_repeat_detection (te_loop_policy envelope)" and ?n = "ls_used_steps s"
  have valid: "isInteger (rd_window ?policy)" "1 \<le> rd_window ?policy" "2 \<le> rd_identical_action_limit ?policy" "isInteger (rd_identical_action_limit ?policy)"
    using assms(3) by (auto simp: isLoopPolicy_def atLeast_def)
  obtain h where h: "ls_detector s = fedDetector ?policy h" "length h = ?n" "of_nat ?n \<le> rd_identical_action_limit ?policy"
    "?n = 0 \<longrightarrow> ls_evidence_digests s = []"
    "?n \<noteq> 0 \<longrightarrow> ls_evidence_digests s = [d] \<and> settledState H (ls_state s) \<and> (\<forall>x \<in> set (tl h). callObservation H call (ls_state s) [d] = Inr x)"
    using assms(2) by (auto simp: stalled_def)
  have digests: "dedupe (ls_evidence_digests s @ [d]) = [d]" using h(4,5) by (cases "?n = 0") (simp_all add: dedupe_def)
  obtain x t where x: "callObservation H call (ls_state s) [d] = Inr x" "\<not> rr_repeated (fst (observe x (fedDetector ?policy h)))"
    "ls_detector s' = snd (observe x (fedDetector ?policy h))" "ls_evidence_digests s' = [d]"
    "applyWorkingStateProposal H (ls_state s) (meteredUse t) = Inr (ls_state s')"
    using stagnant_work [OF assms(1,5)] digests h(1) by auto
  have used: "ls_used_steps s' = ?n + 1" using workStep_again(1) [OF assms(5)] by simp
  have same: "callObservation H call (ls_state s') [d] = Inr x" if "?n \<noteq> 0"
  proof -
    have "ls_state s' = (ls_state s)\<lparr>ws_budget := ws_budget (ls_state s')\<rparr>" using metered_settled [OF x(5)] h(5) that by blast
    then have "semanticEntries (ls_state s') = semanticEntries (ls_state s)" by (metis semantic_budget)
    then show ?thesis using x(1) by (simp add: callObservation_def progressStateDigest_def)
  qed
  have tail: "\<forall>y \<in> set (tl (h @ [x])). y = x" using h(2,5) x(1) by (cases h) auto
  have "of_nat (?n + 1) \<le> rd_identical_action_limit ?policy"
  proof (cases "?n = 0")
    case False
    let ?w = "nat \<lfloor>rd_window ?policy\<rfloor>"
    let ?count = "length (filter (\<lambda>y. y = x) (lastWindow (rd_window ?policy) (h @ [x])))"
    have "min ?w ?n \<le> ?count" using repeated_count [OF tail, of ?n ?w] h(2) valid(1,2) by (simp add: lastWindow_nat)
    moreover have "of_nat ?count < rd_identical_action_limit ?policy" using x(2) observe_exact [OF valid(1,2), of x h] by simp
    moreover have "rd_identical_action_limit ?policy \<le> of_nat ?w"
      using assms(4) valid(1,2) by (metis isInteger_def of_int_of_nat_eq of_nat_nat zero_le_floor zero_le_one order_trans)
    ultimately have "of_nat ?n < rd_identical_action_limit ?policy" by (cases "?w \<le> ?n") (auto simp: min_def)
    then show ?thesis by (rule next_integer [OF valid(4)])
  qed (use valid(3) in simp)
  moreover have "\<forall>y \<in> set (tl (h @ [x])). callObservation H call (ls_state s') [d] = Inr y"
    using same tail h(2) by (cases h) auto
  ultimately show ?thesis unfolding stalled_def used
    using x(3,4) h(2) metered_settles [OF x(5)] by (intro exI [of _ "h @ [x]"]) (simp add: fedDetector_def)
qed

lemma stalled_iteration:
  assumes "stagnant ports call d" "stalled H call d (lp_repeat_detection (te_loop_policy envelope)) s" "isLoopPolicy (te_loop_policy envelope)"
    and "rd_identical_action_limit (lp_repeat_detection (te_loop_policy envelope)) \<le> rd_window (lp_repeat_detection (te_loop_policy envelope))"
    and "loopIteration H envelope ports run s w = loop_again s' w'"
  shows "stalled H call d (lp_repeat_detection (te_loop_policy envelope)) s'"
proof -
  obtain v where "takeStep H envelope ports run s v = loop_again s' w'"
    using assms(5) unfolding loopIteration_def Let_def by (auto split: prod.splits bool.splits if_splits option.splits)
  moreover have "fst (lo_step ports i u) = Inr (step_work (Some [call]) None None)" for i u
    using assms(1) by (simp add: stagnant_def)
  ultimately obtain t u where "workStep H envelope ports run t (Some [call]) None None
      (emit event_step_started (s\<lparr>ls_used_steps := ls_used_steps s + 1\<rparr>)) u = loop_again s' w'"
    unfolding takeStep_def Let_def by (auto simp: case_prod_beta)
  then show ?thesis by (rule stalled_step [OF assms(1-4)])
qed

lemma stalled_runLoop:
  "stagnant ports call d \<Longrightarrow> isLoopPolicy (te_loop_policy envelope) \<Longrightarrow>
     rd_identical_action_limit (lp_repeat_detection (te_loop_policy envelope)) \<le> rd_window (lp_repeat_detection (te_loop_policy envelope)) \<Longrightarrow>
     stalled H call d (lp_repeat_detection (te_loop_policy envelope)) s \<Longrightarrow> running state grant s \<Longrightarrow>
     of_nat (ml_steps_executed (fst (runLoop H envelope ports run s w))) \<le> rd_identical_action_limit (lp_repeat_detection (te_loop_policy envelope)) + 1"
proof (induction H envelope ports run s w rule: runLoop.induct)
  case (1 H envelope ports run s w)
  note it = loopIteration_iterated [OF "1.prems"(5), where H = H and envelope = envelope and ports = ports and run = run and w = w]
  show ?case
  proof (cases "loopIteration H envelope ports run s w")
    case (loop_done r)
    then have "ml_steps_executed (fst r) \<le> ls_used_steps s + 1" using it by auto
    moreover have "of_nat (ls_used_steps s) \<le> rd_identical_action_limit (lp_repeat_detection (te_loop_policy envelope))"
      using "1.prems"(4) by (auto simp: stalled_def)
    ultimately show ?thesis by (simp add: runLoop.simps [of H envelope ports run s w] loop_done)
  next
    case (loop_again s' w')
    have "stalled H call d (lp_repeat_detection (te_loop_policy envelope)) s'" by (rule stalled_iteration [OF "1.prems"(1,4,2,3) loop_again])
    then show ?thesis using it loop_again "1.IH" [OF loop_again "1.prems"(1-3)]
      by (simp add: runLoop.simps [of H envelope ports run s w])
  qed
qed

lemma start_stalled: "isLoopPolicy (te_loop_policy envelope) \<Longrightarrow> stalled H call d (lp_repeat_detection (te_loop_policy envelope)) (startLoop envelope state grant)"
  by (auto simp: stalled_def startLoop_def fedDetector_def isLoopPolicy_def atLeast_def intro!: exI [of _ "[]"])

text \<open>
  C36. A model that keeps asking for the same call, with the same result and nothing new to propose, is stopped: when
  the policy can detect repetition at all (the limit fits into the window), the run ends after at most one step
  more than the limit, however many steps the policy would allow. The first metered step may still settle the
  working state, which is why the limit itself is not the bound.
\<close>
theorem stagnant_model_stopped:
  assumes "stagnant ports call d" "isLoopPolicy (te_loop_policy envelope)"
    and "rd_identical_action_limit (lp_repeat_detection (te_loop_policy envelope)) \<le> rd_window (lp_repeat_detection (te_loop_policy envelope))"
  shows "of_nat (ml_steps_executed (fst (runManagedLoop H envelope ports state grant w)))
     \<le> rd_identical_action_limit (lp_repeat_detection (te_loop_policy envelope)) + 1"
  using stalled_runLoop [OF assms start_stalled [OF assms(2)] start_running, where H = H]
  by (simp add: runManagedLoop_def case_prod_beta)

end
