(* ===== verification/Loop_Examples.thy ===== *)
theory Loop_Examples
  imports Loop_Stagnation
begin

text \<open>
  Two managed runs: a model that completes its work in the first step, and one that repeats a tool call. The
  theorems of the managed loop hold of them.
\<close>

section \<open>An envelope, a grant and two worlds\<close>

definition examplePolicy :: loop_policy where
  "examplePolicy = \<lparr>lp_max_steps = 30, lp_max_tokens = 100, lp_max_duration_ms = 100, lp_max_tool_retries = 2,
     lp_repeat_detection = repeatDefault, lp_termination = terminationDefault,
     lp_effective_policy_digest = exampleDigest [], lp_digest = exampleDigest []\<rparr>"

definition exampleEnvelope :: task_envelope where
  "exampleEnvelope = \<lparr>te_task_id = ''t'', te_plan_id = ''p'', te_iteration_id = ''i'', te_repository_id = ''r'', te_baseline_id = ''b'',
     te_objective = ''o'', te_expected_output = ''x'', te_acceptance_criteria = [], te_dependency_task_ids = [], te_required_gate_ids = [],
     te_input_node_revisions = [], te_context_bundle_id = ''c'', te_context_bundle_digest = exampleDigest [], te_protected_context_fields = [],
     te_allowed_read_paths = [''src''], te_proposed_write_paths = [''src''], te_state_read_fields = [], te_state_proposal_fields = [],
     te_tools = [], te_risk = low, te_required_approval_digests = [], te_external_side_effect = side_effect_forbidden,
     te_idempotency_scope = ''s'', te_loop_policy = examplePolicy, te_baseline_commit = ''h'', te_input_digest = exampleDigest [],
     te_stale_input_behavior = stale_block, te_digest = exampleDigest []\<rparr>"

definition loopGrant :: capability_grant where
  "loopGrant = \<lparr>cg_grant_id = ''g'', cg_task_id = ''t'', cg_capabilities = [], cg_read_paths = [''src''], cg_write_paths = [''src''],
     cg_state_fields = [], cg_tools = [], cg_phase = ''implementation'', cg_budget = \<lparr>gb_steps = 30, gb_tokens = 100\<rparr>,
     cg_approval_digests = [], cg_effective_policy_digest = exampleDigest [], cg_digest = exampleDigest []\<rparr>"

definition exampleCall :: normalized_tool_call where
  "exampleCall = \<lparr>tc_tool = ''read'', tc_parameters = [], tc_resource = None\<rparr>"

definition exampleEvidence :: tool_invocation_evidence where
  "exampleEvidence = \<lparr>tv_tool = ''read'', tv_request_digest = exampleDigest [], tv_output = JNull, tv_output_digest = exampleDigest [],
     tv_attempts = 1, tv_redacted = False, tv_replayed = False, tv_intent = None\<rparr>"

text \<open>The world counts the calls that reached it; the clock and the meter stand still.\<close>

definition examplePorts :: "model_step_outcome \<Rightarrow> nat loop_ports" where
  "examplePorts outcome = \<lparr>lo_clock = (\<lambda>w. (0, w)), lo_usedTokens = (\<lambda>w. (0, w)), lo_step = (\<lambda>_ w. (Inr outcome, Suc w)),
     lo_invokeTool = (\<lambda>_ _ w. (Inr exampleEvidence, Suc w)), lo_verify = (\<lambda>w. (Inr True, Suc w)), lo_isCancelled = (\<lambda>w. (False, w)),
     lo_message = (\<lambda>_. ''error'')\<rparr>"

abbreviation completingPorts :: "nat loop_ports" where
  "completingPorts \<equiv> examplePorts (step_complete None)"

abbreviation repeatingPorts :: "nat loop_ports" where
  "repeatingPorts \<equiv> examplePorts (step_work (Some [exampleCall]) None None)"

lemma examplePolicy_valid: "isLoopPolicy (te_loop_policy exampleEnvelope)"
  by (simp add: exampleEnvelope_def isLoopPolicy_def examplePolicy_def atLeast_def positiveInteger_def isInteger_def repeatDefault_def digestPattern_example)

lemma repeating_stagnant: "stagnant repeatingPorts exampleCall (exampleDigest [])"
  by (simp add: stagnant_def examplePorts_def exampleEvidence_def)

definition completedRun :: managed_loop_result where
  "completedRun = \<lparr>ml_decision = completionDecision True, ml_steps_executed = 1, ml_tokens_used = 0, ml_duration_ms = 0, ml_state = exampleState,
       ml_grant = loopGrant, ml_evidence = [], ml_partial_outputs = [],
       ml_events = [(1, event_step_started), (1, event_completion_signaled), (1, event_terminated ended_completion)]\<rparr>"

lemma completing_run:
  "runManagedLoop exampleHost exampleEnvelope completingPorts exampleState loopGrant 0 =
     (completedRun, 2)"
  by (simp add: completedRun_def runManagedLoop_def runLoop.simps loopIteration_def takeStep_def completeRun_def ceilingReached_def finish_def loopResult_def
      startLoop_def emit_def applyModelProposal_def completionDecision_def decision_def examplePorts_def exampleEnvelope_def examplePolicy_def
      terminationDefault_def numeral_2_eq_2)

section \<open>The theorems on the runs\<close>

theorem managed_loop_bounded_witness:
  "\<exists>r w'. runManagedLoop exampleHost exampleEnvelope completingPorts exampleState loopGrant 0 = (r, w')
     \<and> of_nat (ml_steps_executed r) \<le> (30 :: rat) \<and> starts (ml_events r) = 1"
proof (intro exI conjI)
  show "runManagedLoop exampleHost exampleEnvelope completingPorts exampleState loopGrant 0 = (completedRun, 2)" by (rule completing_run)
  have "lp_max_steps (te_loop_policy exampleEnvelope) = 30" by (simp add: exampleEnvelope_def examplePolicy_def)
  then show "of_nat (ml_steps_executed completedRun) \<le> (30 :: rat)" "starts (ml_events completedRun) = 1"
    using managed_loop_bounded [OF examplePolicy_valid completing_run] by (simp_all add: completedRun_def)
qed

theorem managed_loop_confines_model_witness:
  "let r = fst (runManagedLoop exampleHost exampleEnvelope repeatingPorts exampleState loopGrant 0)
   in ws_goal (ml_state r) = ws_goal exampleState \<and> cg_write_paths (ml_grant r) = [''src'']"
  using managed_loop_confines_model [OF examplePolicy_valid surjective_pairing,
      where H = exampleHost and ports = repeatingPorts and state = exampleState and grant = loopGrant and w = 0]
  by (simp add: Let_def shielded_def shrunk_def loopGrant_def)

theorem managed_loop_success_verified_witness:
  "td_outcome (ml_decision (fst (runManagedLoop exampleHost exampleEnvelope completingPorts exampleState loopGrant 0))) = run_success
   \<and> (\<exists>v v'. lo_verify completingPorts v = (Inr True, v'))"
proof -
  have success: "td_outcome (ml_decision completedRun) = run_success" by (simp add: completedRun_def completionDecision_def decision_def)
  have "tp_require_external_verification (lp_termination (te_loop_policy exampleEnvelope))"
    by (simp add: exampleEnvelope_def examplePolicy_def terminationDefault_def)
  then show ?thesis using managed_loop_success_verified [OF completing_run success] success by (auto simp: completing_run)
qed

theorem stagnant_model_stopped_witness:
  "ml_steps_executed (fst (runManagedLoop exampleHost exampleEnvelope repeatingPorts exampleState loopGrant 0)) \<le> 3"
proof -
  have "rd_identical_action_limit (lp_repeat_detection (te_loop_policy exampleEnvelope)) = 2"
    "rd_window (lp_repeat_detection (te_loop_policy exampleEnvelope)) = 6"
    by (simp_all add: exampleEnvelope_def examplePolicy_def repeatDefault_def)
  then have "rat_of_nat (ml_steps_executed (fst (runManagedLoop exampleHost exampleEnvelope repeatingPorts exampleState loopGrant 0))) \<le> of_nat 3"
    using stagnant_model_stopped [OF repeating_stagnant examplePolicy_valid, of exampleHost exampleState loopGrant 0] by simp
  then show ?thesis by (simp only: of_nat_le_iff)
qed

end
