(* ===== verification/Tool_Effects.thy ===== *)
theory Tool_Effects
  imports Tool_Invocation
begin

text \<open>
  What tool invocations guarantee: a handler is only called for an authorised request, no string of the returned
  output holds a secret, and over any interleaving of calls, restarts and reconciliations, with a provider that
  applies requests at any time, each tool and idempotency key takes effect at most once.
\<close>

section \<open>Authorised calls\<close>

text \<open>
  What the code requires of a request before the handler of a descriptor may run, given the resolved parameters and
  the digest of the request.
\<close>

definition authorised :: "host \<Rightarrow> tool_definition \<Rightarrow> tool_invocation_request \<Rightarrow> tool_invocation_context \<Rightarrow> json \<Rightarrow> string \<Rightarrow> bool" where
  "authorised H d request ctx parameters digest \<longleftrightarrow>
     iv_phase request \<in> set (df_allowed_phases d)
     \<and> (case iv_resource request of None \<Rightarrow> df_resource_patterns d = [] | Some r \<Rightarrow> resourceMatchesPatterns (df_resource_patterns d) r)
     \<and> (\<forall>(key, allowed) \<in> set (df_parameter_bounds d). \<forall>v. fieldValue parameters key = Some v \<longrightarrow> isScalar v \<longrightarrow> v \<in> set allowed)
     \<and> (\<forall>g. ic_grant ctx = Some g \<longrightarrow> grantDenialReason H g (toolAction d request) = None)
     \<and> (df_requires_approval d \<longrightarrow> (\<exists>approval valid. iv_approval_digest request = Some approval \<and> ic_validateApproval ctx = Some valid
          \<and> valid approval digest \<and> (\<forall>g. ic_grant ctx = Some g \<longrightarrow> approval \<in> set (cg_approval_digests g))))"

lemma rguard_Inr [simp]: "rguard c e = Inr x \<longleftrightarrow> c"
  by (simp add: rguard_def)

lemma checkResource_Inr: "checkResource d resource = Inr () \<Longrightarrow>
    (case resource of None \<Rightarrow> df_resource_patterns d = [] | Some r \<Rightarrow> resourceMatchesPatterns (df_resource_patterns d) r)"
  by (auto simp: checkResource_def split: option.splits if_splits)

lemma checkApproval_Inr: "checkApproval d request digest ctx = Inr () \<Longrightarrow> df_requires_approval d \<Longrightarrow>
    \<exists>approval valid. iv_approval_digest request = Some approval \<and> ic_validateApproval ctx = Some valid \<and> valid approval digest
      \<and> (\<forall>g. ic_grant ctx = Some g \<longrightarrow> approval \<in> set (cg_approval_digests g))"
  by (auto simp: checkApproval_def split: option.splits if_splits)

lemma admitRequest_Inr:
  assumes "admitRequest H registry request ctx = Inr admitted"
  shows "getTool registry (iv_tool request) (iv_version request) = Some (ad_entry admitted)"
    "authorised H (rt_definition (ad_entry admitted)) request ctx (sv_parameters (ad_secrets admitted)) (ad_digest admitted)"
    "requestDigest H (toolKey (rt_definition (ad_entry admitted))) (iv_parameters request) (iv_resource request) = Inr (ad_digest admitted)"
    "rt_validateInput (ad_entry admitted) (sv_parameters (ad_secrets admitted))"
proof -
  obtain entry secrets digest where a: "requireEntry registry request = Inr entry" "admitted = \<lparr>ad_entry = entry, ad_secrets = secrets, ad_digest = digest\<rparr>"
    and r: "requestDigest H (toolKey (rt_definition entry)) (iv_parameters request) (iv_resource request) = Inr digest"
    and v: "rt_validateInput entry (sv_parameters secrets)"
    and c: "checkPhase (rt_definition entry) (iv_phase request) = Inr ()" "checkResource (rt_definition entry) (iv_resource request) = Inr ()"
      "checkParameterBounds (rt_definition entry) (sv_parameters secrets) = Inr ()" "checkGrant H (rt_definition entry) request (ic_grant ctx) = Inr ()"
      "checkApproval (rt_definition entry) request digest ctx = Inr ()"
    using assms unfolding admitRequest_def Let_def rbind_Inr_iff by auto
  show "getTool registry (iv_tool request) (iv_version request) = Some (ad_entry admitted)"
    using a by (auto simp: requireEntry_def split: option.splits)
  show "requestDigest H (toolKey (rt_definition (ad_entry admitted))) (iv_parameters request) (iv_resource request) = Inr (ad_digest admitted)"
    "rt_validateInput (ad_entry admitted) (sv_parameters (ad_secrets admitted))" using a r v by simp_all
  have "\<forall>(key, allowed) \<in> set (df_parameter_bounds (rt_definition entry)). \<forall>v. fieldValue (sv_parameters secrets) key = Some v \<longrightarrow> isScalar v \<longrightarrow> v \<in> set allowed"
    using c(3) by (fastforce simp: checkParameterBounds_def list_all_iff)
  then show "authorised H (rt_definition (ad_entry admitted)) request ctx (sv_parameters (ad_secrets admitted)) (ad_digest admitted)"
    using a c(1,4) checkResource_Inr [OF c(2)] checkApproval_Inr [OF c(5)] by (auto simp: authorised_def checkPhase_def checkGrant_def split: option.splits)
qed

lemma externalGate_Inr:
  assumes "externalGate H d request digest journal = Inr (Inr gate)"
  shows "if isExternal d then \<exists>key j. gate = Some (key, j) \<and> iv_idempotency_key request = Some key \<and> journal = Some j
      \<and> findByIdempotencyKey j (toolKey d) key = None else gate = None"
  using assms by (auto simp: externalGate_def rbind_Inr_iff split: if_splits option.splits)

lemma prepare_call:
  assumes "prepareInvocation H registry request ctx journal = (Inr (prepared_call call), registry', journal')"
  shows "pc_request call = request" "getTool registry (iv_tool request) (iv_version request) = Some (pc_entry call)"
    "authorised H (rt_definition (pc_entry call)) request ctx (sv_parameters (pc_secrets call)) (pc_digest call)"
    "consumeQuota registry (rt_definition (pc_entry call)) = Inr registry'"
    "if isExternal (rt_definition (pc_entry call))
     then \<exists>key j j' intent. iv_idempotency_key request = Some key \<and> journal = Some j \<and> findByIdempotencyKey j (toolKey (rt_definition (pc_entry call))) key = None
       \<and> openIntent j (intentInput (rt_definition (pc_entry call)) request (pc_digest call) key) = Inr (intent, j')
       \<and> pc_intent call = Some intent \<and> journal' = Some j'
     else pc_intent call = None \<and> journal' = journal"
proof -
  obtain admitted where a: "admitRequest H registry request ctx = Inr admitted" using assms by (auto simp: prepareInvocation_def split: sum.splits)
  let ?d = "rt_definition (ad_entry admitted)"
  obtain gate where g: "externalGate H ?d request (ad_digest admitted) journal = Inr (Inr gate)"
    using assms a by (auto simp: prepareInvocation_def Let_def split: sum.splits)
  obtain r where q: "consumeQuota registry ?d = Inr r" using assms a g by (auto simp: prepareInvocation_def Let_def split: sum.splits)
  let ?call = "\<lparr>pc_entry = ad_entry admitted, pc_request = request, pc_secrets = ad_secrets admitted, pc_digest = ad_digest admitted, pc_intent = None\<rparr>"
  have c: "if gate = None then call = ?call \<and> registry' = r \<and> journal' = journal
     else \<exists>intent j'. openIntent (snd (the gate)) (intentInput ?d request (ad_digest admitted) (fst (the gate))) = Inr (intent, j')
        \<and> call = ?call\<lparr>pc_intent := Some intent\<rparr> \<and> registry' = r \<and> journal' = Some j'"
    using assms a g q by (auto simp: prepareInvocation_def Let_def split: sum.splits option.splits prod.splits)
  then have e: "pc_entry call = ad_entry admitted" "pc_request call = request" "pc_secrets call = ad_secrets admitted" "pc_digest call = ad_digest admitted" "registry' = r"
    by (auto split: if_splits)
  show "pc_request call = request" "getTool registry (iv_tool request) (iv_version request) = Some (pc_entry call)"
    "authorised H (rt_definition (pc_entry call)) request ctx (sv_parameters (pc_secrets call)) (pc_digest call)"
    "consumeQuota registry (rt_definition (pc_entry call)) = Inr registry'"
    using e q admitRequest_Inr [OF a] by simp_all
  show "if isExternal (rt_definition (pc_entry call))
     then \<exists>key j j' intent. iv_idempotency_key request = Some key \<and> journal = Some j \<and> findByIdempotencyKey j (toolKey (rt_definition (pc_entry call))) key = None
       \<and> openIntent j (intentInput (rt_definition (pc_entry call)) request (pc_digest call) key) = Inr (intent, j')
       \<and> pc_intent call = Some intent \<and> journal' = Some j'
     else pc_intent call = None \<and> journal' = journal"
  proof (cases gate)
    case None
    have "pc_intent call = None" "journal' = journal" using c None by auto
    then show ?thesis using externalGate_Inr [OF g] e None by (auto split: if_splits)
  next
    case (Some kj)
    obtain intent j' where "openIntent (snd kj) (intentInput ?d request (ad_digest admitted) (fst kj)) = Inr (intent, j')"
      "pc_intent call = Some intent" "journal' = Some j'" using c Some by auto
    then show ?thesis using externalGate_Inr [OF g] e Some by (auto split: if_splits)
  qed
qed

lemma prepare_secrets:
  assumes "prepareInvocation H registry request ctx journal = (Inr (prepared_call call), registry', journal')"
  shows "resolveSecretParameters H (iv_parameters request) (df_secret_parameters (rt_definition (pc_entry call))) (ic_env ctx) = Inr (pc_secrets call)"
    "requestDigest H (toolKey (rt_definition (pc_entry call))) (iv_parameters request) (iv_resource request) = Inr (pc_digest call)"
    "rt_validateInput (pc_entry call) (sv_parameters (pc_secrets call))"
proof -
  obtain admitted where a: "admitRequest H registry request ctx = Inr admitted" "pc_entry call = ad_entry admitted" "pc_secrets call = ad_secrets admitted"
    and digest: "pc_digest call = ad_digest admitted"
    using assms by (auto simp: prepareInvocation_def Let_def split: sum.splits option.splits prod.splits)
  show "resolveSecretParameters H (iv_parameters request) (df_secret_parameters (rt_definition (pc_entry call))) (ic_env ctx) = Inr (pc_secrets call)"
    using a unfolding admitRequest_def Let_def rbind_Inr_iff by auto
  show "requestDigest H (toolKey (rt_definition (pc_entry call))) (iv_parameters request) (iv_resource request) = Inr (pc_digest call)"
    "rt_validateInput (pc_entry call) (sv_parameters (pc_secrets call))" using a(2,3) digest admitRequest_Inr(3,4) [OF a(1)] by simp_all
qed

lemma prepare_other:
  assumes "prepareInvocation H registry request ctx journal = (r, registry', journal')" "\<forall>call. r \<noteq> Inr (prepared_call call)"
  shows "journal' = journal" "tr_tools registry' = tr_tools registry"
proof -
  have "journal' = journal \<and> (registry' = registry \<or> (\<exists>d. consumeQuota registry d = Inr registry'))"
    using assms unfolding prepareInvocation_def Let_def by (auto split: sum.splits option.splits prod.splits)
  then show "journal' = journal" "tr_tools registry' = tr_tools registry" using consumeQuota_Inr(1) by auto
qed

section \<open>What settling does to the journal\<close>

text \<open>A settled call may overwrite the record of its own intent, and leaves every other record alone.\<close>

definition sameAction :: "action_intent_record \<Rightarrow> action_intent_record \<Rightarrow> bool" where
  "sameAction i m \<longleftrightarrow> ai_intent_id m = ai_intent_id i \<and> ai_tool m = ai_tool i \<and> ai_idempotency_key m = ai_idempotency_key i"

text \<open>Completed by reconciliation: the effect is known, its result is not.\<close>

definition reconciledApplied :: "action_intent_record \<Rightarrow> bool" where
  "reconciledApplied i \<longleftrightarrow> ai_status i = action_completed \<and> ai_result_digest i = None"

definition touches :: "action_intent_record \<Rightarrow> intent_journal \<Rightarrow> intent_journal \<Rightarrow> bool" where
  "touches i j j' \<longleftrightarrow> keyedJournal j' \<and> (\<forall>x. getIntent j' x = getIntent j x
     \<or> x = ai_intent_id i \<and> (\<exists>m. getIntent j' x = Some m \<and> sameAction i m \<and> \<not> reconciledApplied m))"

lemma touches_refl: "keyedJournal j \<Longrightarrow> touches i j j"
  by (simp add: touches_def)

lemma touches_move:
  assumes "touches i j j1" "moveIntent j1 i status digest = Inr (moved, j2)" "status = action_completed \<longrightarrow> digest \<noteq> None"
  shows "touches i j j2"
  using assms(1,3) moveIntent_Inr(1,2) [OF assms(2)] keyed_replace by (auto simp: touches_def sameAction_def reconciledApplied_def)

lemma getIntent_remember: "getIntent (rememberOutput j x out) = getIntent j"
  by (simp add: rememberOutput_def getIntent_def fun_eq_iff)

lemma touches_remember: "touches i j j1 \<Longrightarrow> touches i j (rememberOutput j1 x out)"
  using getIntent_remember [of j1 x out] by (simp add: touches_def rememberOutput_def keyedJournal_def)

lemma pending_moves:
  assumes "ai_status i = action_pending" "status = action_completed \<or> status = action_uncertain"
  shows "moveIntent j i status digest = Inr (i\<lparr>ai_status := status, ai_result_digest := digest\<rparr>, replaceIntent j (i\<lparr>ai_status := status, ai_result_digest := digest\<rparr>))"
  using assms by (auto simp: moveIntent_def transition_def)

lemma fail_touches:
  assumes "touches i j j1" "failAttempt d (Some i) n timedOut (Some j1) = (r, journal')"
  shows "\<exists>j'. journal' = Some j' \<and> touches i j j'"
  using assms touches_move [OF assms(1)] unfolding failAttempt_def markUncertain_def
  by (auto split: if_splits sum.splits prod.splits)

lemma close_touches:
  assumes "touches i j j1" "closeIntent H (Some i) v (Some j1) = Inr (c, journal')"
  shows "\<exists>j' m. journal' = Some j' \<and> touches i j j' \<and> c = Some m"
  using assms touches_move [OF assms(1)] by (auto simp: closeIntent_def completeIntent_def rbind_Inr_iff)

lemma settle_touches:
  assumes "keyedJournal j" "pc_intent call = Some i"
    and "settleAttempt H call n result (Some j) = (r, journal')"
  shows "\<exists>j'. journal' = Some j' \<and> touches i j j'"
proof -
  let ?d = "rt_definition (pc_entry call)"
  note t = touches_refl [OF assms(1), of i]
  have close: "\<exists>j' m. journal'' = Some j' \<and> touches i j j' \<and> c = Some m" if "closeIntent H (Some i) v (Some j) = Inr (c, journal'')" for v c journal''
    by (rule close_touches [OF t that])
  show ?thesis
  proof (cases result)
    case (handler_returned raw)
    obtain out flag where o: "redactOutput ?d raw (sv_values (pc_secrets call)) = (out, flag)" by (cases "redactOutput ?d raw (sv_values (pc_secrets call))")
    show ?thesis
    proof (cases "rt_validateOutput (pc_entry call) raw")
      case False
      show ?thesis
      proof (cases "closeIntent H (Some i) raw (Some j)")
        case (Inl e)
        then show ?thesis using assms(2,3) handler_returned False fail_touches [OF t] by (auto simp: settleAttempt_def Let_def)
      next
        case (Inr cj)
        then show ?thesis using assms(2,3) handler_returned False close [of raw "fst cj" "snd cj"] by (auto simp: settleAttempt_def Let_def case_prod_beta)
      qed
    next
      case True
      show ?thesis
      proof (cases "closeIntent H (Some i) out (Some j)")
        case (Inl e)
        then show ?thesis using assms(2,3) handler_returned True o fail_touches [OF t] by (auto simp: settleAttempt_def Let_def)
      next
        case (Inr cj)
        obtain j1 m where cj: "cj = (Some m, Some j1)" "touches i j j1" using close [of out "fst cj" "snd cj"] Inr by (cases cj) auto
        have "touches i j (rememberOutput j1 (ai_intent_id m) out)" by (rule touches_remember [OF cj(2)])
        then show ?thesis using assms(2,3) handler_returned True o Inr cj fail_touches
          by (auto simp: settleAttempt_def Let_def rememberClosed_def split: sum.splits)
      qed
    qed
  qed (use assms(2,3) fail_touches [OF t] in \<open>auto simp: settleAttempt_def Let_def\<close>)
qed

lemma fail_plain: "failAttempt d None n timedOut journal = (r, journal') \<Longrightarrow> journal' = journal"
  by (auto simp: failAttempt_def split: if_splits)

lemma settle_plain: "pc_intent call = None \<Longrightarrow> settleAttempt H call n result journal = (r, journal') \<Longrightarrow> journal' = journal"
  by (auto simp: settleAttempt_def Let_def closeIntent_def rememberClosed_def
      split: handler_outcome.splits if_splits prod.splits sum.splits dest: fail_plain)

section \<open>Interleaved calls\<close>

text \<open>
  A process with one registry and one journal, and the provider behind its external tools. The state of the
  process is that of the code; \<open>sy_checkpoint\<close> holds the intent records of the last checkpoint, and two lists
  record what the provider does, which the process cannot see: \<open>sy_open\<close> the requests that may still take effect,
  \<open>sy_applied\<close> the effects that took place, each by intent, tool and key. Nothing is ever taken from
  \<open>sy_applied\<close>.
\<close>

type_synonym effect = "string \<times> string \<times> string"

record 'w tool_system =
  sy_registry :: "'w tool_registry"
  sy_journal :: intent_journal
  sy_inflight :: "('w pending_call \<times> nat) list"
  sy_checkpoint :: "action_intent_record list"
  sy_open :: "effect list"
  sy_applied :: "effect list"

definition requests :: "'w tool_system \<Rightarrow> effect list" where
  "requests s = sy_open s @ sy_applied s"

definition effectOf :: "'w pending_call \<Rightarrow> effect list" where
  "effectOf call = (case pc_intent call of None \<Rightarrow> [] | Some i \<Rightarrow> [(ai_intent_id i, ai_tool i, ai_idempotency_key i)])"

definition actionOf :: "action_intent_record \<Rightarrow> string \<times> string" where
  "actionOf i = (ai_tool i, ai_idempotency_key i)"

text \<open>
  What a probe promises (\<^verbatim>\<open>reconciliation.ts\<close>): for an intent that is not completed, \<open>applied\<close> means that the effect
  took place, and \<open>not_applied\<close> that it did not and that no request for it is under way. Nothing is promised for a
  completed intent: it is not a subject of reconciliation.
\<close>

definition truthful :: "'w tool_system \<Rightarrow> 'w reconciliation_probe option \<Rightarrow> bool" where
  "truthful s probe \<longleftrightarrow> (\<forall>ask i w w'. probe = Some ask \<longrightarrow> ai_status i \<noteq> action_completed \<longrightarrow>
     (ask i w = (Inr probe_applied, w') \<longrightarrow> actionOf i \<in> snd ` set (sy_applied s))
     \<and> (ask i w = (Inr probe_not_applied, w') \<longrightarrow> actionOf i \<notin> snd ` set (requests s)))"

text \<open>What the decisions of a reconciliation mean for the journal.\<close>

definition followDecision :: "reconciliation_decision_kind \<Rightarrow> intent_journal \<Rightarrow> action_intent_record \<Rightarrow> tool_throw + intent_journal" where
  "followDecision kind journal intent =
     (case kind of
        reuse_result \<Rightarrow> rbind (markReconciledApplied journal intent) (\<lambda>(moved, journal'). Inr journal')
      | retry_allowed \<Rightarrow> releaseForRetry journal intent
      | manual_required \<Rightarrow> Inr journal)"

text \<open>The intents of all requests are in the last checkpoint: committed before the side effect.\<close>

definition committed :: "'w tool_system \<Rightarrow> bool" where
  "committed s \<longleftrightarrow> (\<forall>e \<in> set (requests s). \<exists>i \<in> set (sy_checkpoint s). ai_intent_id i = fst e)"

text \<open>
  The steps. A prepared call goes to its handler at once, and from then on its request may take effect, or get
  lost, at any time: while the handler runs, after it timed out, and after a restart. A restart keeps the
  records of the last checkpoint only. A reconciliation asks the probe about any intent of the journal,
  completed, pending or in flight, and follows the decision. \<open>owner\<close> is the assignment of intent ids: callers use
  an intent id for one tool and one key.
\<close>

inductive tool_step :: "host \<Rightarrow> schema_compiler \<Rightarrow> (string \<Rightarrow> string \<times> string) \<Rightarrow> 'w tool_system \<Rightarrow> 'w tool_system \<Rightarrow> bool"
  for H :: host and compile :: schema_compiler and owner :: "string \<Rightarrow> string \<times> string" where
  registered: "registerTool H compile (sy_registry s) raw handler = Inr (d, registry') \<Longrightarrow> tool_step H compile owner s (s\<lparr>sy_registry := registry'\<rparr>)"
| called: "prepareInvocation H (sy_registry s) request ctx (Some (sy_journal s)) = (Inr (prepared_call call), registry', Some journal') \<Longrightarrow>
    \<forall>i. pc_intent call = Some i \<longrightarrow> owner (ai_intent_id i) = actionOf i \<Longrightarrow>
    tool_step H compile owner s (s\<lparr>sy_registry := registry', sy_journal := journal', sy_inflight := sy_inflight s @ [(call, 1)],
      sy_open := sy_open s @ effectOf call\<rparr>)"
| stopped: "prepareInvocation H (sy_registry s) request ctx (Some (sy_journal s)) = (r, registry', Some journal') \<Longrightarrow>
    \<forall>call. r \<noteq> Inr (prepared_call call) \<Longrightarrow> tool_step H compile owner s (s\<lparr>sy_registry := registry', sy_journal := journal'\<rparr>)"
| settled: "sy_inflight s = before @ (call, n) # behind \<Longrightarrow> settleAttempt H call n result (Some (sy_journal s)) = (Some r, Some journal') \<Longrightarrow>
    tool_step H compile owner s (s\<lparr>sy_journal := journal', sy_inflight := before @ behind\<rparr>)"
| retried: "sy_inflight s = before @ (call, n) # behind \<Longrightarrow> settleAttempt H call n result (Some (sy_journal s)) = (None, Some journal') \<Longrightarrow>
    tool_step H compile owner s (s\<lparr>sy_journal := journal', sy_inflight := before @ (call, n + 1) # behind, sy_open := sy_open s @ effectOf call\<rparr>)"
| took_effect: "sy_open s = before @ e # behind \<Longrightarrow> tool_step H compile owner s (s\<lparr>sy_open := before @ behind, sy_applied := sy_applied s @ [e]\<rparr>)"
| request_lost: "sy_open s = before @ e # behind \<Longrightarrow> tool_step H compile owner s (s\<lparr>sy_open := before @ behind\<rparr>)"
| checkpointed: "tool_step H compile owner s (s\<lparr>sy_checkpoint := allIntents (sy_journal s)\<rparr>)"
| restarted: "committed s \<Longrightarrow>
    tool_step H compile owner s (s\<lparr>sy_registry := registry', sy_journal := restoreJournal (sy_checkpoint s), sy_inflight := []\<rparr>)"
| reconciled: "getIntent (sy_journal s) x = Some intent \<Longrightarrow> truthful s probe \<Longrightarrow>
    reconcileIntent intent (sy_registry s) probe w = (Inr d, w') \<Longrightarrow>
    followDecision (rc_decision d) (sy_journal s) intent = Inr journal' \<Longrightarrow> tool_step H compile owner s (s\<lparr>sy_journal := journal'\<rparr>)"

definition startSystem :: "'w tool_system" where
  "startSystem = \<lparr>sy_registry = emptyRegistry, sy_journal = emptyJournal, sy_inflight = [], sy_checkpoint = [], sy_open = [], sy_applied = []\<rparr>"

inductive tool_reachable :: "host \<Rightarrow> schema_compiler \<Rightarrow> (string \<Rightarrow> string \<times> string) \<Rightarrow> 'w tool_system \<Rightarrow> bool"
  for H :: host and compile :: schema_compiler and owner :: "string \<Rightarrow> string \<times> string" where
  tool_start: "tool_reachable H compile owner startSystem"
| tool_next: "tool_reachable H compile owner s \<Longrightarrow> tool_step H compile owner s s' \<Longrightarrow> tool_reachable H compile owner s'"

subsection \<open>The invariant\<close>

text \<open>A record respects the ids and, when reconciliation closed it, the provider.\<close>

definition soundRecord :: "(string \<Rightarrow> string \<times> string) \<Rightarrow> effect list \<Rightarrow> action_intent_record \<Rightarrow> bool" where
  "soundRecord owner applied i \<longleftrightarrow> owner (ai_intent_id i) = actionOf i \<and> (reconciledApplied i \<longrightarrow> actionOf i \<in> snd ` set applied)"

definition soundJournal :: "(string \<Rightarrow> string \<times> string) \<Rightarrow> effect list \<Rightarrow> intent_journal \<Rightarrow> bool" where
  "soundJournal owner applied j \<longleftrightarrow> keyedJournal j \<and> (\<forall>x i. getIntent j x = Some i \<longrightarrow> soundRecord owner applied i)"

definition covered :: "(string \<Rightarrow> string \<times> string) \<Rightarrow> intent_journal \<Rightarrow> effect list \<Rightarrow> bool" where
  "covered owner j es \<longleftrightarrow> distinct (map snd es) \<and> (\<forall>e \<in> set es. getIntent j (fst e) \<noteq> None \<and> owner (fst e) = snd e)"

definition ownedCall :: "(string \<Rightarrow> string \<times> string) \<Rightarrow> 'w pending_call \<Rightarrow> bool" where
  "ownedCall owner call \<longleftrightarrow> (\<forall>i. pc_intent call = Some i \<longrightarrow> owner (ai_intent_id i) = actionOf i \<and> isExternal (rt_definition (pc_entry call)))"

definition effectsOnce :: "(string \<Rightarrow> string \<times> string) \<Rightarrow> 'w tool_system \<Rightarrow> bool" where
  "effectsOnce owner s \<longleftrightarrow> soundJournal owner (sy_applied s) (sy_journal s) \<and> covered owner (sy_journal s) (requests s)
     \<and> (\<forall>i \<in> set (sy_checkpoint s). soundRecord owner (sy_applied s) i) \<and> (\<forall>c \<in> set (sy_inflight s). ownedCall owner (fst c))"

lemma soundRecord_mono: "soundRecord owner applied i \<Longrightarrow> set applied \<subseteq> set applied' \<Longrightarrow> soundRecord owner applied' i"
  by (auto simp: soundRecord_def)

lemma journal_owned:
  assumes "soundJournal owner applied j" "getIntent j x = Some i"
  shows "owner x = actionOf i" "ai_intent_id i = x"
  using assms keyed_get by (fastforce simp: soundJournal_def soundRecord_def)+

lemma sound_touches:
  assumes "soundJournal owner applied j" "touches i j j'" "owner (ai_intent_id i) = actionOf i"
  shows "soundJournal owner applied j'"
  unfolding soundJournal_def
proof (intro conjI allI impI)
  show "keyedJournal j'" using assms(2) by (simp add: touches_def)
  fix x m assume m: "getIntent j' x = Some m"
  show "soundRecord owner applied m"
  proof (cases "getIntent j' x = getIntent j x")
    case True
    then show ?thesis using assms(1) m by (simp add: soundJournal_def)
  next
    case False
    then obtain n where "getIntent j' x = Some n" "sameAction i n" "\<not> reconciledApplied n" using assms(2) unfolding touches_def by blast
    then have "sameAction i m" "\<not> reconciledApplied m" using m by simp_all
    then show ?thesis using assms(3) by (simp add: soundRecord_def sameAction_def actionOf_def)
  qed
qed

lemma covered_touches:
  assumes "covered owner j es" "touches i j j'"
  shows "covered owner j' es"
proof -
  have "getIntent j' x \<noteq> None" if "getIntent j x \<noteq> None" for x
    using assms(2) that unfolding touches_def by (metis option.distinct(1))
  then show ?thesis using assms(1) unfolding covered_def by blast
qed

lemma once_called:
  assumes "effectsOnce owner s" "prepareInvocation H (sy_registry s) request ctx (Some (sy_journal s)) = (Inr (prepared_call call), registry', Some journal')"
    and "\<forall>i. pc_intent call = Some i \<longrightarrow> owner (ai_intent_id i) = actionOf i"
  shows "effectsOnce owner (s\<lparr>sy_registry := registry', sy_journal := journal', sy_inflight := sy_inflight s @ [(call, 1)], sy_open := sy_open s @ effectOf call\<rparr>)"
proof (cases "isExternal (rt_definition (pc_entry call))")
  case False
  then have "pc_intent call = None" "journal' = sy_journal s" using prepare_call(5) [OF assms(2)] by simp_all
  then show ?thesis using assms(1) by (simp add: effectsOnce_def effectOf_def ownedCall_def requests_def)
next
  case True
  let ?j = "sy_journal s"
  obtain key intent where f: "findByIdempotencyKey ?j (toolKey (rt_definition (pc_entry call))) key = None"
    and o: "openIntent ?j (intentInput (rt_definition (pc_entry call)) request (pc_digest call) key) = Inr (intent, journal')" and c: "pc_intent call = Some intent"
    using prepare_call(5) [OF assms(2)] True by auto
  note once = assms(1) [unfolded effectsOnce_def]
  have i: "getIntent ?j (ai_intent_id intent) = None" "journal' = replaceIntent ?j intent" "ai_status intent = action_pending"
    "ai_tool intent = toolKey (rt_definition (pc_entry call))" "ai_idempotency_key intent = key"
    using openIntent_Inr [OF o] by (simp_all add: intentInput_def)
  have own: "owner (ai_intent_id intent) = actionOf intent" using assms(3) c by blast
  have keyed: "keyedJournal ?j" using once by (simp add: soundJournal_def)
  have fresh: "actionOf intent \<notin> snd ` set (requests s)"
  proof
    assume "actionOf intent \<in> snd ` set (requests s)"
    then obtain e where e: "e \<in> set (requests s)" "snd e = actionOf intent" by auto
    then obtain a where a: "getIntent ?j (fst e) = Some a" "owner (fst e) = snd e" using once by (auto simp: covered_def)
    have "actionOf a = snd e" using a once journal_owned(1) by metis
    then show False using find_key_None [OF keyed f a(1)] e(2) i(4,5) by (simp add: actionOf_def)
  qed
  have e: "effectOf call = [(ai_intent_id intent, actionOf intent)]" by (simp add: effectOf_def actionOf_def c)
  have "soundJournal owner (sy_applied s) journal'"
    using once keyed_replace own by (auto simp: soundJournal_def i(2,3) soundRecord_def reconciledApplied_def)
  moreover have "covered owner journal' (sy_open s @ effectOf call @ sy_applied s)"
    using once fresh own unfolding e by (auto simp: covered_def requests_def i(2))
  ultimately show ?thesis using once c own True by (simp add: effectsOnce_def requests_def ownedCall_def)
qed

lemma once_settled:
  assumes "effectsOnce owner s" "sy_inflight s = before @ (call, n) # behind" "settleAttempt H call n result (Some (sy_journal s)) = (r, Some journal')"
  shows "effectsOnce owner (s\<lparr>sy_journal := journal', sy_inflight := before @ behind\<rparr>)"
proof (cases "pc_intent call")
  case None
  then have "journal' = sy_journal s" using settle_plain assms(3) by blast
  then show ?thesis using assms(1,2) by (auto simp: effectsOnce_def requests_def)
next
  case (Some i)
  note once = assms(1) [unfolded effectsOnce_def]
  have t: "touches i (sy_journal s) journal'" using settle_touches [OF _ Some assms(3)] once by (auto simp: soundJournal_def)
  have "owner (ai_intent_id i) = actionOf i" using once assms(2) Some by (auto simp: ownedCall_def)
  then show ?thesis using once assms(2) sound_touches [OF _ t] covered_touches [OF _ t] by (auto simp: effectsOnce_def requests_def)
qed

lemma once_retried:
  assumes "effectsOnce owner s" "sy_inflight s = before @ (call, n) # behind" "settleAttempt H call n result (Some (sy_journal s)) = (None, Some journal')"
  shows "effectsOnce owner (s\<lparr>sy_journal := journal', sy_inflight := before @ (call, n + 1) # behind, sy_open := sy_open s @ effectOf call\<rparr>)"
proof -
  have plain: "pc_intent call = None" using settle_retry [OF assms(3)] assms(1,2) by (auto simp: effectsOnce_def ownedCall_def)
  then have "journal' = sy_journal s" using settle_plain assms(3) by blast
  then show ?thesis using assms(1,2) plain by (simp add: effectsOnce_def effectOf_def requests_def)
qed

lemma once_took_effect:
  assumes "effectsOnce owner s" "sy_open s = before @ e # behind"
  shows "effectsOnce owner (s\<lparr>sy_open := before @ behind, sy_applied := sy_applied s @ [e]\<rparr>)"
proof -
  have "soundRecord owner (sy_applied s @ [e]) i" if "soundRecord owner (sy_applied s) i" for i by (rule soundRecord_mono [OF that]) auto
  then show ?thesis using assms by (auto simp: effectsOnce_def soundJournal_def covered_def requests_def)
qed

lemma once_restarted:
  assumes "effectsOnce owner s" "committed s"
  shows "effectsOnce owner (s\<lparr>sy_registry := registry', sy_journal := restoreJournal (sy_checkpoint s), sy_inflight := []\<rparr>)"
proof -
  note once = assms(1) [unfolded effectsOnce_def]
  have "getIntent (restoreJournal (sy_checkpoint s)) (fst e) \<noteq> None" if "e \<in> set (requests s)" for e
    using that assms(2) restore_known(3) [of "sy_checkpoint s" "fst e"] by (auto simp: committed_def)
  then show ?thesis using once restore_known(1) restore_known(2) [where records = "sy_checkpoint s"]
    by (fastforce simp: effectsOnce_def soundJournal_def covered_def requests_def)
qed

lemma once_reconciled:
  assumes "effectsOnce owner s" "getIntent (sy_journal s) x = Some intent" "truthful s probe"
    and "reconcileIntent intent (sy_registry s) probe w = (Inr d, w')" "followDecision (rc_decision d) (sy_journal s) intent = Inr journal'"
  shows "effectsOnce owner (s\<lparr>sy_journal := journal'\<rparr>)"
proof -
  let ?j = "sy_journal s"
  note once = assms(1) [unfolded effectsOnce_def]
  have k: "keyedJournal ?j" "ai_intent_id intent = x" using once keyed_get [OF _ assms(2)] by (auto simp: soundJournal_def)
  have own: "owner x = actionOf intent" using once assms(2) journal_owned(1) by blast
  have "soundJournal owner (sy_applied s) journal' \<and> covered owner journal' (requests s)"
  proof (cases "rc_decision d")
    case reuse_result
    then obtain moved where m: "moveIntent ?j intent action_completed None = Inr (moved, journal')"
      using assms(5) by (auto simp: followDecision_def markReconciledApplied_def rbind_Inr_iff)
    obtain ask where "probe = Some ask" "ask intent w = (Inr probe_applied, w')" using reconcileIntent_reuse [OF assms(4) reuse_result] by blast
    then have "actionOf intent \<in> snd ` set (sy_applied s)" using assms(3) moveIntent_Inr(3) [OF m] unfolding truthful_def by blast
    then show ?thesis using once k own moveIntent_Inr(1,2) [OF m] keyed_replace [OF k(1)]
      by (auto simp: soundJournal_def covered_def soundRecord_def actionOf_def)
  next
    case retry_allowed
    then have r: "releaseForRetry ?j intent = Inr journal'" using assms(5) by (simp add: followDecision_def)
    obtain ask where "probe = Some ask" "ask intent w = (Inr probe_not_applied, w')" using reconcileIntent_retry [OF assms(4) retry_allowed] by blast
    then have no: "actionOf intent \<notin> snd ` set (requests s)" using assms(3) releaseForRetry_Inr(1) [OF r] unfolding truthful_def by blast
    have "fst e \<noteq> x" if "e \<in> set (requests s)" for e using that no own once by (metis covered_def imageI)
    then show ?thesis using once k releaseForRetry_Inr(2,3) [OF r] by (auto simp: soundJournal_def covered_def split: if_splits)
  next
    case manual_required
    then show ?thesis using assms(5) once by (simp add: followDecision_def)
  qed
  then show ?thesis using once by (simp add: effectsOnce_def requests_def)
qed

lemma once_step:
  assumes "effectsOnce owner s" "tool_step H compile owner s s'"
  shows "effectsOnce owner s'"
  using assms(2)
proof cases
  case (registered raw handler d registry')
  then show ?thesis using assms(1) by (simp add: effectsOnce_def requests_def)
next
  case (called request ctx call registry' journal')
  show ?thesis unfolding called(1) by (rule once_called [OF assms(1) called(2,3)])
next
  case (stopped request ctx r registry' journal')
  then show ?thesis using assms(1) prepare_other(1) [OF stopped(2,3)] by (simp add: effectsOnce_def requests_def)
next
  case (settled before call n behind result r journal')
  show ?thesis unfolding settled(1) by (rule once_settled [OF assms(1) settled(2,3)])
next
  case (retried before call n behind result journal')
  show ?thesis unfolding retried(1) by (rule once_retried [OF assms(1) retried(2,3)])
next
  case (took_effect before e behind)
  show ?thesis unfolding took_effect(1) by (rule once_took_effect [OF assms(1) took_effect(2)])
next
  case (request_lost before e behind)
  then show ?thesis using assms(1) by (auto simp: effectsOnce_def covered_def requests_def)
next
  case checkpointed
  then show ?thesis using assms(1) keyed_member by (auto simp: effectsOnce_def soundJournal_def requests_def)
next
  case (restarted registry')
  show ?thesis unfolding restarted(1) by (rule once_restarted [OF assms(1) restarted(2)])
next
  case (reconciled x intent probe w d w' journal')
  show ?thesis unfolding reconciled(1) by (rule once_reconciled [OF assms(1) reconciled(2-5)])
qed

lemma once_reachable: "tool_reachable H compile owner s \<Longrightarrow> effectsOnce owner s"
proof (induction rule: tool_reachable.induct)
  case tool_start
  show ?case by (simp add: effectsOnce_def startSystem_def requests_def soundJournal_def covered_def keyedJournal_def emptyJournal_def getIntent_def)
qed (rule once_step)

text \<open>
  C8. External effects happen at most once. Whatever the order in which calls are prepared, settled, retried,
  interrupted by restarts from a checkpoint and reconciled, and whenever a request takes effect, no two
  requests that took effect or may still do so share a tool and an idempotency key, each of them has
  its intent in the journal, and an intent that reconciliation closed as applied has its effect. The assumptions on
  the surroundings are in the steps: a probe tells the truth about intents that are not completed, a restart
  finds the intents of all requests in the last checkpoint, and callers use an intent id for one tool and key.
\<close>
theorem external_effects_once:
  assumes "tool_reachable H compile owner s"
  shows "distinct (map snd (sy_open s @ sy_applied s))
    \<and> (\<forall>e \<in> set (sy_open s @ sy_applied s). \<exists>i. getIntent (sy_journal s) (fst e) = Some i \<and> (ai_tool i, ai_idempotency_key i) = snd e)
    \<and> (\<forall>x i. getIntent (sy_journal s) x = Some i \<and> ai_status i = action_completed \<and> ai_result_digest i = None \<longrightarrow>
         (ai_tool i, ai_idempotency_key i) \<in> snd ` set (sy_applied s))"
proof (intro conjI ballI allI impI)
  note once = once_reachable [OF assms, unfolded effectsOnce_def]
  show "distinct (map snd (sy_open s @ sy_applied s))" using once by (simp add: covered_def requests_def)
  show "\<exists>i. getIntent (sy_journal s) (fst e) = Some i \<and> (ai_tool i, ai_idempotency_key i) = snd e" if e: "e \<in> set (sy_open s @ sy_applied s)" for e
  proof -
    have "\<forall>e \<in> set (requests s). getIntent (sy_journal s) (fst e) \<noteq> None \<and> owner (fst e) = snd e" using once by (simp add: covered_def)
    then obtain i where i: "getIntent (sy_journal s) (fst e) = Some i" "owner (fst e) = snd e" using e by (auto simp: requests_def)
    have "owner (fst e) = actionOf i" using once journal_owned(1) i(1) by blast
    then show ?thesis using i by (simp add: actionOf_def)
  qed
  show "(ai_tool i, ai_idempotency_key i) \<in> snd ` set (sy_applied s)"
    if "getIntent (sy_journal s) x = Some i \<and> ai_status i = action_completed \<and> ai_result_digest i = None" for x i
    using that once by (auto simp: soundJournal_def soundRecord_def reconciledApplied_def actionOf_def)
qed

section \<open>One invocation\<close>

lemma fail_no_evidence: "failAttempt d intent n timedOut journal \<noteq> (Some (Inr evidence), journal')"
  by (auto simp: failAttempt_def split: option.splits sum.splits prod.splits)

lemma evidenceOf_Inr:
  assumes "evidenceOf H d digest out attempts redacted replayed intent = Inr evidence"
  shows "tv_output evidence = out" "tv_attempts evidence = attempts" "tv_replayed evidence = replayed" "tv_request_digest evidence = digest"
  using assms by (auto simp: evidenceOf_def rbind_Inr_iff)

lemma settle_evidence:
  assumes "settleAttempt H call n result journal = (Some (Inr evidence), journal')"
  shows "\<exists>raw. result = handler_returned raw \<and> rt_validateOutput (pc_entry call) raw \<and> tv_attempts evidence = n \<and> \<not> tv_replayed evidence
     \<and> tv_output evidence = fst (redactOutput (rt_definition (pc_entry call)) raw (sv_values (pc_secrets call)))"
  using assms by (auto simp: settleAttempt_def Let_def fail_no_evidence split: handler_outcome.splits if_splits sum.splits prod.splits dest: evidenceOf_Inr)

lemma run_evidence:
  "runAttempts H call n journal w = (Inr evidence, journal', w') \<Longrightarrow>
     (\<exists>raw. tv_output evidence = fst (redactOutput (rt_definition (pc_entry call)) raw (sv_values (pc_secrets call)))
        \<and> rt_validateOutput (pc_entry call) raw)
     \<and> \<not> tv_replayed evidence \<and> (isExternal (rt_definition (pc_entry call)) \<longrightarrow> tv_attempts evidence = n + 1)"
proof (induction H call n journal w rule: runAttempts.induct)
  case (1 H call n journal w)
  obtain result v where h: "rt_handler (pc_entry call) (sv_parameters (pc_secrets call)) (iv_resource (pc_request call)) w = (result, v)"
    by (cases "rt_handler (pc_entry call) (sv_parameters (pc_secrets call)) (iv_resource (pc_request call)) w")
  obtain r j where s: "settleAttempt H call (n + 1) result journal = (r, j)" by (cases "settleAttempt H call (n + 1) result journal")
  show ?case
  proof (cases r)
    case None
    then show ?thesis using "1.IH" [OF h [symmetric] s [symmetric]] "1.prems" h s settle_retry [of H call "n + 1" result journal j]
      by (simp add: runAttempts.simps [of H call n journal w])
  next
    case (Some q)
    then have "q = Inr evidence" using "1.prems" h s by (simp add: runAttempts.simps [of H call n journal w])
    then show ?thesis using settle_evidence [of H call "n + 1" result journal evidence j] s Some by auto
  qed
qed

lemma redactOutput_clean:
  assumes "\<forall>secret \<in> set secrets. \<not> stringIncludes REDACTED_SECRET (snd secret)"
  shows "\<not> containsSecret (fst (redactOutput d raw secrets)) secrets"
proof -
  have "\<exists>v. fst (redactOutput d raw secrets) = redactSecretValues v secrets"
    by (cases raw) (auto simp: redactOutput_def case_prod_beta Let_def)
  then show ?thesis using redact_clean [OF assms] by (fastforce simp: assertNoSecretValues_def)
qed

text \<open>
  C9. A tool handler only runs for an authorised request. Either the invocation leaves the world and the journal as
  they were, or the tool is registered, the secret references of the request resolve, and with the resolved
  parameters and the digest of this very request: the input passes the schema, the request is in the phases and
  the resource scope of the tool, every bounded parameter that is a scalar has one of its allowed values, the
  grant permits it, a required approval is valid for that digest, the quota has room, and for an external
  tool no intent with its key exists yet.
\<close>
theorem invokeTool_authorised:
  assumes "invokeTool H registry request ctx journal w = (r, registry', journal', w')"
  shows "(w' = w \<and> journal' = journal) \<or> (\<exists>entry secrets digest. getTool registry (iv_tool request) (iv_version request) = Some entry
     \<and> resolveSecretParameters H (iv_parameters request) (df_secret_parameters (rt_definition entry)) (ic_env ctx) = Inr secrets
     \<and> requestDigest H (toolKey (rt_definition entry)) (iv_parameters request) (iv_resource request) = Inr digest
     \<and> rt_validateInput entry (sv_parameters secrets)
     \<and> authorised H (rt_definition entry) request ctx (sv_parameters secrets) digest
     \<and> of_nat (invocationsOf registry (rt_definition entry)) < df_max_invocations_per_run (rt_definition entry)
     \<and> (isExternal (rt_definition entry) \<longrightarrow> (\<exists>key j. iv_idempotency_key request = Some key \<and> journal = Some j
          \<and> findByIdempotencyKey j (toolKey (rt_definition entry)) key = None)))"
proof -
  obtain p q j where p: "prepareInvocation H registry request ctx journal = (p, q, j)" by (cases "prepareInvocation H registry request ctx journal")
  show ?thesis
  proof (cases "\<exists>call. p = Inr (prepared_call call)")
    case True
    then obtain call where "p = Inr (prepared_call call)" by blast
    then have c: "prepareInvocation H registry request ctx journal = (Inr (prepared_call call), q, j)" using p by simp
    have "isExternal (rt_definition (pc_entry call)) \<longrightarrow> (\<exists>key j. iv_idempotency_key request = Some key \<and> journal = Some j
        \<and> findByIdempotencyKey j (toolKey (rt_definition (pc_entry call))) key = None)"
      using prepare_call(5) [OF c] by (auto split: if_splits)
    then show ?thesis using prepare_call(2,3) [OF c] prepare_secrets [OF c] consumeQuota_Inr(4) [OF prepare_call(4) [OF c]] by blast
  next
    case False
    then have "w' = w \<and> journal' = j" using assms p by (auto simp: invokeTool_def split: sum.splits prepared.splits)
    then show ?thesis using prepare_other(1) [OF p] False by blast
  qed
qed

text \<open>
  C40. No string of the evidence of an executed call holds a secret. For the value of every environment variable that the
  request refers to, as long as no such value occurs in the placeholder text itself, no string value of the recorded
  output, at any depth, has it as a part; the keys of objects are not string values and are not covered. The output is
  the redaction of a value that passed the output schema, and an external call took one attempt.
\<close>
theorem invokeTool_redacts:
  assumes "invokeTool H registry request ctx journal w = (Inr evidence, registry', journal', w')" "\<not> tv_replayed evidence"
    and "\<forall>site \<in> set (findSecretReferences H (iv_parameters request)). \<forall>v. ic_env ctx (rs_name site) = Some v \<longrightarrow>
       \<not> (\<exists>a b. ''[redacted:secret]'' = a @ v @ b)"
  shows "(\<forall>site \<in> set (findSecretReferences H (iv_parameters request)). \<forall>v. ic_env ctx (rs_name site) = Some v \<longrightarrow>
       (\<forall>t \<in> set (stringValues (tv_output evidence)). \<not> (\<exists>a b. t = a @ v @ b)))
     \<and> (\<exists>entry secrets raw. getTool registry (iv_tool request) (iv_version request) = Some entry
          \<and> resolveSecretParameters H (iv_parameters request) (df_secret_parameters (rt_definition entry)) (ic_env ctx) = Inr secrets
          \<and> rt_validateOutput entry raw \<and> tv_output evidence = fst (redactOutput (rt_definition entry) raw (sv_values secrets))
          \<and> (isExternal (rt_definition entry) \<longrightarrow> tv_attempts evidence = 1))"
proof -
  obtain p q j where p: "prepareInvocation H registry request ctx journal = (p, q, j)" by (cases "prepareInvocation H registry request ctx journal")
  have "\<exists>call. p = Inr (prepared_call call)"
  proof (rule ccontr)
    assume no: "\<not> ?thesis"
    then have "p = Inr (prepared_replay evidence)" using assms(1) p by (auto simp: invokeTool_def split: sum.splits prepared.splits)
    then have "tv_replayed evidence" using p by (auto simp: prepareInvocation_def externalGate_def Let_def rbind_Inr_iff
        split: sum.splits option.splits if_splits prod.splits dest: evidenceOf_Inr)
    then show False using assms(2) by simp
  qed
  then obtain call where "p = Inr (prepared_call call)" by blast
  then have c: "prepareInvocation H registry request ctx journal = (Inr (prepared_call call), q, j)" using p by simp
  have "runAttempts H call 0 j w = (Inr evidence, journal', w')" using assms(1) c by (auto simp: invokeTool_def split: prod.splits)
  note run = run_evidence [OF this]
  note known = resolved_values [OF prepare_secrets(1) [OF c]]
  have "\<forall>secret \<in> set (sv_values (pc_secrets call)). \<not> stringIncludes REDACTED_SECRET (snd secret)"
    using assms(3) known(2) by (fastforce simp: stringIncludes_iff REDACTED_SECRET_def)
  then have "\<not> containsSecret (tv_output evidence) (sv_values (pc_secrets call))" using run redactOutput_clean by auto
  then have "\<forall>site \<in> set (findSecretReferences H (iv_parameters request)). \<forall>v. ic_env ctx (rs_name site) = Some v \<longrightarrow>
       (\<forall>t \<in> set (stringValues (tv_output evidence)). \<not> (\<exists>a b. t = a @ v @ b))"
    using known(1) by (fastforce simp: containsSecret_iff)
  then show ?thesis using run prepare_call(2) [OF c] prepare_secrets(1) [OF c] by auto
qed

end
