(* ===== verification/Tool_Examples.thy ===== *)
theory Tool_Examples
  imports Tool_Effects
begin

text \<open>
  A registry with one external tool that takes a secret, one call of it, and the theorems on tool invocations for
  them. The world counts the handler calls.
\<close>

section \<open>A tool, a request and a run\<close>

definition mailDescriptor :: json where
  "mailDescriptor = JObj
     [(''name'', JStr ''mail''), (''version'', JStr ''1.0.0''), (''description'', JStr ''sends''), (''risk'', JStr ''low''),
      (''side_effect_class'', JStr ''external''), (''retry_class'', JStr ''none''), (''reconciliation'', JStr ''provider''),
      (''secret_parameters'', JArr [JStr ''token'']), (''input_schema'', JObj []), (''output_schema'', JObj []),
      (''allowed_phases'', JArr [JStr ''execute'']), (''timeout_ms'', JNum 10), (''max_invocations_per_run'', JNum 2)]"

definition mailTool :: "string \<Rightarrow> tool_definition" where
  "mailTool digest = \<lparr>df_name = ''mail'', df_version = ''1.0.0'', df_description = ''sends'', df_input_schema = JObj [], df_output_schema = JObj [],
     df_allowed_phases = [''execute''], df_resource_patterns = [], df_parameter_bounds = [], df_risk = low, df_side_effect_class = effect_external,
     df_requires_approval = False, df_redacted_output_fields = [], df_secret_parameters = [''token''], df_timeout_ms = 10,
     df_retry_class = retry_none, df_max_retries = 0, df_max_invocations_per_run = 2, df_idempotent = False,
     df_reconciliation = reconcile_provider, df_digest = digest\<rparr>"

definition echoHandler :: "nat tool_handler" where
  "echoHandler parameters resource w = (handler_returned (JObj [(''sent'', parameters)]), Suc w)"

definition anySchema :: schema_compiler where
  "anySchema schema = Some (\<lambda>_. True)"

definition mailEntry :: "string \<Rightarrow> nat registered_tool" where
  "mailEntry digest = \<lparr>rt_definition = mailTool digest, rt_handler = echoHandler, rt_validateInput = (\<lambda>_. True), rt_validateOutput = (\<lambda>_. True)\<rparr>"

definition mailRegistry :: "string \<Rightarrow> nat tool_registry" where
  "mailRegistry digest = \<lparr>tr_tools = [(''mail'', [(''1.0.0'', mailEntry digest)])], tr_invocations = []\<rparr>"

definition mailRequest :: tool_invocation_request where
  "mailRequest = \<lparr>iv_intent_id = ''i1'', iv_tool = ''mail'', iv_version = Some ''1.0.0'', iv_phase = ''execute'', iv_resource = None,
     iv_parameters = [(''token'', JObj [(''$env'', JStr ''KEY'')])], iv_approval_digest = None, iv_idempotency_key = Some ''k''\<rparr>"

definition mailContext :: tool_invocation_context where
  "mailContext = \<lparr>ic_grant = None, ic_validateApproval = None, ic_env = (\<lambda>_. Some ''hunter2'')\<rparr>"

lemma mail_patterns: "toolNamePattern ''mail''" "toolVersionPattern ''1.0.0''" "secretParameterPattern ''token''" "secretNamePattern ''KEY''"
  by (simp_all add: toolNamePattern_def toolVersionPattern_def versionNumber_def versionTag_def secretParameterPattern_def secretNamePattern_def
      char_class_defs less_eq_char_def)

lemma mail_normalized: "\<exists>digest. normalizeToolDefinition exampleHost mailDescriptor = Inr (mailTool digest)"
proof -
  have "wellKeyed exampleHost (JObj (definitionEntries (mailTool [])))" by (simp add: definitionEntries_def mailTool_def stringsJson_def)
  then obtain digest where "contentDigest exampleHost (JObj (definitionEntries (mailTool []))) = Inr digest" using contentDigest_example by blast
  then show ?thesis
    by (simp add: normalizeToolDefinition_def mailDescriptor_def readNamed_def readChoice_def readStringArray_def readPositiveInteger_def readSchema_def
        readParameterBounds_def fieldOr_def mail_patterns trim_def trimEnd_def isSpace_def POLICY_RISKS_def isInteger_def dedupe_def fromHarness_def mailTool_def)
qed

definition mailSecrets :: resolved_secrets where
  "mailSecrets = \<lparr>sv_parameters = JObj [(''token'', JStr ''hunter2'')], sv_values = [(''KEY'', ''hunter2'')]\<rparr>"

lemma mail_secrets: "resolveSecretParameters exampleHost (iv_parameters mailRequest) [''token''] (ic_env mailContext) = Inr mailSecrets"
proof -
  have r: "secretReference (JObj [(''$env'', JStr ''KEY'')]) = Some ''KEY''" by (simp add: SECRET_REFERENCE_KEY_def mail_patterns)
  show ?thesis by (simp add: resolveSecretParameters_def findSecretReferences_def resolveSite_def topLevelOf_def mailRequest_def mailContext_def mailSecrets_def r
      del: secretReference.simps(1))
qed

definition mailIntent :: "string \<Rightarrow> action_intent_record" where
  "mailIntent digest = \<lparr>ai_intent_id = ''i1'', ai_tool = ''mail@1.0.0'', ai_request_digest = digest, ai_resource = None, ai_approval_digest = None,
     ai_idempotency_key = ''k'', ai_status = action_pending, ai_result_digest = None\<rparr>"

definition mailCall :: "string \<Rightarrow> string \<Rightarrow> nat pending_call" where
  "mailCall g digest = \<lparr>pc_entry = mailEntry g, pc_request = mailRequest, pc_secrets = mailSecrets, pc_digest = digest, pc_intent = Some (mailIntent digest)\<rparr>"

lemma mail_key: "toolKey (mailTool g) = ''mail@1.0.0''"
  by (simp add: toolKey_def keyOf_def mailTool_def)

lemma mail_prepared:
  "\<exists>digest. prepareInvocation exampleHost (mailRegistry g) mailRequest mailContext (Some emptyJournal) =
     (Inr (prepared_call (mailCall g digest)), (mailRegistry g)\<lparr>tr_invocations := [(''mail@1.0.0'', 1)]\<rparr>, Some (replaceIntent emptyJournal (mailIntent digest)))"
proof -
  have "wellKeyed exampleHost (JObj [(''tool'', JStr ''mail@1.0.0''), (''parameters'', JObj (iv_parameters mailRequest)), (''resource'', orNull JStr (iv_resource mailRequest))])"
    by (simp add: mailRequest_def orNull_def)
  then obtain digest where d: "requestDigest exampleHost ''mail@1.0.0'' (iv_parameters mailRequest) (iv_resource mailRequest) = Inr digest"
    unfolding requestDigest_def using contentDigest_example by blast
  have "getTool (mailRegistry g) (iv_tool mailRequest) (iv_version mailRequest) = Some (mailEntry g)"
    by (simp add: getTool_def mailRegistry_def mailRequest_def)
  moreover have "df_secret_parameters (mailTool g) = [''token'']" by (simp add: mailTool_def)
  ultimately have "admitRequest exampleHost (mailRegistry g) mailRequest mailContext = Inr \<lparr>ad_entry = mailEntry g, ad_secrets = mailSecrets, ad_digest = digest\<rparr>"
    using d mail_secrets mail_key [of g]
    by (simp add: admitRequest_def requireEntry_def mailEntry_def fromSecrets_def fromHarness_def rguard_def checkPhase_def checkResource_def
        checkParameterBounds_def checkGrant_def checkApproval_def)
      (simp add: mailTool_def mailRequest_def mailContext_def)
  moreover have "externalGate exampleHost (mailTool g) mailRequest digest (Some emptyJournal) = Inr (Inr (Some (''k'', emptyJournal)))"
    by (simp add: externalGate_def isExternal_def mailTool_def mailRequest_def findByIdempotencyKey_def allIntents_def emptyJournal_def)
  moreover have "consumeQuota (mailRegistry g) (mailTool g) = Inr ((mailRegistry g)\<lparr>tr_invocations := [(''mail@1.0.0'', 1)]\<rparr>)"
    using mail_key [of g] by (simp add: consumeQuota_def quotaRemaining_def invocationsOf_def mailRegistry_def mailTool_def)
  moreover have "openIntent emptyJournal (intentInput (mailTool g) mailRequest digest ''k'') = Inr (mailIntent digest, replaceIntent emptyJournal (mailIntent digest))"
    using mail_key [of g] by (simp add: openIntent_def Let_def intentInput_def emptyJournal_def mailIntent_def mailRequest_def)
  ultimately show ?thesis by (intro exI [of _ digest]) (simp add: prepareInvocation_def mailCall_def mailEntry_def)
qed

lemma mail_registered: "\<exists>g. registerTool exampleHost anySchema emptyRegistry mailDescriptor echoHandler = Inr (mailTool g, mailRegistry g)"
proof -
  obtain g where "normalizeToolDefinition exampleHost mailDescriptor = Inr (mailTool g)" using mail_normalized by blast
  then show ?thesis by (intro exI [of _ g])
    (simp add: registerTool_def anySchema_def emptyRegistry_def versionsOf_def mailRegistry_def mailEntry_def, simp add: mailTool_def)
qed

section \<open>The theorems on the run\<close>

text \<open>The tool is called, the journal checkpointed, the effect takes place, and the process restarts before it hears of it.\<close>

definition mailOwner :: "string \<Rightarrow> string \<times> string" where
  "mailOwner x = (''mail@1.0.0'', ''k'')"

definition calledMail :: "string \<Rightarrow> string \<Rightarrow> nat tool_system" where
  "calledMail g digest = \<lparr>sy_registry = (mailRegistry g)\<lparr>tr_invocations := [(''mail@1.0.0'', 1)]\<rparr>,
     sy_journal = replaceIntent emptyJournal (mailIntent digest), sy_inflight = [(mailCall g digest, 1)], sy_checkpoint = [],
     sy_open = [(''i1'', ''mail@1.0.0'', ''k'')], sy_applied = []\<rparr>"

definition crashedMail :: "string \<Rightarrow> string \<Rightarrow> nat tool_system" where
  "crashedMail g digest = (calledMail g digest)\<lparr>sy_registry := mailRegistry g, sy_journal := restoreJournal [mailIntent digest], sy_inflight := [],
     sy_checkpoint := [mailIntent digest], sy_open := [], sy_applied := [(''i1'', ''mail@1.0.0'', ''k'')]\<rparr>"

lemma mail_called: "\<exists>g digest. tool_reachable exampleHost anySchema mailOwner (calledMail g digest)"
proof -
  obtain g where g: "registerTool exampleHost anySchema emptyRegistry mailDescriptor echoHandler = Inr (mailTool g, mailRegistry g)"
    using mail_registered by blast
  obtain digest where p: "prepareInvocation exampleHost (mailRegistry g) mailRequest mailContext (Some emptyJournal) =
     (Inr (prepared_call (mailCall g digest)), (mailRegistry g)\<lparr>tr_invocations := [(''mail@1.0.0'', 1)]\<rparr>, Some (replaceIntent emptyJournal (mailIntent digest)))"
    using mail_prepared by blast
  let ?s = "startSystem\<lparr>sy_registry := mailRegistry g\<rparr>"
  have r: "tool_reachable exampleHost anySchema mailOwner ?s"
    by (rule tool_next [OF tool_start registered]) (use g in \<open>simp add: startSystem_def\<close>)
  have "tool_step exampleHost anySchema mailOwner ?s (?s\<lparr>sy_registry := (mailRegistry g)\<lparr>tr_invocations := [(''mail@1.0.0'', 1)]\<rparr>,
      sy_journal := replaceIntent emptyJournal (mailIntent digest), sy_inflight := sy_inflight ?s @ [(mailCall g digest, 1)],
      sy_open := sy_open ?s @ effectOf (mailCall g digest)\<rparr>)"
    by (rule called) (use p in \<open>simp_all add: startSystem_def mailCall_def mailIntent_def mailOwner_def actionOf_def\<close>)
  moreover have "effectOf (mailCall g digest) = [(''i1'', ''mail@1.0.0'', ''k'')]" by (simp add: effectOf_def mailCall_def mailIntent_def)
  ultimately have "tool_step exampleHost anySchema mailOwner ?s (calledMail g digest)" by (simp add: calledMail_def startSystem_def)
  then show ?thesis using tool_next [OF r] by blast
qed

lemma mail_crashed: "\<exists>g digest. tool_reachable exampleHost anySchema mailOwner (crashedMail g digest)"
proof -
  obtain g digest where r: "tool_reachable exampleHost anySchema mailOwner (calledMail g digest)" using mail_called by blast
  let ?s = "(calledMail g digest)\<lparr>sy_checkpoint := [mailIntent digest]\<rparr>"
  have "allIntents (replaceIntent emptyJournal (mailIntent digest)) = [mailIntent digest]"
    by (simp add: allIntents_def replaceIntent_def emptyJournal_def)
  then have c: "tool_reachable exampleHost anySchema mailOwner ?s"
    using tool_next [OF r checkpointed] by (simp add: calledMail_def)
  let ?t = "?s\<lparr>sy_open := [] @ [], sy_applied := sy_applied ?s @ [(''i1'', ''mail@1.0.0'', ''k'')]\<rparr>"
  have t: "tool_reachable exampleHost anySchema mailOwner ?t"
    by (rule tool_next [OF c took_effect]) (simp add: calledMail_def)
  have "committed ?t" by (simp add: committed_def requests_def calledMail_def mailIntent_def)
  from tool_next [OF t restarted [OF this, of exampleHost anySchema mailOwner "mailRegistry g"]]
  show ?thesis by (intro exI [of _ g] exI [of _ digest]) (simp add: crashedMail_def calledMail_def)
qed

theorem external_effects_once_witness:
  "\<exists>g digest. tool_reachable exampleHost anySchema mailOwner (crashedMail g digest)
     \<and> sy_applied (crashedMail g digest) = [(''i1'', ''mail@1.0.0'', ''k'')] \<and> sy_inflight (crashedMail g digest) = []
     \<and> (\<exists>i. getIntent (sy_journal (crashedMail g digest)) ''i1'' = Some i \<and> ai_tool i = ''mail@1.0.0'' \<and> ai_idempotency_key i = ''k'')"
proof -
  obtain g digest where r: "tool_reachable exampleHost anySchema mailOwner (crashedMail g digest)" using mail_crashed by blast
  have a: "sy_applied (crashedMail g digest) = [(''i1'', ''mail@1.0.0'', ''k'')]" "sy_inflight (crashedMail g digest) = []"
    by (simp_all add: crashedMail_def)
  show ?thesis using external_effects_once [OF r] r a by (intro exI [of _ g] exI [of _ digest] conjI) auto
qed

lemma mail_runs:
  "\<exists>evidence registry' journal'. invokeTool exampleHost (mailRegistry g) mailRequest mailContext (Some emptyJournal) 0 = (Inr evidence, registry', journal', 1)
     \<and> \<not> tv_replayed evidence"
proof -
  obtain digest where p: "prepareInvocation exampleHost (mailRegistry g) mailRequest mailContext (Some emptyJournal) =
     (Inr (prepared_call (mailCall g digest)), (mailRegistry g)\<lparr>tr_invocations := [(''mail@1.0.0'', 1)]\<rparr>, Some (replaceIntent emptyJournal (mailIntent digest)))"
    using mail_prepared by blast
  let ?raw = "JObj [(''sent'', JObj [(''token'', JStr ''hunter2'')])]"
  obtain out flag where o: "redactOutput (mailTool g) ?raw [(''KEY'', ''hunter2'')] = (out, flag)" by (cases "redactOutput (mailTool g) ?raw [(''KEY'', ''hunter2'')]")
  have "out = redactSecretValues ?raw [(''KEY'', ''hunter2'')]" using o by (simp add: redactOutput_def mailTool_def)
  then have "wellKeyed exampleHost out" by (simp add: redactSecretValues_def)
  then obtain c where "contentDigest exampleHost out = Inr c" using contentDigest_example by blast
  then obtain evidence journal' where "settleAttempt exampleHost (mailCall g digest) 1 (handler_returned ?raw) (Some (replaceIntent emptyJournal (mailIntent digest)))
      = (Some (Inr evidence), journal')" "\<not> tv_replayed evidence"
    using o by (simp add: settleAttempt_def mailCall_def mailEntry_def mailSecrets_def closeIntent_def fromHarness_def completeIntent_def
        pending_moves mailIntent_def evidenceOf_def)
  then have "runAttempts exampleHost (mailCall g digest) 0 (Some (replaceIntent emptyJournal (mailIntent digest))) 0 = (Inr evidence, journal', 1)"
    by (subst runAttempts.simps) (simp add: mailCall_def mailEntry_def echoHandler_def mailSecrets_def)
  then show ?thesis using p \<open>\<not> tv_replayed evidence\<close> by (simp add: invokeTool_def)
qed

theorem invokeTool_authorised_witness:
  "\<exists>digest. requestDigest exampleHost ''mail@1.0.0'' (iv_parameters mailRequest) None = Inr digest
     \<and> authorised exampleHost (mailTool []) mailRequest mailContext (JObj [(''token'', JStr ''hunter2'')]) digest"
proof -
  obtain evidence registry' journal' where run: "invokeTool exampleHost (mailRegistry []) mailRequest mailContext (Some emptyJournal) 0 = (Inr evidence, registry', journal', 1)"
    using mail_runs by blast
  have get: "getTool (mailRegistry []) (iv_tool mailRequest) (iv_version mailRequest) = Some (mailEntry [])"
    by (simp add: getTool_def mailRegistry_def mailRequest_def)
  have d: "rt_definition (mailEntry []) = mailTool []" "df_secret_parameters (mailTool []) = [''token'']" "iv_resource mailRequest = None"
    by (simp_all add: mailEntry_def mailTool_def mailRequest_def)
  show ?thesis using invokeTool_authorised [OF run] get mail_secrets mail_key [of "[]"] by (auto simp: d mailSecrets_def)
qed

theorem invokeTool_redacts_witness:
  "\<exists>evidence registry' journal'. invokeTool exampleHost (mailRegistry []) mailRequest mailContext (Some emptyJournal) 0 = (Inr evidence, registry', journal', 1)
     \<and> (\<forall>t \<in> set (stringValues (tv_output evidence)). \<not> (\<exists>a b. t = a @ ''hunter2'' @ b))"
proof -
  obtain evidence registry' journal' where run: "invokeTool exampleHost (mailRegistry []) mailRequest mailContext (Some emptyJournal) 0 = (Inr evidence, registry', journal', 1)"
    "\<not> tv_replayed evidence" using mail_runs by blast
  have "secretReference (JObj [(''$env'', JStr ''KEY'')]) = Some ''KEY''" by (simp add: SECRET_REFERENCE_KEY_def mail_patterns)
  then have sites: "findSecretReferences exampleHost (iv_parameters mailRequest) = [\<lparr>rs_path = ''.token'', rs_name = ''KEY''\<rparr>]"
    by (simp add: findSecretReferences_def mailRequest_def del: secretReference.simps(1))
  have "\<not> stringIncludes ''[redacted:secret]'' ''hunter2''" by (simp add: startsWith_def)
  then have "\<forall>site \<in> set (findSecretReferences exampleHost (iv_parameters mailRequest)). \<forall>v. ic_env mailContext (rs_name site) = Some v \<longrightarrow>
       \<not> (\<exists>a b. ''[redacted:secret]'' = a @ v @ b)"
    unfolding stringIncludes_iff by (simp add: sites mailContext_def)
  from invokeTool_redacts [OF run this] have "\<forall>t \<in> set (stringValues (tv_output evidence)). \<not> (\<exists>a b. t = a @ ''hunter2'' @ b)"
    by (simp add: sites mailContext_def)
  then show ?thesis using run(1) by auto
qed

end
