(* ===== verification/Spec2Isabelle.thy ===== *)
theory Spec2Isabelle
  imports Readiness Plan_Soundness Workflow_State Impact_Set Dag_Run Loop_Examples Tool_Examples
begin

text \<open>
  A verification development for universal-harness.

  \<^bold>\<open>The program.\<close> universal-harness runs coding agents under control: a change is analysed for impact over
  a knowledge graph (\<^verbatim>\<open>packages/graph\<close>), planned as tasks with declared write paths, exclusive resources and
  budgets (\<^verbatim>\<open>packages/runtime/src/planning\<close>), compiled into parallel waves, and dispatched by a scheduler
  (\<^verbatim>\<open>packages/runtime/src/scheduling\<close>) that holds resource locks, leases with fencing tokens and a budget
  account, all of which are rebuilt from committed records after a restart. Records are canonical JSON
  with content digests (\<^verbatim>\<open>packages/core/src/identity\<close>, \<^verbatim>\<open>schema/envelope.ts\<close>). A workflow state machine
  (\<^verbatim>\<open>packages/runtime/src/workflow\<close>) governs the operation around it, whose phases form a DAG of capability
  modules (\<^verbatim>\<open>packages/core/src/capability\<close>) run by a resumable engine (\<^verbatim>\<open>workflow/dag-engine.ts\<close>). Every action is
  decided by layered policies and capability grants (\<^verbatim>\<open>packages/runtime/src/policy\<close>), and one task is executed by a
  managed loop (\<^verbatim>\<open>packages/runtime/src/loop\<close>) in which a model only proposes: the controller meters its budget,
  narrows its grant, applies its typed proposals to the working state and verifies its completion. Tools are
  invoked through a registry (\<^verbatim>\<open>packages/runtime/src/tools\<close>) that checks the request, resolves and redacts secrets
  and journals every external effect before it happens.

  \<^bold>\<open>The theories.\<close>
  \<^item> \<open>Harness_Prelude\<close>: errors, the result monad, JavaScript maps, the \<open>host\<close> record. \<open>Js_Text\<close>: UTF-16 texts,
    slicing and the regular expressions the source uses.
  \<^item> \<open>Locator\<close>, \<open>Canonical_Json\<close>: \<^verbatim>\<open>identity/locator.ts\<close>; \<^verbatim>\<open>canonical-json.ts\<close>, \<^verbatim>\<open>digest.ts\<close>,
    \<^verbatim>\<open>canonical-set.ts\<close> and \<^verbatim>\<open>schema/envelope.ts\<close>. Round trip of locators, injectivity of the canonical text.
  \<^item> \<open>Planning_Task\<close>, \<open>Task_Digest\<close>: \<^verbatim>\<open>planning/task.ts\<close> and the task checks of \<^verbatim>\<open>planning/validator.ts\<close>:
    accepted write paths stay inside the repository, the semantic digest ignores listing order.
  \<^item> \<open>Plan_Validator\<close>, \<open>Plan_Acyclic\<close>, \<open>Plan_Soundness\<close>: the proposal validator of \<^verbatim>\<open>planning/validator.ts\<close>, from raw
    JSON to task specifications; what an accepted plan satisfies, symbolic links included, and that it compiles.
  \<^item> \<open>Wave_Compiler\<close>, \<open>Wave_Order\<close>, \<open>Wave_Layout\<close>: \<^verbatim>\<open>planning/waves.ts\<close>, its topological order (exact and
    terminating) and its layout (a partition, dependencies earlier, conflict free, each task earliest), with the error of
    every plan that does not compile.
  \<^item> \<open>Resource_Locks\<close>, \<open>Lock_Rebuild\<close>: \<^verbatim>\<open>scheduling/resource-locks.ts\<close>, mutual exclusion, and recovery of the held entries from the leases.
  \<^item> \<open>Lease_Record\<close>, \<open>Lease_Chain\<close>, \<open>Lease_Fencing\<close>, \<open>Lease_Examples\<close>: \<^verbatim>\<open>scheduling/lease.ts\<close> and
    \<^verbatim>\<open>core/src/scheduling/records.ts\<close>: the lease state machine and fencing.
  \<^item> \<open>Budget_Account\<close>, \<open>Budget_Restore\<close>: \<^verbatim>\<open>scheduling/budget.ts\<close>, no overspending, restoration.
  \<^item> \<open>Scheduler_Projection\<close>, \<open>Readiness\<close>: \<^verbatim>\<open>scheduling/projection.ts\<close> and \<^verbatim>\<open>readiness.ts\<close>: statuses from
    committed facts, and the selection of tasks to dispatch.
  \<^item> \<open>Workflow_Resume\<close>, \<open>Workflow_State\<close>: \<^verbatim>\<open>workflow/state-machine.ts\<close>, the state decisions of \<^verbatim>\<open>operation.ts\<close>, and \<^verbatim>\<open>resume.ts\<close>
    with the checks of a resume and the runs it closes: operations follow their schema and are never stuck, but for a
    blocked operation whose resume checks fail.
  \<^item> \<open>Impact_Propagation\<close>, \<open>Impact_Set\<close>: \<^verbatim>\<open>graph/src/impact\<close>: breadth-first propagation, classification,
    advisory merge and the approval that freezes a set.
  \<^item> \<open>Policy_Action\<close>, \<open>Policy_Merge\<close>, \<open>Policy_Strict\<close>, \<open>Policy_Ceilings\<close>, \<open>Policy_Grant\<close>, \<open>Policy_Evaluator\<close>,
    \<open>Policy_Examples\<close>: \<^verbatim>\<open>runtime/src/policy\<close>. Actions are normalised; merging layers refines a strictness order; an
    allowed action respects every layer in its paths, resources and phases and has the required authority; grants stay within
    the policy and only shrink.
  \<^item> \<open>Id_Graph\<close>, \<open>Operation_Dag\<close>, \<open>Dag_Valid\<close>: \<^verbatim>\<open>core/src/capability/registry.ts\<close> and \<^verbatim>\<open>dag.ts\<close>: the dependency closure is
    the least one, validation is exact, built DAGs are valid.
  \<^item> \<open>Dag_Engine\<close>, \<open>Dag_Resume\<close>, \<open>Dag_Run\<close>: \<^verbatim>\<open>workflow/dag.ts\<close> and \<^verbatim>\<open>dag-engine.ts\<close>: replay of the checkpoint journal, the
    equivalence of a resumed and an uninterrupted run, completion of a run.
  \<^item> \<open>Live_Blockers\<close>, \<open>Working_State\<close>: \<^verbatim>\<open>workflow/blockers.ts\<close> and \<^verbatim>\<open>working-state.ts\<close>: reconciliation is idempotent, an
    applied proposal keeps the state well formed and within its ceilings.
  \<^item> \<open>Run_Outcome\<close>, \<open>Loop_Policy\<close>, \<open>Loop_Outcome\<close>, \<open>Task_Envelope\<close>, \<open>Loop_Controller\<close>, \<open>Loop_Run\<close>, \<open>Loop_Stagnation\<close>,
    \<open>Loop_Examples\<close>: \<^verbatim>\<open>runtime/src/loop\<close>. A policy never exceeds its layers; a managed run ends within its steps for
    every model, succeeds only on verified evidence, leaves the harness in control, and stops a model that
    repeats itself.
  \<^item> \<open>Tool_Secrets\<close>, \<open>Tool_Definition\<close>, \<open>Tool_Registry\<close>, \<open>Tool_Intent\<close>, \<open>Tool_Invocation\<close>, \<open>Tool_Effects\<close>, \<open>Tool_Examples\<close>:
    \<^verbatim>\<open>runtime/src/secrets\<close> and \<^verbatim>\<open>runtime/src/tools\<close>. A handler runs only for an authorised request, no text value
    of an output holds a secret, and over every interleaving of calls, restarts from a committed checkpoint and reconciliations
    an external effect is applied at most once per idempotency key while probes tell the truth. The interleaving is a step
    relation: what the source does without an \<^verbatim>\<open>await\<close> is one step.

  \<^bold>\<open>Conventions.\<close> Throwing functions return a sum with the error on the left; every typed error of the
  source is a constructor. A JavaScript \<open>Map\<close> is an association list in insertion order. A number is a
  rational where the source checks integrality, an integer where a schema already fixed it. Strings are
  character lists. The hash function, NFC normalisation, locale comparison, number printing and date
  parsing are fields of the \<open>host\<close> record, with the assumptions a theorem needs stated in it; an example
  host shows they can hold.

  \<^bold>\<open>Termination.\<close> Every definition is total: loops are structural recursions over the list they visit, the
  topological sort has a measure, propagation recurses on the depth bound of its policy, retries of a tool
  recurse on the retries that are left and the managed loop on the steps its policy leaves. No fuel is used.

  \<^bold>\<open>Worlds.\<close> The runners of the DAG engine, the handlers of tools and the clock, meter, model, tools and verification
  of the managed loop are arguments of the definitions: functions from the state of the outside world to an answer and the next
  state, which may throw. A theorem that names no assumption on them holds for every one.

  \<^bold>\<open>Not modelled.\<close> The asynchronous coordinator, ledger transactions, VCS worktrees, agent processes, the
  SQLite projections, the command line, the dashboard and the adapters: they are I/O around the modelled core.
  The writer tokens of the working state are object identities. The capability compiler, the risk engine,
  the approval store and the context compiler hold decisions of their own and are left out.
\<close>

section \<open>Waves and locks\<close>

text \<open>The claims the lock table takes for a normalised task are the ones the compiler compared.\<close>

definition claimKeys :: "normalized_task \<Rightarrow> string set" where
  "claimKeys t = (\<lambda>p. ''write:'' @ p) ` set (n_writePaths t) \<union> (\<lambda>r. ''exclusive:'' @ r) ` set (n_resources t)"

lemma normalized_claims:
  assumes "normalizeTask H q s = Inr n"
  obtains claim keys where "taskClaim s token = Inr claim"
    "resourceKeys H (rc_write_paths claim) (rc_exclusive_resources claim) = Inr keys"
    "set keys = claimKeys n"
proof -
  from assms obtain ps rs where c: "ts_write_paths s = Some ps" "ts_exclusive_resources s = Some rs"
    by (auto simp: normalizeTask_def rbind_Inr_iff assertProtocol13TaskSpecification_def split: if_splits)
  with assms obtain rs' where n: "mapR (normalizeTaskWritePath H) ps = Inr (n_writePaths n)"
    "mapR (normalizeExclusiveResourceKey H) rs = Inr rs'" "n_resources n = dedupe rs'"
    by (auto simp: normalizeTask_def rbind_Inr_iff)
  let ?claim = "\<lparr>rc_task_id = ts_id s, rc_fencing_token = token, rc_write_paths = ps, rc_exclusive_resources = rs\<rparr>"
  let ?keys = "sort (dedupe (map (\<lambda>p. ''write:'' @ p) (n_writePaths n) @ map (\<lambda>r. ''exclusive:'' @ r) rs'))"
  show thesis
  proof (rule that [of ?claim ?keys])
    show "taskClaim s token = Inr ?claim" by (simp add: taskClaim_def c)
    show "resourceKeys H (rc_write_paths ?claim) (rc_exclusive_resources ?claim) = Inr ?keys" using n by (simp add: resourceKeys_def)
    show "set ?keys = claimKeys n"
      unfolding claimKeys_def n(3) set_sort set_dedupe set_append set_map ..
  qed
qed

definition acquireTask :: "host \<Rightarrow> (string \<Rightarrow> int) \<Rightarrow> resource_lock_table \<Rightarrow> task_specification \<Rightarrow> resource_lock_table result" where
  "acquireTask H token table t = rbind (taskClaim t (token (ts_id t))) (acquireTaskResources H table)"

lemma acquire_all:
  assumes "\<And>t. t \<in> set ts \<Longrightarrow> \<exists>q. normalizeTask H q (n_task t) = Inr t" "distinct ts"
    and "\<And>x y. x \<in> set ts \<Longrightarrow> y \<in> set ts \<Longrightarrow> x \<noteq> y \<Longrightarrow> \<not> tasksConflict x y"
    and "\<And>e t. e \<in> set (lt_entries table) \<Longrightarrow> t \<in> set ts \<Longrightarrow> \<exists>u. le_key e \<in> claimKeys u \<and> \<not> tasksConflict u t"
  shows "\<exists>table'. foldR (acquireTask H token) table (map n_task ts) = Inr table'"
  using assms
proof (induction ts arbitrary: table)
  case (Cons t ts)
  obtain q where "normalizeTask H q (n_task t) = Inr t" using Cons.prems(1) by (meson list.set_intros(1))
  then obtain claim keys where c: "taskClaim (n_task t) (token (nid t)) = Inr claim"
    and k: "resourceKeys H (rc_write_paths claim) (rc_exclusive_resources claim) = Inr keys"
      "set keys = claimKeys t"
    by (rule normalized_claims)
  have apart: "\<not> keysConflict a b"
    if "a \<in> claimKeys u"
      "\<not> tasksConflict u t" "b \<in> set keys" for a b u
    using that unfolding k(2) tasksConflict_def claimKeys_def by (auto simp del: append.simps)
  let ?table = "\<lparr>lt_entries = sortEntries H (lt_entries table @ claimEntries claim keys)\<rparr>"
  have "\<not> keysConflict (le_key e) b" if "b \<in> set keys" "e \<in> set (lt_entries table)" for e b
    using Cons.prems(4) [OF that(2), of t] apart that(1) by (meson list.set_intros(1))
  then have step: "acquireTask H token table (n_task t) = Inr ?table"
    using k(1) by (auto simp: acquireTask_def c acquireTaskResources_Inr)
  have held: "\<exists>u. le_key e \<in> claimKeys u
      \<and> \<not> tasksConflict u s" if "e \<in> set (lt_entries ?table)" "s \<in> set ts" for e s
  proof (cases "e \<in> set (lt_entries table)")
    case True
    then show ?thesis using Cons.prems(4) [OF True, of s] that(2) by auto
  next
    case False
    then have "le_key e \<in> set keys" using that(1) by (auto simp: sortEntries_def claimEntries_def)
    moreover have "\<not> tasksConflict t s" using Cons.prems(2,3) that(2) by auto
    ultimately show ?thesis unfolding k(2) by blast
  qed
  have "\<exists>table'. foldR (acquireTask H token) ?table (map n_task ts) = Inr table'"
    by (rule Cons.IH) (use Cons.prems held in auto)
  then show ?case using step by simp
qed simp

text \<open>
  C29. The wave compiler and the lock table agree: any selection of tasks of one compiled wave, in any
  order and with any fencing tokens, acquires all its resource locks one after the other from the empty
  table. So a wave can be dispatched in full without a task ever finding a resource busy.
\<close>
theorem wave_acquires_all_locks:
  assumes "compileParallelWaves H plan = Inr waves" "w < length waves"
    and "distinct ts" "set ts \<subseteq> set plan" "\<forall>t \<in> set ts. ts_id t \<in> set (wave_task_ids (waves ! w))"
  shows "\<exists>table. foldR (acquireTask H token) emptyResourceLockTable ts = Inr table"
proof -
  obtain tasks members where n: "normalizeTasks H plan = Inr tasks"
    and mem: "\<forall>t \<in> set tasks. nid t \<in> set (wave_task_ids (waves ! w)) \<longleftrightarrow> t \<in> set members"
    and free: "\<forall>x \<in> set members. \<forall>y \<in> set members. x \<noteq> y \<longrightarrow> \<not> tasksConflict x y"
    by (rule wave_pairwise [OF assms(1,2)])
  have "\<forall>s \<in> set ts. \<exists>t \<in> set tasks. n_task t = s" using spec_normalized [OF n] assms(4) by blast
  then obtain f where f: "\<And>s. s \<in> set ts \<Longrightarrow> f s \<in> set tasks \<and> n_task (f s) = s" by metis
  then have ts: "ts = map n_task (map f ts)" by (simp add: map_idI)
  have inj: "inj_on f (set ts)" using f by (metis inj_onI)
  have in_wave: "f s \<in> set members" if "s \<in> set ts" for s using mem f [OF that] assms(5) that by auto
  have "\<exists>table. foldR (acquireTask H token) emptyResourceLockTable (map n_task (map f ts)) = Inr table"
  proof (rule acquire_all)
    show "\<exists>q. normalizeTask H q (n_task t) = Inr t" if "t \<in> set (map f ts)" for t
      using that f normalizeTasks_Inr(4) [OF n] by auto
    show "distinct (map f ts)" using assms(3) inj by (simp add: distinct_map)
    show "\<not> tasksConflict x y" if "x \<in> set (map f ts)" "y \<in> set (map f ts)" "x \<noteq> y" for x y
      using that in_wave free by auto
  qed (simp add: emptyResourceLockTable_def)
  then show ?thesis using ts by simp
qed

theorem wave_acquires_all_locks_witness:
  "\<exists>table. foldR (acquireTask exampleHost (\<lambda>_. 1)) emptyResourceLockTable
     (filter (\<lambda>t. List.member (wave_task_ids (exampleWaves ! 0)) (ts_id t)) examplePlan) = Inr table"
proof (rule wave_acquires_all_locks [OF compile_examplePlan, of 0])
  show "0 < length exampleWaves" "distinct (filter (\<lambda>t. List.member (wave_task_ids (exampleWaves ! 0)) (ts_id t)) examplePlan)"
    by code_simp+
qed auto

end
